(* ===== verification/Prelude.thy ===== *)
theory Prelude
  imports Main "HOL-Library.List_Lexorder" "HOL-Library.Char_ord"
begin

text \<open>
  Shared vocabulary of the development: the errors and results of the API services, the
  sequencing of fallible steps, the row operations every service issues against its tables
  (a table is the list of its rows, in the order the database delivers them), maps kept as
  association lists in insertion order (JavaScript's \<open>Map\<close>), and strings with a separator.
\<close>

named_theorems row_simps \<open>reading and writing table rows\<close>
named_theorems result_simps \<open>sequencing of fallible steps\<close>

section \<open>Identifiers, times, errors\<close>

type_synonym ident = string
type_synonym time = int

text \<open>
  The exceptions of \<open>@nestjs/common\<close> the services throw. The German message of the source is
  replaced by a short tag. \<open>Internal\<close> is any other rejected promise (a database constraint that
  no handler maps, an explicit \<open>throw new Error\<close>).
\<close>

datatype api_error =
    BadRequest string
  | Unauthorized string
  | Forbidden string
  | NotFound string
  | Conflict string
  | Unavailable string
  | Internal string

type_synonym 'a result = "api_error + 'a"

fun is_not_found :: "api_error \<Rightarrow> bool" where
  "is_not_found (NotFound _) = True"
| "is_not_found _ = False"

fun is_bad_request :: "api_error \<Rightarrow> bool" where
  "is_bad_request (BadRequest _) = True"
| "is_bad_request _ = False"

section \<open>Sequencing\<close>

fun rbind :: "'e + 'a \<Rightarrow> ('a \<Rightarrow> 'e + 'b) \<Rightarrow> 'e + 'b" where
  "rbind (Inl e) f = Inl e"
| "rbind (Inr x) f = f x"

definition rguard :: "bool \<Rightarrow> 'e \<Rightarrow> 'e + unit" where
  "rguard b e = (if b then Inr () else Inl e)"

definition or_throw :: "'e \<Rightarrow> 'a option \<Rightarrow> 'e + 'a" where
  "or_throw e x = (case x of None \<Rightarrow> Inl e | Some y \<Rightarrow> Inr y)"

fun rmap :: "('a \<Rightarrow> 'e + 'b) \<Rightarrow> 'a list \<Rightarrow> 'e + 'b list" where
  "rmap f [] = Inr []"
| "rmap f (x # xs) = rbind (f x) (\<lambda>y. rbind (rmap f xs) (\<lambda>ys. Inr (y # ys)))"

lemma rbind_eq_Inr [result_simps]:
  "rbind m f = Inr y \<longleftrightarrow> (\<exists>x. m = Inr x \<and> f x = Inr y)"
  by (cases m) auto

lemma rbind_eq_Inl [result_simps]:
  "rbind m f = Inl e \<longleftrightarrow> m = Inl e \<or> (\<exists>x. m = Inr x \<and> f x = Inl e)"
  by (cases m) auto

lemma rbind_InrE: "rbind m f = Inr y \<Longrightarrow> (\<And>x. m = Inr x \<Longrightarrow> f x = Inr y \<Longrightarrow> P) \<Longrightarrow> P"
  by (cases m) auto

lemma rguard_eq_Inr [simp]: "rguard b e = Inr u \<longleftrightarrow> b"
  by (simp add: rguard_def)

lemma rguard_eq_Inl [simp]: "rguard b e = Inl e' \<longleftrightarrow> \<not> b \<and> e' = e"
  by (auto simp: rguard_def)

lemma rguard_True [simp]: "rguard True e = Inr ()"
  by simp

lemma rguard_False [simp]: "rguard False e = Inl e"
  by simp

lemma or_throw_eq_Inr [simp]: "or_throw e x = Inr y \<longleftrightarrow> x = Some y"
  by (cases x) (auto simp: or_throw_def)

lemma or_throw_eq_Inl [simp]: "or_throw e x = Inl e' \<longleftrightarrow> x = None \<and> e' = e"
  by (cases x) (auto simp: or_throw_def)

lemma or_throw_Some [simp]: "or_throw e (Some y) = Inr y"
  by (simp add: or_throw_def)

lemma or_throw_None [simp]: "or_throw e None = Inl e"
  by (simp add: or_throw_def)

lemma rmap_eq_Inr:
  "rmap f xs = Inr ys \<longleftrightarrow> list_all2 (\<lambda>x y. f x = Inr y) xs ys"
  by (induction xs arbitrary: ys) (auto simp: result_simps list_all2_Cons1)

lemma rmap_eq_Inl: "rmap f xs = Inl e \<Longrightarrow> \<exists>x \<in> set xs. f x = Inl e"
  by (induction xs) (auto simp: result_simps)

lemma rmap_Inr_elem: "rmap f xs = Inr ys \<Longrightarrow> x \<in> set xs \<Longrightarrow> \<exists>y \<in> set ys. f x = Inr y"
  by (induction xs arbitrary: ys) (auto simp: result_simps)

section \<open>Rows\<close>

text \<open>
  \<open>update_where\<close>, \<open>delete_where\<close> and \<open>count_where\<close> are Prisma's \<open>updateMany\<close>,
  \<open>deleteMany\<close> and \<open>count\<close>; \<open>List.find\<close> is \<open>findUnique\<close>/\<open>findFirst\<close> and \<open>filter\<close> is
  \<open>findMany\<close>. \<open>insert_row\<close> is \<open>create\<close> on a table with the unique columns \<open>key\<close>.
\<close>

definition update_where :: "('r \<Rightarrow> bool) \<Rightarrow> ('r \<Rightarrow> 'r) \<Rightarrow> 'r list \<Rightarrow> 'r list" where
  "update_where p f rows = map (\<lambda>r. if p r then f r else r) rows"

definition delete_where :: "('r \<Rightarrow> bool) \<Rightarrow> 'r list \<Rightarrow> 'r list" where
  "delete_where p rows = filter (\<lambda>r. \<not> p r) rows"

definition count_where :: "('r \<Rightarrow> bool) \<Rightarrow> 'r list \<Rightarrow> nat" where
  "count_where p rows = length (filter p rows)"

definition insert_row :: "('r \<Rightarrow> 'k) \<Rightarrow> 'e \<Rightarrow> 'r \<Rightarrow> 'r list \<Rightarrow> 'e + 'r list" where
  "insert_row key e r rows = (if key r \<in> key ` set rows then Inl e else Inr (rows @ [r]))"

lemma set_update_where [row_simps]:
  "set (update_where p f rows) = (\<lambda>r. if p r then f r else r) ` set rows"
  by (simp add: update_where_def)

lemma set_delete_where [row_simps]: "set (delete_where p rows) = {r \<in> set rows. \<not> p r}"
  by (auto simp: delete_where_def)

lemma image_key_delete [row_simps]:
  "key ` {r \<in> S. key r \<noteq> i} = key ` S - {i}"
  by auto

lemma length_update_where [row_simps]: "length (update_where p f rows) = length rows"
  by (simp add: update_where_def)

lemma map_update_where:
  "(\<And>r. p r \<Longrightarrow> key (f r) = key r) \<Longrightarrow> map key (update_where p f rows) = map key rows"
  by (simp add: update_where_def)

lemma key_image_update_where:
  assumes "\<And>r. p r \<Longrightarrow> key (f r) = key r"
  shows "key ` set (update_where p f rows) = key ` set rows"
  using arg_cong [OF map_update_where [of p key f rows, OF assms], of set] by simp

lemma distinct_delete_where:
  "distinct (map key rows) \<Longrightarrow> distinct (map key (delete_where p rows))"
  by (simp add: delete_where_def distinct_map_filter)

lemma count_where_eq_0 [row_simps]: "count_where p rows = 0 \<longleftrightarrow> (\<forall>r \<in> set rows. \<not> p r)"
  by (auto simp: count_where_def filter_empty_conv)

lemma count_where_pos [row_simps]: "0 < count_where p rows \<longleftrightarrow> (\<exists>r \<in> set rows. p r)"
  by (auto simp: count_where_def filter_empty_conv)

lemma insert_row_eq_Inr:
  "insert_row key e r rows = Inr rows' \<longleftrightarrow> key r \<notin> key ` set rows \<and> rows' = rows @ [r]"
  by (auto simp: insert_row_def)

lemma insert_row_eq_Inl:
  "insert_row key e r rows = Inl e' \<longleftrightarrow> key r \<in> key ` set rows \<and> e' = e"
  by (auto simp: insert_row_def)

lemma insert_row_distinct:
  "insert_row key e r rows = Inr rows' \<Longrightarrow> distinct (map key rows) \<Longrightarrow> distinct (map key rows')"
  by (auto simp: insert_row_eq_Inr)

lemma distinct_map_snoc:
  "distinct (map f (xs @ [y])) \<longleftrightarrow> distinct (map f xs) \<and> f y \<notin> f ` set xs"
  by auto

lemma find_SomeD: "List.find p rows = Some r \<Longrightarrow> p r \<and> r \<in> set rows"
  by (auto simp: find_Some_iff)

lemma find_by_key:
  "distinct (map key rows) \<Longrightarrow> r \<in> set rows \<Longrightarrow> key r = k \<Longrightarrow>
   List.find (\<lambda>r. key r = k) rows = Some r"
proof (induction rows)
  case Nil
  then show ?case by simp
next
  case (Cons a rows)
  then show ?case by (auto simp: image_iff)
qed

lemma find_key_iff:
  "distinct (map key rows) \<Longrightarrow>
   List.find (\<lambda>r. key r = k) rows = Some r \<longleftrightarrow> r \<in> set rows \<and> key r = k"
  using find_by_key [of key rows r k] by (auto dest: find_SomeD)

lemma find_key_None: "List.find (\<lambda>r. key r = k) rows = None \<longleftrightarrow> k \<notin> key ` set rows"
  by (auto simp: find_None_iff image_iff)

lemma find_append:
  "List.find p (xs @ ys) = (case List.find p xs of None \<Rightarrow> List.find p ys | Some x \<Rightarrow> Some x)"
  by (induction xs) auto

lemma find_snoc_new: "\<forall>x \<in> set rows. \<not> p x \<Longrightarrow> p r \<Longrightarrow> List.find p (rows @ [r]) = Some r"
  by (induction rows) auto

lemma find_update_where:
  assumes "\<And>r. key (f r) = key r"
  shows "List.find (\<lambda>r. key r = k) (update_where p f rows) =
    map_option (\<lambda>r. if p r then f r else r) (List.find (\<lambda>r. key r = k) rows)"
  unfolding update_where_def using assms by (induction rows) auto

lemma filter_update_where:
  "(\<And>r. r \<in> set rows \<Longrightarrow> p r \<Longrightarrow> \<not> q r \<and> \<not> q (f r)) \<Longrightarrow> filter q (update_where p f rows) = filter q rows"
  unfolding update_where_def by (induction rows) auto

lemma update_where_append: "update_where p f (xs @ ys) = update_where p f xs @ update_where p f ys"
  by (simp add: update_where_def)

lemma count_where_one:
  assumes "count_where p rows = 1" and "r \<in> set rows" and "p r" and "q \<in> set rows" and "p q"
  shows "q = r"
proof -
  from assms(1) obtain x where "filter p rows = [x]"
    by (auto simp: count_where_def length_Suc_conv)
  moreover have "r \<in> set (filter p rows)" "q \<in> set (filter p rows)" using assms(2-5) by simp_all
  ultimately show ?thesis by simp
qed

lemma find_filter_key:
  "distinct (map key rows) \<Longrightarrow>
   List.find (\<lambda>r. key r = k) (filter q rows) =
     (case List.find (\<lambda>r. key r = k) rows of
        None \<Rightarrow> None | Some r \<Rightarrow> if q r then Some r else None)"
proof (induction rows)
  case Nil
  then show ?case by simp
next
  case (Cons a rows)
  show ?case
  proof (cases "key a = k")
    case True
    with Cons.prems have "List.find (\<lambda>r. key r = k) (filter q rows) = None"
      by (auto simp: find_None_iff image_iff)
    with True show ?thesis by simp
  next
    case False
    with Cons show ?thesis by simp
  qed
qed

lemma unique_key_eq:
  "distinct (map key rows) \<Longrightarrow> r \<in> set rows \<Longrightarrow> s \<in> set rows \<Longrightarrow> key r = key s \<Longrightarrow> r = s"
  by (auto simp: distinct_map inj_on_def)

lemma distinct_update_unique:
  assumes "distinct (map key rows)" and "distinct (map ident rows)"
    and "\<And>r. r \<in> set rows \<Longrightarrow> ident r \<noteq> i \<Longrightarrow> \<forall>s \<in> set rows. ident s = i \<longrightarrow> key (f s) \<noteq> key r"
  shows "distinct (map key (update_where (\<lambda>r. ident r = i) f rows))"
  using assms
proof (induction rows)
  case Nil
  then show ?case by (simp add: update_where_def)
next
  case (Cons a rows)
  have IH: "distinct (map key (update_where (\<lambda>r. ident r = i) f rows))"
    using Cons by simp
  show ?case
  proof (cases "ident a = i")
    case True
    have same: "update_where (\<lambda>r. ident r = i) f rows = rows"
      unfolding update_where_def by (rule map_idI) (use Cons.prems(2) True in \<open>auto simp: image_iff\<close>)
    have "key (f a) \<notin> key ` set rows"
    proof
      assume "key (f a) \<in> key ` set rows"
      then obtain r where r: "r \<in> set rows" "key (f a) = key r" by auto
      then have "ident r \<noteq> i" using Cons.prems(2) True by (auto simp: image_iff)
      with Cons.prems(3) [of r] r True show False by auto
    qed
    with Cons.prems(1) True same show ?thesis by (simp add: update_where_def)
  next
    case False
    have "key a \<notin> key ` set (update_where (\<lambda>r. ident r = i) f rows)"
    proof
      assume "key a \<in> key ` set (update_where (\<lambda>r. ident r = i) f rows)"
      then obtain s where s: "s \<in> set rows" "key a = key (if ident s = i then f s else s)"
        by (auto simp: row_simps)
      with Cons.prems(3) [of a] False Cons.prems(1) show False
        by (cases "ident s = i") (auto simp: image_iff)
    qed
    moreover have "update_where (\<lambda>r. ident r = i) f (a # rows) =
        a # update_where (\<lambda>r. ident r = i) f rows"
      using False by (simp add: update_where_def)
    ultimately show ?thesis using IH by (simp only: list.map distinct.simps set_map) blast
  qed
qed

lemma count_where_unique:
  assumes "distinct (map key rows)" and "r \<in> set rows" and "p r"
    and "\<And>s. s \<in> set rows \<Longrightarrow> p s \<Longrightarrow> s = r"
  shows "count_where p rows = 1"
proof -
  have "distinct (filter p rows)" using assms(1) by (simp add: distinct_map)
  moreover have "set (filter p rows) = {r}"
  proof
    show "set (filter p rows) \<subseteq> {r}" using assms(4) by fastforce
    show "{r} \<subseteq> set (filter p rows)" using assms(2,3) by simp
  qed
  ultimately show ?thesis
    using distinct_card [of "filter p rows"] by (simp add: count_where_def)
qed

lemma find_all_equal:
  assumes "e0 \<in> set xs" and "p e0" and "\<And>e. e \<in> set xs \<Longrightarrow> p e \<Longrightarrow> e = e0"
  shows "List.find p xs = Some e0"
proof (cases "List.find p xs")
  case None
  with assms(1,2) show ?thesis by (simp add: find_None_iff)
next
  case (Some e)
  then have "e \<in> set xs" and "p e" by (auto dest: find_SomeD)
  then have "e = e0" by (rule assms(3))
  with Some show ?thesis by simp
qed

lemma set_map_filter: "set (List.map_filter f xs) = {y. \<exists>x \<in> set xs. f x = Some y}"
proof (induction xs)
  case Nil
  then show ?case by simp
next
  case (Cons x xs)
  then show ?case by (cases "f x") auto
qed

section \<open>Optional values\<close>

text \<open>An update's field: a new value if it was given, the old one if it was left out.\<close>

definition given :: "'a option \<Rightarrow> 'a \<Rightarrow> 'a" where
  "given x old = (case x of Some y \<Rightarrow> y | None \<Rightarrow> old)"

lemma given_None: "given None old = old"
  by (simp add: given_def)

lemma given_Some: "given (Some y) old = y"
  by (simp add: given_def)

text \<open>A JavaScript string that is set and not empty, and \<open>x || null\<close>.\<close>

definition truthy :: "string option \<Rightarrow> bool" where
  "truthy x \<longleftrightarrow> x \<noteq> None \<and> x \<noteq> Some []"

definition or_null :: "string option \<Rightarrow> string option" where
  "or_null x = (if truthy x then x else None)"

section \<open>Maps in insertion order\<close>

text \<open>
  \<open>map_put\<close> is \<open>Map.set\<close>: an existing key keeps its position and gets the new value.
\<close>

fun map_put :: "'k \<Rightarrow> 'v \<Rightarrow> ('k \<times> 'v) list \<Rightarrow> ('k \<times> 'v) list" where
  "map_put k v [] = [(k, v)]"
| "map_put k v ((k', v') # m) = (if k' = k then (k, v) # m else (k', v') # map_put k v m)"

lemma map_of_map_put [simp]: "map_of (map_put k v m) = (map_of m)(k \<mapsto> v)"
  by (induction k v m rule: map_put.induct) (auto simp: fun_eq_iff)

lemma keys_map_put: "fst ` set (map_put k v m) = insert k (fst ` set m)"
  by (induction k v m rule: map_put.induct) auto

lemma distinct_map_put: "distinct (map fst m) \<Longrightarrow> distinct (map fst (map_put k v m))"
proof (induction k v m rule: map_put.induct)
  case (2 k v k' v' m)
  then show ?case using keys_map_put [of k v m] by auto
qed simp

text \<open>\<open>[...new Set(xs)]\<close>: the first occurrence of every element, in order.\<close>

fun uniq_acc :: "'a list \<Rightarrow> 'a list \<Rightarrow> 'a list" where
  "uniq_acc seen [] = []"
| "uniq_acc seen (x # xs) =
     (if x \<in> set seen then uniq_acc seen xs else x # uniq_acc (x # seen) xs)"

definition uniq :: "'a list \<Rightarrow> 'a list" where
  "uniq xs = uniq_acc [] xs"

lemma set_uniq_acc: "set (uniq_acc seen xs) = set xs - set seen"
  by (induction seen xs rule: uniq_acc.induct) auto

lemma distinct_uniq_acc: "distinct (uniq_acc seen xs)"
  by (induction seen xs rule: uniq_acc.induct) (auto simp: set_uniq_acc)

lemma set_uniq [simp]: "set (uniq xs) = set xs"
  by (simp add: uniq_def set_uniq_acc)

lemma distinct_uniq [simp]: "distinct (uniq xs)"
  by (simp add: uniq_def distinct_uniq_acc)

section \<open>Keys with a separator\<close>

text \<open>Composite keys such as \<open>`${type}:${id}`\<close>: the prefix has no colon, so they are injective.\<close>

lemma split_at_sep:
  assumes "xs @ c # ys = xs' @ c # ys'" and "c \<notin> set xs" and "c \<notin> set xs'"
  shows "xs = xs' \<and> ys = ys'"
  using assms
proof (induction xs arbitrary: xs')
  case Nil
  then show ?case by (cases xs') auto
next
  case (Cons x xs)
  then show ?case by (cases xs') auto
qed

section \<open>Decimal numerals\<close>

definition digit_char :: "nat \<Rightarrow> char" where
  "digit_char d = char_of (48 + d)"

fun show_nat :: "nat \<Rightarrow> string" where
  "show_nat n = (if n < 10 then [digit_char n] else show_nat (n div 10) @ [digit_char (n mod 10)])"

declare show_nat.simps [simp del]

definition read_nat :: "string \<Rightarrow> nat" where
  "read_nat s = foldl (\<lambda>acc c. 10 * acc + (of_char c - 48)) 0 s"

lemma read_digit: "d < 10 \<Longrightarrow> of_char (digit_char d) - (48::nat) = d"
  by (simp add: digit_char_def of_char_of)

lemma read_show_nat: "read_nat (show_nat n) = n"
proof (induction n rule: show_nat.induct)
  case (1 n)
  show ?case
  proof (cases "n < 10")
    case True
    then show ?thesis by (subst show_nat.simps) (simp add: read_nat_def read_digit)
  next
    case False
    with 1 have "foldl (\<lambda>acc c. 10 * acc + (of_char c - 48)) 0 (show_nat (n div 10)) = n div 10"
      by (simp add: read_nat_def)
    with False show ?thesis
      by (subst show_nat.simps) (simp add: read_nat_def read_digit)
  qed
qed

lemma show_nat_inj: "show_nat m = show_nat n \<longleftrightarrow> m = n"
  by (metis read_show_nat)

end
