(* ===== verification/Permissions.thy ===== *)
theory Permissions
  imports Prelude
begin

text \<open>
  The permission catalogue of \<^verbatim>\<open>packages/shared-types/src/acl.ts\<close>: the resources and actions,
  the combinations the catalogue supports, and \<open>AclEntrySchema.safeParse\<close>, which reads a
  permission row of the database (two strings and a flag) and drops what the catalogue does
  not know.
\<close>

datatype resource =
    Pages | Categories | Media | Notes | Standards | Users | Settings | Roles
  | User_Permissions | Audit_Logs | Api_Keys | Smtp | System_Info | Exports | Mcp
  | Integrations | Backups | Groups | Spaces | Resource_Acls | Identity_Providers
  | Identity_Mappings | Identity_Sync

datatype action =
    Create | Read | Update | Delete | Share | Approve | Run | Restore | Assign_Role
  | Reset_Password | Purge | Test | Manage_Members

definition RESOURCES :: "resource list" where
  "RESOURCES =
     [Pages, Categories, Media, Notes, Standards, Users, Settings, Roles, User_Permissions,
      Audit_Logs, Api_Keys, Smtp, System_Info, Exports, Mcp, Integrations, Backups, Groups,
      Spaces, Resource_Acls, Identity_Providers, Identity_Mappings, Identity_Sync]"

definition ACTIONS :: "action list" where
  "ACTIONS =
     [Create, Read, Update, Delete, Share, Approve, Run, Restore, Assign_Role, Reset_Password,
      Purge, Test, Manage_Members]"

fun resource_name :: "resource \<Rightarrow> string" where
  "resource_name Pages = ''pages''"
| "resource_name Categories = ''categories''"
| "resource_name Media = ''media''"
| "resource_name Notes = ''notes''"
| "resource_name Standards = ''standards''"
| "resource_name Users = ''users''"
| "resource_name Settings = ''settings''"
| "resource_name Roles = ''roles''"
| "resource_name User_Permissions = ''user_permissions''"
| "resource_name Audit_Logs = ''audit_logs''"
| "resource_name Api_Keys = ''api_keys''"
| "resource_name Smtp = ''smtp''"
| "resource_name System_Info = ''system_info''"
| "resource_name Exports = ''exports''"
| "resource_name Mcp = ''mcp''"
| "resource_name Integrations = ''integrations''"
| "resource_name Backups = ''backups''"
| "resource_name Groups = ''groups''"
| "resource_name Spaces = ''spaces''"
| "resource_name Resource_Acls = ''resource_acls''"
| "resource_name Identity_Providers = ''identity_providers''"
| "resource_name Identity_Mappings = ''identity_mappings''"
| "resource_name Identity_Sync = ''identity_sync''"

fun action_name :: "action \<Rightarrow> string" where
  "action_name Create = ''create''"
| "action_name Read = ''read''"
| "action_name Update = ''update''"
| "action_name Delete = ''delete''"
| "action_name Share = ''share''"
| "action_name Approve = ''approve''"
| "action_name Run = ''run''"
| "action_name Restore = ''restore''"
| "action_name Assign_Role = ''assign_role''"
| "action_name Reset_Password = ''reset_password''"
| "action_name Purge = ''purge''"
| "action_name Test = ''test''"
| "action_name Manage_Members = ''manage_members''"

fun PERMISSION_CATALOG :: "resource \<Rightarrow> action list" where
  "PERMISSION_CATALOG Pages = [Create, Read, Update, Delete, Purge]"
| "PERMISSION_CATALOG Categories = [Create, Read, Update, Delete]"
| "PERMISSION_CATALOG Media = [Create, Read, Update, Delete]"
| "PERMISSION_CATALOG Notes = [Create, Read, Update, Delete, Share]"
| "PERMISSION_CATALOG Standards = [Create, Read, Update, Delete, Approve]"
| "PERMISSION_CATALOG Users = [Create, Read, Update, Delete, Assign_Role, Reset_Password]"
| "PERMISSION_CATALOG Settings = [Read, Update]"
| "PERMISSION_CATALOG Roles = [Create, Read, Update, Delete]"
| "PERMISSION_CATALOG User_Permissions = [Read, Update]"
| "PERMISSION_CATALOG Audit_Logs = [Read]"
| "PERMISSION_CATALOG Api_Keys = [Read]"
| "PERMISSION_CATALOG Smtp = [Read, Update, Test]"
| "PERMISSION_CATALOG System_Info = [Read]"
| "PERMISSION_CATALOG Exports = [Run]"
| "PERMISSION_CATALOG Mcp = [Create, Read, Delete]"
| "PERMISSION_CATALOG Integrations = [Create, Read, Update, Delete]"
| "PERMISSION_CATALOG Backups = [Create, Read, Update, Delete, Run, Restore]"
| "PERMISSION_CATALOG Groups = [Create, Read, Update, Delete, Manage_Members]"
| "PERMISSION_CATALOG Spaces = [Create, Read, Update, Delete]"
| "PERMISSION_CATALOG Resource_Acls = [Read, Update]"
| "PERMISSION_CATALOG Identity_Providers = [Read, Update]"
| "PERMISSION_CATALOG Identity_Mappings = [Read, Update]"
| "PERMISSION_CATALOG Identity_Sync = [Read, Update]"

definition is_permission_supported :: "resource \<Rightarrow> action \<Rightarrow> bool" where
  "is_permission_supported r a = (a \<in> set (PERMISSION_CATALOG r))"

definition perm_key :: "resource \<Rightarrow> action \<Rightarrow> string" where
  "perm_key r a = resource_name r @ CHR '':'' # action_name a"

record acl_entry =
  ae_resource :: resource
  ae_action :: action
  ae_allowed :: bool

definition parse_resource :: "string \<Rightarrow> resource option" where
  "parse_resource s = List.find (\<lambda>r. resource_name r = s) RESOURCES"

definition parse_action :: "string \<Rightarrow> action option" where
  "parse_action s = List.find (\<lambda>a. action_name a = s) ACTIONS"

definition parse_acl_entry :: "string \<Rightarrow> string \<Rightarrow> bool \<Rightarrow> acl_entry option" where
  "parse_acl_entry res act b =
     (case (parse_resource res, parse_action act) of
        (Some r, Some a) \<Rightarrow>
          if is_permission_supported r a
          then Some \<lparr>ae_resource = r, ae_action = a, ae_allowed = b\<rparr> else None
      | _ \<Rightarrow> None)"

definition entry_key :: "acl_entry \<Rightarrow> string" where
  "entry_key e = perm_key (ae_resource e) (ae_action e)"

section \<open>The names determine resources and actions\<close>

lemma RESOURCES_complete [simp]: "r \<in> set RESOURCES"
  by (cases r) (simp_all add: RESOURCES_def)

lemma ACTIONS_complete [simp]: "a \<in> set ACTIONS"
  by (cases a) (simp_all add: ACTIONS_def)

lemma resource_names_distinct: "distinct (map resource_name RESOURCES)"
  by (simp add: RESOURCES_def)

lemma action_names_distinct: "distinct (map action_name ACTIONS)"
  by (simp add: ACTIONS_def)

lemma resource_name_inj [simp]: "resource_name r = resource_name r' \<longleftrightarrow> r = r'"
  using resource_names_distinct by (auto simp: distinct_map inj_on_def)

lemma action_name_inj [simp]: "action_name a = action_name a' \<longleftrightarrow> a = a'"
  using action_names_distinct by (auto simp: distinct_map inj_on_def)

lemma no_colon_resource: "CHR '':'' \<notin> set (resource_name r)"
  by (cases r) simp_all

lemma perm_key_inj [simp]: "perm_key r a = perm_key r' a' \<longleftrightarrow> r = r' \<and> a = a'"
proof
  assume "perm_key r a = perm_key r' a'"
  then have "resource_name r = resource_name r' \<and> action_name a = action_name a'"
    unfolding perm_key_def by (rule split_at_sep) (rule no_colon_resource)+
  then show "r = r' \<and> a = a'" by simp
qed simp

lemma parse_resource_name [simp]: "parse_resource (resource_name r) = Some r"
  unfolding parse_resource_def
  by (rule find_by_key) (simp_all add: resource_names_distinct)

lemma parse_action_name [simp]: "parse_action (action_name a) = Some a"
  unfolding parse_action_def
  by (rule find_by_key) (simp_all add: action_names_distinct)

lemma parse_resource_SomeD: "parse_resource s = Some r \<Longrightarrow> s = resource_name r"
  by (auto simp: parse_resource_def dest: find_SomeD)

lemma parse_action_SomeD: "parse_action s = Some a \<Longrightarrow> s = action_name a"
  by (auto simp: parse_action_def dest: find_SomeD)

lemma parse_acl_entry_Some_iff:
  "parse_acl_entry res act b = Some e \<longleftrightarrow>
     res = resource_name (ae_resource e) \<and> act = action_name (ae_action e) \<and>
     b = ae_allowed e \<and> is_permission_supported (ae_resource e) (ae_action e)"
proof -
  have "e = \<lparr>ae_resource = ae_resource e, ae_action = ae_action e, ae_allowed = ae_allowed e\<rparr>"
    by simp
  then show ?thesis
    by (auto simp: parse_acl_entry_def split: option.splits if_splits
        dest!: parse_resource_SomeD parse_action_SomeD)
qed

lemma parse_acl_entry_names:
  "parse_acl_entry (resource_name r) (action_name a) b =
     (if is_permission_supported r a
      then Some \<lparr>ae_resource = r, ae_action = a, ae_allowed = b\<rparr> else None)"
  by (simp add: parse_acl_entry_def)

end
