(* ===== verification/Database.thy ===== *)
theory Database
  imports Permissions Text
begin

text \<open>
  The tables of \<^verbatim>\<open>apps/api/prisma/schema.prisma\<close> that the modelled services read and write:
  one record per model with the columns the services use, and the record \<open>db\<close> of all tables.
  The schema's unique columns and foreign keys are the predicates \<open>accounts_ok\<close>,
  \<open>groups_ok\<close>, \<open>identities_ok\<close> and \<open>content_ok\<close>; PostgreSQL enforces them.
\<close>

section \<open>Accounts\<close>

record user_row =
  u_id :: ident
  u_email :: string
  u_username :: string
  u_display_name :: string
  u_password :: string
  u_active :: bool
  u_protected :: bool
  u_local_password :: bool
  u_role :: ident

record role_row =
  r_id :: ident
  r_name :: string
  r_description :: "string option"
  r_system :: bool

record acl_row =
  a_role :: ident
  a_resource :: string
  a_action :: string
  a_allowed :: bool

record user_permission_row =
  p_user :: ident
  p_resource :: string
  p_action :: string
  p_allowed :: bool

record setting_row =
  set_key :: string
  set_value :: string

section \<open>External identities\<close>

datatype sync_mode = ADD_ONLY | MANAGED
datatype mapping_source = From_Group | From_Role
datatype client_auth = NO_SECRET | SECRET_POST | SECRET_BASIC
datatype provider_type = GENERIC_OIDC | MICROSOFT_ENTRA | KEYCLOAK
datatype entra_mode = DIRECT | TRANSITIVE

record provider_row =
  ip_id :: ident
  ip_name :: string
  ip_slug :: string
  ip_type :: provider_type
  ip_issuer :: string
  ip_discovery_url :: "string option"
  ip_client_id :: string
  ip_auth_method :: client_auth
  ip_secret :: "string option"
  ip_scopes :: "string list"
  ip_claim_mapping :: json
  ip_active :: bool
  ip_display_order :: int
  ip_allow_jit :: bool
  ip_default_role :: "ident option"
  ip_sync_mode :: sync_mode
  ip_group_claim :: "string option"
  ip_role_claim :: "string option"
  ip_allow_admin_mapping :: bool
  ip_max_session_age :: int
  ip_entra_fallback :: bool
  ip_entra_mode :: entra_mode
  ip_entra_cache_ttl :: int

record identity_row =
  xi_id :: ident
  xi_user :: ident
  xi_provider :: ident
  xi_issuer :: string
  xi_subject :: string
  xi_email :: "string option"
  xi_username :: "string option"
  xi_display_name :: "string option"
  xi_last_login :: "time option"
  xi_last_groups :: "string list"
  xi_last_roles :: "string list"
  xi_sync_error :: "string option"

record role_mapping_row =
  rm_id :: ident
  rm_source :: mapping_source
  rm_value :: string
  rm_priority :: int
  rm_provider :: ident
  rm_role :: ident

record role_grant_row =
  rg_identity :: ident
  rg_mapping :: ident
  rg_role :: ident

record group_mapping_row =
  gm_id :: ident
  gm_external_id :: string
  gm_external_path :: "string option"
  gm_external_name :: "string option"
  gm_provider :: ident
  gm_group :: ident

section \<open>Groups\<close>

datatype membership_role = MEMBER | MANAGER

record group_row =
  g_id :: ident
  g_name :: string
  g_slug :: string
  g_description :: "string option"
  g_system :: bool

record membership_row =
  m_id :: ident
  m_group :: ident
  m_user :: ident
  m_role :: membership_role
  m_local_grant :: bool

record group_grant_row =
  gg_membership :: ident
  gg_identity :: ident
  gg_mapping :: ident

section \<open>Content\<close>

datatype visibility = OPEN | RESTRICTED
datatype category_scope = WIKI | NOTE | STANDARD
datatype share_permission = VIEW | EDIT
datatype knowledge_kind = Wiki_Kind | Note_Kind | Standard_Kind
datatype page_type = FOLDER | PAGE
datatype page_status = Page_Draft | Page_Published | Page_Archived
datatype note_status = Note_Captured | Note_Promoted | Note_Archived
datatype standard_status = Std_Draft | Std_Review | Std_Active | Std_Deprecated
datatype standard_priority = Prio_Low | Prio_Medium | Prio_High | Prio_Critical
datatype rule_type = Must | Should | May | Must_Not
datatype exception_status = Exc_Requested | Exc_Approved | Exc_Rejected | Exc_Expired

record space_row =
  s_id :: ident
  s_name :: string
  s_slug :: string
  s_description :: "string option"
  s_visibility :: visibility
  s_kinds :: "knowledge_kind list"
  s_system :: bool
  s_group :: "ident option"

record category_row =
  c_id :: ident
  c_name :: string
  c_slug :: string
  c_scope :: category_scope
  c_description :: "string option"
  c_icon :: "string option"
  c_sort_order :: int
  c_space :: ident

record page_row =
  pg_id :: ident
  pg_title :: string
  pg_slug :: string
  pg_type :: page_type
  pg_content :: string
  pg_excerpt :: "string option"
  pg_status :: page_status
  pg_public :: bool
  pg_mcp :: bool
  pg_version :: nat
  pg_sort_order :: int
  pg_updated :: time
  pg_deleted :: "time option"
  pg_deleted_by :: "ident option"
  pg_author :: ident
  pg_parent :: "ident option"
  pg_category :: "ident option"
  pg_space :: ident

record page_version_row =
  pv_id :: ident
  pv_page :: ident
  pv_title :: string
  pv_content :: string
  pv_version :: nat
  pv_message :: "string option"
  pv_author :: ident

record page_draft_row =
  pd_page :: ident
  pd_user :: ident
  pd_title :: string
  pd_content :: string
  pd_status :: page_status
  pd_public :: bool
  pd_mcp :: bool
  pd_tags :: "string list"

record tag_row =
  tag_id :: ident
  tag_name :: string
  tag_slug :: string

record page_tag_row =
  pt_page :: ident
  pt_tag :: ident

record note_tag_row =
  nt_note :: ident
  nt_tag :: ident

record page_link_row =
  pl_source :: ident
  pl_target :: ident

record media_row =
  md_id :: ident
  md_filename :: string
  md_filepath :: string
  md_mimetype :: string

record page_media_row =
  pm_page :: ident
  pm_media :: ident

record note_row =
  n_id :: ident
  n_title :: "string option"
  n_content :: string
  n_status :: note_status
  n_mcp :: bool
  n_deleted :: "time option"
  n_deleted_by :: "ident option"
  n_owner :: ident
  n_space :: "ident option"
  n_category :: "ident option"
  n_promoted :: "ident option"

record share_row =
  sh_note :: ident
  sh_user :: ident
  sh_permission :: share_permission
  sh_shared_by :: ident

record standard_row =
  st_id :: ident
  st_title :: string
  st_slug :: string
  st_description :: string
  st_justification :: string
  st_status :: standard_status
  st_priority :: standard_priority
  st_version :: nat
  st_mcp :: bool
  st_valid_from :: "time option"
  st_valid_until :: "time option"
  st_created_by :: ident
  st_responsible :: ident
  st_space :: ident
  st_category :: "ident option"

record rule_row =
  sr_id :: ident
  sr_standard :: ident
  sr_title :: string
  sr_description :: "string option"
  sr_type :: rule_type
  sr_sort_order :: int
  sr_min_vcpu :: "int option"
  sr_min_ram :: "int option"
  sr_backup :: "bool option"
  sr_ports :: json
  sr_networks :: json
  sr_naming :: "string option"

text \<open>The snapshot a standard's version keeps: its text, state, priority, validity and rules.\<close>

record standard_snapshot =
  ss_title :: string
  ss_description :: string
  ss_justification :: string
  ss_status :: standard_status
  ss_priority :: standard_priority
  ss_valid_from :: "time option"
  ss_valid_until :: "time option"
  ss_rules :: "rule_row list"

record standard_version_row =
  sv_standard :: ident
  sv_version :: nat
  sv_author :: ident
  sv_snapshot :: standard_snapshot

record standard_page_row =
  sp_standard :: ident
  sp_page :: ident

record exception_row =
  ex_id :: ident
  ex_standard :: ident
  ex_reason :: string
  ex_status :: exception_status
  ex_expires :: "time option"
  ex_note :: "string option"
  ex_requested_by :: ident
  ex_responsible :: ident
  ex_decided_by :: "ident option"

section \<open>Resource ACLs\<close>

datatype effect = ALLOW | DENY

record target_ids =
  ti_space :: "ident option"
  ti_category :: "ident option"
  ti_page :: "ident option"
  ti_note :: "ident option"
  ti_standard :: "ident option"

record entry_row =
  e_id :: ident
  e_recipient_key :: string
  e_target_key :: string
  e_action :: string
  e_effect :: effect
  e_inherit :: bool
  e_user :: "ident option"
  e_group :: "ident option"
  e_target :: target_ids

record boundary_row =
  b_id :: ident
  b_target_key :: string
  b_action :: string
  b_target :: target_ids

section \<open>Sessions and password resets\<close>

record session_row =
  ses_id :: ident
  ses_token_hash :: string
  ses_family :: ident
  ses_ip :: "string option"
  ses_agent :: "string option"
  ses_user :: ident
  ses_expires :: time
  ses_rotated :: "time option"
  ses_revoked :: "time option"
  ses_identity :: "ident option"
  ses_verified :: "time option"
  ses_recheck :: "time option"

record reset_row =
  rt_id :: ident
  rt_token_hash :: string
  rt_user :: ident
  rt_expires :: time
  rt_used :: "time option"

section \<open>OIDC logins\<close>

datatype intent = Login_Intent | Link_Intent | Unlink_Intent

record oidc_request_row =
  oa_id :: ident
  oa_state_hash :: string
  oa_binding_hash :: string
  oa_verifier :: string
  oa_nonce :: string
  oa_redirect :: string
  oa_intent :: intent
  oa_expires :: time
  oa_provider :: ident
  oa_user :: "ident option"
  oa_unlink :: "ident option"

record login_code_row =
  ol_id :: ident
  ol_token_hash :: string
  ol_agent_hash :: string
  ol_expires :: time
  ol_used :: "time option"
  ol_created :: time
  ol_user :: ident
  ol_provider :: ident
  ol_identity :: ident

section \<open>Machine access: MCP tokens, API keys, OAuth\<close>

record mcp_token_row =
  mt_id :: ident
  mt_name :: string
  mt_token_hash :: string
  mt_prefix :: string
  mt_client :: "ident option"
  mt_resource :: "string option"
  mt_scopes :: "string list"
  mt_last_used :: "time option"
  mt_expires :: "time option"
  mt_revoked :: "time option"
  mt_user :: ident

record api_key_row =
  ak_id :: ident
  ak_name :: string
  ak_key :: string
  ak_key_hash :: string
  ak_permissions :: "json option"
  ak_last_used :: "time option"
  ak_expires :: "time option"
  ak_active :: bool
  ak_user :: ident

record oauth_client_row =
  oc_client_id :: ident
  oc_name :: string
  oc_redirects :: "string list"
  oc_grants :: "string list"
  oc_responses :: "string list"
  oc_auth_method :: string
  oc_last_used :: "time option"

record oauth_request_row =
  oq_id :: ident
  oq_client :: ident
  oq_redirect :: string
  oq_state :: "string option"
  oq_challenge :: string
  oq_resource :: string
  oq_scopes :: "string list"
  oq_expires :: time

record oauth_code_row =
  od_id :: ident
  od_code_hash :: string
  od_client :: ident
  od_user :: ident
  od_redirect :: string
  od_challenge :: string
  od_resource :: string
  od_scopes :: "string list"
  od_expires :: time
  od_used :: "time option"

record oauth_refresh_row =
  or_id :: ident
  or_token_hash :: string
  or_family :: ident
  or_client :: ident
  or_user :: ident
  or_resource :: string
  or_scopes :: "string list"
  or_expires :: time
  or_revoked :: "time option"
  or_rotated :: "time option"

section \<open>The state\<close>

record db =
  t_users :: "user_row list"
  t_roles :: "role_row list"
  t_acls :: "acl_row list"
  t_user_permissions :: "user_permission_row list"
  t_settings :: "setting_row list"
  t_providers :: "provider_row list"
  t_identities :: "identity_row list"
  t_role_mappings :: "role_mapping_row list"
  t_role_grants :: "role_grant_row list"
  t_group_mappings :: "group_mapping_row list"
  t_groups :: "group_row list"
  t_memberships :: "membership_row list"
  t_group_grants :: "group_grant_row list"
  t_spaces :: "space_row list"
  t_categories :: "category_row list"
  t_pages :: "page_row list"
  t_notes :: "note_row list"
  t_note_shares :: "share_row list"
  t_standards :: "standard_row list"
  t_entries :: "entry_row list"
  t_boundaries :: "boundary_row list"
  t_sessions :: "session_row list"
  t_resets :: "reset_row list"
  t_mcp_tokens :: "mcp_token_row list"
  t_api_keys :: "api_key_row list"
  t_oauth_clients :: "oauth_client_row list"
  t_oauth_requests :: "oauth_request_row list"
  t_oauth_codes :: "oauth_code_row list"
  t_oauth_refresh :: "oauth_refresh_row list"
  t_oidc_requests :: "oidc_request_row list"
  t_login_codes :: "login_code_row list"
  t_page_versions :: "page_version_row list"
  t_page_drafts :: "page_draft_row list"
  t_tags :: "tag_row list"
  t_page_tags :: "page_tag_row list"
  t_note_tags :: "note_tag_row list"
  t_page_links :: "page_link_row list"
  t_media :: "media_row list"
  t_page_media :: "page_media_row list"
  t_rules :: "rule_row list"
  t_standard_versions :: "standard_version_row list"
  t_standard_pages :: "standard_page_row list"
  t_exceptions :: "exception_row list"

definition empty_db :: db where
  "empty_db =
     \<lparr>t_users = [], t_roles = [], t_acls = [], t_user_permissions = [], t_settings = [],
      t_providers = [], t_identities = [], t_role_mappings = [], t_role_grants = [],
      t_group_mappings = [], t_groups = [], t_memberships = [], t_group_grants = [],
      t_spaces = [], t_categories = [], t_pages = [], t_notes = [], t_note_shares = [],
      t_standards = [], t_entries = [], t_boundaries = [], t_sessions = [], t_resets = [],
      t_mcp_tokens = [], t_api_keys = [], t_oauth_clients = [], t_oauth_requests = [],
      t_oauth_codes = [], t_oauth_refresh = [], t_oidc_requests = [], t_login_codes = [],
      t_page_versions = [], t_page_drafts = [], t_tags = [], t_page_tags = [], t_note_tags = [],
      t_page_links = [], t_media = [], t_page_media = [], t_rules = [], t_standard_versions = [],
      t_standard_pages = [], t_exceptions = []\<rparr>"

section \<open>Reads by key\<close>

definition find_user :: "db \<Rightarrow> ident \<Rightarrow> user_row option" where
  "find_user d i = List.find (\<lambda>u. u_id u = i) (t_users d)"

definition find_role :: "db \<Rightarrow> ident \<Rightarrow> role_row option" where
  "find_role d i = List.find (\<lambda>r. r_id r = i) (t_roles d)"

definition find_space :: "db \<Rightarrow> ident \<Rightarrow> space_row option" where
  "find_space d i = List.find (\<lambda>s. s_id s = i) (t_spaces d)"

definition find_category :: "db \<Rightarrow> ident \<Rightarrow> category_row option" where
  "find_category d i = List.find (\<lambda>c. c_id c = i) (t_categories d)"

definition find_page :: "db \<Rightarrow> ident \<Rightarrow> page_row option" where
  "find_page d i = List.find (\<lambda>p. pg_id p = i) (t_pages d)"

definition find_note :: "db \<Rightarrow> ident \<Rightarrow> note_row option" where
  "find_note d i = List.find (\<lambda>n. n_id n = i) (t_notes d)"

definition find_standard :: "db \<Rightarrow> ident \<Rightarrow> standard_row option" where
  "find_standard d i = List.find (\<lambda>s. st_id s = i) (t_standards d)"

definition find_provider :: "db \<Rightarrow> ident \<Rightarrow> provider_row option" where
  "find_provider d i = List.find (\<lambda>p. ip_id p = i) (t_providers d)"

definition find_identity :: "db \<Rightarrow> ident \<Rightarrow> identity_row option" where
  "find_identity d i = List.find (\<lambda>x. xi_id x = i) (t_identities d)"

definition find_group_mapping :: "db \<Rightarrow> ident \<Rightarrow> group_mapping_row option" where
  "find_group_mapping d i = List.find (\<lambda>m. gm_id m = i) (t_group_mappings d)"

definition find_role_mapping :: "db \<Rightarrow> ident \<Rightarrow> role_mapping_row option" where
  "find_role_mapping d i = List.find (\<lambda>m. rm_id m = i) (t_role_mappings d)"

definition find_group :: "db \<Rightarrow> ident \<Rightarrow> group_row option" where
  "find_group d i = List.find (\<lambda>g. g_id g = i) (t_groups d)"

lemmas find_defs =
  find_user_def find_role_def find_space_def find_category_def find_page_def find_note_def
  find_standard_def find_group_def find_provider_def find_identity_def find_group_mapping_def
  find_role_mapping_def

section \<open>The schema's constraints\<close>

text \<open>A nullable foreign key: null, or the key of a row.\<close>

fun fk :: "'k option \<Rightarrow> 'k set \<Rightarrow> bool" where
  "fk None S = True"
| "fk (Some k) S = (k \<in> S)"

definition accounts_ok :: "db \<Rightarrow> bool" where
  "accounts_ok d \<longleftrightarrow>
     distinct (map u_id (t_users d)) \<and> distinct (map u_email (t_users d)) \<and>
     distinct (map u_username (t_users d)) \<and>
     distinct (map r_id (t_roles d)) \<and> distinct (map r_name (t_roles d)) \<and>
     distinct (map (\<lambda>a. (a_role a, a_resource a, a_action a)) (t_acls d)) \<and>
     distinct (map (\<lambda>p. (p_user p, p_resource p, p_action p)) (t_user_permissions d)) \<and>
     distinct (map set_key (t_settings d)) \<and>
     (\<forall>u \<in> set (t_users d). u_role u \<in> r_id ` set (t_roles d)) \<and>
     (\<forall>a \<in> set (t_acls d). a_role a \<in> r_id ` set (t_roles d)) \<and>
     (\<forall>p \<in> set (t_user_permissions d). p_user p \<in> u_id ` set (t_users d))"

definition groups_ok :: "db \<Rightarrow> bool" where
  "groups_ok d \<longleftrightarrow>
     distinct (map g_id (t_groups d)) \<and> distinct (map g_name (t_groups d)) \<and>
     distinct (map g_slug (t_groups d)) \<and>
     distinct (map m_id (t_memberships d)) \<and>
     distinct (map (\<lambda>m. (m_group m, m_user m)) (t_memberships d)) \<and>
     (\<forall>m \<in> set (t_memberships d). m_group m \<in> g_id ` set (t_groups d)) \<and>
     (\<forall>x \<in> set (t_group_grants d). gg_membership x \<in> m_id ` set (t_memberships d))"

definition identities_ok :: "db \<Rightarrow> bool" where
  "identities_ok d \<longleftrightarrow>
     distinct (map ip_id (t_providers d)) \<and> distinct (map xi_id (t_identities d)) \<and>
     distinct (map (\<lambda>x. (xi_provider x, xi_user x)) (t_identities d)) \<and>
     distinct (map gm_id (t_group_mappings d)) \<and> distinct (map rm_id (t_role_mappings d)) \<and>
     distinct (map (\<lambda>x. (gg_identity x, gg_mapping x)) (t_group_grants d)) \<and>
     distinct (map rg_identity (t_role_grants d)) \<and>
     (\<forall>x \<in> set (t_identities d). xi_provider x \<in> ip_id ` set (t_providers d)) \<and>
     (\<forall>m \<in> set (t_group_mappings d). gm_provider m \<in> ip_id ` set (t_providers d) \<and>
        gm_group m \<in> g_id ` set (t_groups d)) \<and>
     (\<forall>m \<in> set (t_role_mappings d). rm_provider m \<in> ip_id ` set (t_providers d) \<and>
        rm_role m \<in> r_id ` set (t_roles d)) \<and>
     (\<forall>x \<in> set (t_group_grants d). gg_identity x \<in> xi_id ` set (t_identities d) \<and>
        gg_mapping x \<in> gm_id ` set (t_group_mappings d)) \<and>
     (\<forall>x \<in> set (t_role_grants d). rg_identity x \<in> xi_id ` set (t_identities d) \<and>
        rg_mapping x \<in> rm_id ` set (t_role_mappings d))"

definition content_ok :: "db \<Rightarrow> bool" where
  "content_ok d \<longleftrightarrow>
     distinct (map s_id (t_spaces d)) \<and> distinct (map c_id (t_categories d)) \<and>
     distinct (map pg_id (t_pages d)) \<and> distinct (map n_id (t_notes d)) \<and>
     distinct (map st_id (t_standards d)) \<and>
     (\<forall>c \<in> set (t_categories d). c_space c \<in> s_id ` set (t_spaces d)) \<and>
     (\<forall>p \<in> set (t_pages d). pg_space p \<in> s_id ` set (t_spaces d)) \<and>
     (\<forall>p \<in> set (t_pages d). fk (pg_parent p) (pg_id ` set (t_pages d))) \<and>
     (\<forall>p \<in> set (t_pages d). fk (pg_category p) (c_id ` set (t_categories d))) \<and>
     (\<forall>n \<in> set (t_notes d). fk (n_space n) (s_id ` set (t_spaces d))) \<and>
     (\<forall>n \<in> set (t_notes d). fk (n_category n) (c_id ` set (t_categories d))) \<and>
     (\<forall>x \<in> set (t_standards d). st_space x \<in> s_id ` set (t_spaces d)) \<and>
     (\<forall>x \<in> set (t_standards d). fk (st_category x) (c_id ` set (t_categories d)))"

end
