(* ===== verification/Effective_Role.thy ===== *)
theory Effective_Role
  imports Database "HOL-Library.Multiset"
begin

text \<open>
  \<^verbatim>\<open>apps/api/src/modules/auth/effective-role.service.ts\<close>: the role a user acts with. External
  identities may grant roles through provider mappings with priorities; a unique best grant
  replaces the role stored at the user, everything else falls back to the stored role.
  \<open>lc\<close> is \<open>String.prototype.localeCompare\<close>, whose result depends on the collation of the host.
\<close>

section \<open>Sorting with a comparator\<close>

text \<open>\<open>Array.prototype.sort\<close> is stable; a negative or zero result keeps the left element first.\<close>

fun insert_by :: "('a \<Rightarrow> 'a \<Rightarrow> int) \<Rightarrow> 'a \<Rightarrow> 'a list \<Rightarrow> 'a list" where
  "insert_by cmp x [] = [x]"
| "insert_by cmp x (y # ys) = (if cmp x y \<le> 0 then x # y # ys else y # insert_by cmp x ys)"

definition sort_by :: "('a \<Rightarrow> 'a \<Rightarrow> int) \<Rightarrow> 'a list \<Rightarrow> 'a list" where
  "sort_by cmp xs = foldr (insert_by cmp) xs []"

lemma mset_insert_by [simp]: "mset (insert_by cmp x ys) = add_mset x (mset ys)"
  by (induction cmp x ys rule: insert_by.induct) auto

lemma mset_sort_by [simp]: "mset (sort_by cmp xs) = mset xs"
  by (induction xs) (simp_all add: sort_by_def)

lemma set_sort_by [simp]: "set (sort_by cmp xs) = set xs"
  using mset_sort_by by (rule mset_eq_setD)

text \<open>A comparator that decides by a number first puts an element with the least number first.\<close>

definition decides_by :: "('a \<Rightarrow> int) \<Rightarrow> ('a \<Rightarrow> 'a \<Rightarrow> int) \<Rightarrow> bool" where
  "decides_by p cmp \<longleftrightarrow> (\<forall>x y. p x \<noteq> p y \<longrightarrow> (cmp x y \<le> 0 \<longleftrightarrow> p x < p y))"

lemma insert_by_head:
  assumes "decides_by p cmp" and "\<forall>z \<in> set ys. p (hd ys) \<le> p z"
  shows "\<forall>z \<in> set (insert_by cmp x ys). p (hd (insert_by cmp x ys)) \<le> p z"
proof (cases ys)
  case Nil
  then show ?thesis by simp
next
  case (Cons y zs)
  have set_ins: "set (insert_by cmp x zs) = insert x (set zs)"
    by (metis mset_insert_by set_mset_add_mset_insert set_mset_mset)
  have min: "\<And>z. z \<in> set zs \<Longrightarrow> p y \<le> p z"
    using assms(2) Cons by simp
  show ?thesis
  proof (cases "cmp x y \<le> 0")
    case True
    then have "p x \<le> p y"
      using assms(1) unfolding decides_by_def by (metis order_less_imp_le order_refl)
    with True Cons min show ?thesis by fastforce
  next
    case False
    then have "p y \<le> p x"
      using assms(1) unfolding decides_by_def by (metis linorder_le_less_linear order_refl)
    with False Cons min set_ins show ?thesis by auto
  qed
qed

lemma sort_by_head:
  assumes "decides_by p cmp"
  shows "\<forall>z \<in> set xs. p (hd (sort_by cmp xs)) \<le> p z"
proof -
  have "\<forall>z \<in> set (sort_by cmp xs). p (hd (sort_by cmp xs)) \<le> p z"
    by (induction xs) (use insert_by_head [OF assms] in \<open>auto simp: sort_by_def\<close>)
  then show ?thesis by simp
qed

section \<open>The effective role\<close>

record role_grant =
  gr_role :: role_row
  gr_priority :: int
  gr_display_order :: int
  gr_provider :: ident
  gr_mapping :: ident

definition load_grant :: "db \<Rightarrow> role_grant_row \<Rightarrow> role_grant option" where
  "load_grant d g =
     (case (find_role d (rg_role g), List.find (\<lambda>m. rm_id m = rg_mapping g) (t_role_mappings d)) of
        (Some r, Some m) \<Rightarrow>
          (case List.find (\<lambda>p. ip_id p = rm_provider m) (t_providers d) of
             Some p \<Rightarrow> Some \<lparr>gr_role = r, gr_priority = rm_priority m,
               gr_display_order = ip_display_order p, gr_provider = rm_provider m,
               gr_mapping = rm_id m\<rparr>
           | None \<Rightarrow> None)
      | _ \<Rightarrow> None)"

definition external_grants :: "db \<Rightarrow> ident \<Rightarrow> role_grant list" where
  "external_grants d uid =
     List.map_filter (load_grant d)
       (concat (map (\<lambda>x. filter (\<lambda>g. rg_identity g = xi_id x) (t_role_grants d))
          (filter (\<lambda>x. xi_user x = uid) (t_identities d))))"

definition grant_order :: "(string \<Rightarrow> string \<Rightarrow> int) \<Rightarrow> role_grant \<Rightarrow> role_grant \<Rightarrow> int" where
  "grant_order lc l r =
     (let a = gr_priority l - gr_priority r;
          b = gr_display_order l - gr_display_order r;
          c = lc (gr_provider l) (gr_provider r)
      in if a \<noteq> 0 then a else if b \<noteq> 0 then b else if c \<noteq> 0 then c
         else lc (gr_mapping l) (gr_mapping r))"

definition with_effective_role ::
    "(string \<Rightarrow> string \<Rightarrow> int) \<Rightarrow> db \<Rightarrow> user_row \<Rightarrow> role_row \<Rightarrow> role_row" where
  "with_effective_role lc d u local =
     (case sort_by (grant_order lc) (external_grants d (u_id u)) of
        [] \<Rightarrow> local
      | first # rest \<Rightarrow>
          if \<exists>g \<in> set rest. gr_priority g = gr_priority first then local else gr_role first)"

text \<open>\<open>resolveUser\<close>: the user with the role it acts with; the stored role always exists (foreign key).\<close>

definition resolve_user ::
    "(string \<Rightarrow> string \<Rightarrow> int) \<Rightarrow> db \<Rightarrow> ident \<Rightarrow> (user_row \<times> role_row) option" where
  "resolve_user lc d i =
     (case find_user d i of
        None \<Rightarrow> None
      | Some u \<Rightarrow>
          (case find_role d (u_role u) of
             None \<Rightarrow> None
           | Some local \<Rightarrow> Some (u, with_effective_role lc d u local)))"

definition resolve_role :: "(string \<Rightarrow> string \<Rightarrow> int) \<Rightarrow> db \<Rightarrow> ident \<Rightarrow> role_row option" where
  "resolve_role lc d i = map_option snd (resolve_user lc d i)"

section \<open>What the sort achieves\<close>

text \<open>
  The specification: the grants of best (numerically least) priority; exactly one of them
  decides, none or several leave the stored role. It mentions neither the comparator's
  tie-breaks nor the order of the rows.
\<close>

definition best_grants :: "role_grant list \<Rightarrow> role_grant list" where
  "best_grants gs = filter (\<lambda>g. \<forall>h \<in> set gs. gr_priority g \<le> gr_priority h) gs"

definition role_spec :: "role_grant list \<Rightarrow> role_row \<Rightarrow> role_row" where
  "role_spec gs local = (case best_grants gs of [g] \<Rightarrow> gr_role g | _ \<Rightarrow> local)"

lemma grant_order_decides: "decides_by gr_priority (grant_order lc)"
  by (auto simp: decides_by_def grant_order_def Let_def)

lemma best_grants_sorted:
  assumes "sort_by (grant_order lc) gs = first # rest"
  shows "mset (best_grants gs) =
    add_mset first (mset (filter (\<lambda>g. gr_priority g = gr_priority first) rest))"
proof -
  have ms: "mset gs = add_mset first (mset rest)"
    using assms mset_sort_by [of "grant_order lc" gs] by simp
  then have set_gs: "set gs = insert first (set rest)"
    by (metis set_mset_add_mset_insert set_mset_mset)
  have min: "\<forall>h \<in> set gs. gr_priority first \<le> gr_priority h"
    using sort_by_head [OF grant_order_decides, of gs lc] assms by simp
  then have "best_grants gs = filter (\<lambda>g. gr_priority g = gr_priority first) gs"
    unfolding best_grants_def using set_gs by (intro filter_cong) (auto intro: order_antisym)
  then show ?thesis using ms by simp
qed

text \<open>
  C22: The role a user acts with is the role of the one external grant of best priority, and the
  stored role when there is none or the best priority is shared: the sort with its tie-breaks by
  display order and \<open>localeCompare\<close> never decides.
\<close>

theorem effective_role_is_spec:
  "with_effective_role lc d u local = role_spec (external_grants d (u_id u)) local"
proof (cases "sort_by (grant_order lc) (external_grants d (u_id u))")
  case Nil
  then have "external_grants d (u_id u) = []"
    by (metis mset_sort_by mset_zero_iff)
  with Nil show ?thesis
    by (simp add: with_effective_role_def role_spec_def best_grants_def)
next
  case (Cons first rest)
  let ?same = "filter (\<lambda>g. gr_priority g = gr_priority first) rest"
  have ms: "mset (best_grants (external_grants d (u_id u))) = add_mset first (mset ?same)"
    using best_grants_sorted [OF Cons] .
  show ?thesis
  proof (cases "?same = []")
    case True
    then have "best_grants (external_grants d (u_id u)) = [first]" using ms by simp
    moreover have "\<not> (\<exists>g \<in> set rest. gr_priority g = gr_priority first)"
      using True by (auto simp: filter_empty_conv)
    ultimately show ?thesis using Cons by (simp add: with_effective_role_def role_spec_def)
  next
    case False
    then have "length (best_grants (external_grants d (u_id u))) \<ge> 2"
      using ms by (metis One_nat_def Suc_1 Suc_leI length_greater_0_conv less_Suc_eq_le
          not_less_eq_eq size_add_mset size_mset)
    moreover have "\<exists>g \<in> set rest. gr_priority g = gr_priority first"
      using False by (auto simp: filter_empty_conv)
    ultimately show ?thesis using Cons
      by (auto simp: with_effective_role_def role_spec_def split: list.splits)
  qed
qed

end
