(* ===== verification/Sample.thy ===== *)
theory Sample
  imports Effective_Role
begin

text \<open>
  A small installation on which the properties are instantiated: an administrator role with some
  rights, a reader role, a protected owner, an administrator \<open>ada\<close>, a reader \<open>rob\<close>, and a space
  with a category, three pages, two notes and a standard.
\<close>

definition sample_user :: "string \<Rightarrow> ident \<Rightarrow> bool \<Rightarrow> user_row" where
  "sample_user n role protected =
     \<lparr>u_id = n, u_email = n @ ''@x'', u_username = n, u_display_name = n, u_password = ''hash'',
      u_active = True, u_protected = protected, u_local_password = True, u_role = role\<rparr>"

definition sample_accounts :: db where
  "sample_accounts = empty_db
     \<lparr>t_users := [sample_user ''own'' ''adm'' True, sample_user ''ada'' ''adm'' False,
        sample_user ''rob'' ''rd'' False],
      t_roles := [\<lparr>r_id = ''adm'', r_name = ''admin'', r_description = None, r_system = True\<rparr>,
        \<lparr>r_id = ''rd'', r_name = ''reader'', r_description = None, r_system = False\<rparr>],
      t_acls :=
        [\<lparr>a_role = ''adm'', a_resource = ''pages'', a_action = ''read'', a_allowed = True\<rparr>,
         \<lparr>a_role = ''adm'', a_resource = ''pages'', a_action = ''update'', a_allowed = True\<rparr>,
         \<lparr>a_role = ''rd'', a_resource = ''pages'', a_action = ''read'', a_allowed = True\<rparr>],
      t_user_permissions :=
        [\<lparr>p_user = ''rob'', p_resource = ''notes'', p_action = ''read'', p_allowed = True\<rparr>]\<rparr>"

definition sample_page :: "ident \<Rightarrow> ident option \<Rightarrow> page_row" where
  "sample_page i parent =
     \<lparr>pg_id = i, pg_title = i, pg_slug = i, pg_type = (if i = ''p3'' then PAGE else FOLDER),
      pg_content = [], pg_excerpt = None, pg_status = Page_Draft, pg_public = False,
      pg_mcp = False, pg_version = 1, pg_sort_order = 0, pg_updated = 0, pg_deleted = None,
      pg_deleted_by = None, pg_author = ''ada'', pg_parent = parent, pg_category = Some ''cat'',
      pg_space = ''sp''\<rparr>"

definition sample_space :: space_row where
  "sample_space =
     \<lparr>s_id = ''sp'', s_name = ''space'', s_slug = ''space'', s_description = None,
      s_visibility = OPEN, s_kinds = [Wiki_Kind, Note_Kind, Standard_Kind], s_system = False,
      s_group = None\<rparr>"

definition sample_category :: category_row where
  "sample_category =
     \<lparr>c_id = ''cat'', c_name = ''category'', c_slug = ''category'', c_scope = WIKI,
      c_description = None, c_icon = None, c_sort_order = 0, c_space = ''sp''\<rparr>"

definition sample_note :: "ident \<Rightarrow> ident \<Rightarrow> ident option \<Rightarrow> note_row" where
  "sample_note i owner sp =
     \<lparr>n_id = i, n_title = None, n_content = [], n_status = Note_Captured, n_mcp = False,
      n_deleted = None, n_deleted_by = None, n_owner = owner, n_space = sp, n_category = None,
      n_promoted = None\<rparr>"

definition sample_standard :: standard_row where
  "sample_standard =
     \<lparr>st_id = ''st'', st_title = ''st'', st_slug = ''st'', st_description = [],
      st_justification = [], st_status = Std_Draft, st_priority = Prio_Medium, st_version = 1,
      st_mcp = False, st_valid_from = None, st_valid_until = None, st_created_by = ''ada'',
      st_responsible = ''ada'', st_space = ''sp'', st_category = None\<rparr>"

definition sample_db :: db where
  "sample_db = sample_accounts
     \<lparr>t_spaces := [sample_space],
      t_categories := [sample_category],
      t_pages := [sample_page ''p1'' None, sample_page ''p2'' (Some ''p1''),
        sample_page ''p3'' (Some ''p2'')],
      t_notes := [sample_note ''n1'' ''rob'' None, sample_note ''n2'' ''ada'' (Some ''sp'')],
      t_standards := [sample_standard]\<rparr>"

lemmas sample_defs = sample_db_def sample_accounts_def sample_user_def sample_page_def sample_space_def
  sample_category_def sample_note_def sample_standard_def empty_db_def

lemma sample_accounts_ok: "accounts_ok sample_accounts"
  by (simp add: sample_defs accounts_ok_def)

lemma sample_db_ok: "accounts_ok sample_db" "groups_ok sample_db" "content_ok sample_db"
  by (simp_all add: sample_defs accounts_ok_def groups_ok_def content_ok_def)

text \<open>A provider in managed mode, an identity of \<open>ada\<close> there, and a mapping to the reader role.\<close>

definition sample_provider :: provider_row where
  "sample_provider =
     \<lparr>ip_id = ''idp'', ip_name = ''idp'', ip_slug = ''idp'', ip_type = GENERIC_OIDC, ip_issuer = ''iss'',
      ip_discovery_url = None, ip_client_id = ''c'', ip_auth_method = NO_SECRET, ip_secret = None,
      ip_scopes = [''openid''], ip_claim_mapping = JObject [], ip_active = True, ip_display_order = 0,
      ip_allow_jit = False, ip_default_role = None, ip_sync_mode = MANAGED,
      ip_group_claim = Some ''groups'', ip_role_claim = Some ''roles'', ip_allow_admin_mapping = False,
      ip_max_session_age = 480, ip_entra_fallback = False, ip_entra_mode = TRANSITIVE,
      ip_entra_cache_ttl = 15\<rparr>"

definition sample_identity :: identity_row where
  "sample_identity =
     \<lparr>xi_id = ''x'', xi_user = ''ada'', xi_provider = ''idp'', xi_issuer = ''iss'', xi_subject = ''ada'',
      xi_email = None, xi_username = None, xi_display_name = None, xi_last_login = None,
      xi_last_groups = [], xi_last_roles = [], xi_sync_error = None\<rparr>"

definition sample_role_mapping :: role_mapping_row where
  "sample_role_mapping =
     \<lparr>rm_id = ''m'', rm_source = From_Role, rm_value = ''viewer'', rm_priority = 1, rm_provider = ''idp'',
      rm_role = ''rd''\<rparr>"

lemmas sample_sso_defs = sample_provider_def sample_identity_def sample_role_mapping_def

text \<open>Comparison of strings by code points, one possible \<open>localeCompare\<close>.\<close>

definition code_point_compare :: "string \<Rightarrow> string \<Rightarrow> int" where
  "code_point_compare x y = (if x = y then 0 else if x < y then - 1 else 1)"

end
