(* ===== verification/Authz.thy ===== *)
theory Authz
  imports Sample
begin

text \<open>
  Global permissions: \<^verbatim>\<open>apps/api/src/modules/auth/permission.service.ts\<close> (the evaluator with its
  per-request cache), \<^verbatim>\<open>getEffectivePermissions\<close> and \<^verbatim>\<open>validateUser\<close> of
  \<^verbatim>\<open>auth.service.ts\<close> (the list form of the same rights, and the user a JWT stands for), and the
  guards \<^verbatim>\<open>acl.guard.ts\<close> and \<^verbatim>\<open>roles.guard.ts\<close> that ask it.
\<close>

section \<open>The authenticated user\<close>

datatype auth_method = Jwt | Api_Key

text \<open>
  \<open>au_key_permissions = None\<close> is \<open>undefined\<close> or \<open>null\<close> (unrestricted); an absent
  \<open>isProtected\<close> is \<open>False\<close>.
\<close>

record auth_user =
  au_id :: ident
  au_email :: string
  au_username :: string
  au_display_name :: string
  au_role_id :: ident
  au_role :: string
  au_active :: bool
  au_local_password :: bool
  au_protected :: bool
  au_method :: "auth_method option"
  au_api_key :: "ident option"
  au_key_permissions :: "(resource \<times> action) list option"

definition to_authenticated_user :: "user_row \<Rightarrow> role_row \<Rightarrow> auth_user" where
  "to_authenticated_user u r =
     \<lparr>au_id = u_id u, au_email = u_email u, au_username = u_username u,
      au_display_name = u_display_name u, au_role_id = r_id r, au_role = r_name r,
      au_active = u_active u, au_local_password = u_local_password u,
      au_protected = u_protected u, au_method = None,
      au_api_key = None, au_key_permissions = None\<rparr>"

section \<open>The evaluator\<close>

type_synonym cache = "string \<rightharpoonup> bool"

definition override_of :: "db \<Rightarrow> ident \<Rightarrow> resource \<Rightarrow> action \<Rightarrow> bool option" where
  "override_of d uid r a =
     map_option p_allowed
       (List.find (\<lambda>p. (p_user p, p_resource p, p_action p) = (uid, resource_name r, action_name a))
          (t_user_permissions d))"

definition role_acl_of :: "db \<Rightarrow> ident \<Rightarrow> resource \<Rightarrow> action \<Rightarrow> bool option" where
  "role_acl_of d rid r a =
     map_option a_allowed
       (List.find (\<lambda>e. (a_role e, a_resource e, a_action e) = (rid, resource_name r, action_name a))
          (t_acls d))"

definition stored_permission :: "db \<Rightarrow> auth_user \<Rightarrow> resource \<Rightarrow> action \<Rightarrow> bool" where
  "stored_permission d u r a =
     (case override_of d (au_id u) r a of
        Some b \<Rightarrow> b
      | None \<Rightarrow> (case role_acl_of d (au_role_id u) r a of Some b \<Rightarrow> b | None \<Rightarrow> False))"

definition key_excludes :: "auth_user \<Rightarrow> resource \<Rightarrow> action \<Rightarrow> bool" where
  "key_excludes u r a =
     (case au_key_permissions u of None \<Rightarrow> False | Some ps \<Rightarrow> (r, a) \<notin> set ps)"

definition is_allowed_cached ::
    "db \<Rightarrow> auth_user \<Rightarrow> resource \<Rightarrow> action \<Rightarrow> cache \<Rightarrow> bool \<times> cache" where
  "is_allowed_cached d u r a c =
     (if au_protected u \<and> au_method u \<noteq> Some Api_Key then (True, c)
      else if key_excludes u r a then (False, c)
      else case c (perm_key r a) of
        Some b \<Rightarrow> (b, c)
      | None \<Rightarrow> (let b = stored_permission d u r a in (b, c(perm_key r a \<mapsto> b))))"

text \<open>A call without a cache.\<close>

definition is_allowed :: "db \<Rightarrow> auth_user \<Rightarrow> resource \<Rightarrow> action \<Rightarrow> bool" where
  "is_allowed d u r a = fst (is_allowed_cached d u r a Map.empty)"

section \<open>The guards\<close>

fun acl_guard_loop ::
    "db \<Rightarrow> auth_user \<Rightarrow> (resource \<times> action) list \<Rightarrow> cache \<Rightarrow> cache result" where
  "acl_guard_loop d u [] c = Inr c"
| "acl_guard_loop d u ((r, a) # rs) c =
     (case is_allowed_cached d u r a c of
        (b, c') \<Rightarrow> if b then acl_guard_loop d u rs c' else Inl (Forbidden ''permission''))"

text \<open>\<open>None\<close> for the metadata: the route carries no permission requirement.\<close>

definition acl_guard ::
    "db \<Rightarrow> auth_user option \<Rightarrow> (resource \<times> action) list option \<Rightarrow> cache \<Rightarrow> cache result" where
  "acl_guard d user metadata c =
     (case metadata of
        None \<Rightarrow> Inr c
      | Some required \<Rightarrow>
          (case user of
             None \<Rightarrow> Inl (Forbidden ''permission'')
           | Some u \<Rightarrow> acl_guard_loop d u required c))"

definition roles_guard :: "string list option \<Rightarrow> auth_user option \<Rightarrow> unit result" where
  "roles_guard required user =
     (case required of
        None \<Rightarrow> Inr ()
      | Some roles \<Rightarrow>
          if roles = [] then Inr ()
          else (case user of
             None \<Rightarrow> Inl (Forbidden ''permission'')
           | Some u \<Rightarrow>
               if au_role u \<notin> set roles \<or> au_key_permissions u \<noteq> None
               then Inl (Forbidden ''permission'') else Inr ()))"

section \<open>The list of effective permissions\<close>

definition put_entries ::
    "acl_entry list \<Rightarrow> (string \<times> acl_entry) list \<Rightarrow> (string \<times> acl_entry) list" where
  "put_entries es m = foldl (\<lambda>m e. map_put (entry_key e) e m) m es"

definition role_entries :: "db \<Rightarrow> ident \<Rightarrow> acl_entry list" where
  "role_entries d rid =
     List.map_filter (\<lambda>a. parse_acl_entry (a_resource a) (a_action a) (a_allowed a))
       (filter (\<lambda>a. a_role a = rid) (t_acls d))"

definition user_entries :: "db \<Rightarrow> ident \<Rightarrow> acl_entry list" where
  "user_entries d uid =
     List.map_filter (\<lambda>p. parse_acl_entry (p_resource p) (p_action p) (p_allowed p))
       (filter (\<lambda>p. p_user p = uid) (t_user_permissions d))"

definition all_supported :: "acl_entry list" where
  "all_supported =
     concat (map (\<lambda>r. map (\<lambda>a. \<lparr>ae_resource = r, ae_action = a, ae_allowed = True\<rparr>)
       (filter (is_permission_supported r) ACTIONS)) RESOURCES)"

definition effective_permissions ::
    "(string \<Rightarrow> string \<Rightarrow> int) \<Rightarrow> db \<Rightarrow> ident \<Rightarrow> acl_entry list" where
  "effective_permissions lc d uid =
     (case find_user d uid of
        None \<Rightarrow> []
      | Some u \<Rightarrow>
          if u_protected u then all_supported
          else
            let rid = (case resolve_role lc d uid of Some r \<Rightarrow> r_id r | None \<Rightarrow> u_role u)
            in map snd (put_entries (user_entries d uid) (put_entries (role_entries d rid) [])))"

text \<open>\<open>validateUser\<close>: the user an access token's payload stands for, with the effective role.\<close>

datatype token_type = Access | Refresh

record jwt_payload =
  jp_user :: ident
  jp_email :: string
  jp_role_id :: ident
  jp_role :: string
  jp_token_type :: "token_type option"
  jp_token_id :: "ident option"

definition validate_user ::
    "(string \<Rightarrow> string \<Rightarrow> int) \<Rightarrow> db \<Rightarrow> jwt_payload \<Rightarrow> auth_user option" where
  "validate_user lc d p =
     (if jp_token_type p = Some Refresh then None
      else case resolve_user lc d (jp_user p) of
        None \<Rightarrow> None
      | Some (u, r) \<Rightarrow> if u_active u then Some (to_authenticated_user u r) else None)"

section \<open>The cache is transparent\<close>

text \<open>A cache is coherent for a user when every entry is what the tables say.\<close>

definition coherent :: "db \<Rightarrow> auth_user \<Rightarrow> cache \<Rightarrow> bool" where
  "coherent d u c \<longleftrightarrow>
     (\<forall>r a b. c (perm_key r a) = Some b \<longrightarrow> b = stored_permission d u r a)"

lemma coherent_empty [simp]: "coherent d u Map.empty"
  by (simp add: coherent_def)

lemma is_allowed_unfold:
  "is_allowed d u r a \<longleftrightarrow>
     (au_protected u \<and> au_method u \<noteq> Some Api_Key) \<or>
     (\<not> key_excludes u r a \<and> stored_permission d u r a)"
  by (auto simp: is_allowed_def is_allowed_cached_def Let_def)

lemma is_allowed_cached_transparent:
  assumes "coherent d u c" and "is_allowed_cached d u r a c = (b, c')"
  shows "b = is_allowed d u r a" and "coherent d u c'"
  using assms
  by (auto simp: is_allowed_cached_def is_allowed_unfold coherent_def Let_def
      split: if_splits option.splits)

lemma acl_guard_loop_Inr:
  assumes "coherent d u c"
  shows "(\<exists>c'. acl_guard_loop d u rs c = Inr c') \<longleftrightarrow> (\<forall>(r, a) \<in> set rs. is_allowed d u r a)"
  using assms
proof (induction rs arbitrary: c)
  case Nil
  then show ?case by simp
next
  case (Cons x rs)
  obtain r a where x: "x = (r, a)" by (cases x)
  obtain b c' where bc: "is_allowed_cached d u r a c = (b, c')" by (cases "is_allowed_cached d u r a c")
  note t = is_allowed_cached_transparent [OF Cons.prems bc]
  show ?case using Cons.IH [OF t(2)] t(1) by (simp add: x bc)
qed

lemma acl_guard_loop_coherent:
  "coherent d u c \<Longrightarrow> acl_guard_loop d u rs c = Inr c' \<Longrightarrow> coherent d u c'"
proof (induction d u rs c rule: acl_guard_loop.induct)
  case (2 d u r a rs c)
  then show ?case
    using is_allowed_cached_transparent(2) [OF 2(2)] by (auto split: prod.splits if_splits)
qed simp

section \<open>Reading the list form\<close>

lemma map_of_put_entries:
  "map_of (put_entries es m) k =
     (case List.find (\<lambda>e. entry_key e = k) (rev es) of Some e \<Rightarrow> Some e | None \<Rightarrow> map_of m k)"
proof (induction es rule: rev_induct)
  case Nil
  then show ?case by (simp add: put_entries_def)
next
  case (snoc e es)
  then show ?case by (auto simp: put_entries_def)
qed

lemma keys_put_entries:
  "\<forall>(k, e) \<in> set m. entry_key e = k \<Longrightarrow> \<forall>(k, e) \<in> set (put_entries es m). entry_key e = k"
proof (induction es rule: rev_induct)
  case Nil
  then show ?case by (simp add: put_entries_def)
next
  case (snoc e es)
  have put: "\<And>k v m. \<forall>(k, e) \<in> set m. entry_key e = k \<Longrightarrow> entry_key v = k \<Longrightarrow>
      \<forall>(k, e) \<in> set (map_put k v m). entry_key e = k"
    subgoal for k v m by (induction k v m rule: map_put.induct) auto
    done
  show ?case using put [OF snoc.IH [OF snoc.prems], of e "entry_key e"]
    by (simp add: put_entries_def)
qed

lemma distinct_put_entries:
  "distinct (map fst m) \<Longrightarrow> distinct (map fst (put_entries es m))"
  by (induction es rule: rev_induct) (simp_all add: put_entries_def distinct_map_put)

text \<open>A list of entries holds an allowed entry for a right exactly when the map does.\<close>

lemma put_entries_member:
  assumes "\<forall>(k, e) \<in> set m. entry_key e = k" and "distinct (map fst m)"
  shows "(\<exists>e \<in> set (map snd (put_entries es m)). ae_resource e = r \<and> ae_action e = a \<and> ae_allowed e)
    \<longleftrightarrow> (\<exists>e. map_of (put_entries es m) (perm_key r a) = Some e \<and> ae_allowed e)"
proof -
  have key: "\<And>k e. (k, e) \<in> set (put_entries es m) \<Longrightarrow> entry_key e = k"
    using keys_put_entries [OF assms(1)] by auto
  have dist: "distinct (map fst (put_entries es m))"
    using distinct_put_entries [OF assms(2)] .
  show ?thesis
  proof
    assume "\<exists>e \<in> set (map snd (put_entries es m)).
      ae_resource e = r \<and> ae_action e = a \<and> ae_allowed e"
    then obtain k e where e: "(k, e) \<in> set (put_entries es m)" "ae_resource e = r"
        "ae_action e = a" "ae_allowed e" by auto
    then have "k = perm_key r a" using key by (auto simp: entry_key_def)
    with e dist show "\<exists>e. map_of (put_entries es m) (perm_key r a) = Some e \<and> ae_allowed e"
      by (auto intro: map_of_is_SomeI)
  next
    assume "\<exists>e. map_of (put_entries es m) (perm_key r a) = Some e \<and> ae_allowed e"
    then obtain e where e: "(perm_key r a, e) \<in> set (put_entries es m)" "ae_allowed e"
      by (auto dest: map_of_SomeD)
    then have "entry_key e = perm_key r a" using key by blast
    then have "ae_resource e = r" "ae_action e = a" by (simp_all add: entry_key_def)
    with e show "\<exists>e \<in> set (map snd (put_entries es m)).
        ae_resource e = r \<and> ae_action e = a \<and> ae_allowed e" by force
  qed
qed

text \<open>
  The rows of one owner, parsed and looked up by a supported right, are the direct lookup by
  the unique columns. \<open>own\<close>, \<open>res\<close>, \<open>act\<close> and \<open>al\<close> read the columns of the table.
\<close>

lemma find_parsed_rows:
  assumes dist: "distinct (map (\<lambda>x. (own x, res x, act x)) rows)"
    and supp: "is_permission_supported r a"
    and es: "es = List.map_filter (\<lambda>x. parse_acl_entry (res x) (act x) (al x))
      (filter (\<lambda>x. own x = o') rows)"
  shows "List.find (\<lambda>e. entry_key e = perm_key r a) (rev es) =
    map_option (\<lambda>x. \<lparr>ae_resource = r, ae_action = a, ae_allowed = al x\<rparr>)
      (List.find (\<lambda>x. (own x, res x, act x) = (o', resource_name r, action_name a)) rows)"
    (is "?lhs = map_option ?mk (List.find ?p rows)")
proof -
  have mem: "e \<in> set es \<and> entry_key e = perm_key r a \<longleftrightarrow> (\<exists>x \<in> set rows. ?p x \<and> e = ?mk x)" for e
    unfolding es using supp
    by (cases e) (auto simp: set_map_filter parse_acl_entry_Some_iff entry_key_def)
  show ?thesis
  proof (cases "List.find ?p rows")
    case None
    then have "\<And>e. e \<in> set es \<Longrightarrow> entry_key e \<noteq> perm_key r a"
      using mem by (auto simp: find_None_iff)
    then have "?lhs = None" by (simp add: find_None_iff)
    with None show ?thesis by simp
  next
    case (Some x)
    then have x: "x \<in> set rows" "?p x" by (auto dest: find_SomeD)
    have only: "y = x" if "y \<in> set rows" "?p y" for y
      using unique_key_eq [OF dist that(1) x(1)] that(2) x(2) by simp
    have "?lhs = Some (?mk x)"
    proof (rule find_all_equal)
      have "?mk x \<in> set es \<and> entry_key (?mk x) = perm_key r a" using mem x by blast
      then show "?mk x \<in> set (rev es)" and "entry_key (?mk x) = perm_key r a" by simp_all
    next
      fix e assume "e \<in> set (rev es)" and "entry_key e = perm_key r a"
      then obtain y where "y \<in> set rows" "?p y" "e = ?mk y" using mem by auto
      with only show "e = ?mk x" by blast
    qed
    with Some show ?thesis by simp
  qed
qed

lemma find_role_entries:
  assumes "accounts_ok d" and "is_permission_supported r a"
  shows "List.find (\<lambda>e. entry_key e = perm_key r a) (rev (role_entries d rid)) =
    map_option (\<lambda>b. \<lparr>ae_resource = r, ae_action = a, ae_allowed = b\<rparr>) (role_acl_of d rid r a)"
proof -
  have "distinct (map (\<lambda>x. (a_role x, a_resource x, a_action x)) (t_acls d))"
    using assms(1) by (simp add: accounts_ok_def)
  from find_parsed_rows [OF this assms(2) role_entries_def] show ?thesis
    unfolding role_acl_of_def option.map_comp comp_def .
qed

lemma find_user_entries:
  assumes "accounts_ok d" and "is_permission_supported r a"
  shows "List.find (\<lambda>e. entry_key e = perm_key r a) (rev (user_entries d uid)) =
    map_option (\<lambda>b. \<lparr>ae_resource = r, ae_action = a, ae_allowed = b\<rparr>) (override_of d uid r a)"
proof -
  have "distinct (map (\<lambda>x. (p_user x, p_resource x, p_action x)) (t_user_permissions d))"
    using assms(1) by (simp add: accounts_ok_def)
  from find_parsed_rows [OF this assms(2) user_entries_def] show ?thesis
    unfolding override_of_def option.map_comp comp_def .
qed

text \<open>Role entries overlaid by a user's own entries grant what the evaluator's two lookups grant.\<close>

lemma overlay_grants_iff:
  assumes "accounts_ok d" and "is_permission_supported r a"
  shows "(\<exists>e \<in> set (map snd (put_entries (user_entries d uid) (put_entries (role_entries d rid) []))).
      ae_resource e = r \<and> ae_action e = a \<and> ae_allowed e) \<longleftrightarrow>
    (case override_of d uid r a of
       Some b \<Rightarrow> b
     | None \<Rightarrow> (case role_acl_of d rid r a of Some b \<Rightarrow> b | None \<Rightarrow> False))"
proof -
  let ?m = "put_entries (role_entries d rid) []"
  have keys: "\<forall>(k, e) \<in> set ?m. entry_key e = k" by (rule keys_put_entries) simp
  have dist: "distinct (map fst ?m)" by (rule distinct_put_entries) simp
  show ?thesis
    unfolding put_entries_member [OF keys dist]
    by (simp add: map_of_put_entries find_user_entries [OF assms] find_role_entries [OF assms]
        split: option.splits)
qed

lemma set_all_supported:
  "e \<in> set all_supported \<longleftrightarrow>
    is_permission_supported (ae_resource e) (ae_action e) \<and> ae_allowed e"
  by (cases e) (auto simp: all_supported_def)

lemma all_supported_member:
  "(\<exists>e \<in> set all_supported. ae_resource e = r \<and> ae_action e = a \<and> ae_allowed e) \<longleftrightarrow>
    is_permission_supported r a" (is "?L \<longleftrightarrow> ?R")
proof
  assume ?L
  then show ?R by (auto simp: set_all_supported)
next
  assume ?R
  then show ?L
    by (intro bexI [of _ "\<lparr>ae_resource = r, ae_action = a, ae_allowed = True\<rparr>"])
      (simp_all add: set_all_supported)
qed

lemma is_allowed_of_user:
  "is_allowed d (to_authenticated_user u role) r a \<longleftrightarrow>
    u_protected u \<or>
    (case override_of d (u_id u) r a of
       Some b \<Rightarrow> b
     | None \<Rightarrow> (case role_acl_of d (r_id role) r a of Some b \<Rightarrow> b | None \<Rightarrow> False))"
  unfolding is_allowed_unfold key_excludes_def stored_permission_def
  by (simp add: to_authenticated_user_def cong: option.case_cong)

text \<open>The list form grants exactly what the evaluator allows the user whom a token stands for.\<close>

lemma effective_permissions_grant:
  assumes ok: "accounts_ok d" and supp: "is_permission_supported r a"
    and user: "resolve_user lc d uid = Some (u, role)"
  shows "(\<exists>e \<in> set (effective_permissions lc d uid).
      ae_resource e = r \<and> ae_action e = a \<and> ae_allowed e) \<longleftrightarrow>
    is_allowed d (to_authenticated_user u role) r a"
proof -
  from user have u: "find_user d uid = Some u"
    by (auto simp: resolve_user_def split: option.splits)
  then have id: "u_id u = uid" by (auto simp: find_user_def dest: find_SomeD)
  show ?thesis
  proof (cases "u_protected u")
    case True
    then show ?thesis using u supp
      by (simp add: effective_permissions_def all_supported_member is_allowed_of_user)
  next
    case False
    then have "effective_permissions lc d uid =
      map snd (put_entries (user_entries d uid) (put_entries (role_entries d (r_id role)) []))"
      using u user by (simp add: effective_permissions_def resolve_role_def)
    then show ?thesis using False id overlay_grants_iff [OF ok supp, of uid "r_id role"]
      by (simp add: is_allowed_of_user)
  qed
qed

section \<open>Properties\<close>

text \<open>
  C6: The two permission engines agree. For the user an access token stands for, the evaluator
  behind every guard allows a catalogued right exactly when the list delivered to the client
  (\<open>getEffectivePermissions\<close>) holds an allowed entry for it: protected accounts, overrides
  and the effective role included.
\<close>

theorem permission_engines_agree:
  assumes "accounts_ok d" and "is_permission_supported r a"
    and "validate_user lc d p = Some u"
  shows "is_allowed d u r a \<longleftrightarrow>
    (\<exists>e \<in> set (effective_permissions lc d (jp_user p)).
       ae_resource e = r \<and> ae_action e = a \<and> ae_allowed e)"
proof -
  obtain row role where "resolve_user lc d (jp_user p) = Some (row, role)"
    and "u = to_authenticated_user row role"
    using assms(3) by (auto simp: validate_user_def split: if_splits option.splits)
  with effective_permissions_grant [OF assms(1,2)] show ?thesis by blast
qed

definition access_payload :: "ident \<Rightarrow> jwt_payload" where
  "access_payload i = \<lparr>jp_user = i, jp_email = i, jp_role_id = i, jp_role = i, jp_token_type = Some Access, jp_token_id = None\<rparr>"

lemma sample_rob:
  "validate_user code_point_compare sample_db (access_payload ''rob'') =
     Some (to_authenticated_user (sample_user ''rob'' ''rd'' False)
       \<lparr>r_id = ''rd'', r_name = ''reader'', r_description = None, r_system = False\<rparr>)"
  by (simp add: validate_user_def access_payload_def resolve_user_def find_defs sample_defs
      with_effective_role_def external_grants_def sort_by_def)

theorem permission_engines_agree_witness:
  "\<exists>e \<in> set (effective_permissions code_point_compare sample_db ''rob'').
     ae_resource e = Notes \<and> ae_action e = Read \<and> ae_allowed e"
proof -
  have "is_permission_supported Notes Read" by (simp add: is_permission_supported_def)
  moreover have "is_allowed sample_db (to_authenticated_user (sample_user ''rob'' ''rd'' False)
       \<lparr>r_id = ''rd'', r_name = ''reader'', r_description = None, r_system = False\<rparr>) Notes Read"
    by (simp add: is_allowed_of_user override_of_def sample_defs)
  ultimately show ?thesis
    using permission_engines_agree [OF sample_db_ok(1) _ sample_rob, of Notes Read]
    by (simp add: access_payload_def)
qed

text \<open>
  The ACL guard lets a request pass exactly when every required right is allowed, also when
  an earlier guard of the same request has filled the request's permission cache: the cache
  never changes a decision.
\<close>

theorem acl_guard_exact:
  assumes "acl_guard d (Some u) (Some earlier) Map.empty = Inr c"
  shows "(\<exists>c'. acl_guard d (Some u) (Some required) c = Inr c') \<longleftrightarrow>
    (\<forall>(r, a) \<in> set required. is_allowed d u r a)"
proof -
  have "coherent d u c"
    using assms acl_guard_loop_coherent [of d u Map.empty] by (simp add: acl_guard_def)
  then show ?thesis by (simp add: acl_guard_def acl_guard_loop_Inr)
qed

theorem acl_guard_exact_witness:
  "\<exists>c. acl_guard sample_db (Some (to_authenticated_user (sample_user ''rob'' ''rd'' False)
       \<lparr>r_id = ''rd'', r_name = ''reader'', r_description = None, r_system = False\<rparr>))
       (Some [(Pages, Read)]) Map.empty = Inr c \<and>
     (\<exists>c'. acl_guard sample_db (Some (to_authenticated_user (sample_user ''rob'' ''rd'' False)
       \<lparr>r_id = ''rd'', r_name = ''reader'', r_description = None, r_system = False\<rparr>))
       (Some [(Pages, Read), (Notes, Read)]) c = Inr c')"
proof -
  let ?u = "to_authenticated_user (sample_user ''rob'' ''rd'' False)
       \<lparr>r_id = ''rd'', r_name = ''reader'', r_description = None, r_system = False\<rparr>"
  have allowed: "is_allowed sample_db ?u Pages Read" "is_allowed sample_db ?u Notes Read"
    by (simp_all add: is_allowed_of_user override_of_def role_acl_of_def sample_defs)
  then obtain c where "acl_guard sample_db (Some ?u) (Some [(Pages, Read)]) Map.empty = Inr c"
    using acl_guard_loop_Inr [OF coherent_empty, of sample_db ?u "[(Pages, Read)]"]
    by (auto simp: acl_guard_def)
  with acl_guard_exact [OF this, of "[(Pages, Read), (Notes, Read)]"] allowed show ?thesis by auto
qed

end
