(* ===== verification/Role_Admin.thy ===== *)
theory Role_Admin
  imports Authz
begin

text \<open>
  Administration of roles and individual permissions:
  \<^verbatim>\<open>apps/api/src/modules/auth/permission-ceiling.ts\<close> (nobody grants what they do not hold) and
  \<^verbatim>\<open>apps/api/src/modules/acls/acls.service.ts\<close>. Every operation takes the database and returns
  the new one or the exception; a fresh row id is an argument.
\<close>

section \<open>The permission ceiling\<close>

definition allowed_keys :: "(string \<times> acl_entry) list \<Rightarrow> string list" where
  "allowed_keys m = map fst (filter (\<lambda>(k, e). ae_allowed e) m)"

definition effective_permission_keys :: "db \<Rightarrow> ident \<Rightarrow> string list result" where
  "effective_permission_keys d uid =
     (case find_user d uid of
        None \<Rightarrow> Inl (Forbidden ''actor'')
      | Some u \<Rightarrow>
          if u_protected u
          then Inr (concat (map (\<lambda>r. map (perm_key r) (PERMISSION_CATALOG r)) RESOURCES))
          else Inr (allowed_keys
            (put_entries (user_entries d uid) (put_entries (role_entries d (u_role u)) []))))"

definition assert_may_grant_entries :: "db \<Rightarrow> ident \<Rightarrow> acl_entry list \<Rightarrow> unit result" where
  "assert_may_grant_entries d actor es =
     rbind (effective_permission_keys d actor) (\<lambda>keys.
       rguard (\<not> (\<exists>e \<in> set es. ae_allowed e \<and> entry_key e \<notin> set keys)) (Forbidden ''ceiling''))"

definition assert_may_assign_role :: "db \<Rightarrow> ident \<Rightarrow> ident \<Rightarrow> unit result" where
  "assert_may_assign_role d actor rid =
     rbind (or_throw (Forbidden ''role'') (find_role d rid)) (\<lambda>_.
       assert_may_grant_entries d actor (role_entries d rid))"

section \<open>Roles\<close>

definition find_role_by_name :: "db \<Rightarrow> string \<Rightarrow> role_row option" where
  "find_role_by_name d n = List.find (\<lambda>r. r_name r = n) (t_roles d)"

text \<open>\<open>input.description || null\<close>\<close>

definition blank_to_null :: "string \<Rightarrow> string option" where
  "blank_to_null s = (if s = [] then None else Some s)"

definition create_role :: "db \<Rightarrow> ident \<Rightarrow> string \<Rightarrow> string \<Rightarrow> db result" where
  "create_role d new_id name description =
     rbind (rguard (find_role_by_name d name = None) (Conflict ''role name'')) (\<lambda>_.
     rbind (insert_row r_id (Internal ''P2002'')
         \<lparr>r_id = new_id, r_name = name, r_description = blank_to_null description, r_system = False\<rparr>
         (t_roles d)) (\<lambda>roles.
     Inr (d\<lparr>t_roles := roles\<rparr>)))"

definition update_role ::
    "db \<Rightarrow> ident \<Rightarrow> string option \<Rightarrow> string option option \<Rightarrow> db result" where
  "update_role d i name description =
     rbind (or_throw (NotFound ''role'') (find_role d i)) (\<lambda>role.
     let renames = (case name of None \<Rightarrow> False | Some n \<Rightarrow> n \<noteq> [] \<and> n \<noteq> r_name role) in
     rbind (rguard (\<not> (r_system role \<and> name \<noteq> None \<and> name \<noteq> Some (r_name role)))
       (Forbidden ''system role'')) (\<lambda>_.
     rbind (rguard (\<not> (renames \<and> find_role_by_name d (the name) \<noteq> None))
       (Conflict ''role name'')) (\<lambda>_.
     rbind (rguard (\<forall>r \<in> set (t_roles d). r_id r \<noteq> i \<longrightarrow> name \<noteq> Some (r_name r))
       (Internal ''P2002'')) (\<lambda>_.
     Inr (d\<lparr>t_roles := update_where (\<lambda>r. r_id r = i)
              (\<lambda>r. r\<lparr>r_name := (case name of None \<Rightarrow> r_name r | Some n \<Rightarrow> n),
                     r_description := (case description of None \<Rightarrow> r_description r
                       | Some None \<Rightarrow> None | Some (Some t) \<Rightarrow> blank_to_null t)\<rparr>) (t_roles d),
            t_settings := (if renames
              then update_where (\<lambda>s. set_key s = ''default_role'' \<and> set_value s = r_name role)
                     (\<lambda>s. s\<lparr>set_value := the name\<rparr>) (t_settings d)
              else t_settings d)\<rparr>)))))"

definition setting_value :: "db \<Rightarrow> string \<Rightarrow> string option" where
  "setting_value d k = map_option set_value (List.find (\<lambda>s. set_key s = k) (t_settings d))"

text \<open>
  Deleting a role deletes its ACL rows (\<open>onDelete: Cascade\<close>); an external role grant still
  referring to it makes the database refuse (\<open>onDelete: Restrict\<close>).
\<close>

definition delete_role :: "db \<Rightarrow> ident \<Rightarrow> db result" where
  "delete_role d i =
     rbind (or_throw (NotFound ''role'') (find_role d i)) (\<lambda>role.
     rbind (rguard (\<not> r_system role) (Forbidden ''system role'')) (\<lambda>_.
     rbind (rguard (\<not> 0 < count_where (\<lambda>u. u_role u = i) (t_users d)) (Conflict ''role has users'')) (\<lambda>_.
     rbind (rguard (\<not> (0 < count_where (\<lambda>p. ip_default_role p = Some i) (t_providers d) \<or>
                        0 < count_where (\<lambda>m. rm_role m = i) (t_role_mappings d)))
       (Conflict ''role has identity provider'')) (\<lambda>_.
     rbind (rguard (setting_value d ''default_role'' \<noteq> Some (r_name role))
       (Conflict ''default role'')) (\<lambda>_.
     rbind (rguard (count_where (\<lambda>g. rg_role g = i) (t_role_grants d) = 0) (Internal ''P2003'')) (\<lambda>_.
     Inr (d\<lparr>t_roles := delete_where (\<lambda>r. r_id r = i) (t_roles d),
            t_acls := delete_where (\<lambda>a. a_role a = i) (t_acls d)\<rparr>)))))))"

section \<open>Setting permissions\<close>

definition dedupe :: "acl_entry list \<Rightarrow> acl_entry list" where
  "dedupe es =
     map snd (put_entries
       (filter (\<lambda>e. is_permission_supported (ae_resource e) (ae_action e)) es) [])"

definition acl_row_of :: "ident \<Rightarrow> acl_entry \<Rightarrow> acl_row" where
  "acl_row_of rid e =
     \<lparr>a_role = rid, a_resource = resource_name (ae_resource e),
      a_action = action_name (ae_action e), a_allowed = ae_allowed e\<rparr>"

definition user_permission_row_of :: "ident \<Rightarrow> acl_entry \<Rightarrow> user_permission_row" where
  "user_permission_row_of uid e =
     \<lparr>p_user = uid, p_resource = resource_name (ae_resource e),
      p_action = action_name (ae_action e), p_allowed = ae_allowed e\<rparr>"

definition set_role_acls :: "db \<Rightarrow> ident \<Rightarrow> acl_entry list \<Rightarrow> ident \<Rightarrow> (db \<times> acl_entry list) result" where
  "set_role_acls d rid es actor =
     rbind (or_throw (NotFound ''role'') (find_role d rid)) (\<lambda>_.
     rbind (assert_may_grant_entries d actor es) (\<lambda>_.
     let d' = d\<lparr>t_acls := delete_where (\<lambda>a. a_role a = rid) (t_acls d) @
                  map (acl_row_of rid) (dedupe es)\<rparr>
     in Inr (d', role_entries d' rid)))"

definition get_user_permissions :: "db \<Rightarrow> ident \<Rightarrow> acl_entry list result" where
  "get_user_permissions d uid =
     rbind (or_throw (NotFound ''user'') (find_user d uid)) (\<lambda>_. Inr (user_entries d uid))"

definition ensure_manageable :: "db \<Rightarrow> ident \<Rightarrow> unit result" where
  "ensure_manageable d uid =
     rbind (or_throw (NotFound ''user'') (find_user d uid)) (\<lambda>u.
       rguard (\<not> u_protected u) (Forbidden ''protected account''))"

definition set_user_permissions ::
    "db \<Rightarrow> ident \<Rightarrow> acl_entry list \<Rightarrow> ident \<Rightarrow> (db \<times> acl_entry list) result" where
  "set_user_permissions d uid es actor =
     rbind (rguard (uid \<noteq> actor) (Forbidden ''own permissions'')) (\<lambda>_.
     rbind (ensure_manageable d uid) (\<lambda>_.
     rbind (assert_may_grant_entries d actor es) (\<lambda>_.
     let d' = d\<lparr>t_user_permissions := delete_where (\<lambda>p. p_user p = uid) (t_user_permissions d) @
                  map (user_permission_row_of uid) (dedupe es)\<rparr>
     in rbind (get_user_permissions d' uid) (\<lambda>ps. Inr (d', ps)))))"

section \<open>What deduplication keeps\<close>

abbreviation supported_entry :: "acl_entry \<Rightarrow> bool" where
  "supported_entry e \<equiv> is_permission_supported (ae_resource e) (ae_action e)"

lemma put_entries_keys:
  assumes "\<forall>(k, e) \<in> set m. entry_key e = k"
  shows "map entry_key (map snd (put_entries es m)) = map fst (put_entries es m)"
  using keys_put_entries [OF assms, of es] by auto

lemma set_put_entries: "snd ` set (put_entries es m) \<subseteq> set es \<union> snd ` set m"
proof (induction es rule: rev_induct)
  case Nil
  then show ?case by (simp add: put_entries_def)
next
  case (snoc e es)
  have "snd ` set (map_put k v m) \<subseteq> insert v (snd ` set m)"
    for k and v :: acl_entry and m :: "(string \<times> acl_entry) list"
    by (induction k v m rule: map_put.induct) auto
  from this [of "entry_key e" e "put_entries es m"] snoc show ?case
    by (auto simp: put_entries_def)
qed

lemma dedupe_keys: "distinct (map entry_key (dedupe es))"
  unfolding dedupe_def
  by (subst put_entries_keys) (simp_all add: distinct_put_entries)

lemma set_dedupe: "set (dedupe es) \<subseteq> {e \<in> set es. supported_entry e}"
  using set_put_entries [of "filter supported_entry es" "[]"] by (auto simp: dedupe_def)

lemma find_snd_map_of:
  "\<forall>(k, e) \<in> set m. entry_key e = k \<Longrightarrow>
   List.find (\<lambda>e. entry_key e = k) (map snd m) = map_of m k"
  by (induction m) auto

text \<open>The last entry for a right wins.\<close>

lemma find_dedupe:
  assumes "is_permission_supported r a"
  shows "List.find (\<lambda>e. entry_key e = perm_key r a) (dedupe es) =
    List.find (\<lambda>e. entry_key e = perm_key r a) (rev es)"
proof -
  let ?m = "put_entries (filter supported_entry es) []"
  have "\<forall>(k, e) \<in> set ?m. entry_key e = k" by (rule keys_put_entries) simp
  then have "List.find (\<lambda>e. entry_key e = perm_key r a) (dedupe es) = map_of ?m (perm_key r a)"
    unfolding dedupe_def by (rule find_snd_map_of)
  moreover have "List.find (\<lambda>e. entry_key e = perm_key r a) (filter supported_entry xs) =
      List.find (\<lambda>e. entry_key e = perm_key r a) xs" for xs
    using assms by (induction xs) (auto simp: entry_key_def)
  from this [of "rev es"] have "map_of ?m (perm_key r a) =
      List.find (\<lambda>e. entry_key e = perm_key r a) (rev es)"
    by (simp add: map_of_put_entries rev_filter split: option.splits)
  ultimately show ?thesis by simp
qed

lemma find_rev_distinct:
  assumes "distinct (map key xs)"
  shows "List.find (\<lambda>x. key x = k) (rev xs) = List.find (\<lambda>x. key x = k) xs"
proof (cases "List.find (\<lambda>x. key x = k) xs")
  case None
  then have "List.find (\<lambda>x. key x = k) (rev xs) = None" by (simp add: find_None_iff)
  with None show ?thesis by simp
next
  case (Some x)
  then have "x \<in> set (rev xs)" "key x = k" by (auto dest: find_SomeD)
  then have "List.find (\<lambda>x. key x = k) (rev xs) = Some x"
    by (intro find_by_key) (use assms in \<open>simp_all add: rev_map [symmetric]\<close>)
  with Some show ?thesis by simp
qed

lemma find_rev_dedupe:
  "is_permission_supported r a \<Longrightarrow>
   List.find (\<lambda>e. entry_key e = perm_key r a) (rev (dedupe es)) =
   List.find (\<lambda>e. entry_key e = perm_key r a) (rev es)"
  by (simp add: find_rev_distinct dedupe_keys find_dedupe)

section \<open>What setting permissions stores\<close>

lemma parse_acl_rows:
  "\<forall>e \<in> set es. supported_entry e \<Longrightarrow>
   List.map_filter (\<lambda>x. parse_acl_entry (a_resource x) (a_action x) (a_allowed x))
     (map (acl_row_of rid) es) = es"
  by (induction es) (auto simp: acl_row_of_def parse_acl_entry_names)

lemma parse_user_permission_rows:
  "\<forall>e \<in> set es. supported_entry e \<Longrightarrow>
   List.map_filter (\<lambda>x. parse_acl_entry (p_resource x) (p_action x) (p_allowed x))
     (map (user_permission_row_of uid) es) = es"
  by (induction es) (auto simp: user_permission_row_of_def parse_acl_entry_names)

lemma dedupe_supported: "\<forall>e \<in> set (dedupe es). supported_entry e"
  using set_dedupe by auto

lemma role_entries_after_set:
  assumes "t_acls d' = delete_where (\<lambda>a. a_role a = rid) (t_acls d) @ map (acl_row_of rid) (dedupe es)"
  shows "role_entries d' rid' = (if rid' = rid then dedupe es else role_entries d rid')"
proof -
  have old: "filter (\<lambda>a. a_role a = rid) (delete_where (\<lambda>a. a_role a = rid) (t_acls d)) = []"
    by (auto simp: delete_where_def filter_empty_conv)
  have new: "filter (\<lambda>a. a_role a = r) (map (acl_row_of rid) xs) =
      (if r = rid then map (acl_row_of rid) xs else [])" for r xs
    by (induction xs) (auto simp: acl_row_of_def)
  have other: "r \<noteq> rid \<Longrightarrow> filter (\<lambda>a. a_role a = r) (delete_where (\<lambda>a. a_role a = rid) (t_acls d)) =
      filter (\<lambda>a. a_role a = r) (t_acls d)" for r
    by (auto simp: delete_where_def intro!: filter_cong)
  show ?thesis
    using old new other parse_acl_rows [OF dedupe_supported]
    by (auto simp: role_entries_def assms)
qed

lemma user_entries_after_set:
  assumes "t_user_permissions d' =
    delete_where (\<lambda>p. p_user p = uid) (t_user_permissions d) @ map (user_permission_row_of uid) (dedupe es)"
  shows "user_entries d' uid' = (if uid' = uid then dedupe es else user_entries d uid')"
proof -
  have old: "filter (\<lambda>p. p_user p = uid) (delete_where (\<lambda>p. p_user p = uid) (t_user_permissions d)) = []"
    by (auto simp: delete_where_def filter_empty_conv)
  have new: "filter (\<lambda>p. p_user p = u) (map (user_permission_row_of uid) xs) =
      (if u = uid then map (user_permission_row_of uid) xs else [])" for u xs
    by (induction xs) (auto simp: user_permission_row_of_def)
  have other: "u \<noteq> uid \<Longrightarrow>
      filter (\<lambda>p. p_user p = u) (delete_where (\<lambda>p. p_user p = uid) (t_user_permissions d)) =
      filter (\<lambda>p. p_user p = u) (t_user_permissions d)" for u
    by (auto simp: delete_where_def intro!: filter_cong)
  show ?thesis
    using old new other parse_user_permission_rows [OF dedupe_supported]
    by (auto simp: user_entries_def assms)
qed

section \<open>Whom the ceiling admits\<close>

text \<open>The right as the tables grant it to a user acting with a given role.\<close>

definition table_grants :: "db \<Rightarrow> ident \<Rightarrow> ident \<Rightarrow> resource \<Rightarrow> action \<Rightarrow> bool" where
  "table_grants d uid rid r a =
     (case override_of d uid r a of
        Some b \<Rightarrow> b
      | None \<Rightarrow> (case role_acl_of d rid r a of Some b \<Rightarrow> b | None \<Rightarrow> False))"

lemma is_allowed_table_grants:
  "is_allowed d (to_authenticated_user u role) r a \<longleftrightarrow>
    u_protected u \<or> table_grants d (u_id u) (r_id role) r a"
  by (simp add: is_allowed_of_user table_grants_def)

lemma catalogue_keys:
  "perm_key r a \<in> set (concat (map (\<lambda>r. map (perm_key r) (PERMISSION_CATALOG r)) RESOURCES)) \<longleftrightarrow>
    is_permission_supported r a"
  by (auto simp: is_permission_supported_def)

lemma allowed_keys_iff:
  assumes "distinct (map fst m)"
  shows "k \<in> set (allowed_keys m) \<longleftrightarrow> (\<exists>e. map_of m k = Some e \<and> ae_allowed e)"
  using assms by (force simp: allowed_keys_def dest: map_of_SomeD)

lemma effective_permission_keys_iff:
  assumes ok: "accounts_ok d" and supp: "is_permission_supported r a"
    and u: "find_user d uid = Some u" and keys: "effective_permission_keys d uid = Inr keys"
  shows "perm_key r a \<in> set keys \<longleftrightarrow> u_protected u \<or> table_grants d uid (u_role u) r a"
proof (cases "u_protected u")
  case True
  with u keys supp have "keys = concat (map (\<lambda>r. map (perm_key r) (PERMISSION_CATALOG r)) RESOURCES)"
    by (simp add: effective_permission_keys_def)
  with supp have "perm_key r a \<in> set keys" by (metis catalogue_keys)
  with True show ?thesis by simp
next
  case False
  let ?m = "put_entries (user_entries d uid) (put_entries (role_entries d (u_role u)) [])"
  have dist: "distinct (map fst ?m)"
    by (intro distinct_put_entries) simp
  have "keys = allowed_keys ?m"
    using False u keys by (simp add: effective_permission_keys_def)
  with False show ?thesis
    by (simp add: allowed_keys_iff [OF dist] map_of_put_entries table_grants_def
        find_user_entries [OF ok supp] find_role_entries [OF ok supp] split: option.splits)
qed

lemma assert_may_grant_entries_granted:
  assumes ok: "accounts_ok d" and grant: "assert_may_grant_entries d actor es = Inr ()"
    and e: "e \<in> set es" "ae_allowed e" "supported_entry e"
    and v: "find_user d actor = Some v"
  shows "u_protected v \<or> table_grants d actor (u_role v) (ae_resource e) (ae_action e)"
proof -
  obtain keys where keys: "effective_permission_keys d actor = Inr keys"
      and "\<forall>e \<in> set es. ae_allowed e \<longrightarrow> entry_key e \<in> set keys"
    using grant by (auto simp: assert_may_grant_entries_def result_simps)
  with e have "perm_key (ae_resource e) (ae_action e) \<in> set keys"
    by (auto simp: entry_key_def)
  then show ?thesis using effective_permission_keys_iff [OF ok e(3) v keys] by simp
qed

lemma granted_actor_exists:
  "assert_may_grant_entries d actor es = Inr () \<Longrightarrow> \<exists>v. find_user d actor = Some v"
  by (auto simp: assert_may_grant_entries_def effective_permission_keys_def result_simps
      split: option.splits)

section \<open>The constraints survive\<close>

lemma distinct_replaced:
  assumes "distinct (map key rows)" and "distinct (map key new)"
    and "\<And>r. r \<in> set new \<Longrightarrow> p r" and "\<And>r s. key r = key s \<Longrightarrow> p r = p s"
  shows "distinct (map key (delete_where p rows @ new))"
proof -
  have "key ` set (delete_where p rows) \<inter> key ` set new = {}"
  proof (rule ccontr)
    assume "key ` set (delete_where p rows) \<inter> key ` set new \<noteq> {}"
    then obtain r s where "r \<in> set (delete_where p rows)" "s \<in> set new" "key r = key s"
      by blast
    then show False using assms(3) [of s] assms(4) [of r s] by (simp add: row_simps)
  qed
  then show ?thesis using assms(1,2) by (simp add: distinct_delete_where)
qed

lemma distinct_acl_rows:
  "distinct (map (\<lambda>a. (a_role a, a_resource a, a_action a)) (map (acl_row_of rid) (dedupe es)))"
proof -
  have "(\<lambda>a. (a_role a, a_resource a, a_action a)) \<circ> acl_row_of rid =
      (\<lambda>e. (rid, resource_name (ae_resource e), action_name (ae_action e)))"
    by (auto simp: acl_row_of_def)
  then show ?thesis using dedupe_keys [of es]
    by (simp add: distinct_map inj_on_def entry_key_def)
qed

lemma distinct_user_permission_rows:
  "distinct (map (\<lambda>p. (p_user p, p_resource p, p_action p))
     (map (user_permission_row_of uid) (dedupe es)))"
proof -
  have "(\<lambda>p. (p_user p, p_resource p, p_action p)) \<circ> user_permission_row_of uid =
      (\<lambda>e. (uid, resource_name (ae_resource e), action_name (ae_action e)))"
    by (auto simp: user_permission_row_of_def)
  then show ?thesis using dedupe_keys [of es]
    by (simp add: distinct_map inj_on_def entry_key_def)
qed

lemma find_role_mem: "find_role d i = Some r \<Longrightarrow> r \<in> set (t_roles d) \<and> r_id r = i"
  by (auto simp: find_role_def dest: find_SomeD)

lemma find_user_mem: "find_user d i = Some u \<Longrightarrow> u \<in> set (t_users d) \<and> u_id u = i"
  by (auto simp: find_user_def dest: find_SomeD)

lemma find_role_key: "find_role d i = Some r \<Longrightarrow> i \<in> r_id ` set (t_roles d)"
  by (auto dest: find_role_mem)

lemma find_user_key: "find_user d i = Some u \<Longrightarrow> i \<in> u_id ` set (t_users d)"
  by (auto dest: find_user_mem)

lemma set_role_acls_ok:
  assumes ok: "accounts_ok d" and run: "set_role_acls d rid es actor = Inr (d', out)"
  shows "accounts_ok d'"
proof -
  have d': "d' = d\<lparr>t_acls := delete_where (\<lambda>a. a_role a = rid) (t_acls d) @
      map (acl_row_of rid) (dedupe es)\<rparr>" and rid: "rid \<in> r_id ` set (t_roles d)"
    using run by (auto simp: set_role_acls_def result_simps Let_def dest: find_role_mem)
  have "distinct (map (\<lambda>a. (a_role a, a_resource a, a_action a)) (t_acls d'))"
  proof -
    have "t_acls d' = delete_where (\<lambda>a. a_role a = rid) (t_acls d) @ map (acl_row_of rid) (dedupe es)"
      by (simp add: d')
    then show ?thesis using ok
      by (simp only:, intro distinct_replaced distinct_acl_rows)
        (auto simp: accounts_ok_def acl_row_of_def)
  qed
  moreover have "\<forall>a \<in> set (t_acls d'). a_role a \<in> r_id ` set (t_roles d')"
    using ok rid unfolding d' by (auto simp: accounts_ok_def row_simps acl_row_of_def)
  ultimately show ?thesis using ok unfolding d' by (simp add: accounts_ok_def)
qed

lemma set_user_permissions_ok:
  assumes ok: "accounts_ok d" and run: "set_user_permissions d uid es actor = Inr (d', out)"
  shows "accounts_ok d'"
proof -
  have d': "d' = d\<lparr>t_user_permissions := delete_where (\<lambda>p. p_user p = uid) (t_user_permissions d) @
      map (user_permission_row_of uid) (dedupe es)\<rparr>" and uid: "uid \<in> u_id ` set (t_users d)"
    using run by (auto simp: set_user_permissions_def ensure_manageable_def result_simps Let_def
        dest: find_user_mem)
  have "distinct (map (\<lambda>p. (p_user p, p_resource p, p_action p)) (t_user_permissions d'))"
  proof -
    have "t_user_permissions d' = delete_where (\<lambda>p. p_user p = uid) (t_user_permissions d) @
        map (user_permission_row_of uid) (dedupe es)"
      by (simp add: d')
    then show ?thesis using ok
      by (simp only:, intro distinct_replaced distinct_user_permission_rows)
        (auto simp: accounts_ok_def user_permission_row_of_def)
  qed
  moreover have "\<forall>p \<in> set (t_user_permissions d'). p_user p \<in> u_id ` set (t_users d')"
    using ok uid unfolding d' by (auto simp: accounts_ok_def row_simps user_permission_row_of_def)
  ultimately show ?thesis using ok unfolding d' by (simp add: accounts_ok_def)
qed

lemma create_role_ok:
  assumes "accounts_ok d" and "create_role d i name descr = Inr d'"
  shows "accounts_ok d'"
proof -
  have "find_role_by_name d name = None"
    using assms(2) by (auto simp: create_role_def result_simps)
  then have "name \<notin> r_name ` set (t_roles d)"
    by (auto simp: find_role_by_name_def find_None_iff)
  then show ?thesis using assms
    by (auto simp: create_role_def result_simps insert_row_eq_Inr accounts_ok_def)
qed

lemma delete_role_ok:
  assumes "accounts_ok d" and "delete_role d i = Inr d'"
  shows "accounts_ok d'"
proof -
  have d': "d' = d\<lparr>t_roles := delete_where (\<lambda>r. r_id r = i) (t_roles d),
      t_acls := delete_where (\<lambda>a. a_role a = i) (t_acls d)\<rparr>"
    and unused: "\<forall>u \<in> set (t_users d). u_role u \<noteq> i"
    using assms(2) by (auto simp: delete_role_def result_simps row_simps)
  show ?thesis using assms(1) unused unfolding d' accounts_ok_def
    by (auto simp: row_simps distinct_delete_where)
qed

lemma update_role_ok:
  assumes ok: "accounts_ok d" and run: "update_role d i name descr = Inr d'"
  shows "accounts_ok d'"
proof -
  define f :: "role_row \<Rightarrow> role_row" where "f = (\<lambda>r. r\<lparr>r_name := (case name of None \<Rightarrow> r_name r | Some n \<Rightarrow> n),
      r_description := (case descr of None \<Rightarrow> r_description r
        | Some None \<Rightarrow> None | Some (Some t) \<Rightarrow> blank_to_null t)\<rparr>)"
  obtain ts where d': "d' = d\<lparr>t_roles := update_where (\<lambda>r. r_id r = i) f (t_roles d), t_settings := ts\<rparr>"
    and keys: "map set_key ts = map set_key (t_settings d)"
    and free: "\<forall>r \<in> set (t_roles d). r_id r \<noteq> i \<longrightarrow> name \<noteq> Some (r_name r)"
  proof -
    obtain role where "find_role d i = Some role"
      using run by (auto simp: update_role_def result_simps)
    define renames where
      "renames = (case name of None \<Rightarrow> False | Some n \<Rightarrow> n \<noteq> [] \<and> n \<noteq> r_name role)"
    define ts where "ts = (if renames
      then update_where (\<lambda>s. set_key s = ''default_role'' \<and> set_value s = r_name role)
             (\<lambda>s. s\<lparr>set_value := the name\<rparr>) (t_settings d)
      else t_settings d)"
    have "d' = d\<lparr>t_roles := update_where (\<lambda>r. r_id r = i) f (t_roles d), t_settings := ts\<rparr> \<and>
        (\<forall>r \<in> set (t_roles d). r_id r \<noteq> i \<longrightarrow> name \<noteq> Some (r_name r))"
      using run \<open>find_role d i = Some role\<close>
      unfolding update_role_def f_def ts_def renames_def Let_def
      by (simp only: or_throw_Some rbind.simps rbind_eq_Inr rguard_eq_Inr sum.inject) blast
    moreover have "map set_key ts = map set_key (t_settings d)"
      by (simp add: ts_def map_update_where)
    ultimately show thesis using that by blast
  qed
  have ids: "map r_id (update_where (\<lambda>r. r_id r = i) f (t_roles d)) = map r_id (t_roles d)"
    by (rule map_update_where) (simp add: f_def)
  have names: "distinct (map r_name (update_where (\<lambda>r. r_id r = i) f (t_roles d)))"
  proof (cases name)
    case None
    then have "map r_name (update_where (\<lambda>r. r_id r = i) f (t_roles d)) = map r_name (t_roles d)"
      by (intro map_update_where) (simp add: f_def)
    with ok show ?thesis by (simp add: accounts_ok_def)
  next
    case (Some n)
    then show ?thesis using ok free
      by (intro distinct_update_unique) (auto simp: accounts_ok_def f_def)
  qed
  have "r_id ` set (update_where (\<lambda>r. r_id r = i) f (t_roles d)) = r_id ` set (t_roles d)"
    using ids by (metis set_map)
  with ok names ids keys show ?thesis unfolding d' by (simp add: accounts_ok_def)
qed

section \<open>Properties\<close>

lemma find_dedupe_override:
  assumes "accounts_ok d'" and "is_permission_supported r a"
    and "user_entries d' uid = dedupe es"
  shows "override_of d' uid r a =
    map_option ae_allowed (List.find (\<lambda>e. entry_key e = perm_key r a) (rev es))"
proof -
  have "List.find (\<lambda>e. entry_key e = perm_key r a) (rev (dedupe es)) =
      map_option (\<lambda>b. \<lparr>ae_resource = r, ae_action = a, ae_allowed = b\<rparr>) (override_of d' uid r a)"
    using find_user_entries [OF assms(1,2), of uid] assms(3) by simp
  then have "override_of d' uid r a =
      map_option ae_allowed (List.find (\<lambda>e. entry_key e = perm_key r a) (rev (dedupe es)))"
    by (simp add: option.map_comp comp_def option.map_ident)
  then show ?thesis by (simp add: find_rev_dedupe [OF assms(2)])
qed

lemma find_dedupe_role:
  assumes "accounts_ok d'" and "is_permission_supported r a"
    and "role_entries d' rid = dedupe es"
  shows "role_acl_of d' rid r a =
    map_option ae_allowed (List.find (\<lambda>e. entry_key e = perm_key r a) (rev es))"
proof -
  have "List.find (\<lambda>e. entry_key e = perm_key r a) (rev (dedupe es)) =
      map_option (\<lambda>b. \<lparr>ae_resource = r, ae_action = a, ae_allowed = b\<rparr>) (role_acl_of d' rid r a)"
    using find_role_entries [OF assms(1,2), of rid] assms(3) by simp
  then have "role_acl_of d' rid r a =
      map_option ae_allowed (List.find (\<lambda>e. entry_key e = perm_key r a) (rev (dedupe es)))"
    by (simp add: option.map_comp comp_def option.map_ident)
  then show ?thesis by (simp add: find_rev_dedupe [OF assms(2)])
qed

lemma other_entries_same_role:
  assumes "accounts_ok d" "accounts_ok d'" "is_permission_supported r a"
    and "role_entries d' rid = role_entries d rid"
  shows "role_acl_of d' rid r a = role_acl_of d rid r a"
proof -
  have "map_option (\<lambda>b. \<lparr>ae_resource = r, ae_action = a, ae_allowed = b\<rparr>) (role_acl_of d' rid r a) =
      map_option (\<lambda>b. \<lparr>ae_resource = r, ae_action = a, ae_allowed = b\<rparr>) (role_acl_of d rid r a)"
    using find_role_entries [OF assms(1,3), of rid] find_role_entries [OF assms(2,3), of rid]
      assms(4) by simp
  then show ?thesis by (cases "role_acl_of d' rid r a"; cases "role_acl_of d rid r a") simp_all
qed

lemma set_role_acls_Inr:
  assumes "set_role_acls d rid es actor = Inr (d', out)"
  shows "d' = d\<lparr>t_acls := delete_where (\<lambda>a. a_role a = rid) (t_acls d) @
      map (acl_row_of rid) (dedupe es)\<rparr>"
    and "out = dedupe es" and "assert_may_grant_entries d actor es = Inr ()"
    and "role_entries d' rid' = (if rid' = rid then dedupe es else role_entries d rid')"
proof -
  show d': "d' = d\<lparr>t_acls := delete_where (\<lambda>a. a_role a = rid) (t_acls d) @
      map (acl_row_of rid) (dedupe es)\<rparr>"
    using assms by (auto simp: set_role_acls_def result_simps Let_def)
  then show entries: "role_entries d' rid' = (if rid' = rid then dedupe es else role_entries d rid')"
    for rid' by (intro role_entries_after_set) simp
  from entries [of rid] show "out = dedupe es"
    using assms by (auto simp: set_role_acls_def result_simps Let_def d')
  show "assert_may_grant_entries d actor es = Inr ()"
    using assms by (auto simp: set_role_acls_def result_simps)
qed

text \<open>
  Saving a role's permissions stores exactly what was sent: the answer is the list without
  unsupported and repeated rights, every catalogued right of the role is what the last entry for
  it says (and absent when no entry names it), and every other role keeps its rights.
\<close>

theorem set_role_acls_stores:
  assumes ok: "accounts_ok d" and supp: "is_permission_supported r a"
    and run: "set_role_acls d rid es actor = Inr (d', out)"
  shows "out = dedupe es \<and>
    role_acl_of d' rid' r a =
      (if rid' = rid
       then map_option ae_allowed (List.find (\<lambda>e. entry_key e = perm_key r a) (rev es))
       else role_acl_of d rid' r a)"
  using set_role_acls_Inr [OF run] find_dedupe_role [OF set_role_acls_ok [OF ok run] supp]
    other_entries_same_role [OF ok set_role_acls_ok [OF ok run] supp]
  by simp

abbreviation sample_entry :: "bool \<Rightarrow> acl_entry" where
  "sample_entry b \<equiv> \<lparr>ae_resource = Pages, ae_action = Update, ae_allowed = b\<rparr>"

lemma sample_owner_may_grant:
  assumes "\<forall>e \<in> set es. supported_entry e"
  shows "assert_may_grant_entries sample_db ''own'' es = Inr ()"
proof -
  have keys: "effective_permission_keys sample_db ''own'' =
      Inr (concat (map (\<lambda>r. map (perm_key r) (PERMISSION_CATALOG r)) RESOURCES))"
    by (simp add: effective_permission_keys_def find_defs sample_defs)
  have "\<forall>e \<in> set es. entry_key e \<in>
      set (concat (map (\<lambda>r. map (perm_key r) (PERMISSION_CATALOG r)) RESOURCES))"
    using assms unfolding entry_key_def catalogue_keys .
  then have "\<not> (\<exists>e \<in> set es. ae_allowed e \<and> entry_key e \<notin>
      set (concat (map (\<lambda>r. map (perm_key r) (PERMISSION_CATALOG r)) RESOURCES)))"
    by blast
  then show ?thesis by (simp only: assert_may_grant_entries_def keys rbind.simps rguard_eq_Inr not_False_eq_True)
qed

lemma sample_set_role_acls:
  "\<exists>d'. set_role_acls sample_db ''rd'' [sample_entry False, sample_entry True] ''own'' =
     Inr (d', dedupe [sample_entry False, sample_entry True])"
proof -
  have may: "assert_may_grant_entries sample_db ''own'' [sample_entry False, sample_entry True] = Inr ()"
    by (rule sample_owner_may_grant) (simp add: is_permission_supported_def)
  have role: "\<exists>role. find_role sample_db ''rd'' = Some role"
    by (simp add: find_defs sample_defs)
  then have "\<exists>d' out. set_role_acls sample_db ''rd'' [sample_entry False, sample_entry True] ''own'' = Inr (d', out)"
    by (auto simp: set_role_acls_def may Let_def)
  then show ?thesis using set_role_acls_Inr(2) by blast
qed

theorem set_role_acls_stores_witness:
  "\<exists>d' out. set_role_acls sample_db ''rd'' [sample_entry False, sample_entry True] ''own'' = Inr (d', out) \<and>
     role_acl_of d' ''rd'' Pages Update = Some True"
proof -
  obtain d' out where run: "set_role_acls sample_db ''rd'' [sample_entry False, sample_entry True] ''own'' = Inr (d', out)"
    using sample_set_role_acls by blast
  have "is_permission_supported Pages Update" by (simp add: is_permission_supported_def)
  from set_role_acls_stores [OF sample_db_ok(1) this run, of "''rd''"] run show ?thesis
    by (simp add: entry_key_def)
qed

text \<open>
  C8: The ceiling on individual permissions: whoever saves another account's individual
  permissions can give it only rights that the actor holds through stored role and overrides (a
  protected actor holds all), or rights the account's own role already grants. Nobody can edit
  their own permissions or a protected account's, and the individual permissions of every other
  account are the same as before.
\<close>

theorem set_user_permissions_ceiling:
  assumes ok: "accounts_ok d" and supp: "is_permission_supported r a"
    and run: "set_user_permissions d uid es actor = Inr (d', out)"
  shows "uid \<noteq> actor \<and>
    (\<exists>u v. find_user d uid = Some u \<and> \<not> u_protected u \<and> find_user d actor = Some v \<and>
      (table_grants d' uid (u_role u) r a \<longrightarrow>
         u_protected v \<or> table_grants d actor (u_role v) r a \<or>
         role_acl_of d (u_role u) r a = Some True)) \<and>
    (\<forall>i. i \<noteq> uid \<longrightarrow> user_entries d' i = user_entries d i)"
proof -
  have d': "d' = d\<lparr>t_user_permissions := delete_where (\<lambda>p. p_user p = uid) (t_user_permissions d) @
      map (user_permission_row_of uid) (dedupe es)\<rparr>"
    and may: "assert_may_grant_entries d actor es = Inr ()"
    and other: "uid \<noteq> actor" and "\<exists>u. find_user d uid = Some u \<and> \<not> u_protected u"
    using run by (auto simp: set_user_permissions_def ensure_manageable_def result_simps Let_def)
  then obtain u where u: "find_user d uid = Some u" "\<not> u_protected u" by blast
  obtain v where v: "find_user d actor = Some v" using granted_actor_exists [OF may] ..
  have entries: "user_entries d' i = (if i = uid then dedupe es else user_entries d i)" for i
    by (rule user_entries_after_set) (simp add: d')
  have acls: "role_acl_of d' rid r a = role_acl_of d rid r a" for rid
    by (simp add: role_acl_of_def d')
  have "u_protected v \<or> table_grants d actor (u_role v) r a \<or> role_acl_of d (u_role u) r a = Some True"
    if granted: "table_grants d' uid (u_role u) r a"
  proof (cases "List.find (\<lambda>e. entry_key e = perm_key r a) (rev es)")
    case None
    then have "override_of d' uid r a = None"
      using find_dedupe_override [OF set_user_permissions_ok [OF ok run] supp] entries [of uid]
      by simp
    with granted show ?thesis by (simp add: table_grants_def acls split: option.splits)
  next
    case (Some e)
    then have e: "e \<in> set es" "ae_resource e = r" "ae_action e = a"
      by (auto dest!: find_SomeD simp: entry_key_def)
    from Some have "override_of d' uid r a = Some (ae_allowed e)"
      using find_dedupe_override [OF set_user_permissions_ok [OF ok run] supp] entries [of uid]
      by simp
    with granted have "ae_allowed e" by (simp add: table_grants_def)
    then have "u_protected v \<or> table_grants d actor (u_role v) r a"
      using assert_may_grant_entries_granted [OF ok may e(1) _ _ v] e supp by simp
    then show ?thesis by blast
  qed
  with u v other entries show ?thesis by auto
qed

theorem set_user_permissions_ceiling_witness:
  "\<exists>d' out. set_user_permissions sample_db ''rob'' [sample_entry True] ''own'' = Inr (d', out) \<and>
     (''rob'' :: string) \<noteq> ''own''"
proof -
  have may: "assert_may_grant_entries sample_db ''own'' [sample_entry True] = Inr ()"
    by (rule sample_owner_may_grant) (simp add: is_permission_supported_def)
  have man: "ensure_manageable sample_db ''rob'' = Inr ()"
    by (simp add: ensure_manageable_def find_defs sample_defs)
  have user: "find_user (sample_db\<lparr>t_user_permissions := ps\<rparr>) ''rob'' =
      Some (sample_user ''rob'' ''rd'' False)" for ps
    by (simp add: find_defs sample_defs)
  obtain d' out where
    run: "set_user_permissions sample_db ''rob'' [sample_entry True] ''own'' = Inr (d', out)"
    by (simp add: set_user_permissions_def man may get_user_permissions_def Let_def user)
  have "is_permission_supported Pages Update" by (simp add: is_permission_supported_def)
  from set_user_permissions_ceiling [OF sample_db_ok(1) this run] run show ?thesis by blast
qed

section \<open>Where the ceiling falls short\<close>

text \<open>
  The sample installation with an identity provider that gives \<open>ada\<close> the reader role: she acts
  with it, while the administrator role stays stored at her account.
\<close>

definition mapped_db :: db where
  "mapped_db = sample_db
     \<lparr>t_providers := [sample_provider],
      t_identities := [sample_identity],
      t_role_mappings := [sample_role_mapping],
      t_role_grants := [\<lparr>rg_identity = ''x'', rg_mapping = ''m'', rg_role = ''rd''\<rparr>]\<rparr>"

lemma mapped_db_ok: "accounts_ok mapped_db"
  using sample_db_ok(1) by (simp add: mapped_db_def accounts_ok_def)

text \<open>
  The ceiling reads the stored role, not the effective one: an actor whose identity provider
  has reduced the account to the reader role is denied \<open>pages:update\<close> by every guard, and can
  still give exactly this right to somebody else.
\<close>

theorem ceiling_ignores_effective_role:
  "\<exists>u. validate_user lc mapped_db (access_payload ''ada'') = Some u \<and>
     \<not> is_allowed mapped_db u Pages Update \<and>
     (\<exists>d' out. set_user_permissions mapped_db ''rob'' [sample_entry True] ''ada'' = Inr (d', out) \<and>
        override_of d' ''rob'' Pages Update = Some True)"
proof -
  let ?rd = "\<lparr>r_id = ''rd'', r_name = ''reader'', r_description = None, r_system = False\<rparr>"
  let ?u = "to_authenticated_user (sample_user ''ada'' ''adm'' False) ?rd"
  have user: "validate_user lc mapped_db (access_payload ''ada'') = Some ?u"
    by (simp add: validate_user_def access_payload_def resolve_user_def find_defs sample_defs
        mapped_db_def sample_sso_defs with_effective_role_def external_grants_def load_grant_def sort_by_def)
  have denied: "\<not> is_allowed mapped_db ?u Pages Update"
    by (simp add: is_allowed_of_user override_of_def role_acl_of_def sample_defs mapped_db_def sample_sso_defs)
  have supp: "is_permission_supported Pages Update" by (simp add: is_permission_supported_def)
  have may: "assert_may_grant_entries mapped_db ''ada'' [sample_entry True] = Inr ()"
    by (simp add: assert_may_grant_entries_def effective_permission_keys_def find_defs mapped_db_def sample_sso_defs
        sample_defs role_entries_def user_entries_def parse_acl_entry_def parse_resource_def
        parse_action_def RESOURCES_def ACTIONS_def is_permission_supported_def put_entries_def
        allowed_keys_def entry_key_def rguard_def)
  have man: "ensure_manageable mapped_db ''rob'' = Inr ()"
    by (simp add: ensure_manageable_def find_defs sample_defs mapped_db_def sample_sso_defs)
  have found: "find_user (mapped_db\<lparr>t_user_permissions := ps\<rparr>) ''rob'' =
      Some (sample_user ''rob'' ''rd'' False)" for ps
    by (simp add: find_defs sample_defs mapped_db_def sample_sso_defs)
  obtain d' out where
    run: "set_user_permissions mapped_db ''rob'' [sample_entry True] ''ada'' = Inr (d', out)"
    by (simp add: set_user_permissions_def man may get_user_permissions_def Let_def found)
  have d': "d' = mapped_db\<lparr>t_user_permissions :=
      delete_where (\<lambda>p. p_user p = ''rob'') (t_user_permissions mapped_db) @
      map (user_permission_row_of ''rob'') (dedupe [sample_entry True])\<rparr>"
    using run by (auto simp: set_user_permissions_def result_simps Let_def)
  have "user_entries d' ''rob'' = dedupe [sample_entry True]"
    using user_entries_after_set [of d' "''rob''" mapped_db "[sample_entry True]" "''rob''"]
    by (simp add: d')
  then have "override_of d' ''rob'' Pages Update = Some True"
    using find_dedupe_override [OF set_user_permissions_ok [OF mapped_db_ok run] supp]
    by (simp add: entry_key_def)
  with user denied run show ?thesis by blast
qed

text \<open>The sample installation with an individual prohibition at \<open>ada\<close>.\<close>

definition denied_db :: db where
  "denied_db = sample_db\<lparr>t_user_permissions :=
     [\<lparr>p_user = ''ada'', p_resource = ''pages'', p_action = ''update'', p_allowed = False\<rparr>]\<rparr>"

text \<open>
  Dropping a prohibition is not held against the ceiling: an actor without \<open>pages:update\<close>
  saves an empty list for an account whose prohibition masked this right of its role, and the
  account holds it again.
\<close>

theorem dropping_a_prohibition_escalates:
  "\<not> table_grants denied_db ''rob'' ''rd'' Pages Update \<and>
   \<not> table_grants denied_db ''ada'' ''adm'' Pages Update \<and>
   (\<exists>d' out. set_user_permissions denied_db ''ada'' [] ''rob'' = Inr (d', out) \<and>
      table_grants d' ''ada'' ''adm'' Pages Update)"
proof (intro conjI)
  show "\<not> table_grants denied_db ''rob'' ''rd'' Pages Update"
    "\<not> table_grants denied_db ''ada'' ''adm'' Pages Update"
    by (simp_all add: table_grants_def override_of_def role_acl_of_def denied_db_def sample_defs)
  show "\<exists>d' out. set_user_permissions denied_db ''ada'' [] ''rob'' = Inr (d', out) \<and>
      table_grants d' ''ada'' ''adm'' Pages Update"
    by (simp add: set_user_permissions_def ensure_manageable_def assert_may_grant_entries_def
        effective_permission_keys_def get_user_permissions_def find_defs denied_db_def sample_defs
        rguard_def Let_def delete_where_def dedupe_def put_entries_def table_grants_def
        override_of_def role_acl_of_def)
qed

end
