(* ===== verification/User_Admin.thy ===== *)
theory User_Admin
  imports Role_Admin
begin

text \<open>
  \<^verbatim>\<open>apps/api/src/modules/users/users.service.ts\<close>: profile and account administration, and the
  machine of all administrative operations (together with those of \<open>Role_Admin\<close>) with the
  invariants every one of them keeps. Password hashing (bcrypt) happens outside: the hash is an
  argument.
\<close>

section \<open>Accounts\<close>

definition update_profile :: "db \<Rightarrow> ident \<Rightarrow> string \<Rightarrow> db result" where
  "update_profile d i display_name =
     rbind (or_throw (NotFound ''user'') (find_user d i)) (\<lambda>_.
     Inr (d\<lparr>t_users := update_where (\<lambda>u. u_id u = i)
              (\<lambda>u. u\<lparr>u_display_name := display_name\<rparr>) (t_users d)\<rparr>))"

record create_user_input =
  cu_email :: string
  cu_username :: string
  cu_display_name :: string
  cu_role :: ident

definition taken_conflict :: "db \<Rightarrow> string \<Rightarrow> string \<Rightarrow> api_error option" where
  "taken_conflict d email username =
     map_option (\<lambda>u. if u_email u = email then Conflict ''email'' else Conflict ''username'')
       (List.find (\<lambda>u. u_email u = email \<or> u_username u = username) (t_users d))"

definition new_user_row :: "ident \<Rightarrow> string \<Rightarrow> create_user_input \<Rightarrow> user_row" where
  "new_user_row new_id hash inp =
     \<lparr>u_id = new_id, u_email = cu_email inp, u_username = cu_username inp,
      u_display_name = cu_display_name inp, u_password = hash, u_active = True,
      u_protected = False, u_local_password = True, u_role = cu_role inp\<rparr>"

definition create_user ::
    "db \<Rightarrow> ident \<Rightarrow> string \<Rightarrow> create_user_input \<Rightarrow> ident \<Rightarrow> db result" where
  "create_user d new_id hash inp actor =
     (case taken_conflict d (cu_email inp) (cu_username inp) of
        Some e \<Rightarrow> Inl e
      | None \<Rightarrow>
          rbind (or_throw (BadRequest ''role'') (find_role d (cu_role inp))) (\<lambda>role.
          rbind (assert_may_assign_role d actor (r_id role)) (\<lambda>_.
          rbind (insert_row u_id (Internal ''P2002'') (new_user_row new_id hash inp) (t_users d))
            (\<lambda>users. Inr (d\<lparr>t_users := users\<rparr>)))))"

definition update_by_admin :: "db \<Rightarrow> ident \<Rightarrow> bool option \<Rightarrow> db result" where
  "update_by_admin d i active =
     rbind (ensure_manageable d i) (\<lambda>_.
     Inr (d\<lparr>t_users := update_where (\<lambda>u. u_id u = i)
              (\<lambda>u. u\<lparr>u_active := (case active of None \<Rightarrow> u_active u | Some b \<Rightarrow> b)\<rparr>)
              (t_users d)\<rparr>))"

definition assign_role :: "db \<Rightarrow> ident \<Rightarrow> ident \<Rightarrow> ident \<Rightarrow> db result" where
  "assign_role d i rid actor =
     rbind (ensure_manageable d i) (\<lambda>_.
     rbind (or_throw (BadRequest ''role'') (find_role d rid)) (\<lambda>role.
     rbind (assert_may_assign_role d actor (r_id role)) (\<lambda>_.
     Inr (d\<lparr>t_users := update_where (\<lambda>u. u_id u = i) (\<lambda>u. u\<lparr>u_role := r_id role\<rparr>)
              (t_users d)\<rparr>))))"

definition deactivate_user :: "db \<Rightarrow> ident \<Rightarrow> db result" where
  "deactivate_user d i =
     rbind (ensure_manageable d i) (\<lambda>_.
     Inr (d\<lparr>t_users := update_where (\<lambda>u. u_id u = i) (\<lambda>u. u\<lparr>u_active := False\<rparr>)
              (t_users d)\<rparr>))"

section \<open>The machine of administrative operations\<close>

datatype admin_op =
    CreateRole ident string string
  | UpdateRole ident "string option" "string option option"
  | DeleteRole ident
  | SetRoleAcls ident "acl_entry list" ident
  | SetUserPermissions ident "acl_entry list" ident
  | UpdateProfile ident string
  | CreateUser ident string create_user_input ident
  | UpdateByAdmin ident "bool option"
  | AssignRole ident ident ident
  | Deactivate ident

fun admin_step :: "db \<Rightarrow> admin_op \<Rightarrow> db result" where
  "admin_step d (CreateRole i n s) = create_role d i n s"
| "admin_step d (UpdateRole i n s) = update_role d i n s"
| "admin_step d (DeleteRole i) = delete_role d i"
| "admin_step d (SetRoleAcls i es actor) = rbind (set_role_acls d i es actor) (\<lambda>(d', _). Inr d')"
| "admin_step d (SetUserPermissions i es actor) =
     rbind (set_user_permissions d i es actor) (\<lambda>(d', _). Inr d')"
| "admin_step d (UpdateProfile i n) = update_profile d i n"
| "admin_step d (CreateUser i h inp actor) = create_user d i h inp actor"
| "admin_step d (UpdateByAdmin i b) = update_by_admin d i b"
| "admin_step d (AssignRole i r actor) = assign_role d i r actor"
| "admin_step d (Deactivate i) = deactivate_user d i"

text \<open>A request that fails leaves the database as it is.\<close>

definition admin_run :: "db \<Rightarrow> admin_op list \<Rightarrow> db" where
  "admin_run d ops = foldl (\<lambda>d op. case admin_step d op of Inl _ \<Rightarrow> d | Inr d' \<Rightarrow> d') d ops"

section \<open>The constraints survive\<close>

lemma update_user_ok:
  assumes "accounts_ok d"
    and "\<And>u. u_id (f u) = u_id u" and "\<And>u. u_email (f u) = u_email u"
    and "\<And>u. u_username (f u) = u_username u"
    and "\<And>u. u_role (f u) = u_role u \<or> u_role (f u) \<in> r_id ` set (t_roles d)"
  shows "accounts_ok (d\<lparr>t_users := update_where p f (t_users d)\<rparr>)"
proof -
  have ids: "u_id ` set (update_where p f (t_users d)) = u_id ` set (t_users d)"
    by (rule key_image_update_where) (rule assms(2))
  have roles: "\<forall>u \<in> set (update_where p f (t_users d)). u_role u \<in> r_id ` set (t_roles d)"
  proof
    fix v assume "v \<in> set (update_where p f (t_users d))"
    then obtain u where u: "u \<in> set (t_users d)" "v = (if p u then f u else u)"
      unfolding set_update_where by blast
    then have "u_role u \<in> r_id ` set (t_roles d)" using assms(1) by (simp add: accounts_ok_def)
    with u assms(5) [of u] show "u_role v \<in> r_id ` set (t_roles d)" by (cases "p u") auto
  qed
  have "map u_id (update_where p f (t_users d)) = map u_id (t_users d)"
    "map u_email (update_where p f (t_users d)) = map u_email (t_users d)"
    "map u_username (update_where p f (t_users d)) = map u_username (t_users d)"
    by (rule map_update_where, rule assms)+
  with assms(1) ids roles show ?thesis by (simp add: accounts_ok_def)
qed

lemma update_profile_ok:
  "accounts_ok d \<Longrightarrow> update_profile d i n = Inr d' \<Longrightarrow> accounts_ok d'"
  by (auto simp: update_profile_def result_simps intro!: update_user_ok)

lemma update_by_admin_ok:
  "accounts_ok d \<Longrightarrow> update_by_admin d i b = Inr d' \<Longrightarrow> accounts_ok d'"
  by (auto simp: update_by_admin_def result_simps intro!: update_user_ok)

lemma deactivate_user_ok:
  "accounts_ok d \<Longrightarrow> deactivate_user d i = Inr d' \<Longrightarrow> accounts_ok d'"
  by (auto simp: deactivate_user_def result_simps intro!: update_user_ok)

lemma assign_role_ok:
  "accounts_ok d \<Longrightarrow> assign_role d i r actor = Inr d' \<Longrightarrow> accounts_ok d'"
  by (auto simp: assign_role_def result_simps dest: find_role_mem intro!: update_user_ok)

lemma create_user_ok:
  assumes ok: "accounts_ok d" and run: "create_user d i h inp actor = Inr d'"
  shows "accounts_ok d'"
proof -
  have free: "taken_conflict d (cu_email inp) (cu_username inp) = None"
    and role: "cu_role inp \<in> r_id ` set (t_roles d)"
    and id: "i \<notin> u_id ` set (t_users d)"
    and d': "d' = d\<lparr>t_users := t_users d @ [new_user_row i h inp]\<rparr>"
    using run by (auto simp: create_user_def result_simps insert_row_eq_Inr new_user_row_def
        split: option.splits dest: find_role_key)
  from free have "cu_email inp \<notin> u_email ` set (t_users d)"
    and "cu_username inp \<notin> u_username ` set (t_users d)"
    by (auto simp: taken_conflict_def find_None_iff)
  with ok role id show ?thesis unfolding d'
    by (auto simp: accounts_ok_def new_user_row_def)
qed

lemma admin_step_ok: "accounts_ok d \<Longrightarrow> admin_step d op = Inr d' \<Longrightarrow> accounts_ok d'"
  by (cases op)
    (auto simp: result_simps intro: create_role_ok update_role_ok delete_role_ok set_role_acls_ok
      set_user_permissions_ok update_profile_ok create_user_ok update_by_admin_ok assign_role_ok
      deactivate_user_ok)

section \<open>Properties\<close>

lemma admin_run_Nil [simp]: "admin_run d [] = d"
  by (simp add: admin_run_def)

lemma admin_run_Cons [simp]:
  "admin_run d (op # ops) =
     admin_run (case admin_step d op of Inl _ \<Rightarrow> d | Inr d' \<Rightarrow> d') ops"
  by (simp add: admin_run_def)

text \<open>An invariant of every successful step is an invariant of every sequence of requests.\<close>

lemma admin_run_invariant:
  assumes "\<And>d op d'. P d \<Longrightarrow> admin_step d op = Inr d' \<Longrightarrow> P d'" and "P d"
  shows "P (admin_run d ops)"
  using assms(2)
proof (induction ops arbitrary: d)
  case (Cons op ops)
  then show ?case by (cases "admin_step d op") (auto intro: assms(1))
qed simp

text \<open>
  C25: Every sequence of administrative requests, in any order and by anybody, keeps the database
  consistent: e-mail addresses, user names and role names stay unique, every user has an
  existing role, no right refers to a deleted role or account, no right is stored twice.
\<close>

theorem administration_keeps_accounts_ok:
  assumes "accounts_ok d"
  shows "accounts_ok (admin_run d ops)"
  using admin_step_ok assms by (rule admin_run_invariant)

theorem administration_keeps_accounts_ok_witness:
  "accounts_ok (admin_run sample_db [CreateRole ''new'' ''editor'' [], DeleteRole ''rd''])"
  by (rule administration_keeps_accounts_ok [OF sample_db_ok(1)])

lemma find_user_updated:
  assumes "\<And>u. u_id (f u) = u_id u"
  shows "List.find (\<lambda>u. u_id u = i) (update_where (\<lambda>u. u_id u = j) f us) =
    map_option (\<lambda>u. if i = j then f u else u) (List.find (\<lambda>u. u_id u = i) us)"
  by (induction us) (auto simp: update_where_def assms)

definition untouched :: "user_row \<Rightarrow> user_row \<Rightarrow> bool" where
  "untouched u u' \<longleftrightarrow> u' = u\<lparr>u_display_name := u_display_name u'\<rparr>"

lemma untouched_refl [simp]: "untouched u u"
  by (simp add: untouched_def)

lemma untouched_trans: "untouched u v \<Longrightarrow> untouched v w \<Longrightarrow> untouched u w"
  by (cases u; cases v; cases w) (simp add: untouched_def)

lemma untouched_protected: "untouched u v \<Longrightarrow> u_protected v = u_protected u"
  by (cases u; cases v) (simp add: untouched_def)

lemma admin_step_protected:
  assumes u: "find_user d i = Some u" and p: "u_protected u" and run: "admin_step d op = Inr d'"
  shows "\<exists>u'. find_user d' i = Some u' \<and> untouched u u'"
proof -
  have man: "ensure_manageable d j = Inr () \<Longrightarrow> j \<noteq> i" for j
    using u p by (auto simp: ensure_manageable_def result_simps)
  have same: "t_users d' = t_users d \<Longrightarrow> ?thesis" using u by (simp add: find_user_def)
  have other: "j \<noteq> i \<Longrightarrow> (\<And>v. u_id (f v) = u_id v) \<Longrightarrow>
      t_users d' = update_where (\<lambda>u. u_id u = j) f (t_users d) \<Longrightarrow> ?thesis" for j f
    using u by (simp add: find_user_def find_user_updated)
  show ?thesis
  proof (cases op)
    case (UpdateProfile j n)
    with run have "t_users d' = update_where (\<lambda>u. u_id u = j) (\<lambda>u. u\<lparr>u_display_name := n\<rparr>) (t_users d)"
      by (auto simp: update_profile_def result_simps)
    with u show ?thesis by (auto simp: find_user_def find_user_updated untouched_def)
  next
    case (CreateUser j h inp actor)
    with run have "t_users d' = t_users d @ [new_user_row j h inp]"
      by (auto simp: create_user_def result_simps insert_row_eq_Inr split: option.splits)
    with u show ?thesis by (simp add: find_user_def find_append)
  next
    case (UpdateByAdmin j b)
    with run show ?thesis
      by (intro other [of j "\<lambda>u. u\<lparr>u_active := (case b of None \<Rightarrow> u_active u | Some b \<Rightarrow> b)\<rparr>"] man)
        (auto simp: update_by_admin_def result_simps)
  next
    case (AssignRole j r actor)
    with run obtain rid where "ensure_manageable d j = Inr ()"
      "t_users d' = update_where (\<lambda>u. u_id u = j) (\<lambda>u. u\<lparr>u_role := rid\<rparr>) (t_users d)"
      by (auto simp: assign_role_def result_simps)
    then show ?thesis by (intro other [of j "\<lambda>u. u\<lparr>u_role := rid\<rparr>"] man) auto
  next
    case (Deactivate j)
    with run show ?thesis
      by (intro other [of j "\<lambda>u. u\<lparr>u_active := False\<rparr>"] man)
        (auto simp: deactivate_user_def result_simps)
  qed (use run in \<open>auto intro!: same simp: create_role_def update_role_def delete_role_def
      set_role_acls_def set_user_permissions_def result_simps Let_def\<close>)
qed

text \<open>
  A protected account survives every sequence of administrative requests: it cannot be
  deleted, deactivated, moved to another role or unprotected, whoever sends them; only its
  display name can change.
\<close>

theorem protected_account_untouched:
  assumes "find_user d i = Some u" and "u_protected u"
  shows "\<exists>u'. find_user (admin_run d ops) i = Some u' \<and> untouched u u'"
proof -
  let ?P = "\<lambda>d. \<exists>u'. find_user d i = Some u' \<and> untouched u u'"
  have "?P d'" if found: "?P d" and step: "admin_step d op = Inr d'" for d op d'
  proof -
    obtain v where v: "find_user d i = Some v" "untouched u v" using found by blast
    with assms(2) have "u_protected v" by (simp add: untouched_protected)
    from admin_step_protected [OF v(1) this step] v(2) show ?thesis
      by (blast intro: untouched_trans)
  qed
  moreover have "?P d" using assms(1) by simp
  ultimately show ?thesis by (rule admin_run_invariant [where P = ?P])
qed

theorem protected_account_untouched_witness:
  "\<exists>u'. find_user (admin_run sample_db [Deactivate ''own'', AssignRole ''own'' ''rd'' ''ada'']) ''own'' =
     Some u' \<and> untouched (sample_user ''own'' ''adm'' True) u'"
  by (rule protected_account_untouched) (simp_all add: find_defs sample_defs)

text \<open>
  C24: Handing out a role is bounded by the actor's own rights: when an account is created with a
  role or moved to one, every catalogued right of this role is held by the actor (through stored
  role and overrides, or as a protected account), and the account then has this role.
\<close>

theorem role_assignment_ceiling:
  assumes ok: "accounts_ok d" and supp: "is_permission_supported r a"
    and op: "op = AssignRole i rid actor \<or> op = CreateUser i h inp actor \<and> cu_role inp = rid"
    and run: "admin_step d op = Inr d'"
    and grants: "role_acl_of d rid r a = Some True"
  shows "(\<exists>v. find_user d actor = Some v \<and>
      (u_protected v \<or> table_grants d actor (u_role v) r a)) \<and>
    map_option u_role (find_user d' i) = Some rid"
proof -
  have may: "assert_may_grant_entries d actor (role_entries d rid) = Inr ()"
  proof -
    have "\<exists>role. find_role d rid = Some role \<and> assert_may_assign_role d actor (r_id role) = Inr ()"
      using op run by (auto simp: assign_role_def create_user_def result_simps split: option.splits)
    then show ?thesis by (auto simp: assert_may_assign_role_def result_simps dest: find_role_mem)
  qed
  obtain v where v: "find_user d actor = Some v" using granted_actor_exists [OF may] ..
  have "\<lparr>ae_resource = r, ae_action = a, ae_allowed = True\<rparr> \<in> set (role_entries d rid)"
    using find_role_entries [OF ok supp, of rid] grants by (auto dest: find_SomeD)
  from assert_may_grant_entries_granted [OF ok may this _ _ v] supp
  have "u_protected v \<or> table_grants d actor (u_role v) r a" by simp
  moreover have "map_option u_role (find_user d' i) = Some rid"
    using op
  proof
    assume "op = AssignRole i rid actor"
    with run show ?thesis
      by (auto simp: assign_role_def ensure_manageable_def result_simps find_user_def find_user_updated
          dest: find_role_mem)
  next
    assume "op = CreateUser i h inp actor \<and> cu_role inp = rid"
    with run have "t_users d' = t_users d @ [new_user_row i h inp]" "cu_role inp = rid"
      "i \<notin> u_id ` set (t_users d)"
      by (auto simp: create_user_def result_simps insert_row_eq_Inr new_user_row_def split: option.splits)
    then have "find_user d' i = Some (new_user_row i h inp)"
      by (auto simp: find_user_def find_append new_user_row_def split: option.splits dest: find_SomeD)
    with \<open>cu_role inp = rid\<close> show ?thesis by (simp add: new_user_row_def)
  qed
  ultimately show ?thesis using v by blast
qed

theorem role_assignment_ceiling_witness:
  "\<exists>d'. admin_step sample_db (AssignRole ''rob'' ''adm'' ''own'') = Inr d' \<and>
     map_option u_role (find_user d' ''rob'') = Some ''adm''"
proof -
  have entries: "role_entries sample_db ''adm'' =
      [\<lparr>ae_resource = Pages, ae_action = Read, ae_allowed = True\<rparr>, sample_entry True]"
    by (simp add: role_entries_def sample_defs parse_acl_entry_def parse_resource_def
        parse_action_def RESOURCES_def ACTIONS_def is_permission_supported_def)
  have supp: "is_permission_supported Pages Read" "is_permission_supported Pages Update"
    by (simp_all add: is_permission_supported_def)
  then have "assert_may_grant_entries sample_db ''own'' (role_entries sample_db ''adm'') = Inr ()"
    by (intro sample_owner_may_grant) (simp add: entries)
  then obtain d' where run: "admin_step sample_db (AssignRole ''rob'' ''adm'' ''own'') = Inr d'"
    by (simp add: assign_role_def assert_may_assign_role_def ensure_manageable_def find_defs
        sample_defs rguard_def)
  have "role_acl_of sample_db ''adm'' Pages Read = Some True"
    by (simp add: role_acl_of_def sample_defs)
  from role_assignment_ceiling [OF sample_db_ok(1) supp(1) _ run this, of "''rob''"] run
  show ?thesis by blast
qed

end
