(* ===== verification/Slugs.thy ===== *)
theory Slugs
  imports Prelude
begin

text \<open>
  Unique slugs. \<open>generateUniqueSlug\<close> exists in four services (groups, spaces, categories,
  pages) with the same loop: try the slugified name, then \<open>name-2\<close>, \<open>name-3\<close>, ... until no
  other row has the slug. The loop has no bound in the source; here it runs on fuel, and the
  locale \<open>slug_source\<close> shows that one more round than there are rows always suffices.
  \<open>slugify\<close> is the npm package of that name, a parameter.
\<close>

fun slug_loop :: "nat \<Rightarrow> (string \<Rightarrow> bool) \<Rightarrow> string \<Rightarrow> nat \<Rightarrow> string \<Rightarrow> string option" where
  "slug_loop 0 occupied base suffix candidate = None"
| "slug_loop (Suc fuel) occupied base suffix candidate =
     (if \<not> occupied candidate then Some candidate
      else slug_loop fuel occupied base (suffix + 1) (base @ ''-'' @ show_nat (suffix + 1)))"

text \<open>The candidate tried in round \<open>k\<close> (from 0).\<close>

definition slug_candidate :: "string \<Rightarrow> nat \<Rightarrow> string" where
  "slug_candidate base k = (if k = 0 then base else base @ ''-'' @ show_nat (k + 1))"

lemma slug_candidate_inj: "inj (slug_candidate base)"
  by (auto simp: inj_def slug_candidate_def show_nat_inj)

text \<open>The loop returns the first candidate that is not occupied.\<close>

lemma slug_loop_first:
  assumes "\<forall>j < k. occupied (slug_candidate base (i + j))"
    and "\<not> occupied (slug_candidate base (i + k))" and "k < fuel"
  shows "slug_loop fuel occupied base (i + 1) (slug_candidate base i) =
    Some (slug_candidate base (i + k))"
  using assms
proof (induction k arbitrary: i fuel)
  case 0
  then show ?case by (cases fuel) simp_all
next
  case (Suc k)
  then obtain n where n: "fuel = Suc n" "k < n" by (cases fuel) auto
  have "occupied (slug_candidate base i)" using Suc.prems(1) by (metis add_0_right zero_less_Suc)
  moreover have "\<forall>j < k. occupied (slug_candidate base (i + 1 + j))"
    using Suc.prems(1) by (metis Suc_less_eq add.assoc plus_1_eq_Suc)
  moreover have "\<not> occupied (slug_candidate base (i + 1 + k))"
    using Suc.prems(2) by simp
  ultimately have "slug_loop n occupied base (i + 1 + 1) (slug_candidate base (i + 1)) =
      Some (slug_candidate base (i + 1 + k))"
    using Suc.IH n(2) by blast
  with n \<open>occupied (slug_candidate base i)\<close> show ?case
    by (simp add: slug_candidate_def)
qed

text \<open>
  What a service gives to the loop: a test whether a slug is taken by another row, answered from
  the slugs that are stored.
\<close>

locale slug_source =
  fixes occupied :: "'d \<Rightarrow> 'x \<Rightarrow> string \<Rightarrow> bool" and slugs :: "'d \<Rightarrow> string list"
  assumes occupied_stored: "occupied d x s \<Longrightarrow> s \<in> set (slugs d)"
begin

text \<open>Among \<open>length (slugs d) + 1\<close> different candidates one is free (pigeonhole).\<close>

lemma some_candidate_free: "\<exists>k \<le> length (slugs d). \<not> occupied d x (slug_candidate base k)"
proof (rule ccontr)
  assume "\<not> ?thesis"
  then have "slug_candidate base ` {..length (slugs d)} \<subseteq> set (slugs d)"
    using occupied_stored by blast
  then have "card (slug_candidate base ` {..length (slugs d)}) \<le> length (slugs d)"
    by (rule order_trans [OF card_mono [OF finite_set] card_length])
  moreover have "card (slug_candidate base ` {..length (slugs d)}) = length (slugs d) + 1"
    by (subst card_image) (rule inj_on_subset [OF slug_candidate_inj], simp_all)
  ultimately show False by simp
qed

lemma slug_loop_terminates:
  assumes "length (slugs d) < fuel"
  shows "\<exists>k. slug_loop fuel (occupied d x) base 1 base = Some (slug_candidate base k) \<and>
    \<not> occupied d x (slug_candidate base k) \<and> (\<forall>j < k. occupied d x (slug_candidate base j))"
proof -
  define k where "k = (LEAST k. \<not> occupied d x (slug_candidate base k))"
  obtain n where n: "n \<le> length (slugs d)" "\<not> occupied d x (slug_candidate base n)"
    using some_candidate_free by blast
  have free: "\<not> occupied d x (slug_candidate base k)"
    unfolding k_def using n(2) by (rule LeastI)
  have "k \<le> n" unfolding k_def using n(2) by (rule Least_le)
  have before: "\<forall>j < k. occupied d x (slug_candidate base j)"
    unfolding k_def using not_less_Least by blast
  have "slug_loop fuel (occupied d x) base (0 + 1) (slug_candidate base 0) =
      Some (slug_candidate base (0 + k))"
    by (rule slug_loop_first) (use before free \<open>k \<le> n\<close> n(1) assms in auto)
  then have "slug_loop fuel (occupied d x) base 1 base = Some (slug_candidate base k)"
    by (simp add: slug_candidate_def)
  with free before show ?thesis by blast
qed

end

end
