(* ===== verification/Group_Admin.thy ===== *)
theory Group_Admin
  imports Authz Slugs
begin

text \<open>
  \<^verbatim>\<open>apps/api/src/modules/groups/groups.service.ts\<close>: groups, their memberships and the limited
  authority of group managers. \<open>slugify\<close> is the npm package, \<open>fold_case\<close> the database's case
  folding, \<open>matches\<close> its case-insensitive search and \<open>by_name\<close> its ordering; a fresh row id is an
  argument. A unique violation (P2002) of \<open>create\<close> or \<open>update\<close> is the test of the schema's
  unique columns.
\<close>

section \<open>Groups\<close>

definition get_group :: "db \<Rightarrow> ident \<Rightarrow> group_row result" where
  "get_group d i = or_throw (NotFound ''group'') (find_group d i)"

definition assert_name_available ::
    "(string \<Rightarrow> string) \<Rightarrow> db \<Rightarrow> string \<Rightarrow> ident option \<Rightarrow> unit result" where
  "assert_name_available fold_case d name exclude =
     rguard (\<not> (\<exists>g \<in> set (t_groups d). fold_case (g_name g) = fold_case name \<and> exclude \<noteq> Some (g_id g)))
       (Conflict ''group name'')"

definition slug_occupied :: "db \<Rightarrow> ident option \<Rightarrow> string \<Rightarrow> bool" where
  "slug_occupied d exclude s =
     (case List.find (\<lambda>g. g_slug g = s) (t_groups d) of
        None \<Rightarrow> False | Some g \<Rightarrow> Some (g_id g) \<noteq> exclude)"

definition group_slug :: "(string \<Rightarrow> string) \<Rightarrow> db \<Rightarrow> string \<Rightarrow> ident option \<Rightarrow> string option" where
  "group_slug slugify d name exclude =
     (let base = (if slugify name = [] then ''gruppe'' else slugify name)
      in slug_loop (length (t_groups d) + 1) (slug_occupied d exclude) base 1 base)"

definition create_group ::
    "(string \<Rightarrow> string) \<Rightarrow> (string \<Rightarrow> string) \<Rightarrow> db \<Rightarrow> ident \<Rightarrow> string \<Rightarrow> string \<Rightarrow> db result" where
  "create_group slugify fold_case d new_id name description =
     rbind (assert_name_available fold_case d name None) (\<lambda>_.
     rbind (or_throw (Internal ''no slug'') (group_slug slugify d name None)) (\<lambda>slug.
     rbind (rguard (new_id \<notin> g_id ` set (t_groups d) \<and> name \<notin> g_name ` set (t_groups d) \<and>
         slug \<notin> g_slug ` set (t_groups d)) (Conflict ''group name or slug'')) (\<lambda>_.
     Inr (d\<lparr>t_groups := t_groups d @
       [\<lparr>g_id = new_id, g_name = name, g_slug = slug,
         g_description = (if description = [] then None else Some description),
         g_system = False\<rparr>]\<rparr>))))"

definition update_group ::
    "(string \<Rightarrow> string) \<Rightarrow> (string \<Rightarrow> string) \<Rightarrow> db \<Rightarrow> ident \<Rightarrow> string option \<Rightarrow>
     string option option \<Rightarrow> db result" where
  "update_group slugify fold_case d i name description =
     rbind (get_group d i) (\<lambda>existing.
     let renames = (name \<noteq> None \<and> name \<noteq> Some (g_name existing)) in
     rbind (rguard (\<not> (g_system existing \<and> renames)) (Forbidden ''system group'')) (\<lambda>_.
     rbind (if renames then assert_name_available fold_case d (the name) (Some i) else Inr ()) (\<lambda>_.
     rbind (if renames
            then or_throw (Internal ''no slug'') (group_slug slugify d (the name) (Some i))
            else Inr (g_slug existing)) (\<lambda>slug.
     rbind (rguard (\<forall>g \<in> set (t_groups d). g_id g \<noteq> i \<longrightarrow> name \<noteq> Some (g_name g) \<and>
         (renames \<longrightarrow> slug \<noteq> g_slug g)) (Conflict ''group name or slug'')) (\<lambda>_.
     Inr (d\<lparr>t_groups := update_where (\<lambda>g. g_id g = i)
       (\<lambda>g. g\<lparr>g_name := (case name of None \<Rightarrow> g_name g | Some n \<Rightarrow> n),
              g_slug := (if renames then slug else g_slug g),
              g_description := (case description of None \<Rightarrow> g_description g
                | Some None \<Rightarrow> None
                | Some (Some t) \<Rightarrow> if t = [] then None else Some t)\<rparr>) (t_groups d)\<rparr>))))))"

text \<open>
  Deletion checks, then deletes under the same conditions again, because members may join in
  between: \<open>remove_group_checks\<close> and \<open>remove_group_commit\<close> may see different databases.
\<close>

definition members_of :: "db \<Rightarrow> ident \<Rightarrow> nat" where
  "members_of d i = count_where (\<lambda>m. m_group m = i) (t_memberships d)"

definition acl_entries_of :: "db \<Rightarrow> ident \<Rightarrow> nat" where
  "acl_entries_of d i = count_where (\<lambda>e. e_group e = Some i) (t_entries d)"

definition mappings_of :: "db \<Rightarrow> ident \<Rightarrow> nat" where
  "mappings_of d i = count_where (\<lambda>m. gm_group m = i) (t_group_mappings d)"

definition remove_group_checks :: "db \<Rightarrow> ident \<Rightarrow> unit result" where
  "remove_group_checks d i =
     rbind (get_group d i) (\<lambda>g.
     rbind (rguard (\<not> g_system g) (Forbidden ''system group'')) (\<lambda>_.
     rbind (rguard (\<not> 0 < members_of d i) (Conflict ''members'')) (\<lambda>_.
     rbind (rguard (\<not> 0 < acl_entries_of d i) (Conflict ''resource acls'')) (\<lambda>_.
       rguard (\<not> 0 < mappings_of d i) (Conflict ''mappings'')))))"

definition remove_group_commit :: "db \<Rightarrow> ident \<Rightarrow> db result" where
  "remove_group_commit d i =
     (let p = (\<lambda>g. g_id g = i \<and> \<not> g_system g \<and> members_of d (g_id g) = 0 \<and>
                 acl_entries_of d (g_id g) = 0 \<and> mappings_of d (g_id g) = 0)
      in rbind (rguard (count_where p (t_groups d) = 1) (Conflict ''occupied meanwhile'')) (\<lambda>_.
         Inr (d\<lparr>t_groups := delete_where p (t_groups d)\<rparr>)))"

definition remove_group :: "db \<Rightarrow> ident \<Rightarrow> db result" where
  "remove_group d i = rbind (remove_group_checks d i) (\<lambda>_. remove_group_commit d i)"

section \<open>Authority over members\<close>

datatype authority = GLOBAL | GROUP_MANAGER

definition find_membership :: "db \<Rightarrow> ident \<Rightarrow> ident \<Rightarrow> membership_row option" where
  "find_membership d g u = List.find (\<lambda>m. (m_group m, m_user m) = (g, u)) (t_memberships d)"

definition is_group_manager :: "db \<Rightarrow> ident \<Rightarrow> ident \<Rightarrow> bool" where
  "is_group_manager d g u =
     (case find_membership d g u of None \<Rightarrow> False | Some m \<Rightarrow> m_role m = MANAGER \<and> m_local_grant m)"

definition assert_may_read_members :: "db \<Rightarrow> ident \<Rightarrow> auth_user \<Rightarrow> unit result" where
  "assert_may_read_members d g actor =
     rbind (get_group d g) (\<lambda>_.
     if is_allowed d actor Groups Read \<or> is_allowed d actor Groups Manage_Members then Inr ()
     else if au_method actor \<noteq> Some Api_Key \<and> is_group_manager d g (au_id actor) then Inr ()
     else Inl (Forbidden ''read members''))"

definition assert_may_manage_members :: "db \<Rightarrow> ident \<Rightarrow> auth_user \<Rightarrow> authority result" where
  "assert_may_manage_members d g actor =
     rbind (get_group d g) (\<lambda>_.
     if is_allowed d actor Groups Manage_Members then Inr GLOBAL
     else if au_method actor \<noteq> Some Api_Key \<and> is_group_manager d g (au_id actor)
     then Inr GROUP_MANAGER
     else Inl (Forbidden ''manage members''))"

section \<open>Members\<close>

definition find_own_memberships :: "db \<Rightarrow> ident \<Rightarrow> membership_row list" where
  "find_own_memberships d u = filter (\<lambda>m. m_user m = u) (t_memberships d)"

definition find_members :: "db \<Rightarrow> ident \<Rightarrow> auth_user \<Rightarrow> membership_row list result" where
  "find_members d g actor =
     rbind (assert_may_read_members d g actor) (\<lambda>_.
     Inr (filter (\<lambda>m. m_group m = g) (t_memberships d)))"

text \<open>\<open>query\<close> is the trimmed search text, \<open>[]\<close> when absent.\<close>

definition find_member_candidates ::
    "(string \<Rightarrow> string \<Rightarrow> bool) \<Rightarrow> (user_row list \<Rightarrow> user_row list) \<Rightarrow>
     db \<Rightarrow> ident \<Rightarrow> string \<Rightarrow> auth_user \<Rightarrow> user_row list result" where
  "find_member_candidates matches by_name d g query actor =
     rbind (assert_may_manage_members d g actor) (\<lambda>_.
     Inr (take 100 (by_name (filter (\<lambda>u. u_active u \<and>
       \<not> (\<exists>m \<in> set (t_memberships d). m_user m = u_id u \<and> m_group m = g \<and> m_local_grant m) \<and>
       (query = [] \<or> matches query (u_display_name u) \<or> matches query (u_username u)))
       (t_users d)))))"

definition insert_membership :: "db \<Rightarrow> ident \<Rightarrow> ident \<Rightarrow> ident \<Rightarrow> membership_role \<Rightarrow> db result" where
  "insert_membership d new_id g uid role =
     (if new_id \<notin> m_id ` set (t_memberships d) \<and>
         (g, uid) \<notin> (\<lambda>m. (m_group m, m_user m)) ` set (t_memberships d)
      then Inr (d\<lparr>t_memberships := t_memberships d @
        [\<lparr>m_id = new_id, m_group = g, m_user = uid, m_role = role, m_local_grant = True\<rparr>]\<rparr>)
      else
        let p = (\<lambda>m. (m_group m, m_user m) = (g, uid) \<and> \<not> m_local_grant m) in
        if count_where p (t_memberships d) = 1
        then Inr (d\<lparr>t_memberships := update_where p
          (\<lambda>m. m\<lparr>m_local_grant := True, m_role := role\<rparr>) (t_memberships d)\<rparr>)
        else Inl (Conflict ''already member''))"

definition add_member ::
    "db \<Rightarrow> ident \<Rightarrow> ident \<Rightarrow> ident \<Rightarrow> membership_role \<Rightarrow> auth_user \<Rightarrow> db result" where
  "add_member d new_id g uid role actor =
     rbind (assert_may_manage_members d g actor) (\<lambda>authority.
     rbind (rguard (\<not> (authority = GROUP_MANAGER \<and> role = MANAGER)) (Forbidden ''appoint manager'')) (\<lambda>_.
     rbind (or_throw (NotFound ''user'') (find_user d uid)) (\<lambda>u.
     rbind (rguard (u_active u) (BadRequest ''inactive user'')) (\<lambda>_.
     insert_membership d new_id g uid role))))"

definition update_member ::
    "db \<Rightarrow> ident \<Rightarrow> ident \<Rightarrow> membership_role \<Rightarrow> auth_user \<Rightarrow> db result" where
  "update_member d g uid role actor =
     rbind (assert_may_manage_members d g actor) (\<lambda>authority.
     rbind (rguard (authority = GLOBAL) (Forbidden ''appoint manager'')) (\<lambda>_.
     rbind (or_throw (NotFound ''membership'') (find_membership d g uid)) (\<lambda>m.
     rbind (rguard (m_local_grant m) (Conflict ''external membership'')) (\<lambda>_.
     Inr (d\<lparr>t_memberships := update_where (\<lambda>m. (m_group m, m_user m) = (g, uid))
       (\<lambda>m. m\<lparr>m_role := role\<rparr>) (t_memberships d)\<rparr>)))))"

definition external_grant_count :: "db \<Rightarrow> membership_row \<Rightarrow> nat" where
  "external_grant_count d m = count_where (\<lambda>x. gg_membership x = m_id m) (t_group_grants d)"

definition remove_member :: "db \<Rightarrow> ident \<Rightarrow> ident \<Rightarrow> auth_user \<Rightarrow> db result" where
  "remove_member d g uid actor =
     rbind (assert_may_manage_members d g actor) (\<lambda>authority.
     rbind (or_throw (NotFound ''membership'') (find_membership d g uid)) (\<lambda>m.
     rbind (rguard (\<not> (authority = GROUP_MANAGER \<and> m_role m = MANAGER)) (Forbidden ''remove manager'')) (\<lambda>_.
     rbind (rguard (m_local_grant m) (Conflict ''external membership'')) (\<lambda>_.
     let p = (\<lambda>m. (m_group m, m_user m) = (g, uid)) in
     if 0 < external_grant_count d m
     then Inr (d\<lparr>t_memberships := update_where p
            (\<lambda>m. m\<lparr>m_local_grant := False, m_role := MEMBER\<rparr>) (t_memberships d)\<rparr>)
     else Inr (d\<lparr>t_memberships := delete_where p (t_memberships d)\<rparr>)))))"

section \<open>The machine\<close>

datatype group_op =
    CreateGroup ident string string
  | UpdateGroup ident "string option" "string option option"
  | RemoveGroup ident
  | AddMember ident ident ident membership_role auth_user
  | UpdateMember ident ident membership_role auth_user
  | RemoveMember ident ident auth_user

fun group_step ::
    "(string \<Rightarrow> string) \<Rightarrow> (string \<Rightarrow> string) \<Rightarrow> db \<Rightarrow> group_op \<Rightarrow> db result" where
  "group_step sl fc d (CreateGroup i n s) = create_group sl fc d i n s"
| "group_step sl fc d (UpdateGroup i n s) = update_group sl fc d i n s"
| "group_step sl fc d (RemoveGroup i) = remove_group d i"
| "group_step sl fc d (AddMember i g u r actor) = add_member d i g u r actor"
| "group_step sl fc d (UpdateMember g u r actor) = update_member d g u r actor"
| "group_step sl fc d (RemoveMember g u actor) = remove_member d g u actor"

definition group_run ::
    "(string \<Rightarrow> string) \<Rightarrow> (string \<Rightarrow> string) \<Rightarrow> db \<Rightarrow> group_op list \<Rightarrow> db" where
  "group_run sl fc d ops =
     foldl (\<lambda>d op. case group_step sl fc d op of Inl _ \<Rightarrow> d | Inr d' \<Rightarrow> d') d ops"

section \<open>Slugs\<close>

interpretation group_slugs: slug_source slug_occupied "\<lambda>d. map g_slug (t_groups d)"
  by unfold_locales (auto simp: slug_occupied_def dest: find_SomeD split: option.splits)

lemma group_slug_free:
  "\<exists>slug. group_slug slugify d name x = Some slug \<and> \<not> slug_occupied d x slug"
  using group_slugs.slug_loop_terminates [of d "length (t_groups d) + 1"]
  by (fastforce simp: group_slug_def Let_def)

section \<open>The constraints survive\<close>

text \<open>A membership that only identity providers maintain is never a manager's.\<close>

definition external_are_members :: "db \<Rightarrow> bool" where
  "external_are_members d \<longleftrightarrow>
     (\<forall>m \<in> set (t_memberships d). \<not> m_local_grant m \<longrightarrow> m_role m = MEMBER)"

definition memberships_ok :: "db \<Rightarrow> bool" where
  "memberships_ok d \<longleftrightarrow> groups_ok d \<and> external_are_members d \<and>
     (\<forall>m \<in> set (t_memberships d). m_user m \<in> u_id ` set (t_users d))"

lemma get_group_key: "get_group d i = Inr g \<Longrightarrow> i \<in> g_id ` set (t_groups d)"
  by (auto simp: get_group_def find_group_def dest: find_SomeD)

lemma manage_members_group:
  "assert_may_manage_members d g actor = Inr authority \<Longrightarrow> g \<in> g_id ` set (t_groups d)"
  by (auto simp: assert_may_manage_members_def result_simps dest: get_group_key)

lemma update_memberships_ok:
  assumes "memberships_ok d"
    and "\<And>m. m_id (f m) = m_id m" and "\<And>m. m_group (f m) = m_group m"
    and "\<And>m. m_user (f m) = m_user m"
    and "\<And>m. p m \<Longrightarrow> m \<in> set (t_memberships d) \<Longrightarrow> \<not> m_local_grant (f m) \<longrightarrow> m_role (f m) = MEMBER"
  shows "memberships_ok (d\<lparr>t_memberships := update_where p f (t_memberships d)\<rparr>)"
proof -
  let ?ms = "update_where p f (t_memberships d)"
  have keys: "map m_id ?ms = map m_id (t_memberships d)"
    "map (\<lambda>m. (m_group m, m_user m)) ?ms = map (\<lambda>m. (m_group m, m_user m)) (t_memberships d)"
    by (rule map_update_where, simp add: assms)+
  have ids: "m_id ` set ?ms = m_id ` set (t_memberships d)"
    by (rule key_image_update_where) (simp add: assms)
  have mem: "\<exists>m \<in> set (t_memberships d). m' = (if p m then f m else m)" if "m' \<in> set ?ms" for m'
    using that unfolding set_update_where by blast
  have "m_group m' \<in> g_id ` set (t_groups d) \<and> m_user m' \<in> u_id ` set (t_users d) \<and>
      (\<not> m_local_grant m' \<longrightarrow> m_role m' = MEMBER)" if m': "m' \<in> set ?ms" for m'
  proof -
    obtain m where m: "m \<in> set (t_memberships d)" "m' = (if p m then f m else m)"
      using mem [OF m'] by blast
    then have "m_group m \<in> g_id ` set (t_groups d)" "m_user m \<in> u_id ` set (t_users d)"
      "\<not> m_local_grant m \<longrightarrow> m_role m = MEMBER"
      using assms(1) by (auto simp: memberships_ok_def groups_ok_def external_are_members_def)
    with m assms(3,4,5) show ?thesis by (cases "p m") auto
  qed
  then have "\<forall>m' \<in> set ?ms. m_group m' \<in> g_id ` set (t_groups d)"
    "\<forall>m' \<in> set ?ms. m_user m' \<in> u_id ` set (t_users d)"
    "\<forall>m' \<in> set ?ms. \<not> m_local_grant m' \<longrightarrow> m_role m' = MEMBER"
    by blast+
  with assms(1) keys ids show ?thesis
    by (simp add: memberships_ok_def groups_ok_def external_are_members_def)
qed

lemma create_group_ok:
  assumes "memberships_ok d" and "create_group sl fc d i n s = Inr d'"
  shows "memberships_ok d'"
  using assms
  by (auto simp: create_group_def result_simps memberships_ok_def groups_ok_def external_are_members_def)

lemma update_groups_ok:
  assumes "memberships_ok d" and "map g_id gs = map g_id (t_groups d)"
    and "distinct (map g_name gs)" and "distinct (map g_slug gs)"
  shows "memberships_ok (d\<lparr>t_groups := gs\<rparr>)"
proof -
  have "g_id ` set gs = g_id ` set (t_groups d)" using assms(2) by (metis set_map)
  with assms show ?thesis by (simp add: memberships_ok_def groups_ok_def external_are_members_def)
qed

lemma update_group_ok:
  assumes ok: "memberships_ok d" and run: "update_group sl fc d i name descr = Inr d'"
  shows "memberships_ok d'"
proof -
  obtain slug renames f where d': "d' = d\<lparr>t_groups := update_where (\<lambda>g. g_id g = i) f (t_groups d)\<rparr>"
    and f: "f = (\<lambda>g. g\<lparr>g_name := (case name of None \<Rightarrow> g_name g | Some n \<Rightarrow> n),
              g_slug := (if renames then slug else g_slug g),
              g_description := (case descr of None \<Rightarrow> g_description g
                | Some None \<Rightarrow> None
                | Some (Some t) \<Rightarrow> if t = [] then None else Some t)\<rparr>)"
    and free: "\<forall>g \<in> set (t_groups d). g_id g \<noteq> i \<longrightarrow> name \<noteq> Some (g_name g) \<and>
         (renames \<longrightarrow> slug \<noteq> g_slug g)"
  proof -
    obtain existing where ex: "get_group d i = Inr existing"
      using run by (auto simp: update_group_def result_simps)
    define renames where "renames = (name \<noteq> None \<and> name \<noteq> Some (g_name existing))"
    obtain slug where "d' = d\<lparr>t_groups := update_where (\<lambda>g. g_id g = i)
        (\<lambda>g. g\<lparr>g_name := (case name of None \<Rightarrow> g_name g | Some n \<Rightarrow> n),
              g_slug := (if renames then slug else g_slug g),
              g_description := (case descr of None \<Rightarrow> g_description g
                | Some None \<Rightarrow> None
                | Some (Some t) \<Rightarrow> if t = [] then None else Some t)\<rparr>) (t_groups d)\<rparr>"
      and "\<forall>g \<in> set (t_groups d). g_id g \<noteq> i \<longrightarrow> name \<noteq> Some (g_name g) \<and>
         (renames \<longrightarrow> slug \<noteq> g_slug g)"
      using run unfolding update_group_def ex Let_def renames_def
      by (simp only: rbind.simps rbind_eq_Inr rguard_eq_Inr sum.inject) blast
    with that show thesis by blast
  qed
  have dist: "distinct (map g_id (t_groups d))" "distinct (map g_name (t_groups d))"
    "distinct (map g_slug (t_groups d))"
    using ok by (simp_all add: memberships_ok_def groups_ok_def)
  have ids: "map g_id (update_where (\<lambda>g. g_id g = i) f (t_groups d)) = map g_id (t_groups d)"
    by (rule map_update_where) (simp add: f)
  have names: "distinct (map g_name (update_where (\<lambda>g. g_id g = i) f (t_groups d)))"
  proof (cases name)
    case None
    then have "map g_name (update_where (\<lambda>g. g_id g = i) f (t_groups d)) = map g_name (t_groups d)"
      by (intro map_update_where) (simp add: f)
    with dist show ?thesis by simp
  next
    case (Some n)
    then show ?thesis by (intro distinct_update_unique dist) (use free in \<open>simp add: f\<close>)
  qed
  have "distinct (map g_slug (update_where (\<lambda>g. g_id g = i) f (t_groups d)))"
  proof (cases renames)
    case False
    then have "map g_slug (update_where (\<lambda>g. g_id g = i) f (t_groups d)) = map g_slug (t_groups d)"
      by (intro map_update_where) (simp add: f)
    with dist show ?thesis by simp
  next
    case True
    then show ?thesis by (intro distinct_update_unique dist) (use free in \<open>simp add: f\<close>)
  qed
  with update_groups_ok [OF ok ids names] d' show ?thesis by simp
qed

lemma remove_group_commit_effect:
  assumes ok: "memberships_ok d" and run: "remove_group_commit d i = Inr d'"
  shows "d' = d\<lparr>t_groups := delete_where (\<lambda>g. g_id g = i) (t_groups d)\<rparr>"
    and "members_of d i = 0" and "acl_entries_of d i = 0" and "mappings_of d i = 0"
    and "\<exists>g \<in> set (t_groups d). g_id g = i \<and> \<not> g_system g"
proof -
  let ?p = "\<lambda>g. g_id g = i \<and> \<not> g_system g \<and> members_of d (g_id g) = 0 \<and>
                 acl_entries_of d (g_id g) = 0 \<and> mappings_of d (g_id g) = 0"
  have "count_where ?p (t_groups d) = 1" and d': "d' = d\<lparr>t_groups := delete_where ?p (t_groups d)\<rparr>"
    using run unfolding remove_group_commit_def Let_def by (auto simp: result_simps)
  then have "0 < count_where ?p (t_groups d)" by simp
  then obtain g where g: "g \<in> set (t_groups d)" "?p g" unfolding count_where_pos by blast
  then show "members_of d i = 0" "acl_entries_of d i = 0" "mappings_of d i = 0"
    "\<exists>g \<in> set (t_groups d). g_id g = i \<and> \<not> g_system g" by auto
  have "g' = g" if "g' \<in> set (t_groups d)" "g_id g' = i" for g'
    using ok g that unique_key_eq [of g_id "t_groups d" g' g]
    by (simp add: memberships_ok_def groups_ok_def)
  then have "delete_where ?p (t_groups d) = delete_where (\<lambda>g. g_id g = i) (t_groups d)"
    using g unfolding delete_where_def by (intro filter_cong) auto
  with d' show "d' = d\<lparr>t_groups := delete_where (\<lambda>g. g_id g = i) (t_groups d)\<rparr>" by simp
qed

lemma remove_group_commit_ok:
  assumes ok: "memberships_ok d" and run: "remove_group_commit d i = Inr d'"
  shows "memberships_ok d'"
proof -
  note e = remove_group_commit_effect [OF ok run]
  have "\<forall>m \<in> set (t_memberships d). m_group m \<noteq> i"
    using e(2) by (simp add: members_of_def row_simps)
  then show ?thesis using ok unfolding e(1) memberships_ok_def groups_ok_def external_are_members_def
    by (auto simp: distinct_delete_where row_simps)
qed

lemma insert_membership_cases:
  assumes "insert_membership d i g u role = Inr d'"
  obtains (New) "i \<notin> m_id ` set (t_memberships d)"
      "(g, u) \<notin> (\<lambda>m. (m_group m, m_user m)) ` set (t_memberships d)"
      "d' = d\<lparr>t_memberships := t_memberships d @
       [\<lparr>m_id = i, m_group = g, m_user = u, m_role = role, m_local_grant = True\<rparr>]\<rparr>"
  | (Upgrade) "d' = d\<lparr>t_memberships :=
      update_where (\<lambda>m. (m_group m, m_user m) = (g, u) \<and> \<not> m_local_grant m)
         (\<lambda>m. m\<lparr>m_local_grant := True, m_role := role\<rparr>) (t_memberships d)\<rparr>"
  using assms unfolding insert_membership_def Let_def
  by (metis (no_types, lifting) sum.distinct(1) sum.inject(2))

lemma add_member_guards:
  assumes "add_member d i g u role actor = Inr d'"
  shows "u \<in> u_id ` set (t_users d)"
    and "\<exists>authority. assert_may_manage_members d g actor = Inr authority \<and>
      (authority = GROUP_MANAGER \<longrightarrow> role = MEMBER)"
    and "insert_membership d i g u role = Inr d'"
proof -
  show "u \<in> u_id ` set (t_users d)"
    using assms by (auto simp: add_member_def result_simps find_user_def dest: find_SomeD)
  show "\<exists>authority. assert_may_manage_members d g actor = Inr authority \<and>
      (authority = GROUP_MANAGER \<longrightarrow> role = MEMBER)"
    using assms by (cases role) (auto simp: add_member_def result_simps)
  show "insert_membership d i g u role = Inr d'"
    using assms by (auto simp: add_member_def result_simps)
qed

lemma add_member_ok:
  assumes ok: "memberships_ok d" and run: "add_member d i g u role actor = Inr d'"
  shows "memberships_ok d'"
  using add_member_guards(3) [OF run]
proof (cases rule: insert_membership_cases)
  case New
  have "g \<in> g_id ` set (t_groups d)"
    using add_member_guards(2) [OF run] manage_members_group by blast
  moreover have "u \<in> u_id ` set (t_users d)" using add_member_guards(1) [OF run] .
  ultimately show ?thesis using ok New
    by (auto simp: memberships_ok_def groups_ok_def external_are_members_def)
next
  case Upgrade
  show ?thesis unfolding Upgrade by (rule update_memberships_ok [OF ok]) simp_all
qed

lemma find_membership_SomeD:
  "find_membership d g u = Some m \<Longrightarrow> m \<in> set (t_memberships d) \<and> m_group m = g \<and> m_user m = u"
  by (auto simp: find_membership_def dest: find_SomeD)

lemma membership_unique:
  assumes "memberships_ok d" and "find_membership d g u = Some m"
    and "m' \<in> set (t_memberships d)" and "m_group m' = g" and "m_user m' = u"
  shows "m' = m"
  using assms find_membership_SomeD [OF assms(2)]
    unique_key_eq [of "\<lambda>m. (m_group m, m_user m)" "t_memberships d" m' m]
  by (simp add: memberships_ok_def groups_ok_def)

lemma update_member_ok:
  assumes ok: "memberships_ok d" and run: "update_member d g u role actor = Inr d'"
  shows "memberships_ok d'"
proof -
  obtain m where m: "find_membership d g u = Some m" "m_local_grant m"
    and d': "d' = d\<lparr>t_memberships := update_where (\<lambda>m. (m_group m, m_user m) = (g, u))
       (\<lambda>m. m\<lparr>m_role := role\<rparr>) (t_memberships d)\<rparr>"
    using run by (auto simp: update_member_def result_simps)
  show ?thesis unfolding d'
    by (rule update_memberships_ok [OF ok]) (use m(2) membership_unique [OF ok m(1)] in \<open>auto\<close>)
qed

lemma remove_member_cases:
  assumes "remove_member d g u actor = Inr d'"
  obtains (External) authority m where "assert_may_manage_members d g actor = Inr authority"
      "find_membership d g u = Some m" "\<not> (authority = GROUP_MANAGER \<and> m_role m = MANAGER)"
      "m_local_grant m" "d' = d\<lparr>t_memberships := update_where (\<lambda>m. (m_group m, m_user m) = (g, u))
            (\<lambda>m. m\<lparr>m_local_grant := False, m_role := MEMBER\<rparr>) (t_memberships d)\<rparr>"
  | (Delete) authority m where "assert_may_manage_members d g actor = Inr authority"
      "find_membership d g u = Some m" "\<not> (authority = GROUP_MANAGER \<and> m_role m = MANAGER)"
      "m_local_grant m" "external_grant_count d m = 0"
      "d' = d\<lparr>t_memberships := delete_where (\<lambda>m. (m_group m, m_user m) = (g, u)) (t_memberships d)\<rparr>"
  using assms unfolding remove_member_def Let_def
  by (auto simp: result_simps split: if_splits)

lemma remove_member_ok:
  assumes ok: "memberships_ok d" and run: "remove_member d g u actor = Inr d'"
  shows "memberships_ok d'"
  using run
proof (cases rule: remove_member_cases)
  case (External authority m)
  show ?thesis unfolding External(5) by (rule update_memberships_ok [OF ok]) simp_all
next
  case (Delete authority m)
  let ?ms = "delete_where (\<lambda>m. (m_group m, m_user m) = (g, u)) (t_memberships d)"
  have "m_id m' = m_id m \<Longrightarrow> m' \<in> set (t_memberships d) \<Longrightarrow> m' = m" for m'
    using ok find_membership_SomeD [OF Delete(2)] unique_key_eq [of m_id "t_memberships d" m' m]
    by (simp add: memberships_ok_def groups_ok_def)
  then have "m_id ` set (t_memberships d) - {m_id m} \<subseteq> m_id ` set ?ms"
    using membership_unique [OF ok Delete(2)] by (auto simp: row_simps)
  moreover have "\<forall>x \<in> set (t_group_grants d). gg_membership x \<noteq> m_id m"
    using Delete(5) by (simp add: external_grant_count_def row_simps)
  ultimately have "\<forall>x \<in> set (t_group_grants d). gg_membership x \<in> m_id ` set ?ms"
    using ok by (auto simp: memberships_ok_def groups_ok_def)
  then show ?thesis using ok unfolding Delete(6)
    by (auto simp: memberships_ok_def groups_ok_def external_are_members_def row_simps
        distinct_delete_where)
qed

lemma group_step_ok:
  "memberships_ok d \<Longrightarrow> group_step sl fc d op = Inr d' \<Longrightarrow> memberships_ok d'"
  by (cases op)
    (auto simp: remove_group_def result_simps intro: create_group_ok update_group_ok
      remove_group_commit_ok add_member_ok update_member_ok remove_member_ok)

section \<open>Properties\<close>

text \<open>
  C27: Slug generation for groups always ends, with the first of \<open>name\<close>, \<open>name-2\<close>, \<open>name-3\<close>, ...
  that no other group has (\<open>gruppe\<close> stands for a name that slugifies to nothing), after at most
  one round more than there are groups; every earlier candidate is taken.
\<close>

theorem group_slug_terminates:
  "\<exists>k. group_slug slugify d name exclude =
       Some (slug_candidate (if slugify name = [] then ''gruppe'' else slugify name) k) \<and>
     \<not> slug_occupied d exclude (slug_candidate (if slugify name = [] then ''gruppe'' else slugify name) k) \<and>
     (\<forall>j < k. slug_occupied d exclude
        (slug_candidate (if slugify name = [] then ''gruppe'' else slugify name) j))"
  unfolding group_slug_def Let_def by (rule group_slugs.slug_loop_terminates) simp

theorem group_slug_terminates_witness:
  "\<exists>k \<le> 1. group_slug (\<lambda>s. s) (empty_db\<lparr>t_groups := [\<lparr>g_id = ''g'', g_name = ''a'', g_slug = ''a'',
       g_description = None, g_system = False\<rparr>]\<rparr>) ''a'' None = Some (slug_candidate ''a'' k)"
proof -
  let ?d = "empty_db\<lparr>t_groups := [\<lparr>g_id = ''g'', g_name = ''a'', g_slug = ''a'',
       g_description = None, g_system = False\<rparr>]\<rparr>"
  obtain k where k: "group_slug (\<lambda>s. s) ?d ''a'' None = Some (slug_candidate ''a'' k)"
    "\<forall>j < k. slug_occupied ?d None (slug_candidate ''a'' j)"
    using group_slug_terminates [of "\<lambda>s. s" ?d "''a''" None] by auto
  have "\<not> slug_occupied ?d None (slug_candidate ''a'' 1)"
    by (simp add: slug_occupied_def slug_candidate_def)
  with k(2) have "\<not> 1 < k" by blast
  with k(1) show ?thesis by (intro exI [of _ k]) simp
qed

text \<open>
  C26: Every sequence of group requests keeps the tables consistent: unique group names and
  slugs, at most one membership per group and user, no membership or external grant that refers
  to a deleted group, user or membership, and no manager role on a membership that only an
  identity provider maintains.
\<close>

theorem group_requests_keep_memberships_ok:
  assumes "memberships_ok d"
  shows "memberships_ok (group_run slugify fold_case d ops)"
  using assms
proof (induction ops arbitrary: d)
  case Nil
  then show ?case by (simp add: group_run_def)
next
  case (Cons op ops)
  then show ?case using group_step_ok [OF Cons.prems]
    by (cases "group_step slugify fold_case d op") (auto simp: group_run_def)
qed

definition sample_groups :: db where
  "sample_groups = sample_db
     \<lparr>t_groups := [\<lparr>g_id = ''g'', g_name = ''ops'', g_slug = ''ops'', g_description = None,
        g_system = False\<rparr>],
      t_memberships := [\<lparr>m_id = ''m1'', m_group = ''g'', m_user = ''rob'', m_role = MANAGER,
        m_local_grant = True\<rparr>]\<rparr>"

lemma sample_groups_ok: "memberships_ok sample_groups"
  by (simp add: memberships_ok_def groups_ok_def external_are_members_def sample_groups_def sample_defs)

theorem group_requests_keep_memberships_ok_witness:
  "memberships_ok (group_run (\<lambda>s. s) (\<lambda>s. s) sample_groups [RemoveGroup ''g'', CreateGroup ''h'' ''ops'' []])"
  by (rule group_requests_keep_memberships_ok [OF sample_groups_ok])

text \<open>
  Deleting a group is safe against members, resource ACLs and mappings that appear between
  the checks and the deletion: whatever the database holds when the deletion is committed, a
  committed deletion removes a group that is not a system group and to which nothing refers,
  removes nothing else, and keeps the tables consistent.
\<close>

theorem group_deletion_race_safe:
  assumes "remove_group_checks d i = Inr ()" and "memberships_ok later"
    and "remove_group_commit later i = Inr d'"
  shows "d' = later\<lparr>t_groups := delete_where (\<lambda>g. g_id g = i) (t_groups later)\<rparr> \<and>
    (\<exists>g \<in> set (t_groups later). g_id g = i \<and> \<not> g_system g) \<and>
    members_of later i = 0 \<and> acl_entries_of later i = 0 \<and> mappings_of later i = 0 \<and>
    memberships_ok d'"
  using remove_group_commit_effect [OF assms(2,3)] remove_group_commit_ok [OF assms(2,3)] by blast

definition sample_no_members :: db where
  "sample_no_members = sample_groups\<lparr>t_memberships := []\<rparr>"

theorem group_deletion_race_safe_witness:
  "\<exists>d'. remove_group sample_no_members ''g'' = Inr d' \<and> memberships_ok d'"
proof -
  have ok: "memberships_ok sample_no_members"
    by (simp add: memberships_ok_def groups_ok_def external_are_members_def sample_no_members_def
        sample_groups_def sample_defs)
  have checks: "remove_group_checks sample_no_members ''g'' = Inr ()"
    by (simp add: remove_group_checks_def get_group_def find_defs members_of_def acl_entries_of_def
        mappings_of_def count_where_def sample_no_members_def sample_groups_def sample_defs rguard_def)
  obtain d' where run: "remove_group_commit sample_no_members ''g'' = Inr d'"
    by (simp add: remove_group_commit_def members_of_def acl_entries_of_def Let_def
        mappings_of_def count_where_def sample_no_members_def sample_groups_def sample_defs rguard_def)
  from group_deletion_race_safe [OF checks ok run] have "memberships_ok d'" by blast
  moreover from checks run have "remove_group sample_no_members ''g'' = Inr d'"
    by (simp add: remove_group_def)
  ultimately show ?thesis by blast
qed

text \<open>The group and the actor of a request on members.\<close>

fun membership_request :: "group_op \<Rightarrow> (ident \<times> auth_user) option" where
  "membership_request (AddMember i g u r actor) = Some (g, actor)"
| "membership_request (UpdateMember g u r actor) = Some (g, actor)"
| "membership_request (RemoveMember g u actor) = Some (g, actor)"
| "membership_request _ = None"

definition managers :: "db \<Rightarrow> (ident \<times> ident) set" where
  "managers d = (\<lambda>m. (m_group m, m_user m)) `
     {m \<in> set (t_memberships d). m_role m = MANAGER \<and> m_local_grant m}"

lemma managers_update:
  assumes "\<And>m. m_group (f m) = m_group m" and "\<And>m. m_user (f m) = m_user m"
    and "\<And>m. m \<in> set (t_memberships d) \<Longrightarrow> p m \<Longrightarrow>
      \<not> (m_role m = MANAGER \<and> m_local_grant m) \<and> m_role (f m) = MEMBER"
    and d': "d' = d\<lparr>t_memberships := update_where p f (t_memberships d)\<rparr>"
  shows "managers d' = managers d"
proof -
  let ?q = "\<lambda>m. m_role m = MANAGER \<and> m_local_grant m"
  have "{m \<in> set (update_where p f (t_memberships d)). ?q m} = {m \<in> set (t_memberships d). ?q m}"
    (is "?L = ?R")
  proof
    show "?L \<subseteq> ?R"
    proof
      fix m' assume "m' \<in> ?L"
      then obtain m where m: "m \<in> set (t_memberships d)" "m' = (if p m then f m else m)" "?q m'"
        unfolding set_update_where by blast
      then have "\<not> p m" using assms(3) [of m] by (cases "p m") auto
      with m show "m' \<in> ?R" by simp
    qed
    show "?R \<subseteq> ?L"
    proof
      fix m assume m: "m \<in> ?R"
      then have "\<not> p m" using assms(3) [of m] by blast
      with m show "m \<in> ?L" unfolding set_update_where by force
    qed
  qed
  then show ?thesis by (simp add: managers_def d')
qed

text \<open>
  C9: The limited authority of a group manager: a request on members by somebody without the
  global right succeeds only for a manager of this very group who has not come with an API key;
  it changes no other group's memberships, and nobody anywhere becomes a manager or ceases to be
  one.
\<close>

theorem group_manager_confined:
  assumes ok: "memberships_ok d" and run: "group_step slugify fold_case d op = Inr d'"
    and req: "membership_request op = Some (g, actor)"
    and local: "\<not> is_allowed d actor Groups Manage_Members"
  shows "is_group_manager d g (au_id actor) \<and> au_method actor \<noteq> Some Api_Key \<and>
    managers d' = managers d \<and>
    filter (\<lambda>m. m_group m \<noteq> g) (t_memberships d') = filter (\<lambda>m. m_group m \<noteq> g) (t_memberships d)"
proof -
  have auth: "assert_may_manage_members d g actor = Inr authority \<Longrightarrow>
      authority = GROUP_MANAGER \<and> is_group_manager d g (au_id actor) \<and> au_method actor \<noteq> Some Api_Key"
    for authority
    using local by (auto simp: assert_may_manage_members_def result_simps split: if_splits)
  show ?thesis
  proof (cases op)
    case (AddMember i g' u role actor')
    then have add: "add_member d i g u role actor = Inr d'" using run req by simp
    from add_member_guards(2) [OF this] auth have role: "role = MEMBER"
      and a: "is_group_manager d g (au_id actor)" "au_method actor \<noteq> Some Api_Key" by blast+
    from add_member_guards(3) [OF add] show ?thesis
    proof (cases rule: insert_membership_cases)
      case New
      with a role show ?thesis by (auto simp: managers_def)
    next
      case Upgrade
      have "managers d' = managers d" by (rule managers_update [OF _ _ _ Upgrade]) (use role in \<open>auto\<close>)
      moreover have "filter (\<lambda>m. m_group m \<noteq> g) (t_memberships d') = filter (\<lambda>m. m_group m \<noteq> g) (t_memberships d)"
        unfolding Upgrade by (simp, rule filter_update_where) auto
      ultimately show ?thesis using a by blast
    qed
  next
    case (UpdateMember g' u role actor')
    with run req have "\<exists>authority. assert_may_manage_members d g actor = Inr authority \<and> authority = GLOBAL"
      by (auto simp: update_member_def result_simps)
    with auth show ?thesis by blast
  next
    case (RemoveMember g' u actor')
    then have "remove_member d g u actor = Inr d'" using run req by simp
    then show ?thesis
    proof (cases rule: remove_member_cases)
      case (External authority m)
      have "m_role m \<noteq> MANAGER" using External(1,3) auth by blast
      then have "managers d' = managers d"
        by (intro managers_update [OF _ _ _ External(5)])
          (use membership_unique [OF ok External(2)] in \<open>auto\<close>)
      moreover have "filter (\<lambda>m. m_group m \<noteq> g) (t_memberships d') = filter (\<lambda>m. m_group m \<noteq> g) (t_memberships d)"
        unfolding External(5) by (simp, rule filter_update_where) auto
      ultimately show ?thesis using auth [OF External(1)] by blast
    next
      case (Delete authority m)
      have "m_role m \<noteq> MANAGER" using Delete(1,3) auth by blast
      then have "{m \<in> set (t_memberships d'). m_role m = MANAGER \<and> m_local_grant m} =
          {m \<in> set (t_memberships d). m_role m = MANAGER \<and> m_local_grant m}"
        using membership_unique [OF ok Delete(2)] unfolding Delete(6) by (auto simp: row_simps)
      then have "managers d' = managers d" by (simp add: managers_def)
      moreover have "filter (\<lambda>m. m_group m \<noteq> g) (t_memberships d') = filter (\<lambda>m. m_group m \<noteq> g) (t_memberships d)"
        unfolding Delete(6) by (auto simp: delete_where_def intro!: filter_cong)
      ultimately show ?thesis using auth [OF Delete(1)] by blast
    qed
  qed (use req in simp_all)
qed

abbreviation sample_rob_user :: auth_user where
  "sample_rob_user \<equiv> to_authenticated_user (sample_user ''rob'' ''rd'' False)
       \<lparr>r_id = ''rd'', r_name = ''reader'', r_description = None, r_system = False\<rparr>"

lemma sample_rob_manages:
  "\<not> is_allowed sample_groups sample_rob_user Groups Manage_Members"
  "assert_may_manage_members sample_groups ''g'' sample_rob_user = Inr GROUP_MANAGER"
proof -
  show "\<not> is_allowed sample_groups sample_rob_user Groups Manage_Members"
    by (simp add: is_allowed_of_user override_of_def role_acl_of_def sample_groups_def sample_defs)
  then show "assert_may_manage_members sample_groups ''g'' sample_rob_user = Inr GROUP_MANAGER"
    by (simp add: assert_may_manage_members_def get_group_def find_defs is_group_manager_def
        find_membership_def sample_groups_def sample_defs to_authenticated_user_def)
qed

theorem group_manager_confined_witness:
  "\<exists>d'. group_step (\<lambda>s. s) (\<lambda>s. s) sample_groups (AddMember ''m2'' ''g'' ''ada'' MEMBER sample_rob_user) = Inr d' \<and>
     managers d' = managers sample_groups"
proof -
  obtain d' where run: "group_step (\<lambda>s. s) (\<lambda>s. s) sample_groups
      (AddMember ''m2'' ''g'' ''ada'' MEMBER sample_rob_user) = Inr d'"
    by (simp add: add_member_def sample_rob_manages rguard_def)
      (simp add: find_defs insert_membership_def sample_groups_def sample_defs)
  from group_manager_confined [OF sample_groups_ok run _ sample_rob_manages(1)] run show ?thesis by simp
qed

text \<open>
  Every user offered as a candidate can be added: the search of candidates and the addition
  apply the same boundary, so adding an offered user (as a member) never fails.
\<close>

theorem candidates_can_be_added:
  assumes ok: "memberships_ok d" and users: "distinct (map u_id (t_users d))"
    and "\<And>us. set (by_name us) \<subseteq> set us"
    and cand: "find_member_candidates matches by_name d g query actor = Inr us"
    and u: "u \<in> set us" and fresh: "i \<notin> m_id ` set (t_memberships d)"
  shows "\<exists>d'. add_member d i g (u_id u) MEMBER actor = Inr d' \<and>
    (\<exists>m. find_membership d' g (u_id u) = Some m \<and> m_local_grant m \<and> m_role m = MEMBER)"
proof -
  obtain authority where auth: "assert_may_manage_members d g actor = Inr authority"
    using cand by (auto simp: find_member_candidates_def result_simps)
  have "u \<in> set (by_name (filter (\<lambda>u. u_active u \<and>
       \<not> (\<exists>m \<in> set (t_memberships d). m_user m = u_id u \<and> m_group m = g \<and> m_local_grant m) \<and>
       (query = [] \<or> matches query (u_display_name u) \<or> matches query (u_username u))) (t_users d)))"
    using cand u by (auto simp: find_member_candidates_def auth dest: in_set_takeD)
  with assms(3) have cond: "u \<in> set (t_users d)" "u_active u"
      "\<not> (\<exists>m \<in> set (t_memberships d). m_user m = u_id u \<and> m_group m = g \<and> m_local_grant m)"
    by fastforce+
  have found: "find_user d (u_id u) = Some u"
    unfolding find_user_def by (rule find_by_key) (use users cond(1) in auto)
  have eq: "add_member d i g (u_id u) MEMBER actor = insert_membership d i g (u_id u) MEMBER"
    using auth found cond(2) by (simp add: add_member_def rguard_def)
  show ?thesis
  proof (cases "(g, u_id u) \<in> (\<lambda>m. (m_group m, m_user m)) ` set (t_memberships d)")
    case False
    then have "insert_membership d i g (u_id u) MEMBER = Inr (d\<lparr>t_memberships := t_memberships d @
        [\<lparr>m_id = i, m_group = g, m_user = u_id u, m_role = MEMBER, m_local_grant = True\<rparr>]\<rparr>)"
      using fresh by (simp add: insert_membership_def)
    moreover have "List.find (\<lambda>m. (m_group m, m_user m) = (g, u_id u)) (t_memberships d @
        [\<lparr>m_id = i, m_group = g, m_user = u_id u, m_role = MEMBER, m_local_grant = True\<rparr>]) =
        Some \<lparr>m_id = i, m_group = g, m_user = u_id u, m_role = MEMBER, m_local_grant = True\<rparr>"
      using False by (intro find_all_equal) (auto simp: image_iff)
    ultimately show ?thesis by (simp add: eq find_membership_def)
  next
    case True
    then obtain m where m: "m \<in> set (t_memberships d)" "m_group m = g" "m_user m = u_id u" by auto
    with cond(3) have ext: "\<not> m_local_grant m" by blast
    let ?p = "\<lambda>m. (m_group m, m_user m) = (g, u_id u) \<and> \<not> m_local_grant m"
    let ?f = "\<lambda>m. m\<lparr>m_local_grant := True, m_role := MEMBER\<rparr>"
    have dist: "distinct (map (\<lambda>m. (m_group m, m_user m)) (t_memberships d))"
      using ok by (simp add: memberships_ok_def groups_ok_def)
    have only: "m' = m" if "m' \<in> set (t_memberships d)" "(m_group m', m_user m') = (g, u_id u)" for m'
      using unique_key_eq [OF dist that(1) m(1)] that(2) m by simp
    have "count_where ?p (t_memberships d) = 1"
      by (rule count_where_unique [OF dist m(1)]) (use m ext in \<open>simp\<close>, use only in \<open>blast\<close>)
    then have ins: "insert_membership d i g (u_id u) MEMBER =
        Inr (d\<lparr>t_memberships := update_where ?p ?f (t_memberships d)\<rparr>)"
      using True by (simp add: insert_membership_def Let_def)
    have "find_membership (d\<lparr>t_memberships := update_where ?p ?f (t_memberships d)\<rparr>) g (u_id u) = Some (?f m)"
      unfolding find_membership_def
    proof (rule find_all_equal)
      show "?f m \<in> set (t_memberships (d\<lparr>t_memberships := update_where ?p ?f (t_memberships d)\<rparr>))"
        using m ext by (force simp: row_simps)
      show "(m_group (?f m), m_user (?f m)) = (g, u_id u)" using m by simp
      fix m' assume "m' \<in> set (t_memberships (d\<lparr>t_memberships := update_where ?p ?f (t_memberships d)\<rparr>))"
        and k: "(m_group m', m_user m') = (g, u_id u)"
      then have "m' \<in> set (update_where ?p ?f (t_memberships d))" by simp
      then obtain m0 where m0: "m0 \<in> set (t_memberships d)" "m' = (if ?p m0 then ?f m0 else m0)"
        unfolding set_update_where by blast
      with k have "(m_group m0, m_user m0) = (g, u_id u)" by (cases "?p m0") auto
      with m0(1) have "m0 = m" by (rule only)
      with m0(2) m ext show "m' = ?f m" by simp
    qed
    then show ?thesis by (simp add: eq ins)
  qed
qed

theorem candidates_can_be_added_witness:
  "\<exists>d'. add_member sample_groups ''m2'' ''g'' ''ada'' MEMBER sample_rob_user = Inr d'"
proof -
  have users: "distinct (map u_id (t_users sample_groups))"
    by (simp add: sample_groups_def sample_defs)
  have cand: "find_member_candidates (\<lambda>_ _. True) (\<lambda>us. us) sample_groups ''g'' [] sample_rob_user =
      Inr [sample_user ''own'' ''adm'' True, sample_user ''ada'' ''adm'' False]"
    by (simp add: find_member_candidates_def sample_rob_manages)
      (simp add: sample_groups_def sample_defs)
  have "''m2'' \<notin> m_id ` set (t_memberships sample_groups)"
    by (simp add: sample_groups_def)
  from candidates_can_be_added [OF sample_groups_ok users _ cand _ this,
      of "sample_user ''ada'' ''adm'' False"]
  show ?thesis by (auto simp: sample_user_def)
qed

end
