(* ===== verification/Targets.thy ===== *)
theory Targets
  imports Sample
begin

text \<open>
  \<^verbatim>\<open>apps/api/src/modules/resource-acls/resource-target.service.ts\<close>: the targets resource ACLs can
  name (spaces, categories, pages, notes, standards) and the path from a target up to its space
  along which ACLs are inherited. Every path exists twice in the code: resolved for one id, and
  for a list of ids with a constant number of queries. The locale \<open>target_resolver\<close> states what
  the second owes the first.
\<close>

section \<open>Targets\<close>

datatype target_type = Space | Category | Page | Note | Standard

fun target_type_name :: "target_type \<Rightarrow> string" where
  "target_type_name Space = ''space''"
| "target_type_name Category = ''category''"
| "target_type_name Page = ''page''"
| "target_type_name Note = ''note''"
| "target_type_name Standard = ''standard''"

definition target_key :: "target_type \<Rightarrow> ident \<Rightarrow> string" where
  "target_key ty i = target_type_name ty @ '':'' @ i"

record target =
  tg_type :: target_type
  tg_id :: ident
  tg_label :: string
  tg_key :: string
  tg_resources :: "resource list"

record personal_note =
  pn_owner :: ident
  pn_shares :: "(ident \<times> share_permission) list"

record hierarchy =
  hr_path :: "target list"
  hr_visibility :: "visibility option"
  hr_personal :: "personal_note option"

definition CONTENT_RESOURCES :: "resource list" where
  "CONTENT_RESOURCES = [Pages, Categories, Notes, Standards, Spaces]"

definition make_target :: "target_type \<Rightarrow> ident \<Rightarrow> string \<Rightarrow> resource list \<Rightarrow> target" where
  "make_target ty i label rs =
     \<lparr>tg_type = ty, tg_id = i, tg_label = label, tg_key = target_key ty i, tg_resources = uniq rs\<rparr>"

fun resource_for_scope :: "category_scope \<Rightarrow> resource" where
  "resource_for_scope NOTE = Notes"
| "resource_for_scope STANDARD = Standards"
| "resource_for_scope WIKI = Pages"

definition space_target :: "space_row \<Rightarrow> target" where
  "space_target s = make_target Space (s_id s) (s_name s) CONTENT_RESOURCES"

definition category_target :: "category_row \<Rightarrow> resource \<Rightarrow> target" where
  "category_target c r = make_target Category (c_id c) (c_name c) [Categories, r]"

definition page_target :: "page_row \<Rightarrow> target" where
  "page_target p = make_target Page (pg_id p) (pg_title p) [Pages]"

definition note_target :: "note_row \<Rightarrow> target" where
  "note_target n = make_target Note (n_id n)
     (case n_title n of None \<Rightarrow> ''Unbenannte Notiz'' | Some t \<Rightarrow> t) [Notes]"

definition standard_target :: "standard_row \<Rightarrow> target" where
  "standard_target x = make_target Standard (st_id x) (st_title x) [Standards]"

fun resolve :: "db \<Rightarrow> target_type \<Rightarrow> ident \<Rightarrow> target result" where
  "resolve d Space i =
     rbind (or_throw (NotFound ''space'') (find_space d i)) (\<lambda>s. Inr (space_target s))"
| "resolve d Category i =
     rbind (or_throw (NotFound ''category'') (find_category d i)) (\<lambda>c.
       Inr (category_target c (resource_for_scope (c_scope c))))"
| "resolve d Page i =
     rbind (or_throw (NotFound ''page'') (find_page d i)) (\<lambda>p. Inr (page_target p))"
| "resolve d Note i =
     rbind (or_throw (NotFound ''note'') (find_note d i)) (\<lambda>n. Inr (note_target n))"
| "resolve d Standard i =
     rbind (or_throw (NotFound ''standard'') (find_standard d i)) (\<lambda>x. Inr (standard_target x))"

definition assert_action_supported :: "target \<Rightarrow> action \<Rightarrow> unit result" where
  "assert_action_supported t a =
     rguard (\<exists>r \<in> set (tg_resources t). a \<in> set (PERMISSION_CATALOG r)) (BadRequest ''action'')"

definition assert_resource_matches :: "target \<Rightarrow> resource \<Rightarrow> unit result" where
  "assert_resource_matches t r = rguard (r \<in> set (tg_resources t)) (BadRequest ''resource'')"

section \<open>One hierarchy\<close>

definition in_space :: "target list \<Rightarrow> space_row \<Rightarrow> hierarchy" where
  "in_space path s =
     \<lparr>hr_path = path @ [space_target s], hr_visibility = Some (s_visibility s), hr_personal = None\<rparr>"

definition space_hierarchy :: "db \<Rightarrow> ident \<Rightarrow> hierarchy result" where
  "space_hierarchy d i =
     rbind (or_throw (NotFound ''space'') (find_space d i)) (\<lambda>s. Inr (in_space [] s))"

definition category_hierarchy_of :: "db \<Rightarrow> category_row \<Rightarrow> hierarchy result" where
  "category_hierarchy_of d c =
     rbind (or_throw (Internal ''category.space'') (find_space d (c_space c))) (\<lambda>s.
       Inr (in_space [category_target c (resource_for_scope (c_scope c))] s))"

definition category_hierarchy :: "db \<Rightarrow> ident \<Rightarrow> hierarchy result" where
  "category_hierarchy d i =
     rbind (or_throw (NotFound ''category'') (find_category d i)) (category_hierarchy_of d)"

text \<open>The walk up the parent folders: \<open>visited\<close> holds the ids seen so far, \<open>path\<close> the targets.\<close>

function page_chain ::
    "db \<Rightarrow> ident \<Rightarrow> ident option \<Rightarrow> ident list \<Rightarrow> ident option \<Rightarrow> ident option \<Rightarrow> target list \<Rightarrow>
     (target list \<times> ident option \<times> ident option) result" where
  "page_chain d start None visited cat sp path = Inr (path, cat, sp)"
| "page_chain d start (Some c) visited cat sp path =
     (if c \<in> set visited \<or> 100 \<le> length visited then Inl (BadRequest ''cyclic or too deep'')
      else case find_page d c of
        None \<Rightarrow> Inl (NotFound (if c = start then ''page'' else ''parent''))
      | Some p \<Rightarrow>
          if sp \<noteq> None \<and> sp \<noteq> Some (pg_space p) then Inl (BadRequest ''crosses space'')
          else if 1 < length (c # visited) \<and> pg_category p \<noteq> cat
          then Inl (BadRequest ''crosses category'')
          else page_chain d start (pg_parent p) (c # visited)
                 (case cat of None \<Rightarrow> pg_category p | Some x \<Rightarrow> Some x) (Some (pg_space p))
                 (path @ [page_target p]))"
  by pat_completeness auto
termination by (relation "measure (\<lambda>(d, start, c, visited, cat, sp, path).
    (if c = None then 0 else 1) + (100 - length visited))") (auto split: if_splits)

definition category_step ::
    "(ident \<Rightarrow> category_row option) \<Rightarrow> ident option \<Rightarrow> ident \<Rightarrow> resource \<Rightarrow> target list \<Rightarrow>
     target list result" where
  "category_step lookup cat sp r path =
     (case cat of
        None \<Rightarrow> Inr path
      | Some ci \<Rightarrow>
          (case lookup ci of
             None \<Rightarrow> Inl (BadRequest ''category and space'')
           | Some c \<Rightarrow> if c_space c \<noteq> sp then Inl (BadRequest ''category and space'')
               else Inr (path @ [category_target c r])))"

definition page_hierarchy :: "db \<Rightarrow> ident \<Rightarrow> hierarchy result" where
  "page_hierarchy d i =
     rbind (page_chain d i (Some i) [] None None []) (\<lambda>(path, cat, sp).
     case sp of
       None \<Rightarrow> Inl (NotFound ''space'')
     | Some si \<Rightarrow>
         rbind (category_step (find_category d) cat si Pages path) (\<lambda>path'.
         rbind (or_throw (NotFound ''space'') (find_space d si)) (\<lambda>s. Inr (in_space path' s))))"

definition shares_of :: "db \<Rightarrow> ident \<Rightarrow> (ident \<times> share_permission) list" where
  "shares_of d i =
     map (\<lambda>x. (sh_user x, sh_permission x)) (filter (\<lambda>x. sh_note x = i) (t_note_shares d))"

definition personal_hierarchy :: "db \<Rightarrow> note_row \<Rightarrow> hierarchy" where
  "personal_hierarchy d n =
     \<lparr>hr_path = [note_target n], hr_visibility = None,
      hr_personal = Some \<lparr>pn_owner = n_owner n, pn_shares = shares_of d (n_id n)\<rparr>\<rparr>"

definition note_hierarchy :: "db \<Rightarrow> ident \<Rightarrow> hierarchy result" where
  "note_hierarchy d i =
     rbind (or_throw (NotFound ''note'') (find_note d i)) (\<lambda>n.
     case n_space n of
       None \<Rightarrow> Inr (personal_hierarchy d n)
     | Some si \<Rightarrow>
         rbind (category_step (find_category d) (n_category n) si Notes [note_target n]) (\<lambda>path.
         rbind (or_throw (NotFound ''space'') (find_space d si)) (\<lambda>s. Inr (in_space path s))))"

definition standard_hierarchy :: "db \<Rightarrow> ident \<Rightarrow> hierarchy result" where
  "standard_hierarchy d i =
     rbind (or_throw (NotFound ''standard'') (find_standard d i)) (\<lambda>x.
     rbind (category_step (find_category d) (st_category x) (st_space x) Standards [standard_target x])
       (\<lambda>path.
     rbind (or_throw (NotFound ''space'') (find_space d (st_space x))) (\<lambda>s. Inr (in_space path s))))"

fun resolve_hierarchy :: "db \<Rightarrow> target_type \<Rightarrow> ident \<Rightarrow> hierarchy result" where
  "resolve_hierarchy d Space i = space_hierarchy d i"
| "resolve_hierarchy d Category i = category_hierarchy d i"
| "resolve_hierarchy d Page i = page_hierarchy d i"
| "resolve_hierarchy d Note i = note_hierarchy d i"
| "resolve_hierarchy d Standard i = standard_hierarchy d i"

section \<open>Many hierarchies\<close>

text \<open>
  The loop that fills the result map: every row contributes an entry, is skipped (\<open>continue\<close>) or
  makes the whole call throw.
\<close>

fun collect ::
    "('r \<Rightarrow> (ident \<times> hierarchy) option result) \<Rightarrow> 'r list \<Rightarrow> (ident \<times> hierarchy) list \<Rightarrow>
     (ident \<times> hierarchy) list result" where
  "collect f [] m = Inr m"
| "collect f (r # rs) m =
     rbind (f r) (\<lambda>x. case x of None \<Rightarrow> collect f rs m | Some (k, h) \<Rightarrow> collect f rs (map_put k h m))"

definition space_hierarchies :: "db \<Rightarrow> ident list \<Rightarrow> (ident \<times> hierarchy) list result" where
  "space_hierarchies d ids =
     collect (\<lambda>s. Inr (Some (s_id s, in_space [] s))) (filter (\<lambda>s. s_id s \<in> set ids) (t_spaces d)) []"

definition category_hierarchies :: "db \<Rightarrow> ident list \<Rightarrow> (ident \<times> hierarchy) list result" where
  "category_hierarchies d ids =
     collect (\<lambda>c. rbind (category_hierarchy_of d c) (\<lambda>h. Inr (Some (c_id c, h))))
       (filter (\<lambda>c. c_id c \<in> set ids) (t_categories d)) []"

function batch_chain ::
    "(ident \<Rightarrow> page_row option) \<Rightarrow> page_row \<Rightarrow> page_row \<Rightarrow> ident list \<Rightarrow> target list \<Rightarrow>
     target list result" where
  "batch_chain pages_by_id candidate current visited path =
     (if pg_id current \<in> set visited \<or> 100 \<le> length visited
      then Inl (BadRequest ''cyclic or too deep'')
      else if pg_space current \<noteq> pg_space candidate \<or> pg_category current \<noteq> pg_category candidate
      then Inl (BadRequest ''crosses space or category'')
      else case pg_parent current of
        None \<Rightarrow> Inr (path @ [page_target current])
      | Some pi \<Rightarrow>
          (case pages_by_id pi of
             None \<Rightarrow> Inl (BadRequest ''parent'')
           | Some next \<Rightarrow>
               batch_chain pages_by_id candidate next (pg_id current # visited)
                 (path @ [page_target current])))"
  by pat_completeness auto
termination
  by (relation "measure (\<lambda>(pages_by_id, candidate, current, visited, path). 100 - length visited)") auto

definition page_hierarchies :: "db \<Rightarrow> ident list \<Rightarrow> (ident \<times> hierarchy) list result" where
  "page_hierarchies d ids =
     (let candidates = filter (\<lambda>p. pg_id p \<in> set ids) (t_pages d);
          space_ids = uniq (map pg_space candidates);
          all_pages = filter (\<lambda>p. pg_space p \<in> set space_ids) (t_pages d);
          category_ids = uniq (List.map_filter pg_category candidates);
          categories = filter (\<lambda>c. c_id c \<in> set category_ids) (t_categories d);
          spaces = filter (\<lambda>s. s_id s \<in> set space_ids) (t_spaces d);
          pages_by_id = (\<lambda>i. List.find (\<lambda>p. pg_id p = i) all_pages);
          categories_by_id = (\<lambda>i. List.find (\<lambda>c. c_id c = i) categories);
          spaces_by_id = (\<lambda>i. List.find (\<lambda>s. s_id s = i) spaces)
      in if candidates = [] then Inr []
         else collect (\<lambda>p.
           rbind (batch_chain pages_by_id p p [] []) (\<lambda>path.
           rbind (category_step categories_by_id (pg_category p) (pg_space p) Pages path) (\<lambda>path'.
           Inr (map_option (\<lambda>s. (pg_id p, in_space path' s)) (spaces_by_id (pg_space p))))))
           candidates [])"

definition note_hierarchies :: "db \<Rightarrow> ident list \<Rightarrow> (ident \<times> hierarchy) list result" where
  "note_hierarchies d ids =
     collect (\<lambda>n.
       case Option.bind (n_space n) (find_space d) of
         None \<Rightarrow> Inr (Some (n_id n, personal_hierarchy d n))
       | Some s \<Rightarrow>
           (case Option.bind (n_category n) (find_category d) of
              None \<Rightarrow> Inr (Some (n_id n, in_space [note_target n] s))
            | Some c \<Rightarrow>
                if c_space c \<noteq> s_id s then Inl (BadRequest ''category and space'')
                else Inr (Some (n_id n, in_space [note_target n, category_target c Notes] s))))
       (filter (\<lambda>n. n_id n \<in> set ids) (t_notes d)) []"

definition standard_hierarchies :: "db \<Rightarrow> ident list \<Rightarrow> (ident \<times> hierarchy) list result" where
  "standard_hierarchies d ids =
     collect (\<lambda>x.
       rbind (or_throw (Internal ''standard.space'') (find_space d (st_space x))) (\<lambda>s.
       case Option.bind (st_category x) (find_category d) of
         None \<Rightarrow> Inr (Some (st_id x, in_space [standard_target x] s))
       | Some c \<Rightarrow>
           if c_space c \<noteq> s_id s then Inl (BadRequest ''category and space'')
           else Inr (Some (st_id x, in_space [standard_target x, category_target c Standards] s))))
       (filter (\<lambda>x. st_id x \<in> set ids) (t_standards d)) []"

definition resolve_hierarchies ::
    "db \<Rightarrow> target_type \<Rightarrow> ident list \<Rightarrow> (ident \<times> hierarchy) list result" where
  "resolve_hierarchies d ty ids =
     (let unique_ids = uniq ids in
      if unique_ids = [] then Inr []
      else case ty of
        Space \<Rightarrow> space_hierarchies d unique_ids
      | Category \<Rightarrow> category_hierarchies d unique_ids
      | Page \<Rightarrow> page_hierarchies d unique_ids
      | Note \<Rightarrow> note_hierarchies d unique_ids
      | Standard \<Rightarrow> standard_hierarchies d unique_ids)"

declare page_chain.simps [simp del] batch_chain.simps [simp del]

section \<open>What a batch owes the single resolution\<close>

text \<open>
  A batch agrees with the single resolution on the ids it is given: if it returns, its map holds
  exactly the ids that resolve, with the same hierarchies, and every other id does not exist; if
  it throws, it throws a \<open>BadRequest\<close>, and some id has one by itself.
\<close>

definition batch_agrees ::
    "(ident \<Rightarrow> hierarchy result) \<Rightarrow> ident list \<Rightarrow> (ident \<times> hierarchy) list result \<Rightarrow> bool" where
  "batch_agrees one ids res =
     (case res of
        Inr m \<Rightarrow> distinct (map fst m) \<and>
          (\<forall>i h. map_of m i = Some h \<longleftrightarrow> i \<in> set ids \<and> one i = Inr h) \<and>
          (\<forall>i \<in> set ids. \<forall>e. one i = Inl e \<longrightarrow> is_not_found e)
      | Inl e \<Rightarrow> is_bad_request e \<and> (\<exists>i \<in> set ids. \<exists>e'. one i = Inl e' \<and> is_bad_request e'))"

locale target_resolver =
  fixes ok :: "'d \<Rightarrow> bool" and one :: "'d \<Rightarrow> ident \<Rightarrow> hierarchy result"
    and many :: "'d \<Rightarrow> ident list \<Rightarrow> (ident \<times> hierarchy) list result"
  assumes agrees: "ok d \<Longrightarrow> batch_agrees (one d) ids (many d ids)"
begin

lemma many_lookup:
  assumes "ok d" and "many d ids = Inr m"
  shows "map_of m i = Some h \<longleftrightarrow> i \<in> set ids \<and> one d i = Inr h"
  using agrees [OF assms(1), of ids] assms(2) by (simp add: batch_agrees_def)

lemma many_member:
  assumes "ok d" and "many d ids = Inr m"
  shows "(i, h) \<in> set m \<longleftrightarrow> i \<in> set ids \<and> one d i = Inr h"
  using agrees [OF assms(1), of ids] assms(2) by (simp add: batch_agrees_def) (metis map_of_eq_Some_iff)

lemma many_missing:
  assumes "ok d" and "many d ids = Inr m" and "i \<in> set ids" and "map_of m i = None"
  shows "\<exists>e. one d i = Inl e \<and> is_not_found e"
proof -
  have "one d i \<noteq> Inr h" for h
    using many_lookup [OF assms(1,2), of i h] assms(3,4) by simp
  then obtain e where e: "one d i = Inl e" by (cases "one d i") auto
  with agrees [OF assms(1), of ids] assms(2,3) show ?thesis by (simp add: batch_agrees_def)
qed

lemma many_throws:
  assumes "ok d" and "many d ids = Inl e"
  shows "is_bad_request e" and "\<exists>i \<in> set ids. \<exists>e'. one d i = Inl e' \<and> is_bad_request e'"
  using agrees [OF assms(1), of ids] assms(2) by (simp_all add: batch_agrees_def)

end

section \<open>The collecting loop\<close>

lemma collect_Inl: "collect f rows m = Inl e \<Longrightarrow> \<exists>r \<in> set rows. f r = Inl e"
  by (induction rows arbitrary: m) (auto simp: result_simps split: option.splits)

lemma collect_Inr_rows: "collect f rows m = Inr m' \<Longrightarrow> r \<in> set rows \<Longrightarrow> \<exists>x. f r = Inr x"
  by (induction rows arbitrary: m) (auto simp: result_simps split: option.splits)

lemma collect_distinct:
  "collect f rows m = Inr m' \<Longrightarrow> distinct (map fst m) \<Longrightarrow> distinct (map fst m')"
  by (induction rows arbitrary: m) (auto simp: result_simps distinct_map_put split: option.splits)

lemma collect_lookup:
  assumes "collect f rows m = Inr m'" and "distinct (map key rows)"
    and "\<And>r k h. r \<in> set rows \<Longrightarrow> f r = Inr (Some (k, h)) \<Longrightarrow> k = key r"
  shows "map_of m' i =
    (case List.find (\<lambda>r. key r = i) rows of
       None \<Rightarrow> map_of m i
     | Some r \<Rightarrow> (case f r of Inr (Some (k, h)) \<Rightarrow> Some h | _ \<Rightarrow> map_of m i))"
  using assms
proof (induction rows arbitrary: m)
  case Nil
  then show ?case by simp
next
  case (Cons r rows)
  obtain x where x: "f r = Inr x" using Cons.prems(1) by (auto simp: result_simps)
  have key: "\<And>s k h. s \<in> set rows \<Longrightarrow> f s = Inr (Some (k, h)) \<Longrightarrow> k = key s"
    using Cons.prems(3) by simp
  have dist: "distinct (map key rows)" using Cons.prems(2) by simp
  have none: "List.find (\<lambda>s. key s = key r) rows = None"
    using Cons.prems(2) by (auto simp: find_None_iff image_iff)
  show ?case
  proof (cases x)
    case None
    then have "collect f rows m = Inr m'" using Cons.prems(1) x by simp
    from Cons.IH [OF this dist key] show ?thesis using x None none
      by (cases "key r = i") simp_all
  next
    case (Some y)
    obtain k h where y: "y = (k, h)" by (cases y)
    then have k: "k = key r" using Cons.prems(3) [of r k h] x Some by simp
    have "collect f rows (map_put k h m) = Inr m'" using Cons.prems(1) x Some y by simp
    from Cons.IH [OF this dist key] show ?thesis using x Some y k none
      by (cases "key r = i") (auto split: option.splits sum.splits)
  qed
qed

text \<open>If every row of a table agrees with the single resolution, so does the batch.\<close>

definition row_agrees ::
    "(ident \<Rightarrow> hierarchy result) \<Rightarrow> ident \<Rightarrow> (ident \<times> hierarchy) option result \<Rightarrow> bool" where
  "row_agrees one k x \<longleftrightarrow>
     (\<exists>h. one k = Inr h \<and> x = Inr (Some (k, h))) \<or>
     (\<exists>e e'. one k = Inl e \<and> x = Inl e' \<and> is_bad_request e \<and> is_bad_request e')"

lemma collect_agrees:
  assumes dist: "distinct (map key rows)"
    and row: "\<And>r. r \<in> set rows \<Longrightarrow> key r \<in> set ids \<Longrightarrow> row_agrees one (key r) (f r)"
    and missing: "\<And>i. i \<notin> key ` set rows \<Longrightarrow> \<exists>e. one i = Inl e \<and> is_not_found e"
  shows "batch_agrees one ids (collect f (filter (\<lambda>r. key r \<in> set ids) rows) [])"
proof -
  let ?rows = "filter (\<lambda>r. key r \<in> set ids) rows"
  have dist': "distinct (map key ?rows)" using dist by (simp add: distinct_map_filter)
  have key: "k = key r" if "r \<in> set ?rows" "f r = Inr (Some (k, h))" for r k h
    using row [of r] that by (auto simp: row_agrees_def)
  show ?thesis
  proof (cases "collect f ?rows []")
    case (Inl e)
    then obtain r where r: "r \<in> set ?rows" "f r = Inl e" using collect_Inl by blast
    then have "is_bad_request e \<and> (\<exists>e'. one (key r) = Inl e' \<and> is_bad_request e')"
      using row [of r] by (auto simp: row_agrees_def)
    with r Inl show ?thesis by (auto simp: batch_agrees_def)
  next
    case (Inr m)
    have lookup: "map_of m i = (case List.find (\<lambda>r. key r = i) ?rows of
       None \<Rightarrow> None | Some r \<Rightarrow> (case f r of Inr (Some (k, h)) \<Rightarrow> Some h | _ \<Rightarrow> None))" for i
    proof -
      have "map_of m i = (case List.find (\<lambda>r. key r = i) ?rows of
          None \<Rightarrow> map_of [] i
        | Some r \<Rightarrow> (case f r of Inr (Some (k, h)) \<Rightarrow> Some h | _ \<Rightarrow> map_of [] i))"
        using key by (rule collect_lookup [OF Inr dist'])
      then show ?thesis by (simp split: option.splits sum.splits)
    qed
    have found: "map_of m (key r) = Some h \<longleftrightarrow> one (key r) = Inr h"
      if r: "r \<in> set ?rows" for r h
    proof -
      have "List.find (\<lambda>s. key s = key r) ?rows = Some r" using find_by_key [OF dist' r] by simp
      then show ?thesis using lookup [of "key r"] row [of r] r by (auto simp: row_agrees_def)
    qed
    have "map_of m i = Some h \<longleftrightarrow> i \<in> set ids \<and> one i = Inr h" for i h
    proof (cases "\<exists>r \<in> set ?rows. key r = i")
      case True
      then show ?thesis using found by auto
    next
      case False
      then have "List.find (\<lambda>r. key r = i) ?rows = None" unfolding find_None_iff by blast
      then have "map_of m i = None" using lookup [of i] by simp
      moreover have "i \<in> set ids \<Longrightarrow> one i \<noteq> Inr h" using missing [of i] False by fastforce
      ultimately show ?thesis by auto
    qed
    moreover have "is_not_found e" if i: "i \<in> set ids" and e: "one i = Inl e" for i e
    proof (cases "i \<in> key ` set rows")
      case True
      then obtain r where r: "r \<in> set ?rows" "key r = i" using i by auto
      then obtain x where "f r = Inr x" using collect_Inr_rows [OF Inr] by blast
      with row [of r] r e show ?thesis by (auto simp: row_agrees_def)
    next
      case False
      with missing [of i] e show ?thesis by auto
    qed
    ultimately show ?thesis using Inr collect_distinct [OF Inr]
      by (simp add: batch_agrees_def)
  qed
qed

section \<open>Every kind of target\<close>

lemma content_okD:
  assumes "content_ok d"
  shows "distinct (map s_id (t_spaces d))" "distinct (map c_id (t_categories d))"
    "distinct (map pg_id (t_pages d))" "distinct (map n_id (t_notes d))"
    "distinct (map st_id (t_standards d))"
  using assms by (simp_all add: content_ok_def)

lemma find_of_key:
  "i \<in> key ` set rows \<Longrightarrow> \<exists>r. List.find (\<lambda>r. key r = i) rows = Some r"
  by (cases "List.find (\<lambda>r. key r = i) rows") (auto simp: find_None_iff)

lemma find_of_no_key: "i \<notin> key ` set rows \<Longrightarrow> List.find (\<lambda>r. key r = i) rows = None"
  by (auto simp: find_None_iff)

lemma content_ok_find:
  assumes "content_ok d"
  shows "c \<in> set (t_categories d) \<Longrightarrow> \<exists>s. find_space d (c_space c) = Some s"
    and "p \<in> set (t_pages d) \<Longrightarrow> \<exists>s. find_space d (pg_space p) = Some s"
    and "p \<in> set (t_pages d) \<Longrightarrow> pg_parent p = Some i \<Longrightarrow> \<exists>q. find_page d i = Some q"
    and "p \<in> set (t_pages d) \<Longrightarrow> pg_category p = Some j \<Longrightarrow> \<exists>c. find_category d j = Some c"
    and "n \<in> set (t_notes d) \<Longrightarrow> n_space n = Some i \<Longrightarrow> \<exists>s. find_space d i = Some s"
    and "n \<in> set (t_notes d) \<Longrightarrow> n_category n = Some j \<Longrightarrow> \<exists>c. find_category d j = Some c"
    and "x \<in> set (t_standards d) \<Longrightarrow> \<exists>s. find_space d (st_space x) = Some s"
    and "x \<in> set (t_standards d) \<Longrightarrow> st_category x = Some j \<Longrightarrow> \<exists>c. find_category d j = Some c"
  using assms unfolding content_ok_def find_defs by (auto intro!: find_of_key split: option.splits)

lemma find_id:
  "find_space d i = Some s \<Longrightarrow> s_id s = i \<and> s \<in> set (t_spaces d)"
  "find_category d i = Some c \<Longrightarrow> c_id c = i \<and> c \<in> set (t_categories d)"
  "find_page d i = Some p \<Longrightarrow> pg_id p = i \<and> p \<in> set (t_pages d)"
  by (auto simp: find_defs dest: find_SomeD)

lemma find_own_row:
  assumes "content_ok d"
  shows "s \<in> set (t_spaces d) \<Longrightarrow> find_space d (s_id s) = Some s"
    and "c \<in> set (t_categories d) \<Longrightarrow> find_category d (c_id c) = Some c"
    and "p \<in> set (t_pages d) \<Longrightarrow> find_page d (pg_id p) = Some p"
    and "n \<in> set (t_notes d) \<Longrightarrow> find_note d (n_id n) = Some n"
    and "x \<in> set (t_standards d) \<Longrightarrow> find_standard d (st_id x) = Some x"
  using content_okD [OF assms] unfolding find_defs by (blast intro: find_by_key)+

lemma space_batch:
  assumes "content_ok d"
  shows "batch_agrees (space_hierarchy d) ids (space_hierarchies d ids)"
  unfolding space_hierarchies_def
proof (rule collect_agrees [OF content_okD(1) [OF assms]])
  fix s assume "s \<in> set (t_spaces d)"
  then show "row_agrees (space_hierarchy d) (s_id s) (Inr (Some (s_id s, in_space [] s)))"
    using find_own_row(1) [OF assms] by (simp add: row_agrees_def space_hierarchy_def)
next
  fix i assume "i \<notin> s_id ` set (t_spaces d)"
  then show "\<exists>e. space_hierarchy d i = Inl e \<and> is_not_found e"
    by (simp add: space_hierarchy_def find_space_def find_of_no_key)
qed

lemma category_batch:
  assumes "content_ok d"
  shows "batch_agrees (category_hierarchy d) ids (category_hierarchies d ids)"
  unfolding category_hierarchies_def
proof (rule collect_agrees [OF content_okD(2) [OF assms]])
  fix c assume c: "c \<in> set (t_categories d)"
  then obtain s where "find_space d (c_space c) = Some s" using content_ok_find(1) [OF assms] by blast
  then show "row_agrees (category_hierarchy d) (c_id c)
      (rbind (category_hierarchy_of d c) (\<lambda>h. Inr (Some (c_id c, h))))"
    using find_own_row(2) [OF assms c]
    by (simp add: row_agrees_def category_hierarchy_def category_hierarchy_of_def)
next
  fix i assume "i \<notin> c_id ` set (t_categories d)"
  then show "\<exists>e. category_hierarchy d i = Inl e \<and> is_not_found e"
    by (simp add: category_hierarchy_def find_category_def find_of_no_key)
qed

lemma note_batch:
  assumes ok: "content_ok d"
  shows "batch_agrees (note_hierarchy d) ids (note_hierarchies d ids)"
  unfolding note_hierarchies_def
proof (rule collect_agrees [OF content_okD(4) [OF ok]])
  fix n assume n: "n \<in> set (t_notes d)"
  show "row_agrees (note_hierarchy d) (n_id n) (case Option.bind (n_space n) (find_space d) of
         None \<Rightarrow> Inr (Some (n_id n, personal_hierarchy d n))
       | Some s \<Rightarrow>
           (case Option.bind (n_category n) (find_category d) of
              None \<Rightarrow> Inr (Some (n_id n, in_space [note_target n] s))
            | Some c \<Rightarrow>
                if c_space c \<noteq> s_id s then Inl (BadRequest ''category and space'')
                else Inr (Some (n_id n, in_space [note_target n, category_target c Notes] s))))"
  proof (cases "n_space n")
    case None
    then show ?thesis using find_own_row(4) [OF ok n] by (simp add: row_agrees_def note_hierarchy_def)
  next
    case (Some i)
    then obtain s where s: "find_space d i = Some s" using content_ok_find(5) [OF ok n] by blast
    then have "s_id s = i" using find_id by blast
    show ?thesis
    proof (cases "n_category n")
      case None
      then show ?thesis using find_own_row(4) [OF ok n] Some s
        by (simp add: row_agrees_def note_hierarchy_def category_step_def)
    next
      case (Some j)
      then obtain c where "find_category d j = Some c" using content_ok_find(6) [OF ok n] by blast
      then show ?thesis using find_own_row(4) [OF ok n] Some \<open>n_space n = Some i\<close> s \<open>s_id s = i\<close>
        by (simp add: row_agrees_def note_hierarchy_def category_step_def)
    qed
  qed
next
  fix i assume "i \<notin> n_id ` set (t_notes d)"
  then show "\<exists>e. note_hierarchy d i = Inl e \<and> is_not_found e"
    by (simp add: note_hierarchy_def find_note_def find_of_no_key)
qed

lemma standard_batch:
  assumes ok: "content_ok d"
  shows "batch_agrees (standard_hierarchy d) ids (standard_hierarchies d ids)"
  unfolding standard_hierarchies_def
proof (rule collect_agrees [OF content_okD(5) [OF ok]])
  fix x assume x: "x \<in> set (t_standards d)"
  obtain s where s: "find_space d (st_space x) = Some s" using content_ok_find(7) [OF ok x] by blast
  then have "s_id s = st_space x" using find_id by blast
  show "row_agrees (standard_hierarchy d) (st_id x)
      (rbind (or_throw (Internal ''standard.space'') (find_space d (st_space x))) (\<lambda>s.
       case Option.bind (st_category x) (find_category d) of
         None \<Rightarrow> Inr (Some (st_id x, in_space [standard_target x] s))
       | Some c \<Rightarrow>
           if c_space c \<noteq> s_id s then Inl (BadRequest ''category and space'')
           else Inr (Some (st_id x, in_space [standard_target x, category_target c Standards] s))))"
  proof (cases "st_category x")
    case None
    then show ?thesis using find_own_row(5) [OF ok x] s
      by (simp add: row_agrees_def standard_hierarchy_def category_step_def)
  next
    case (Some j)
    then obtain c where "find_category d j = Some c" using content_ok_find(8) [OF ok x] by blast
    then show ?thesis using find_own_row(5) [OF ok x] Some s \<open>s_id s = st_space x\<close>
      by (simp add: row_agrees_def standard_hierarchy_def category_step_def)
  qed
next
  fix i assume "i \<notin> st_id ` set (t_standards d)"
  then show "\<exists>e. standard_hierarchy d i = Inl e \<and> is_not_found e"
    by (simp add: standard_hierarchy_def find_standard_def find_of_no_key)
qed

text \<open>
  Pages: both walks visit the same pages. The batch looks pages up among those of the candidates'
  spaces only, so a parent in a foreign space is missing there and crosses a space here.
\<close>

lemma chains_agree:
  assumes ok: "content_ok d"
    and lookup: "\<And>i. by_id i =
      (case find_page d i of None \<Rightarrow> None | Some p \<Rightarrow> if pg_space p \<in> S then Some p else None)"
    and S: "pg_space cand \<in> S"
    and cur: "find_page d (pg_id cur) = Some cur"
    and state: "visited = [] \<and> sp = None \<and> cat = None \<and> cur = cand \<or>
      visited \<noteq> [] \<and> sp = Some (pg_space cand) \<and> cat = pg_category cand"
  shows "(\<exists>p. page_chain d start (Some (pg_id cur)) visited cat sp path =
        Inr (p, pg_category cand, Some (pg_space cand)) \<and> batch_chain by_id cand cur visited path = Inr p) \<or>
    (\<exists>e e'. page_chain d start (Some (pg_id cur)) visited cat sp path = Inl e \<and>
        batch_chain by_id cand cur visited path = Inl e' \<and> is_bad_request e \<and> is_bad_request e')"
  using cur state
proof (induction "100 - length visited" arbitrary: cur visited sp cat path rule: less_induct)
  case less
  show ?case
  proof (cases "pg_id cur \<in> set visited \<or> 100 \<le> length visited")
    case True
    then show ?thesis by (simp add: page_chain.simps batch_chain.simps)
  next
    case fresh: False
    show ?thesis
    proof (cases "pg_space cur = pg_space cand \<and> pg_category cur = pg_category cand")
      case False
      then show ?thesis using fresh less.prems
        by (auto simp: page_chain.simps batch_chain.simps)
    next
      case True
      let ?path = "path @ [page_target cur]"
      let ?visited = "pg_id cur # visited"
      have single: "page_chain d start (Some (pg_id cur)) visited cat sp path =
          page_chain d start (pg_parent cur) ?visited (pg_category cand) (Some (pg_space cand)) ?path"
        using fresh less.prems True
        by (subst page_chain.simps(2)) (auto split: option.splits)
      show ?thesis
      proof (cases "pg_parent cur")
        case None
        then show ?thesis using fresh True
          by (simp add: single) (simp add: page_chain.simps batch_chain.simps)
      next
        case (Some q)
        have "cur \<in> set (t_pages d)" using less.prems(1) find_id(3) by blast
        then obtain p where p: "find_page d q = Some p" using content_ok_find(3) [OF ok] Some by blast
        then have id: "pg_id p = q" using find_id(3) by blast
        have batch: "batch_chain by_id cand cur visited path =
            (case by_id q of None \<Rightarrow> Inl (BadRequest ''parent'')
             | Some next \<Rightarrow> batch_chain by_id cand next ?visited ?path)"
          using fresh True Some by (subst batch_chain.simps) simp
        have smaller: "100 - length ?visited < 100 - length visited" using fresh by simp arith
        show ?thesis
        proof (cases "pg_space p \<in> S")
          case True
          then have "by_id q = Some p" using lookup p by simp
          with less.hyps [OF smaller, of p "Some (pg_space cand)" "pg_category cand" ?path] p id
          show ?thesis by (simp add: single batch Some)
        next
          case False
          then have "by_id q = None" using lookup p by simp
          have "pg_space p \<noteq> pg_space cand" using False S by auto
          then have "\<exists>e. page_chain d start (Some q) ?visited (pg_category cand) (Some (pg_space cand)) ?path =
              Inl e \<and> is_bad_request e"
            by (simp add: page_chain.simps(2) p)
          with single Some have "\<exists>e. page_chain d start (Some (pg_id cur)) visited cat sp path = Inl e \<and>
              is_bad_request e" by simp
          moreover have "batch_chain by_id cand cur visited path = Inl (BadRequest ''parent'')"
            using batch \<open>by_id q = None\<close> by simp
          ultimately show ?thesis by auto
        qed
      qed
    qed
  qed
qed

lemma page_batch:
  assumes ok: "content_ok d"
  shows "batch_agrees (page_hierarchy d) ids (page_hierarchies d ids)"
proof -
  define candidates where "candidates = filter (\<lambda>p. pg_id p \<in> set ids) (t_pages d)"
  define S where "S = set (uniq (map pg_space candidates))"
  define C where "C = set (uniq (List.map_filter pg_category candidates))"
  define by_id where "by_id = (\<lambda>i. List.find (\<lambda>p. pg_id p = i) (filter (\<lambda>p. pg_space p \<in> S) (t_pages d)))"
  define cat_by_id where "cat_by_id = (\<lambda>i. List.find (\<lambda>c. c_id c = i) (filter (\<lambda>c. c_id c \<in> C) (t_categories d)))"
  define space_by_id where "space_by_id = (\<lambda>i. List.find (\<lambda>s. s_id s = i) (filter (\<lambda>s. s_id s \<in> S) (t_spaces d)))"
  define f where "f = (\<lambda>p. rbind (batch_chain by_id p p [] []) (\<lambda>path.
           rbind (category_step cat_by_id (pg_category p) (pg_space p) Pages path) (\<lambda>path'.
           Inr (map_option (\<lambda>s. (pg_id p, in_space path' s)) (space_by_id (pg_space p))))))"
  have eq: "page_hierarchies d ids = collect f candidates []"
    unfolding page_hierarchies_def Let_def f_def by_id_def cat_by_id_def space_by_id_def S_def C_def
      candidates_def by (cases "filter (\<lambda>p. pg_id p \<in> set ids) (t_pages d) = []") simp_all
  have lookup: "by_id i = (case find_page d i of None \<Rightarrow> None | Some p \<Rightarrow> if pg_space p \<in> S then Some p else None)"
    for i unfolding by_id_def find_page_def by (rule find_filter_key [OF content_okD(3) [OF ok]])
  have "batch_agrees (page_hierarchy d) ids
      (collect f (filter (\<lambda>p. pg_id p \<in> set ids) (t_pages d)) [])"
  proof (rule collect_agrees [OF content_okD(3) [OF ok]])
    fix p assume p: "p \<in> set (t_pages d)" "pg_id p \<in> set ids"
    then have cand: "p \<in> set candidates" by (simp add: candidates_def)
    then have S: "pg_space p \<in> S" by (simp add: S_def)
    obtain s where s: "find_space d (pg_space p) = Some s" using content_ok_find(2) [OF ok p(1)] by blast
    then have space: "space_by_id (pg_space p) = Some s"
      using S find_id(1) [OF s] find_filter_key [OF content_okD(1) [OF ok], of "pg_space p" "\<lambda>s. s_id s \<in> S"]
      by (simp add: space_by_id_def find_space_def)
    have cat: "category_step cat_by_id (pg_category p) (pg_space p) Pages path =
        category_step (find_category d) (pg_category p) (pg_space p) Pages path" for path
    proof (cases "pg_category p")
      case None
      then show ?thesis by (simp add: category_step_def)
    next
      case (Some j)
      then have "j \<in> C" using cand by (force simp: C_def set_map_filter)
      obtain c where c: "find_category d j = Some c" using content_ok_find(4) [OF ok p(1) Some] by blast
      then have "cat_by_id j = Some c"
        using \<open>j \<in> C\<close> find_id(2) [OF c] find_filter_key [OF content_okD(2) [OF ok], of j "\<lambda>c. c_id c \<in> C"]
        by (simp add: cat_by_id_def find_category_def)
      with c Some show ?thesis by (simp add: category_step_def)
    qed
    have cat_err: "is_bad_request e" if "category_step (find_category d) c sp r path = Inl e" for c sp r path e
      using that by (auto simp: category_step_def split: option.splits if_splits)
    have chain: "(\<exists>path. page_chain d (pg_id p) (Some (pg_id p)) [] None None [] =
          Inr (path, pg_category p, Some (pg_space p)) \<and> batch_chain by_id p p [] [] = Inr path) \<or>
        (\<exists>e e'. page_chain d (pg_id p) (Some (pg_id p)) [] None None [] = Inl e \<and>
          batch_chain by_id p p [] [] = Inl e' \<and> is_bad_request e \<and> is_bad_request e')"
      by (rule chains_agree [OF ok lookup S find_own_row(3) [OF ok p(1)]]) simp
    from chain show "row_agrees (page_hierarchy d) (pg_id p) (f p)"
    proof
      assume "\<exists>path. page_chain d (pg_id p) (Some (pg_id p)) [] None None [] =
        Inr (path, pg_category p, Some (pg_space p)) \<and> batch_chain by_id p p [] [] = Inr path"
      then obtain path where path: "page_chain d (pg_id p) (Some (pg_id p)) [] None None [] =
        Inr (path, pg_category p, Some (pg_space p))" "batch_chain by_id p p [] [] = Inr path" by blast
      show ?thesis
      proof (cases "category_step (find_category d) (pg_category p) (pg_space p) Pages path")
        case (Inl e)
        then show ?thesis using path cat_err [OF Inl]
          by (simp add: row_agrees_def page_hierarchy_def f_def cat)
      next
        case (Inr path')
        then show ?thesis using path
          by (simp add: row_agrees_def page_hierarchy_def f_def cat space s)
      qed
    next
      assume "\<exists>e e'. page_chain d (pg_id p) (Some (pg_id p)) [] None None [] = Inl e \<and>
        batch_chain by_id p p [] [] = Inl e' \<and> is_bad_request e \<and> is_bad_request e'"
      then show ?thesis by (auto simp: row_agrees_def page_hierarchy_def f_def)
    qed
  next
    fix i assume "i \<notin> pg_id ` set (t_pages d)"
    then show "\<exists>e. page_hierarchy d i = Inl e \<and> is_not_found e"
      by (simp add: page_hierarchy_def page_chain.simps find_page_def find_of_no_key)
  qed
  then show ?thesis by (simp add: eq candidates_def)
qed

text \<open>The service keeps the law for every kind of target.\<close>

lemma resolve_hierarchy_kind:
  "resolve_hierarchy d Space = space_hierarchy d"
  "resolve_hierarchy d Category = category_hierarchy d"
  "resolve_hierarchy d Page = page_hierarchy d"
  "resolve_hierarchy d Note = note_hierarchy d"
  "resolve_hierarchy d Standard = standard_hierarchy d"
  by (rule ext, simp)+

lemma resolve_hierarchies_agree:
  assumes "content_ok d"
  shows "batch_agrees (resolve_hierarchy d ty) ids (resolve_hierarchies d ty ids)"
proof (cases "uniq ids = []")
  case True
  then have "ids = []" using set_uniq [of ids] by simp
  then show ?thesis by (simp add: resolve_hierarchies_def batch_agrees_def uniq_def)
next
  case False
  have "batch_agrees (resolve_hierarchy d ty) (uniq ids) (resolve_hierarchies d ty ids)"
    using False space_batch [OF assms] category_batch [OF assms] page_batch [OF assms]
      note_batch [OF assms] standard_batch [OF assms]
    by (cases ty) (simp_all add: resolve_hierarchies_def resolve_hierarchy_kind)
  then show ?thesis by (simp only: batch_agrees_def set_uniq)
qed

interpretation targets: target_resolver content_ok "\<lambda>d. resolve_hierarchy d ty"
    "\<lambda>d. resolve_hierarchies d ty" for ty
  by unfold_locales (rule resolve_hierarchies_agree)

section \<open>The path\<close>

text \<open>A chain of pages in which each is the parent of its predecessor and the last has none.\<close>

fun linked :: "page_row list \<Rightarrow> bool" where
  "linked [] = False"
| "linked [p] = (pg_parent p = None)"
| "linked (p # q # ps) = (pg_parent p = Some (pg_id q) \<and> linked (q # ps))"

definition page_path :: "db \<Rightarrow> ident \<Rightarrow> page_row list \<Rightarrow> bool" where
  "page_path d i ps \<longleftrightarrow>
     linked ps \<and> pg_id (hd ps) = i \<and> distinct (map pg_id ps) \<and> length ps \<le> 100 \<and>
     (\<forall>p \<in> set ps. find_page d (pg_id p) = Some p \<and>
        pg_space p = pg_space (hd ps) \<and> pg_category p = pg_category (hd ps))"

lemma linked_Cons:
  "linked (p # ps) \<longleftrightarrow>
    (case pg_parent p of None \<Rightarrow> ps = [] | Some q \<Rightarrow> linked ps \<and> pg_id (hd ps) = q)"
  by (cases ps) (auto split: option.splits)

lemma linked_not_Nil: "linked ps \<Longrightarrow> ps \<noteq> []"
  by auto

lemma page_chain_iff:
  assumes "visited \<noteq> []"
  shows "page_chain d start (Some c) visited cat (Some sp) path = Inr r \<longleftrightarrow>
    (\<exists>ps. linked ps \<and> pg_id (hd ps) = c \<and> distinct (map pg_id ps) \<and>
       pg_id ` set ps \<inter> set visited = {} \<and> length ps + length visited \<le> 100 \<and>
       (\<forall>p \<in> set ps. find_page d (pg_id p) = Some p \<and> pg_space p = sp \<and> pg_category p = cat) \<and>
       r = (path @ map page_target ps, cat, Some sp))" (is "_ \<longleftrightarrow> (\<exists>ps. ?chain c visited path ps)")
  using assms
proof (induction "100 - length visited" arbitrary: c visited path rule: less_induct)
  case less
  let ?run = "page_chain d start (Some c) visited cat (Some sp) path"
  show ?case
  proof (cases "c \<in> set visited \<or> 100 \<le> length visited \<or> find_page d c = None \<or>
      pg_space (the (find_page d c)) \<noteq> sp \<or> pg_category (the (find_page d c)) \<noteq> cat")
    case True
    then have "\<not> ?chain c visited path ps" for ps
      by (cases ps) (auto simp: Suc_le_eq)
    moreover have "?run \<noteq> Inr r" using True less.prems
      by (auto simp: page_chain.simps split: option.splits)
    ultimately show ?thesis by blast
  next
    case False
    then obtain p where p: "find_page d c = Some p" "pg_space p = sp" "pg_category p = cat"
      and fresh: "c \<notin> set visited" "length visited < 100" by auto
    have id: "pg_id p = c" using p(1) find_id(3) by blast
    have step: "?run = page_chain d start (pg_parent p) (c # visited) cat (Some sp) (path @ [page_target p])"
      using p fresh by (subst page_chain.simps(2)) (auto split: option.splits)
    have first: "?chain c visited path ps \<longleftrightarrow> (\<exists>qs. ps = p # qs \<and>
        (case pg_parent p of None \<Rightarrow> qs = [] \<and> r = (path @ [page_target p], cat, Some sp)
         | Some q \<Rightarrow> ?chain q (c # visited) (path @ [page_target p]) qs))" for ps
    proof (cases ps)
      case Nil
      then show ?thesis by simp
    next
      case (Cons p' qs)
      then show ?thesis using p id fresh
        by (cases "pg_parent p"; cases "p' = p") (auto simp: linked_Cons split: option.splits)
    qed
    show ?thesis
    proof (cases "pg_parent p")
      case None
      then show ?thesis unfolding step first by (auto simp: page_chain.simps(1))
    next
      case (Some q)
      have "100 - length (c # visited) < 100 - length visited" using fresh by simp
      from less.hyps [OF this, of q "path @ [page_target p]"] Some show ?thesis
        unfolding step first by simp
    qed
  qed
qed

lemma page_chain_start:
  "page_chain d i (Some i) [] None None [] = Inr (path, cat, sp) \<longleftrightarrow>
    (\<exists>ps. page_path d i ps \<and> path = map page_target ps \<and> cat = pg_category (hd ps) \<and>
       sp = Some (pg_space (hd ps)))"
proof (cases "find_page d i")
  case None
  have "\<not> page_path d i ps" for ps
    using None by (cases ps) (auto simp: page_path_def)
  with None show ?thesis by (simp add: page_chain.simps(2))
next
  case (Some p)
  have id: "pg_id p = i" using Some find_id(3) by blast
  have step: "page_chain d i (Some i) [] None None [] =
      page_chain d i (pg_parent p) [i] (pg_category p) (Some (pg_space p)) [page_target p]"
    using Some by (subst page_chain.simps(2)) (auto split: option.splits)
  have first: "page_path d i ps \<longleftrightarrow> (\<exists>qs. ps = p # qs \<and>
      (case pg_parent p of None \<Rightarrow> qs = []
       | Some q \<Rightarrow> linked qs \<and> pg_id (hd qs) = q \<and> distinct (map pg_id qs) \<and>
          pg_id ` set qs \<inter> set [i] = {} \<and> length qs + length [i] \<le> 100 \<and>
          (\<forall>x \<in> set qs. find_page d (pg_id x) = Some x \<and> pg_space x = pg_space p \<and>
             pg_category x = pg_category p)))" for ps
  proof (cases ps)
    case Nil
    then show ?thesis by (simp add: page_path_def)
  next
    case (Cons p' qs)
    then show ?thesis using Some id
      by (cases "pg_parent p"; cases "p' = p") (auto simp: page_path_def linked_Cons split: option.splits)
  qed
  show ?thesis
  proof (cases "pg_parent p")
    case None
    then show ?thesis by (auto simp: step page_chain.simps(1) first)
  next
    case Some': (Some q)
    show ?thesis unfolding step first Some' by (auto simp: page_chain_iff)
  qed
qed

lemma hierarchy_head:
  assumes "content_ok d" and "resolve_hierarchy d ty i = Inr h"
  shows "resolve d ty i = Inr (hd (hr_path h))" and "hr_path h \<noteq> []"
proof -
  have step: "category_step f cat sp r path = Inr path' \<Longrightarrow> path \<noteq> [] \<Longrightarrow>
      hd path' = hd path \<and> path' \<noteq> []" for f cat sp r path path'
    by (auto simp: category_step_def split: option.splits if_splits)
  have "resolve d ty i = Inr (hd (hr_path h)) \<and> hr_path h \<noteq> []"
  proof (cases ty)
    case Space
    with assms(2) show ?thesis by (auto simp: space_hierarchy_def result_simps in_space_def)
  next
    case Category
    with assms(2) show ?thesis
      by (auto simp: category_hierarchy_def category_hierarchy_of_def result_simps in_space_def)
  next
    case Page
    with assms(2) obtain path cat sp path' s where r:
      "page_chain d i (Some i) [] None None [] = Inr (path, cat, Some sp)"
      "category_step (find_category d) cat sp Pages path = Inr path'" "h = in_space path' s"
      by (auto simp: page_hierarchy_def result_simps split: option.splits)
    from r(1) obtain ps where ps: "page_path d i ps" "path = map page_target ps"
      unfolding page_chain_start by blast
    then have "ps \<noteq> []" "find_page d i = Some (hd ps)" by (cases ps; auto simp: page_path_def)+
    with r(2,3) ps(2) step [OF r(2)] Page show ?thesis
      by (auto simp: in_space_def hd_map)
  next
    case Note
    with assms(2) obtain n where n: "find_note d i = Some n" by (auto simp: note_hierarchy_def result_simps)
    show ?thesis
    proof (cases "n_space n")
      case None
      with assms(2) n Note show ?thesis by (auto simp: note_hierarchy_def personal_hierarchy_def)
    next
      case (Some si)
      with assms(2) n Note obtain path s where
        "category_step (find_category d) (n_category n) si Notes [note_target n] = Inr path"
        "h = in_space path s" by (auto simp: note_hierarchy_def result_simps)
      with step [of _ _ _ _ "[note_target n]" path] n Note show ?thesis
        by (auto simp: in_space_def)
    qed
  next
    case Standard
    with assms(2) obtain x path s where "find_standard d i = Some x"
      "category_step (find_category d) (st_category x) (st_space x) Standards [standard_target x] = Inr path"
      "h = in_space path s" by (auto simp: standard_hierarchy_def result_simps)
    with step [of _ _ _ _ "[standard_target x]" path] Standard show ?thesis
      by (auto simp: in_space_def)
  qed
  then show "resolve d ty i = Inr (hd (hr_path h))" "hr_path h \<noteq> []" by auto
qed

section \<open>Properties\<close>

text \<open>
  The path of a page: a page resolves exactly when its chain of parent folders ends without a
  cycle after at most 100 pages, all of one space and one category, the category (if any) lies in
  this space, and the space exists; the path is then these pages from the page upwards, the
  category, the space.
\<close>

theorem page_hierarchy_spec:
  "page_hierarchy d i = Inr h \<longleftrightarrow>
    (\<exists>ps s path. page_path d i ps \<and> find_space d (pg_space (hd ps)) = Some s \<and> h = in_space path s \<and>
       (case pg_category (hd ps) of
          None \<Rightarrow> path = map page_target ps
        | Some j \<Rightarrow> \<exists>c. find_category d j = Some c \<and> c_space c = pg_space (hd ps) \<and>
            path = map page_target ps @ [category_target c Pages]))"
proof
  assume "page_hierarchy d i = Inr h"
  then obtain path cat sp path' s where r:
    "page_chain d i (Some i) [] None None [] = Inr (path, cat, Some sp)"
    "category_step (find_category d) cat sp Pages path = Inr path'"
    "find_space d sp = Some s" "h = in_space path' s"
    by (auto simp: page_hierarchy_def result_simps split: option.splits)
  from r(1) obtain ps where "page_path d i ps" "path = map page_target ps" "cat = pg_category (hd ps)"
    "sp = pg_space (hd ps)" unfolding page_chain_start by blast
  with r show "\<exists>ps s path. page_path d i ps \<and> find_space d (pg_space (hd ps)) = Some s \<and> h = in_space path s \<and>
       (case pg_category (hd ps) of
          None \<Rightarrow> path = map page_target ps
        | Some j \<Rightarrow> \<exists>c. find_category d j = Some c \<and> c_space c = pg_space (hd ps) \<and>
            path = map page_target ps @ [category_target c Pages])"
    by (intro exI [of _ ps] exI [of _ s] exI [of _ path'])
      (auto simp: category_step_def split: option.splits if_splits)
next
  assume "\<exists>ps s path. page_path d i ps \<and> find_space d (pg_space (hd ps)) = Some s \<and> h = in_space path s \<and>
       (case pg_category (hd ps) of
          None \<Rightarrow> path = map page_target ps
        | Some j \<Rightarrow> \<exists>c. find_category d j = Some c \<and> c_space c = pg_space (hd ps) \<and>
            path = map page_target ps @ [category_target c Pages])"
  then obtain ps s path where r: "page_path d i ps" "find_space d (pg_space (hd ps)) = Some s"
    "h = in_space path s" and cat: "case pg_category (hd ps) of
          None \<Rightarrow> path = map page_target ps
        | Some j \<Rightarrow> \<exists>c. find_category d j = Some c \<and> c_space c = pg_space (hd ps) \<and>
            path = map page_target ps @ [category_target c Pages]" by blast
  from r(1) have "page_chain d i (Some i) [] None None [] =
      Inr (map page_target ps, pg_category (hd ps), Some (pg_space (hd ps)))"
    unfolding page_chain_start by blast
  with r cat show "page_hierarchy d i = Inr h"
    by (auto simp: page_hierarchy_def category_step_def split: option.splits)
qed

text \<open>
  Resolving many targets at once agrees with resolving each: when the batch returns, an id is
  in its map exactly when it was asked for and resolves by itself, with the same path, visibility
  and note data, and every other id asked for does not exist; when the batch throws, it is a
  \<open>BadRequest\<close> and one of the ids is malformed by itself.
\<close>

theorem batch_resolution_agrees:
  assumes "content_ok d"
  shows "case resolve_hierarchies d ty ids of
      Inr m \<Rightarrow> (\<forall>i h. map_of m i = Some h \<longleftrightarrow> i \<in> set ids \<and> resolve_hierarchy d ty i = Inr h) \<and>
        (\<forall>i. i \<in> set ids \<and> map_of m i = None \<longrightarrow>
          (\<exists>e. resolve_hierarchy d ty i = Inl e \<and> is_not_found e))
    | Inl e \<Rightarrow> is_bad_request e \<and>
        (\<exists>i \<in> set ids. \<exists>e'. resolve_hierarchy d ty i = Inl e' \<and> is_bad_request e')"
proof (cases "resolve_hierarchies d ty ids")
  case (Inl e)
  then show ?thesis using targets.many_throws [OF assms Inl] by simp
next
  case (Inr m)
  then show ?thesis using targets.many_lookup [OF assms Inr] targets.many_missing [OF assms Inr] by simp
qed

theorem batch_resolution_agrees_witness:
  "\<exists>m h. resolve_hierarchies sample_db Page [''p3'', ''nope''] = Inr m \<and> map_of m ''p3'' = Some h \<and>
     length (hr_path h) = 5"
proof -
  obtain h where h: "resolve_hierarchy sample_db Page ''p3'' = Inr h" "length (hr_path h) = 5"
    by (simp add: page_hierarchy_def page_chain.simps find_defs sample_defs category_step_def in_space_def)
  have bad: "\<not> (\<exists>i \<in> set [''p3'', ''nope'']. \<exists>e'. resolve_hierarchy sample_db Page i = Inl e' \<and> is_bad_request e')"
  proof -
    have "resolve_hierarchy sample_db Page ''nope'' = Inl (NotFound ''page'')"
      by (simp add: page_hierarchy_def page_chain.simps find_defs sample_defs)
    with h(1) show ?thesis by (auto simp del: resolve_hierarchy.simps)
  qed
  from batch_resolution_agrees [OF sample_db_ok(3), of "[''p3'', ''nope'']" Page] bad h
  show ?thesis
    by (cases "resolve_hierarchies sample_db Page [''p3'', ''nope'']")
      (auto simp del: resolve_hierarchy.simps)
qed

end
