(* ===== verification/Access.thy ===== *)
theory Access
  imports Targets Authz
begin

text \<open>
  \<^verbatim>\<open>apps/api/src/modules/resource-acls/resource-access.service.ts\<close>: the decision whether a user may
  act on a target. The global right is a ceiling; below it the nearest rule on the path from the
  target to its space decides (users before groups, group denials before group permissions), a
  boundary stops inheritance, and the visibility of the space is the default. Personal notes know
  only their owner and their shares.
\<close>

section \<open>Decisions\<close>

datatype location = Direct | Inherited
datatype recipient = User_Rule | Group_Rule

datatype access_reason =
    Global_Denied
  | Rule location recipient effect
  | Boundary_Open | Boundary_Restricted
  | Space_Open | Space_Restricted
  | Personal_Owner | Personal_Share | Personal_Denied

record target_ref =
  rf_type :: target_type
  rf_id :: ident
  rf_label :: string

record decision =
  dc_allowed :: bool
  dc_reason :: access_reason
  dc_global :: bool
  dc_rule :: "ident option"
  dc_source :: "target option"
  dc_path :: "target_ref list"
  dc_groups :: "ident list"

definition target_ref_of :: "target \<Rightarrow> target_ref" where
  "target_ref_of t = \<lparr>rf_type = tg_type t, rf_id = tg_id t, rf_label = tg_label t\<rparr>"

definition make_decision ::
    "bool \<Rightarrow> access_reason \<Rightarrow> bool \<Rightarrow> ident option \<Rightarrow> target option \<Rightarrow> target list \<Rightarrow> ident list \<Rightarrow>
     decision" where
  "make_decision allowed reason global rule source path groups =
     \<lparr>dc_allowed = allowed, dc_reason = reason, dc_global = global, dc_rule = rule,
      dc_source = source, dc_path = map target_ref_of path, dc_groups = groups\<rparr>"

definition rule_reason :: "nat \<Rightarrow> recipient \<Rightarrow> bool \<Rightarrow> access_reason" where
  "rule_reason index recipient allowed =
     Rule (if index = 0 then Direct else Inherited) recipient (if allowed then ALLOW else DENY)"

definition visibility_decision ::
    "hierarchy \<Rightarrow> target option \<Rightarrow> ident list \<Rightarrow> bool \<Rightarrow> decision" where
  "visibility_decision h boundary_target groups boundary =
     (let allowed = (hr_visibility h = Some OPEN);
          reason = (if boundary then (if allowed then Boundary_Open else Boundary_Restricted)
                    else (if allowed then Space_Open else Space_Restricted));
          space_target = List.find (\<lambda>t. tg_type t = Space) (hr_path h)
      in make_decision allowed reason True None
           (case boundary_target of None \<Rightarrow> space_target | Some t \<Rightarrow> Some t) (hr_path h) groups)"

section \<open>The evaluation of a path\<close>

text \<open>
  The loop over the path, written out twice in the source (for one target and for a loaded batch)
  with the same body.
\<close>

fun walk ::
    "ident \<Rightarrow> ident list \<Rightarrow> entry_row list \<Rightarrow> string list \<Rightarrow> hierarchy \<Rightarrow> nat \<Rightarrow> target list \<Rightarrow> decision" where
  "walk uid groups entries boundaries h index [] = visibility_decision h None groups False"
| "walk uid groups entries boundaries h index (t # ts) =
     (let applicable = filter (\<lambda>e. e_target_key e = tg_key t \<and> (index = 0 \<or> e_inherit e)) entries in
      case List.find (\<lambda>e. e_user e = Some uid) applicable of
        Some e \<Rightarrow>
          make_decision (e_effect e = ALLOW) (rule_reason index User_Rule (e_effect e = ALLOW)) True
            (Some (e_id e)) (Some t) (hr_path h) groups
      | None \<Rightarrow>
          (let group_entries = filter (\<lambda>e. \<exists>g \<in> set groups. e_group e = Some g) applicable;
               group_rule = (case List.find (\<lambda>e. e_effect e = DENY) group_entries of
                   Some e \<Rightarrow> Some e
                 | None \<Rightarrow> (case group_entries of [] \<Rightarrow> None | e # _ \<Rightarrow> Some e))
           in case group_rule of
                Some e \<Rightarrow>
                  make_decision (e_effect e = ALLOW) (rule_reason index Group_Rule (e_effect e = ALLOW))
                    True (Some (e_id e)) (Some t) (hr_path h) groups
              | None \<Rightarrow>
                  if tg_key t \<in> set boundaries then visibility_decision h (Some t) groups True
                  else walk uid groups entries boundaries h (index + 1) ts))"

definition evaluate_personal_note :: "ident \<Rightarrow> action \<Rightarrow> hierarchy \<Rightarrow> decision result" where
  "evaluate_personal_note uid a h =
     (case hr_personal h of
        None \<Rightarrow> Inl (Internal ''personal note data'')
      | Some p \<Rightarrow>
          if pn_owner p = uid
          then Inr (make_decision True Personal_Owner True None (Some (hd (hr_path h))) (hr_path h) [])
          else
            let share = List.find (\<lambda>s. fst s = uid) (pn_shares p);
                shared_action = (a = Read \<or> (a = Update \<and> map_option snd share = Some EDIT))
            in if share \<noteq> None \<and> shared_action
               then Inr (make_decision True Personal_Share True None (Some (hd (hr_path h))) (hr_path h) [])
               else Inr (make_decision False Personal_Denied True None (Some (hd (hr_path h))) (hr_path h) []))"

definition evaluate_loaded_hierarchy ::
    "ident \<Rightarrow> action \<Rightarrow> hierarchy \<Rightarrow> ident list \<Rightarrow> entry_row list \<Rightarrow> string list \<Rightarrow> decision result" where
  "evaluate_loaded_hierarchy uid a h groups entries boundaries =
     (if hr_personal h \<noteq> None then evaluate_personal_note uid a h
      else Inr (walk uid groups entries boundaries h 0 (hr_path h)))"

section \<open>What is loaded\<close>

definition group_ids :: "db \<Rightarrow> ident \<Rightarrow> ident list" where
  "group_ids d uid = sort (map m_group (filter (\<lambda>m. m_user m = uid) (t_memberships d)))"

definition load_entries :: "db \<Rightarrow> ident \<Rightarrow> ident list \<Rightarrow> action \<Rightarrow> string list \<Rightarrow> entry_row list" where
  "load_entries d uid groups a keys =
     filter (\<lambda>e. e_action e = action_name a \<and> e_target_key e \<in> set keys \<and>
         (e_user e = Some uid \<or> (groups \<noteq> [] \<and> (\<exists>g \<in> set groups. e_group e = Some g))))
       (t_entries d)"

definition load_boundaries :: "db \<Rightarrow> action \<Rightarrow> string list \<Rightarrow> string list" where
  "load_boundaries d a keys =
     map b_target_key
       (filter (\<lambda>b. b_action b = action_name a \<and> b_target_key b \<in> set keys) (t_boundaries d))"

section \<open>The operations\<close>

definition global_denied :: decision where
  "global_denied = make_decision False Global_Denied False None None [] []"

definition check_target :: "hierarchy \<Rightarrow> resource \<Rightarrow> action \<Rightarrow> unit result" where
  "check_target h r a =
     rbind (assert_resource_matches (hd (hr_path h)) r) (\<lambda>_.
       assert_action_supported (hd (hr_path h)) a)"

definition evaluate ::
    "db \<Rightarrow> auth_user \<Rightarrow> resource \<Rightarrow> action \<Rightarrow> target_type \<Rightarrow> ident \<Rightarrow> decision result" where
  "evaluate d actor r a ty i =
     rbind (rguard (is_permission_supported r a) (BadRequest ''unsupported'')) (\<lambda>_.
     if \<not> is_allowed d actor r a then Inr global_denied
     else
       rbind (resolve_hierarchy d ty i) (\<lambda>h.
       rbind (check_target h r a) (\<lambda>_.
       if hr_personal h \<noteq> None then evaluate_personal_note (au_id actor) a h
       else
         let groups = group_ids d (au_id actor);
             keys = map tg_key (hr_path h);
             entries = load_entries d (au_id actor) groups a keys;
             boundaries = load_boundaries d a keys
         in Inr (walk (au_id actor) groups entries boundaries h 0 (hr_path h)))))"

definition evaluate_many ::
    "db \<Rightarrow> auth_user \<Rightarrow> resource \<Rightarrow> action \<Rightarrow> target_type \<Rightarrow> ident list \<Rightarrow>
     (ident \<times> decision) list result" where
  "evaluate_many d actor r a ty ids =
     (let unique_ids = uniq ids in
      rbind (rguard (is_permission_supported r a) (BadRequest ''unsupported'')) (\<lambda>_.
      if unique_ids = [] then Inr []
      else if \<not> is_allowed d actor r a then Inr (map (\<lambda>i. (i, global_denied)) unique_ids)
      else
        rbind (resolve_hierarchies d ty unique_ids) (\<lambda>hs.
        rbind (rmap (\<lambda>(i, h). check_target h r a) hs) (\<lambda>_.
        let groups = group_ids d (au_id actor);
            keys = uniq (concat (map (\<lambda>(i, h). map tg_key (hr_path h)) hs));
            entries = load_entries d (au_id actor) groups a keys;
            boundaries = load_boundaries d a keys
        in rmap (\<lambda>(i, h).
             rbind (evaluate_loaded_hierarchy (au_id actor) a h groups entries boundaries)
               (\<lambda>dc. Inr (i, dc))) hs))))"

definition allowed_target_ids ::
    "db \<Rightarrow> auth_user \<Rightarrow> resource \<Rightarrow> action \<Rightarrow> target_type \<Rightarrow> ident list \<Rightarrow> ident list result" where
  "allowed_target_ids d actor r a ty ids =
     rbind (evaluate_many d actor r a ty ids) (\<lambda>m.
     Inr (filter (\<lambda>i. map_option dc_allowed (map_of m i) = Some True) ids))"

definition assert_allowed ::
    "db \<Rightarrow> auth_user \<Rightarrow> resource \<Rightarrow> action \<Rightarrow> target_type \<Rightarrow> ident \<Rightarrow> decision result" where
  "assert_allowed d actor r a ty i =
     rbind (evaluate d actor r a ty i) (\<lambda>dc.
     if \<not> dc_allowed dc then Inl (NotFound ''content'') else Inr dc)"

text \<open>The administrators' preview for another user (an absent \<open>hasLocalPassword\<close> is \<open>False\<close>).\<close>

definition preview_user :: "user_row \<Rightarrow> role_row \<Rightarrow> auth_user" where
  "preview_user u role =
     \<lparr>au_id = u_id u, au_email = u_email u, au_username = u_username u,
      au_display_name = u_display_name u, au_role_id = u_role u, au_role = r_name role,
      au_active = u_active u, au_local_password = False, au_protected = u_protected u,
      au_method = Some Jwt, au_api_key = None, au_key_permissions = None\<rparr>"

definition evaluate_for_user ::
    "db \<Rightarrow> ident \<Rightarrow> resource \<Rightarrow> action \<Rightarrow> target_type \<Rightarrow> ident \<Rightarrow> decision result" where
  "evaluate_for_user d uid r a ty i =
     (case find_user d uid of
        None \<Rightarrow> Inl (NotFound ''active user'')
      | Some u \<Rightarrow>
          if \<not> u_active u then Inl (NotFound ''active user'')
          else rbind (or_throw (Internal ''user.role'') (find_role d (u_role u))) (\<lambda>role.
            evaluate d (preview_user u role) r a ty i))"

section \<open>The walk depends on the rules of the path only\<close>

lemma walk_cong:
  assumes "\<And>t. t \<in> set ts \<Longrightarrow>
      filter (\<lambda>e. e_target_key e = tg_key t) es = filter (\<lambda>e. e_target_key e = tg_key t) es'"
    and "\<And>t. t \<in> set ts \<Longrightarrow> tg_key t \<in> set bs \<longleftrightarrow> tg_key t \<in> set bs'"
  shows "walk uid groups es bs h index ts = walk uid groups es' bs' h index ts"
  using assms
proof (induction ts arbitrary: index)
  case Nil
  then show ?case by simp
next
  case (Cons t ts)
  have "filter (\<lambda>e. e_target_key e = tg_key t \<and> (index = 0 \<or> e_inherit e)) xs =
      filter (\<lambda>e. index = 0 \<or> e_inherit e) (filter (\<lambda>e. e_target_key e = tg_key t) xs)" for xs
    by (simp add: conj_commute)
  moreover have "filter (\<lambda>e. e_target_key e = tg_key t) es = filter (\<lambda>e. e_target_key e = tg_key t) es'"
    using Cons.prems(1) by simp
  ultimately have "filter (\<lambda>e. e_target_key e = tg_key t \<and> (index = 0 \<or> e_inherit e)) es =
      filter (\<lambda>e. e_target_key e = tg_key t \<and> (index = 0 \<or> e_inherit e)) es'" by metis
  moreover have "walk uid groups es bs h (index + 1) ts = walk uid groups es' bs' h (index + 1) ts"
    using Cons by simp
  moreover have "tg_key t \<in> set bs \<longleftrightarrow> tg_key t \<in> set bs'" using Cons.prems(2) by simp
  ultimately show ?case by (simp only: walk.simps)
qed

lemma load_entries_at:
  assumes "k \<in> set keys"
  shows "filter (\<lambda>e. e_target_key e = k) (load_entries d uid groups a keys) =
    filter (\<lambda>e. e_target_key e = k \<and> e_action e = action_name a \<and>
      (e_user e = Some uid \<or> (\<exists>g \<in> set groups. e_group e = Some g))) (t_entries d)"
  using assms unfolding load_entries_def filter_filter
  by (intro filter_cong) (auto split: if_splits)

lemma load_boundaries_at:
  assumes "k \<in> set keys"
  shows "k \<in> set (load_boundaries d a keys) \<longleftrightarrow>
    (\<exists>b \<in> set (t_boundaries d). b_action b = action_name a \<and> b_target_key b = k)"
  using assms by (auto simp: load_boundaries_def)

lemma walk_load:
  assumes "tg_key ` set ts \<subseteq> set keys" and "tg_key ` set ts \<subseteq> set keys'"
  shows "walk uid groups (load_entries d uid groups a keys) (load_boundaries d a keys) h index ts =
    walk uid groups (load_entries d uid groups a keys') (load_boundaries d a keys') h index ts"
  using assms
  by (intro walk_cong) (simp_all add: image_subset_iff load_entries_at load_boundaries_at)

section \<open>One target and many\<close>

text \<open>The decision below the global ceiling, once the hierarchy is known.\<close>

definition decide :: "db \<Rightarrow> ident \<Rightarrow> action \<Rightarrow> hierarchy \<Rightarrow> decision result" where
  "decide d uid a h =
     evaluate_loaded_hierarchy uid a h (group_ids d uid)
       (load_entries d uid (group_ids d uid) a (map tg_key (hr_path h)))
       (load_boundaries d a (map tg_key (hr_path h)))"

lemma evaluate_decide:
  "evaluate d actor r a ty i =
    (if \<not> is_permission_supported r a then Inl (BadRequest ''unsupported'')
     else if \<not> is_allowed d actor r a then Inr global_denied
     else rbind (resolve_hierarchy d ty i) (\<lambda>h.
       rbind (check_target h r a) (\<lambda>_. decide d (au_id actor) a h)))"
  by (simp add: evaluate_def rguard_def decide_def evaluate_loaded_hierarchy_def Let_def
      cong: if_cong)

lemma evaluate_loaded_decide:
  assumes "tg_key ` set (hr_path h) \<subseteq> set keys"
  shows "evaluate_loaded_hierarchy uid a h (group_ids d uid)
      (load_entries d uid (group_ids d uid) a keys) (load_boundaries d a keys) = decide d uid a h"
  unfolding decide_def evaluate_loaded_hierarchy_def
  using walk_load [OF assms, of "map tg_key (hr_path h)"] by simp

lemma decide_Inr: "\<exists>dc. decide d uid a h = Inr dc"
  by (auto simp: decide_def evaluate_loaded_hierarchy_def evaluate_personal_note_def Let_def
      split: option.splits)

lemma rmap_map: "(\<And>x. x \<in> set xs \<Longrightarrow> f x = Inr (g x)) \<Longrightarrow> rmap f xs = Inr (map g xs)"
  by (induction xs) auto

lemma check_target_error: "check_target h r a = Inl e \<Longrightarrow> is_bad_request e"
  by (auto simp: check_target_def assert_resource_matches_def assert_action_supported_def
      result_simps)

lemma map_of_map_snd: "map_of (map (\<lambda>(k, v). (k, g v)) m) i = map_option g (map_of m i)"
  by (induction m) auto

text \<open>The batch evaluation in terms of the hierarchies it resolved.\<close>

lemma evaluate_many_resolved:
  assumes "is_permission_supported r a" and "is_allowed d actor r a" and "uniq ids \<noteq> []"
    and hs: "resolve_hierarchies d ty (uniq ids) = Inr hs"
  shows "evaluate_many d actor r a ty ids =
    rbind (rmap (\<lambda>(i, h). check_target h r a) hs) (\<lambda>_.
      Inr (map (\<lambda>(i, h). (i, projr (decide d (au_id actor) a h))) hs))"
proof -
  let ?uid = "au_id actor"
  let ?keys = "uniq (concat (map (\<lambda>(i, h). map tg_key (hr_path h)) hs))"
  have "rmap (\<lambda>(i, h). rbind (evaluate_loaded_hierarchy ?uid a h (group_ids d ?uid)
          (load_entries d ?uid (group_ids d ?uid) a ?keys) (load_boundaries d a ?keys))
        (\<lambda>dc. Inr (i, dc))) hs =
      Inr (map (\<lambda>(i, h). (i, projr (decide d ?uid a h))) hs)"
  proof (rule rmap_map)
    fix x assume x: "x \<in> set hs"
    obtain i h where ih: "x = (i, h)" by (cases x)
    have "tg_key ` set (hr_path h) \<subseteq> set ?keys" using x ih by force
    from evaluate_loaded_decide [OF this] decide_Inr [of d ?uid a h]
    show "(\<lambda>(i, h). rbind (evaluate_loaded_hierarchy ?uid a h (group_ids d ?uid)
          (load_entries d ?uid (group_ids d ?uid) a ?keys) (load_boundaries d a ?keys))
        (\<lambda>dc. Inr (i, dc))) x = Inr ((\<lambda>(i, h). (i, projr (decide d ?uid a h))) x)"
      by (auto simp: ih)
  qed
  then show ?thesis using assms by (simp add: evaluate_many_def Let_def rguard_def)
qed

definition many_agrees ::
    "db \<Rightarrow> auth_user \<Rightarrow> resource \<Rightarrow> action \<Rightarrow> target_type \<Rightarrow> ident list \<Rightarrow>
     (ident \<times> decision) list result \<Rightarrow> bool" where
  "many_agrees d actor r a ty ids res =
     (case res of
        Inr m \<Rightarrow> (\<forall>i dc. map_of m i = Some dc \<longleftrightarrow> i \<in> set ids \<and> evaluate d actor r a ty i = Inr dc) \<and>
          (\<forall>i. i \<in> set ids \<and> map_of m i = None \<longrightarrow>
             (\<exists>e. evaluate d actor r a ty i = Inl e \<and> is_not_found e))
      | Inl e \<Rightarrow> is_bad_request e \<and> (is_permission_supported r a \<longrightarrow>
          (\<exists>i \<in> set ids. \<exists>e'. evaluate d actor r a ty i = Inl e' \<and> is_bad_request e')))"

lemma evaluate_many_agrees_resolved:
  assumes ok: "content_ok d"
    and g: "is_permission_supported r a" "is_allowed d actor r a" "uniq ids \<noteq> []"
  shows "many_agrees d actor r a ty ids (evaluate_many d actor r a ty ids)"
proof (cases "resolve_hierarchies d ty (uniq ids)")
  case (Inl e)
  then have "evaluate_many d actor r a ty ids = Inl e"
    using g by (simp add: evaluate_many_def Let_def rguard_def)
  moreover obtain i e' where i: "i \<in> set ids" "resolve_hierarchy d ty i = Inl e'" "is_bad_request e'"
    using targets.many_throws(2) [OF ok Inl] by auto
  then have "evaluate d actor r a ty i = Inl e'" using g by (simp add: evaluate_decide)
  ultimately show ?thesis using i targets.many_throws(1) [OF ok Inl]
    by (auto simp: many_agrees_def)
next
  case (Inr hs)
  note many = evaluate_many_resolved [OF g Inr]
  have lookup: "map_of hs i = Some h \<longleftrightarrow> i \<in> set ids \<and> resolve_hierarchy d ty i = Inr h" for i h
    using targets.many_lookup [OF ok Inr] by simp
  have member: "(i, h) \<in> set hs \<longleftrightarrow> i \<in> set ids \<and> resolve_hierarchy d ty i = Inr h" for i h
    using targets.many_member [OF ok Inr] by simp
  show ?thesis
  proof (cases "rmap (\<lambda>(i, h). check_target h r a) hs")
    case (Inl e)
    then obtain i h where ih: "(i, h) \<in> set hs" "check_target h r a = Inl e"
      using rmap_eq_Inl [OF Inl] by auto
    then have "evaluate d actor r a ty i = Inl e" "i \<in> set ids"
      using member g by (simp_all add: evaluate_decide)
    with Inl many check_target_error [OF ih(2)] show ?thesis
      by (auto simp: many_agrees_def)
  next
    case (Inr us)
    have checked: "check_target h r a = Inr ()" if "(i, h) \<in> set hs" for i h
      using rmap_Inr_elem [OF Inr that] by auto
    have eval: "evaluate d actor r a ty i = Inr (projr (decide d (au_id actor) a h))"
      if "(i, h) \<in> set hs" for i h
      using checked [OF that] member [of i h] that g decide_Inr [of d "au_id actor" a h]
      by (auto simp: evaluate_decide)
    let ?m = "map (\<lambda>(i, h). (i, projr (decide d (au_id actor) a h))) hs"
    have run: "evaluate_many d actor r a ty ids = Inr ?m" using many Inr by simp
    have m: "map_of ?m i = map_option (\<lambda>h. projr (decide d (au_id actor) a h)) (map_of hs i)" for i
      by (rule map_of_map_snd)
    have 1: "map_of ?m i = Some dc \<longleftrightarrow> i \<in> set ids \<and> evaluate d actor r a ty i = Inr dc" for i dc
    proof (cases "map_of hs i")
      case (Some h)
      then have "(i, h) \<in> set hs" "i \<in> set ids" using lookup by (auto dest: map_of_SomeD)
      with eval Some m show ?thesis by auto
    next
      case None
      then have "resolve_hierarchy d ty i \<noteq> Inr h" if "i \<in> set ids" for h
        using lookup [of i h] that by simp
      then have "i \<in> set ids \<Longrightarrow> evaluate d actor r a ty i \<noteq> Inr dc"
        using g by (auto simp: evaluate_decide result_simps)
      with None m show ?thesis by auto
    qed
    have 2: "\<exists>e. evaluate d actor r a ty i = Inl e \<and> is_not_found e"
      if i: "i \<in> set ids" and none: "map_of ?m i = None" for i
    proof -
      have "map_of hs i = None" using none m by simp
      then obtain e where "resolve_hierarchy d ty i = Inl e" "is_not_found e"
        using targets.many_missing [OF ok \<open>resolve_hierarchies d ty (uniq ids) = Inr hs\<close>] i by auto
      with g show ?thesis by (simp add: evaluate_decide)
    qed
    from 1 2 run show ?thesis by (simp add: many_agrees_def)
  qed
qed

lemma map_of_const: "map_of (map (\<lambda>i. (i, c)) xs) i = (if i \<in> set xs then Some c else None)"
  by (induction xs) auto

lemma evaluate_many_agrees_all:
  assumes "content_ok d"
  shows "many_agrees d actor r a ty ids (evaluate_many d actor r a ty ids)"
proof (cases "is_permission_supported r a \<and> uniq ids \<noteq> [] \<and> is_allowed d actor r a")
  case True
  then show ?thesis using evaluate_many_agrees_resolved [OF assms] by blast
next
  case False
  have nil: "uniq ids = [] \<longleftrightarrow> ids = []" using set_uniq [of ids] by (metis set_empty)
  with False show ?thesis
    by (auto simp: many_agrees_def evaluate_many_def evaluate_decide Let_def rguard_def
        map_of_const)
qed

section \<open>The nearest rule decides\<close>

text \<open>
  The specification of the evaluation, on sets of rules: what a level of the path says, and the
  first level that says something. It mentions no order of rows.
\<close>

definition user_rules :: "db \<Rightarrow> ident \<Rightarrow> action \<Rightarrow> bool \<Rightarrow> string \<Rightarrow> entry_row set" where
  "user_rules d uid a direct key =
     {e \<in> set (t_entries d). e_action e = action_name a \<and> e_target_key e = key \<and>
        (direct \<or> e_inherit e) \<and> e_user e = Some uid}"

definition group_rules :: "db \<Rightarrow> ident \<Rightarrow> action \<Rightarrow> bool \<Rightarrow> string \<Rightarrow> entry_row set" where
  "group_rules d uid a direct key =
     {e \<in> set (t_entries d). e_action e = action_name a \<and> e_target_key e = key \<and>
        (direct \<or> e_inherit e) \<and>
        (\<exists>m \<in> set (t_memberships d). m_user m = uid \<and> e_group e = Some (m_group m))}"

definition has_boundary :: "db \<Rightarrow> action \<Rightarrow> string \<Rightarrow> bool" where
  "has_boundary d a key \<longleftrightarrow>
     (\<exists>b \<in> set (t_boundaries d). b_action b = action_name a \<and> b_target_key b = key)"

definition level_verdict :: "db \<Rightarrow> ident \<Rightarrow> action \<Rightarrow> bool \<Rightarrow> bool \<Rightarrow> string \<Rightarrow> bool option" where
  "level_verdict d uid a open_space direct key =
     (if user_rules d uid a direct key \<noteq> {}
      then Some (\<forall>e \<in> user_rules d uid a direct key. e_effect e = ALLOW)
      else if group_rules d uid a direct key \<noteq> {}
      then Some (\<forall>e \<in> group_rules d uid a direct key. e_effect e = ALLOW)
      else if has_boundary d a key then Some open_space
      else None)"

fun path_verdict :: "db \<Rightarrow> ident \<Rightarrow> action \<Rightarrow> bool \<Rightarrow> bool \<Rightarrow> string list \<Rightarrow> bool" where
  "path_verdict d uid a open_space direct [] = open_space"
| "path_verdict d uid a open_space direct (k # ks) =
     (case level_verdict d uid a open_space direct k of
        Some v \<Rightarrow> v
      | None \<Rightarrow> path_verdict d uid a open_space False ks)"

text \<open>At most one rule per recipient, target and action (the unique index of the table).\<close>

definition entries_unique :: "db \<Rightarrow> bool" where
  "entries_unique d \<longleftrightarrow>
     (\<forall>e \<in> set (t_entries d). \<forall>e' \<in> set (t_entries d).
        e_user e \<noteq> None \<and> e_user e = e_user e' \<and> e_target_key e = e_target_key e' \<and>
        e_action e = e_action e' \<longrightarrow> e = e')"

lemma set_group_ids: "set (group_ids d uid) = {m_group m | m. m \<in> set (t_memberships d) \<and> m_user m = uid}"
  by (auto simp: group_ids_def)

lemma applicable_split:
  assumes "k \<in> set keys"
  shows "set (filter (\<lambda>e. e_target_key e = k \<and> (index = 0 \<or> e_inherit e))
      (load_entries d uid (group_ids d uid) a keys)) =
    user_rules d uid a (index = 0) k \<union> group_rules d uid a (index = 0) k"
proof -
  have "set (load_entries d uid (group_ids d uid) a keys) =
      {e \<in> set (t_entries d). e_action e = action_name a \<and> e_target_key e \<in> set keys \<and>
         (e_user e = Some uid \<or> (\<exists>g \<in> set (group_ids d uid). e_group e = Some g))}"
    unfolding load_entries_def set_filter by force
  then show ?thesis using assms
    by (auto simp: user_rules_def group_rules_def set_group_ids)
qed

lemma effect_not_DENY: "e_effect e \<noteq> DENY \<longleftrightarrow> e_effect e = ALLOW"
  by (cases "e_effect e") auto

lemma group_rule_verdict:
  assumes "xs \<noteq> []"
  shows "\<exists>e. (case List.find (\<lambda>e. e_effect e = DENY) xs of
        Some e \<Rightarrow> Some e | None \<Rightarrow> (case xs of [] \<Rightarrow> None | e # _ \<Rightarrow> Some e)) = Some e \<and>
    (e_effect e = ALLOW \<longleftrightarrow> (\<forall>e \<in> set xs. e_effect e = ALLOW))"
proof (cases "List.find (\<lambda>e. e_effect e = DENY) xs")
  case None
  then have "\<forall>e \<in> set xs. e_effect e = ALLOW" by (auto simp: find_None_iff effect_not_DENY)
  with None assms show ?thesis by (cases xs) auto
next
  case (Some e)
  then have "e \<in> set xs" "e_effect e = DENY" by (auto dest: find_SomeD)
  then have "\<not> (\<forall>e \<in> set xs. e_effect e = ALLOW)" by (intro notI) (drule (1) bspec, simp)
  with Some \<open>e_effect e = DENY\<close> show ?thesis by (intro exI [of _ e]) simp
qed

lemma walk_verdict:
  assumes uniq: "entries_unique d" and keys: "tg_key ` set ts \<subseteq> set keys"
  shows "dc_allowed (walk uid (group_ids d uid) (load_entries d uid (group_ids d uid) a keys)
      (load_boundaries d a keys) h index ts) =
    path_verdict d uid a (hr_visibility h = Some OPEN) (index = 0) (map tg_key ts)"
  using keys
proof (induction ts arbitrary: index)
  case Nil
  then show ?case by (simp add: visibility_decision_def make_decision_def Let_def)
next
  case (Cons t ts)
  let ?es = "load_entries d uid (group_ids d uid) a keys"
  let ?app = "filter (\<lambda>e. e_target_key e = tg_key t \<and> (index = 0 \<or> e_inherit e)) ?es"
  let ?U = "user_rules d uid a (index = 0) (tg_key t)"
  let ?G = "group_rules d uid a (index = 0) (tg_key t)"
  let ?ge = "filter (\<lambda>e. \<exists>g \<in> set (group_ids d uid). e_group e = Some g) ?app"
  let ?rule = "case List.find (\<lambda>e. e_effect e = DENY) ?ge of
        Some e \<Rightarrow> Some e | None \<Rightarrow> (case ?ge of [] \<Rightarrow> None | e # _ \<Rightarrow> Some e)"
  have app: "set ?app = ?U \<union> ?G" using Cons.prems by (intro applicable_split) simp
  have user: "e \<in> set ?app \<and> e_user e = Some uid \<longleftrightarrow> e \<in> ?U" for e
    unfolding app by (auto simp: user_rules_def group_rules_def)
  show ?case
  proof (cases "List.find (\<lambda>e. e_user e = Some uid) ?app")
    case (Some e)
    then have e: "e \<in> ?U" using user find_SomeD [OF Some] by blast
    have "e' = e" if u: "e' \<in> ?U" for e'
    proof -
      have "e' \<in> set (t_entries d)" "e \<in> set (t_entries d)" "e_user e' \<noteq> None" "e_user e' = e_user e"
        "e_target_key e' = e_target_key e" "e_action e' = e_action e"
        using e u by (simp_all add: user_rules_def)
      with uniq show ?thesis unfolding entries_unique_def by blast
    qed
    then have all: "(\<forall>e \<in> ?U. e_effect e = ALLOW) \<longleftrightarrow> e_effect e = ALLOW" using e by blast
    have "?U \<noteq> {}" using e by blast
    then have spec: "level_verdict d uid a (hr_visibility h = Some OPEN) (index = 0) (tg_key t) =
        Some (e_effect e = ALLOW)"
      unfolding level_verdict_def all by simp
    have "walk uid (group_ids d uid) ?es (load_boundaries d a keys) h index (t # ts) =
        make_decision (e_effect e = ALLOW) (rule_reason index User_Rule (e_effect e = ALLOW))
          True (Some (e_id e)) (Some t) (hr_path h) (group_ids d uid)"
      unfolding walk.simps Let_def Some option.case by (rule refl)
    then show ?thesis by (simp add: spec make_decision_def)
  next
    case None
    then have U: "?U = {}" using user unfolding find_None_iff by blast
    have ge: "set ?ge = ?G"
      using app U by (auto simp: group_rules_def set_group_ids)
    show ?thesis
    proof (cases "?ge = []")
      case False
      have "?G \<noteq> {}" unfolding ge [symmetric] set_empty using False .
      obtain e where e: "?rule = Some e" "e_effect e = ALLOW \<longleftrightarrow> (\<forall>e \<in> set ?ge. e_effect e = ALLOW)"
        using group_rule_verdict [OF False] by blast
      have "walk uid (group_ids d uid) ?es (load_boundaries d a keys) h index (t # ts) =
          make_decision (e_effect e = ALLOW) (rule_reason index Group_Rule (e_effect e = ALLOW))
                    True (Some (e_id e)) (Some t) (hr_path h) (group_ids d uid)"
        unfolding walk.simps Let_def None e(1) option.case by (rule refl)
      then show ?thesis using U \<open>?G \<noteq> {}\<close> e(2) unfolding ge
        by (simp add: level_verdict_def make_decision_def)
    next
      case True
      have G: "?G = {}" unfolding ge [symmetric] set_empty using True .
      have step: "walk uid (group_ids d uid) ?es (load_boundaries d a keys) h index (t # ts) =
          (if tg_key t \<in> set (load_boundaries d a keys) then visibility_decision h (Some t) (group_ids d uid) True
           else walk uid (group_ids d uid) ?es (load_boundaries d a keys) h (index + 1) ts)"
        unfolding walk.simps Let_def None option.case True by simp
      have "tg_key t \<in> set (load_boundaries d a keys) \<longleftrightarrow> has_boundary d a (tg_key t)"
        using Cons.prems by (simp add: load_boundaries_at has_boundary_def)
      then show ?thesis unfolding step using U G Cons
        by (simp add: level_verdict_def visibility_decision_def make_decision_def Let_def)
    qed
  qed
qed

lemma decide_verdict:
  assumes "entries_unique d" and "decide d uid a h = Inr dc" and "hr_personal h = None"
  shows "dc_allowed dc =
    path_verdict d uid a (hr_visibility h = Some OPEN) True (map tg_key (hr_path h))"
proof -
  have "dc = walk uid (group_ids d uid)
       (load_entries d uid (group_ids d uid) a (map tg_key (hr_path h)))
       (load_boundaries d a (map tg_key (hr_path h))) h 0 (hr_path h)"
    using assms(2,3) by (simp add: decide_def evaluate_loaded_hierarchy_def)
  then show ?thesis using walk_verdict [OF assms(1), of "hr_path h" "map tg_key (hr_path h)" uid a h 0]
    by simp
qed

section \<open>Boundaries\<close>

lemma walk_boundary:
  assumes "tg_key b \<in> set bs"
    and "\<And>t. t \<in> set (below @ [b]) \<Longrightarrow>
      filter (\<lambda>e. e_target_key e = tg_key t) es = filter (\<lambda>e. e_target_key e = tg_key t) es'"
  shows "walk uid groups es bs h index (below @ b # upper) =
    walk uid groups es' bs h index (below @ b # upper)"
  using assms(2)
proof (induction below arbitrary: index)
  case Nil
  have app: "filter (\<lambda>e. e_target_key e = tg_key b \<and> q e) xs =
      filter q (filter (\<lambda>e. e_target_key e = tg_key b) xs)" for q xs
    by (simp add: conj_commute)
  have "filter (\<lambda>e. e_target_key e = tg_key b \<and> q e) es =
      filter (\<lambda>e. e_target_key e = tg_key b \<and> q e) es'" for q
    unfolding app using Nil.prems [of b] by simp
  with assms(1) show ?case by (simp only: append_Nil walk.simps if_True)
next
  case (Cons t below)
  have app: "filter (\<lambda>e. e_target_key e = tg_key t \<and> q e) xs =
      filter q (filter (\<lambda>e. e_target_key e = tg_key t) xs)" for q xs
    by (simp add: conj_commute)
  have "filter (\<lambda>e. e_target_key e = tg_key t \<and> q e) es =
      filter (\<lambda>e. e_target_key e = tg_key t \<and> q e) es'" for q
    unfolding app using Cons.prems [of t] by simp
  moreover have "walk uid groups es bs h (index + 1) (below @ b # upper) =
      walk uid groups es' bs h (index + 1) (below @ b # upper)"
    by (rule Cons.IH) (rule Cons.prems, simp)
  ultimately show ?case by (simp only: append_Cons walk.simps)
qed

lemma page_chain_entries:
  "page_chain (d\<lparr>t_entries := es\<rparr>) start c visited cat sp path = page_chain d start c visited cat sp path"
proof (induction d start c visited cat sp path rule: page_chain.induct)
  case (1 d start visited cat sp path)
  show ?case by (simp add: page_chain.simps(1))
next
  case (2 d start c visited cat sp path)
  have f: "find_page (d\<lparr>t_entries := es\<rparr>) c = find_page d c" by (simp add: find_page_def)
  show ?case
  proof (cases "(c \<in> set visited \<or> 100 \<le> length visited) \<or> find_page d c = None")
    case True
    then show ?thesis by (auto simp: page_chain.simps(2) f)
  next
    case False
    then obtain p where p: "find_page d c = Some p" by blast
    show ?thesis
    proof (cases "(sp \<noteq> None \<and> sp \<noteq> Some (pg_space p)) \<or> (1 < length (c # visited) \<and> pg_category p \<noteq> cat)")
      case True
      then show ?thesis using False p by (auto simp: page_chain.simps(2) f)
    next
      case ok: False
      have g: "\<not> (c \<in> set visited \<or> 100 \<le> length visited)" "\<not> (sp \<noteq> None \<and> sp \<noteq> Some (pg_space p))"
        "\<not> (1 < length (c # visited) \<and> pg_category p \<noteq> cat)" using ok False by blast+
      show ?thesis
        unfolding page_chain.simps(2) f p option.case if_not_P [OF g(1)] if_not_P [OF g(2)] if_not_P [OF g(3)]
        by (rule 2(1) [OF g(1) p g(2,3)])
    qed
  qed
qed

lemma resolve_hierarchy_entries:
  "resolve_hierarchy (d\<lparr>t_entries := es\<rparr>) ty i = resolve_hierarchy d ty i"
proof -
  have f: "find_space (d\<lparr>t_entries := es\<rparr>) = find_space d" "find_category (d\<lparr>t_entries := es\<rparr>) = find_category d"
    "find_note (d\<lparr>t_entries := es\<rparr>) = find_note d" "find_standard (d\<lparr>t_entries := es\<rparr>) = find_standard d"
    by (rule ext, simp add: find_defs)+
  have p: "personal_hierarchy (d\<lparr>t_entries := es\<rparr>) = personal_hierarchy d"
    by (rule ext) (simp add: personal_hierarchy_def shares_of_def)
  show ?thesis
    by (cases ty) (simp_all only: resolve_hierarchy.simps space_hierarchy_def category_hierarchy_def
      category_hierarchy_of_def [abs_def] page_hierarchy_def note_hierarchy_def standard_hierarchy_def
      f p page_chain_entries)
qed

lemma is_allowed_entries: "is_allowed (d\<lparr>t_entries := es\<rparr>) u r a = is_allowed d u r a"
proof -
  have "override_of (d\<lparr>t_entries := es\<rparr>) = override_of d" "role_acl_of (d\<lparr>t_entries := es\<rparr>) = role_acl_of d"
    by (intro ext, simp add: override_of_def role_acl_of_def)+
  then show ?thesis by (simp only: is_allowed_unfold stored_permission_def)
qed

section \<open>Properties\<close>

text \<open>
  C1: The access decision is what the specification on sets of rules says: a user may act on a
  shared target exactly when the global right holds and the first level of the path (target,
  parent pages, category, space) that says something permits: the user's own rule there, else all
  of the rules of the user's groups there, else at a boundary the visibility of the space; with no
  such level the visibility decides. Rules on ancestors count only when inherited. The order in
  which the database returns rules and memberships has no influence.
\<close>

theorem access_decision_spec:
  assumes "entries_unique d" and "resolve_hierarchy d ty i = Inr h" and "hr_personal h = None"
    and "evaluate d actor r a ty i = Inr dc"
  shows "dc_allowed dc \<longleftrightarrow> is_allowed d actor r a \<and>
    path_verdict d (au_id actor) a (hr_visibility h = Some OPEN) True (map tg_key (hr_path h))"
proof (cases "is_allowed d actor r a")
  case False
  with assms(4) have "dc = global_denied" by (auto simp: evaluate_decide split: if_splits)
  with False show ?thesis by (simp add: global_denied_def make_decision_def)
next
  case True
  with assms(2,4) have "decide d (au_id actor) a h = Inr dc"
    by (auto simp: evaluate_decide result_simps split: if_splits)
  from decide_verdict [OF assms(1) this assms(3)] True show ?thesis by simp
qed

definition sample_entry_row :: "ident \<Rightarrow> ident option \<Rightarrow> ident option \<Rightarrow> target_type \<Rightarrow> ident \<Rightarrow> effect \<Rightarrow> entry_row" where
  "sample_entry_row i u g ty t eff =
     \<lparr>e_id = i, e_recipient_key = i, e_target_key = target_key ty t, e_action = ''read'',
      e_effect = eff, e_inherit = True, e_user = u, e_group = g,
      e_target = \<lparr>ti_space = None, ti_category = None, ti_page = None, ti_note = None, ti_standard = None\<rparr>\<rparr>"

text \<open>\<open>rob\<close> is denied the folder \<open>p2\<close>, so also the page \<open>p3\<close> below it.\<close>

definition sample_access :: db where
  "sample_access = sample_db
     \<lparr>t_entries := [sample_entry_row ''e1'' (Some ''rob'') None Page ''p2'' DENY]\<rparr>"

abbreviation sample_rob :: auth_user where
  "sample_rob \<equiv> to_authenticated_user (sample_user ''rob'' ''rd'' False)
       \<lparr>r_id = ''rd'', r_name = ''reader'', r_description = None, r_system = False\<rparr>"

definition sample_p3_hierarchy :: hierarchy where
  "sample_p3_hierarchy = in_space [page_target (sample_page ''p3'' (Some ''p2'')),
     page_target (sample_page ''p2'' (Some ''p1'')), page_target (sample_page ''p1'' None),
     category_target sample_category Pages] sample_space"

lemma sample_access_facts:
  "entries_unique sample_access" "content_ok sample_access"
  "resolve_hierarchy sample_access Page ''p3'' = Inr sample_p3_hierarchy"
  "is_allowed sample_access sample_rob Pages Read"
proof -
  show "entries_unique sample_access" by (simp add: entries_unique_def sample_access_def)
  show "content_ok sample_access" using sample_db_ok(3) by (simp add: content_ok_def sample_access_def)
  have "resolve_hierarchy sample_db Page ''p3'' = Inr sample_p3_hierarchy"
    by (simp add: page_hierarchy_def page_chain.simps find_defs sample_defs category_step_def
        sample_p3_hierarchy_def)
  then show "resolve_hierarchy sample_access Page ''p3'' = Inr sample_p3_hierarchy"
    unfolding sample_access_def resolve_hierarchy_entries .
  have "is_allowed sample_db sample_rob Pages Read"
    by (simp add: is_allowed_of_user override_of_def role_acl_of_def sample_defs)
  then show "is_allowed sample_access sample_rob Pages Read"
    unfolding sample_access_def is_allowed_entries .
qed

lemma sample_check: "check_target sample_p3_hierarchy Pages Read = Inr ()"
  by (simp add: check_target_def sample_p3_hierarchy_def in_space_def page_target_def make_target_def
      assert_resource_matches_def assert_action_supported_def rguard_def uniq_def)

lemma sample_evaluates: "\<exists>dc. evaluate sample_access sample_rob Pages Read Page ''p3'' = Inr dc"
  using sample_access_facts(3,4) sample_check decide_Inr [of sample_access "au_id sample_rob" Read sample_p3_hierarchy]
  by (simp add: evaluate_decide is_permission_supported_def del: resolve_hierarchy.simps)

theorem access_decision_spec_witness:
  "\<exists>dc. evaluate sample_access sample_rob Pages Read Page ''p3'' = Inr dc \<and> \<not> dc_allowed dc"
proof -
  obtain dc where run: "evaluate sample_access sample_rob Pages Read Page ''p3'' = Inr dc"
    using sample_evaluates by blast
  have "hr_personal sample_p3_hierarchy = None" by (simp add: sample_p3_hierarchy_def in_space_def)
  note spec = access_decision_spec [OF sample_access_facts(1,3) this run]
  have "\<not> path_verdict sample_access ''rob'' Read True True (map tg_key (hr_path sample_p3_hierarchy))"
    by (simp add: sample_p3_hierarchy_def in_space_def page_target_def make_target_def level_verdict_def
        user_rules_def group_rules_def has_boundary_def sample_access_def sample_entry_row_def
        target_key_def sample_defs)
  then have "\<not> dc_allowed dc"
    using spec by (simp add: sample_p3_hierarchy_def in_space_def to_authenticated_user_def sample_user_def sample_space_def)
  with run show ?thesis by blast
qed

text \<open>
  C2: Evaluating many targets with a constant number of queries agrees with evaluating each:
  when the batch returns, its map holds exactly the ids that evaluate by themselves, with the
  same decision in every field (reason, deciding rule, path, groups), and every other id does not
  exist; when it throws, it is a \<open>BadRequest\<close>, caused by an unsupported right or by an id whose
  own evaluation is one.
\<close>

theorem evaluate_many_agrees:
  assumes "content_ok d"
  shows "case evaluate_many d actor r a ty ids of
      Inr m \<Rightarrow> (\<forall>i dc. map_of m i = Some dc \<longleftrightarrow> i \<in> set ids \<and> evaluate d actor r a ty i = Inr dc) \<and>
        (\<forall>i. i \<in> set ids \<and> map_of m i = None \<longrightarrow>
           (\<exists>e. evaluate d actor r a ty i = Inl e \<and> is_not_found e))
    | Inl e \<Rightarrow> is_bad_request e \<and> (is_permission_supported r a \<longrightarrow>
        (\<exists>i \<in> set ids. \<exists>e'. evaluate d actor r a ty i = Inl e' \<and> is_bad_request e'))"
  using evaluate_many_agrees_all [OF assms] unfolding many_agrees_def .

theorem evaluate_many_agrees_witness:
  "\<exists>m dc. evaluate_many sample_access sample_rob Pages Read Page [''p3'', ''p3''] = Inr m \<and>
     map_of m ''p3'' = Some dc \<and> evaluate sample_access sample_rob Pages Read Page ''p3'' = Inr dc"
proof -
  obtain dc where run: "evaluate sample_access sample_rob Pages Read Page ''p3'' = Inr dc"
    using sample_evaluates by blast
  have "is_permission_supported Pages Read" by (simp add: is_permission_supported_def)
  with evaluate_many_agrees [OF sample_access_facts(2), where actor = sample_rob and r = Pages and a = Read and ty = Page and ids = "[''p3'', ''p3'']"] run
  show ?thesis
    by (cases "evaluate_many sample_access sample_rob Pages Read Page [''p3'', ''p3'']") auto
qed

text \<open>
  The filter behind lists and search keeps exactly the ids the user may act on, in the order
  and multiplicity asked for: no denied target is listed, no allowed one is missing.
\<close>

theorem allowed_target_ids_exact:
  assumes "content_ok d" and "allowed_target_ids d actor r a ty ids = Inr out"
  shows "out = filter (\<lambda>i. \<exists>dc. assert_allowed d actor r a ty i = Inr dc) ids"
proof -
  obtain m where m: "evaluate_many d actor r a ty ids = Inr m"
    and out: "out = filter (\<lambda>i. map_option dc_allowed (map_of m i) = Some True) ids"
    using assms(2) by (auto simp: allowed_target_ids_def result_simps)
  have many: "map_of m i = Some dc \<longleftrightarrow> i \<in> set ids \<and> evaluate d actor r a ty i = Inr dc" for i dc
    using evaluate_many_agrees_all [OF assms(1), where actor = actor and r = r and a = a and ty = ty and ids = ids] m by (simp add: many_agrees_def)
  show ?thesis unfolding out
  proof (rule filter_cong)
    fix i assume i: "i \<in> set ids"
    have "map_option dc_allowed (map_of m i) = Some True \<longleftrightarrow>
        (\<exists>dc. evaluate d actor r a ty i = Inr dc \<and> dc_allowed dc)"
      using many [of i] i by auto
    then show "map_option dc_allowed (map_of m i) = Some True \<longleftrightarrow>
        (\<exists>dc. assert_allowed d actor r a ty i = Inr dc)"
      by (auto simp: assert_allowed_def result_simps)
  qed simp
qed

theorem allowed_target_ids_exact_witness:
  "\<exists>out. allowed_target_ids sample_access sample_rob Pages Read Page [''p3''] = Inr out \<and>
     out = filter (\<lambda>i. \<exists>dc. assert_allowed sample_access sample_rob Pages Read Page i = Inr dc) [''p3'']"
proof -
  obtain dc where run: "evaluate sample_access sample_rob Pages Read Page ''p3'' = Inr dc"
    using sample_evaluates by blast
  have "is_permission_supported Pages Read" by (simp add: is_permission_supported_def)
  with evaluate_many_agrees_all [OF sample_access_facts(2), where actor = sample_rob and r = Pages and a = Read and ty = Page and ids = "[''p3'']"] run
  obtain m where "evaluate_many sample_access sample_rob Pages Read Page [''p3''] = Inr m"
    by (cases "evaluate_many sample_access sample_rob Pages Read Page [''p3'']") (auto simp: many_agrees_def)
  then obtain out where "allowed_target_ids sample_access sample_rob Pages Read Page [''p3''] = Inr out"
    by (simp add: allowed_target_ids_def)
  with allowed_target_ids_exact [OF sample_access_facts(2) this] show ?thesis by blast
qed

text \<open>
  The global right is a ceiling: whatever rules, boundaries, shares and visibilities say,
  an allowed decision means that the actor holds the catalogued global right (through an API key
  also within the key's limit) and that the target exists and is of a kind the resource names.
  Without the global right the answer is the same for every id, existing or not.
\<close>

theorem global_right_is_ceiling:
  assumes "content_ok d"
  shows "((\<exists>dc. evaluate d actor r a ty i = Inr dc \<and> dc_allowed dc) \<longrightarrow>
      is_permission_supported r a \<and> is_allowed d actor r a \<and>
      (\<exists>t. resolve d ty i = Inr t \<and> r \<in> set (tg_resources t))) \<and>
    (is_permission_supported r a \<and> \<not> is_allowed d actor r a \<longrightarrow>
      evaluate d actor r a ty i = Inr global_denied)"
proof
  show "(\<exists>dc. evaluate d actor r a ty i = Inr dc \<and> dc_allowed dc) \<longrightarrow>
      is_permission_supported r a \<and> is_allowed d actor r a \<and>
      (\<exists>t. resolve d ty i = Inr t \<and> r \<in> set (tg_resources t))"
  proof
    assume "\<exists>dc. evaluate d actor r a ty i = Inr dc \<and> dc_allowed dc"
    then obtain h where supp: "is_permission_supported r a" "is_allowed d actor r a"
      and h: "resolve_hierarchy d ty i = Inr h" "check_target h r a = Inr ()"
      by (auto simp: evaluate_decide result_simps global_denied_def make_decision_def split: if_splits)
    with hierarchy_head(1) [OF assms h(1)]
    show "is_permission_supported r a \<and> is_allowed d actor r a \<and>
        (\<exists>t. resolve d ty i = Inr t \<and> r \<in> set (tg_resources t))"
      by (auto simp: check_target_def assert_resource_matches_def result_simps)
  qed
  show "is_permission_supported r a \<and> \<not> is_allowed d actor r a \<longrightarrow>
      evaluate d actor r a ty i = Inr global_denied"
    by (simp add: evaluate_decide)
qed

theorem global_right_is_ceiling_witness:
  "evaluate sample_access sample_rob Pages Update Page ''nope'' = Inr global_denied"
proof -
  have "\<not> is_allowed sample_access sample_rob Pages Update"
    by (simp add: is_allowed_of_user override_of_def role_acl_of_def sample_access_def sample_defs)
  moreover have "is_permission_supported Pages Update" by (simp add: is_permission_supported_def)
  ultimately show ?thesis
    using global_right_is_ceiling [OF sample_access_facts(2), where i = "''nope''" and ty = Page] by blast
qed

text \<open>
  A boundary cuts inheritance: whatever rules exist for targets above the boundary (parent
  pages, category, space), the decision below is the same in every field.
\<close>

theorem boundary_cuts_inheritance:
  assumes "resolve_hierarchy d ty i = Inr h" and "hr_path h = below @ b # upper"
    and "has_boundary d a (tg_key b)"
    and "\<And>t. t \<in> set (below @ [b]) \<Longrightarrow>
      filter (\<lambda>e. e_target_key e = tg_key t) es = filter (\<lambda>e. e_target_key e = tg_key t) (t_entries d)"
  shows "evaluate (d\<lparr>t_entries := es\<rparr>) actor r a ty i = evaluate d actor r a ty i"
proof -
  let ?d = "d\<lparr>t_entries := es\<rparr>"
  let ?keys = "map tg_key (hr_path h)"
  have groups: "group_ids ?d uid = group_ids d uid" for uid by (simp add: group_ids_def)
  have bs: "load_boundaries ?d a ?keys = load_boundaries d a ?keys" by (simp add: load_boundaries_def)
  have "walk uid g (load_entries ?d uid g a ?keys) (load_boundaries d a ?keys) h 0 (hr_path h) =
      walk uid g (load_entries d uid g a ?keys) (load_boundaries d a ?keys) h 0 (hr_path h)" for uid g
    unfolding assms(2)
  proof (rule walk_boundary)
    have "tg_key b \<in> set ?keys" using assms(2) by simp
    then show "tg_key b \<in> set (load_boundaries d a (map tg_key (below @ b # upper)))"
      using assms(3) unfolding assms(2) by (simp only: load_boundaries_at has_boundary_def)
    fix t assume t: "t \<in> set (below @ [b])"
    have load: "filter (\<lambda>e. e_target_key e = tg_key t) (load_entries d' uid g a ks) =
        filter (\<lambda>e. e_action e = action_name a \<and> e_target_key e \<in> set ks \<and>
         (e_user e = Some uid \<or> (g \<noteq> [] \<and> (\<exists>x \<in> set g. e_group e = Some x))))
        (filter (\<lambda>e. e_target_key e = tg_key t) (t_entries d'))" for d' ks
      by (simp add: load_entries_def conj_ac)
    show "filter (\<lambda>e. e_target_key e = tg_key t) (load_entries ?d uid g a (map tg_key (below @ b # upper))) =
        filter (\<lambda>e. e_target_key e = tg_key t) (load_entries d uid g a (map tg_key (below @ b # upper)))"
      unfolding load using assms(4) [OF t] by simp
  qed
  then have "decide ?d uid a h = decide d uid a h" for uid
    by (simp add: decide_def evaluate_loaded_hierarchy_def groups bs)
  then show ?thesis
    using assms(1) by (simp add: evaluate_decide is_allowed_entries resolve_hierarchy_entries)
qed

theorem boundary_cuts_inheritance_witness:
  "evaluate (sample_access\<lparr>t_boundaries := [\<lparr>b_id = ''b'', b_target_key = ''page:p3'', b_action = ''read'',
       b_target = \<lparr>ti_space = None, ti_category = None, ti_page = None, ti_note = None, ti_standard = None\<rparr>\<rparr>],
       t_entries := []\<rparr>) sample_rob Pages Read Page ''p3'' =
   evaluate (sample_access\<lparr>t_boundaries := [\<lparr>b_id = ''b'', b_target_key = ''page:p3'', b_action = ''read'',
       b_target = \<lparr>ti_space = None, ti_category = None, ti_page = None, ti_note = None, ti_standard = None\<rparr>\<rparr>]\<rparr>)
     sample_rob Pages Read Page ''p3''"
  (is "evaluate (?d\<lparr>t_entries := []\<rparr>) _ _ _ _ _ = _")
proof -
  have h: "resolve_hierarchy ?d Page ''p3'' = Inr sample_p3_hierarchy"
    by (simp add: page_hierarchy_def page_chain.simps find_defs sample_defs category_step_def
        sample_p3_hierarchy_def sample_access_def)
  have path: "hr_path sample_p3_hierarchy = [] @ page_target (sample_page ''p3'' (Some ''p2'')) #
      tl (hr_path sample_p3_hierarchy)"
    by (simp add: sample_p3_hierarchy_def in_space_def)
  show ?thesis
    by (rule boundary_cuts_inheritance [OF h path])
      (simp_all add: has_boundary_def page_target_def make_target_def target_key_def sample_page_def
        sample_access_def sample_entry_row_def)
qed

text \<open>
  Personal notes (without a space) know only their owner and their shares: besides the global
  right, the owner may do everything, a share permits reading, a share with edit permission also
  updating, and nothing else; no ACL rule, group or boundary matters.
\<close>

theorem personal_note_access:
  assumes n: "find_note d i = Some n" "n_space n = None"
    and shares: "distinct (map sh_user (filter (\<lambda>x. sh_note x = i) (t_note_shares d)))"
    and run: "evaluate d actor Notes a Note i = Inr dc"
  shows "dc_allowed dc \<longleftrightarrow> is_allowed d actor Notes a \<and>
    (n_owner n = au_id actor \<or>
     (\<exists>x \<in> set (t_note_shares d). sh_note x = i \<and> sh_user x = au_id actor \<and>
        (a = Read \<or> a = Update \<and> sh_permission x = EDIT)))"
proof (cases "is_allowed d actor Notes a")
  case False
  with run show ?thesis by (auto simp: evaluate_decide global_denied_def make_decision_def split: if_splits)
next
  case True
  have "n_id n = i" using n(1) by (auto simp: find_note_def dest: find_SomeD)
  let ?shares = "filter (\<lambda>x. sh_note x = i) (t_note_shares d)"
  let ?find = "List.find (\<lambda>s. fst s = au_id actor) (map (\<lambda>x. (sh_user x, sh_permission x)) ?shares)"
  have find: "?find = Some s \<longleftrightarrow> (\<exists>x \<in> set ?shares. s = (sh_user x, sh_permission x) \<and> sh_user x = au_id actor)"
    for s
  proof -
    have "distinct (map fst (map (\<lambda>x. (sh_user x, sh_permission x)) ?shares))"
      using shares by (simp add: comp_def)
    from find_key_iff [OF this, of "au_id actor" s] show ?thesis by auto
  qed
  from True run n have dc: "evaluate_personal_note (au_id actor) a (personal_hierarchy d n) = Inr dc"
    by (auto simp: evaluate_decide note_hierarchy_def result_simps decide_def evaluate_loaded_hierarchy_def
        personal_hierarchy_def split: if_splits)
  show ?thesis
  proof (cases ?find)
    case None
    then have "\<not> (\<exists>x \<in> set ?shares. sh_user x = au_id actor)" using find by auto
    with dc True None \<open>n_id n = i\<close> show ?thesis
      by (auto simp: evaluate_personal_note_def personal_hierarchy_def shares_of_def Let_def
          make_decision_def split: if_splits)
  next
    case (Some s)
    then obtain x where x: "x \<in> set ?shares" "s = (sh_user x, sh_permission x)" "sh_user x = au_id actor"
      using find by blast
    have only: "y = x" if "y \<in> set ?shares" "sh_user y = au_id actor" for y
      using unique_key_eq [OF shares that(1) x(1)] that(2) x(3) by simp
    have "(\<exists>y \<in> set (t_note_shares d). sh_note y = i \<and> sh_user y = au_id actor \<and>
        (a = Read \<or> a = Update \<and> sh_permission y = EDIT)) \<longleftrightarrow> a = Read \<or> a = Update \<and> sh_permission x = EDIT"
      (is "?L \<longleftrightarrow> ?R")
    proof
      assume ?L
      then obtain y where y: "y \<in> set ?shares" "sh_user y = au_id actor"
        "a = Read \<or> a = Update \<and> sh_permission y = EDIT" by auto
      with only [OF y(1,2)] show ?R by simp
    next
      assume ?R
      with x show ?L by auto
    qed
    moreover have "dc_allowed dc \<longleftrightarrow> n_owner n = au_id actor \<or> a = Read \<or> a = Update \<and> sh_permission x = EDIT"
      using dc Some x(2) \<open>n_id n = i\<close>
      by (simp add: evaluate_personal_note_def personal_hierarchy_def shares_of_def Let_def
          make_decision_def split: if_splits) auto
    ultimately show ?thesis using True by blast
  qed
qed

theorem personal_note_access_witness:
  "\<exists>dc. evaluate sample_db sample_rob Notes Read Note ''n1'' = Inr dc \<and> dc_allowed dc"
proof -
  let ?n = "sample_note ''n1'' ''rob'' None"
  have n: "find_note sample_db ''n1'' = Some ?n" by (simp add: find_defs sample_defs)
  have allowed: "is_allowed sample_db sample_rob Notes Read"
    by (simp add: is_allowed_of_user override_of_def sample_defs)
  have "resolve_hierarchy sample_db Note ''n1'' = Inr (personal_hierarchy sample_db ?n)"
    by (simp add: note_hierarchy_def n) (simp add: sample_note_def)
  moreover have "check_target (personal_hierarchy sample_db ?n) Notes Read = Inr ()"
    by (simp add: check_target_def personal_hierarchy_def note_target_def make_target_def uniq_def
        assert_resource_matches_def assert_action_supported_def rguard_def)
  moreover obtain dc where "decide sample_db (au_id sample_rob) Read (personal_hierarchy sample_db ?n) = Inr dc"
    using decide_Inr by blast
  ultimately have run: "evaluate sample_db sample_rob Notes Read Note ''n1'' = Inr dc"
    using allowed by (simp add: evaluate_decide is_permission_supported_def del: resolve_hierarchy.simps)
  have "dc_allowed dc"
    using personal_note_access [OF n _ _ run] allowed
    by (simp add: sample_defs to_authenticated_user_def)
  with run show ?thesis by blast
qed

end
