(* ===== verification/Resource_Acls.thy ===== *)
theory Resource_Acls
  imports Access
begin

text \<open>
  \<^verbatim>\<open>apps/api/src/modules/resource-acls/resource-acl.service.ts\<close>: administration of the rules and
  boundaries that \<open>Access\<close> evaluates. A rule belongs to a user or a group and to one target; the
  redundant columns (recipient key, target key, the nullable foreign keys) are written by this
  service only. The lists are modelled without their \<open>orderBy\<close>, which is presentation.
\<close>

section \<open>Recipients and targets of a rule\<close>

datatype recipient_type = To_User | To_Group

fun recipient_type_name :: "recipient_type \<Rightarrow> string" where
  "recipient_type_name To_User = ''user''"
| "recipient_type_name To_Group = ''group''"

definition recipient_key :: "recipient_type \<Rightarrow> ident \<Rightarrow> string" where
  "recipient_key rt i = recipient_type_name rt @ '':'' @ i"

fun recipient_ids :: "recipient_type \<Rightarrow> ident \<Rightarrow> ident option \<times> ident option" where
  "recipient_ids To_User i = (Some i, None)"
| "recipient_ids To_Group i = (None, Some i)"

definition target_ids_of :: "target_type \<Rightarrow> ident \<Rightarrow> target_ids" where
  "target_ids_of ty i =
     \<lparr>ti_space = (if ty = Space then Some i else None),
      ti_category = (if ty = Category then Some i else None),
      ti_page = (if ty = Page then Some i else None),
      ti_note = (if ty = Note then Some i else None),
      ti_standard = (if ty = Standard then Some i else None)\<rparr>"

fun assert_recipient :: "db \<Rightarrow> recipient_type \<Rightarrow> ident \<Rightarrow> unit result" where
  "assert_recipient d To_User i =
     rbind (or_throw (NotFound ''user'') (find_user d i)) (\<lambda>u.
       rguard (u_active u) (Conflict ''inactive user''))"
| "assert_recipient d To_Group i =
     rbind (or_throw (NotFound ''group'') (find_group d i)) (\<lambda>_. Inr ())"

section \<open>Views\<close>

record entry_view =
  ev_id :: ident
  ev_recipient :: "recipient_type \<times> ident \<times> string"
  ev_target :: target_ref
  ev_action :: string
  ev_effect :: effect
  ev_inherit :: bool

definition target_ref_of_ids :: "db \<Rightarrow> target_ids \<Rightarrow> target_ref result" where
  "target_ref_of_ids d t =
     (case Option.bind (ti_space t) (find_space d) of
        Some s \<Rightarrow> Inr \<lparr>rf_type = Space, rf_id = s_id s, rf_label = s_name s\<rparr>
      | None \<Rightarrow>
     (case Option.bind (ti_category t) (find_category d) of
        Some c \<Rightarrow> Inr \<lparr>rf_type = Category, rf_id = c_id c, rf_label = c_name c\<rparr>
      | None \<Rightarrow>
     (case Option.bind (ti_page t) (find_page d) of
        Some p \<Rightarrow> Inr \<lparr>rf_type = Page, rf_id = pg_id p, rf_label = pg_title p\<rparr>
      | None \<Rightarrow>
     (case Option.bind (ti_note t) (find_note d) of
        Some n \<Rightarrow> Inr \<lparr>rf_type = Note, rf_id = n_id n,
          rf_label = (case n_title n of None \<Rightarrow> ''Unbenannte Notiz'' | Some l \<Rightarrow> l)\<rparr>
      | None \<Rightarrow>
     (case Option.bind (ti_standard t) (find_standard d) of
        Some x \<Rightarrow> Inr \<lparr>rf_type = Standard, rf_id = st_id x, rf_label = st_title x\<rparr>
      | None \<Rightarrow> Inl (Internal ''ACL target''))))))"

definition to_entry :: "db \<Rightarrow> entry_row \<Rightarrow> entry_view result" where
  "to_entry d e =
     rbind (case Option.bind (e_user e) (find_user d) of
              Some u \<Rightarrow> Inr (To_User, u_id u, u_display_name u)
            | None \<Rightarrow>
                (case Option.bind (e_group e) (find_group d) of
                   Some g \<Rightarrow> Inr (To_Group, g_id g, g_name g)
                 | None \<Rightarrow> Inl (Internal ''ACL recipient''))) (\<lambda>recipient.
     rbind (target_ref_of_ids d (e_target e)) (\<lambda>t.
     Inr \<lparr>ev_id = e_id e, ev_recipient = recipient, ev_target = t, ev_action = e_action e,
          ev_effect = e_effect e, ev_inherit = e_inherit e\<rparr>))"

definition to_boundary :: "db \<Rightarrow> boundary_row \<Rightarrow> (ident \<times> target_ref \<times> string) result" where
  "to_boundary d b = rbind (target_ref_of_ids d (b_target b)) (\<lambda>t. Inr (b_id b, t, b_action b))"

section \<open>Operations\<close>

text \<open>
  A write commits first and is then presented (\<open>toEntry\<close>, \<open>toBoundary\<close>): the second component
  of what an operation returns is the answer, which may be an exception although the row is written.
\<close>

definition resolve_optional_target_key :: "db \<Rightarrow> (target_type \<times> ident) option \<Rightarrow> string option result" where
  "resolve_optional_target_key d query =
     (case query of
        None \<Rightarrow> Inr None
      | Some (ty, i) \<Rightarrow> rbind (resolve d ty i) (\<lambda>t. Inr (Some (tg_key t))))"

definition find_acl_entries :: "db \<Rightarrow> (target_type \<times> ident) option \<Rightarrow> entry_view list result" where
  "find_acl_entries d query =
     rbind (resolve_optional_target_key d query) (\<lambda>key.
       rmap (to_entry d) (filter (\<lambda>e. key = None \<or> key = Some (e_target_key e)) (t_entries d)))"

definition find_acl_boundaries ::
    "db \<Rightarrow> (target_type \<times> ident) option \<Rightarrow> (ident \<times> target_ref \<times> string) list result" where
  "find_acl_boundaries d query =
     rbind (resolve_optional_target_key d query) (\<lambda>key.
       rmap (to_boundary d) (filter (\<lambda>b. key = None \<or> key = Some (b_target_key b)) (t_boundaries d)))"

definition entry_key3 :: "entry_row \<Rightarrow> string \<times> string \<times> string" where
  "entry_key3 e = (e_recipient_key e, e_target_key e, e_action e)"

definition new_entry ::
    "ident \<Rightarrow> recipient_type \<Rightarrow> ident \<Rightarrow> target_type \<Rightarrow> ident \<Rightarrow> string \<Rightarrow> action \<Rightarrow> effect \<Rightarrow>
     bool option \<Rightarrow> entry_row" where
  "new_entry new_id rt rid ty tid key a eff inherit =
     \<lparr>e_id = new_id, e_recipient_key = recipient_key rt rid, e_target_key = key,
      e_action = action_name a, e_effect = eff,
      e_inherit = (case inherit of None \<Rightarrow> True | Some b \<Rightarrow> b),
      e_user = fst (recipient_ids rt rid), e_group = snd (recipient_ids rt rid),
      e_target = target_ids_of ty tid\<rparr>"

definition create_entry ::
    "db \<Rightarrow> ident \<Rightarrow> recipient_type \<Rightarrow> ident \<Rightarrow> target_type \<Rightarrow> ident \<Rightarrow> action \<Rightarrow> effect \<Rightarrow> bool option \<Rightarrow>
     (db \<times> entry_view result) result" where
  "create_entry d new_id rt rid ty tid a eff inherit =
     rbind (assert_recipient d rt rid) (\<lambda>_.
     rbind (resolve d ty tid) (\<lambda>target.
     rbind (assert_action_supported target a) (\<lambda>_.
     let e = new_entry new_id rt rid ty tid (tg_key target) a eff inherit
     in rbind (rguard (new_id \<notin> e_id ` set (t_entries d)) (Conflict ''existing rule'')) (\<lambda>_.
        rbind (insert_row entry_key3 (Conflict ''existing rule'') e (t_entries d)) (\<lambda>es.
        let d' = d\<lparr>t_entries := es\<rparr> in Inr (d', to_entry d' e))))))"

definition find_entry :: "db \<Rightarrow> ident \<Rightarrow> entry_row result" where
  "find_entry d i = or_throw (NotFound ''rule'') (List.find (\<lambda>e. e_id e = i) (t_entries d))"

definition update_entry ::
    "db \<Rightarrow> ident \<Rightarrow> effect option \<Rightarrow> bool option \<Rightarrow> (db \<times> entry_view result) result" where
  "update_entry d i eff inherit =
     rbind (find_entry d i) (\<lambda>e.
     let f = (\<lambda>e. e\<lparr>e_effect := (case eff of None \<Rightarrow> e_effect e | Some x \<Rightarrow> x),
                     e_inherit := (case inherit of None \<Rightarrow> e_inherit e | Some b \<Rightarrow> b)\<rparr>);
         d' = d\<lparr>t_entries := update_where (\<lambda>e. e_id e = i) f (t_entries d)\<rparr>
     in Inr (d', to_entry d' (f e)))"

definition remove_entry :: "db \<Rightarrow> ident \<Rightarrow> (db \<times> entry_view result) result" where
  "remove_entry d i =
     rbind (find_entry d i) (\<lambda>e.
     Inr (d\<lparr>t_entries := delete_where (\<lambda>e. e_id e = i) (t_entries d)\<rparr>, to_entry d e))"

type_synonym boundary_view = "ident \<times> target_ref \<times> string"

definition find_boundary :: "db \<Rightarrow> string \<Rightarrow> action \<Rightarrow> boundary_row option" where
  "find_boundary d key a =
     List.find (\<lambda>b. (b_target_key b, b_action b) = (key, action_name a)) (t_boundaries d)"

definition set_boundary ::
    "db \<Rightarrow> ident \<Rightarrow> target_type \<Rightarrow> ident \<Rightarrow> action \<Rightarrow> (db \<times> boundary_view result) result" where
  "set_boundary d new_id ty tid a =
     rbind (resolve d ty tid) (\<lambda>target.
     rbind (assert_action_supported target a) (\<lambda>_.
     case find_boundary d (tg_key target) a of
       Some b \<Rightarrow> Inr (d, to_boundary d b)
     | None \<Rightarrow>
         let b = \<lparr>b_id = new_id, b_target_key = tg_key target, b_action = action_name a,
                  b_target = target_ids_of ty tid\<rparr>
         in rbind (insert_row b_id (Internal ''P2002'') b (t_boundaries d)) (\<lambda>bs.
              Inr (d\<lparr>t_boundaries := bs\<rparr>, to_boundary d b))))"

definition remove_boundary ::
    "db \<Rightarrow> target_type \<Rightarrow> ident \<Rightarrow> action \<Rightarrow> (db \<times> boundary_view result) result" where
  "remove_boundary d ty tid a =
     rbind (resolve d ty tid) (\<lambda>target.
     rbind (assert_action_supported target a) (\<lambda>_.
     rbind (or_throw (NotFound ''boundary'') (find_boundary d (tg_key target) a)) (\<lambda>b.
     Inr (d\<lparr>t_boundaries := delete_where (\<lambda>x. b_id x = b_id b) (t_boundaries d)\<rparr>, to_boundary d b))))"

datatype acl_op =
    CreateEntry ident recipient_type ident target_type ident action effect "bool option"
  | UpdateEntry ident "effect option" "bool option"
  | RemoveEntry ident
  | SetBoundary ident target_type ident action
  | RemoveBoundary target_type ident action

definition committed :: "(db \<times> 'a) result \<Rightarrow> db result" where
  "committed m = rbind m (\<lambda>(d', _). Inr d')"

fun acl_step :: "db \<Rightarrow> acl_op \<Rightarrow> db result" where
  "acl_step d (CreateEntry i rt r ty t a eff inh) = committed (create_entry d i rt r ty t a eff inh)"
| "acl_step d (UpdateEntry i eff inh) = committed (update_entry d i eff inh)"
| "acl_step d (RemoveEntry i) = committed (remove_entry d i)"
| "acl_step d (SetBoundary i ty t a) = committed (set_boundary d i ty t a)"
| "acl_step d (RemoveBoundary ty t a) = committed (remove_boundary d ty t a)"

definition acl_run :: "db \<Rightarrow> acl_op list \<Rightarrow> db" where
  "acl_run d ops = foldl (\<lambda>d op. case acl_step d op of Inl _ \<Rightarrow> d | Inr d' \<Rightarrow> d') d ops"

section \<open>What the tables hold\<close>

text \<open>The redundant columns of a rule and of a boundary are consistent.\<close>

definition well_formed_entry :: "entry_row \<Rightarrow> bool" where
  "well_formed_entry e \<longleftrightarrow>
     (\<exists>rt rid ty tid. e_recipient_key e = recipient_key rt rid \<and> (e_user e, e_group e) = recipient_ids rt rid \<and>
        e_target_key e = target_key ty tid \<and> e_target e = target_ids_of ty tid)"

definition well_formed_boundary :: "boundary_row \<Rightarrow> bool" where
  "well_formed_boundary b \<longleftrightarrow>
     (\<exists>ty tid. b_target_key b = target_key ty tid \<and> b_target b = target_ids_of ty tid)"

definition acls_ok :: "db \<Rightarrow> bool" where
  "acls_ok d \<longleftrightarrow>
     distinct (map e_id (t_entries d)) \<and> distinct (map entry_key3 (t_entries d)) \<and>
     (\<forall>e \<in> set (t_entries d). well_formed_entry e) \<and>
     distinct (map b_id (t_boundaries d)) \<and>
     distinct (map (\<lambda>b. (b_target_key b, b_action b)) (t_boundaries d)) \<and>
     (\<forall>b \<in> set (t_boundaries d). well_formed_boundary b)"

lemma resolve_target: "resolve d ty i = Inr t \<Longrightarrow> tg_key t = target_key ty i \<and> tg_type t = ty \<and> tg_id t = i"
  by (cases ty)
    (auto simp: result_simps find_defs space_target_def category_target_def page_target_def note_target_def
      standard_target_def make_target_def dest: find_SomeD)

lemma user_recipient_key: "well_formed_entry e \<Longrightarrow> e_user e = Some u \<Longrightarrow> e_recipient_key e = recipient_key To_User u"
  unfolding well_formed_entry_def by (metis Pair_inject option.distinct(1) option.inject recipient_ids.simps recipient_type.exhaust)

lemma acls_ok_entries_unique:
  assumes "acls_ok d"
  shows "entries_unique d"
  unfolding entries_unique_def
proof (intro ballI impI)
  fix e e' assume e: "e \<in> set (t_entries d)" "e' \<in> set (t_entries d)"
    and same: "e_user e \<noteq> None \<and> e_user e = e_user e' \<and> e_target_key e = e_target_key e' \<and> e_action e = e_action e'"
  then obtain u where "e_user e = Some u" "e_user e' = Some u" by auto
  with assms e have "e_recipient_key e = e_recipient_key e'"
    using user_recipient_key unfolding acls_ok_def by metis
  with same have "entry_key3 e = entry_key3 e'" by (simp add: entry_key3_def)
  with assms e show "e = e'" using unique_key_eq [of entry_key3 "t_entries d" e e'] by (simp add: acls_ok_def)
qed

lemma create_entry_Inr:
  assumes run: "create_entry d i rt rid ty tid a eff inh = Inr (d', v)"
  defines "e \<equiv> new_entry i rt rid ty tid (target_key ty tid) a eff inh"
  shows "d' = d\<lparr>t_entries := t_entries d @ [e]\<rparr>" and "i \<notin> e_id ` set (t_entries d)"
    and "entry_key3 e \<notin> entry_key3 ` set (t_entries d)" and "v = to_entry d' e"
    and "assert_recipient d rt rid = Inr ()"
    and "\<exists>t. resolve d ty tid = Inr t \<and> assert_action_supported t a = Inr ()"
proof -
  obtain t where t: "resolve d ty tid = Inr t" "assert_action_supported t a = Inr ()"
    using run by (auto simp: create_entry_def result_simps)
  then show "\<exists>t. resolve d ty tid = Inr t \<and> assert_action_supported t a = Inr ()" by blast
  have key: "tg_key t = target_key ty tid" using resolve_target [OF t(1)] by blast
  show rec: "assert_recipient d rt rid = Inr ()"
    using run by (auto simp: create_entry_def result_simps)
  have "i \<notin> e_id ` set (t_entries d) \<and> entry_key3 e \<notin> entry_key3 ` set (t_entries d) \<and>
      d' = d\<lparr>t_entries := t_entries d @ [e]\<rparr> \<and> v = to_entry d' e"
    using run unfolding create_entry_def t(1) rec rbind.simps t(2) Let_def key e_def [symmetric]
      rbind_eq_Inr rguard_eq_Inr insert_row_eq_Inr by (auto simp: Let_def)
  then show "d' = d\<lparr>t_entries := t_entries d @ [e]\<rparr>" "i \<notin> e_id ` set (t_entries d)"
    "entry_key3 e \<notin> entry_key3 ` set (t_entries d)" "v = to_entry d' e" by blast+
qed

lemma well_formed_new_entry: "well_formed_entry (new_entry i rt rid ty tid (target_key ty tid) a eff inh)"
  unfolding well_formed_entry_def new_entry_def by (auto simp: prod_eq_iff)

lemma create_entry_ok:
  assumes ok: "acls_ok d" and run: "create_entry d i rt rid ty tid a eff inh = Inr (d', v)"
  shows "acls_ok d'"
proof -
  note e = create_entry_Inr [OF run]
  have "e_id (new_entry i rt rid ty tid (target_key ty tid) a eff inh) = i" by (simp add: new_entry_def)
  with e(2) have "e_id (new_entry i rt rid ty tid (target_key ty tid) a eff inh) \<notin> e_id ` set (t_entries d)"
    by simp
  with ok e(3) well_formed_new_entry show ?thesis unfolding e(1) by (simp add: acls_ok_def)
qed

lemma update_entry_ok:
  assumes ok: "acls_ok d" and run: "update_entry d i eff inh = Inr (d', v)"
  shows "acls_ok d'"
proof -
  obtain f where d': "d' = d\<lparr>t_entries := update_where (\<lambda>e. e_id e = i) f (t_entries d)\<rparr>"
    and f: "f = (\<lambda>e. e\<lparr>e_effect := (case eff of None \<Rightarrow> e_effect e | Some x \<Rightarrow> x),
              e_inherit := (case inh of None \<Rightarrow> e_inherit e | Some b \<Rightarrow> b)\<rparr>)"
    using run by (auto simp: update_entry_def result_simps Let_def)
  have keys: "map e_id (update_where (\<lambda>e. e_id e = i) f (t_entries d)) = map e_id (t_entries d)"
    "map entry_key3 (update_where (\<lambda>e. e_id e = i) f (t_entries d)) = map entry_key3 (t_entries d)"
    by (rule map_update_where, simp add: f entry_key3_def)+
  have wf: "well_formed_entry (f e) = well_formed_entry e" for e by (simp add: f well_formed_entry_def)
  have "\<forall>e \<in> set (update_where (\<lambda>e. e_id e = i) f (t_entries d)). well_formed_entry e"
    unfolding set_update_where using ok by (auto simp: acls_ok_def wf)
  with ok keys show ?thesis unfolding d' by (simp add: acls_ok_def)
qed

lemma set_boundary_ok:
  assumes ok: "acls_ok d" and run: "set_boundary d i ty t a = Inr (d', v)"
  shows "acls_ok d'"
proof -
  obtain target where target: "resolve d ty t = Inr target" "tg_key target = target_key ty t"
    and act: "assert_action_supported target a = Inr ()"
    using run by (auto simp: set_boundary_def result_simps dest: resolve_target)
  show ?thesis
  proof (cases "find_boundary d (tg_key target) a")
    case (Some b)
    with run target(1) act ok show ?thesis by (simp add: set_boundary_def)
  next
    case None
    let ?b = "\<lparr>b_id = i, b_target_key = tg_key target, b_action = action_name a, b_target = target_ids_of ty t\<rparr>"
    have new: "i \<notin> b_id ` set (t_boundaries d)" "d' = d\<lparr>t_boundaries := t_boundaries d @ [?b]\<rparr>"
      using run target(1) act None by (auto simp: set_boundary_def result_simps insert_row_eq_Inr Let_def)
    have "(b_target_key ?b, b_action ?b) \<notin> (\<lambda>b. (b_target_key b, b_action b)) ` set (t_boundaries d)"
      using None by (auto simp: find_boundary_def find_None_iff)
    moreover have "well_formed_boundary ?b" using target(2) by (auto simp: well_formed_boundary_def)
    ultimately show ?thesis using ok new by (auto simp: acls_ok_def)
  qed
qed

lemma acls_ok_step:
  assumes ok: "acls_ok d" and run: "acl_step d op = Inr d'"
  shows "acls_ok d'"
proof (cases op)
  case (CreateEntry i rt r ty t a eff inh)
  with run show ?thesis using create_entry_ok [OF ok] by (auto simp: committed_def result_simps)
next
  case (UpdateEntry i eff inh)
  with run show ?thesis using update_entry_ok [OF ok] by (auto simp: committed_def result_simps)
next
  case (RemoveEntry i)
  with run have "d' = d\<lparr>t_entries := delete_where (\<lambda>e. e_id e = i) (t_entries d)\<rparr>"
    by (auto simp: remove_entry_def committed_def result_simps)
  then show ?thesis using ok by (auto simp: acls_ok_def distinct_delete_where row_simps)
next
  case (SetBoundary i ty t a)
  with run show ?thesis using set_boundary_ok [OF ok] by (auto simp: committed_def result_simps)
next
  case (RemoveBoundary ty t a)
  with run obtain j where "d' = d\<lparr>t_boundaries := delete_where (\<lambda>x. b_id x = j) (t_boundaries d)\<rparr>"
    by (auto simp: remove_boundary_def committed_def result_simps)
  then show ?thesis using ok by (auto simp: acls_ok_def distinct_delete_where row_simps)
qed

section \<open>Properties\<close>

text \<open>
  C23: Every sequence of ACL requests keeps the tables consistent: at most one rule per recipient,
  target and action and one boundary per target and action, redundant columns that agree (a rule
  names exactly one recipient and one target, in its keys as in its foreign keys), and with it at
  most one individual rule of a user per target and action, on which the evaluation relies.
\<close>

theorem acl_requests_keep_acls_ok:
  assumes "acls_ok d"
  shows "acls_ok (acl_run d ops) \<and> entries_unique (acl_run d ops)"
proof -
  have "acls_ok (acl_run d ops)"
    using assms
  proof (induction ops arbitrary: d)
    case Nil
    then show ?case by (simp add: acl_run_def)
  next
    case (Cons op ops)
    then show ?case using acls_ok_step [OF Cons.prems]
      by (cases "acl_step d op") (auto simp: acl_run_def)
  qed
  then show ?thesis using acls_ok_entries_unique by blast
qed

lemma sample_acls_ok: "acls_ok sample_db"
  by (simp add: acls_ok_def sample_defs)

theorem acl_requests_keep_acls_ok_witness:
  "acls_ok (acl_run sample_db [CreateEntry ''e'' To_User ''rob'' Page ''p2'' Read DENY None,
     SetBoundary ''b'' Page ''p1'' Read, RemoveEntry ''e''])"
  using acl_requests_keep_acls_ok [OF sample_acls_ok] by blast

text \<open>
  A rule just created for a user at a target decides: evaluating this user on this target and
  action gives exactly the effect of the rule, under the global ceiling, whatever group rules,
  inherited rules, boundaries and visibility say (personal notes apart, which know no rules).
\<close>

theorem created_rule_decides:
  assumes acls: "acls_ok d" and content: "content_ok d"
    and run: "create_entry d i To_User (au_id actor) ty tid a eff inh = Inr (d', v)"
    and h: "resolve_hierarchy d ty tid = Inr h" "hr_personal h = None"
    and eval: "evaluate d' actor r a ty tid = Inr dc"
  shows "dc_allowed dc \<longleftrightarrow> is_allowed d actor r a \<and> eff = ALLOW"
proof -
  let ?e = "new_entry i To_User (au_id actor) ty tid (target_key ty tid) a eff inh"
  have d': "d' = d\<lparr>t_entries := t_entries d @ [?e]\<rparr>" using create_entry_Inr(1) [OF run] .
  have uniq: "entries_unique d'" by (rule acls_ok_entries_unique [OF create_entry_ok [OF acls run]])
  have h': "resolve_hierarchy d' ty tid = Inr h" using h(1) unfolding d' resolve_hierarchy_entries .
  have global: "is_allowed d' actor r a = is_allowed d actor r a" unfolding d' by (rule is_allowed_entries)
  obtain t ts where path: "hr_path h = t # ts" using hierarchy_head(2) [OF content h(1)] by (cases "hr_path h") auto
  then have key: "tg_key t = target_key ty tid"
    using hierarchy_head(1) [OF content h(1)] resolve_target by fastforce
  have e: "?e \<in> user_rules d' (au_id actor) a True (target_key ty tid)"
    by (simp add: user_rules_def d' new_entry_def)
  have "x = ?e" if x: "x \<in> user_rules d' (au_id actor) a True (target_key ty tid)" for x
  proof -
    have "x \<in> set (t_entries d')" "?e \<in> set (t_entries d')" "e_user x \<noteq> None" "e_user x = e_user ?e"
      "e_target_key x = e_target_key ?e" "e_action x = e_action ?e"
      using e x by (simp_all add: user_rules_def)
    with uniq show ?thesis unfolding entries_unique_def by blast
  qed
  then have "user_rules d' (au_id actor) a True (target_key ty tid) = {?e}" using e by blast
  then have verdict: "level_verdict d' (au_id actor) a open_space True (target_key ty tid) = Some (eff = ALLOW)"
    for open_space by (simp add: level_verdict_def new_entry_def)
  show ?thesis
  proof (cases "is_allowed d actor r a")
    case False
    with eval global show ?thesis
      by (auto simp: evaluate_decide global_denied_def make_decision_def split: if_splits)
  next
    case True
    with eval h' global have "decide d' (au_id actor) a h = Inr dc"
      by (auto simp: evaluate_decide result_simps split: if_splits)
    from decide_verdict [OF uniq this h(2)] True show ?thesis
      by (simp add: path key verdict)
  qed
qed

theorem created_rule_decides_witness:
  "\<exists>d' v dc. create_entry sample_db ''e'' To_User ''rob'' Page ''p3'' Read DENY None = Inr (d', v) \<and>
     evaluate d' sample_rob Pages Read Page ''p3'' = Inr dc \<and> \<not> dc_allowed dc"
proof -
  obtain d' v where run: "create_entry sample_db ''e'' To_User (au_id sample_rob) Page ''p3'' Read DENY None = Inr (d', v)"
    by (simp add: create_entry_def find_defs sample_defs page_target_def make_target_def uniq_def
        assert_action_supported_def rguard_def insert_row_def to_entry_def new_entry_def target_ref_of_ids_def
        target_ids_of_def Let_def to_authenticated_user_def)
  have h: "resolve_hierarchy sample_db Page ''p3'' = Inr sample_p3_hierarchy"
    by (simp add: page_hierarchy_def page_chain.simps find_defs sample_defs category_step_def
        sample_p3_hierarchy_def)
  have personal: "hr_personal sample_p3_hierarchy = None" by (simp add: sample_p3_hierarchy_def in_space_def)
  have d': "d' = sample_db\<lparr>t_entries := t_entries sample_db @
      [new_entry ''e'' To_User (au_id sample_rob) Page ''p3'' (target_key Page ''p3'') Read DENY None]\<rparr>"
    using create_entry_Inr(1) [OF run] .
  have allowed: "is_allowed d' sample_rob Pages Read"
    unfolding d' is_allowed_entries
    by (simp add: is_allowed_of_user override_of_def role_acl_of_def sample_defs)
  have h': "resolve_hierarchy d' Page ''p3'' = Inr sample_p3_hierarchy"
    unfolding d' resolve_hierarchy_entries using h .
  obtain dc where eval: "evaluate d' sample_rob Pages Read Page ''p3'' = Inr dc"
    using h' allowed sample_check decide_Inr [of d' "au_id sample_rob" Read sample_p3_hierarchy]
    by (auto simp: evaluate_decide is_permission_supported_def simp del: resolve_hierarchy.simps)
  from created_rule_decides [OF sample_acls_ok sample_db_ok(3) run h personal eval] eval run show ?thesis
    by (auto simp: to_authenticated_user_def sample_user_def)
qed

text \<open>
  A created rule reads back as it was written: the answer names the recipient, the resolved
  target with its label, the action, the effect and the inheritance (inherited by default), and
  the list of the target's rules, whenever it can be presented, contains it.
\<close>

theorem created_rule_reads_back:
  assumes run: "create_entry d i rt rid ty tid a eff inh = Inr (d', answer)"
  shows "\<exists>v. answer = Inr v \<and> ev_id v = i \<and> fst (ev_recipient v) = rt \<and> fst (snd (ev_recipient v)) = rid \<and>
    (\<exists>t. resolve d ty tid = Inr t \<and> ev_target v = target_ref_of t) \<and>
    ev_action v = action_name a \<and> ev_effect v = eff \<and> ev_inherit v = (inh \<noteq> Some False) \<and>
    (\<forall>vs. find_acl_entries d' (Some (ty, tid)) = Inr vs \<longrightarrow> v \<in> set vs)"
proof -
  let ?e = "new_entry i rt rid ty tid (target_key ty tid) a eff inh"
  note c = create_entry_Inr [OF run]
  obtain t where t: "resolve d ty tid = Inr t" using c(6) by blast
  have same: "resolve d' ty tid = resolve d ty tid"
    by (cases ty) (simp_all add: c(1) find_defs)
  have target: "target_ref_of_ids d' (target_ids_of ty tid) = Inr (target_ref_of t)"
    using t by (cases ty) (auto simp: c(1) find_defs target_ref_of_ids_def target_ids_of_def result_simps
        target_ref_of_def space_target_def category_target_def page_target_def note_target_def
        standard_target_def make_target_def)
  have "\<exists>v. to_entry d' ?e = Inr v \<and> fst (ev_recipient v) = rt \<and> fst (snd (ev_recipient v)) = rid"
    using c(5) target by (cases rt)
      (auto simp: to_entry_def new_entry_def result_simps c(1) find_defs split: option.splits dest: find_SomeD)
  then obtain v where view: "to_entry d' ?e = Inr v"
    and recipient: "fst (ev_recipient v) = rt" "fst (snd (ev_recipient v)) = rid" by blast
  have rest: "ev_id v = i" "ev_target v = target_ref_of t" "ev_action v = action_name a" "ev_effect v = eff"
    "ev_inherit v = (inh \<noteq> Some False)"
    using view target by (auto simp: to_entry_def new_entry_def result_simps split: option.splits)
  have key: "tg_key t = target_key ty tid" using resolve_target [OF t] by blast
  have "v \<in> set vs" if out: "find_acl_entries d' (Some (ty, tid)) = Inr vs" for vs
  proof -
    have out': "rmap (to_entry d') (filter (\<lambda>e. e_target_key e = target_key ty tid) (t_entries d')) = Inr vs"
      using out t same key
      by (simp add: find_acl_entries_def resolve_optional_target_key_def eq_commute)
    have "?e \<in> set (filter (\<lambda>e. e_target_key e = target_key ty tid) (t_entries d'))"
      by (simp add: c(1) new_entry_def)
    from rmap_Inr_elem [OF out' this] view show ?thesis by auto
  qed
  with view c(4) recipient rest t show ?thesis by auto
qed

theorem created_rule_reads_back_witness:
  "\<exists>d' v. create_entry sample_db ''e'' To_User ''rob'' Page ''p3'' Read DENY None = Inr (d', Inr v) \<and>
     find_acl_entries d' (Some (Page, ''p3'')) = Inr [v]"
proof -
  obtain d' answer where run:
    "create_entry sample_db ''e'' To_User ''rob'' Page ''p3'' Read DENY None = Inr (d', answer)"
    by (simp add: create_entry_def find_defs sample_defs page_target_def make_target_def uniq_def
        assert_action_supported_def rguard_def insert_row_def new_entry_def Let_def)
  from created_rule_reads_back [OF run] obtain v where v: "answer = Inr v" by blast
  note c = create_entry_Inr [OF run]
  have "rmap (to_entry d') (t_entries d') = Inr [v]"
    using c(4) [symmetric] v by (simp add: c(1)) (simp add: sample_defs)
  then have "find_acl_entries d' (Some (Page, ''p3'')) = Inr [v]"
    by (simp add: c(1) find_acl_entries_def resolve_optional_target_key_def find_defs sample_defs
        page_target_def make_target_def new_entry_def)
  with run v show ?thesis by blast
qed

end
