(* ===== verification/Identity_Sync.thy ===== *)
theory Identity_Sync
  imports Sample Text
begin

text \<open>
  \<^verbatim>\<open>apps/api/src/modules/auth/oidc/identity-synchronization.service.ts\<close>: what the claims of an
  external identity grant. Claim values are normalised, matched against the provider's group and
  role mappings, compared with the grants the identity holds (\<open>build_preview\<close>) and applied in one
  transaction. Grants are kept apart from memberships, so that local grants and grants of other
  identities survive. The audit row and the websocket signal are not modelled.
\<close>

section \<open>Errors and claims\<close>

datatype sync_error =
    Group_Claim_Invalid
  | Group_Mapping_Ambiguous
  | Role_Claim_Invalid
  | Role_Priority_Conflict
  | Admin_Role_Mapping_Disabled
  | Sync_Other api_error

fun sync_error_code :: "sync_error \<Rightarrow> string" where
  "sync_error_code Group_Claim_Invalid = ''group_claim_invalid''"
| "sync_error_code Group_Mapping_Ambiguous = ''group_mapping_ambiguous''"
| "sync_error_code Role_Claim_Invalid = ''role_claim_invalid''"
| "sync_error_code Role_Priority_Conflict = ''role_priority_conflict''"
| "sync_error_code Admin_Role_Mapping_Disabled = ''admin_role_mapping_disabled''"
| "sync_error_code (Sync_Other e) = ''sync_failed''"

record claims =
  cl_groups :: "string list"
  cl_roles :: "string list"

definition MAX_SYNC_VALUES :: nat where "MAX_SYNC_VALUES = 500"
definition MAX_SYNC_VALUE_LENGTH :: nat where "MAX_SYNC_VALUE_LENGTH = 2000"

text \<open>
  The walk along a dotted path. A member inherited from \<open>Object.prototype\<close> is a function, which
  the caller rejects like \<open>undefined\<close>.
\<close>

fun claim_walk :: "json \<Rightarrow> string list \<Rightarrow> json option" where
  "claim_walk v [] = Some v"
| "claim_walk v (s # ss) =
     (if s = [] \<or> s = ''__proto__'' \<or> s = ''prototype'' \<or> s = ''constructor'' then None
      else case v of
        JObject m \<Rightarrow> (case map_of m s of None \<Rightarrow> None | Some w \<Rightarrow> claim_walk w ss)
      | _ \<Rightarrow> None)"

definition claim_at_path :: "json \<Rightarrow> string \<Rightarrow> json option" where
  "claim_at_path v path = claim_walk v (split_on (CHR ''.'') path)"

definition claim_values :: "json option \<Rightarrow> string list option" where
  "claim_values v =
     (case v of
        Some (JString s) \<Rightarrow> Some [s]
      | Some (JArray xs) \<Rightarrow> all_strings xs
      | _ \<Rightarrow> None)"

definition normalize_claim_values ::
    "(string \<Rightarrow> string \<Rightarrow> int) \<Rightarrow> json \<Rightarrow> string option \<Rightarrow> sync_error \<Rightarrow> sync_error + string list" where
  "normalize_claim_values lc v path err =
     (if path = None \<or> path = Some [] then Inr []
      else case claim_values (claim_at_path v (the path)) of
        None \<Rightarrow> Inl err
      | Some vs \<Rightarrow>
          if MAX_SYNC_VALUES < length vs then Inl err
          else let normalized = map trim vs in
            if \<exists>x \<in> set normalized. x = [] \<or> MAX_SYNC_VALUE_LENGTH < length x then Inl err
            else Inr (sort_by lc (uniq normalized)))"

section \<open>What an identity holds\<close>

definition group_mappings_of :: "db \<Rightarrow> ident \<Rightarrow> group_mapping_row list" where
  "group_mappings_of d p = filter (\<lambda>m. gm_provider m = p) (t_group_mappings d)"

definition role_mappings_of :: "db \<Rightarrow> ident \<Rightarrow> role_mapping_row list" where
  "role_mappings_of d p = filter (\<lambda>m. rm_provider m = p) (t_role_mappings d)"

definition group_grants_of :: "db \<Rightarrow> ident \<Rightarrow> group_grant_row list" where
  "group_grants_of d i = filter (\<lambda>g. gg_identity g = i) (t_group_grants d)"

definition role_grant_of :: "db \<Rightarrow> ident \<Rightarrow> role_grant_row option" where
  "role_grant_of d i = List.find (\<lambda>g. rg_identity g = i) (t_role_grants d)"

definition assert_claim_configuration :: "db \<Rightarrow> identity_row \<Rightarrow> provider_row \<Rightarrow> sync_error + unit" where
  "assert_claim_configuration d x p =
     rbind (rguard (\<not> (ip_group_claim p \<in> {None, Some []} \<and>
         (group_mappings_of d (ip_id p) \<noteq> [] \<or> group_grants_of d (xi_id x) \<noteq> [])))
       Group_Claim_Invalid) (\<lambda>_.
     rguard (\<not> (ip_role_claim p \<in> {None, Some []} \<and>
         (\<exists>m \<in> set (role_mappings_of d (ip_id p)). rm_source m = From_Role))) Role_Claim_Invalid)"

definition normalize_provider_claims ::
    "(string \<Rightarrow> string \<Rightarrow> int) \<Rightarrow> db \<Rightarrow> identity_row \<Rightarrow> provider_row \<Rightarrow> json \<Rightarrow> sync_error + claims" where
  "normalize_provider_claims lc d x p v =
     rbind (assert_claim_configuration d x p) (\<lambda>_.
     rbind (normalize_claim_values lc v (ip_group_claim p) Group_Claim_Invalid) (\<lambda>groups.
     rbind (normalize_claim_values lc v (ip_role_claim p) Role_Claim_Invalid) (\<lambda>roles.
     Inr \<lparr>cl_groups = groups, cl_roles = roles\<rparr>)))"

section \<open>Matching\<close>

record group_change =
  gc_mapping :: ident
  gc_group :: ident
  gc_name :: string
  gc_value :: string

record role_change =
  rc_mapping :: ident
  rc_role :: ident
  rc_name :: string
  rc_priority :: int
  rc_source :: mapping_source
  rc_value :: string

text \<open>The joined group and role rows exist by the schema's foreign keys.\<close>

definition group_name :: "db \<Rightarrow> ident \<Rightarrow> string" where
  "group_name d i = (case find_group d i of Some g \<Rightarrow> g_name g | None \<Rightarrow> [])"

definition role_name :: "db \<Rightarrow> ident \<Rightarrow> string" where
  "role_name d i = (case find_role d i of Some r \<Rightarrow> r_name r | None \<Rightarrow> [])"

definition group_change_of :: "db \<Rightarrow> group_mapping_row \<Rightarrow> string \<Rightarrow> group_change" where
  "group_change_of d m v =
     \<lparr>gc_mapping = gm_id m, gc_group = gm_group m, gc_name = group_name d (gm_group m), gc_value = v\<rparr>"

definition role_change_of :: "db \<Rightarrow> role_mapping_row \<Rightarrow> ident \<Rightarrow> role_change" where
  "role_change_of d m r =
     \<lparr>rc_mapping = rm_id m, rc_role = r, rc_name = role_name d r, rc_priority = rm_priority m,
      rc_source = rm_source m, rc_value = rm_value m\<rparr>"

definition matches_value :: "string \<Rightarrow> group_mapping_row \<Rightarrow> bool" where
  "matches_value v m \<longleftrightarrow> gm_external_id m = v \<or> gm_external_path m = Some v"

fun target_groups ::
    "db \<Rightarrow> group_mapping_row list \<Rightarrow> string list \<Rightarrow> (ident \<times> group_change) list \<Rightarrow> string list \<Rightarrow>
     sync_error + (ident \<times> group_change) list \<times> string list" where
  "target_groups d ms [] targets matched = Inr (targets, matched)"
| "target_groups d ms (v # vs) targets matched =
     (case filter (matches_value v) ms of
        [] \<Rightarrow> target_groups d ms vs targets matched
      | [m] \<Rightarrow> target_groups d ms vs (map_put (gm_id m) (group_change_of d m v) targets) (v # matched)
      | _ \<Rightarrow> Inl Group_Mapping_Ambiguous)"

text \<open>A grant joined with its mapping; its value is the mapping's path or else its id.\<close>

definition loaded_grants :: "db \<Rightarrow> ident \<Rightarrow> (group_grant_row \<times> group_mapping_row) list" where
  "loaded_grants d i =
     List.map_filter (\<lambda>g. map_option (\<lambda>m. (g, m)) (find_group_mapping d (gg_mapping g)))
       (group_grants_of d i)"

definition stored_change :: "db \<Rightarrow> group_mapping_row \<Rightarrow> group_change" where
  "stored_change d m =
     group_change_of d m (case gm_external_path m of Some v \<Rightarrow> v | None \<Rightarrow> gm_external_id m)"

definition sort_group_changes ::
    "(string \<Rightarrow> string \<Rightarrow> int) \<Rightarrow> group_change list \<Rightarrow> group_change list" where
  "sort_group_changes lc =
     sort_by (\<lambda>l r. if lc (gc_name l) (gc_name r) \<noteq> 0 then lc (gc_name l) (gc_name r)
                     else lc (gc_group l) (gc_group r))"

definition PRIVILEGED_ROLE_RESOURCES :: "string list" where
  "PRIVILEGED_ROLE_RESOURCES =
     [''users'', ''roles'', ''acls'', ''user_permissions'', ''groups'', ''settings'', ''audit_logs'',
      ''api_keys'', ''smtp'', ''system_info'', ''backups'', ''resource_acls'']"

definition is_privileged_role :: "db \<Rightarrow> role_row \<Rightarrow> bool" where
  "is_privileged_role d r \<longleftrightarrow> to_lower (r_name r) = ''admin'' \<or>
     (\<exists>a \<in> set (t_acls d). a_role a = r_id r \<and> a_allowed a \<and>
        a_resource a \<in> set PRIVILEGED_ROLE_RESOURCES)"

definition matching_roles ::
    "(string \<Rightarrow> string \<Rightarrow> int) \<Rightarrow> db \<Rightarrow> ident \<Rightarrow> claims \<Rightarrow> role_mapping_row list" where
  "matching_roles lc d p c =
     sort_by (\<lambda>l r. if rm_priority l - rm_priority r \<noteq> 0 then rm_priority l - rm_priority r
                     else lc (rm_id l) (rm_id r))
       (filter (\<lambda>m. rm_value m \<in> set (case rm_source m of From_Group \<Rightarrow> cl_groups c | From_Role \<Rightarrow> cl_roles c))
         (role_mappings_of d p))"

text \<open>Another identity of the same user already grants a role with this priority.\<close>

definition priority_taken :: "db \<Rightarrow> identity_row \<Rightarrow> int \<Rightarrow> bool" where
  "priority_taken d x n \<longleftrightarrow>
     (\<exists>y \<in> set (t_identities d). xi_user y = xi_user x \<and> xi_id y \<noteq> xi_id x \<and>
        map_option rm_priority
          (Option.bind (role_grant_of d (xi_id y)) (\<lambda>g. find_role_mapping d (rg_mapping g))) = Some n)"

definition next_role ::
    "(string \<Rightarrow> string \<Rightarrow> int) \<Rightarrow> db \<Rightarrow> identity_row \<Rightarrow> provider_row \<Rightarrow> claims \<Rightarrow>
     sync_error + role_mapping_row option" where
  "next_role lc d x p c =
     (case matching_roles lc d (ip_id p) c of
        [] \<Rightarrow> Inr None
      | m # rest \<Rightarrow>
          rbind (rguard (\<not> (\<exists>m' \<in> set rest. rm_priority m' = rm_priority m)) Role_Priority_Conflict) (\<lambda>_.
          rbind (or_throw (Sync_Other (Internal ''role'')) (find_role d (rm_role m))) (\<lambda>r.
          rbind (rguard (ip_allow_admin_mapping p \<or> \<not> is_privileged_role d r)
            Admin_Role_Mapping_Disabled) (\<lambda>_.
          rbind (rguard (\<not> priority_taken d x (rm_priority m)) Role_Priority_Conflict) (\<lambda>_.
          Inr (Some m))))))"

section \<open>The preview\<close>

record sync_preview =
  sp_provider :: ident
  sp_identity :: ident
  sp_user :: ident
  sp_mode :: sync_mode
  sp_claims :: claims
  sp_add :: "group_change list"
  sp_keep :: "group_change list"
  sp_remove :: "group_change list"
  sp_ignored_groups :: "string list"
  sp_current :: "role_change option"
  sp_next :: "role_change option"
  sp_changed :: bool
  sp_ignored_roles :: "string list"

definition current_role :: "db \<Rightarrow> ident \<Rightarrow> role_change option" where
  "current_role d i =
     Option.bind (role_grant_of d i) (\<lambda>g.
       map_option (\<lambda>m. role_change_of d m (rg_role g)) (find_role_mapping d (rg_mapping g)))"

definition build_preview ::
    "(string \<Rightarrow> string \<Rightarrow> int) \<Rightarrow> db \<Rightarrow> identity_row \<Rightarrow> provider_row \<Rightarrow> claims \<Rightarrow>
     sync_error + sync_preview" where
  "build_preview lc d x p c =
     rbind (target_groups d (group_mappings_of d (ip_id p)) (cl_groups c) [] []) (\<lambda>(targets, matched).
     rbind (next_role lc d x p c) (\<lambda>next.
     let grants = loaded_grants d (xi_id x);
         held = map (\<lambda>(g, m). gg_mapping g) grants;
         add = map snd (filter (\<lambda>(i, _). i \<notin> set held) targets);
         keep = map (\<lambda>(g, m). case map_of targets (gg_mapping g) of
             Some t \<Rightarrow> t | None \<Rightarrow> stored_change d m)
           (filter (\<lambda>(g, _). ip_sync_mode p = ADD_ONLY \<or> gg_mapping g \<in> fst ` set targets) grants);
         remove = (if ip_sync_mode p = MANAGED
           then map (\<lambda>(_, m). stored_change d m)
             (filter (\<lambda>(g, _). gg_mapping g \<notin> fst ` set targets) grants)
           else []);
         current = current_role d (xi_id x);
         next_change = map_option (\<lambda>m. role_change_of d m (rm_role m)) next;
         mapped = map rm_value (matching_roles lc d (ip_id p) c)
     in Inr \<lparr>sp_provider = xi_provider x, sp_identity = xi_id x, sp_user = xi_user x,
          sp_mode = ip_sync_mode p, sp_claims = c,
          sp_add = sort_group_changes lc add, sp_keep = sort_group_changes lc keep,
          sp_remove = sort_group_changes lc remove,
          sp_ignored_groups = filter (\<lambda>v. v \<notin> set matched) (cl_groups c),
          sp_current = current, sp_next = next_change,
          sp_changed = (map_option rc_mapping current \<noteq> map_option rc_mapping next_change),
          sp_ignored_roles = filter (\<lambda>v. v \<notin> set mapped) (uniq (cl_groups c @ cl_roles c))\<rparr>))"

section \<open>Applying a preview\<close>

text \<open>
  \<open>fresh\<close> gives the id of the membership created for a mapping. The unique columns of the two
  tables make \<open>create\<close> fail on a clash.
\<close>

fun add_groups ::
    "(ident \<Rightarrow> ident) \<Rightarrow> identity_row \<Rightarrow> group_change list \<Rightarrow> db \<Rightarrow> sync_error + db" where
  "add_groups fresh x [] d = Inr d"
| "add_groups fresh x (c # cs) d =
     rbind
       (case List.find (\<lambda>m. (m_group m, m_user m) = (gc_group c, xi_user x)) (t_memberships d) of
          Some m \<Rightarrow> Inr (d, m_id m)
        | None \<Rightarrow>
            rbind (insert_row m_id (Sync_Other (Internal ''P2002''))
                \<lparr>m_id = fresh (gc_mapping c), m_group = gc_group c, m_user = xi_user x,
                 m_role = MEMBER, m_local_grant = False\<rparr> (t_memberships d)) (\<lambda>ms.
              Inr (d\<lparr>t_memberships := ms\<rparr>, fresh (gc_mapping c))))
       (\<lambda>(d1, mid).
         rbind (insert_row (\<lambda>g. (gg_identity g, gg_mapping g)) (Sync_Other (Internal ''P2002''))
             \<lparr>gg_membership = mid, gg_identity = xi_id x, gg_mapping = gc_mapping c\<rparr>
             (t_group_grants d1)) (\<lambda>gs.
           add_groups fresh x cs (d1\<lparr>t_group_grants := gs\<rparr>)))"

definition remove_groups :: "identity_row \<Rightarrow> ident list \<Rightarrow> ident list \<Rightarrow> db \<Rightarrow> db" where
  "remove_groups x mappings membership_ids d =
     (if mappings = [] then d
      else
        let gs = delete_where (\<lambda>g. gg_identity g = xi_id x \<and> gg_mapping g \<in> set mappings)
                   (t_group_grants d)
        in d\<lparr>t_group_grants := gs,
             t_memberships := delete_where (\<lambda>m. m_id m \<in> set membership_ids \<and> \<not> m_local_grant m \<and>
               \<not> (\<exists>g \<in> set gs. gg_membership g = m_id m)) (t_memberships d)\<rparr>)"

definition put_role_grant :: "identity_row \<Rightarrow> role_change option \<Rightarrow> db \<Rightarrow> db" where
  "put_role_grant x next d =
     d\<lparr>t_role_grants :=
       (case next of
          None \<Rightarrow> delete_where (\<lambda>g. rg_identity g = xi_id x) (t_role_grants d)
        | Some c \<Rightarrow>
            if \<exists>g \<in> set (t_role_grants d). rg_identity g = xi_id x
            then update_where (\<lambda>g. rg_identity g = xi_id x)
              (\<lambda>g. g\<lparr>rg_mapping := rc_mapping c, rg_role := rc_role c\<rparr>) (t_role_grants d)
            else t_role_grants d @
              [\<lparr>rg_identity = xi_id x, rg_mapping = rc_mapping c, rg_role = rc_role c\<rparr>])\<rparr>"

definition store_claims :: "ident \<Rightarrow> claims \<Rightarrow> db \<Rightarrow> db" where
  "store_claims i c d =
     d\<lparr>t_identities := update_where (\<lambda>y. xi_id y = i)
       (\<lambda>y. y\<lparr>xi_last_groups := cl_groups c, xi_last_roles := cl_roles c, xi_sync_error := None\<rparr>)
       (t_identities d)\<rparr>"

definition sync_transaction ::
    "(string \<Rightarrow> string \<Rightarrow> int) \<Rightarrow> (ident \<Rightarrow> ident) \<Rightarrow> db \<Rightarrow> ident \<Rightarrow> claims \<Rightarrow>
     sync_error + db \<times> sync_preview" where
  "sync_transaction lc fresh d i c =
     rbind (or_throw (Sync_Other (NotFound ''identity'')) (find_identity d i)) (\<lambda>x.
     rbind (or_throw (Sync_Other (Internal ''provider'')) (find_provider d (xi_provider x))) (\<lambda>p.
     rbind (build_preview lc d x p c) (\<lambda>v.
     let removed = map gc_mapping (sp_remove v);
         membership_ids = map gg_membership
           (filter (\<lambda>g. gg_mapping g \<in> set removed) (group_grants_of d i))
     in rbind (add_groups fresh x (sp_add v) d) (\<lambda>d1.
        let d2 = remove_groups x removed membership_ids d1;
            d3 = (if sp_changed v then put_role_grant x (sp_next v) d2 else d2)
        in Inr (store_claims i c d3, v)))))"

definition record_failure :: "db \<Rightarrow> ident \<Rightarrow> sync_error \<Rightarrow> db" where
  "record_failure d i e =
     d\<lparr>t_identities := update_where (\<lambda>y. xi_id y = i)
       (\<lambda>y. y\<lparr>xi_sync_error := Some (sync_error_code e)\<rparr>) (t_identities d)\<rparr>"

definition apply_claims ::
    "(string \<Rightarrow> string \<Rightarrow> int) \<Rightarrow> (ident \<Rightarrow> ident) \<Rightarrow> db \<Rightarrow> ident \<Rightarrow> claims \<Rightarrow>
     db \<times> (sync_error + sync_preview)" where
  "apply_claims lc fresh d i c =
     (case sync_transaction lc fresh d i c of
        Inl e \<Rightarrow> (record_failure d i e, Inl e)
      | Inr (d', v) \<Rightarrow> (d', Inr v))"

section \<open>Operations\<close>

definition preview_sync ::
    "(string \<Rightarrow> string \<Rightarrow> int) \<Rightarrow> db \<Rightarrow> ident \<Rightarrow> ident \<Rightarrow> json \<Rightarrow> sync_error + sync_preview" where
  "preview_sync lc d pid i v =
     rbind (or_throw (Sync_Other (NotFound ''identity''))
       (List.find (\<lambda>x. xi_id x = i \<and> xi_provider x = pid) (t_identities d))) (\<lambda>x.
     rbind (or_throw (Sync_Other (Internal ''provider'')) (find_provider d (xi_provider x))) (\<lambda>p.
     rbind (normalize_provider_claims lc d x p v) (\<lambda>c. build_preview lc d x p c)))"

definition synchronize ::
    "(string \<Rightarrow> string \<Rightarrow> int) \<Rightarrow> (ident \<Rightarrow> ident) \<Rightarrow> db \<Rightarrow> ident \<Rightarrow> json \<Rightarrow>
     db \<times> (sync_error + sync_preview)" where
  "synchronize lc fresh d i v =
     (case find_identity d i of
        None \<Rightarrow> (d, Inl (Sync_Other (NotFound ''identity'')))
      | Some x \<Rightarrow>
          (case find_provider d (xi_provider x) of
             None \<Rightarrow> (d, Inl (Sync_Other (Internal ''provider'')))
           | Some p \<Rightarrow>
               (case normalize_provider_claims lc d x p v of
                  Inl e \<Rightarrow> (record_failure d i e, Inl e)
                | Inr c \<Rightarrow> apply_claims lc fresh d i c)))"

definition synchronize_stored ::
    "(string \<Rightarrow> string \<Rightarrow> int) \<Rightarrow> (ident \<Rightarrow> ident) \<Rightarrow> db \<Rightarrow> ident \<Rightarrow>
     db \<times> (sync_error + sync_preview)" where
  "synchronize_stored lc fresh d i =
     (case find_identity d i of
        None \<Rightarrow> (d, Inl (Sync_Other (NotFound ''identity'')))
      | Some x \<Rightarrow>
          (case find_provider d (xi_provider x) of
             None \<Rightarrow> (d, Inl (Sync_Other (Internal ''provider'')))
           | Some p \<Rightarrow>
               (case assert_claim_configuration d x p of
                  Inl e \<Rightarrow> (record_failure d i e, Inl e)
                | Inr _ \<Rightarrow> apply_claims lc fresh d i
                    \<lparr>cl_groups = xi_last_groups x, cl_roles = xi_last_roles x\<rparr>)))"

section \<open>Matching, characterised\<close>

text \<open>The mappings the claims select.\<close>

definition mapped_groups :: "db \<Rightarrow> ident \<Rightarrow> claims \<Rightarrow> group_mapping_row set" where
  "mapped_groups d p c =
     {m \<in> set (t_group_mappings d). gm_provider m = p \<and> (\<exists>v \<in> set (cl_groups c). matches_value v m)}"

definition mapped_roles :: "db \<Rightarrow> ident \<Rightarrow> claims \<Rightarrow> role_mapping_row set" where
  "mapped_roles d p c =
     {m \<in> set (t_role_mappings d). rm_provider m = p \<and>
        rm_value m \<in> set (case rm_source m of From_Group \<Rightarrow> cl_groups c | From_Role \<Rightarrow> cl_roles c)}"

lemma set_matching_roles: "set (matching_roles lc d p c) = mapped_roles d p c"
  by (auto simp: matching_roles_def role_mappings_of_def mapped_roles_def)

definition change_for :: "group_mapping_row list \<Rightarrow> ident \<times> group_change \<Rightarrow> bool" where
  "change_for ms e \<longleftrightarrow> gc_mapping (snd e) = fst e \<and>
     (\<exists>m \<in> set ms. gm_id m = fst e \<and> gm_group m = gc_group (snd e))"

lemma set_map_put_subset: "set (map_put k v m) \<subseteq> insert (k, v) (set m)"
  by (induction k v m rule: map_put.induct) auto

lemma target_groups_spec:
  assumes "target_groups d ms vs t0 m0 = Inr (t, m)" and "\<forall>e \<in> set t0. change_for ms e"
    and "distinct (map fst t0)"
  shows "fst ` set t = fst ` set t0 \<union> gm_id ` {mp \<in> set ms. \<exists>v \<in> set vs. matches_value v mp}"
    and "\<forall>e \<in> set t. change_for ms e" and "distinct (map fst t)"
proof -
  have "fst ` set t = fst ` set t0 \<union> gm_id ` {mp \<in> set ms. \<exists>v \<in> set vs. matches_value v mp} \<and>
    (\<forall>e \<in> set t. change_for ms e) \<and> distinct (map fst t)"
    using assms
  proof (induction vs arbitrary: t0 m0)
    case Nil
    then show ?case by simp
  next
    case (Cons v vs)
    show ?case
    proof (cases "filter (matches_value v) ms")
      case Nil
      then have "{mp \<in> set ms. \<exists>w \<in> set (v # vs). matches_value w mp} =
          {mp \<in> set ms. \<exists>w \<in> set vs. matches_value w mp}"
        by (auto simp: filter_empty_conv)
      with Cons Nil show ?thesis by simp
    next
      case first: (Cons mp rest)
      show ?thesis
      proof (cases rest)
        case Nil
        let ?t = "map_put (gm_id mp) (group_change_of d mp v) t0"
        have one: "{q \<in> set ms. matches_value v q} = {mp}"
          using first Nil by (metis empty_set list.simps(15) set_filter)
        then have mp: "mp \<in> set ms" by blast
        have split: "{q \<in> set ms. \<exists>w \<in> set (v # vs). matches_value w q} =
            insert mp {q \<in> set ms. \<exists>w \<in> set vs. matches_value w q}"
          using one by auto
        have "change_for ms (gm_id mp, group_change_of d mp v)"
          using mp by (auto simp: change_for_def group_change_of_def)
        with Cons.prems(2) set_map_put_subset [of "gm_id mp" "group_change_of d mp v" t0]
        have "\<forall>e \<in> set ?t. change_for ms e" by blast
        moreover have "distinct (map fst ?t)" using Cons.prems(3) by (rule distinct_map_put)
        moreover have "target_groups d ms vs ?t (v # m0) = Inr (t, m)"
          using Cons.prems(1) first Nil by simp
        ultimately have "fst ` set t = fst ` set ?t \<union> gm_id ` {q \<in> set ms. \<exists>w \<in> set vs. matches_value w q} \<and>
            (\<forall>e \<in> set t. change_for ms e) \<and> distinct (map fst t)"
          using Cons.IH by blast
        then show ?thesis unfolding keys_map_put split by simp
      next
        case (Cons b bs)
        with Cons.prems(1) first show ?thesis by simp
      qed
    qed
  qed
  then show "fst ` set t = fst ` set t0 \<union> gm_id ` {mp \<in> set ms. \<exists>v \<in> set vs. matches_value v mp}"
    "\<forall>e \<in> set t. change_for ms e" "distinct (map fst t)" by blast+
qed

lemma set_loaded_grants:
  "set (loaded_grants d i) =
    {(g, m). g \<in> set (t_group_grants d) \<and> gg_identity g = i \<and> find_group_mapping d (gg_mapping g) = Some m}"
  by (auto simp: loaded_grants_def group_grants_of_def set_map_filter)

lemma grant_mapping:
  assumes "identities_ok d" and "g \<in> set (t_group_grants d)"
  shows "\<exists>m. find_group_mapping d (gg_mapping g) = Some m \<and> gm_id m = gg_mapping g"
proof -
  have "gg_mapping g \<in> gm_id ` set (t_group_mappings d)" "distinct (map gm_id (t_group_mappings d))"
    using assms by (auto simp: identities_ok_def)
  then show ?thesis
    using find_by_key [of gm_id "t_group_mappings d"] by (force simp: find_group_mapping_def)
qed

lemma held_mappings:
  assumes "identities_ok d"
  shows "set (map (\<lambda>(g, m). gg_mapping g) (loaded_grants d i)) =
    gg_mapping ` {g \<in> set (t_group_grants d). gg_identity g = i}"
proof
  show "set (map (\<lambda>(g, m). gg_mapping g) (loaded_grants d i)) \<subseteq>
      gg_mapping ` {g \<in> set (t_group_grants d). gg_identity g = i}"
    by (auto simp: set_loaded_grants)
  show "gg_mapping ` {g \<in> set (t_group_grants d). gg_identity g = i} \<subseteq>
      set (map (\<lambda>(g, m). gg_mapping g) (loaded_grants d i))"
  proof
    fix k assume "k \<in> gg_mapping ` {g \<in> set (t_group_grants d). gg_identity g = i}"
    then obtain g where g: "g \<in> set (t_group_grants d)" "gg_identity g = i" "k = gg_mapping g" by blast
    obtain m where "find_group_mapping d (gg_mapping g) = Some m" using grant_mapping [OF assms g(1)] by blast
    with g have "(g, m) \<in> set (loaded_grants d i)" by (simp add: set_loaded_grants)
    then show "k \<in> set (map (\<lambda>(g, m). gg_mapping g) (loaded_grants d i))" using g(3) by force
  qed
qed

lemma set_sort_group_changes [simp]: "set (sort_group_changes lc cs) = set cs"
  by (simp add: sort_group_changes_def)

lemma distinct_sort_group_changes:
  "distinct (map f (sort_group_changes lc cs)) = distinct (map f cs)"
  unfolding sort_group_changes_def
  by (rule mset_eq_imp_distinct_iff) simp

text \<open>What a preview says: which mappings are added and removed, and the next role.\<close>

lemma build_preview_groups:
  assumes ok: "identities_ok d" and run: "build_preview lc d x p c = Inr v"
  defines "held \<equiv> gg_mapping ` {g \<in> set (t_group_grants d). gg_identity g = xi_id x}"
    and "wanted \<equiv> gm_id ` mapped_groups d (ip_id p) c"
  shows "gc_mapping ` set (sp_add v) = wanted - held" and "distinct (map gc_mapping (sp_add v))"
    and "\<forall>a \<in> set (sp_add v). \<exists>m \<in> set (t_group_mappings d). gm_id m = gc_mapping a \<and> gm_group m = gc_group a"
    and "gc_mapping ` set (sp_remove v) = (if ip_sync_mode p = MANAGED then held - wanted else {})"
    and "\<exists>next. next_role lc d x p c = Inr next \<and>
      sp_next v = map_option (\<lambda>m. role_change_of d m (rm_role m)) next"
    and "sp_changed v = (map_option rc_mapping (current_role d (xi_id x)) \<noteq> map_option rc_mapping (sp_next v))"
    and "sp_claims v = c"
proof -
  let ?ms = "group_mappings_of d (ip_id p)"
  obtain t matched "next" where t: "target_groups d ?ms (cl_groups c) [] [] = Inr (t, matched)"
    and nxt: "next_role lc d x p c = Inr next"
    using run by (auto simp: build_preview_def rbind_eq_Inr)
  have ms: "{mp \<in> set ?ms. \<exists>v \<in> set (cl_groups c). matches_value v mp} = mapped_groups d (ip_id p) c"
    by (auto simp: group_mappings_of_def mapped_groups_def)
  have keys: "fst ` set t = wanted" and changes: "\<forall>e \<in> set t. change_for ?ms e" and dist: "distinct (map fst t)"
    using target_groups_spec [OF t] unfolding ms by (simp_all add: wanted_def)
  have held: "set (map (\<lambda>(g, m). gg_mapping g) (loaded_grants d (xi_id x))) = held"
    unfolding held_def by (rule held_mappings [OF ok])
  have add: "sp_add v = sort_group_changes lc (map snd (filter (\<lambda>(i, _). i \<notin> held) t))"
    and rem: "sp_remove v = sort_group_changes lc (if ip_sync_mode p = MANAGED
           then map (\<lambda>(_, m). stored_change d m)
             (filter (\<lambda>(g, _). gg_mapping g \<notin> fst ` set t) (loaded_grants d (xi_id x))) else [])"
    and rest: "sp_next v = map_option (\<lambda>m. role_change_of d m (rm_role m)) next" "sp_claims v = c"
      "sp_changed v = (map_option rc_mapping (current_role d (xi_id x)) \<noteq> map_option rc_mapping (sp_next v))"
    using run t nxt held by (auto simp: build_preview_def Let_def)
  have gm: "gc_mapping (snd e) = fst e" if "e \<in> set t" for e using changes that by (simp add: change_for_def)
  have "gc_mapping ` set (sp_add v) = fst ` {e \<in> set t. fst e \<notin> held}"
    unfolding add using gm by (force simp: image_iff)
  also have "\<dots> = wanted - held" using keys by force
  finally show "gc_mapping ` set (sp_add v) = wanted - held" .
  have "map gc_mapping (map snd (filter (\<lambda>(i, _). i \<notin> held) t)) = map fst (filter (\<lambda>(i, _). i \<notin> held) t)"
    using gm by simp
  with dist show "distinct (map gc_mapping (sp_add v))"
    unfolding add distinct_sort_group_changes by (simp only:) (rule distinct_map_filter)
  show "\<forall>a \<in> set (sp_add v). \<exists>m \<in> set (t_group_mappings d). gm_id m = gc_mapping a \<and> gm_group m = gc_group a"
  proof
    fix a assume "a \<in> set (sp_add v)"
    then obtain e where "e \<in> set t" "a = snd e" unfolding add by auto
    with changes gm show "\<exists>m \<in> set (t_group_mappings d). gm_id m = gc_mapping a \<and> gm_group m = gc_group a"
      by (fastforce simp: change_for_def group_mappings_of_def)
  qed
  have stored: "gc_mapping (stored_change d m) = gm_id m" for m
    by (simp add: stored_change_def group_change_of_def)
  have "gc_mapping ` (\<lambda>(g, m). stored_change d m) ` {e \<in> set (loaded_grants d (xi_id x)). gg_mapping (fst e) \<notin> wanted} =
      (\<lambda>(g, m). gg_mapping g) ` {e \<in> set (loaded_grants d (xi_id x)). gg_mapping (fst e) \<notin> wanted}"
    unfolding image_image
  proof (rule image_cong [OF refl])
    fix e assume "e \<in> {e \<in> set (loaded_grants d (xi_id x)). gg_mapping (fst e) \<notin> wanted}"
    then obtain g m where "e = (g, m)" "find_group_mapping d (gg_mapping g) = Some m"
      by (auto simp: set_loaded_grants)
    then show "gc_mapping (case e of (g, m) \<Rightarrow> stored_change d m) = (case e of (g, m) \<Rightarrow> gg_mapping g)"
      by (auto simp: stored find_group_mapping_def dest: find_SomeD)
  qed
  also have "\<dots> = held - wanted" unfolding held [symmetric] by force
  finally show "gc_mapping ` set (sp_remove v) = (if ip_sync_mode p = MANAGED then held - wanted else {})"
    unfolding rem keys by (simp add: case_prod_unfold)
  show "\<exists>next. next_role lc d x p c = Inr next \<and>
      sp_next v = map_option (\<lambda>m. role_change_of d m (rm_role m)) next" using nxt rest by blast
  show "sp_changed v = (map_option rc_mapping (current_role d (xi_id x)) \<noteq> map_option rc_mapping (sp_next v))"
    "sp_claims v = c" by (fact rest)+
qed

text \<open>The role mapping that wins: matched by the claims and strictly ahead of every other match.\<close>

definition best_role :: "db \<Rightarrow> ident \<Rightarrow> claims \<Rightarrow> role_mapping_row \<Rightarrow> bool" where
  "best_role d p c m \<longleftrightarrow> m \<in> mapped_roles d p c \<and>
     (\<forall>m' \<in> mapped_roles d p c. m' \<noteq> m \<longrightarrow> rm_priority m < rm_priority m')"

lemma next_role_None: "next_role lc d x p c = Inr None \<Longrightarrow> mapped_roles d (ip_id p) c = {}"
  unfolding set_matching_roles [of lc, symmetric]
  by (auto simp: next_role_def rbind_eq_Inr split: list.splits)

lemma next_role_Some:
  assumes "next_role lc d x p c = Inr (Some m)"
  shows "best_role d (ip_id p) c m" and "\<exists>r. find_role d (rm_role m) = Some r \<and>
      (ip_allow_admin_mapping p \<or> \<not> is_privileged_role d r)"
proof -
  let ?cmp = "\<lambda>l r. if rm_priority l - rm_priority r \<noteq> 0 then rm_priority l - rm_priority r
                     else lc (rm_id l) (rm_id r)"
  obtain rest where roles: "matching_roles lc d (ip_id p) c = m # rest"
    and uniq: "\<not> (\<exists>m' \<in> set rest. rm_priority m' = rm_priority m)"
    and role: "\<exists>r. find_role d (rm_role m) = Some r \<and> (ip_allow_admin_mapping p \<or> \<not> is_privileged_role d r)"
    using assms by (auto simp: next_role_def rbind_eq_Inr split: list.splits)
  have "decides_by rm_priority ?cmp" by (auto simp: decides_by_def)
  then have "\<forall>z \<in> set (matching_roles lc d (ip_id p) c).
      rm_priority (hd (matching_roles lc d (ip_id p) c)) \<le> rm_priority z"
    unfolding matching_roles_def set_sort_by by (rule sort_by_head)
  then have "\<forall>z \<in> mapped_roles d (ip_id p) c. rm_priority m \<le> rm_priority z"
    unfolding set_matching_roles [of lc, symmetric] roles by simp
  moreover have set: "mapped_roles d (ip_id p) c = insert m (set rest)"
    using set_matching_roles [of lc d "ip_id p" c] roles by simp
  ultimately show "best_role d (ip_id p) c m" using uniq unfolding best_role_def
    by (metis insert_iff order_le_imp_less_or_eq)
  show "\<exists>r. find_role d (rm_role m) = Some r \<and> (ip_allow_admin_mapping p \<or> \<not> is_privileged_role d r)"
    by (fact role)
qed

section \<open>What the transaction writes\<close>

abbreviation grant_key :: "group_grant_row \<Rightarrow> ident \<times> ident" where
  "grant_key g \<equiv> (gg_identity g, gg_mapping g)"

lemma add_groups_adds:
  assumes "add_groups fresh x cs d = Inr d'"
  shows "\<exists>ms gs. d' = d\<lparr>t_memberships := t_memberships d @ ms, t_group_grants := t_group_grants d @ gs\<rparr> \<and>
    map gg_mapping gs = map gc_mapping cs \<and>
    (\<forall>g \<in> set gs. gg_identity g = xi_id x \<and> (\<exists>a \<in> set cs. gc_mapping a = gg_mapping g \<and>
       (\<exists>m \<in> set (t_memberships d @ ms). m_id m = gg_membership g \<and> m_group m = gc_group a \<and> m_user m = xi_user x))) \<and>
    (\<forall>m \<in> set ms. m_user m = xi_user x \<and> m_role m = MEMBER \<and> \<not> m_local_grant m \<and>
       m_group m \<in> gc_group ` set cs \<and> (\<exists>g \<in> set gs. gg_membership g = m_id m)) \<and>
    (distinct (map m_id (t_memberships d)) \<longrightarrow> distinct (map m_id (t_memberships d @ ms))) \<and>
    (distinct (map (\<lambda>m. (m_group m, m_user m)) (t_memberships d)) \<longrightarrow>
       distinct (map (\<lambda>m. (m_group m, m_user m)) (t_memberships d @ ms))) \<and>
    (distinct (map grant_key (t_group_grants d)) \<longrightarrow> distinct (map grant_key (t_group_grants d @ gs)))"
  using assms
proof (induction cs arbitrary: d)
  case Nil
  then show ?case by (intro exI [of _ "[]"]) simp
next
  case (Cons a cs)
  let ?find = "List.find (\<lambda>m. (m_group m, m_user m) = (gc_group a, xi_user x)) (t_memberships d)"
  let ?new = "\<lparr>m_id = fresh (gc_mapping a), m_group = gc_group a, m_user = xi_user x,
                 m_role = MEMBER, m_local_grant = False\<rparr>"
  define first where "first = (case ?find of Some m \<Rightarrow> [] | None \<Rightarrow> [?new])"
  define mid where "mid = (case ?find of Some m \<Rightarrow> m_id m | None \<Rightarrow> fresh (gc_mapping a))"
  let ?g = "\<lparr>gg_membership = mid, gg_identity = xi_id x, gg_mapping = gc_mapping a\<rparr>"
  let ?d1 = "d\<lparr>t_memberships := t_memberships d @ first, t_group_grants := t_group_grants d @ [?g]\<rparr>"
  have run: "add_groups fresh x cs ?d1 = Inr d'"
    and new_id: "?find = None \<Longrightarrow> fresh (gc_mapping a) \<notin> m_id ` set (t_memberships d)"
    and new_grant: "(xi_id x, gc_mapping a) \<notin> grant_key ` set (t_group_grants d)"
    using Cons.prems by (auto simp: rbind_eq_Inr insert_row_eq_Inr first_def mid_def split: option.splits)
  have at: "\<exists>m \<in> set (t_memberships d @ first). m_id m = mid \<and> m_group m = gc_group a \<and> m_user m = xi_user x"
  proof (cases ?find)
    case None
    then show ?thesis by (simp add: first_def mid_def)
  next
    case (Some m)
    then have "m \<in> set (t_memberships d)" "m_group m = gc_group a" "m_user m = xi_user x"
      using find_SomeD [OF Some] by auto
    with Some show ?thesis by (auto simp: mid_def)
  qed
  have first: "m = ?new \<and> mid = m_id m" if "m \<in> set first" for m
    using that by (auto simp: first_def mid_def split: option.splits)
  have free: "?find = None \<Longrightarrow>
      (gc_group a, xi_user x) \<notin> (\<lambda>m. (m_group m, m_user m)) ` set (t_memberships d)"
    by (auto simp: find_None_iff)
  have first_cases: "first = [] \<or> first = [?new] \<and> m_id ?new \<notin> m_id ` set (t_memberships d) \<and>
      (m_group ?new, m_user ?new) \<notin> (\<lambda>m. (m_group m, m_user m)) ` set (t_memberships d)"
    using new_id free unfolding first_def by (cases ?find) (simp_all del: image_iff)
  have dist: "distinct (map m_id (t_memberships d)) \<Longrightarrow> distinct (map m_id (t_memberships d @ first))"
    "distinct (map (\<lambda>m. (m_group m, m_user m)) (t_memberships d)) \<Longrightarrow>
       distinct (map (\<lambda>m. (m_group m, m_user m)) (t_memberships d @ first))"
    "distinct (map grant_key (t_group_grants d)) \<Longrightarrow> distinct (map grant_key (t_group_grants d @ [?g]))"
    using first_cases new_grant by (elim disjE conjE; simp only: distinct_map_snoc append_Nil2; simp)+
  from Cons.IH [OF run] obtain ms gs where ih:
    "d' = ?d1\<lparr>t_memberships := t_memberships ?d1 @ ms, t_group_grants := t_group_grants ?d1 @ gs\<rparr>"
    "map gg_mapping gs = map gc_mapping cs"
    "\<forall>g \<in> set gs. gg_identity g = xi_id x \<and> (\<exists>a \<in> set cs. gc_mapping a = gg_mapping g \<and>
       (\<exists>m \<in> set (t_memberships ?d1 @ ms). m_id m = gg_membership g \<and> m_group m = gc_group a \<and> m_user m = xi_user x))"
    "\<forall>m \<in> set ms. m_user m = xi_user x \<and> m_role m = MEMBER \<and> \<not> m_local_grant m \<and>
       m_group m \<in> gc_group ` set cs \<and> (\<exists>g \<in> set gs. gg_membership g = m_id m)"
    "distinct (map m_id (t_memberships ?d1)) \<longrightarrow> distinct (map m_id (t_memberships ?d1 @ ms))"
    "distinct (map (\<lambda>m. (m_group m, m_user m)) (t_memberships ?d1)) \<longrightarrow>
       distinct (map (\<lambda>m. (m_group m, m_user m)) (t_memberships ?d1 @ ms))"
    "distinct (map grant_key (t_group_grants ?d1)) \<longrightarrow> distinct (map grant_key (t_group_grants ?d1 @ gs))"
    by blast
  show ?case
  proof (rule exI [of _ "first @ ms"], rule exI [of _ "?g # gs"], intro conjI)
    show "d' = d\<lparr>t_memberships := t_memberships d @ first @ ms, t_group_grants := t_group_grants d @ ?g # gs\<rparr>"
      using ih(1) by simp
    show "map gg_mapping (?g # gs) = map gc_mapping (a # cs)" using ih(2) by simp
    show "\<forall>g \<in> set (?g # gs). gg_identity g = xi_id x \<and> (\<exists>b \<in> set (a # cs). gc_mapping b = gg_mapping g \<and>
       (\<exists>m \<in> set (t_memberships d @ first @ ms). m_id m = gg_membership g \<and> m_group m = gc_group b \<and> m_user m = xi_user x))"
      using ih(3) at by fastforce
    show "\<forall>m \<in> set (first @ ms). m_user m = xi_user x \<and> m_role m = MEMBER \<and> \<not> m_local_grant m \<and>
       m_group m \<in> gc_group ` set (a # cs) \<and> (\<exists>g \<in> set (?g # gs). gg_membership g = m_id m)"
      using ih(4) first by fastforce
    show "distinct (map m_id (t_memberships d)) \<longrightarrow> distinct (map m_id (t_memberships d @ first @ ms))"
      using ih(5) dist(1) by simp
    show "distinct (map (\<lambda>m. (m_group m, m_user m)) (t_memberships d)) \<longrightarrow>
       distinct (map (\<lambda>m. (m_group m, m_user m)) (t_memberships d @ first @ ms))"
      using ih(6) dist(2) by simp
    show "distinct (map grant_key (t_group_grants d)) \<longrightarrow> distinct (map grant_key (t_group_grants d @ ?g # gs))"
      using ih(7) dist(3) by simp
  qed
qed

lemma remove_groups_eq:
  assumes "maps = [] \<Longrightarrow> mids = []"
  shows "remove_groups x maps mids d =
    (let gs = delete_where (\<lambda>g. gg_identity g = xi_id x \<and> gg_mapping g \<in> set maps) (t_group_grants d)
     in d\<lparr>t_group_grants := gs,
          t_memberships := delete_where (\<lambda>m. m_id m \<in> set mids \<and> \<not> m_local_grant m \<and>
            \<not> (\<exists>g \<in> set gs. gg_membership g = m_id m)) (t_memberships d)\<rparr>)"
  using assms by (cases "maps = []") (simp_all add: remove_groups_def delete_where_def Let_def)

text \<open>
  A successful transaction: the grants \<open>gs\<close> and memberships \<open>ms\<close> it adds, the mappings \<open>maps\<close> and
  memberships \<open>mids\<close> it takes away, and the tables afterwards.
\<close>

lemma sync_transaction_tables:
  assumes "sync_transaction lc fresh d i c = Inr (d', v)"
  obtains x p ms gs maps mids where
    "find_identity d i = Some x" and "find_provider d (xi_provider x) = Some p" and "xi_id x = i"
    and "build_preview lc d x p c = Inr v"
    and "add_groups fresh x (sp_add v) d =
      Inr (d\<lparr>t_memberships := t_memberships d @ ms, t_group_grants := t_group_grants d @ gs\<rparr>)"
    and "maps = map gc_mapping (sp_remove v)"
    and "set mids = gg_membership ` {g \<in> set (t_group_grants d). gg_identity g = i \<and> gg_mapping g \<in> set maps}"
    and "t_group_grants d' = delete_where (\<lambda>g. gg_identity g = i \<and> gg_mapping g \<in> set maps) (t_group_grants d @ gs)"
    and "t_memberships d' = delete_where (\<lambda>m. m_id m \<in> set mids \<and> \<not> m_local_grant m \<and>
      \<not> (\<exists>g \<in> set (t_group_grants d'). gg_membership g = m_id m)) (t_memberships d @ ms)"
    and "t_role_grants d' = t_role_grants (if sp_changed v then put_role_grant x (sp_next v) d else d)"
    and "t_identities d' = t_identities (store_claims i c d)"
    and "d'\<lparr>t_memberships := t_memberships d, t_group_grants := t_group_grants d,
        t_role_grants := t_role_grants d, t_identities := t_identities d\<rparr> = d"
proof -
  from assms obtain x p where xp: "find_identity d i = Some x" "find_provider d (xi_provider x) = Some p"
    "build_preview lc d x p c = Inr v"
    by (auto simp: sync_transaction_def rbind_eq_Inr Let_def)
  have id: "xi_id x = i" using xp(1) by (auto simp: find_identity_def dest: find_SomeD)
  let ?maps = "map gc_mapping (sp_remove v)"
  let ?mids = "map gg_membership (filter (\<lambda>g. gg_mapping g \<in> set ?maps) (group_grants_of d i))"
  from assms xp obtain d1 where d1: "add_groups fresh x (sp_add v) d = Inr d1"
    and d': "d' = store_claims i c (if sp_changed v then put_role_grant x (sp_next v) (remove_groups x ?maps ?mids d1)
       else remove_groups x ?maps ?mids d1)"
    by (auto simp: sync_transaction_def rbind_eq_Inr Let_def)
  obtain ms gs where new: "d1 = d\<lparr>t_memberships := t_memberships d @ ms, t_group_grants := t_group_grants d @ gs\<rparr>"
    using add_groups_adds [OF d1] by blast
  have mids: "set ?mids = gg_membership ` {g \<in> set (t_group_grants d). gg_identity g = i \<and> gg_mapping g \<in> set ?maps}"
    by (auto simp: group_grants_of_def)
  have removed: "remove_groups x ?maps ?mids d1 =
    (let gs = delete_where (\<lambda>g. gg_identity g = xi_id x \<and> gg_mapping g \<in> set ?maps) (t_group_grants d1)
     in d1\<lparr>t_group_grants := gs,
          t_memberships := delete_where (\<lambda>m. m_id m \<in> set ?mids \<and> \<not> m_local_grant m \<and>
            \<not> (\<exists>g \<in> set gs. gg_membership g = m_id m)) (t_memberships d1)\<rparr>)"
    by (rule remove_groups_eq) simp
  show thesis
  proof (rule that [OF xp(1,2) id xp(3) d1 [unfolded new] refl mids])
    show "t_group_grants d' = delete_where (\<lambda>g. gg_identity g = i \<and> gg_mapping g \<in> set ?maps) (t_group_grants d @ gs)"
      unfolding d' removed by (simp add: store_claims_def put_role_grant_def new id Let_def)
    then show "t_memberships d' = delete_where (\<lambda>m. m_id m \<in> set ?mids \<and> \<not> m_local_grant m \<and>
      \<not> (\<exists>g \<in> set (t_group_grants d'). gg_membership g = m_id m)) (t_memberships d @ ms)"
      unfolding d' removed by (simp add: store_claims_def put_role_grant_def new id Let_def)
    show "t_role_grants d' = t_role_grants (if sp_changed v then put_role_grant x (sp_next v) d else d)"
      "t_identities d' = t_identities (store_claims i c d)"
      "d'\<lparr>t_memberships := t_memberships d, t_group_grants := t_group_grants d,
        t_role_grants := t_role_grants d, t_identities := t_identities d\<rparr> = d"
      unfolding d' removed
      by (simp_all add: store_claims_def put_role_grant_def new Let_def split: option.split)
  qed
qed

section \<open>Invariants of the grants\<close>

text \<open>
  Every grant sits on a membership of its user in its mapping's group, every role grant names its
  mapping's role; and every membership has a reason: a local grant or an external one.
\<close>

definition grants_placed :: "db \<Rightarrow> bool" where
  "grants_placed d \<longleftrightarrow>
     (\<forall>g \<in> set (t_group_grants d). \<exists>m \<in> set (t_memberships d). \<exists>x \<in> set (t_identities d).
        \<exists>mp \<in> set (t_group_mappings d). m_id m = gg_membership g \<and> xi_id x = gg_identity g \<and>
          gm_id mp = gg_mapping g \<and> m_user m = xi_user x \<and> m_group m = gm_group mp) \<and>
     (\<forall>g \<in> set (t_role_grants d). \<exists>m \<in> set (t_role_mappings d).
        rm_id m = rg_mapping g \<and> rm_role m = rg_role g)"

definition memberships_backed :: "db \<Rightarrow> bool" where
  "memberships_backed d \<longleftrightarrow>
     (\<forall>m \<in> set (t_memberships d). m_local_grant m \<or>
        (\<exists>g \<in> set (t_group_grants d). gg_membership g = m_id m))"

lemma role_grant_of_Some:
  "distinct (map rg_identity (t_role_grants d)) \<Longrightarrow>
    role_grant_of d i = Some g \<longleftrightarrow> g \<in> set (t_role_grants d) \<and> rg_identity g = i"
  unfolding role_grant_of_def by (rule find_key_iff)

lemma find_role_mapping_iff:
  "identities_ok d \<Longrightarrow> find_role_mapping d i = Some m \<longleftrightarrow> m \<in> set (t_role_mappings d) \<and> rm_id m = i"
  unfolding find_role_mapping_def identities_ok_def by (simp add: find_key_iff)

lemma current_mapping:
  assumes "identities_ok d"
  shows "map_option rc_mapping (current_role d i) = map_option rg_mapping (role_grant_of d i)"
proof (cases "role_grant_of d i")
  case None
  then show ?thesis by (simp add: current_role_def)
next
  case (Some g)
  then have "g \<in> set (t_role_grants d)" by (auto simp: role_grant_of_def dest: find_SomeD)
  then have "rg_mapping g \<in> rm_id ` set (t_role_mappings d)"
    using assms by (simp add: identities_ok_def)
  then obtain m where "m \<in> set (t_role_mappings d)" "rm_id m = rg_mapping g" by auto
  then have "find_role_mapping d (rg_mapping g) = Some m" using find_role_mapping_iff [OF assms] by simp
  with Some \<open>rm_id m = rg_mapping g\<close> show ?thesis by (simp add: current_role_def role_change_of_def)
qed

lemma role_grants_after:
  assumes ok: "identities_ok d" and placed: "grants_placed d" and x: "xi_id x = i"
    and run: "build_preview lc d x p c = Inr v"
  defines "d1 \<equiv> (if sp_changed v then put_role_grant x (sp_next v) d else d)"
  shows "case role_grant_of d1 i of
      None \<Rightarrow> mapped_roles d (ip_id p) c = {}
    | Some g \<Rightarrow> \<exists>m. best_role d (ip_id p) c m \<and> rg_mapping g = rm_id m \<and> rg_role g = rm_role m"
    and "distinct (map rg_identity (t_role_grants d1))"
    and "\<forall>g. rg_identity g \<noteq> i \<longrightarrow> g \<in> set (t_role_grants d1) \<longleftrightarrow> g \<in> set (t_role_grants d)"
    and "map_option rg_mapping (role_grant_of d1 i) = map_option rc_mapping (sp_next v)"
proof -
  obtain "next" where nxt: "next_role lc d x p c = Inr next"
    and sp: "sp_next v = map_option (\<lambda>m. role_change_of d m (rm_role m)) next"
    using build_preview_groups(5) [OF ok run] by blast
  have changed: "sp_changed v \<longleftrightarrow> map_option rg_mapping (role_grant_of d i) \<noteq> map_option rm_id next"
    using build_preview_groups(6) [OF ok run] current_mapping [OF ok] sp x
    by (simp add: option.map_comp comp_def role_change_of_def)
  have dist: "distinct (map rg_identity (t_role_grants d))" using ok by (simp add: identities_ok_def)
  let ?f = "\<lambda>c g. g\<lparr>rg_mapping := rc_mapping c, rg_role := rc_role c\<rparr>"
  have "role_grant_of d1 i = (if sp_changed v then
      map_option (\<lambda>m. \<lparr>rg_identity = i, rg_mapping = rm_id m, rg_role = rm_role m\<rparr>) next
      else role_grant_of d i) \<and> distinct (map rg_identity (t_role_grants d1)) \<and>
      (\<forall>g. rg_identity g \<noteq> i \<longrightarrow> g \<in> set (t_role_grants d1) \<longleftrightarrow> g \<in> set (t_role_grants d))"
  proof (cases "sp_changed v")
    case False
    then show ?thesis using dist by (simp add: d1_def)
  next
    case True
    show ?thesis
    proof (cases "next")
      case None
      then have t: "t_role_grants d1 = delete_where (\<lambda>g. rg_identity g = i) (t_role_grants d)"
        using True sp x by (simp add: d1_def put_role_grant_def)
      then have "role_grant_of d1 i = None"
        by (auto simp: role_grant_of_def find_None_iff row_simps)
      with t True None dist show ?thesis by (simp add: distinct_delete_where row_simps)
    next
      case (Some m)
      show ?thesis
      proof (cases "\<exists>g \<in> set (t_role_grants d). rg_identity g = i")
        case held: True
        then obtain g where g: "g \<in> set (t_role_grants d)" "rg_identity g = i" by blast
        let ?u = "update_where (\<lambda>g. rg_identity g = i) (?f (role_change_of d m (rm_role m))) (t_role_grants d)"
        have t: "t_role_grants d1 = ?u"
          using True Some held sp x by (simp add: d1_def put_role_grant_def)
        have d: "distinct (map rg_identity ?u)" using dist by (subst map_update_where) simp_all
        have "?f (role_change_of d m (rm_role m)) g \<in> set ?u" using g by (force simp: row_simps)
        then have "role_grant_of d1 i = Some (?f (role_change_of d m (rm_role m)) g)"
          using d g(2) by (simp add: role_grant_of_Some t)
        with t d True Some g(2) show ?thesis
          by (auto simp: role_change_of_def row_simps image_iff)
      next
        case fresh: False
        let ?n = "\<lparr>rg_identity = i, rg_mapping = rm_id m, rg_role = rm_role m\<rparr>"
        have t: "t_role_grants d1 = t_role_grants d @ [?n]"
          using True Some fresh sp x by (simp add: d1_def put_role_grant_def role_change_of_def)
        have d: "distinct (map rg_identity (t_role_grants d @ [?n]))" using dist fresh by auto
        then have "role_grant_of d1 i = Some ?n" by (simp add: role_grant_of_Some t)
        with t d True Some show ?thesis by auto
      qed
    qed
  qed
  then have grant: "role_grant_of d1 i = (if sp_changed v then
      map_option (\<lambda>m. \<lparr>rg_identity = i, rg_mapping = rm_id m, rg_role = rm_role m\<rparr>) next
      else role_grant_of d i)"
    and rest: "distinct (map rg_identity (t_role_grants d1))"
      "\<forall>g. rg_identity g \<noteq> i \<longrightarrow> g \<in> set (t_role_grants d1) \<longleftrightarrow> g \<in> set (t_role_grants d)" by blast+
  show "distinct (map rg_identity (t_role_grants d1))"
    "\<forall>g. rg_identity g \<noteq> i \<longrightarrow> g \<in> set (t_role_grants d1) \<longleftrightarrow> g \<in> set (t_role_grants d)" by (fact rest)+
  have mapping: "map_option rg_mapping (role_grant_of d1 i) = map_option rm_id next"
    using grant changed by (simp add: option.map_comp comp_def)
  then show "map_option rg_mapping (role_grant_of d1 i) = map_option rc_mapping (sp_next v)"
    unfolding sp by (simp add: option.map_comp comp_def role_change_of_def)
  show "case role_grant_of d1 i of
      None \<Rightarrow> mapped_roles d (ip_id p) c = {}
    | Some g \<Rightarrow> \<exists>m. best_role d (ip_id p) c m \<and> rg_mapping g = rm_id m \<and> rg_role g = rm_role m"
  proof (cases "role_grant_of d1 i")
    case None
    with mapping nxt show ?thesis by (simp add: next_role_None)
  next
    case (Some g)
    with mapping obtain m where m: "next = Some m" "rg_mapping g = rm_id m" by (cases "next") auto
    then have best: "best_role d (ip_id p) c m" using nxt next_role_Some(1) by blast
    have "rg_role g = rm_role m"
    proof (cases "sp_changed v")
      case True
      with grant Some m show ?thesis by auto
    next
      case False
      with grant Some have "role_grant_of d i = Some g" by simp
      then have "g \<in> set (t_role_grants d)" using dist by (simp add: role_grant_of_Some)
      with placed obtain m' where m': "m' \<in> set (t_role_mappings d)" "rm_id m' = rg_mapping g" "rm_role m' = rg_role g"
        unfolding grants_placed_def by blast
      have "m \<in> set (t_role_mappings d)" using best by (simp add: best_role_def mapped_roles_def)
      moreover have "distinct (map rm_id (t_role_mappings d))" using ok by (simp add: identities_ok_def)
      ultimately have "m' = m" using m' m(2) unique_key_eq by fastforce
      with m' show ?thesis by simp
    qed
    with Some best m show ?thesis by auto
  qed
qed

lemma find_identity_iff:
  "identities_ok d \<Longrightarrow> find_identity d i = Some x \<longleftrightarrow> x \<in> set (t_identities d) \<and> xi_id x = i"
  unfolding find_identity_def identities_ok_def by (simp add: find_key_iff)

lemma find_provider_iff:
  "identities_ok d \<Longrightarrow> find_provider d i = Some p \<longleftrightarrow> p \<in> set (t_providers d) \<and> ip_id p = i"
  unfolding find_provider_def identities_ok_def by (simp add: find_key_iff)

text \<open>The rows of \<open>external_identities\<close> keep their columns apart from claims and error.\<close>

lemma set_store_claims:
  "y \<in> set (t_identities (store_claims i c d)) \<Longrightarrow> \<exists>x \<in> set (t_identities d). xi_id y = xi_id x \<and>
     xi_user y = xi_user x \<and> xi_provider y = xi_provider x"
  by (auto simp: store_claims_def row_simps)

lemma keys_store_claims:
  "map (\<lambda>x. (xi_id x, xi_user x, xi_provider x)) (t_identities (store_claims i c d)) =
   map (\<lambda>x. (xi_id x, xi_user x, xi_provider x)) (t_identities d)"
  by (simp add: store_claims_def map_update_where)

lemma identity_columns:
  assumes "map (\<lambda>x. (xi_id x, xi_user x, xi_provider x)) xs = map (\<lambda>x. (xi_id x, xi_user x, xi_provider x)) ys"
  shows "map xi_id xs = map xi_id ys"
    and "map (\<lambda>x. (xi_provider x, xi_user x)) xs = map (\<lambda>x. (xi_provider x, xi_user x)) ys"
    and "x \<in> set xs \<Longrightarrow> \<exists>y \<in> set ys. xi_id y = xi_id x \<and> xi_user y = xi_user x \<and> xi_provider y = xi_provider x"
proof -
  show "map xi_id xs = map xi_id ys"
    using arg_cong [OF assms, of "map fst"] by (simp add: comp_def)
  show "map (\<lambda>x. (xi_provider x, xi_user x)) xs = map (\<lambda>x. (xi_provider x, xi_user x)) ys"
    using arg_cong [OF assms, of "map (\<lambda>(a, b, c). (c, b))"] by (simp add: comp_def)
  assume "x \<in> set xs"
  then have "(xi_id x, xi_user x, xi_provider x) \<in> set (map (\<lambda>x. (xi_id x, xi_user x, xi_provider x)) xs)"
    by auto
  then show "\<exists>y \<in> set ys. xi_id y = xi_id x \<and> xi_user y = xi_user x \<and> xi_provider y = xi_provider x"
    unfolding assms by auto
qed

text \<open>One transaction, put together: which grants there are afterwards, and what stays consistent.\<close>

definition held :: "db \<Rightarrow> ident \<Rightarrow> ident set" where
  "held d i = gg_mapping ` {g \<in> set (t_group_grants d). gg_identity g = i}"

lemma sync_outcome:
  assumes identities: "identities_ok d" and groups: "groups_ok d"
    and run: "sync_transaction lc fresh d i c = Inr (d', v)"
  obtains x p maps gs mids ms where
    "find_identity d i = Some x" and "find_provider d (xi_provider x) = Some p" and "xi_id x = i"
    and "build_preview lc d x p c = Inr v"
    and "set maps = (if ip_sync_mode p = MANAGED then held d i - gm_id ` mapped_groups d (ip_id p) c else {})"
    and "gg_mapping ` set gs = gm_id ` mapped_groups d (ip_id p) c - held d i"
    and "set mids = gg_membership ` {g \<in> set (t_group_grants d). gg_identity g = i \<and> gg_mapping g \<in> set maps}"
    and "t_group_grants d' = delete_where (\<lambda>g. gg_identity g = i \<and> gg_mapping g \<in> set maps) (t_group_grants d @ gs)"
    and "t_memberships d' = delete_where (\<lambda>m. m_id m \<in> set mids \<and> \<not> m_local_grant m \<and>
      \<not> (\<exists>g \<in> set (t_group_grants d'). gg_membership g = m_id m)) (t_memberships d @ ms)"
    and "\<forall>g \<in> set gs. gg_identity g = i \<and> (\<exists>mp \<in> set (t_group_mappings d). gm_id mp = gg_mapping g \<and>
       (\<exists>m \<in> set (t_memberships d @ ms). m_id m = gg_membership g \<and> m_group m = gm_group mp \<and> m_user m = xi_user x))"
    and "\<forall>m \<in> set ms. m_user m = xi_user x \<and> m_role m = MEMBER \<and> \<not> m_local_grant m \<and>
       m_group m \<in> g_id ` set (t_groups d) \<and> (\<exists>g \<in> set gs. gg_membership g = m_id m)"
    and "distinct (map m_id (t_memberships d @ ms))"
    and "distinct (map (\<lambda>m. (m_group m, m_user m)) (t_memberships d @ ms))"
    and "distinct (map grant_key (t_group_grants d @ gs))"
proof -
  obtain x p ms gs maps mids where r:
    "find_identity d i = Some x" "find_provider d (xi_provider x) = Some p" "xi_id x = i"
    "build_preview lc d x p c = Inr v"
    "add_groups fresh x (sp_add v) d =
      Inr (d\<lparr>t_memberships := t_memberships d @ ms, t_group_grants := t_group_grants d @ gs\<rparr>)"
    "maps = map gc_mapping (sp_remove v)"
    "set mids = gg_membership ` {g \<in> set (t_group_grants d). gg_identity g = i \<and> gg_mapping g \<in> set maps}"
    "t_group_grants d' = delete_where (\<lambda>g. gg_identity g = i \<and> gg_mapping g \<in> set maps) (t_group_grants d @ gs)"
    "t_memberships d' = delete_where (\<lambda>m. m_id m \<in> set mids \<and> \<not> m_local_grant m \<and>
      \<not> (\<exists>g \<in> set (t_group_grants d'). gg_membership g = m_id m)) (t_memberships d @ ms)"
    using sync_transaction_tables [OF run] .
  note pre = build_preview_groups [OF identities r(4), unfolded r(3), folded held_def]
  have maps: "set maps = (if ip_sync_mode p = MANAGED then held d i - gm_id ` mapped_groups d (ip_id p) c else {})"
    unfolding r(6) using pre(4) by simp
  obtain ms' gs' where a: "d\<lparr>t_memberships := t_memberships d @ ms, t_group_grants := t_group_grants d @ gs\<rparr> =
      d\<lparr>t_memberships := t_memberships d @ ms', t_group_grants := t_group_grants d @ gs'\<rparr>"
    "map gg_mapping gs' = map gc_mapping (sp_add v)"
    "\<forall>g \<in> set gs'. gg_identity g = xi_id x \<and> (\<exists>a \<in> set (sp_add v). gc_mapping a = gg_mapping g \<and>
       (\<exists>m \<in> set (t_memberships d @ ms'). m_id m = gg_membership g \<and> m_group m = gc_group a \<and> m_user m = xi_user x))"
    "\<forall>m \<in> set ms'. m_user m = xi_user x \<and> m_role m = MEMBER \<and> \<not> m_local_grant m \<and>
       m_group m \<in> gc_group ` set (sp_add v) \<and> (\<exists>g \<in> set gs'. gg_membership g = m_id m)"
    "distinct (map m_id (t_memberships d)) \<longrightarrow> distinct (map m_id (t_memberships d @ ms'))"
    "distinct (map (\<lambda>m. (m_group m, m_user m)) (t_memberships d)) \<longrightarrow>
       distinct (map (\<lambda>m. (m_group m, m_user m)) (t_memberships d @ ms'))"
    "distinct (map grant_key (t_group_grants d)) \<longrightarrow> distinct (map grant_key (t_group_grants d @ gs'))"
    using add_groups_adds [OF r(5)] by blast
  have same: "ms' = ms" "gs' = gs"
    using arg_cong [OF a(1), of t_memberships] arg_cong [OF a(1), of t_group_grants] by simp_all
  note a = a [unfolded same]
  have gs: "gg_mapping ` set gs = gm_id ` mapped_groups d (ip_id p) c - held d i"
    using arg_cong [OF a(2), of set] pre(1) by simp
  have "gg_identity g = i \<and> (\<exists>mp \<in> set (t_group_mappings d). gm_id mp = gg_mapping g \<and>
       (\<exists>m \<in> set (t_memberships d @ ms). m_id m = gg_membership g \<and> m_group m = gm_group mp \<and> m_user m = xi_user x))"
    if "g \<in> set gs" for g
    using a(3) pre(3) that r(3) by fastforce
  moreover have "m_user m = xi_user x \<and> m_role m = MEMBER \<and> \<not> m_local_grant m \<and>
       m_group m \<in> g_id ` set (t_groups d) \<and> (\<exists>g \<in> set gs. gg_membership g = m_id m)" if m: "m \<in> set ms" for m
  proof -
    obtain b where "b \<in> set (sp_add v)" "m_group m = gc_group b" using a(4) m by blast
    then obtain mp where "mp \<in> set (t_group_mappings d)" "m_group m = gm_group mp" using pre(3) by fastforce
    then have "m_group m \<in> g_id ` set (t_groups d)" using identities by (simp add: identities_ok_def)
    with a(4) m show ?thesis by blast
  qed
  moreover have "distinct (map m_id (t_memberships d))"
    "distinct (map (\<lambda>m. (m_group m, m_user m)) (t_memberships d))"
    "distinct (map grant_key (t_group_grants d))"
    using identities groups by (simp_all add: identities_ok_def groups_ok_def)
  ultimately show thesis using that [OF r(1-4) maps gs r(7-9)] a(5-7) by blast
qed

lemma sync_role_tables:
  assumes identities: "identities_ok d" and placed: "grants_placed d"
    and run: "sync_transaction lc fresh d i c = Inr (d', v)"
    and at: "find_identity d i = Some x" "find_provider d (xi_provider x) = Some p"
  shows "case role_grant_of d' i of
      None \<Rightarrow> mapped_roles d (ip_id p) c = {}
    | Some g \<Rightarrow> \<exists>m. best_role d (ip_id p) c m \<and> rg_mapping g = rm_id m \<and> rg_role g = rm_role m"
    and "distinct (map rg_identity (t_role_grants d'))"
    and "\<And>g. rg_identity g \<noteq> i \<Longrightarrow> g \<in> set (t_role_grants d') \<longleftrightarrow> g \<in> set (t_role_grants d)"
    and "map_option rg_mapping (role_grant_of d' i) = map_option rc_mapping (sp_next v)"
    and "map (\<lambda>x. (xi_id x, xi_user x, xi_provider x)) (t_identities d') =
      map (\<lambda>x. (xi_id x, xi_user x, xi_provider x)) (t_identities d)"
    and "d'\<lparr>t_memberships := t_memberships d, t_group_grants := t_group_grants d,
        t_role_grants := t_role_grants d, t_identities := t_identities d\<rparr> = d"
proof -
  obtain y q ms gs maps mids where
    "find_identity d i = Some y" "find_provider d (xi_provider y) = Some q" "xi_id y = i"
    "build_preview lc d y q c = Inr v"
    "add_groups fresh y (sp_add v) d =
      Inr (d\<lparr>t_memberships := t_memberships d @ ms, t_group_grants := t_group_grants d @ gs\<rparr>)"
    "maps = map gc_mapping (sp_remove v)"
    "set mids = gg_membership ` {g \<in> set (t_group_grants d). gg_identity g = i \<and> gg_mapping g \<in> set maps}"
    "t_group_grants d' = delete_where (\<lambda>g. gg_identity g = i \<and> gg_mapping g \<in> set maps) (t_group_grants d @ gs)"
    "t_memberships d' = delete_where (\<lambda>m. m_id m \<in> set mids \<and> \<not> m_local_grant m \<and>
      \<not> (\<exists>g \<in> set (t_group_grants d'). gg_membership g = m_id m)) (t_memberships d @ ms)"
    and tabs: "t_role_grants d' = t_role_grants (if sp_changed v then put_role_grant y (sp_next v) d else d)"
    "t_identities d' = t_identities (store_claims i c d)"
    "d'\<lparr>t_memberships := t_memberships d, t_group_grants := t_group_grants d,
        t_role_grants := t_role_grants d, t_identities := t_identities d\<rparr> = d"
    using sync_transaction_tables [OF run] .
  note r = this(1-4) tabs
  have same: "y = x" "q = p" using r(1,2) at by simp_all
  note s = role_grants_after [OF identities placed r(3,4), unfolded same]
  have grant: "role_grant_of d' i = role_grant_of (if sp_changed v then put_role_grant x (sp_next v) d else d) i"
    unfolding role_grant_of_def r(5) same ..
  show "case role_grant_of d' i of
      None \<Rightarrow> mapped_roles d (ip_id p) c = {}
    | Some g \<Rightarrow> \<exists>m. best_role d (ip_id p) c m \<and> rg_mapping g = rm_id m \<and> rg_role g = rm_role m"
    "map_option rg_mapping (role_grant_of d' i) = map_option rc_mapping (sp_next v)"
    unfolding grant by (fact s(1), fact s(4))
  show "distinct (map rg_identity (t_role_grants d'))" unfolding r(5) same by (fact s(2))
  show "g \<in> set (t_role_grants d') \<longleftrightarrow> g \<in> set (t_role_grants d)" if "rg_identity g \<noteq> i" for g
    using s(3) that unfolding r(5) same by blast
  show "map (\<lambda>x. (xi_id x, xi_user x, xi_provider x)) (t_identities d') =
      map (\<lambda>x. (xi_id x, xi_user x, xi_provider x)) (t_identities d)"
    unfolding r(6) by (rule keys_store_claims)
  show "d'\<lparr>t_memberships := t_memberships d, t_group_grants := t_group_grants d,
        t_role_grants := t_role_grants d, t_identities := t_identities d\<rparr> = d" by (fact r(7))
qed

lemma untouched_tables:
  assumes "d'\<lparr>t_memberships := t_memberships d, t_group_grants := t_group_grants d,
        t_role_grants := t_role_grants d, t_identities := t_identities d\<rparr> = d"
  shows "t_users d' = t_users d" "t_roles d' = t_roles d" "t_acls d' = t_acls d"
    "t_providers d' = t_providers d" "t_groups d' = t_groups d"
    "t_group_mappings d' = t_group_mappings d" "t_role_mappings d' = t_role_mappings d"
  using arg_cong [OF assms, of t_users] arg_cong [OF assms, of t_roles] arg_cong [OF assms, of t_acls]
    arg_cong [OF assms, of t_providers] arg_cong [OF assms, of t_groups]
    arg_cong [OF assms, of t_group_mappings] arg_cong [OF assms, of t_role_mappings]
  by simp_all

lemma sync_grants_after:
  assumes "identities_ok d" and "groups_ok d" and "sync_transaction lc fresh d i c = Inr (d', v)"
    and "find_identity d i = Some x" and "find_provider d (xi_provider x) = Some p"
  shows "held d' i = gm_id ` mapped_groups d (ip_id p) c \<union> (if ip_sync_mode p = ADD_ONLY then held d i else {})"
    and "\<And>g. gg_identity g \<noteq> i \<Longrightarrow> g \<in> set (t_group_grants d') \<longleftrightarrow> g \<in> set (t_group_grants d)"
proof -
  let ?wanted = "gm_id ` mapped_groups d (ip_id p) c"
  obtain y q maps gs mids ms where r: "find_identity d i = Some y" "find_provider d (xi_provider y) = Some q"
    "xi_id y = i" "build_preview lc d y q c = Inr v"
    "set maps = (if ip_sync_mode q = MANAGED then held d i - gm_id ` mapped_groups d (ip_id q) c else {})"
    "gg_mapping ` set gs = gm_id ` mapped_groups d (ip_id q) c - held d i"
    "set mids = gg_membership ` {g \<in> set (t_group_grants d). gg_identity g = i \<and> gg_mapping g \<in> set maps}"
    "t_group_grants d' = delete_where (\<lambda>g. gg_identity g = i \<and> gg_mapping g \<in> set maps) (t_group_grants d @ gs)"
    "t_memberships d' = delete_where (\<lambda>m. m_id m \<in> set mids \<and> \<not> m_local_grant m \<and>
      \<not> (\<exists>g \<in> set (t_group_grants d'). gg_membership g = m_id m)) (t_memberships d @ ms)"
    and new': "\<forall>g \<in> set gs. gg_identity g = i \<and> (\<exists>mp \<in> set (t_group_mappings d). gm_id mp = gg_mapping g \<and>
       (\<exists>m \<in> set (t_memberships d @ ms). m_id m = gg_membership g \<and> m_group m = gm_group mp \<and> m_user m = xi_user y))"
    and "\<forall>m \<in> set ms. m_user m = xi_user y \<and> m_role m = MEMBER \<and> \<not> m_local_grant m \<and>
       m_group m \<in> g_id ` set (t_groups d) \<and> (\<exists>g \<in> set gs. gg_membership g = m_id m)"
    and "distinct (map m_id (t_memberships d @ ms))"
      "distinct (map (\<lambda>m. (m_group m, m_user m)) (t_memberships d @ ms))"
      "distinct (map grant_key (t_group_grants d @ gs))"
    using sync_outcome [OF assms(1-3)] .
  have new: "\<forall>g \<in> set gs. gg_identity g = i" using new' by blast
  have q: "q = p" using r(1,2) assms(4,5) by simp
  have "held d' i = (held d i \<union> gg_mapping ` set gs) - set maps"
    unfolding held_def r(8) row_simps using new by auto
  also have "\<dots> = ?wanted \<union> (if ip_sync_mode p = ADD_ONLY then held d i else {})"
    unfolding r(5,6) q by (cases "ip_sync_mode p") auto
  finally show "held d' i = ?wanted \<union> (if ip_sync_mode p = ADD_ONLY then held d i else {})" .
  show "g \<in> set (t_group_grants d') \<longleftrightarrow> g \<in> set (t_group_grants d)" if "gg_identity g \<noteq> i" for g
    unfolding r(8) row_simps using that new by auto
qed

lemma sync_keeps_ok:
  assumes ok: "identities_ok d" "groups_ok d" and placed: "grants_placed d"
    and run: "sync_transaction lc fresh d i c = Inr (d', v)"
  shows "identities_ok d'" and "groups_ok d'" and "grants_placed d'"
    and "memberships_backed d \<Longrightarrow> memberships_backed d'"
proof -
  obtain x p maps gs mids ms where at: "find_identity d i = Some x" "find_provider d (xi_provider x) = Some p"
    "xi_id x = i" "build_preview lc d x p c = Inr v"
    and maps: "set maps = (if ip_sync_mode p = MANAGED then held d i - gm_id ` mapped_groups d (ip_id p) c else {})"
      "gg_mapping ` set gs = gm_id ` mapped_groups d (ip_id p) c - held d i"
      "set mids = gg_membership ` {g \<in> set (t_group_grants d). gg_identity g = i \<and> gg_mapping g \<in> set maps}"
    and G: "t_group_grants d' = delete_where (\<lambda>g. gg_identity g = i \<and> gg_mapping g \<in> set maps) (t_group_grants d @ gs)"
    and M: "t_memberships d' = delete_where (\<lambda>m. m_id m \<in> set mids \<and> \<not> m_local_grant m \<and>
      \<not> (\<exists>g \<in> set (t_group_grants d'). gg_membership g = m_id m)) (t_memberships d @ ms)"
    and gs: "\<forall>g \<in> set gs. gg_identity g = i \<and> (\<exists>mp \<in> set (t_group_mappings d). gm_id mp = gg_mapping g \<and>
       (\<exists>m \<in> set (t_memberships d @ ms). m_id m = gg_membership g \<and> m_group m = gm_group mp \<and> m_user m = xi_user x))"
    and ms: "\<forall>m \<in> set ms. m_user m = xi_user x \<and> m_role m = MEMBER \<and> \<not> m_local_grant m \<and>
       m_group m \<in> g_id ` set (t_groups d) \<and> (\<exists>g \<in> set gs. gg_membership g = m_id m)"
    and dist: "distinct (map m_id (t_memberships d @ ms))"
      "distinct (map (\<lambda>m. (m_group m, m_user m)) (t_memberships d @ ms))"
      "distinct (map grant_key (t_group_grants d @ gs))"
    using sync_outcome [OF ok run] .
  note role = sync_role_tables [OF ok(1) placed run at(1,2)]
  note same = untouched_tables [OF role(6)]
  note cols = identity_columns [OF role(5)] identity_columns(3) [OF role(5) [symmetric]]
  have x: "x \<in> set (t_identities d)" using at(1) by (auto simp: find_identity_def dest: find_SomeD)
  have ids: "xi_id ` set (t_identities d') = xi_id ` set (t_identities d)"
    using arg_cong [OF cols(1), of set] by simp
  have kept: "m \<in> set (t_memberships d')" if "m \<in> set (t_memberships d @ ms)" "g \<in> set (t_group_grants d')"
    "gg_membership g = m_id m" for m g
    using that unfolding M row_simps by blast
  have at_grant: "\<exists>m \<in> set (t_memberships d'). \<exists>y \<in> set (t_identities d'). \<exists>mp \<in> set (t_group_mappings d').
      m_id m = gg_membership g \<and> xi_id y = gg_identity g \<and> gm_id mp = gg_mapping g \<and>
      m_user m = xi_user y \<and> m_group m = gm_group mp" if g: "g \<in> set (t_group_grants d')" for g
  proof -
    have "g \<in> set (t_group_grants d) \<or> g \<in> set gs" using g unfolding G row_simps by auto
    then obtain m y mp where "m \<in> set (t_memberships d @ ms)" "y \<in> set (t_identities d)"
      "mp \<in> set (t_group_mappings d)" and eqs: "m_id m = gg_membership g" "xi_id y = gg_identity g"
      "gm_id mp = gg_mapping g" "m_user m = xi_user y" "m_group m = gm_group mp"
    proof
      assume "g \<in> set (t_group_grants d)"
      with placed that show thesis unfolding grants_placed_def by fastforce
    next
      assume "g \<in> set gs"
      with gs x at(3) that show thesis by fastforce
    qed
    moreover from this obtain z where "z \<in> set (t_identities d')" "xi_id z = xi_id y" "xi_user z = xi_user y"
      using cols(4) by blast
    ultimately show ?thesis using kept g unfolding same by metis
  qed
  have rg_at: "\<exists>m \<in> set (t_role_mappings d). rm_id m = rg_mapping g \<and> rm_role m = rg_role g"
    if g: "g \<in> set (t_role_grants d')" for g
  proof (cases "rg_identity g = i")
    case True
    then have "role_grant_of d' i = Some g" using g role(2) by (simp add: role_grant_of_Some)
    with role(1) show ?thesis by (auto simp: best_role_def mapped_roles_def)
  next
    case False
    with g role(3) placed show ?thesis by (simp add: grants_placed_def)
  qed
  have rg_id: "rg_identity g \<in> xi_id ` set (t_identities d)" if g: "g \<in> set (t_role_grants d')" for g
  proof (cases "rg_identity g = i")
    case True
    with x at(3) show ?thesis by auto
  next
    case False
    with g role(3) ok(1) show ?thesis by (simp add: identities_ok_def)
  qed
  show "grants_placed d'"
    unfolding grants_placed_def using at_grant rg_at same(7) by simp
  have gdist: "distinct (map grant_key (t_group_grants d'))"
    unfolding G using dist(3) by (rule distinct_delete_where)
  have gfk: "gg_identity g \<in> xi_id ` set (t_identities d') \<and> gg_mapping g \<in> gm_id ` set (t_group_mappings d')"
    if "g \<in> set (t_group_grants d')" for g
    using at_grant [OF that] by force
  have xfk: "xi_provider y \<in> ip_id ` set (t_providers d)" if y: "y \<in> set (t_identities d')" for y
  proof -
    obtain z where z: "z \<in> set (t_identities d)" "xi_provider z = xi_provider y" using cols(3) [OF y] by blast
    have "xi_provider z \<in> ip_id ` set (t_providers d)" using ok(1) z(1) by (simp add: identities_ok_def)
    with z(2) show ?thesis by simp
  qed
  show "identities_ok d'"
    using ok(1) gdist gfk xfk role(2) rg_at rg_id unfolding identities_ok_def same cols(1,2) ids
    by (smt (verit, ccfv_threshold) imageI)
  show "groups_ok d'"
  proof -
    have "distinct (map m_id (t_memberships d'))" "distinct (map (\<lambda>m. (m_group m, m_user m)) (t_memberships d'))"
      unfolding M using dist(1,2) by (simp_all only: distinct_delete_where)
    moreover have "m_group m \<in> g_id ` set (t_groups d)" if "m \<in> set (t_memberships d')" for m
      using that ms ok(2) unfolding M row_simps by (auto simp: groups_ok_def)
    moreover have "gg_membership g \<in> m_id ` set (t_memberships d')" if "g \<in> set (t_group_grants d')" for g
      using at_grant [OF that] by force
    ultimately show ?thesis using ok(2) unfolding groups_ok_def same by blast
  qed
  assume backed: "memberships_backed d"
  have new_kept: "g \<in> set (t_group_grants d')" if "g \<in> set gs" for g
  proof -
    have "gg_mapping g \<in> gm_id ` mapped_groups d (ip_id p) c - held d i" using that maps(2) by blast
    then have "gg_mapping g \<notin> set maps" unfolding maps(1) by auto
    with that show ?thesis unfolding G row_simps by simp
  qed
  show "memberships_backed d'"
    unfolding memberships_backed_def
  proof
    fix m assume m: "m \<in> set (t_memberships d')"
    show "m_local_grant m \<or> (\<exists>g \<in> set (t_group_grants d'). gg_membership g = m_id m)"
    proof (cases "m \<in> set ms")
      case True
      with ms new_kept show ?thesis by blast
    next
      case False
      then have old: "m \<in> set (t_memberships d)" using m unfolding M row_simps by auto
      show ?thesis
      proof (rule ccontr)
        assume no: "\<not> ?thesis"
        with backed old obtain g where g: "g \<in> set (t_group_grants d)" "gg_membership g = m_id m"
          unfolding memberships_backed_def by blast
        with no have "g \<notin> set (t_group_grants d')" by blast
        with g(1) have "gg_identity g = i \<and> gg_mapping g \<in> set maps" unfolding G row_simps by auto
        with g have "m_id m \<in> set mids" unfolding maps(3) by (metis (mono_tags) image_eqI mem_Collect_eq)
        with m no show False unfolding M row_simps by simp
      qed
    qed
  qed
qed

lemma synchronize_cases:
  assumes "synchronize lc fresh d i j = (d', out)"
  shows "(\<exists>e. out = Inl e \<and> (d' = d \<or> d' = record_failure d i e)) \<or>
    (\<exists>x p c v. find_identity d i = Some x \<and> find_provider d (xi_provider x) = Some p \<and>
       normalize_provider_claims lc d x p j = Inr c \<and>
       sync_transaction lc fresh d i c = Inr (d', v) \<and> out = Inr v)"
  using assms
  by (auto simp: synchronize_def apply_claims_def split: option.splits sum.splits prod.splits)

section \<open>A second run\<close>

lemma target_groups_cong:
  "t_groups d' = t_groups d \<Longrightarrow> target_groups d' ms vs t m = target_groups d ms vs t m"
  by (induction vs arbitrary: t m)
    (auto simp: group_change_of_def group_name_def find_group_def split: list.split)

lemma priority_taken_cong:
  assumes "map (\<lambda>x. (xi_id x, xi_user x, xi_provider x)) (t_identities d') =
      map (\<lambda>x. (xi_id x, xi_user x, xi_provider x)) (t_identities d)"
    and "xi_id x' = xi_id x" and "xi_user x' = xi_user x" and "t_role_mappings d' = t_role_mappings d"
    and "\<And>j. j \<noteq> xi_id x \<Longrightarrow> role_grant_of d' j = role_grant_of d j"
  shows "priority_taken d' x' n = priority_taken d x n"
proof -
  have role: "find_role_mapping d' = find_role_mapping d" by (simp add: fun_eq_iff find_role_mapping_def assms(4))
  show ?thesis
  proof
    assume "priority_taken d' x' n"
    then obtain y where y: "y \<in> set (t_identities d')" "xi_user y = xi_user x" "xi_id y \<noteq> xi_id x"
      "map_option rm_priority (Option.bind (role_grant_of d' (xi_id y)) (\<lambda>g. find_role_mapping d' (rg_mapping g))) = Some n"
      unfolding priority_taken_def assms(2,3) by blast
    then obtain z where "z \<in> set (t_identities d)" "xi_id z = xi_id y" "xi_user z = xi_user y"
      using identity_columns(3) [OF assms(1)] by blast
    with y assms(5) role show "priority_taken d x n" unfolding priority_taken_def by auto
  next
    assume "priority_taken d x n"
    then obtain y where y: "y \<in> set (t_identities d)" "xi_user y = xi_user x" "xi_id y \<noteq> xi_id x"
      "map_option rm_priority (Option.bind (role_grant_of d (xi_id y)) (\<lambda>g. find_role_mapping d (rg_mapping g))) = Some n"
      unfolding priority_taken_def by blast
    then obtain z where "z \<in> set (t_identities d')" "xi_id z = xi_id y" "xi_user z = xi_user y"
      using identity_columns(3) [OF assms(1) [symmetric]] by blast
    with y assms(5) role show "priority_taken d' x' n" unfolding priority_taken_def assms(2,3) by auto
  qed
qed

lemma next_role_cong:
  assumes "t_role_mappings d' = t_role_mappings d" and "t_roles d' = t_roles d" and "t_acls d' = t_acls d"
    and "\<And>n. priority_taken d' x' n = priority_taken d x n"
  shows "next_role lc d' x' p c = next_role lc d x p c"
proof -
  have "matching_roles lc d' = matching_roles lc d" "find_role d' = find_role d"
    "is_privileged_role d' = is_privileged_role d"
    by (simp_all add: fun_eq_iff matching_roles_def role_mappings_of_def find_role_def
        is_privileged_role_def assms(1-3))
  then show ?thesis by (simp only: next_role_def assms(4))
qed

lemma resync:
  assumes ok: "identities_ok d" "groups_ok d" "grants_placed d"
    and run: "sync_transaction lc fresh d i c = Inr (d', v)"
  shows "\<exists>v'. sync_transaction lc fresh' d' i c = Inr (d', v') \<and>
    sp_add v' = [] \<and> sp_remove v' = [] \<and> \<not> sp_changed v'"
proof -
  obtain x p ms gs maps mids where at: "find_identity d i = Some x" "find_provider d (xi_provider x) = Some p"
    "xi_id x = i" "build_preview lc d x p c = Inr v" and "\<exists>d1. add_groups fresh x (sp_add v) d = Inr d1"
    and ids: "t_identities d' = t_identities (store_claims i c d)"
    using sync_transaction_tables [OF run] by metis
  note role = sync_role_tables [OF ok(1,3) run at(1,2)]
  note same = untouched_tables [OF role(6)]
  note ok' = sync_keeps_ok [OF ok run]
  define x' where "x' = x\<lparr>xi_last_groups := cl_groups c, xi_last_roles := cl_roles c, xi_sync_error := None\<rparr>"
  have "x \<in> set (t_identities d)" using at(1) by (auto simp: find_identity_def dest: find_SomeD)
  then have "x' \<in> set (t_identities d')" unfolding ids store_claims_def x'_def using at(3) by (force simp: row_simps)
  moreover have x': "xi_id x' = i" "xi_user x' = xi_user x" "xi_provider x' = xi_provider x"
    using at(3) by (simp_all add: x'_def)
  ultimately have at': "find_identity d' i = Some x'" "find_provider d' (xi_provider x') = Some p"
    using find_identity_iff [OF ok'(1)] at(2) same(4) by (simp_all add: find_provider_def)
  have "role_grant_of d' j = role_grant_of d j" if "j \<noteq> xi_id x" for j
  proof -
    have "role_grant_of d' j = Some g \<longleftrightarrow> role_grant_of d j = Some g" for g
    proof -
      have "distinct (map rg_identity (t_role_grants d))" using ok(1) by (simp add: identities_ok_def)
      with role(2) role(3) [of g] that at(3) show ?thesis by (auto simp: role_grant_of_Some)
    qed
    then show ?thesis by (metis not_None_eq)
  qed
  then have "priority_taken d' x' n = priority_taken d x n" for n
    using priority_taken_cong [OF role(5) _ x'(2) same(7)] x'(1) at(3) by simp
  then have nr: "next_role lc d' x' p c = next_role lc d x p c"
    using next_role_cong same(2,3,7) by blast
  have tg: "target_groups d' (group_mappings_of d' (ip_id p)) (cl_groups c) [] [] =
      target_groups d (group_mappings_of d (ip_id p)) (cl_groups c) [] []"
    using target_groups_cong [OF same(5)] same(6) by (simp add: group_mappings_of_def)
  obtain v' where v': "build_preview lc d' x' p c = Inr v'"
    using at(4) by (auto simp: build_preview_def tg nr rbind_eq_Inr Let_def)
  note pre = build_preview_groups [OF ok'(1) v', unfolded x'(1), folded held_def]
  have mapped: "mapped_groups d' (ip_id p) c = mapped_groups d (ip_id p) c"
    by (simp add: mapped_groups_def same(6))
  have held': "held d' i = gm_id ` mapped_groups d (ip_id p) c \<union>
      (if ip_sync_mode p = ADD_ONLY then held d i else {})"
    using sync_grants_after(1) [OF ok(1,2) run at(1,2)] .
  have "gc_mapping ` set (sp_add v') = {}" unfolding pre(1) mapped held' by blast
  then have add: "sp_add v' = []" by simp
  have "gc_mapping ` set (sp_remove v') = {}" unfolding pre(4) mapped held'
    by (cases "ip_sync_mode p") auto
  then have remove: "sp_remove v' = []" by simp
  have "map_option rc_mapping (current_role d' i) = map_option rc_mapping (sp_next v)"
    using current_mapping [OF ok'(1)] role(4) by simp
  moreover have "map_option rc_mapping (sp_next v') = map_option rc_mapping (sp_next v)"
    using pre(5) build_preview_groups(5) [OF ok(1) at(4)] nr
    by (auto simp: option.map_comp comp_def role_change_of_def)
  ultimately have changed: "\<not> sp_changed v'" using pre(6) by simp
  have "store_claims i c d' = d'"
  proof -
    have "t_identities (store_claims i c d') = t_identities d'"
      unfolding store_claims_def ids by (simp add: update_where_def)
    then show ?thesis by (simp add: store_claims_def)
  qed
  then have "sync_transaction lc fresh' d' i c = Inr (d', v')"
    using at' v' add remove changed by (simp add: sync_transaction_def remove_groups_def Let_def)
  with add remove changed show ?thesis by blast
qed

section \<open>Properties\<close>

text \<open>
  C18: Synchronising an identity gives it exactly what its claims say: in managed mode it holds the
  grants of the mappings the normalised claims match and no others, in add-only mode it keeps
  those it had; its role grant is that of the one matching role mapping with the lowest
  priority, and without a matching mapping it has none. Every grant still sits on a membership of
  the right user and group, all keys and foreign keys hold, and no membership is left without a
  local or external grant.
\<close>

theorem synchronize_exact:
  assumes "identities_ok d" and "groups_ok d" and "grants_placed d"
    and x: "find_identity d i = Some x" and p: "find_provider d (xi_provider x) = Some p"
    and run: "synchronize lc fresh d i j = (d', Inr v)"
  shows "\<exists>c. normalize_provider_claims lc d x p j = Inr c \<and>
    held d' i = gm_id ` mapped_groups d (ip_id p) c \<union> (if ip_sync_mode p = ADD_ONLY then held d i else {}) \<and>
    (case role_grant_of d' i of
       None \<Rightarrow> mapped_roles d (ip_id p) c = {}
     | Some g \<Rightarrow> \<exists>m. best_role d (ip_id p) c m \<and> rg_mapping g = rm_id m \<and> rg_role g = rm_role m) \<and>
    identities_ok d' \<and> groups_ok d' \<and> grants_placed d' \<and> (memberships_backed d \<longrightarrow> memberships_backed d')"
proof -
  obtain c where c: "normalize_provider_claims lc d x p j = Inr c"
    and t: "sync_transaction lc fresh d i c = Inr (d', v)"
    using synchronize_cases [OF run] x p by auto
  show ?thesis
    using c sync_grants_after(1) [OF assms(1,2) t x p] sync_role_tables(1) [OF assms(1,3) t x p]
      sync_keeps_ok [OF assms(1-3) t] by blast
qed

definition sample_sso :: db where
  "sample_sso = sample_db
     \<lparr>t_providers := [sample_provider], t_identities := [sample_identity],
      t_groups := [\<lparr>g_id = ''gr'', g_name = ''wiki'', g_slug = ''wiki'', g_description = None, g_system = False\<rparr>],
      t_group_mappings := [\<lparr>gm_id = ''gm'', gm_external_id = ''wiki'', gm_external_path = None, gm_external_name = None,
        gm_provider = ''idp'', gm_group = ''gr''\<rparr>],
      t_role_mappings := [sample_role_mapping]\<rparr>"

definition sample_claims :: json where
  "sample_claims = JObject [(''groups'', JArray [JString '' wiki '']), (''roles'', JString ''viewer'')]"

lemma sample_sso_ok: "identities_ok sample_sso" "groups_ok sample_sso" "grants_placed sample_sso"
  by (simp_all add: identities_ok_def groups_ok_def grants_placed_def sample_sso_def sample_defs sample_sso_defs)

lemma sample_sso_found:
  "find_identity sample_sso ''x'' = Some sample_identity"
  "find_provider sample_sso (xi_provider sample_identity) = Some sample_provider"
  by (simp_all add: find_defs sample_sso_def sample_sso_defs)

lemma sample_normalized:
  "normalize_provider_claims code_point_compare sample_sso sample_identity sample_provider sample_claims =
     Inr \<lparr>cl_groups = [''wiki''], cl_roles = [''viewer'']\<rparr>"
  by (simp add: normalize_provider_claims_def assert_claim_configuration_def normalize_claim_values_def
      claim_at_path_def claim_values_def sample_claims_def sample_sso_def sample_defs sample_sso_defs
      MAX_SYNC_VALUES_def MAX_SYNC_VALUE_LENGTH_def trim_def js_space_def uniq_def sort_by_def)

lemma sample_synchronizes:
  "\<exists>d' v. synchronize code_point_compare (\<lambda>_. ''ms'') sample_sso ''x'' sample_claims = (d', Inr v)"
proof -
  have "\<exists>r. sync_transaction code_point_compare (\<lambda>_. ''ms'') sample_sso ''x''
      \<lparr>cl_groups = [''wiki''], cl_roles = [''viewer'']\<rparr> = Inr r"
    by (simp add: sync_transaction_def find_defs role_grant_of_def build_preview_def next_role_def matching_roles_def
        role_mappings_of_def group_mappings_of_def loaded_grants_def group_grants_of_def sort_by_def
        matches_value_def is_privileged_role_def PRIVILEGED_ROLE_RESOURCES_def to_lower_def lower_char_def
        priority_taken_def insert_row_def sort_group_changes_def group_change_of_def Let_def
        sample_sso_def sample_defs sample_sso_defs)
  then show ?thesis
    by (auto simp: synchronize_def sample_sso_found sample_normalized apply_claims_def)
qed

theorem synchronize_exact_witness:
  "\<exists>d' v. synchronize code_point_compare (\<lambda>_. ''ms'') sample_sso ''x'' sample_claims = (d', Inr v) \<and>
     held d' ''x'' = {''gm''} \<and> role_grant_of d' ''x'' \<noteq> None"
proof -
  obtain d' v where run: "synchronize code_point_compare (\<lambda>_. ''ms'') sample_sso ''x'' sample_claims = (d', Inr v)"
    using sample_synchronizes by blast
  let ?c = "\<lparr>cl_groups = [''wiki''], cl_roles = [''viewer'']\<rparr>"
  have "mapped_groups sample_sso ''idp'' ?c =
      {\<lparr>gm_id = ''gm'', gm_external_id = ''wiki'', gm_external_path = None, gm_external_name = None, gm_provider = ''idp'', gm_group = ''gr''\<rparr>}"
    by (auto simp: mapped_groups_def matches_value_def sample_sso_def)
  then have groups: "gm_id ` mapped_groups sample_sso ''idp'' ?c = {''gm''}" by simp
  have "sample_role_mapping \<in> mapped_roles sample_sso ''idp'' ?c"
    by (simp add: mapped_roles_def sample_sso_def sample_role_mapping_def)
  then have roles: "mapped_roles sample_sso ''idp'' ?c \<noteq> {}" by blast
  have idp: "ip_id sample_provider = ''idp''" "ip_sync_mode sample_provider = MANAGED"
    by (simp_all add: sample_provider_def)
  from synchronize_exact [OF sample_sso_ok sample_sso_found run]
  have "held d' ''x'' = {''gm''}" "case role_grant_of d' ''x'' of
       None \<Rightarrow> mapped_roles sample_sso ''idp'' ?c = {}
     | Some g \<Rightarrow> \<exists>m. best_role sample_sso ''idp'' ?c m \<and> rg_mapping g = rm_id m \<and> rg_role g = rm_role m"
    unfolding sample_normalized idp by (simp_all add: groups)
  with roles run show ?thesis by (cases "role_grant_of d' ''x''") auto
qed

text \<open>
  A synchronisation touches nothing else, whether it succeeds or fails: memberships granted
  locally, backed by a grant of another identity, or of another user stay as they are; new
  memberships are plain memberships of the synchronised user; grants of other identities stay, and
  outside the tables of grants, memberships and identities nothing changes.
\<close>

theorem synchronize_frame:
  assumes ok: "identities_ok d" "groups_ok d" "grants_placed d" and x: "find_identity d i = Some x"
    and run: "synchronize lc fresh d i j = (d', out)"
  shows "(\<forall>m \<in> set (t_memberships d).
      m_local_grant m \<or> m_user m \<noteq> xi_user x \<or>
        (\<exists>g \<in> set (t_group_grants d). gg_membership g = m_id m \<and> gg_identity g \<noteq> i) \<longrightarrow>
      m \<in> set (t_memberships d')) \<and>
    (\<forall>m \<in> set (t_memberships d'). m \<in> set (t_memberships d) \<or>
      m_user m = xi_user x \<and> m_role m = MEMBER \<and> \<not> m_local_grant m) \<and>
    (\<forall>g. gg_identity g \<noteq> i \<longrightarrow> g \<in> set (t_group_grants d') \<longleftrightarrow> g \<in> set (t_group_grants d)) \<and>
    (\<forall>g. rg_identity g \<noteq> i \<longrightarrow> g \<in> set (t_role_grants d') \<longleftrightarrow> g \<in> set (t_role_grants d)) \<and>
    d'\<lparr>t_memberships := t_memberships d, t_group_grants := t_group_grants d,
      t_role_grants := t_role_grants d, t_identities := t_identities d\<rparr> = d"
  using synchronize_cases [OF run]
proof (elim disjE exE conjE)
  fix e assume "out = Inl e" "d' = d"
  then show ?thesis by simp
next
  fix e assume "out = Inl e" "d' = record_failure d i e"
  then show ?thesis by (simp add: record_failure_def)
next
  fix y q c v assume at: "find_identity d i = Some y" "find_provider d (xi_provider y) = Some q"
    and t: "sync_transaction lc fresh d i c = Inr (d', v)"
  obtain z p maps gs mids ms where z: "find_identity d i = Some z" "find_provider d (xi_provider z) = Some p"
    "xi_id z = i" "build_preview lc d z p c = Inr v"
    "set maps = (if ip_sync_mode p = MANAGED then held d i - gm_id ` mapped_groups d (ip_id p) c else {})"
    "gg_mapping ` set gs = gm_id ` mapped_groups d (ip_id p) c - held d i"
    and mids: "set mids = gg_membership ` {g \<in> set (t_group_grants d). gg_identity g = i \<and> gg_mapping g \<in> set maps}"
    and G: "t_group_grants d' = delete_where (\<lambda>g. gg_identity g = i \<and> gg_mapping g \<in> set maps) (t_group_grants d @ gs)"
    and M: "t_memberships d' = delete_where (\<lambda>m. m_id m \<in> set mids \<and> \<not> m_local_grant m \<and>
      \<not> (\<exists>g \<in> set (t_group_grants d'). gg_membership g = m_id m)) (t_memberships d @ ms)"
    and gs: "\<forall>g \<in> set gs. gg_identity g = i \<and> (\<exists>mp \<in> set (t_group_mappings d). gm_id mp = gg_mapping g \<and>
       (\<exists>m \<in> set (t_memberships d @ ms). m_id m = gg_membership g \<and> m_group m = gm_group mp \<and> m_user m = xi_user z))"
    and ms: "\<forall>m \<in> set ms. m_user m = xi_user z \<and> m_role m = MEMBER \<and> \<not> m_local_grant m \<and>
       m_group m \<in> g_id ` set (t_groups d) \<and> (\<exists>g \<in> set gs. gg_membership g = m_id m)"
    and "distinct (map m_id (t_memberships d @ ms))"
      "distinct (map (\<lambda>m. (m_group m, m_user m)) (t_memberships d @ ms))"
      "distinct (map grant_key (t_group_grants d @ gs))"
    using sync_outcome [OF ok(1,2) t] .
  have same: "z = x" using z(1) x by simp
  note role = sync_role_tables [OF ok(1,3) t at]
  note other = sync_grants_after(2) [OF ok(1,2) t at]
  have mine: "m_user m = xi_user x" if m: "m \<in> set (t_memberships d)" "m_id m \<in> set mids" for m
  proof -
    from m(2) obtain g where g: "g \<in> set (t_group_grants d)" "gg_identity g = i" "gg_membership g = m_id m"
      unfolding mids by auto
    with ok(3) obtain m' w where m': "m' \<in> set (t_memberships d)" "m_id m' = gg_membership g"
      "w \<in> set (t_identities d)" "xi_id w = gg_identity g" "m_user m' = xi_user w"
      unfolding grants_placed_def by blast
    have "m' = m" using unique_key_eq [of m_id "t_memberships d" m' m] ok(2) m(1) m' g by (simp add: groups_ok_def)
    moreover have "w = x" using x m'(3,4) g(2) find_identity_iff [OF ok(1)] by (metis option.inject)
    ultimately show ?thesis using m'(5) by simp
  qed
  have "m \<in> set (t_memberships d')" if m: "m \<in> set (t_memberships d)"
    and k: "m_local_grant m \<or> m_user m \<noteq> xi_user x \<or>
        (\<exists>g \<in> set (t_group_grants d). gg_membership g = m_id m \<and> gg_identity g \<noteq> i)" for m
  proof -
    have "\<not> (m_id m \<in> set mids \<and> \<not> m_local_grant m \<and> \<not> (\<exists>g \<in> set (t_group_grants d'). gg_membership g = m_id m))"
      using k mine [OF m] other by blast
    with m show ?thesis unfolding M row_simps by simp
  qed
  moreover have "m \<in> set (t_memberships d) \<or> m_user m = xi_user x \<and> m_role m = MEMBER \<and> \<not> m_local_grant m"
    if m: "m \<in> set (t_memberships d')" for m
    using m ms unfolding M row_simps same by auto
  ultimately show ?thesis using other role(3,6) by blast
qed

theorem synchronize_frame_witness:
  "\<exists>d' v. synchronize code_point_compare (\<lambda>_. ''ms'') sample_sso ''x'' sample_claims = (d', Inr v) \<and>
     t_users d' = t_users sample_sso"
proof -
  obtain d' v where run: "synchronize code_point_compare (\<lambda>_. ''ms'') sample_sso ''x'' sample_claims = (d', Inr v)"
    using sample_synchronizes by blast
  with synchronize_frame [OF sample_sso_ok sample_sso_found(1) run] untouched_tables(1) [where d = sample_sso and d' = d']
  show ?thesis by blast
qed

text \<open>
  Synchronising is idempotent: a second run with the same claims succeeds, announces no change
  and leaves the database exactly as the first run left it, whatever ids it would have drawn.
\<close>

theorem synchronize_idempotent:
  assumes ok: "identities_ok d" "groups_ok d" "grants_placed d"
    and run: "synchronize lc fresh d i j = (d', Inr v)"
  shows "\<exists>v'. synchronize lc fresh' d' i j = (d', Inr v') \<and>
    sp_add v' = [] \<and> sp_remove v' = [] \<and> \<not> sp_changed v'"
proof -
  obtain x p c where at: "find_identity d i = Some x" "find_provider d (xi_provider x) = Some p"
    and c: "normalize_provider_claims lc d x p j = Inr c"
    and t: "sync_transaction lc fresh d i c = Inr (d', v)"
    using synchronize_cases [OF run] by auto
  note role = sync_role_tables [OF ok(1,3) t at]
  note same = untouched_tables [OF role(6)]
  obtain v' where v': "sync_transaction lc fresh' d' i c = Inr (d', v')" "sp_add v' = []"
    "sp_remove v' = []" "\<not> sp_changed v'"
    using resync [OF ok t] by blast
  then obtain x' where x': "find_identity d' i = Some x'"
    by (auto simp: sync_transaction_def rbind_eq_Inr)
  have "x \<in> set (t_identities d)" "xi_id x = i" using at(1) by (auto simp: find_identity_def dest: find_SomeD)
  moreover have x'_at: "x' \<in> set (t_identities d')" "xi_id x' = i"
    using x' by (auto simp: find_identity_def dest: find_SomeD)
  moreover obtain y where "y \<in> set (t_identities d)" "xi_id y = xi_id x'" "xi_provider y = xi_provider x'"
    using identity_columns(3) [OF role(5) x'_at(1)] by blast
  ultimately have prov: "xi_provider x' = xi_provider x"
    using unique_key_eq [of xi_id "t_identities d" x y] ok(1) by (simp add: identities_ok_def)
  have grants: "group_grants_of d' (xi_id x') = []" if none: "ip_group_claim p \<in> {None, Some []}"
  proof -
    have "group_mappings_of d (ip_id p) = []" "group_grants_of d i = []"
      using c none \<open>xi_id x = i\<close>
      by (auto simp: normalize_provider_claims_def assert_claim_configuration_def rbind_eq_Inr)
    then have "held d i = {}" "mapped_groups d (ip_id p) c = {}"
      by (auto simp: held_def group_grants_of_def filter_empty_conv mapped_groups_def group_mappings_of_def)
    then have "held d' i = {}" using sync_grants_after(1) [OF ok(1,2) t at] by simp
    then show ?thesis using x'_at(2) by (auto simp: held_def group_grants_of_def filter_empty_conv)
  qed
  have "assert_claim_configuration d x p = Inr ()"
    using c by (auto simp: normalize_provider_claims_def rbind_eq_Inr)
  then have "assert_claim_configuration d' x' p = Inr ()"
    unfolding assert_claim_configuration_def rbind_eq_Inr rguard_eq_Inr group_mappings_of_def
      role_mappings_of_def same using grants by blast
  with c have "normalize_provider_claims lc d' x' p j = Inr c"
    by (simp add: normalize_provider_claims_def rbind_eq_Inr)
  moreover have "find_provider d' (xi_provider x') = Some p"
    using at(2) by (simp add: find_provider_def same prov)
  ultimately have "synchronize lc fresh' d' i j = (d', Inr v')"
    using x' v'(1) by (simp add: synchronize_def apply_claims_def)
  with v' show ?thesis by blast
qed

theorem synchronize_idempotent_witness:
  "\<exists>d' v v'. synchronize code_point_compare (\<lambda>_. ''ms'') sample_sso ''x'' sample_claims = (d', Inr v) \<and>
     synchronize code_point_compare (\<lambda>_. ''ms'') d' ''x'' sample_claims = (d', Inr v')"
proof -
  obtain d' v where run: "synchronize code_point_compare (\<lambda>_. ''ms'') sample_sso ''x'' sample_claims = (d', Inr v)"
    using sample_synchronizes by blast
  with synchronize_idempotent [OF sample_sso_ok run] show ?thesis by blast
qed

end
