(* ===== verification/Token_Family.thy ===== *)
theory Token_Family
  imports Prelude
begin

text \<open>
  Rotating tokens. A row of the session table (\<^verbatim>\<open>auth.service.ts\<close>) and a row of the MCP refresh
  token table (\<^verbatim>\<open>mcp-oauth.service.ts\<close>) carry the same three columns: the family, the time of
  revocation and the time of rotation. The locale \<open>token_family\<close> states what the column updates of
  such a row do, and proves once that at most one token of a family is live.
\<close>

definition single_live :: "('r \<Rightarrow> ident) \<Rightarrow> ('r \<Rightarrow> time option) \<Rightarrow> 'r list \<Rightarrow> bool" where
  "single_live family revoked rows \<longleftrightarrow>
     (\<forall>r \<in> set rows. \<forall>s \<in> set rows.
        family r = family s \<and> revoked r = None \<and> revoked s = None \<longrightarrow> r = s)"

definition family_dead :: "('r \<Rightarrow> ident) \<Rightarrow> ('r \<Rightarrow> time option) \<Rightarrow> ident \<Rightarrow> 'r list \<Rightarrow> bool" where
  "family_dead family revoked f rows \<longleftrightarrow> (\<forall>r \<in> set rows. family r = f \<longrightarrow> revoked r \<noteq> None)"

definition rotated_revoked :: "('r \<Rightarrow> time option) \<Rightarrow> ('r \<Rightarrow> time option) \<Rightarrow> 'r list \<Rightarrow> bool" where
  "rotated_revoked rotated revoked rows \<longleftrightarrow> (\<forall>r \<in> set rows. rotated r \<noteq> None \<longrightarrow> revoked r \<noteq> None)"

lemma single_liveI:
  "(\<And>r s. r \<in> set rows \<Longrightarrow> s \<in> set rows \<Longrightarrow> f r = f s \<Longrightarrow> v r = None \<Longrightarrow> v s = None \<Longrightarrow> r = s) \<Longrightarrow>
   single_live f v rows"
  unfolding single_live_def by blast

lemma single_liveD:
  "single_live f v rows \<Longrightarrow> r \<in> set rows \<Longrightarrow> s \<in> set rows \<Longrightarrow> f r = f s \<Longrightarrow> v r = None \<Longrightarrow> v s = None \<Longrightarrow>
   r = s"
  unfolding single_live_def by blast

lemma single_live_delete: "single_live f v rows \<Longrightarrow> single_live f v (delete_where p rows)"
  by (rule single_liveI) (auto simp: row_simps dest: single_liveD)

lemma rotated_revoked_delete: "rotated_revoked t v rows \<Longrightarrow> rotated_revoked t v (delete_where p rows)"
  by (auto simp: rotated_revoked_def row_simps)

lemma single_live_new_family:
  assumes "single_live f v rows" and "f r \<notin> f ` set rows"
  shows "single_live f v (rows @ [r])"
proof (rule single_liveI)
  fix a b assume ab: "a \<in> set (rows @ [r])" "b \<in> set (rows @ [r])" "f a = f b" "v a = None" "v b = None"
  have "x = r" if "x \<in> set (rows @ [r])" "f x = f r" for x
    using that assms(2) image_eqI [of "f r" f x "set rows"] by auto
  then have "a = r \<longleftrightarrow> b = r" using ab(1-3) by metis
  with ab assms(1) show "a = b" by (cases "a = r") (auto dest: single_liveD)
qed

lemma rotated_revoked_snoc:
  "rotated_revoked t v rows \<Longrightarrow> t r = None \<Longrightarrow> rotated_revoked t v (rows @ [r])"
  by (simp add: rotated_revoked_def)

locale token_family =
  fixes row_id :: "'r \<Rightarrow> ident" and family :: "'r \<Rightarrow> ident"
    and revoked :: "'r \<Rightarrow> time option" and rotated :: "'r \<Rightarrow> time option"
    and set_revoked :: "time \<Rightarrow> 'r \<Rightarrow> 'r" and set_rotated :: "time \<Rightarrow> 'r \<Rightarrow> 'r"
  assumes revoke_columns: "revoked (set_revoked t r) = Some t" "family (set_revoked t r) = family r"
      "row_id (set_revoked t r) = row_id r" "rotated (set_revoked t r) = rotated r"
    and rotate_columns: "revoked (set_rotated t r) = Some t" "family (set_rotated t r) = family r"
      "row_id (set_rotated t r) = row_id r" "rotated (set_rotated t r) = Some t"
begin

lemma revoke_family_dead:
  "family_dead family revoked f
     (update_where (\<lambda>r. family r = f \<and> revoked r = None) (set_revoked t) rows)"
  unfolding family_dead_def
proof (intro ballI impI)
  fix r assume "r \<in> set (update_where (\<lambda>r. family r = f \<and> revoked r = None) (set_revoked t) rows)"
    and f: "family r = f"
  then obtain q where "r = (if family q = f \<and> revoked q = None then set_revoked t q else q)"
    unfolding set_update_where by blast
  with f show "revoked r \<noteq> None"
    by (cases "family q = f \<and> revoked q = None") (simp_all add: revoke_columns)
qed

text \<open>A row that is not revoked afterwards was not touched.\<close>

lemma live_after_revoke:
  "r \<in> set (update_where p (set_revoked t) rows) \<Longrightarrow> revoked r = None \<Longrightarrow> r \<in> set rows"
  by (auto simp: row_simps revoke_columns split: if_splits)

lemma live_after_rotate:
  "r \<in> set (update_where p (set_rotated t) rows) \<Longrightarrow> revoked r = None \<Longrightarrow> r \<in> set rows \<and> \<not> p r"
  by (auto simp: row_simps rotate_columns split: if_splits)

lemma revoke_single_live:
  "single_live family revoked rows \<Longrightarrow> single_live family revoked (update_where p (set_revoked t) rows)"
  by (rule single_liveI) (blast dest: live_after_revoke single_liveD)

lemma revoke_rotated_revoked:
  "rotated_revoked rotated revoked rows \<Longrightarrow>
   rotated_revoked rotated revoked (update_where p (set_revoked t) rows)"
  by (auto simp: rotated_revoked_def row_simps revoke_columns)

text \<open>Rotation: the one live token of a family is consumed and replaced.\<close>

lemma rotate_single_live:
  assumes live: "single_live family revoked rows"
    and s: "s \<in> set rows" "revoked s = None" "p s"
    and new: "family new = family s"
  shows "single_live family revoked (update_where p (set_rotated t) rows @ [new])"
proof -
  let ?rows = "update_where p (set_rotated t) rows"
  have dead: "revoked r \<noteq> None" if "r \<in> set ?rows" "family r = family s" for r
  proof
    assume "revoked r = None"
    with live_after_rotate that(1) have "r \<in> set rows" "\<not> p r" by blast+
    with single_liveD [OF live _ s(1) that(2) \<open>revoked r = None\<close> s(2)] s(3) show False by blast
  qed
  show ?thesis
  proof (rule single_liveI)
    fix a b assume ab: "a \<in> set (?rows @ [new])" "b \<in> set (?rows @ [new])" "family a = family b"
      "revoked a = None" "revoked b = None"
    have not_row: "x \<notin> set ?rows" if "family x = family new" "revoked x = None" for x
      using dead [of x] that new by metis
    show "a = b"
    proof (cases "a = new \<or> b = new")
      case True
      with ab not_row show ?thesis by auto
    next
      case False
      with ab have "a \<in> set rows" "b \<in> set rows" by (auto dest: live_after_rotate)
      with ab live show ?thesis by (blast dest: single_liveD)
    qed
  qed
qed

lemma rotate_rotated_revoked:
  "rotated_revoked rotated revoked rows \<Longrightarrow>
   rotated_revoked rotated revoked (update_where p (set_rotated t) rows)"
  by (auto simp: rotated_revoked_def row_simps rotate_columns)

text \<open>
  Two requests that have both read the same live token: whoever updates second finds no row left
  to update.
\<close>

lemma rotate_once:
  assumes "\<And>r. p r \<Longrightarrow> revoked r = None"
  shows "count_where p (update_where p (set_rotated t) rows) = 0"
  using assms by (fastforce simp: row_simps rotate_columns)

end

end
