(* ===== verification/Sessions.thy ===== *)
theory Sessions
  imports Role_Admin Identity_Sync Token_Family
begin

text \<open>
  \<^verbatim>\<open>apps/api/src/modules/auth/auth.service.ts\<close>: registration, login, the rotation of refresh tokens
  with revocation of the token family on reuse, logout, password changes and password reset links.
  An operation returns the database it leaves behind next to its answer, because some of them
  commit and then throw. Fresh ids, secrets, hashes and the clock are arguments. The audit log, the
  login counters, the mail texts and the artificial delay are not modelled.
\<close>

section \<open>The libraries\<close>

text \<open>
  \<open>cr_verify\<close>, \<open>cr_sign\<close> and \<open>cr_decode_exp\<close> are the calls to \<^verbatim>\<open>@nestjs/jwt\<close> (the expiry in
  seconds), \<open>cr_hash\<close> is SHA-256, \<open>cr_compare\<close> bcrypt's comparison of a password with a stored hash,
  \<open>cr_ttl\<close> the configured lifetime of refresh tokens.
\<close>

record crypto =
  cr_verify :: "string \<Rightarrow> jwt_payload option"
  cr_sign :: "jwt_payload \<Rightarrow> string"
  cr_decode_exp :: "string \<Rightarrow> int option"
  cr_hash :: "string \<Rightarrow> string"
  cr_compare :: "string \<Rightarrow> string \<Rightarrow> bool"
  cr_ttl :: string

record request_context =
  rc_ip :: "string option"
  rc_agent :: "string option"

record external_session =
  ex_identity :: ident
  ex_verified :: time
  ex_recheck :: time

record auth_result =
  ar_user :: auth_user
  ar_access :: string
  ar_refresh :: string

type_synonym 'a outcome = "db \<times> 'a result"

definition UNKNOWN_USER_PASSWORD_HASH :: string where
  "UNKNOWN_USER_PASSWORD_HASH = ''$2b$12$Dv5mPIaAjxMDKYpSmKuVyOmOrSKKkwTdX.EYLx6A1QZ1LB18MVVaS''"

definition setting_or :: "db \<Rightarrow> string \<Rightarrow> string \<Rightarrow> string" where
  "setting_or d k fallback = (case setting_value d k of Some v \<Rightarrow> v | None \<Rightarrow> fallback)"

section \<open>Issuing tokens\<close>

definition is_digit :: "char \<Rightarrow> bool" where
  "is_digit c \<longleftrightarrow> (48::nat) \<le> of_char c \<and> of_char c \<le> (57::nat)"

definition parse_days :: "string \<Rightarrow> nat" where
  "parse_days ttl =
     (if ttl \<noteq> [] \<and> last ttl = CHR ''d'' \<and> butlast ttl \<noteq> [] \<and> (\<forall>c \<in> set (butlast ttl). is_digit c)
      then read_nat (butlast ttl) else 7)"

definition refresh_expiry :: "crypto \<Rightarrow> string \<Rightarrow> time \<Rightarrow> time" where
  "refresh_expiry cr token now =
     (case cr_decode_exp cr token of
        Some e \<Rightarrow> e * 1000
      | None \<Rightarrow> now + int (parse_days (cr_ttl cr)) * 24 * 60 * 60 * 1000)"

definition payload_of :: "auth_user \<Rightarrow> jwt_payload" where
  "payload_of u =
     \<lparr>jp_user = au_id u, jp_email = au_email u, jp_role_id = au_role_id u, jp_role = au_role u,
      jp_token_type = None, jp_token_id = None\<rparr>"

definition sign_access_token :: "crypto \<Rightarrow> jwt_payload \<Rightarrow> string" where
  "sign_access_token cr p = cr_sign cr (p\<lparr>jp_token_type := Some Access, jp_token_id := None\<rparr>)"

definition sign_refresh_token :: "crypto \<Rightarrow> jwt_payload \<Rightarrow> ident \<Rightarrow> string" where
  "sign_refresh_token cr p i = cr_sign cr (p\<lparr>jp_token_type := Some Refresh, jp_token_id := Some i\<rparr>)"

definition insert_session :: "session_row \<Rightarrow> db \<Rightarrow> db result" where
  "insert_session s d =
     rbind (rguard (ses_id s \<notin> ses_id ` set (t_sessions d)) (Internal ''P2002'')) (\<lambda>_.
     rbind (insert_row ses_token_hash (Internal ''P2002'') s (t_sessions d)) (\<lambda>rows.
     Inr (d\<lparr>t_sessions := rows\<rparr>)))"

definition issue_tokens ::
    "crypto \<Rightarrow> db \<Rightarrow> auth_user \<Rightarrow> request_context \<Rightarrow> external_session option \<Rightarrow> ident \<Rightarrow> time \<Rightarrow>
     (db \<times> string \<times> string) result" where
  "issue_tokens cr d u ctx ext sid now =
     (let access = sign_access_token cr (payload_of u);
          refresh = sign_refresh_token cr (payload_of u) sid
      in rbind (insert_session
           \<lparr>ses_id = sid, ses_token_hash = cr_hash cr refresh, ses_family = sid, ses_ip = rc_ip ctx,
            ses_agent = rc_agent ctx, ses_user = au_id u, ses_expires = refresh_expiry cr refresh now,
            ses_rotated = None, ses_revoked = None, ses_identity = map_option ex_identity ext,
            ses_verified = map_option ex_verified ext, ses_recheck = map_option ex_recheck ext\<rparr> d) (\<lambda>d'.
         Inr (d', access, refresh)))"

definition answer_session ::
    "crypto \<Rightarrow> db \<Rightarrow> auth_user \<Rightarrow> request_context \<Rightarrow> external_session option \<Rightarrow> ident \<Rightarrow> time \<Rightarrow>
     auth_result outcome" where
  "answer_session cr d u ctx ext sid now =
     (case issue_tokens cr d u ctx ext sid now of
        Inl e \<Rightarrow> (d, Inl e)
      | Inr (d', access, refresh) \<Rightarrow>
          (d', Inr \<lparr>ar_user = u, ar_access = access, ar_refresh = refresh\<rparr>))"

section \<open>Registration and login\<close>

record register_input =
  rg_email :: string
  rg_username :: string
  rg_display_name :: string

definition register ::
    "(string \<Rightarrow> string \<Rightarrow> int) \<Rightarrow> crypto \<Rightarrow> db \<Rightarrow> register_input \<Rightarrow> string \<Rightarrow> ident \<Rightarrow> request_context \<Rightarrow>
     ident \<Rightarrow> time \<Rightarrow> auth_result outcome" where
  "register lc cr d inp password_hash uid ctx sid now =
     (if setting_or d ''allow_registration'' ''true'' \<noteq> ''true'' then (d, Inl (Forbidden ''registration''))
      else case List.find (\<lambda>u. u_email u = rg_email inp \<or> u_username u = rg_username inp) (t_users d) of
        Some u \<Rightarrow> (d, Inl (Conflict (if u_email u = rg_email inp then ''email'' else ''username'')))
      | None \<Rightarrow>
          (case (case find_role_by_name d (setting_or d ''default_role'' ''viewer'') of
                   Some r \<Rightarrow> Some r | None \<Rightarrow> find_role_by_name d ''viewer'') of
             None \<Rightarrow> (d, Inl (Unauthorized ''default role''))
           | Some role \<Rightarrow>
               let row = \<lparr>u_id = uid, u_email = rg_email inp, u_username = rg_username inp,
                          u_display_name = rg_display_name inp, u_password = password_hash,
                          u_active = True, u_protected = False, u_local_password = True,
                          u_role = r_id role\<rparr>
               in if uid \<in> u_id ` set (t_users d) then (d, Inl (Internal ''P2002''))
                  else
                    let d1 = d\<lparr>t_users := t_users d @ [row]\<rparr>;
                        (u, r) = (case resolve_user lc d1 uid of Some x \<Rightarrow> x | None \<Rightarrow> (row, role))
                    in answer_session cr d1 (to_authenticated_user u r) ctx None sid now))"

definition login ::
    "crypto \<Rightarrow> db \<Rightarrow> string \<Rightarrow> string \<Rightarrow> request_context \<Rightarrow> ident \<Rightarrow> time \<Rightarrow> auth_result outcome" where
  "login cr d email password ctx sid now =
     (let user = List.find (\<lambda>u. u_email u = email) (t_users d);
          password_matches = cr_compare cr password
            (case user of Some u \<Rightarrow> u_password u | None \<Rightarrow> UNKNOWN_USER_PASSWORD_HASH)
      in case user of
        None \<Rightarrow> (d, Inl (Unauthorized ''credentials''))
      | Some u \<Rightarrow>
          if \<not> password_matches then (d, Inl (Unauthorized ''credentials''))
          else if \<not> u_active u then (d, Inl (Unauthorized ''deactivated''))
          else if setting_or d ''local_login_enabled'' ''true'' \<noteq> ''true'' \<and> \<not> u_protected u
          then (d, Inl (Unauthorized ''local login''))
          else case find_role d (u_role u) of
            None \<Rightarrow> (d, Inl (Internal ''user.role''))
          | Some r \<Rightarrow> answer_session cr d (to_authenticated_user u r) ctx None sid now)"

definition create_session_for_user ::
    "(string \<Rightarrow> string \<Rightarrow> int) \<Rightarrow> crypto \<Rightarrow> db \<Rightarrow> ident \<Rightarrow> request_context \<Rightarrow> external_session option \<Rightarrow>
     ident \<Rightarrow> time \<Rightarrow> auth_result outcome" where
  "create_session_for_user lc cr d uid ctx ext sid now =
     (case resolve_user lc d uid of
        None \<Rightarrow> (d, Inl (Unauthorized ''account''))
      | Some (u, r) \<Rightarrow>
          if \<not> u_active u then (d, Inl (Unauthorized ''account''))
          else answer_session cr d (to_authenticated_user u r) ctx ext sid now)"

section \<open>Rotation of a refresh token\<close>

datatype rotation = Invalid | Reused ident ident | Rotated string string

definition find_session_by_hash :: "db \<Rightarrow> string \<Rightarrow> session_row option" where
  "find_session_by_hash d h = List.find (\<lambda>s. ses_token_hash s = h) (t_sessions d)"

definition session_provider :: "db \<Rightarrow> session_row \<Rightarrow> provider_row option" where
  "session_provider d s =
     Option.bind (Option.bind (ses_identity s) (find_identity d)) (\<lambda>x. find_provider d (xi_provider x))"

text \<open>An external session must have an active provider and a recheck time that lies ahead.\<close>

definition external_current :: "db \<Rightarrow> session_row \<Rightarrow> time \<Rightarrow> bool" where
  "external_current d s now \<longleftrightarrow>
     (case session_provider d s of None \<Rightarrow> False | Some p \<Rightarrow> ip_active p) \<and>
     (case ses_recheck s of None \<Rightarrow> False | Some t \<Rightarrow> now < t)"

definition session_bound :: "db \<Rightarrow> jwt_payload \<Rightarrow> session_row \<Rightarrow> time \<Rightarrow> bool" where
  "session_bound d p s now \<longleftrightarrow>
     now \<le> ses_expires s \<and> ses_user s = jp_user p \<and>
     (jp_token_id p = None \<or> jp_token_id p = Some (ses_id s)) \<and>
     (ses_identity s = None \<or> external_current d s now)"

definition user_active :: "db \<Rightarrow> ident \<Rightarrow> bool" where
  "user_active d i = (case find_user d i of None \<Rightarrow> False | Some u \<Rightarrow> u_active u)"

definition revoke_family :: "ident \<Rightarrow> time \<Rightarrow> db \<Rightarrow> db" where
  "revoke_family f now d =
     d\<lparr>t_sessions := update_where (\<lambda>s. ses_family s = f \<and> ses_revoked s = None)
       (\<lambda>s. s\<lparr>ses_revoked := Some now\<rparr>) (t_sessions d)\<rparr>"

text \<open>What the transaction reads first: nothing usable, a rotated token, or a session to rotate.\<close>

datatype refresh_read = Read_Invalid | Read_Reused session_row | Read_Usable session_row

definition refresh_read :: "db \<Rightarrow> jwt_payload \<Rightarrow> string \<Rightarrow> time \<Rightarrow> refresh_read" where
  "refresh_read d p h now =
     (case find_session_by_hash d h of
        None \<Rightarrow> Read_Invalid
      | Some s \<Rightarrow>
          if \<not> session_bound d p s now then Read_Invalid
          else if ses_rotated s \<noteq> None then Read_Reused s
          else if ses_revoked s \<noteq> None \<or> \<not> user_active d (ses_user s) then Read_Invalid
          else Read_Usable s)"

definition consumable :: "session_row \<Rightarrow> time \<Rightarrow> session_row \<Rightarrow> bool" where
  "consumable s now r \<longleftrightarrow>
     ses_id r = ses_id s \<and> ses_rotated r = None \<and> ses_revoked r = None \<and> now < ses_expires r"

text \<open>
  The rest of the transaction, on the tables as they are when the conditional update runs: another
  request may have rotated or revoked the session in between.
\<close>

definition rotate_session ::
    "(string \<Rightarrow> string \<Rightarrow> int) \<Rightarrow> crypto \<Rightarrow> db \<Rightarrow> session_row \<Rightarrow> request_context \<Rightarrow> ident \<Rightarrow> time \<Rightarrow>
     rotation outcome" where
  "rotate_session lc cr d s ctx new_id now =
     (if count_where (consumable s now) (t_sessions d) \<noteq> 1
      then case List.find (\<lambda>r. ses_id r = ses_id s) (t_sessions d) of
          Some current \<Rightarrow>
            if ses_rotated current \<noteq> None
            then (revoke_family (ses_family s) now d, Inr (Reused (ses_user s) (ses_family s)))
            else (d, Inr Invalid)
        | None \<Rightarrow> (d, Inr Invalid)
      else
        let d1 = d\<lparr>t_sessions := update_where (consumable s now)
               (\<lambda>r. r\<lparr>ses_rotated := Some now, ses_revoked := Some now\<rparr>) (t_sessions d)\<rparr>
        in case resolve_user lc d1 (ses_user s) of
          None \<Rightarrow> (d, Inl (Internal ''session.user''))
        | Some (u, role) \<Rightarrow>
            let p = payload_of (to_authenticated_user u role);
                access = sign_access_token cr p;
                replacement = sign_refresh_token cr p new_id
            in case insert_session
                 \<lparr>ses_id = new_id, ses_token_hash = cr_hash cr replacement, ses_family = ses_family s,
                  ses_ip = (case rc_ip ctx of Some a \<Rightarrow> Some a | None \<Rightarrow> ses_ip s),
                  ses_agent = (case rc_agent ctx of Some a \<Rightarrow> Some a | None \<Rightarrow> ses_agent s),
                  ses_user = ses_user s, ses_expires = refresh_expiry cr replacement now,
                  ses_rotated = None, ses_revoked = None, ses_identity = ses_identity s,
                  ses_verified = ses_verified s, ses_recheck = ses_recheck s\<rparr> d1 of
               Inl e \<Rightarrow> (d, Inl e)
             | Inr d2 \<Rightarrow> (d2, Inr (Rotated access replacement)))"

definition refresh_transaction ::
    "(string \<Rightarrow> string \<Rightarrow> int) \<Rightarrow> crypto \<Rightarrow> db \<Rightarrow> jwt_payload \<Rightarrow> string \<Rightarrow> request_context \<Rightarrow> ident \<Rightarrow> time \<Rightarrow>
     rotation outcome" where
  "refresh_transaction lc cr d p h ctx new_id now =
     (case refresh_read d p h now of
        Read_Invalid \<Rightarrow> (d, Inr Invalid)
      | Read_Reused s \<Rightarrow>
          (revoke_family (ses_family s) now d, Inr (Reused (ses_user s) (ses_family s)))
      | Read_Usable s \<Rightarrow> rotate_session lc cr d s ctx new_id now)"

text \<open>Sessions of an external identity re-evaluate its stored claims first.\<close>

definition sync_candidate :: "db \<Rightarrow> jwt_payload \<Rightarrow> string \<Rightarrow> time \<Rightarrow> ident option" where
  "sync_candidate d p h now =
     (case find_session_by_hash d h of
        None \<Rightarrow> None
      | Some s \<Rightarrow>
          if ses_identity s \<noteq> None \<and> ses_user s = jp_user p \<and>
             (jp_token_id p = None \<or> jp_token_id p = Some (ses_id s)) \<and> now < ses_expires s \<and>
             ses_revoked s = None \<and> ses_rotated s = None \<and> external_current d s now
          then ses_identity s else None)"

definition refresh_token ::
    "(string \<Rightarrow> string \<Rightarrow> int) \<Rightarrow> (ident \<Rightarrow> ident) \<Rightarrow> crypto \<Rightarrow> db \<Rightarrow> string \<Rightarrow> request_context \<Rightarrow> ident \<Rightarrow>
     time \<Rightarrow> (string \<times> string) outcome" where
  "refresh_token lc fresh cr d token ctx new_id now =
     (case cr_verify cr token of
        None \<Rightarrow> (d, Inl (Unauthorized ''refresh token''))
      | Some p \<Rightarrow>
          if jp_token_type p = Some Access then (d, Inl (Unauthorized ''refresh token''))
          else
            let h = cr_hash cr token;
                (d1, synced) = (case sync_candidate d p h now of
                    None \<Rightarrow> (d, True)
                  | Some x \<Rightarrow> (case synchronize_stored lc fresh d x of
                      (d1, Inl _) \<Rightarrow> (d1, False) | (d1, Inr _) \<Rightarrow> (d1, True)))
            in if \<not> synced then (d1, Inl (Unauthorized ''sso rights''))
               else case refresh_transaction lc cr d1 p h ctx new_id now of
                 (d2, Inl e) \<Rightarrow> (d2, Inl e)
               | (d2, Inr (Rotated access refresh)) \<Rightarrow> (d2, Inr (access, refresh))
               | (d2, Inr _) \<Rightarrow> (d2, Inl (Unauthorized ''session'')))"

definition logout :: "crypto \<Rightarrow> db \<Rightarrow> string \<Rightarrow> time \<Rightarrow> db" where
  "logout cr d token now =
     (case find_session_by_hash d (cr_hash cr token) of
        None \<Rightarrow> d
      | Some s \<Rightarrow> revoke_family (ses_family s) now d)"

definition verify_access_token ::
    "(string \<Rightarrow> string \<Rightarrow> int) \<Rightarrow> crypto \<Rightarrow> db \<Rightarrow> string \<Rightarrow> auth_user option" where
  "verify_access_token lc cr d token = Option.bind (cr_verify cr token) (validate_user lc d)"

section \<open>Passwords\<close>

definition set_password :: "ident \<Rightarrow> string \<Rightarrow> db \<Rightarrow> db" where
  "set_password uid h d =
     d\<lparr>t_users := update_where (\<lambda>u. u_id u = uid)
       (\<lambda>u. u\<lparr>u_password := h, u_local_password := True\<rparr>) (t_users d)\<rparr>"

definition end_sessions :: "ident \<Rightarrow> db \<Rightarrow> db" where
  "end_sessions uid d = d\<lparr>t_sessions := delete_where (\<lambda>s. ses_user s = uid) (t_sessions d)\<rparr>"

definition use_resets :: "ident \<Rightarrow> time \<Rightarrow> db \<Rightarrow> db" where
  "use_resets uid now d =
     d\<lparr>t_resets := update_where (\<lambda>r. rt_user r = uid \<and> rt_used r = None)
       (\<lambda>r. r\<lparr>rt_used := Some now\<rparr>) (t_resets d)\<rparr>"

definition change_password ::
    "crypto \<Rightarrow> db \<Rightarrow> ident \<Rightarrow> string \<Rightarrow> string \<Rightarrow> time \<Rightarrow> db result" where
  "change_password cr d uid current new_hash now =
     rbind (or_throw (Unauthorized ''user'') (find_user d uid)) (\<lambda>u.
     rbind (rguard (cr_compare cr current (u_password u)) (Unauthorized ''current password'')) (\<lambda>_.
     Inr (use_resets uid now (end_sessions uid (set_password uid new_hash d)))))"

definition reset_ttl_minutes :: "int option \<Rightarrow> int" where
  "reset_ttl_minutes configured =
     (case configured of Some n \<Rightarrow> if 5 \<le> n \<and> n \<le> 1440 then n else 30 | None \<Rightarrow> 30)"

text \<open>
  A new link replaces the outstanding ones; when the mail cannot be sent (\<open>sent = False\<close>, also
  when the origin is not configured) the link is withdrawn and the error passed on.
\<close>

definition create_and_send_reset ::
    "crypto \<Rightarrow> db \<Rightarrow> ident \<Rightarrow> string \<Rightarrow> ident \<Rightarrow> int option \<Rightarrow> bool \<Rightarrow> time \<Rightarrow> unit outcome" where
  "create_and_send_reset cr d uid token new_id configured sent now =
     (let d1 = use_resets uid now d;
          row = \<lparr>rt_id = new_id, rt_token_hash = cr_hash cr token, rt_user = uid,
                 rt_expires = now + reset_ttl_minutes configured * 60000, rt_used = None\<rparr>
      in if new_id \<in> rt_id ` set (t_resets d) \<or> rt_token_hash row \<in> rt_token_hash ` set (t_resets d)
         then (d, Inl (Internal ''P2002''))
         else
           let d2 = d1\<lparr>t_resets := t_resets d1 @ [row]\<rparr>
           in if sent then (d2, Inr ())
              else (d2\<lparr>t_resets := update_where (\<lambda>r. rt_id r = new_id \<and> rt_used r = None)
                      (\<lambda>r. r\<lparr>rt_used := Some now\<rparr>) (t_resets d2)\<rparr>, Inl (Internal ''smtp'')))"

text \<open>The public request answers the same whatever the account; sending happens behind it.\<close>

definition request_password_reset ::
    "crypto \<Rightarrow> db \<Rightarrow> string \<Rightarrow> string \<Rightarrow> ident \<Rightarrow> int option \<Rightarrow> bool \<Rightarrow> time \<Rightarrow> unit outcome" where
  "request_password_reset cr d email token new_id configured sent now =
     (case List.find (\<lambda>u. u_email u = email) (t_users d) of
        None \<Rightarrow> (d, Inr ())
      | Some u \<Rightarrow>
          if u_active u
          then (fst (create_and_send_reset cr d (u_id u) token new_id configured sent now), Inr ())
          else (d, Inr ()))"

definition send_password_reset_for_user ::
    "crypto \<Rightarrow> db \<Rightarrow> ident \<Rightarrow> string \<Rightarrow> ident \<Rightarrow> int option \<Rightarrow> bool \<Rightarrow> time \<Rightarrow> string outcome" where
  "send_password_reset_for_user cr d uid token new_id configured sent now =
     (case find_user d uid of
        None \<Rightarrow> (d, Inl (NotFound ''user''))
      | Some u \<Rightarrow>
          if u_protected u then (d, Inl (Forbidden ''protected''))
          else if \<not> u_active u then (d, Inl (BadRequest ''deactivated''))
          else case create_and_send_reset cr d uid token new_id configured sent now of
            (d', Inl e) \<Rightarrow> (d', Inl e)
          | (d', Inr _) \<Rightarrow> (d', Inr (u_email u)))"

definition reset_read :: "crypto \<Rightarrow> db \<Rightarrow> string \<Rightarrow> time \<Rightarrow> reset_row result" where
  "reset_read cr d token now =
     rbind (or_throw (BadRequest ''reset link'')
       (List.find (\<lambda>r. rt_token_hash r = cr_hash cr token) (t_resets d))) (\<lambda>r.
     rbind (rguard (rt_used r = None \<and> now < rt_expires r \<and> user_active d (rt_user r))
       (BadRequest ''reset link'')) (\<lambda>_. Inr r))"

definition reset_commit :: "db \<Rightarrow> reset_row \<Rightarrow> string \<Rightarrow> time \<Rightarrow> db result" where
  "reset_commit d r new_hash now =
     (let usable = (\<lambda>x. rt_id x = rt_id r \<and> rt_used x = None \<and> now < rt_expires x) in
      rbind (rguard (count_where usable (t_resets d) = 1) (BadRequest ''reset link'')) (\<lambda>_.
      let d1 = d\<lparr>t_resets := update_where usable (\<lambda>x. x\<lparr>rt_used := Some now\<rparr>) (t_resets d)\<rparr>
      in Inr (use_resets (rt_user r) now
           (end_sessions (rt_user r) (set_password (rt_user r) new_hash d1)))))"

definition reset_password :: "crypto \<Rightarrow> db \<Rightarrow> string \<Rightarrow> string \<Rightarrow> time \<Rightarrow> db result" where
  "reset_password cr d token new_hash now =
     rbind (reset_read cr d token now) (\<lambda>r. reset_commit d r new_hash now)"

definition reset_password_by_admin :: "db \<Rightarrow> ident \<Rightarrow> string \<Rightarrow> time \<Rightarrow> db result" where
  "reset_password_by_admin d uid new_hash now =
     rbind (or_throw (NotFound ''user'') (find_user d uid)) (\<lambda>u.
     rbind (rguard (\<not> u_protected u) (Forbidden ''protected'')) (\<lambda>_.
     Inr (use_resets uid now (end_sessions uid (set_password uid new_hash d)))))"

section \<open>Sessions as a token family\<close>

interpretation session_tokens: token_family ses_id ses_family ses_revoked ses_rotated
  "\<lambda>t s. s\<lparr>ses_revoked := Some t\<rparr>" "\<lambda>t s. s\<lparr>ses_rotated := Some t, ses_revoked := Some t\<rparr>"
  by unfold_locales simp_all

abbreviation families_single :: "db \<Rightarrow> bool" where
  "families_single d \<equiv> single_live ses_family ses_revoked (t_sessions d)"

text \<open>
  The session table: unique keys, at most one live session per family, no rotated session live,
  every family named after one of its sessions and owned by one user.
\<close>

definition sessions_ok :: "db \<Rightarrow> bool" where
  "sessions_ok d \<longleftrightarrow>
     distinct (map ses_id (t_sessions d)) \<and> distinct (map ses_token_hash (t_sessions d)) \<and>
     families_single d \<and> rotated_revoked ses_rotated ses_revoked (t_sessions d) \<and>
     (\<forall>s \<in> set (t_sessions d). \<exists>r \<in> set (t_sessions d). ses_id r = ses_family s \<and> ses_user r = ses_user s)"

lemma sessions_ok_cong: "t_sessions d' = t_sessions d \<Longrightarrow> sessions_ok d' = sessions_ok d"
  by (simp add: sessions_ok_def)

text \<open>The updates of the operations keep id, family, user and hash of a session.\<close>

lemma sessions_ok_update:
  fixes rows :: "session_row list"
  assumes ok: "sessions_ok d"
    and keys: "map (\<lambda>s. (ses_id s, ses_token_hash s, ses_family s, ses_user s)) rows =
      map (\<lambda>s. (ses_id s, ses_token_hash s, ses_family s, ses_user s)) (t_sessions d)"
    and live: "single_live ses_family ses_revoked rows" "rotated_revoked ses_rotated ses_revoked rows"
    and new: "t_sessions d' = rows @ extra" "set extra \<subseteq> {n}"
    and n: "extra \<noteq> [] \<Longrightarrow> extra = [n] \<and> ses_id n \<notin> ses_id ` set rows \<and>
      ses_token_hash n \<notin> ses_token_hash ` set rows \<and> ses_rotated n = None \<and>
      single_live ses_family ses_revoked (rows @ [n]) \<and>
      (ses_family n = ses_id n \<or> (\<exists>r \<in> set rows. ses_family r = ses_family n \<and> ses_user r = ses_user n))"
  shows "sessions_ok d'"
proof -
  have ids: "map ses_id rows = map ses_id (t_sessions d)"
    using arg_cong [OF keys, of "map fst"] by (simp add: comp_def)
  have hashes: "map ses_token_hash rows = map ses_token_hash (t_sessions d)"
    using arg_cong [OF keys, of "map (fst \<circ> snd)"] by (simp add: comp_def)
  have owned: "\<exists>r \<in> set rows. ses_id r = ses_family s \<and> ses_user r = ses_user s" if s: "s \<in> set rows" for s
  proof -
    have "(ses_id s, ses_token_hash s, ses_family s, ses_user s) \<in>
        set (map (\<lambda>s. (ses_id s, ses_token_hash s, ses_family s, ses_user s)) (t_sessions d))"
      unfolding keys [symmetric] using s by auto
    then obtain t where "t \<in> set (t_sessions d)" "ses_family t = ses_family s" "ses_user t = ses_user s" by auto
    then obtain r where r: "r \<in> set (t_sessions d)" "ses_id r = ses_family s" "ses_user r = ses_user s"
      using ok unfolding sessions_ok_def by metis
    have "(ses_id r, ses_token_hash r, ses_family r, ses_user r) \<in>
        set (map (\<lambda>s. (ses_id s, ses_token_hash s, ses_family s, ses_user s)) rows)"
      unfolding keys using r(1) by auto
    then show ?thesis using r(2,3) by auto
  qed
  show ?thesis
  proof (cases "extra = []")
    case True
    with new ids hashes live owned ok show ?thesis by (simp add: sessions_ok_def)
  next
    case False
    note n = n [OF this]
    have rows: "t_sessions d' = rows @ [n]" using new n by simp
    have "distinct (map ses_id (rows @ [n]))" "distinct (map ses_token_hash (rows @ [n]))"
      using n ids hashes ok unfolding distinct_map_snoc sessions_ok_def by simp_all
    moreover have "\<exists>r \<in> set (rows @ [n]). ses_id r = ses_family s \<and> ses_user r = ses_user s"
      if "s \<in> set (rows @ [n])" for s
    proof (cases "s = n")
      case True
      from n consider "ses_family n = ses_id n" | r where "r \<in> set rows" "ses_family r = ses_family n" "ses_user r = ses_user n"
        by blast
      then show ?thesis
      proof cases
        case 1
        with True show ?thesis by auto
      next
        case 2
        with owned [OF 2(1)] True show ?thesis by auto
      qed
    next
      case False
      with that owned [of s] show ?thesis by auto
    qed
    moreover have "rotated_revoked ses_rotated ses_revoked (rows @ [n])"
      using live(2) n by (simp add: rotated_revoked_snoc)
    ultimately show ?thesis unfolding sessions_ok_def rows using n by blast
  qed
qed

lemma sessions_ok_revoke_family: "sessions_ok d \<Longrightarrow> sessions_ok (revoke_family f now d)"
  by (rule sessions_ok_update [of d "t_sessions (revoke_family f now d)" _ "[]"])
    (simp_all add: revoke_family_def map_update_where session_tokens.revoke_single_live
      session_tokens.revoke_rotated_revoked sessions_ok_def)

lemma session_owner:
  "sessions_ok d \<Longrightarrow> s \<in> set (t_sessions d) \<Longrightarrow>
   \<exists>r \<in> set (t_sessions d). ses_id r = ses_family s \<and> ses_user r = ses_user s"
  by (simp add: sessions_ok_def)

lemma sessions_ok_end:
  assumes "sessions_ok d"
  shows "sessions_ok (end_sessions uid d)"
proof -
  have "\<exists>r \<in> set (delete_where (\<lambda>s. ses_user s = uid) (t_sessions d)).
      ses_id r = ses_family s \<and> ses_user r = ses_user s"
    if s: "s \<in> set (delete_where (\<lambda>s. ses_user s = uid) (t_sessions d))" for s
  proof -
    have "s \<in> set (t_sessions d)" "ses_user s \<noteq> uid" using s by (simp_all add: row_simps)
    moreover from this obtain r where "r \<in> set (t_sessions d)" "ses_id r = ses_family s" "ses_user r = ses_user s"
      using session_owner [OF assms] by blast
    ultimately show ?thesis by (auto simp: row_simps)
  qed
  with assms show ?thesis
    by (simp add: sessions_ok_def end_sessions_def distinct_delete_where single_live_delete rotated_revoked_delete)
qed

lemma sessions_ok_password:
  assumes "sessions_ok d"
  shows "sessions_ok (use_resets uid now (end_sessions uid (set_password uid h d)))"
proof -
  have "t_sessions (use_resets uid now (end_sessions uid (set_password uid h d))) = t_sessions (end_sessions uid d)"
    by (simp add: use_resets_def end_sessions_def set_password_def)
  from sessions_ok_cong [OF this] sessions_ok_end [OF assms] show ?thesis by simp
qed

lemma insert_session_Inr:
  "insert_session s d = Inr d' \<longleftrightarrow> ses_id s \<notin> ses_id ` set (t_sessions d) \<and>
     ses_token_hash s \<notin> ses_token_hash ` set (t_sessions d) \<and> d' = d\<lparr>t_sessions := t_sessions d @ [s]\<rparr>"
  by (auto simp: insert_session_def rbind_eq_Inr insert_row_eq_Inr)

text \<open>A family is named after a session, so a fresh id starts a fresh family.\<close>

lemma fresh_family:
  "sessions_ok d \<Longrightarrow> i \<notin> ses_id ` set (t_sessions d) \<Longrightarrow> i \<notin> ses_family ` set (t_sessions d)"
  unfolding sessions_ok_def by (metis (mono_tags, lifting) image_iff)

lemma sessions_ok_answer:
  assumes ok: "sessions_ok d" and run: "answer_session cr d u ctx ext sid now = (d', out)"
  shows "sessions_ok d'"
proof (cases out)
  case (Inl e)
  with run ok show ?thesis by (auto simp: answer_session_def split: sum.splits prod.splits)
next
  case (Inr a)
  with run obtain s where s: "insert_session s d = Inr d'" "ses_family s = ses_id s" "ses_rotated s = None"
    by (auto simp: answer_session_def issue_tokens_def rbind_eq_Inr Let_def split: sum.splits prod.splits)
  note i = s(1) [unfolded insert_session_Inr]
  show ?thesis
  proof (rule sessions_ok_update [OF ok refl])
    show "families_single d" "rotated_revoked ses_rotated ses_revoked (t_sessions d)"
      using ok by (simp_all add: sessions_ok_def)
    show "t_sessions d' = t_sessions d @ [s]" using i by simp
    have "single_live ses_family ses_revoked (t_sessions d @ [s])"
      using ok fresh_family [OF ok] i s(2) by (simp add: single_live_new_family sessions_ok_def)
    with i s show "[s] = [s] \<and> ses_id s \<notin> ses_id ` set (t_sessions d) \<and>
      ses_token_hash s \<notin> ses_token_hash ` set (t_sessions d) \<and> ses_rotated s = None \<and>
      single_live ses_family ses_revoked (t_sessions d @ [s]) \<and>
      (ses_family s = ses_id s \<or> (\<exists>r \<in> set (t_sessions d). ses_family r = ses_family s \<and> ses_user r = ses_user s))"
      by simp
  qed simp
qed

section \<open>What a rotation does\<close>

definition replacement_session ::
    "crypto \<Rightarrow> session_row \<Rightarrow> request_context \<Rightarrow> ident \<Rightarrow> time \<Rightarrow> string \<Rightarrow> session_row" where
  "replacement_session cr s ctx new_id now refresh =
     \<lparr>ses_id = new_id, ses_token_hash = cr_hash cr refresh, ses_family = ses_family s,
      ses_ip = (case rc_ip ctx of Some a \<Rightarrow> Some a | None \<Rightarrow> ses_ip s),
      ses_agent = (case rc_agent ctx of Some a \<Rightarrow> Some a | None \<Rightarrow> ses_agent s),
      ses_user = ses_user s, ses_expires = refresh_expiry cr refresh now,
      ses_rotated = None, ses_revoked = None, ses_identity = ses_identity s,
      ses_verified = ses_verified s, ses_recheck = ses_recheck s\<rparr>"

definition consumed :: "session_row \<Rightarrow> time \<Rightarrow> db \<Rightarrow> session_row list" where
  "consumed s now d = update_where (consumable s now)
     (\<lambda>r. r\<lparr>ses_rotated := Some now, ses_revoked := Some now\<rparr>) (t_sessions d)"

lemma resolve_user_sessions: "resolve_user lc (d\<lparr>t_sessions := xs\<rparr>) i = resolve_user lc d i"
proof -
  have same: "find_user (d\<lparr>t_sessions := xs\<rparr>) = find_user d" "find_role (d\<lparr>t_sessions := xs\<rparr>) = find_role d"
    "load_grant (d\<lparr>t_sessions := xs\<rparr>) = load_grant d"
    by (simp_all add: fun_eq_iff find_defs load_grant_def split: option.split)
  then have "external_grants (d\<lparr>t_sessions := xs\<rparr>) i = external_grants d i" for i
    by (simp add: external_grants_def)
  then have "with_effective_role lc (d\<lparr>t_sessions := xs\<rparr>) = with_effective_role lc d"
    by (simp add: fun_eq_iff with_effective_role_def)
  with same show ?thesis by (simp add: resolve_user_def split: option.split)
qed

lemma rotate_session_Rotated:
  assumes "rotate_session lc cr d s ctx new_id now = (d', Inr (Rotated access refresh))"
  obtains u role where "count_where (consumable s now) (t_sessions d) = 1"
    and "resolve_user lc d (ses_user s) = Some (u, role)"
    and "access = sign_access_token cr (payload_of (to_authenticated_user u role))"
    and "refresh = sign_refresh_token cr (payload_of (to_authenticated_user u role)) new_id"
    and "new_id \<notin> ses_id ` set (consumed s now d)"
    and "cr_hash cr refresh \<notin> ses_token_hash ` set (consumed s now d)"
    and "d' = d\<lparr>t_sessions := consumed s now d @ [replacement_session cr s ctx new_id now refresh]\<rparr>"
  using assms
  by (auto simp: rotate_session_def Let_def insert_session_Inr consumed_def replacement_session_def
      resolve_user_sessions split: if_splits option.splits sum.splits)

lemma rotate_session_other:
  assumes "rotate_session lc cr d s ctx new_id now = (d', out)" and "\<nexists>a r. out = Inr (Rotated a r)"
  shows "d' = d \<and> (out = Inr Invalid \<or> (\<exists>e. out = Inl e)) \<or>
    d' = revoke_family (ses_family s) now d \<and> out = Inr (Reused (ses_user s) (ses_family s))"
  using assms
  by (auto simp: rotate_session_def Let_def split: if_splits option.splits sum.splits)

text \<open>A session read earlier: whatever carries its id still has its family and its user.\<close>

definition same_session :: "db \<Rightarrow> session_row \<Rightarrow> bool" where
  "same_session d s \<longleftrightarrow>
     (\<forall>r \<in> set (t_sessions d). ses_id r = ses_id s \<longrightarrow> ses_family r = ses_family s \<and> ses_user r = ses_user s)"

lemma same_session_row:
  "sessions_ok d \<Longrightarrow> s \<in> set (t_sessions d) \<Longrightarrow> same_session d s"
  unfolding sessions_ok_def same_session_def using unique_key_eq by metis

lemma one_consumable:
  assumes "count_where (consumable s now) (t_sessions d) = 1"
  obtains r where "r \<in> set (t_sessions d)" and "consumable s now r"
proof -
  have "0 < count_where (consumable s now) (t_sessions d)" using assms by simp
  then show ?thesis using that by (auto simp: row_simps)
qed

lemma keys_consumed:
  "map (\<lambda>s. (ses_id s, ses_token_hash s, ses_family s, ses_user s)) (consumed s now d) =
   map (\<lambda>s. (ses_id s, ses_token_hash s, ses_family s, ses_user s)) (t_sessions d)"
  by (simp add: consumed_def map_update_where)

lemma sessions_ok_rotate:
  assumes ok: "sessions_ok d" and s: "same_session d s"
    and run: "rotate_session lc cr d s ctx new_id now = (d', out)"
  shows "sessions_ok d'"
proof (cases "\<exists>a r. out = Inr (Rotated a r)")
  case False
  with rotate_session_other [OF run] ok show ?thesis by (auto simp: sessions_ok_revoke_family)
next
  case True
  then obtain access refresh where "out = Inr (Rotated access refresh)" by blast
  with run obtain u role where r: "count_where (consumable s now) (t_sessions d) = 1"
    "resolve_user lc d (ses_user s) = Some (u, role)"
    "access = sign_access_token cr (payload_of (to_authenticated_user u role))"
    "refresh = sign_refresh_token cr (payload_of (to_authenticated_user u role)) new_id"
    "new_id \<notin> ses_id ` set (consumed s now d)"
    "cr_hash cr refresh \<notin> ses_token_hash ` set (consumed s now d)"
    and d': "d' = d\<lparr>t_sessions := consumed s now d @ [replacement_session cr s ctx new_id now refresh]\<rparr>"
    using rotate_session_Rotated [of lc cr d s ctx new_id now d' access refresh] by metis
  let ?n = "replacement_session cr s ctx new_id now refresh"
  from one_consumable [OF r(1)] obtain q where q: "q \<in> set (t_sessions d)" "consumable s now q" .
  then have same: "ses_family q = ses_family s" "ses_user q = ses_user s"
    using s by (simp_all add: same_session_def consumable_def)
  have here: "\<exists>r \<in> set (consumed s now d). ses_family r = ses_family s \<and> ses_user r = ses_user s"
  proof -
    let ?q = "q\<lparr>ses_rotated := Some now, ses_revoked := Some now\<rparr>"
    have "?q \<in> set (consumed s now d)"
      unfolding consumed_def set_update_where by (rule image_eqI [OF _ q(1)]) (simp add: q(2))
    then show ?thesis using same by (intro bexI [of _ ?q]) simp_all
  qed
  have live: "single_live ses_family ses_revoked (consumed s now d @ [?n])"
    unfolding consumed_def
    by (rule session_tokens.rotate_single_live [where s = q and p = "consumable s now"])
      (use ok q same in \<open>simp_all add: sessions_ok_def consumable_def replacement_session_def\<close>)
  then have "single_live ses_family ses_revoked (consumed s now d)" by (simp add: single_live_def)
  moreover have "rotated_revoked ses_rotated ses_revoked (consumed s now d)"
    unfolding consumed_def
    by (rule session_tokens.rotate_rotated_revoked) (use ok in \<open>simp add: sessions_ok_def\<close>)
  ultimately show ?thesis
  proof (rule sessions_ok_update [where extra = "[?n]" and n = ?n, OF ok keys_consumed])
    show "t_sessions d' = consumed s now d @ [?n]" using d' by simp
    show "[?n] = [?n] \<and> ses_id ?n \<notin> ses_id ` set (consumed s now d) \<and>
      ses_token_hash ?n \<notin> ses_token_hash ` set (consumed s now d) \<and> ses_rotated ?n = None \<and>
      single_live ses_family ses_revoked (consumed s now d @ [?n]) \<and>
      (ses_family ?n = ses_id ?n \<or>
       (\<exists>r \<in> set (consumed s now d). ses_family r = ses_family ?n \<and> ses_user r = ses_user ?n))"
      using live here r(5,6) by (simp add: replacement_session_def)
  qed simp
qed

lemma find_session_iff:
  "sessions_ok d \<Longrightarrow> find_session_by_hash d h = Some s \<longleftrightarrow> s \<in> set (t_sessions d) \<and> ses_token_hash s = h"
  unfolding find_session_by_hash_def sessions_ok_def by (simp add: find_key_iff)

lemma sessions_ok_refresh_transaction:
  assumes ok: "sessions_ok d" and run: "refresh_transaction lc cr d p h ctx new_id now = (d', out)"
  shows "sessions_ok d'"
proof (cases "refresh_read d p h now")
  case Read_Invalid
  with run ok show ?thesis by (simp add: refresh_transaction_def)
next
  case (Read_Reused s)
  with run ok show ?thesis by (auto simp: refresh_transaction_def sessions_ok_revoke_family)
next
  case (Read_Usable s)
  then have "find_session_by_hash d h = Some s"
    by (auto simp: refresh_read_def split: option.splits if_splits)
  then have "same_session d s" by (simp add: find_session_iff [OF ok] same_session_row [OF ok])
  with run Read_Usable sessions_ok_rotate [OF ok] show ?thesis by (simp add: refresh_transaction_def)
qed

text \<open>Re-evaluating stored claims does not touch the sessions.\<close>

lemma synchronize_stored_sessions:
  assumes "synchronize_stored lc fresh d i = (d', out)"
  shows "t_sessions d' = t_sessions d"
proof -
  have "t_sessions (record_failure d i e) = t_sessions d" for e by (simp add: record_failure_def)
  moreover have "t_sessions d' = t_sessions d" if "sync_transaction lc fresh d i c = Inr (d', v)" for c v
    by (rule sync_transaction_tables [OF that]) (drule arg_cong [where f = t_sessions], simp)
  ultimately show ?thesis using assms
    by (auto simp: synchronize_stored_def apply_claims_def split: option.splits sum.splits prod.splits)
qed

section \<open>Requests in any order\<close>

text \<open>
  The state is the database with the refresh requests that have read their session and not yet
  written. Every other operation is one transaction. A new id is one that no row and no request
  holds (\<^verbatim>\<open>randomUUID\<close>). The last three steps are what the other services do: unlinking an
  identity revokes its sessions (\<^verbatim>\<open>oidc.service.ts\<close>, \<open>unlinkIdentity\<close>), the deletion of identities
  (unlinking, removing a provider) clears the column that names them (\<^verbatim>\<open>onDelete: SetNull\<close>), and no
  other service writes sessions.
\<close>

inductive auth_step ::
    "(string \<Rightarrow> string \<Rightarrow> int) \<Rightarrow> (ident \<Rightarrow> ident) \<Rightarrow> crypto \<Rightarrow>
     db \<times> session_row list \<Rightarrow> db \<times> session_row list \<Rightarrow> bool"
  for lc :: "string \<Rightarrow> string \<Rightarrow> int" and fresh :: "ident \<Rightarrow> ident" and cr :: crypto where
  step_register: "sid \<notin> ses_id ` set fl \<Longrightarrow>
    auth_step lc fresh cr (d, fl) (fst (register lc cr d inp hash uid ctx sid now), fl)"
| step_login: "sid \<notin> ses_id ` set fl \<Longrightarrow>
    auth_step lc fresh cr (d, fl) (fst (login cr d email password ctx sid now), fl)"
| step_external: "sid \<notin> ses_id ` set fl \<Longrightarrow>
    auth_step lc fresh cr (d, fl) (fst (create_session_for_user lc cr d uid ctx ext sid now), fl)"
| step_sync: "auth_step lc fresh cr (d, fl) (fst (synchronize_stored lc fresh d x), fl)"
| step_read: "refresh_read d p h now = Read_Usable s \<Longrightarrow> auth_step lc fresh cr (d, fl) (d, s # fl)"
| step_reused: "refresh_read d p h now = Read_Reused s \<Longrightarrow>
    auth_step lc fresh cr (d, fl) (revoke_family (ses_family s) now d, fl)"
| step_rotate: "s \<in> set fl \<Longrightarrow> sid \<notin> ses_id ` set fl \<Longrightarrow>
    auth_step lc fresh cr (d, fl) (fst (rotate_session lc cr d s ctx sid now), remove1 s fl)"
| step_logout: "auth_step lc fresh cr (d, fl) (logout cr d token now, fl)"
| step_change: "change_password cr d uid current new_hash now = Inr d' \<Longrightarrow>
    auth_step lc fresh cr (d, fl) (d', fl)"
| step_request: "auth_step lc fresh cr (d, fl)
    (fst (request_password_reset cr d email token rid configured sent now), fl)"
| step_reset: "reset_password cr d token new_hash now = Inr d' \<Longrightarrow> auth_step lc fresh cr (d, fl) (d', fl)"
| step_admin: "reset_password_by_admin d uid new_hash now = Inr d' \<Longrightarrow>
    auth_step lc fresh cr (d, fl) (d', fl)"
| step_unlink: "t_sessions d' = update_where (\<lambda>s. ses_identity s = Some i \<and> ses_revoked s = None)
      (\<lambda>s. s\<lparr>ses_revoked := Some now\<rparr>) (t_sessions d) \<Longrightarrow> auth_step lc fresh cr (d, fl) (d', fl)"
| step_detach: "t_sessions d' = update_where (\<lambda>s. \<exists>x \<in> ids. ses_identity s = Some x)
      (\<lambda>s. s\<lparr>ses_identity := None\<rparr>) (t_sessions d) \<Longrightarrow> auth_step lc fresh cr (d, fl) (d', fl)"
| step_elsewhere: "t_sessions d' = t_sessions d \<Longrightarrow> auth_step lc fresh cr (d, fl) (d', fl)"

text \<open>Which rows a transaction may leave: old ones up to their times, and one with a new id.\<close>

definition rows_from :: "session_row list \<Rightarrow> ident \<Rightarrow> session_row list \<Rightarrow> bool" where
  "rows_from rows sid rows' \<longleftrightarrow> (\<forall>r \<in> set rows'. ses_id r = sid \<or>
     (\<exists>q \<in> set rows. ses_id q = ses_id r \<and> ses_family q = ses_family r \<and> ses_user q = ses_user r))"

lemma rows_from_refl: "rows_from rows sid rows"
  by (auto simp: rows_from_def)

lemma rows_from_snoc: "rows_from rows sid rows' \<Longrightarrow> ses_id n = sid \<Longrightarrow> rows_from rows sid (rows' @ [n])"
  by (auto simp: rows_from_def)

lemma rows_from_update:
  "(\<And>r. ses_id (g r) = ses_id r \<and> ses_family (g r) = ses_family r \<and> ses_user (g r) = ses_user r) \<Longrightarrow>
   rows_from rows sid (update_where p g rows)"
  unfolding rows_from_def set_update_where ball_simps by (intro ballI disjI2) (rule bexI, auto)

lemma rows_from_delete: "rows_from rows sid (delete_where p rows)"
  by (auto simp: rows_from_def row_simps)

lemma same_session_kept:
  "same_session d s \<Longrightarrow> rows_from (t_sessions d) sid (t_sessions d') \<Longrightarrow> sid \<noteq> ses_id s \<Longrightarrow> same_session d' s"
  unfolding same_session_def rows_from_def by metis

lemma rows_from_revoke: "rows_from (t_sessions d) sid (t_sessions (revoke_family f now d))"
  unfolding revoke_family_def by (simp add: rows_from_update)

lemma rows_from_password:
  "rows_from (t_sessions d) sid (t_sessions (use_resets uid now (end_sessions uid (set_password uid h d'))))"
  if "t_sessions d' = t_sessions d"
  using that by (simp add: use_resets_def end_sessions_def set_password_def rows_from_delete)

lemma rows_from_answer:
  "rows_from (t_sessions d) sid (t_sessions (fst (answer_session cr d u ctx ext sid now)))"
  by (auto simp: answer_session_def issue_tokens_def rbind_eq_Inr Let_def insert_session_Inr rows_from_refl
      intro!: rows_from_snoc split: sum.splits prod.splits)

lemma rows_from_rotate:
  "rows_from (t_sessions d) sid (t_sessions (fst (rotate_session lc cr d s ctx sid now)))"
proof -
  obtain d' out where run: "rotate_session lc cr d s ctx sid now = (d', out)" by fastforce
  show ?thesis
  proof (cases "\<exists>a r. out = Inr (Rotated a r)")
    case False
    with rotate_session_other [OF run] run show ?thesis by (auto simp: rows_from_refl rows_from_revoke)
  next
    case True
    then obtain a r where "out = Inr (Rotated a r)" by blast
    with run have "rotate_session lc cr d s ctx sid now = (d', Inr (Rotated a r))" by simp
    then have "t_sessions d' = consumed s now d @ [replacement_session cr s ctx sid now r]"
      by (rule rotate_session_Rotated) simp
    then show ?thesis
      using run by (simp add: rows_from_snoc replacement_session_def consumed_def rows_from_update)
  qed
qed

text \<open>What other services do to sessions.\<close>

lemma sessions_ok_unlink:
  "t_sessions d' = update_where p (\<lambda>s. s\<lparr>ses_revoked := Some now\<rparr>) (t_sessions d) \<Longrightarrow> sessions_ok d \<Longrightarrow> sessions_ok d'"
  by (rule sessions_ok_update [of d "t_sessions d'" _ "[]"])
    (simp_all add: map_update_where session_tokens.revoke_single_live session_tokens.revoke_rotated_revoked sessions_ok_def)

lemma single_live_update:
  assumes "\<And>r. f (g r) = f r" "\<And>r. v (g r) = v r" and "single_live f v rows"
  shows "single_live f v (update_where p g rows)"
proof (rule single_liveI)
  fix a b assume ab: "a \<in> set (update_where p g rows)" "b \<in> set (update_where p g rows)" "f a = f b" "v a = None" "v b = None"
  then obtain x y where "x \<in> set rows" "a = (if p x then g x else x)" "y \<in> set rows" "b = (if p y then g y else y)"
    unfolding set_update_where by blast
  moreover from this have "x = y" using ab assms(1,2) by (intro single_liveD [OF assms(3)]) (simp_all split: if_splits)
  ultimately show "a = b" by simp
qed

lemma sessions_ok_detach:
  "t_sessions d' = update_where p (\<lambda>s. s\<lparr>ses_identity := None\<rparr>) (t_sessions d) \<Longrightarrow> sessions_ok d \<Longrightarrow> sessions_ok d'"
  by (rule sessions_ok_update [of d "t_sessions d'" _ "[]"])
    (auto simp: map_update_where sessions_ok_def rotated_revoked_def row_simps intro: single_live_update)

text \<open>The three ways to a new session end in \<open>answer_session\<close>, on the sessions they found.\<close>

definition answers :: "crypto \<Rightarrow> db \<Rightarrow> ident \<Rightarrow> db \<Rightarrow> bool" where
  "answers cr d sid d' \<longleftrightarrow> t_sessions d' = t_sessions d \<or>
     (\<exists>d1 u ctx ext now. t_sessions d1 = t_sessions d \<and> d' = fst (answer_session cr d1 u ctx ext sid now))"

lemma answersI:
  "t_sessions d1 = t_sessions d \<Longrightarrow> answers cr d sid (fst (answer_session cr d1 u ctx ext sid now))"
  unfolding answers_def by blast

lemma answers_same: "answers cr d sid d"
  by (simp add: answers_def)

lemma register_answers: "answers cr d sid (fst (register lc cr d inp hash uid ctx sid now))"
  by (auto simp: register_def Let_def answers_same answersI split: option.split)

lemma login_answers: "answers cr d sid (fst (login cr d email password ctx sid now))"
  by (auto simp: login_def Let_def answers_same answersI split: option.split)

lemma external_answers: "answers cr d sid (fst (create_session_for_user lc cr d uid ctx ext sid now))"
  by (auto simp: create_session_for_user_def answers_same answersI split: option.split)

lemma rows_from_answers: "answers cr d sid d' \<Longrightarrow> rows_from (t_sessions d) sid (t_sessions d')"
  unfolding answers_def using rows_from_answer rows_from_refl by metis

lemma sessions_ok_answers: "answers cr d sid d' \<Longrightarrow> sessions_ok d \<Longrightarrow> sessions_ok d'"
  unfolding answers_def by (metis sessions_ok_answer sessions_ok_cong prod.collapse)

definition auth_state_ok :: "db \<times> session_row list \<Rightarrow> bool" where
  "auth_state_ok st \<longleftrightarrow> sessions_ok (fst st) \<and> (\<forall>s \<in> set (snd st). same_session (fst st) s)"

lemma auth_state_next:
  assumes "auth_state_ok (d, fl)" and "sessions_ok d'" and "set fl' \<subseteq> set fl"
    and "rows_from (t_sessions d) sid (t_sessions d')" and "sid \<notin> ses_id ` set fl"
  shows "auth_state_ok (d', fl')"
  using assms same_session_kept [OF _ assms(4)] unfolding auth_state_ok_def by fastforce

lemma auth_state_same_ids:
  assumes ok: "auth_state_ok (d, fl)" and "sessions_ok d'" and "\<And>sid. rows_from (t_sessions d) sid (t_sessions d')"
  shows "auth_state_ok (d', fl)"
proof -
  have "finite (ses_id ` set fl)" by simp
  then obtain sid :: ident where "sid \<notin> ses_id ` set fl"
    using ex_new_if_finite [OF infinite_UNIV_listI] by blast
  with auth_state_next [OF ok assms(2) subset_refl assms(3)] show ?thesis .
qed

lemma request_reset_sessions:
  "t_sessions (fst (request_password_reset cr d email token rid configured sent now)) = t_sessions d"
  by (simp add: request_password_reset_def create_and_send_reset_def use_resets_def Let_def
      split: option.split)

lemma refresh_read_row:
  "refresh_read d p h now = Read_Usable s \<Longrightarrow> find_session_by_hash d h = Some s"
  "refresh_read d p h now = Read_Reused s \<Longrightarrow> find_session_by_hash d h = Some s"
  by (auto simp: refresh_read_def split: option.splits if_splits)

lemma auth_step_ok:
  assumes "auth_step lc fresh cr st st'" and "auth_state_ok st"
  shows "auth_state_ok st'"
  using assms
proof (induction rule: auth_step.induct)
  case (step_register sid fl d inp hash uid ctx now)
  note a = register_answers [of cr d sid lc inp hash uid ctx now]
  show ?case
    by (rule auth_state_next [OF step_register(2) _ subset_refl rows_from_answers [OF a] step_register(1)])
      (use step_register(2) sessions_ok_answers [OF a] in \<open>simp add: auth_state_ok_def\<close>)
next
  case (step_login sid fl d email password ctx now)
  note a = login_answers [of cr d sid email password ctx now]
  show ?case
    by (rule auth_state_next [OF step_login(2) _ subset_refl rows_from_answers [OF a] step_login(1)])
      (use step_login(2) sessions_ok_answers [OF a] in \<open>simp add: auth_state_ok_def\<close>)
next
  case (step_external sid fl d uid ctx ext now)
  note a = external_answers [of cr d sid lc uid ctx ext now]
  show ?case
    by (rule auth_state_next [OF step_external(2) _ subset_refl rows_from_answers [OF a] step_external(1)])
      (use step_external(2) sessions_ok_answers [OF a] in \<open>simp add: auth_state_ok_def\<close>)
next
  case (step_sync d fl x)
  obtain d' out where "synchronize_stored lc fresh d x = (d', out)" by fastforce
  with synchronize_stored_sessions [OF this] step_sync show ?case
    by (simp add: auth_state_ok_def same_session_def sessions_ok_def)
next
  case (step_read d p h now s fl)
  then have "sessions_ok d" by (simp add: auth_state_ok_def)
  with step_read refresh_read_row(1) [OF step_read(1)] show ?case
    by (simp add: auth_state_ok_def find_session_iff same_session_row)
next
  case (step_reused d p h now s fl)
  then show ?case
    by (intro auth_state_same_ids [OF step_reused(2)])
      (simp_all add: auth_state_ok_def sessions_ok_revoke_family rows_from_revoke)
next
  case (step_rotate s fl sid d ctx now)
  obtain d' out where run: "rotate_session lc cr d s ctx sid now = (d', out)" by fastforce
  have "sessions_ok d'"
    by (rule sessions_ok_rotate [OF _ _ run]) (use step_rotate in \<open>simp_all add: auth_state_ok_def\<close>)
  with run show ?case
    by (intro auth_state_next [OF step_rotate(3) _ set_remove1_subset rows_from_rotate step_rotate(2)]) simp
next
  case (step_logout d fl token now)
  then show ?case
    by (intro auth_state_same_ids [OF step_logout(1)])
      (auto simp: auth_state_ok_def logout_def sessions_ok_revoke_family rows_from_revoke rows_from_refl
        split: option.split)
next
  case (step_change d uid current new_hash now d' fl)
  then show ?case
    by (intro auth_state_same_ids [OF step_change(2)])
      (auto simp: auth_state_ok_def change_password_def rbind_eq_Inr sessions_ok_password rows_from_password)
next
  case (step_request d fl email token rid configured sent now)
  with request_reset_sessions [of cr d email token rid configured sent now] show ?case
    by (simp add: auth_state_ok_def same_session_def sessions_ok_def)
next
  case (step_reset d token new_hash now d' fl)
  then obtain r where "reset_commit d r new_hash now = Inr d'"
    by (auto simp: reset_password_def rbind_eq_Inr)
  then have d': "d' = use_resets (rt_user r) now (end_sessions (rt_user r) (set_password (rt_user r) new_hash
      (d\<lparr>t_resets := update_where (\<lambda>x. rt_id x = rt_id r \<and> rt_used x = None \<and> now < rt_expires x)
        (\<lambda>x. x\<lparr>rt_used := Some now\<rparr>) (t_resets d)\<rparr>)))"
    by (simp add: reset_commit_def rbind_eq_Inr Let_def)
  from step_reset have "sessions_ok (d\<lparr>t_resets := xs\<rparr>)" for xs
    by (simp add: auth_state_ok_def sessions_ok_def)
  with d' show ?case
    by (intro auth_state_same_ids [OF step_reset(2)]) (simp_all add: sessions_ok_password rows_from_password)
next
  case (step_admin d uid new_hash now d' fl)
  then show ?case
    by (intro auth_state_same_ids [OF step_admin(2)])
      (auto simp: auth_state_ok_def reset_password_by_admin_def rbind_eq_Inr sessions_ok_password rows_from_password)
next
  case (step_unlink d' i now d fl)
  then show ?case
    by (intro auth_state_same_ids [OF step_unlink(2)])
      (simp_all add: auth_state_ok_def sessions_ok_unlink rows_from_update)
next
  case (step_detach d' ids d fl)
  then show ?case
    by (intro auth_state_same_ids [OF step_detach(2)])
      (simp_all add: auth_state_ok_def sessions_ok_detach rows_from_update)
next
  case (step_elsewhere d' d fl)
  then show ?case by (simp add: auth_state_ok_def same_session_def sessions_ok_def)
qed

section \<open>An installation with a session\<close>

definition sample_crypto :: crypto where
  "sample_crypto =
     \<lparr>cr_verify = (\<lambda>t. if t = ''ada/s1'' then Some \<lparr>jp_user = ''ada'', jp_email = ''ada@x'', jp_role_id = ''adm'',
        jp_role = ''admin'', jp_token_type = Some Refresh, jp_token_id = Some ''s1''\<rparr> else None),
      cr_sign = (\<lambda>p. jp_user p @ ''/'' @ (case jp_token_id p of Some i \<Rightarrow> i | None \<Rightarrow> [])),
      cr_decode_exp = (\<lambda>_. Some 10), cr_hash = (\<lambda>x. x), cr_compare = (=), cr_ttl = ''7d''\<rparr>"

definition sample_session :: session_row where
  "sample_session =
     \<lparr>ses_id = ''s1'', ses_token_hash = ''ada/s1'', ses_family = ''s1'', ses_ip = None, ses_agent = None,
      ses_user = ''ada'', ses_expires = 100, ses_rotated = None, ses_revoked = None, ses_identity = None,
      ses_verified = None, ses_recheck = None\<rparr>"

definition sample_context :: request_context where
  "sample_context = \<lparr>rc_ip = None, rc_agent = None\<rparr>"

definition sample_online :: db where
  "sample_online = sample_db
     \<lparr>t_sessions := [sample_session],
      t_resets := [\<lparr>rt_id = ''r1'', rt_token_hash = ''link'', rt_user = ''ada'', rt_expires = 100, rt_used = None\<rparr>]\<rparr>"

lemmas sample_online_defs = sample_crypto_def sample_session_def sample_context_def sample_online_def

lemma sample_online_ok: "sessions_ok sample_online" "sample_session \<in> set (t_sessions sample_online)"
  by (simp_all add: sample_online_defs sessions_ok_def single_live_def rotated_revoked_def)

text \<open>
  C15: Whatever requests are served (registration, local and external login, refresh, logout,
  password changes and resets, the unlinking of identities, the removal of providers, and whatever
  leaves the sessions alone) and however their transactions interleave, the session table stays well
  formed: unique ids and token hashes, at most one session of a family that is not revoked, no rotated
  session that is, and one user per family.
\<close>

theorem requests_keep_families:
  assumes "(auth_step lc fresh cr)\<^sup>*\<^sup>* (d, []) (d', fl)" and "sessions_ok d"
  shows "sessions_ok d'"
proof -
  have "auth_state_ok (d', fl)"
    using assms(1)
  proof (induction rule: rtranclp_induct2)
    case refl
    with assms(2) show ?case by (simp add: auth_state_ok_def)
  next
    case (step d1 fl1 d2 fl2)
    then show ?case by (blast intro: auth_step_ok)
  qed
  then show ?thesis by (simp add: auth_state_ok_def)
qed

theorem requests_keep_families_witness:
  "sessions_ok (fst (login sample_crypto sample_online ''rob@x'' ''hash'' sample_context ''s2'' 0)) \<and>
   length (t_sessions (fst (login sample_crypto sample_online ''rob@x'' ''hash'' sample_context ''s2'' 0))) = 2"
proof
  have "(auth_step code_point_compare (\<lambda>i. i) sample_crypto)\<^sup>*\<^sup>* (sample_online, [])
      (fst (login sample_crypto sample_online ''rob@x'' ''hash'' sample_context ''s2'' 0), [])"
    by (intro r_into_rtranclp step_login) simp
  from requests_keep_families [OF this sample_online_ok(1)]
  show "sessions_ok (fst (login sample_crypto sample_online ''rob@x'' ''hash'' sample_context ''s2'' 0))" .
  show "length (t_sessions (fst (login sample_crypto sample_online ''rob@x'' ''hash'' sample_context ''s2'' 0))) = 2"
    by code_simp
qed

section \<open>Reuse of a token\<close>

lemma find_rotated:
  assumes ok: "sessions_ok d" and s: "s \<in> set (t_sessions d)" and hit: "consumable s now s"
    and rows: "t_sessions d' = consumed s now d @ [n]"
  shows "List.find (\<lambda>r. ses_id r = ses_id s) (t_sessions d') = Some (s\<lparr>ses_rotated := Some now, ses_revoked := Some now\<rparr>)"
    and "List.find (\<lambda>r. ses_token_hash r = ses_token_hash s) (t_sessions d') =
      Some (s\<lparr>ses_rotated := Some now, ses_revoked := Some now\<rparr>)"
proof -
  let ?s = "s\<lparr>ses_rotated := Some now, ses_revoked := Some now\<rparr>"
  have "?s \<in> set (consumed s now d)"
    unfolding consumed_def set_update_where by (rule image_eqI [OF _ s]) (simp add: hit)
  moreover have "distinct (map ses_id (consumed s now d))" "distinct (map ses_token_hash (consumed s now d))"
    using ok by (simp_all add: sessions_ok_def consumed_def map_update_where)
  ultimately have "List.find (\<lambda>r. ses_id r = ses_id ?s) (consumed s now d) = Some ?s"
    "List.find (\<lambda>r. ses_token_hash r = ses_token_hash ?s) (consumed s now d) = Some ?s"
    by (simp_all add: find_key_iff)
  then show "List.find (\<lambda>r. ses_id r = ses_id s) (t_sessions d') = Some ?s"
    "List.find (\<lambda>r. ses_token_hash r = ses_token_hash s) (t_sessions d') = Some ?s"
    unfolding rows by (simp_all add: find_append)
qed

lemma rotated_not_consumable:
  assumes ok: "sessions_ok d" and s: "s \<in> set (t_sessions d)" and hit: "consumable s now s"
    and rows: "t_sessions d' = consumed s now d @ [n]" and fresh: "ses_id n \<noteq> ses_id s"
  shows "count_where (consumable s later) (t_sessions d') = 0"
proof -
  have "\<not> consumable s later r" if r: "r \<in> set (t_sessions d')" for r
  proof
    assume c: "consumable s later r"
    then have "r \<noteq> n" using fresh by (auto simp: consumable_def)
    with r rows have "r \<in> set (consumed s now d)" by simp
    then obtain q where q: "q \<in> set (t_sessions d)"
      "r = (if consumable s now q then q\<lparr>ses_rotated := Some now, ses_revoked := Some now\<rparr> else q)"
      unfolding consumed_def set_update_where by blast
    with c have "q = r" "\<not> consumable s now q" by (auto simp: consumable_def split: if_splits)
    moreover have "q = s"
      by (rule unique_key_eq [of ses_id "t_sessions d"]) (use ok q(1) s c \<open>q = r\<close> in \<open>simp_all add: sessions_ok_def consumable_def\<close>)
    ultimately show False using hit by simp
  qed
  then show ?thesis by (auto simp: count_where_def)
qed

lemma revoke_family_kills: "family_dead ses_family ses_revoked f (t_sessions (revoke_family f now d))"
  unfolding revoke_family_def by (simp add: session_tokens.revoke_family_dead)

text \<open>
  C16: Two requests race with the same refresh token: both have read the live session before either
  writes. When the first rotates it, the second gets no tokens: it is told the token was reused, and
  afterwards no session of the family is live, the one the first request obtained included.
\<close>

theorem race_revokes_family:
  assumes ok: "sessions_ok d" and s: "s \<in> set (t_sessions d)"
    and first: "rotate_session lc cr d s ctx new_id now = (d1, Inr (Rotated access refresh))"
    and second: "rotate_session lc cr d1 s ctx' new_id' later = (d2, out)"
  shows "out = Inr (Reused (ses_user s) (ses_family s)) \<and>
    family_dead ses_family ses_revoked (ses_family s) (t_sessions d2)"
proof -
  obtain q where q: "q \<in> set (t_sessions d)" "consumable s now q"
    using first by (rule rotate_session_Rotated) (blast elim: one_consumable)
  have "q = s"
    by (rule unique_key_eq [of ses_id "t_sessions d"]) (use ok q s in \<open>simp_all add: sessions_ok_def consumable_def\<close>)
  with q have hit: "consumable s now s" by simp
  let ?n = "replacement_session cr s ctx new_id now refresh"
  have d1: "t_sessions d1 = consumed s now d @ [?n]" and new: "new_id \<notin> ses_id ` set (consumed s now d)"
    by (rule rotate_session_Rotated [OF first], simp)+
  have "ses_id s \<in> ses_id ` set (consumed s now d)"
    using s by (simp add: consumed_def flip: set_map) (simp add: map_update_where)
  with new have fresh: "ses_id ?n \<noteq> ses_id s" by (auto simp: replacement_session_def)
  note gone = rotated_not_consumable [OF ok s hit d1 fresh, of later]
  note row = find_rotated(1) [OF ok s hit d1]
  from second gone row show ?thesis
    by (auto simp: rotate_session_def revoke_family_kills)
qed

theorem race_revokes_family_witness:
  "\<exists>d1 access refresh d2.
     rotate_session code_point_compare sample_crypto sample_online sample_session sample_context ''s2'' 5 =
       (d1, Inr (Rotated access refresh)) \<and>
     rotate_session code_point_compare sample_crypto d1 sample_session sample_context ''s3'' 6 =
       (d2, Inr (Reused ''ada'' ''s1'')) \<and> family_dead ses_family ses_revoked ''s1'' (t_sessions d2)"
proof -
  have "case rotate_session code_point_compare sample_crypto sample_online sample_session sample_context ''s2'' 5 of
      (d1, Inr (Rotated a r)) \<Rightarrow> True | _ \<Rightarrow> False"
    by code_simp
  then obtain d1 a r where first:
    "rotate_session code_point_compare sample_crypto sample_online sample_session sample_context ''s2'' 5 =
       (d1, Inr (Rotated a r))"
    by (auto split: prod.splits sum.splits rotation.splits)
  obtain d2 out where second:
    "rotate_session code_point_compare sample_crypto d1 sample_session sample_context ''s3'' 6 = (d2, out)"
    by fastforce
  note race = race_revokes_family [OF sample_online_ok first second]
  with race_revokes_family [OF sample_online_ok first second] first second show ?thesis
    by (auto simp: sample_session_def)
qed

section \<open>Refreshing\<close>

lemma refresh_transaction_Rotated:
  assumes "refresh_transaction lc cr d p h ctx new_id now = (d', Inr (Rotated access refresh))"
  obtains s where "find_session_by_hash d h = Some s" and "session_bound d p s now"
    and "ses_rotated s = None" and "ses_revoked s = None" and "user_active d (ses_user s)"
    and "rotate_session lc cr d s ctx new_id now = (d', Inr (Rotated access refresh))"
  using assms
  by (auto simp: refresh_transaction_def refresh_read_def split: option.splits if_splits)

definition after_sync ::
    "(string \<Rightarrow> string \<Rightarrow> int) \<Rightarrow> (ident \<Rightarrow> ident) \<Rightarrow> db \<Rightarrow> session_row \<Rightarrow> db" where
  "after_sync lc fresh d s =
     (case ses_identity s of None \<Rightarrow> d | Some x \<Rightarrow> fst (synchronize_stored lc fresh d x))"

lemma refresh_token_Inr:
  assumes "refresh_token lc fresh cr d token ctx new_id now = (d', Inr (access, refresh))"
  obtains p d1 where "cr_verify cr token = Some p" and "jp_token_type p \<noteq> Some Access"
    and "case sync_candidate d p (cr_hash cr token) now of None \<Rightarrow> d1 = d
       | Some x \<Rightarrow> \<exists>v. synchronize_stored lc fresh d x = (d1, Inr v)"
    and "refresh_transaction lc cr d1 p (cr_hash cr token) ctx new_id now = (d', Inr (Rotated access refresh))"
  using assms
  by (auto simp: refresh_token_def Let_def split: option.splits if_splits prod.splits sum.splits rotation.splits)

lemma refresh_success:
  assumes ok: "sessions_ok d"
    and run: "refresh_token lc fresh cr d token ctx new_id now = (d', Inr (access, refresh))"
  obtains p s u role where "cr_verify cr token = Some p" and "jp_token_type p \<noteq> Some Access"
    and "s \<in> set (t_sessions d)" and "ses_token_hash s = cr_hash cr token" and "ses_user s = jp_user p"
    and "ses_rotated s = None" and "ses_revoked s = None" and "now < ses_expires s"
    and "\<forall>x. ses_identity s = Some x \<longrightarrow> external_current d s now \<and>
      (\<exists>d1 v. synchronize_stored lc fresh d x = (d1, Inr v))"
    and "user_active (after_sync lc fresh d s) (ses_user s)"
    and "resolve_user lc (after_sync lc fresh d s) (ses_user s) = Some (u, role)"
    and "access = sign_access_token cr (payload_of (to_authenticated_user u role))"
    and "refresh = sign_refresh_token cr (payload_of (to_authenticated_user u role)) new_id"
    and "d' = (after_sync lc fresh d s)\<lparr>t_sessions :=
      consumed s now d @ [replacement_session cr s ctx new_id now refresh]\<rparr>"
    and "new_id \<notin> ses_id ` set (consumed s now d)"
    and "jp_token_id p = None \<or> jp_token_id p = Some (ses_id s)"
proof -
  obtain p d1 where p: "cr_verify cr token = Some p" "jp_token_type p \<noteq> Some Access"
    and sync: "case sync_candidate d p (cr_hash cr token) now of None \<Rightarrow> d1 = d
       | Some x \<Rightarrow> \<exists>v. synchronize_stored lc fresh d x = (d1, Inr v)"
    and tx: "refresh_transaction lc cr d1 p (cr_hash cr token) ctx new_id now = (d', Inr (Rotated access refresh))"
    using refresh_token_Inr [OF run] by blast
  have rows: "t_sessions d1 = t_sessions d"
    using sync synchronize_stored_sessions by (auto split: option.splits)
  then have ok1: "sessions_ok d1" using ok by (simp add: sessions_ok_def)
  obtain s where s: "find_session_by_hash d1 (cr_hash cr token) = Some s" "session_bound d1 p s now"
    "ses_rotated s = None" "ses_revoked s = None" "user_active d1 (ses_user s)"
    "rotate_session lc cr d1 s ctx new_id now = (d', Inr (Rotated access refresh))"
    using refresh_transaction_Rotated [OF tx] by metis
  obtain u role where r: "count_where (consumable s now) (t_sessions d1) = 1"
    "resolve_user lc d1 (ses_user s) = Some (u, role)"
    "access = sign_access_token cr (payload_of (to_authenticated_user u role))"
    "refresh = sign_refresh_token cr (payload_of (to_authenticated_user u role)) new_id"
    "d' = d1\<lparr>t_sessions := consumed s now d1 @ [replacement_session cr s ctx new_id now refresh]\<rparr>"
    "new_id \<notin> ses_id ` set (consumed s now d1)"
    using rotate_session_Rotated [OF s(6)] by metis
  have mem: "s \<in> set (t_sessions d)" "ses_token_hash s = cr_hash cr token"
    using s(1) rows by (simp_all add: find_session_iff [OF ok1])
  then have find: "find_session_by_hash d (cr_hash cr token) = Some s" by (simp add: find_session_iff [OF ok])
  obtain q where q: "q \<in> set (t_sessions d1)" "consumable s now q" using one_consumable [OF r(1)] .
  have "q = s"
    by (rule unique_key_eq [of ses_id "t_sessions d"]) (use ok q mem rows in \<open>simp_all add: sessions_ok_def consumable_def\<close>)
  with q(2) have live: "now < ses_expires s" by (simp add: consumable_def)
  have external: "external_current d s now \<and> (\<exists>v. synchronize_stored lc fresh d x = (d1, Inr v))"
    if x: "ses_identity s = Some x" for x
  proof (cases "sync_candidate d p (cr_hash cr token) now")
    case None
    with sync have "d1 = d" by simp
    with s x live find have "sync_candidate d p (cr_hash cr token) now = Some x"
      by (simp add: sync_candidate_def session_bound_def)
    with None show ?thesis by simp
  next
    case (Some y)
    with find x have "y = x" "external_current d s now"
      by (auto simp: sync_candidate_def split: if_splits)
    with sync Some show ?thesis by simp
  qed
  have d1: "d1 = after_sync lc fresh d s"
  proof (cases "ses_identity s")
    case None
    with find have "sync_candidate d p (cr_hash cr token) now = None" by (simp add: sync_candidate_def)
    with sync None show ?thesis by (simp add: after_sync_def)
  next
    case (Some x)
    with external show ?thesis by (auto simp: after_sync_def)
  qed
  have ext: "\<forall>x. ses_identity s = Some x \<longrightarrow> external_current d s now \<and>
      (\<exists>d1 v. synchronize_stored lc fresh d x = (d1, Inr v))"
    using external by blast
  have same: "consumed s now d1 = consumed s now d" using rows by (simp add: consumed_def)
  have user: "ses_user s = jp_user p" and own: "jp_token_id p = None \<or> jp_token_id p = Some (ses_id s)"
    using s(2) by (simp_all add: session_bound_def)
  show ?thesis
    by (rule that [of p s u role, OF p mem user s(3,4) live ext s(5) [unfolded d1] r(2) [unfolded d1] r(3,4)
        r(5) [unfolded same, unfolded d1] r(6) [unfolded same] own])
qed

lemma sample_refreshes:
  "\<exists>d' access refresh. refresh_token code_point_compare (\<lambda>i. i) sample_crypto sample_online ''ada/s1''
     sample_context ''s2'' 5 = (d', Inr (access, refresh))"
proof -
  have "case refresh_token code_point_compare (\<lambda>i. i) sample_crypto sample_online ''ada/s1'' sample_context ''s2'' 5 of
      (d1, Inr x) \<Rightarrow> True | _ \<Rightarrow> False"
    by code_simp
  then show ?thesis by (auto split: prod.splits sum.splits)
qed

text \<open>
  C17: A refresh that returns tokens: the token names a session of the presented user that is neither
  rotated, revoked nor expired; a session of an external identity has an active provider, an
  assertion that is not due for renewal, and its stored claims have just been applied without error;
  the user is active; the tokens are signed for the user's effective role now. The old session is
  consumed, and its successor inherits family, user, identity and the time of the next assertion.
\<close>

theorem refresh_rotates:
  assumes ok: "sessions_ok d"
    and run: "refresh_token lc fresh cr d token ctx new_id now = (d', Inr (access, refresh))"
  shows "\<exists>p s u role. cr_verify cr token = Some p \<and> jp_token_type p \<noteq> Some Access \<and>
    s \<in> set (t_sessions d) \<and> ses_token_hash s = cr_hash cr token \<and> ses_user s = jp_user p \<and>
    ses_rotated s = None \<and> ses_revoked s = None \<and> now < ses_expires s \<and>
    (\<forall>x. ses_identity s = Some x \<longrightarrow> external_current d s now \<and>
      (\<exists>d1 v. synchronize_stored lc fresh d x = (d1, Inr v))) \<and>
    user_active (after_sync lc fresh d s) (ses_user s) \<and>
    resolve_user lc (after_sync lc fresh d s) (ses_user s) = Some (u, role) \<and>
    access = sign_access_token cr (payload_of (to_authenticated_user u role)) \<and>
    refresh = sign_refresh_token cr (payload_of (to_authenticated_user u role)) new_id \<and>
    d' = (after_sync lc fresh d s)\<lparr>t_sessions :=
      consumed s now d @ [replacement_session cr s ctx new_id now refresh]\<rparr>"
  by (rule refresh_success [OF ok run]) blast

theorem refresh_rotates_witness:
  "\<exists>d' access refresh. refresh_token code_point_compare (\<lambda>i. i) sample_crypto sample_online ''ada/s1''
     sample_context ''s2'' 5 = (d', Inr (access, refresh)) \<and>
   (\<exists>u role. resolve_user code_point_compare sample_online ''ada'' = Some (u, role) \<and>
     access = sign_access_token sample_crypto (payload_of (to_authenticated_user u role)))"
proof -
  obtain d' access refresh where run: "refresh_token code_point_compare (\<lambda>i. i) sample_crypto sample_online
      ''ada/s1'' sample_context ''s2'' 5 = (d', Inr (access, refresh))"
    using sample_refreshes by blast
  have only: "s = sample_session" if "s \<in> set (t_sessions sample_online)" for s
    using that by (simp add: sample_online_def)
  have "after_sync code_point_compare (\<lambda>i. i) sample_online sample_session = sample_online"
    "ses_user sample_session = ''ada''"
    by (simp_all add: after_sync_def sample_session_def)
  with refresh_rotates [OF sample_online_ok(1) run] run only show ?thesis by metis
qed

text \<open>
  A refresh token works once. After a refresh that returned tokens, presenting the same token
  again, whatever the clock says and while its signature still verifies, yields no tokens; and if the session it names has not
  expired and its external identity, if any, is current, no session of its family stays live.
\<close>

theorem refresh_token_single_use:
  assumes ok: "sessions_ok d"
    and first: "refresh_token lc fresh cr d token ctx new_id now = (d', Inr (access, refresh))"
    and again: "refresh_token lc fresh' cr d' token ctx' new_id' later = (d2, out)"
  shows "\<exists>s \<in> set (t_sessions d). ses_token_hash s = cr_hash cr token \<and> out = Inl (Unauthorized ''session'') \<and>
    (later \<le> ses_expires s \<and> (ses_identity s = None \<or> external_current d' s later) \<longrightarrow>
     family_dead ses_family ses_revoked (ses_family s) (t_sessions d2))"
proof -
  obtain p s where p: "cr_verify cr token = Some p" "jp_token_type p \<noteq> Some Access"
    and s: "s \<in> set (t_sessions d)" "ses_token_hash s = cr_hash cr token" "ses_user s = jp_user p"
    and live: "consumable s now s" and own: "jp_token_id p = None \<or> jp_token_id p = Some (ses_id s)"
    and rows: "t_sessions d' = consumed s now d @ [replacement_session cr s ctx new_id now refresh]"
    by (rule refresh_success [OF ok first]) (simp add: consumable_def)
  let ?s = "s\<lparr>ses_rotated := Some now, ses_revoked := Some now\<rparr>"
  have find: "find_session_by_hash d' (cr_hash cr token) = Some ?s"
    using find_rotated(2) [OF ok s(1) live rows] s(2) by (simp add: find_session_by_hash_def)
  then have "sync_candidate d' p (cr_hash cr token) later = None" by (simp add: sync_candidate_def)
  moreover have bound: "session_bound d' p ?s later = session_bound d' p s later"
    by (simp add: session_bound_def external_current_def session_provider_def)
  ultimately have run: "refresh_token lc fresh' cr d' token ctx' new_id' later =
    (if session_bound d' p s later then (revoke_family (ses_family s) later d', Inl (Unauthorized ''session''))
     else (d', Inl (Unauthorized ''session'')))"
    using p find bound
    by (simp add: refresh_token_def refresh_transaction_def refresh_read_def)
  show ?thesis
  proof (intro bexI [OF _ s(1)] conjI impI)
    show "ses_token_hash s = cr_hash cr token" by (rule s(2))
    show "out = Inl (Unauthorized ''session'')" using again run by (simp split: if_splits)
    assume "later \<le> ses_expires s \<and> (ses_identity s = None \<or> external_current d' s later)"
    moreover have "jp_token_id p = None \<or> jp_token_id p = Some (ses_id s)" by (rule own)
    ultimately have "session_bound d' p s later" using s(3) by (simp add: session_bound_def)
    with again run show "family_dead ses_family ses_revoked (ses_family s) (t_sessions d2)"
      by (auto simp: revoke_family_kills)
  qed
qed

theorem refresh_token_single_use_witness:
  "\<exists>d' access refresh d2 out. refresh_token code_point_compare (\<lambda>i. i) sample_crypto sample_online ''ada/s1''
     sample_context ''s2'' 5 = (d', Inr (access, refresh)) \<and>
   refresh_token code_point_compare (\<lambda>i. i) sample_crypto d' ''ada/s1'' sample_context ''s3'' 6 = (d2, out) \<and>
   out = Inl (Unauthorized ''session'') \<and> family_dead ses_family ses_revoked ''s1'' (t_sessions d2)"
proof -
  obtain d' access refresh where first: "refresh_token code_point_compare (\<lambda>i. i) sample_crypto sample_online
      ''ada/s1'' sample_context ''s2'' 5 = (d', Inr (access, refresh))"
    using sample_refreshes by blast
  obtain d2 out where again:
    "refresh_token code_point_compare (\<lambda>i. i) sample_crypto d' ''ada/s1'' sample_context ''s3'' 6 = (d2, out)"
    by fastforce
  have only: "s = sample_session" if "s \<in> set (t_sessions sample_online)" for s
    using that by (simp add: sample_online_def)
  obtain s where "s \<in> set (t_sessions sample_online)" "out = Inl (Unauthorized ''session'')"
    "6 \<le> ses_expires s \<and> (ses_identity s = None \<or> external_current d' s 6) \<longrightarrow>
     family_dead ses_family ses_revoked (ses_family s) (t_sessions d2)"
    using refresh_token_single_use [OF sample_online_ok(1) first again] by blast
  with only [of s] have "out = Inl (Unauthorized ''session'')" "family_dead ses_family ses_revoked ''s1'' (t_sessions d2)"
    by (simp_all add: sample_session_def)
  with first again show ?thesis by blast
qed

section \<open>Errors of the login and reset links\<close>

lemma insert_session_either:
  "insert_session s d = Inl (Internal ''P2002'') \<or> (\<exists>d'. insert_session s d = Inr d')"
  by (simp add: insert_session_def insert_row_def rguard_def)

lemma either_rbind:
  "(x = Inl e \<or> (\<exists>a. x = Inr a)) \<Longrightarrow> (\<And>a. \<exists>b c d. f a = Inr (b, c, d)) \<Longrightarrow>
   rbind x f = Inl e \<or> (\<exists>b c d. rbind x f = Inr (b, c, d))"
  by auto

lemma answer_session_either:
  "answer_session cr d u ctx ext sid now = (d, Inl (Internal ''P2002'')) \<or>
   (\<exists>d' x y. answer_session cr d u ctx ext sid now = (d', Inr \<lparr>ar_user = u, ar_access = x, ar_refresh = y\<rparr>))"
proof -
  have "issue_tokens cr d u ctx ext sid now = Inl (Internal ''P2002'') \<or>
      (\<exists>d' x y. issue_tokens cr d u ctx ext sid now = Inr (d', x, y))"
    unfolding issue_tokens_def Let_def
    by (rule either_rbind [OF insert_session_either]) simp
  then show ?thesis by (auto simp: answer_session_def)
qed

text \<open>
  C19: What a login answers. An unknown address and a wrong password get the same error, which no
  other failure gives; a failed login changes nothing; a login that succeeds was given the password
  of an active account, and local login is enabled or the account is protected.
\<close>

theorem login_answers_cases:
  assumes mails: "distinct (map u_email (t_users d))"
  shows "(snd (login cr d email password ctx sid now) = Inl (Unauthorized ''credentials'') \<longleftrightarrow>
      (\<nexists>u. u \<in> set (t_users d) \<and> u_email u = email \<and> cr_compare cr password (u_password u))) \<and>
    (\<forall>e. snd (login cr d email password ctx sid now) = Inl e \<longrightarrow>
      fst (login cr d email password ctx sid now) = d) \<and>
    (\<forall>a. snd (login cr d email password ctx sid now) = Inr a \<longrightarrow>
      (\<exists>u \<in> set (t_users d). u_email u = email \<and> cr_compare cr password (u_password u) \<and> u_active u \<and>
        (setting_or d ''local_login_enabled'' ''true'' = ''true'' \<or> u_protected u) \<and> au_id (ar_user a) = u_id u))"
proof (cases "List.find (\<lambda>u. u_email u = email) (t_users d)")
  case None
  then have "\<forall>u \<in> set (t_users d). u_email u \<noteq> email" by (simp add: find_None_iff)
  with None show ?thesis by (auto simp: login_def)
next
  case (Some u)
  then have u: "u \<in> set (t_users d)" "u_email u = email" using find_key_iff [OF mails] by simp_all
  have only: "v = u" if "v \<in> set (t_users d)" "u_email v = email" for v
    by (rule unique_key_eq [OF mails]) (use that u in simp_all)
  show ?thesis
  proof (cases "cr_compare cr password (u_password u)")
    case False
    with Some only show ?thesis by (auto simp: login_def)
  next
    case True
    have bad: "(\<nexists>v. v \<in> set (t_users d) \<and> u_email v = email \<and> cr_compare cr password (u_password v)) \<longleftrightarrow> False"
      using u True by blast
    consider (fail) e where "login cr d email password ctx sid now = (d, Inl e)" "e \<noteq> Unauthorized ''credentials''"
      | (tokens) d' a where "login cr d email password ctx sid now = (d', Inr a)" "u_active u"
        "setting_or d ''local_login_enabled'' ''true'' = ''true'' \<or> u_protected u" "au_id (ar_user a) = u_id u"
    proof -
      have "(\<exists>e. login cr d email password ctx sid now = (d, Inl e) \<and> e \<noteq> Unauthorized ''credentials'') \<or>
        (\<exists>d' a. login cr d email password ctx sid now = (d', Inr a) \<and> u_active u \<and>
          (setting_or d ''local_login_enabled'' ''true'' = ''true'' \<or> u_protected u) \<and> au_id (ar_user a) = u_id u)"
      proof (cases "find_role d (u_role u)")
        case None
        with Some True show ?thesis by (simp add: login_def)
      next
        case (Some r)
        have "au_id (to_authenticated_user u r) = u_id u" by (simp add: to_authenticated_user_def)
        with Some True \<open>List.find _ _ = _\<close> answer_session_either [of cr d "to_authenticated_user u r" ctx None sid now]
        show ?thesis by (auto simp: login_def)
      qed
      then show thesis using fail tokens by blast
    qed
    then show ?thesis
    proof cases
      case (fail e)
      then show ?thesis unfolding bad by simp
    next
      case (tokens d' a)
      then have "\<exists>u \<in> set (t_users d). u_email u = email \<and> cr_compare cr password (u_password u) \<and> u_active u \<and>
        (setting_or d ''local_login_enabled'' ''true'' = ''true'' \<or> u_protected u) \<and> au_id (ar_user a) = u_id u"
        using u True by blast
      with tokens(1) show ?thesis unfolding bad by simp
    qed
  qed
qed

theorem login_answers_cases_witness:
  "snd (login sample_crypto sample_online ''eve@x'' ''hash'' sample_context ''s2'' 0) = Inl (Unauthorized ''credentials'') \<and>
   snd (login sample_crypto sample_online ''rob@x'' ''wrong'' sample_context ''s2'' 0) = Inl (Unauthorized ''credentials'')"
proof -
  have "distinct (map u_email (t_users sample_online))" by (simp add: sample_online_def sample_defs)
  from login_answers_cases [OF this, of sample_crypto _ _ sample_context "''s2''" 0]
  show ?thesis by (auto simp: sample_online_defs sample_defs)
qed

text \<open>
  C20: A password reset ends everything the old password allowed: afterwards the user's stored
  password is the new one, the user has no session, and no reset link of the user works any more,
  the one just used included; other users keep password, sessions and links.
\<close>

theorem reset_password_single_use:
  assumes run: "reset_password cr d token new_hash now = Inr d'"
  shows "\<exists>r \<in> set (t_resets d). rt_token_hash r = cr_hash cr token \<and> rt_used r = None \<and> now < rt_expires r \<and>
    user_active d (rt_user r) \<and>
    (\<forall>u \<in> set (t_users d'). u_id u = rt_user r \<longrightarrow> u_password u = new_hash) \<and>
    (\<forall>s \<in> set (t_sessions d'). ses_user s \<noteq> rt_user r) \<and>
    (\<forall>q \<in> set (t_resets d'). rt_user q = rt_user r \<longrightarrow> rt_used q \<noteq> None) \<and>
    (\<forall>later h. reset_password cr d' token h later = Inl (BadRequest ''reset link'')) \<and>
    filter (\<lambda>u. u_id u \<noteq> rt_user r) (t_users d') = filter (\<lambda>u. u_id u \<noteq> rt_user r) (t_users d) \<and>
    filter (\<lambda>s. ses_user s \<noteq> rt_user r) (t_sessions d') = filter (\<lambda>s. ses_user s \<noteq> rt_user r) (t_sessions d) \<and>
    filter (\<lambda>q. rt_user q \<noteq> rt_user r) (t_resets d') = filter (\<lambda>q. rt_user q \<noteq> rt_user r) (t_resets d)"
proof -
  obtain r where r: "List.find (\<lambda>r. rt_token_hash r = cr_hash cr token) (t_resets d) = Some r"
    "rt_used r = None" "now < rt_expires r" "user_active d (rt_user r)" "reset_commit d r new_hash now = Inr d'"
    using run by (auto simp: reset_password_def reset_read_def rbind_eq_Inr or_throw_eq_Inr)
  have mem: "r \<in> set (t_resets d)" "rt_token_hash r = cr_hash cr token"
    using find_SomeD [OF r(1)] by simp_all
  let ?usable = "\<lambda>x. rt_id x = rt_id r \<and> rt_used x = None \<and> now < rt_expires x"
  let ?use = "\<lambda>x. x\<lparr>rt_used := Some now\<rparr>"
  let ?used = "update_where ?usable ?use (t_resets d)"
  have one: "count_where ?usable (t_resets d) = 1"
    and users: "t_users d' = update_where (\<lambda>u. u_id u = rt_user r)
      (\<lambda>u. u\<lparr>u_password := new_hash, u_local_password := True\<rparr>) (t_users d)"
    and sessions: "t_sessions d' = delete_where (\<lambda>s. ses_user s = rt_user r) (t_sessions d)"
    and resets: "t_resets d' = update_where (\<lambda>q. rt_user q = rt_user r \<and> rt_used q = None) ?use ?used"
    using r(5) by (auto simp: reset_commit_def rbind_eq_Inr Let_def use_resets_def end_sessions_def set_password_def)
  have dead: "\<forall>q \<in> set (t_resets d'). rt_user q = rt_user r \<longrightarrow> rt_used q \<noteq> None"
    unfolding resets set_update_where [of "\<lambda>q. rt_user q = rt_user r \<and> rt_used q = None"] by auto
  have only: "filter (\<lambda>q. rt_user q \<noteq> rt_user r) (t_resets d') = filter (\<lambda>q. rt_user q \<noteq> rt_user r) (t_resets d)"
  proof -
    have "filter (\<lambda>q. rt_user q \<noteq> rt_user r) ?used = filter (\<lambda>q. rt_user q \<noteq> rt_user r) (t_resets d)"
      using count_where_one [OF one mem(1)] r(2,3) by (intro filter_update_where) fastforce
    then show ?thesis unfolding resets by (subst filter_update_where) auto
  qed
  have "\<exists>q. List.find (\<lambda>x. rt_token_hash x = cr_hash cr token) (t_resets d') = Some q \<and> rt_used q \<noteq> None"
    unfolding resets by (simp add: find_update_where r(1) r(2,3))
  then have again: "\<forall>later h. reset_password cr d' token h later = Inl (BadRequest ''reset link'')"
    by (auto simp: reset_password_def reset_read_def)
  have "\<forall>u \<in> set (t_users d'). u_id u = rt_user r \<longrightarrow> u_password u = new_hash"
    unfolding users set_update_where by auto
  moreover have "\<forall>s \<in> set (t_sessions d'). ses_user s \<noteq> rt_user r"
    unfolding sessions by (simp add: row_simps)
  moreover have "filter (\<lambda>u. u_id u \<noteq> rt_user r) (t_users d') = filter (\<lambda>u. u_id u \<noteq> rt_user r) (t_users d)"
    unfolding users by (rule filter_update_where) simp
  moreover have "filter (\<lambda>s. ses_user s \<noteq> rt_user r) (t_sessions d') =
      filter (\<lambda>s. ses_user s \<noteq> rt_user r) (t_sessions d)"
    unfolding sessions by (simp add: delete_where_def cong: filter_cong)
  ultimately show ?thesis
    using mem r(2-4) dead again only by blast
qed

theorem reset_password_single_use_witness:
  "\<exists>d'. reset_password sample_crypto sample_online ''link'' ''new'' 7 = Inr d' \<and> t_sessions d' = [] \<and>
     reset_password sample_crypto d' ''link'' ''other'' 8 = Inl (BadRequest ''reset link'')"
proof -
  obtain d' where run: "reset_password sample_crypto sample_online ''link'' ''new'' 7 = Inr d'"
    and none: "t_sessions d' = []"
    by (simp add: sample_online_defs reset_password_def reset_read_def reset_commit_def user_active_def find_defs
        sample_defs count_where_def update_where_def Let_def use_resets_def end_sessions_def set_password_def
        delete_where_def)
  with reset_password_single_use [OF run] show ?thesis by blast
qed

text \<open>
  A reset link lives between five minutes and a day, whatever is configured; the default is half
  an hour. Creating one leaves exactly that link of the user usable, and when the mail cannot be
  sent, none.
\<close>

theorem reset_link_bounds:
  assumes run: "create_and_send_reset cr d uid token new_id configured sent now = (d', out)"
  shows "(out = Inr () \<longrightarrow> (\<exists>q. filter (\<lambda>q. rt_user q = uid \<and> rt_used q = None) (t_resets d') = [q] \<and>
      rt_token_hash q = cr_hash cr token \<and>
      now + 5 * 60000 \<le> rt_expires q \<and> rt_expires q \<le> now + 1440 * 60000 \<and>
      (configured = None \<longrightarrow> rt_expires q = now + 30 * 60000))) \<and>
    (out = Inl (Internal ''smtp'') \<longrightarrow> filter (\<lambda>q. rt_user q = uid \<and> rt_used q = None) (t_resets d') = []) \<and>
    (out \<noteq> Inr () \<and> out \<noteq> Inl (Internal ''smtp'') \<longrightarrow> d' = d)"
proof (cases "new_id \<in> rt_id ` set (t_resets d) \<or> cr_hash cr token \<in> rt_token_hash ` set (t_resets d)")
  case True
  then have "create_and_send_reset cr d uid token new_id configured sent now = (d, Inl (Internal ''P2002''))"
    by (simp add: create_and_send_reset_def Let_def)
  with run have "d' = d" "out = Inl (Internal ''P2002'')" by simp_all
  then show ?thesis by simp
next
  case False
  let ?row = "\<lparr>rt_id = new_id, rt_token_hash = cr_hash cr token, rt_user = uid,
    rt_expires = now + reset_ttl_minutes configured * 60000, rt_used = None\<rparr>"
  let ?use = "\<lambda>r. r\<lparr>rt_used := Some now\<rparr>"
  let ?old = "update_where (\<lambda>r. rt_user r = uid \<and> rt_used r = None) ?use (t_resets d)"
  have none: "filter (\<lambda>q. rt_user q = uid \<and> rt_used q = None) ?old = []"
    unfolding filter_empty_conv set_update_where ball_simps by simp
  have ttl: "5 \<le> reset_ttl_minutes configured" "reset_ttl_minutes configured \<le> 1440"
    "configured = None \<longrightarrow> reset_ttl_minutes configured = 30"
    by (auto simp: reset_ttl_minutes_def split: option.split)
  show ?thesis
  proof (cases sent)
    case True
    with run False have "out = Inr ()" "t_resets d' = ?old @ [?row]"
      by (auto simp: create_and_send_reset_def Let_def use_resets_def)
    with none ttl show ?thesis by simp
  next
    case False
    note unsent = this
    have "new_id \<notin> rt_id ` set ?old"
      using \<open>\<not> (new_id \<in> _ \<or> _)\<close> by (simp add: key_image_update_where)
    then have "update_where (\<lambda>r. rt_id r = new_id \<and> rt_used r = None) ?use ?old = ?old"
      unfolding update_where_def [of _ _ ?old] by (intro map_idI) force
    moreover have "out = Inl (Internal ''smtp'')"
      "t_resets d' = update_where (\<lambda>r. rt_id r = new_id \<and> rt_used r = None) ?use (?old @ [?row])"
      using run unsent \<open>\<not> (new_id \<in> _ \<or> _)\<close>
      by (auto simp: create_and_send_reset_def Let_def use_resets_def)
    ultimately show ?thesis using none by (simp add: update_where_append update_where_def [of _ _ "[_]"])
  qed
qed

theorem reset_link_bounds_witness:
  "\<exists>d' q. create_and_send_reset sample_crypto sample_online ''ada'' ''fresh'' ''r2'' (Some 3) True 7 = (d', Inr ()) \<and>
     filter (\<lambda>q. rt_user q = ''ada'' \<and> rt_used q = None) (t_resets d') = [q] \<and>
     rt_expires q \<le> 7 + 1440 * 60000"
proof -
  obtain d' where run:
    "create_and_send_reset sample_crypto sample_online ''ada'' ''fresh'' ''r2'' (Some 3) True 7 = (d', Inr ())"
    by (simp add: create_and_send_reset_def sample_online_defs sample_defs Let_def use_resets_def update_where_def)
  with reset_link_bounds [OF run] show ?thesis by auto
qed

end
