(* ===== verification/Identity_Admin.thy ===== *)
theory Identity_Admin
  imports Identity_Sync Slugs
begin

text \<open>
  \<^verbatim>\<open>apps/api/src/modules/auth/oidc/identity-provider-admin.service.ts\<close> and
  \<^verbatim>\<open>oidc-jit-policy.ts\<close>: the administration of identity providers and of their mappings, with what
  the foreign keys of the schema delete along. \<open>slugify\<close>, the normalisation of a URL by the \<open>URL\<close>
  class and the encryption of the client secret are parameters. The history read from the audit log
  and the synchronisation status are not modelled.
\<close>

section \<open>The role of accounts created on first login\<close>

definition JIT_FORBIDDEN_ROLE_RESOURCES :: "string list" where
  "JIT_FORBIDDEN_ROLE_RESOURCES =
     [''users'', ''roles'', ''acls'', ''user_permissions'', ''groups'', ''settings'', ''audit_logs'',
      ''api_keys'', ''smtp'', ''system_info'', ''backups'', ''resource_acls'']"

definition is_safe_jit_default_role :: "db \<Rightarrow> role_row option \<Rightarrow> bool" where
  "is_safe_jit_default_role d role =
     (case role of
        None \<Rightarrow> False
      | Some r \<Rightarrow> to_lower (r_name r) \<noteq> ''admin'' \<and>
          (\<forall>a \<in> set (t_acls d). a_role a = r_id r \<and> a_allowed a \<longrightarrow>
             a_resource a \<notin> set JIT_FORBIDDEN_ROLE_RESOURCES))"

definition assert_jit_configuration :: "db \<Rightarrow> bool \<Rightarrow> ident option \<Rightarrow> unit result" where
  "assert_jit_configuration d allow default_role =
     (if \<not> allow then Inr ()
      else case default_role of
        None \<Rightarrow> Inl (BadRequest ''default role'')
      | Some r \<Rightarrow> rguard (is_safe_jit_default_role d (find_role d r)) (BadRequest ''default role unsafe''))"

section \<open>Inputs\<close>

record provider_input =
  pi_name :: string
  pi_type :: provider_type
  pi_issuer :: string
  pi_discovery_url :: "string option"
  pi_client_id :: string
  pi_auth_method :: client_auth
  pi_secret :: "string option"
  pi_scopes :: "string list"
  pi_claim_mapping :: json
  pi_active :: bool
  pi_display_order :: int
  pi_allow_jit :: bool
  pi_default_role :: "ident option"
  pi_sync_mode :: sync_mode
  pi_group_claim :: "string option"
  pi_role_claim :: "string option"
  pi_allow_admin_mapping :: bool
  pi_max_session_age :: int
  pi_entra_fallback :: bool
  pi_entra_mode :: entra_mode
  pi_entra_cache_ttl :: int

text \<open>\<open>None\<close> is a field that is not sent; a nullable field that is sent may be \<open>Some None\<close>.\<close>

record provider_change =
  pu_name :: "string option"
  pu_type :: "provider_type option"
  pu_issuer :: "string option"
  pu_discovery_url :: "string option option"
  pu_client_id :: "string option"
  pu_auth_method :: "client_auth option"
  pu_secret :: "string option"
  pu_clear_secret :: bool
  pu_scopes :: "string list option"
  pu_claim_mapping :: "json option"
  pu_active :: "bool option"
  pu_display_order :: "int option"
  pu_allow_jit :: "bool option"
  pu_default_role :: "ident option option"
  pu_sync_mode :: "sync_mode option"
  pu_group_claim :: "string option option"
  pu_role_claim :: "string option option"
  pu_allow_admin_mapping :: "bool option"
  pu_max_session_age :: "int option"
  pu_entra_fallback :: "bool option"
  pu_entra_mode :: "entra_mode option"
  pu_entra_cache_ttl :: "int option"
  pu_confirm_last :: bool

section \<open>What the administrator sees\<close>

record provider_view =
  pv_row :: provider_row
  pv_secret_configured :: bool
  pv_identities :: nat
  pv_group_mappings :: nat
  pv_role_mappings :: nat

text \<open>The answer carries every column except the stored secret.\<close>

definition to_admin_provider :: "db \<Rightarrow> provider_row \<Rightarrow> provider_view" where
  "to_admin_provider d p =
     \<lparr>pv_row = p\<lparr>ip_secret := None\<rparr>, pv_secret_configured = (ip_secret p \<noteq> None),
      pv_identities = count_where (\<lambda>x. xi_provider x = ip_id p) (t_identities d),
      pv_group_mappings = count_where (\<lambda>m. gm_provider m = ip_id p) (t_group_mappings d),
      pv_role_mappings = count_where (\<lambda>m. rm_provider m = ip_id p) (t_role_mappings d)\<rparr>"

definition find_all_providers :: "(string \<Rightarrow> string \<Rightarrow> int) \<Rightarrow> db \<Rightarrow> provider_view list" where
  "find_all_providers collate d =
     map (to_admin_provider d)
       (sort_by (\<lambda>p q. if ip_display_order p \<noteq> ip_display_order q then ip_display_order p - ip_display_order q
          else collate (ip_name p) (ip_name q)) (t_providers d))"

definition get_provider :: "db \<Rightarrow> ident \<Rightarrow> provider_row result" where
  "get_provider d i = or_throw (NotFound ''provider'') (find_provider d i)"

definition active_provider_count :: "db \<Rightarrow> nat" where
  "active_provider_count d = count_where ip_active (t_providers d)"

section \<open>Providers\<close>

definition unique_provider_slug :: "(string \<Rightarrow> string) \<Rightarrow> db \<Rightarrow> string \<Rightarrow> string result" where
  "unique_provider_slug slugify d name =
     (let base = (if slugify name = [] then ''sso'' else slugify name)
      in or_throw (Conflict ''provider slug'')
           (List.find (\<lambda>s. List.find (\<lambda>p. ip_slug p = s) (t_providers d) = None)
              (map (slug_candidate base) [0..<100])))"

definition assert_client_configuration :: "client_auth \<Rightarrow> string option \<Rightarrow> unit result" where
  "assert_client_configuration auth_kind secret =
     rbind (rguard (auth_kind = NO_SECRET \<or> truthy secret) (BadRequest ''client secret required'')) (\<lambda>_.
     rguard (\<not> (auth_kind = NO_SECRET \<and> truthy secret)) (BadRequest ''public client''))"

text \<open>The unique columns and the foreign key of the table, for a row next to the others.\<close>

definition provider_fits :: "db \<Rightarrow> provider_row list \<Rightarrow> provider_row \<Rightarrow> unit result" where
  "provider_fits d others p =
     rbind (rguard (ip_name p \<notin> ip_name ` set others \<and> ip_slug p \<notin> ip_slug ` set others \<and>
         (ip_issuer p, ip_client_id p) \<notin> (\<lambda>q. (ip_issuer q, ip_client_id q)) ` set others)
       (Conflict ''provider'')) (\<lambda>_.
     rguard (fk (ip_default_role p) (r_id ` set (t_roles d))) (Internal ''foreign key''))"

definition new_provider ::
    "(string \<Rightarrow> string) \<Rightarrow> (string \<Rightarrow> string) \<Rightarrow> ident \<Rightarrow> string \<Rightarrow> provider_input \<Rightarrow> provider_row" where
  "new_provider url encrypt new_id slug i =
     \<lparr>ip_id = new_id, ip_name = pi_name i, ip_slug = slug, ip_type = pi_type i,
      ip_issuer = url (pi_issuer i),
      ip_discovery_url = (if truthy (pi_discovery_url i) then map_option url (pi_discovery_url i) else None),
      ip_client_id = pi_client_id i, ip_auth_method = pi_auth_method i,
      ip_secret = (if truthy (pi_secret i) then map_option encrypt (pi_secret i) else None),
      ip_scopes = pi_scopes i, ip_claim_mapping = pi_claim_mapping i, ip_active = pi_active i,
      ip_display_order = pi_display_order i, ip_allow_jit = pi_allow_jit i,
      ip_default_role = pi_default_role i, ip_sync_mode = pi_sync_mode i,
      ip_group_claim = pi_group_claim i, ip_role_claim = pi_role_claim i,
      ip_allow_admin_mapping = pi_allow_admin_mapping i, ip_max_session_age = pi_max_session_age i,
      ip_entra_fallback = pi_entra_fallback i, ip_entra_mode = pi_entra_mode i,
      ip_entra_cache_ttl = pi_entra_cache_ttl i\<rparr>"

definition create_provider ::
    "(string \<Rightarrow> string) \<Rightarrow> (string \<Rightarrow> string) \<Rightarrow> (string \<Rightarrow> string) \<Rightarrow> db \<Rightarrow> ident \<Rightarrow> provider_input \<Rightarrow>
     (db \<times> provider_view) result" where
  "create_provider slugify url encrypt d new_id i =
     rbind (assert_client_configuration (pi_auth_method i) (pi_secret i)) (\<lambda>_.
     rbind (assert_jit_configuration d (pi_active i \<and> pi_allow_jit i) (pi_default_role i)) (\<lambda>_.
     rbind (unique_provider_slug slugify d (pi_name i)) (\<lambda>slug.
     let p = new_provider url encrypt new_id slug i
     in rbind (rguard (new_id \<notin> ip_id ` set (t_providers d)) (Conflict ''provider'')) (\<lambda>_.
        rbind (provider_fits d (t_providers d) p) (\<lambda>_.
        let d' = d\<lparr>t_providers := t_providers d @ [p]\<rparr> in Inr (d', to_admin_provider d' p))))))"

definition next_secret :: "(string \<Rightarrow> string) \<Rightarrow> provider_change \<Rightarrow> string option \<Rightarrow> string option" where
  "next_secret encrypt c old =
     (case pu_secret c of
        Some s \<Rightarrow> Some (encrypt s)
      | None \<Rightarrow> if pu_clear_secret c then None else old)"

definition changed_provider ::
    "(string \<Rightarrow> string) \<Rightarrow> (string \<Rightarrow> string) \<Rightarrow> provider_change \<Rightarrow> provider_row \<Rightarrow> provider_row" where
  "changed_provider url encrypt c p =
     \<lparr>ip_id = ip_id p, ip_name = given (pu_name c) (ip_name p), ip_slug = ip_slug p,
      ip_type = given (pu_type c) (ip_type p), ip_issuer = given (map_option url (pu_issuer c)) (ip_issuer p),
      ip_discovery_url = (case pu_discovery_url c of
          None \<Rightarrow> ip_discovery_url p | Some u \<Rightarrow> if truthy u then map_option url u else None),
      ip_client_id = given (pu_client_id c) (ip_client_id p),
      ip_auth_method = given (pu_auth_method c) (ip_auth_method p),
      ip_secret = next_secret encrypt c (ip_secret p), ip_scopes = given (pu_scopes c) (ip_scopes p),
      ip_claim_mapping = given (pu_claim_mapping c) (ip_claim_mapping p),
      ip_active = given (pu_active c) (ip_active p),
      ip_display_order = given (pu_display_order c) (ip_display_order p),
      ip_allow_jit = given (pu_allow_jit c) (ip_allow_jit p),
      ip_default_role = given (pu_default_role c) (ip_default_role p),
      ip_sync_mode = given (pu_sync_mode c) (ip_sync_mode p),
      ip_group_claim = given (pu_group_claim c) (ip_group_claim p),
      ip_role_claim = given (pu_role_claim c) (ip_role_claim p),
      ip_allow_admin_mapping = given (pu_allow_admin_mapping c) (ip_allow_admin_mapping p),
      ip_max_session_age = given (pu_max_session_age c) (ip_max_session_age p),
      ip_entra_fallback = given (pu_entra_fallback c) (ip_entra_fallback p),
      ip_entra_mode = given (pu_entra_mode c) (ip_entra_mode p),
      ip_entra_cache_ttl = given (pu_entra_cache_ttl c) (ip_entra_cache_ttl p)\<rparr>"

definition update_provider ::
    "(string \<Rightarrow> string) \<Rightarrow> (string \<Rightarrow> string) \<Rightarrow> db \<Rightarrow> ident \<Rightarrow> provider_change \<Rightarrow> (db \<times> provider_view) result" where
  "update_provider url encrypt d i c =
     rbind (get_provider d i) (\<lambda>current.
     rbind (assert_jit_configuration d
         (given (pu_active c) (ip_active current) \<and> given (pu_allow_jit c) (ip_allow_jit current))
         (given (pu_default_role c) (ip_default_role current))) (\<lambda>_.
     rbind (rguard (\<not> (ip_active current \<and> pu_active c = Some False \<and> \<not> pu_confirm_last c \<and>
         active_provider_count d = 1)) (Conflict ''last active provider'')) (\<lambda>_.
     let auth_kind = given (pu_auth_method c) (ip_auth_method current);
         has_secret = (\<not> pu_clear_secret c \<and> (truthy (pu_secret c) \<or> truthy (ip_secret current)))
     in rbind (rguard (\<not> (auth_kind \<noteq> NO_SECRET \<and> \<not> has_secret)) (BadRequest ''client secret required'')) (\<lambda>_.
        rbind (rguard (\<not> (auth_kind = NO_SECRET \<and> (has_secret \<or> truthy (pu_secret c))))
          (BadRequest ''public client'')) (\<lambda>_.
        let p = changed_provider url encrypt c current
        in rbind (provider_fits d (delete_where (\<lambda>q. ip_id q = i) (t_providers d)) p) (\<lambda>_.
           let d' = d\<lparr>t_providers := update_where (\<lambda>q. ip_id q = i) (\<lambda>_. p) (t_providers d)\<rparr>
           in Inr (d', to_admin_provider d' p)))))))"

section \<open>Deletion\<close>

text \<open>What the foreign keys delete or clear when identities, group or role mappings disappear.\<close>

definition cascade_identities :: "(identity_row \<Rightarrow> bool) \<Rightarrow> db \<Rightarrow> db" where
  "cascade_identities gone d =
     (let ids = xi_id ` {x \<in> set (t_identities d). gone x}
      in d\<lparr>t_identities := delete_where gone (t_identities d),
           t_group_grants := delete_where (\<lambda>g. gg_identity g \<in> ids) (t_group_grants d),
           t_role_grants := delete_where (\<lambda>g. rg_identity g \<in> ids) (t_role_grants d),
           t_login_codes := delete_where (\<lambda>c. ol_identity c \<in> ids) (t_login_codes d),
           t_oidc_requests := delete_where (\<lambda>r. \<exists>x \<in> ids. oa_unlink r = Some x) (t_oidc_requests d),
           t_sessions := update_where (\<lambda>s. \<exists>x \<in> ids. ses_identity s = Some x)
             (\<lambda>s. s\<lparr>ses_identity := None\<rparr>) (t_sessions d)\<rparr>)"

definition cascade_group_mappings :: "(group_mapping_row \<Rightarrow> bool) \<Rightarrow> db \<Rightarrow> db" where
  "cascade_group_mappings gone d =
     d\<lparr>t_group_mappings := delete_where gone (t_group_mappings d),
       t_group_grants := delete_where (\<lambda>g. gg_mapping g \<in> gm_id ` {m \<in> set (t_group_mappings d). gone m})
         (t_group_grants d)\<rparr>"

definition cascade_role_mappings :: "(role_mapping_row \<Rightarrow> bool) \<Rightarrow> db \<Rightarrow> db" where
  "cascade_role_mappings gone d =
     d\<lparr>t_role_mappings := delete_where gone (t_role_mappings d),
       t_role_grants := delete_where (\<lambda>g. rg_mapping g \<in> rm_id ` {m \<in> set (t_role_mappings d). gone m})
         (t_role_grants d)\<rparr>"

definition delete_provider :: "ident \<Rightarrow> db \<Rightarrow> db" where
  "delete_provider i d =
     (let d1 = cascade_role_mappings (\<lambda>m. rm_provider m = i)
                 (cascade_group_mappings (\<lambda>m. gm_provider m = i)
                   (cascade_identities (\<lambda>x. xi_provider x = i) d))
      in d1\<lparr>t_providers := delete_where (\<lambda>p. ip_id p = i) (t_providers d1),
            t_oidc_requests := delete_where (\<lambda>r. oa_provider r = i) (t_oidc_requests d1),
            t_login_codes := delete_where (\<lambda>c. ol_provider c = i) (t_login_codes d1)\<rparr>)"

definition remove_provider :: "db \<Rightarrow> ident \<Rightarrow> bool \<Rightarrow> (db \<times> ident \<times> string) result" where
  "remove_provider d i confirm_last =
     rbind (get_provider d i) (\<lambda>p.
     rbind (rguard (\<not> (ip_active p \<and> \<not> confirm_last \<and> active_provider_count d = 1))
       (Conflict ''last active provider'')) (\<lambda>_.
     Inr (delete_provider i d, ip_id p, ip_name p)))"

section \<open>Mappings\<close>

record group_mapping_input =
  gi_external_id :: string
  gi_external_path :: "string option"
  gi_external_name :: "string option"
  gi_group :: ident

definition create_group_mapping ::
    "db \<Rightarrow> ident \<Rightarrow> ident \<Rightarrow> group_mapping_input \<Rightarrow> (db \<times> group_mapping_row) result" where
  "create_group_mapping d new_id provider i =
     rbind (get_provider d provider) (\<lambda>_.
     let m = \<lparr>gm_id = new_id, gm_external_id = gi_external_id i, gm_external_path = gi_external_path i,
              gm_external_name = gi_external_name i, gm_provider = provider, gm_group = gi_group i\<rparr>
     in rbind (rguard (new_id \<notin> gm_id ` set (t_group_mappings d) \<and>
            (provider, gi_external_id i) \<notin> (\<lambda>m. (gm_provider m, gm_external_id m)) ` set (t_group_mappings d))
          (Conflict ''mapping'')) (\<lambda>_.
        rbind (rguard (gi_group i \<in> g_id ` set (t_groups d)) (Internal ''foreign key'')) (\<lambda>_.
        Inr (d\<lparr>t_group_mappings := t_group_mappings d @ [m]\<rparr>, m))))"

record role_mapping_input =
  ri_source :: mapping_source
  ri_value :: string
  ri_priority :: int
  ri_role :: ident

definition create_role_mapping ::
    "db \<Rightarrow> ident \<Rightarrow> ident \<Rightarrow> role_mapping_input \<Rightarrow> (db \<times> role_mapping_row) result" where
  "create_role_mapping d new_id provider i =
     rbind (get_provider d provider) (\<lambda>_.
     let m = \<lparr>rm_id = new_id, rm_source = ri_source i, rm_value = ri_value i, rm_priority = ri_priority i,
              rm_provider = provider, rm_role = ri_role i\<rparr>
     in rbind (rguard (new_id \<notin> rm_id ` set (t_role_mappings d) \<and>
            (provider, ri_source i, ri_value i) \<notin>
              (\<lambda>m. (rm_provider m, rm_source m, rm_value m)) ` set (t_role_mappings d) \<and>
            (provider, ri_priority i) \<notin> (\<lambda>m. (rm_provider m, rm_priority m)) ` set (t_role_mappings d))
          (Conflict ''mapping'')) (\<lambda>_.
        rbind (rguard (ri_role i \<in> r_id ` set (t_roles d)) (Internal ''foreign key'')) (\<lambda>_.
        Inr (d\<lparr>t_role_mappings := t_role_mappings d @ [m]\<rparr>, m))))"

definition remove_group_mapping :: "db \<Rightarrow> ident \<Rightarrow> ident \<Rightarrow> (db \<times> ident \<times> string) result" where
  "remove_group_mapping d provider i =
     rbind (or_throw (NotFound ''group mapping'')
       (List.find (\<lambda>m. gm_id m = i \<and> gm_provider m = provider) (t_group_mappings d))) (\<lambda>m.
     Inr (cascade_group_mappings (\<lambda>m. gm_id m = i) d, gm_id m, gm_external_id m))"

definition remove_role_mapping :: "db \<Rightarrow> ident \<Rightarrow> ident \<Rightarrow> (db \<times> ident \<times> string) result" where
  "remove_role_mapping d provider i =
     rbind (or_throw (NotFound ''role mapping'')
       (List.find (\<lambda>m. rm_id m = i \<and> rm_provider m = provider) (t_role_mappings d))) (\<lambda>m.
     Inr (cascade_role_mappings (\<lambda>m. rm_id m = i) d, rm_id m, rm_value m))"

section \<open>The constraints survive\<close>

text \<open>
  A confidential client has a stored secret, a public one has none. The encryption never returns an
  empty string; the schemas reject an empty secret.
\<close>

definition secret_fits :: "provider_row \<Rightarrow> bool" where
  "secret_fits p \<longleftrightarrow> (ip_auth_method p = NO_SECRET \<longleftrightarrow> ip_secret p = None) \<and> ip_secret p \<noteq> Some []"

definition providers_ok :: "db \<Rightarrow> bool" where
  "providers_ok d \<longleftrightarrow>
     distinct (map ip_name (t_providers d)) \<and> distinct (map ip_slug (t_providers d)) \<and>
     distinct (map (\<lambda>p. (ip_issuer p, ip_client_id p)) (t_providers d)) \<and>
     (\<forall>p \<in> set (t_providers d). fk (ip_default_role p) (r_id ` set (t_roles d)) \<and> secret_fits p)"

definition mappings_unique :: "db \<Rightarrow> bool" where
  "mappings_unique d \<longleftrightarrow>
     distinct (map (\<lambda>m. (gm_provider m, gm_external_id m)) (t_group_mappings d)) \<and>
     distinct (map (\<lambda>m. (rm_provider m, rm_source m, rm_value m)) (t_role_mappings d)) \<and>
     distinct (map (\<lambda>m. (rm_provider m, rm_priority m)) (t_role_mappings d))"

definition sso_ok :: "db \<Rightarrow> bool" where
  "sso_ok d \<longleftrightarrow> identities_ok d \<and> groups_ok d \<and> providers_ok d \<and> mappings_unique d \<and> grants_placed d"

lemma sso_okI:
  "identities_ok d \<Longrightarrow> groups_ok d \<Longrightarrow> providers_ok d \<Longrightarrow> mappings_unique d \<Longrightarrow> grants_placed d \<Longrightarrow> sso_ok d"
  by (simp add: sso_ok_def)

lemma kept_key: "k \<in> key ` S \<Longrightarrow> k \<notin> key ` {x \<in> S. p x} \<Longrightarrow> k \<in> key ` {x \<in> S. \<not> p x}"
  by (auto simp: image_iff)

lemma grants_placed_kept:
  assumes placed: "grants_placed d"
    and grants: "set (t_group_grants d') \<subseteq> set (t_group_grants d)" "set (t_role_grants d') \<subseteq> set (t_role_grants d)"
    and members: "t_memberships d' = t_memberships d"
    and kept: "\<And>g x. g \<in> set (t_group_grants d') \<Longrightarrow> x \<in> set (t_identities d) \<Longrightarrow> xi_id x = gg_identity g \<Longrightarrow>
        x \<in> set (t_identities d')"
      "\<And>g m. g \<in> set (t_group_grants d') \<Longrightarrow> m \<in> set (t_group_mappings d) \<Longrightarrow> gm_id m = gg_mapping g \<Longrightarrow>
        m \<in> set (t_group_mappings d')"
      "\<And>g m. g \<in> set (t_role_grants d') \<Longrightarrow> m \<in> set (t_role_mappings d) \<Longrightarrow> rm_id m = rg_mapping g \<Longrightarrow>
        m \<in> set (t_role_mappings d')"
  shows "grants_placed d'"
  unfolding grants_placed_def
proof (intro conjI ballI)
  fix g assume g: "g \<in> set (t_group_grants d')"
  then have "g \<in> set (t_group_grants d)" using grants(1) by blast
  then obtain m x mp where "m \<in> set (t_memberships d)" "x \<in> set (t_identities d)" "mp \<in> set (t_group_mappings d)"
    "m_id m = gg_membership g" "xi_id x = gg_identity g" "gm_id mp = gg_mapping g" "m_user m = xi_user x"
    "m_group m = gm_group mp"
    using placed unfolding grants_placed_def by blast
  moreover from this have "x \<in> set (t_identities d')" "mp \<in> set (t_group_mappings d')"
    using kept(1) [OF g] kept(2) [OF g] by blast+
  ultimately show "\<exists>m \<in> set (t_memberships d'). \<exists>x \<in> set (t_identities d'). \<exists>mp \<in> set (t_group_mappings d').
      m_id m = gg_membership g \<and> xi_id x = gg_identity g \<and> gm_id mp = gg_mapping g \<and> m_user m = xi_user x \<and>
      m_group m = gm_group mp"
    unfolding members by blast
next
  fix g assume g: "g \<in> set (t_role_grants d')"
  then have "g \<in> set (t_role_grants d)" using grants(2) by blast
  then obtain m where "m \<in> set (t_role_mappings d)" "rm_id m = rg_mapping g" "rm_role m = rg_role g"
    using placed unfolding grants_placed_def by blast
  with kept(3) [OF g] show "\<exists>m \<in> set (t_role_mappings d'). rm_id m = rg_mapping g \<and> rm_role m = rg_role g"
    by blast
qed

lemma cascade_identities_ok:
  assumes "sso_ok d"
  shows "sso_ok (cascade_identities gone d)"
proof (rule sso_okI)
  show "grants_placed (cascade_identities gone d)"
    by (rule grants_placed_kept [of d])
      (use assms in \<open>auto simp: sso_ok_def cascade_identities_def Let_def row_simps image_iff\<close>)
  show "identities_ok (cascade_identities gone d)"
    using assms unfolding sso_ok_def identities_ok_def cascade_identities_def
    by (auto simp: Let_def distinct_delete_where row_simps intro: kept_key)
  show "groups_ok (cascade_identities gone d)"
    using assms unfolding sso_ok_def groups_ok_def cascade_identities_def
    by (auto simp: Let_def row_simps)
qed (use assms in \<open>simp_all add: sso_ok_def providers_ok_def mappings_unique_def cascade_identities_def Let_def\<close>)

lemma cascade_group_mappings_ok:
  assumes "sso_ok d"
  shows "sso_ok (cascade_group_mappings gone d)"
proof (rule sso_okI)
  show "grants_placed (cascade_group_mappings gone d)"
    by (rule grants_placed_kept [of d])
      (use assms in \<open>auto simp: sso_ok_def cascade_group_mappings_def Let_def row_simps image_iff\<close>)
  show "identities_ok (cascade_group_mappings gone d)"
    using assms unfolding sso_ok_def identities_ok_def cascade_group_mappings_def
    by (auto simp: distinct_delete_where row_simps intro: kept_key)
  show "groups_ok (cascade_group_mappings gone d)"
    using assms unfolding sso_ok_def groups_ok_def cascade_group_mappings_def
    by (auto simp: row_simps)
qed (use assms in \<open>simp_all add: sso_ok_def providers_ok_def mappings_unique_def cascade_group_mappings_def
      distinct_delete_where\<close>)

lemma cascade_role_mappings_ok:
  assumes "sso_ok d"
  shows "sso_ok (cascade_role_mappings gone d)"
proof (rule sso_okI)
  show "grants_placed (cascade_role_mappings gone d)"
    by (rule grants_placed_kept [of d])
      (use assms in \<open>auto simp: sso_ok_def cascade_role_mappings_def Let_def row_simps image_iff\<close>)
  show "identities_ok (cascade_role_mappings gone d)"
    using assms unfolding sso_ok_def identities_ok_def cascade_role_mappings_def
    by (auto simp: distinct_delete_where row_simps intro: kept_key)
qed (use assms in \<open>simp_all add: sso_ok_def providers_ok_def groups_ok_def mappings_unique_def cascade_role_mappings_def
      distinct_delete_where\<close>)

lemma delete_provider_ok:
  assumes "sso_ok d"
  shows "sso_ok (delete_provider i d)"
proof -
  define e where "e = cascade_role_mappings (\<lambda>m. rm_provider m = i)
    (cascade_group_mappings (\<lambda>m. gm_provider m = i) (cascade_identities (\<lambda>x. xi_provider x = i) d))"
  have e: "sso_ok e"
    unfolding e_def by (intro cascade_role_mappings_ok cascade_group_mappings_ok cascade_identities_ok assms)
  have free: "\<forall>x \<in> set (t_identities e). xi_provider x \<noteq> i" "\<forall>m \<in> set (t_group_mappings e). gm_provider m \<noteq> i"
    "\<forall>m \<in> set (t_role_mappings e). rm_provider m \<noteq> i"
    by (auto simp: e_def cascade_role_mappings_def cascade_group_mappings_def cascade_identities_def Let_def row_simps)
  have "identities_ok (delete_provider i d)"
    using e free unfolding sso_ok_def identities_ok_def delete_provider_def Let_def e_def [symmetric]
    by (auto simp: distinct_delete_where row_simps)
  with e show ?thesis
    by (simp add: sso_ok_def grants_placed_def providers_ok_def groups_ok_def mappings_unique_def delete_provider_def Let_def
        e_def [symmetric] distinct_delete_where row_simps)
qed

lemma add_provider_ok:
  assumes "sso_ok d" and "provider_fits d (t_providers d) p = Inr ()" and "ip_id p \<notin> ip_id ` set (t_providers d)"
    and "secret_fits p"
  shows "sso_ok (d\<lparr>t_providers := t_providers d @ [p]\<rparr>)"
proof -
  have fits: "ip_name p \<notin> ip_name ` set (t_providers d)" "ip_slug p \<notin> ip_slug ` set (t_providers d)"
    "(ip_issuer p, ip_client_id p) \<notin> (\<lambda>q. (ip_issuer q, ip_client_id q)) ` set (t_providers d)"
    "fk (ip_default_role p) (r_id ` set (t_roles d))"
    using assms(2) by (simp_all add: provider_fits_def rbind_eq_Inr)
  show ?thesis
  proof (rule sso_okI)
    show "identities_ok (d\<lparr>t_providers := t_providers d @ [p]\<rparr>)"
      using assms(1,3) by (auto simp: sso_ok_def identities_ok_def)
    show "providers_ok (d\<lparr>t_providers := t_providers d @ [p]\<rparr>)"
      using assms(1,4) fits unfolding sso_ok_def providers_ok_def by (simp add: distinct_map_snoc)
  qed (use assms(1) in \<open>simp_all add: sso_ok_def groups_ok_def mappings_unique_def grants_placed_def\<close>)
qed

lemma create_provider_ok:
  assumes ok: "sso_ok d" and enc: "\<And>s. encrypt s \<noteq> []"
    and run: "create_provider slugify url encrypt d new_id i = Inr (d', v)"
  shows "sso_ok d'"
proof -
  obtain slug where p: "provider_fits d (t_providers d) (new_provider url encrypt new_id slug i) = Inr ()"
    "new_id \<notin> ip_id ` set (t_providers d)"
    "d' = d\<lparr>t_providers := t_providers d @ [new_provider url encrypt new_id slug i]\<rparr>"
    "assert_client_configuration (pi_auth_method i) (pi_secret i) = Inr ()"
    using run by (auto simp: create_provider_def rbind_eq_Inr Let_def)
  have "secret_fits (new_provider url encrypt new_id slug i)" "ip_id (new_provider url encrypt new_id slug i) = new_id"
    using p(4) enc
    by (auto simp: secret_fits_def assert_client_configuration_def rbind_eq_Inr truthy_def new_provider_def)
  with add_provider_ok [OF ok p(1)] p(2,3) show ?thesis by simp
qed

text \<open>Replacing one row by one that fits next to the others.\<close>

lemma update_where_Cons: "update_where p f (r # rows) = (if p r then f r else r) # update_where p f rows"
  by (simp add: update_where_def)

lemma distinct_replace:
  assumes "distinct (map ident rows)" and "distinct (map key rows)"
    and "key p \<notin> key ` set (delete_where (\<lambda>r. ident r = i) rows)"
  shows "distinct (map key (update_where (\<lambda>r. ident r = i) (\<lambda>_. p) rows))"
  using assms
proof (induction rows)
  case Nil
  then show ?case by (simp add: update_where_def)
next
  case (Cons r rows)
  have rest: "key p \<notin> key ` set (delete_where (\<lambda>r. ident r = i) rows)"
    using Cons.prems(3) by (auto simp: row_simps)
  have ih: "distinct (map key (update_where (\<lambda>r. ident r = i) (\<lambda>_. p) rows))"
    using Cons.IH Cons.prems(1,2) rest by simp
  show ?case
  proof (cases "ident r = i")
    case True
    then have "\<forall>q \<in> set rows. ident q \<noteq> i" using Cons.prems(1) by (auto simp: image_def)
    then have same: "update_where (\<lambda>r. ident r = i) (\<lambda>_. p) rows = rows" "delete_where (\<lambda>r. ident r = i) rows = rows"
      by (simp_all add: update_where_def delete_where_def map_idI)
    with True rest Cons.prems(2) show ?thesis by (simp add: update_where_def)
  next
    case False
    have "set (update_where (\<lambda>r. ident r = i) (\<lambda>_. p) rows) \<subseteq> insert p (set rows)"
      unfolding set_update_where by auto
    then have "key ` set (update_where (\<lambda>r. ident r = i) (\<lambda>_. p) rows) \<subseteq> insert (key p) (key ` set rows)"
      by blast
    moreover have "key r \<notin> insert (key p) (key ` set rows)"
      using Cons.prems(2,3) False by (auto simp: delete_where_def)
    ultimately have "key r \<notin> key ` set (update_where (\<lambda>r. ident r = i) (\<lambda>_. p) rows)" by blast
    with ih False show ?thesis by (simp add: update_where_Cons)
  qed
qed

lemma next_secret_fits:
  assumes "secret_fits p" and "\<And>s. encrypt s \<noteq> []" and "pu_secret c \<noteq> Some []"
    and "has_secret = (\<not> pu_clear_secret c \<and> (truthy (pu_secret c) \<or> truthy (ip_secret p)))"
    and "auth_kind \<noteq> NO_SECRET \<longrightarrow> has_secret" and "auth_kind = NO_SECRET \<longrightarrow> \<not> has_secret \<and> \<not> truthy (pu_secret c)"
  shows "(auth_kind = NO_SECRET \<longleftrightarrow> next_secret encrypt c (ip_secret p) = None) \<and>
    next_secret encrypt c (ip_secret p) \<noteq> Some []"
  using assms by (auto simp: next_secret_def secret_fits_def truthy_def split: option.splits if_splits)

lemma update_provider_ok:
  assumes ok: "sso_ok d" and enc: "\<And>s. encrypt s \<noteq> []" and parsed: "pu_secret c \<noteq> Some []"
    and run: "update_provider url encrypt d i c = Inr (d', v)"
  shows "sso_ok d'"
proof -
  obtain current where cur: "find_provider d i = Some current"
    and auth_kind: "given (pu_auth_method c) (ip_auth_method current) \<noteq> NO_SECRET \<longrightarrow>
      \<not> pu_clear_secret c \<and> (truthy (pu_secret c) \<or> truthy (ip_secret current))"
    "given (pu_auth_method c) (ip_auth_method current) = NO_SECRET \<longrightarrow>
      \<not> (\<not> pu_clear_secret c \<and> (truthy (pu_secret c) \<or> truthy (ip_secret current))) \<and> \<not> truthy (pu_secret c)"
    and fits: "provider_fits d (delete_where (\<lambda>q. ip_id q = i) (t_providers d)) (changed_provider url encrypt c current) = Inr ()"
    and d': "d' = d\<lparr>t_providers := update_where (\<lambda>q. ip_id q = i) (\<lambda>_. changed_provider url encrypt c current) (t_providers d)\<rparr>"
    using run by (auto simp: update_provider_def get_provider_def rbind_eq_Inr Let_def)
  let ?p = "changed_provider url encrypt c current" and ?rest = "delete_where (\<lambda>q. ip_id q = i) (t_providers d)"
  have row: "current \<in> set (t_providers d)" "ip_id current = i"
    using find_SomeD [OF cur [unfolded find_provider_def]] by simp_all
  have ids: "distinct (map ip_id (t_providers d))" using ok by (simp add: sso_ok_def identities_ok_def)
  have "secret_fits current" using ok row(1) by (simp add: sso_ok_def providers_ok_def)
  from next_secret_fits [OF this enc parsed refl auth_kind] have secret: "secret_fits ?p"
    by (simp add: secret_fits_def changed_provider_def)
  have free: "ip_name ?p \<notin> ip_name ` set ?rest" "ip_slug ?p \<notin> ip_slug ` set ?rest"
    "(ip_issuer ?p, ip_client_id ?p) \<notin> (\<lambda>q. (ip_issuer q, ip_client_id q)) ` set ?rest"
    and role: "fk (ip_default_role ?p) (r_id ` set (t_roles d))"
    using fits by (simp_all add: provider_fits_def rbind_eq_Inr)
  have keys: "map ip_id (t_providers d') = map ip_id (t_providers d)"
    by (simp add: d' map_update_where row(2) changed_provider_def)
  have ids': "distinct (map ip_id (t_providers d'))" "ip_id ` set (t_providers d') = ip_id ` set (t_providers d)"
    using ids keys by (simp, metis keys list.set_map)
  show ?thesis
  proof (rule sso_okI)
    show "identities_ok d'"
      using ok ids' unfolding sso_ok_def identities_ok_def by (simp add: d')
    have "distinct (map ip_name (t_providers d'))" "distinct (map ip_slug (t_providers d'))"
      "distinct (map (\<lambda>p. (ip_issuer p, ip_client_id p)) (t_providers d'))"
      using ok free by (simp_all add: d' distinct_replace [OF ids] sso_ok_def providers_ok_def)
    moreover have "fk (ip_default_role q) (r_id ` set (t_roles d')) \<and> secret_fits q" if "q \<in> set (t_providers d')" for q
    proof -
      from that have "q = ?p \<or> q \<in> set (t_providers d)" by (auto simp: d' row_simps split: if_splits)
      with role secret ok show ?thesis by (auto simp: d' sso_ok_def providers_ok_def)
    qed
    ultimately show "providers_ok d'" by (simp add: providers_ok_def)
  qed (use ok in \<open>simp_all add: d' sso_ok_def groups_ok_def mappings_unique_def grants_placed_def\<close>)
qed

lemma create_group_mapping_ok:
  assumes ok: "sso_ok d" and run: "create_group_mapping d new_id provider i = Inr (d', m)"
  shows "sso_ok d'"
proof -
  have m: "gm_id m \<notin> gm_id ` set (t_group_mappings d)"
    "(gm_provider m, gm_external_id m) \<notin> (\<lambda>m. (gm_provider m, gm_external_id m)) ` set (t_group_mappings d)"
    "gm_group m \<in> g_id ` set (t_groups d)" "d' = d\<lparr>t_group_mappings := t_group_mappings d @ [m]\<rparr>"
    "gm_provider m \<in> ip_id ` set (t_providers d)"
    using run by (auto simp: create_group_mapping_def get_provider_def find_provider_def rbind_eq_Inr Let_def
        dest!: find_SomeD)
  show ?thesis
  proof (rule sso_okI)
    show "identities_ok d'"
      using ok m unfolding sso_ok_def identities_ok_def by (auto simp: distinct_map_snoc)
    show "mappings_unique d'"
      using ok m unfolding sso_ok_def mappings_unique_def by (simp add: distinct_map_snoc)
    show "grants_placed d'"
      using ok m unfolding sso_ok_def grants_placed_def by fastforce
  qed (use ok m in \<open>simp_all add: sso_ok_def groups_ok_def providers_ok_def\<close>)
qed

lemma create_role_mapping_ok:
  assumes ok: "sso_ok d" and run: "create_role_mapping d new_id provider i = Inr (d', m)"
  shows "sso_ok d'"
proof -
  have m: "rm_id m \<notin> rm_id ` set (t_role_mappings d)"
    "(rm_provider m, rm_source m, rm_value m) \<notin> (\<lambda>m. (rm_provider m, rm_source m, rm_value m)) ` set (t_role_mappings d)"
    "(rm_provider m, rm_priority m) \<notin> (\<lambda>m. (rm_provider m, rm_priority m)) ` set (t_role_mappings d)"
    "rm_role m \<in> r_id ` set (t_roles d)" "d' = d\<lparr>t_role_mappings := t_role_mappings d @ [m]\<rparr>"
    "rm_provider m \<in> ip_id ` set (t_providers d)"
    using run by (auto simp: create_role_mapping_def get_provider_def find_provider_def rbind_eq_Inr Let_def
        dest!: find_SomeD)
  show ?thesis
  proof (rule sso_okI)
    show "identities_ok d'"
      using ok m unfolding sso_ok_def identities_ok_def by (auto simp: distinct_map_snoc)
    show "mappings_unique d'"
      using ok m unfolding sso_ok_def mappings_unique_def by (simp add: distinct_map_snoc)
    show "grants_placed d'"
      using ok m unfolding sso_ok_def grants_placed_def by fastforce
  qed (use ok m in \<open>simp_all add: sso_ok_def groups_ok_def providers_ok_def\<close>)
qed

section \<open>Requests\<close>

datatype sso_op =
    Create_Provider ident provider_input
  | Update_Provider ident provider_change
  | Remove_Provider ident bool
  | Create_Group_Mapping ident ident group_mapping_input
  | Create_Role_Mapping ident ident role_mapping_input
  | Remove_Group_Mapping ident ident
  | Remove_Role_Mapping ident ident
  | Sync_Identity ident json

text \<open>The request schemas reject an empty client secret.\<close>

fun parsed :: "sso_op \<Rightarrow> bool" where
  "parsed (Update_Provider i c) = (pu_secret c \<noteq> Some [])"
| "parsed op = True"

fun sso_step ::
    "(string \<Rightarrow> string \<Rightarrow> int) \<Rightarrow> (string \<Rightarrow> string) \<Rightarrow> (string \<Rightarrow> string) \<Rightarrow> (string \<Rightarrow> string) \<Rightarrow> (ident \<Rightarrow> ident) \<Rightarrow>
     db \<Rightarrow> sso_op \<Rightarrow> db" where
  "sso_step lc slugify url encrypt fresh d (Create_Provider n i) =
     (case create_provider slugify url encrypt d n i of Inl _ \<Rightarrow> d | Inr (d', _) \<Rightarrow> d')"
| "sso_step lc slugify url encrypt fresh d (Update_Provider i c) =
     (case update_provider url encrypt d i c of Inl _ \<Rightarrow> d | Inr (d', _) \<Rightarrow> d')"
| "sso_step lc slugify url encrypt fresh d (Remove_Provider i confirm) =
     (case remove_provider d i confirm of Inl _ \<Rightarrow> d | Inr (d', _) \<Rightarrow> d')"
| "sso_step lc slugify url encrypt fresh d (Create_Group_Mapping n p i) =
     (case create_group_mapping d n p i of Inl _ \<Rightarrow> d | Inr (d', _) \<Rightarrow> d')"
| "sso_step lc slugify url encrypt fresh d (Create_Role_Mapping n p i) =
     (case create_role_mapping d n p i of Inl _ \<Rightarrow> d | Inr (d', _) \<Rightarrow> d')"
| "sso_step lc slugify url encrypt fresh d (Remove_Group_Mapping p i) =
     (case remove_group_mapping d p i of Inl _ \<Rightarrow> d | Inr (d', _) \<Rightarrow> d')"
| "sso_step lc slugify url encrypt fresh d (Remove_Role_Mapping p i) =
     (case remove_role_mapping d p i of Inl _ \<Rightarrow> d | Inr (d', _) \<Rightarrow> d')"
| "sso_step lc slugify url encrypt fresh d (Sync_Identity x c) = fst (synchronize lc fresh d x c)"

lemma record_failure_ok:
  assumes "sso_ok d"
  shows "sso_ok (record_failure d i e)"
proof -
  let ?f = "\<lambda>y. y\<lparr>xi_sync_error := Some (sync_error_code e)\<rparr>"
  have keys: "map xi_id (t_identities (record_failure d i e)) = map xi_id (t_identities d)"
    "map (\<lambda>x. (xi_provider x, xi_user x)) (t_identities (record_failure d i e)) =
     map (\<lambda>x. (xi_provider x, xi_user x)) (t_identities d)"
    by (simp_all add: record_failure_def map_update_where)
  have ids: "xi_id ` set (t_identities (record_failure d i e)) = xi_id ` set (t_identities d)"
    by (metis keys(1) list.set_map)
  have row: "x \<in> set (t_identities d) \<Longrightarrow>
      \<exists>y \<in> set (t_identities (record_failure d i e)). xi_id y = xi_id x \<and> xi_user y = xi_user x" for x
  proof -
    assume x: "x \<in> set (t_identities d)"
    have "(if xi_id x = i then ?f x else x) \<in> set (t_identities (record_failure d i e))"
      unfolding record_failure_def using x by (simp add: update_where_def)
    then show ?thesis by (rule rev_bexI) simp
  qed
  have provider: "\<forall>x \<in> set (t_identities (record_failure d i e)). xi_provider x \<in> ip_id ` set (t_providers d)"
    using assms unfolding record_failure_def sso_ok_def identities_ok_def by (auto simp: row_simps)
  have rest: "t_providers (record_failure d i e) = t_providers d" "t_group_mappings (record_failure d i e) = t_group_mappings d"
    "t_role_mappings (record_failure d i e) = t_role_mappings d" "t_group_grants (record_failure d i e) = t_group_grants d"
    "t_role_grants (record_failure d i e) = t_role_grants d" "t_groups (record_failure d i e) = t_groups d"
    "t_roles (record_failure d i e) = t_roles d" "t_memberships (record_failure d i e) = t_memberships d"
    by (simp_all add: record_failure_def)
  show ?thesis
  proof (rule sso_okI)
    show "identities_ok (record_failure d i e)"
      using assms provider unfolding sso_ok_def identities_ok_def rest ids keys by simp
    show "grants_placed (record_failure d i e)"
      using assms row unfolding sso_ok_def grants_placed_def rest by metis
  qed (use assms in \<open>simp_all add: sso_ok_def groups_ok_def providers_ok_def mappings_unique_def rest\<close>)
qed

lemma synchronize_ok:
  assumes ok: "sso_ok d"
  shows "sso_ok (fst (synchronize lc fresh d x c))"
proof -
  obtain d' out where run: "synchronize lc fresh d x c = (d', out)" by fastforce
  from synchronize_cases [OF run] show ?thesis
  proof (elim disjE exE conjE)
    fix y p claims v
    assume tx: "sync_transaction lc fresh d x claims = Inr (d', v)"
    have parts: "identities_ok d" "groups_ok d" "grants_placed d" using ok by (simp_all add: sso_ok_def)
    have "d'\<lparr>t_memberships := t_memberships d, t_group_grants := t_group_grants d,
        t_role_grants := t_role_grants d, t_identities := t_identities d\<rparr> = d"
      by (rule sync_transaction_tables [OF tx])
    note untouched_tables [OF this]
    with ok sync_keeps_ok(1-3) [OF parts tx] run show ?thesis
      by (simp add: sso_ok_def providers_ok_def mappings_unique_def)
  qed (use run ok in \<open>simp_all add: record_failure_ok\<close>)
qed

lemma sso_step_ok:
  assumes "sso_ok d" and "\<forall>s. encrypt s \<noteq> []" and "parsed op"
  shows "sso_ok (sso_step lc slugify url encrypt fresh d op)"
  using assms
  by (cases op) (auto simp: remove_provider_def remove_group_mapping_def remove_role_mapping_def rbind_eq_Inr
      synchronize_ok delete_provider_ok cascade_group_mappings_ok cascade_role_mappings_ok
      split: sum.split prod.split dest!: find_SomeD
      dest: create_provider_ok update_provider_ok create_group_mapping_ok create_role_mapping_ok)

text \<open>
  C21: Whatever providers and mappings are created, changed and removed and whichever identities are
  synchronised in between, the tables stay consistent: names, slugs, issuer with client id, external
  groups, external values and priorities are unique where the schema says so, no grant, mapping or
  identity refers to a row that is gone, every external grant lies on a membership of its own user in
  its own group, and a provider has a stored secret exactly if its client is confidential.
\<close>

theorem sso_requests_keep_ok:
  assumes "sso_ok d" and "\<forall>s. encrypt s \<noteq> []" and "\<forall>op \<in> set ops. parsed op"
  shows "sso_ok (foldl (sso_step lc slugify url encrypt fresh) d ops)"
  using assms
proof (induction ops arbitrary: d)
  case (Cons op ops)
  then show ?case using sso_step_ok by simp
qed simp

lemma sample_sso_admin_ok: "sso_ok sample_sso"
  by (auto simp: sample_sso_def sample_defs sample_sso_defs sso_ok_def identities_ok_def groups_ok_def
      providers_ok_def mappings_unique_def grants_placed_def secret_fits_def)

theorem sso_requests_keep_ok_witness:
  "sso_ok (foldl (sso_step code_point_compare (\<lambda>s. s) (\<lambda>s. s) (\<lambda>s. ''enc'' @ s) (\<lambda>i. i)) sample_sso
     [Sync_Identity ''x'' sample_claims, Remove_Group_Mapping ''idp'' ''gm'', Remove_Provider ''idp'' True])"
  by (rule sso_requests_keep_ok [OF sample_sso_admin_ok]) simp_all

lemma safe_jit_role:
  assumes "assert_jit_configuration d True role = Inr ()"
  shows "\<exists>r \<in> set (t_roles d). role = Some (r_id r) \<and> to_lower (r_name r) \<noteq> ''admin'' \<and>
    (\<forall>a \<in> set (t_acls d). a_role a = r_id r \<and> a_allowed a \<longrightarrow> a_resource a \<notin> set JIT_FORBIDDEN_ROLE_RESOURCES)"
  using assms
  by (auto simp: assert_jit_configuration_def is_safe_jit_default_role_def find_role_def
      split: option.splits dest!: find_SomeD)

lemma provider_stored:
  assumes "create_provider slugify url encrypt d i inp = Inr (d', v) \<or> update_provider url encrypt d i c = Inr (d', v)"
  obtains p where "p \<in> set (t_providers d')" and "ip_id p = i" and "v = to_admin_provider d' p"
    and "assert_jit_configuration d (ip_active p \<and> ip_allow_jit p) (ip_default_role p) = Inr ()"
proof (cases "create_provider slugify url encrypt d i inp = Inr (d', v)")
  case True
  then obtain slug where "d' = d\<lparr>t_providers := t_providers d @ [new_provider url encrypt i slug inp]\<rparr>"
    "v = to_admin_provider d' (new_provider url encrypt i slug inp)"
    "assert_jit_configuration d (pi_active inp \<and> pi_allow_jit inp) (pi_default_role inp) = Inr ()"
    by (auto simp: create_provider_def rbind_eq_Inr Let_def)
  then show ?thesis by (intro that [of "new_provider url encrypt i slug inp"]) (simp_all add: new_provider_def)
next
  case False
  with assms have run: "update_provider url encrypt d i c = Inr (d', v)" by simp
  then obtain current where cur: "find_provider d i = Some current"
    and jit: "assert_jit_configuration d
         (given (pu_active c) (ip_active current) \<and> given (pu_allow_jit c) (ip_allow_jit current))
         (given (pu_default_role c) (ip_default_role current)) = Inr ()"
    and d': "d' = d\<lparr>t_providers := update_where (\<lambda>q. ip_id q = i) (\<lambda>_. changed_provider url encrypt c current) (t_providers d)\<rparr>"
    and v: "v = to_admin_provider d' (changed_provider url encrypt c current)"
    by (auto simp: update_provider_def get_provider_def rbind_eq_Inr Let_def)
  have row: "current \<in> set (t_providers d)" "ip_id current = i"
    using find_SomeD [OF cur [unfolded find_provider_def]] by simp_all
  have "changed_provider url encrypt c current \<in> set (t_providers d')"
    unfolding d' using row by (auto simp: update_where_def)
  with v jit row(2) show ?thesis
    by (intro that [of "changed_provider url encrypt c current"]) (simp_all add: changed_provider_def)
qed

text \<open>
  After a provider has been created or changed successfully, it is stored as answered, and if it
  is active and may create accounts on first login, then its default role exists, is not called admin
  in any spelling and grants nothing on the resources the policy forbids.
\<close>

theorem jit_configuration_safe:
  assumes run: "create_provider slugify url encrypt d i inp = Inr (d', v) \<or> update_provider url encrypt d i c = Inr (d', v)"
  shows "\<exists>p \<in> set (t_providers d'). ip_id p = i \<and> v = to_admin_provider d' p \<and>
    (ip_active p \<and> ip_allow_jit p \<longrightarrow> (\<exists>r \<in> set (t_roles d). ip_default_role p = Some (r_id r) \<and>
      to_lower (r_name r) \<noteq> ''admin'' \<and>
      (\<forall>a \<in> set (t_acls d). a_role a = r_id r \<and> a_allowed a \<longrightarrow>
         a_resource a \<notin> set JIT_FORBIDDEN_ROLE_RESOURCES)))"
proof -
  obtain p where p: "p \<in> set (t_providers d')" "ip_id p = i" "v = to_admin_provider d' p"
    "assert_jit_configuration d (ip_active p \<and> ip_allow_jit p) (ip_default_role p) = Inr ()"
    using provider_stored [OF run] .
  from p(4) safe_jit_role [of d "ip_default_role p"]
  have "ip_active p \<and> ip_allow_jit p \<longrightarrow> (\<exists>r \<in> set (t_roles d). ip_default_role p = Some (r_id r) \<and>
      to_lower (r_name r) \<noteq> ''admin'' \<and>
      (\<forall>a \<in> set (t_acls d). a_role a = r_id r \<and> a_allowed a \<longrightarrow>
         a_resource a \<notin> set JIT_FORBIDDEN_ROLE_RESOURCES))"
    by auto
  with p(1-3) show ?thesis by blast
qed

definition sample_change :: provider_change where
  "sample_change =
     \<lparr>pu_name = None, pu_type = None, pu_issuer = None, pu_discovery_url = None, pu_client_id = None,
      pu_auth_method = None, pu_secret = None, pu_clear_secret = False, pu_scopes = None, pu_claim_mapping = None,
      pu_active = None, pu_display_order = None, pu_allow_jit = Some True, pu_default_role = Some (Some ''rd''),
      pu_sync_mode = None, pu_group_claim = None, pu_role_claim = None, pu_allow_admin_mapping = None,
      pu_max_session_age = None, pu_entra_fallback = None, pu_entra_mode = None, pu_entra_cache_ttl = None,
      pu_confirm_last = False\<rparr>"

lemma sample_change_accepted:
  "\<exists>d' v. update_provider (\<lambda>s. s) (\<lambda>s. s) sample_sso ''idp'' sample_change = Inr (d', v) \<and>
     (\<forall>p \<in> set (t_providers d'). ip_active p \<and> ip_allow_jit p)"
  by (simp add: update_provider_def get_provider_def find_defs sample_sso_def sample_defs sample_sso_defs
      sample_change_def assert_jit_configuration_def is_safe_jit_default_role_def given_def truthy_def
      provider_fits_def delete_where_def update_where_def changed_provider_def next_secret_def Let_def
      to_lower_def lower_char_def JIT_FORBIDDEN_ROLE_RESOURCES_def)

theorem jit_configuration_safe_witness:
  "\<exists>d' v. update_provider (\<lambda>s. s) (\<lambda>s. s) sample_sso ''idp'' sample_change = Inr (d', v) \<and>
     (\<exists>p \<in> set (t_providers d'). ip_active p \<and> ip_allow_jit p \<and> (\<exists>r \<in> set (t_roles sample_sso).
        ip_default_role p = Some (r_id r)))"
proof -
  obtain d' v where run: "update_provider (\<lambda>s. s) (\<lambda>s. s) sample_sso ''idp'' sample_change = Inr (d', v)"
    and active: "\<forall>p \<in> set (t_providers d'). ip_active p \<and> ip_allow_jit p"
    using sample_change_accepted by blast
  from jit_configuration_safe [OF disjI2 [OF run]] active run show ?thesis by blast
qed

text \<open>Without an explicit confirmation the last active provider stays.\<close>

lemma another_active:
  assumes "distinct rows" and "r \<in> set rows" and "p r" and "count_where p rows \<noteq> 1"
  shows "\<exists>q \<in> set rows. q \<noteq> r \<and> p q"
proof (rule ccontr)
  assume "\<not> ?thesis"
  with assms(2,3) have "set (filter p rows) = {r}" by auto
  with assms(1) have "length (filter p rows) = 1" using distinct_card [of "filter p rows"] by simp
  with assms(4) show False by (simp add: count_where_def)
qed

lemma last_active_provider_stays:
  assumes ids: "distinct (map ip_id (t_providers d))" and some: "0 < active_provider_count d"
    and run: "(\<exists>v. update_provider url encrypt d i c = Inr (d', v) \<and> \<not> pu_confirm_last c) \<or>
      (\<exists>w. remove_provider d i False = Inr (d', w))"
  shows "0 < active_provider_count d'"
proof -
  obtain current where cur: "find_provider d i = Some current"
    and last: "ip_active current \<and> active_provider_count d = 1 \<longrightarrow> (\<exists>p \<in> set (t_providers d'). ip_active p)"
    and others: "\<forall>q \<in> set (t_providers d). ip_id q \<noteq> i \<longrightarrow> q \<in> set (t_providers d')"
    using run
  proof (elim disjE exE conjE)
    fix v assume "update_provider url encrypt d i c = Inr (d', v)" and "\<not> pu_confirm_last c"
    then obtain current where cur: "find_provider d i = Some current"
      and guard: "\<not> (ip_active current \<and> pu_active c = Some False \<and> active_provider_count d = 1)"
      and d': "d' = d\<lparr>t_providers := update_where (\<lambda>q. ip_id q = i) (\<lambda>_. changed_provider url encrypt c current) (t_providers d)\<rparr>"
      by (auto simp: update_provider_def get_provider_def rbind_eq_Inr Let_def)
    have row: "current \<in> set (t_providers d)" "ip_id current = i"
      using find_SomeD [OF cur [unfolded find_provider_def]] by simp_all
    have "changed_provider url encrypt c current \<in> set (t_providers d')"
      unfolding d' using row by (auto simp: update_where_def)
    moreover have "ip_active (changed_provider url encrypt c current)" if "ip_active current" "active_provider_count d = 1"
      using guard that by (auto simp: changed_provider_def given_def split: option.split)
    moreover have "\<forall>q \<in> set (t_providers d). ip_id q \<noteq> i \<longrightarrow> q \<in> set (t_providers d')"
      unfolding d' by (auto simp: update_where_def)
    ultimately show thesis using that cur by blast
  next
    fix w assume "remove_provider d i False = Inr (d', w)"
    then obtain current where "find_provider d i = Some current" "\<not> (ip_active current \<and> active_provider_count d = 1)"
      "d' = delete_provider i d"
      by (auto simp: remove_provider_def get_provider_def rbind_eq_Inr)
    moreover have "t_providers (delete_provider i d) = delete_where (\<lambda>p. ip_id p = i) (t_providers d)"
      by (simp add: delete_provider_def cascade_role_mappings_def cascade_group_mappings_def cascade_identities_def Let_def)
    ultimately show thesis using that [of current] by (auto simp: row_simps)
  qed
  have row: "current \<in> set (t_providers d)" "ip_id current = i"
    using find_SomeD [OF cur [unfolded find_provider_def]] by simp_all
  obtain q where q: "q \<in> set (t_providers d)" "ip_active q"
    using some by (auto simp: active_provider_count_def row_simps)
  have "\<exists>p \<in> set (t_providers d'). ip_active p"
  proof (cases "ip_active current \<and> active_provider_count d = 1")
    case True
    with last show ?thesis by blast
  next
    case False
    have "\<exists>q \<in> set (t_providers d). q \<noteq> current \<and> ip_active q"
    proof (cases "ip_active current")
      case True
      have "distinct (t_providers d)" using ids by (simp add: distinct_map)
      with another_active [of "t_providers d" current ip_active] True False row show ?thesis
        by (auto simp: active_provider_count_def)
    next
      case False
      with q show ?thesis by (intro bexI [of _ q]) auto
    qed
    then obtain q where "q \<in> set (t_providers d)" "q \<noteq> current" "ip_active q" by blast
    moreover from this have "ip_id q \<noteq> i" using unique_key_eq [OF ids _ row(1)] row(2) by auto
    ultimately show ?thesis using others by blast
  qed
  then show ?thesis by (auto simp: active_provider_count_def row_simps)
qed

end
