(* ===== verification/Deprovisioning.thy ===== *)
theory Deprovisioning
  imports Identity_Admin Sessions Group_Admin Access
begin

text \<open>
  What becomes of the access an identity provider gave when the provider is switched off or removed.
  Switching it off makes every refresh of its sessions fail. Removing it deletes its identities and
  their grants, and the foreign keys of sessions and memberships do the rest: the sessions turn into
  local ones that no deadline ends, and memberships that only the provider had granted stay.
\<close>

lemma delete_provider_sessions:
  "t_sessions (delete_provider i d) =
     update_where (\<lambda>s. \<exists>x \<in> xi_id ` {x \<in> set (t_identities d). xi_provider x = i}. ses_identity s = Some x)
       (\<lambda>s. s\<lparr>ses_identity := None\<rparr>) (t_sessions d)"
  by (simp add: delete_provider_def cascade_role_mappings_def cascade_group_mappings_def cascade_identities_def Let_def)

lemma delete_provider_kept:
  "t_users (delete_provider i d) = t_users d" "t_memberships (delete_provider i d) = t_memberships d"
  by (simp_all add: delete_provider_def cascade_role_mappings_def cascade_group_mappings_def cascade_identities_def Let_def)

lemma remove_provider_Inr:
  "remove_provider d i confirm = Inr (d', w) \<Longrightarrow> d' = delete_provider i d"
  by (auto simp: remove_provider_def rbind_eq_Inr)

lemma remove_provider_step:
  assumes "remove_provider d i confirm = Inr (d', w)"
  shows "auth_step lc fresh cr (d, fl) (d', fl)"
  unfolding remove_provider_Inr [OF assms] by (rule step_detach) (rule delete_provider_sessions)

lemma deactivated_provider:
  assumes ids: "distinct (map ip_id (t_providers d))"
    and run: "update_provider url encrypt d i c = Inr (d', v)" and off: "pu_active c = Some False"
  obtains p where "find_provider d' i = Some p" and "\<not> ip_active p" and "t_identities d' = t_identities d"
    and "t_sessions d' = t_sessions d"
proof -
  obtain current where cur: "find_provider d i = Some current"
    and d': "d' = d\<lparr>t_providers := update_where (\<lambda>q. ip_id q = i) (\<lambda>_. changed_provider url encrypt c current) (t_providers d)\<rparr>"
    using run by (auto simp: update_provider_def get_provider_def rbind_eq_Inr Let_def)
  have row: "current \<in> set (t_providers d)" "ip_id current = i"
    using find_SomeD [OF cur [unfolded find_provider_def]] by simp_all
  have "map ip_id (t_providers d') = map ip_id (t_providers d)"
    by (simp add: d' map_update_where row(2) changed_provider_def)
  moreover have "changed_provider url encrypt c current \<in> set (t_providers d')"
    unfolding d' using row by (auto simp: update_where_def)
  ultimately have "find_provider d' i = Some (changed_provider url encrypt c current)"
    unfolding find_provider_def using ids row(2) by (simp add: find_key_iff changed_provider_def)
  moreover have "\<not> ip_active (changed_provider url encrypt c current)"
    using off by (simp add: changed_provider_def given_def)
  moreover have "t_identities d' = t_identities d" "t_sessions d' = t_sessions d" by (simp_all add: d')
  ultimately show ?thesis using that by blast
qed

text \<open>
  A session of an external identity whose provider is deactivated cannot be refreshed any more.
  If the provider is removed instead, the same session passes the checks of a refresh from then on
  as a local one: neither the removal nor a recheck deadline that has passed stops it.
\<close>

theorem provider_removal_frees_sessions:
  assumes ok: "sessions_ok d" "identities_ok d"
    and s: "s \<in> set (t_sessions d)" "ses_identity s = Some (xi_id x)" "x \<in> set (t_identities d)"
    and live: "ses_rotated s = None" "ses_revoked s = None" "user_active d (ses_user s)"
    and off: "update_provider url encrypt d (xi_provider x) c = Inr (d_off, v)" "pu_active c = Some False"
    and removed: "remove_provider d (xi_provider x) confirm = Inr (d_gone, w)"
    and token: "jp_user p = ses_user s" "jp_token_id p = Some (ses_id s)" "now \<le> ses_expires s"
  shows "refresh_read d_off p (ses_token_hash s) now = Read_Invalid \<and>
    refresh_read d_gone p (ses_token_hash s) now = Read_Usable (s\<lparr>ses_identity := None\<rparr>)"
proof
  have ids: "distinct (map ip_id (t_providers d))" "distinct (map xi_id (t_identities d))"
    using ok(2) by (simp_all add: identities_ok_def)
  obtain q where q: "find_provider d_off (xi_provider x) = Some q" "\<not> ip_active q"
    "t_identities d_off = t_identities d" "t_sessions d_off = t_sessions d"
    using deactivated_provider [OF ids(1) off] .
  have "sessions_ok d_off" using ok(1) q(4) by (simp add: sessions_ok_def)
  then have "find_session_by_hash d_off (ses_token_hash s) = Some s" using s(1) q(4) by (simp add: find_session_iff)
  moreover have "find_identity d_off (xi_id x) = Some x"
    unfolding find_identity_def q(3) using ids(2) s(3) by (simp add: find_key_iff)
  ultimately show "refresh_read d_off p (ses_token_hash s) now = Read_Invalid"
    using q(1,2) s(2) by (simp add: refresh_read_def session_bound_def external_current_def session_provider_def)
next
  let ?s = "s\<lparr>ses_identity := None\<rparr>"
  note d_gone = remove_provider_Inr [OF removed]
  have freed: "?s \<in> set (t_sessions d_gone)"
    unfolding d_gone delete_provider_sessions set_update_where
    by (rule image_eqI [OF _ s(1)]) (use s in auto)
  have "distinct (map ses_token_hash (t_sessions d_gone))"
    using ok(1) by (simp add: d_gone delete_provider_sessions map_update_where sessions_ok_def)
  with freed have "find_session_by_hash d_gone (ses_token_hash s) = Some ?s"
    by (simp add: find_session_by_hash_def find_key_iff)
  moreover have "user_active d_gone (ses_user s)"
    using live(3) by (simp add: user_active_def find_user_def d_gone delete_provider_kept)
  ultimately show "refresh_read d_gone p (ses_token_hash s) now = Read_Usable ?s"
    using live(1,2) token by (simp add: refresh_read_def session_bound_def)
qed

definition sample_linked :: db where
  "sample_linked = sample_sso
     \<lparr>t_sessions := [sample_session\<lparr>ses_identity := Some ''x'', ses_recheck := Some 10\<rparr>],
      t_memberships := [\<lparr>m_id = ''m'', m_group = ''gr'', m_user = ''ada'', m_role = MEMBER, m_local_grant = False\<rparr>],
      t_group_grants := [\<lparr>gg_membership = ''m'', gg_identity = ''x'', gg_mapping = ''gm''\<rparr>]\<rparr>"

lemmas sample_linked_defs = sample_linked_def sample_sso_def sample_defs sample_sso_defs sample_session_def

definition switch_off :: provider_change where
  "switch_off = sample_change\<lparr>pu_allow_jit := None, pu_default_role := None, pu_active := Some False, pu_confirm_last := True\<rparr>"

lemma sample_linked_ok: "sessions_ok sample_linked" "identities_ok sample_linked" "groups_ok sample_linked"
  by (simp_all add: sample_linked_defs sessions_ok_def single_live_def rotated_revoked_def identities_ok_def groups_ok_def)

lemma sample_linked_off:
  "\<exists>d' v. update_provider (\<lambda>s. s) (\<lambda>s. s) sample_linked ''idp'' switch_off = Inr (d', v)"
  by (simp add: update_provider_def get_provider_def find_defs sample_linked_defs switch_off_def
      sample_change_def assert_jit_configuration_def given_def truthy_def
      provider_fits_def delete_where_def update_where_def changed_provider_def next_secret_def Let_def)

lemma sample_linked_removed: "\<exists>d' w. remove_provider sample_linked ''idp'' True = Inr (d', w)"
  by (simp add: remove_provider_def get_provider_def find_defs sample_linked_defs)

theorem provider_removal_frees_sessions_witness:
  "\<exists>d_off v d_gone w s. update_provider (\<lambda>s. s) (\<lambda>s. s) sample_linked ''idp'' switch_off = Inr (d_off, v) \<and>
     remove_provider sample_linked ''idp'' True = Inr (d_gone, w) \<and>
     refresh_read d_off (the (cr_verify sample_crypto ''ada/s1'')) ''ada/s1'' 50 = Read_Invalid \<and>
     refresh_read d_gone (the (cr_verify sample_crypto ''ada/s1'')) ''ada/s1'' 50 = Read_Usable s"
proof -
  obtain d_off v where off: "update_provider (\<lambda>s. s) (\<lambda>s. s) sample_linked ''idp'' switch_off = Inr (d_off, v)"
    using sample_linked_off by blast
  obtain d_gone w where gone: "remove_provider sample_linked ''idp'' True = Inr (d_gone, w)"
    using sample_linked_removed by blast
  let ?s = "sample_session\<lparr>ses_identity := Some ''x'', ses_recheck := Some 10\<rparr>"
  have "refresh_read d_off (the (cr_verify sample_crypto ''ada/s1'')) (ses_token_hash ?s) 50 = Read_Invalid \<and>
    refresh_read d_gone (the (cr_verify sample_crypto ''ada/s1'')) (ses_token_hash ?s) 50 =
      Read_Usable (?s\<lparr>ses_identity := None\<rparr>)"
    by (rule provider_removal_frees_sessions [OF sample_linked_ok(1,2), where x = sample_identity and c = switch_off
          and url = "\<lambda>s. s" and encrypt = "\<lambda>s. s" and v = v and confirm = True and w = w])
      (use off gone in \<open>simp_all add: sample_linked_defs switch_off_def user_active_def find_user_def sample_crypto_def\<close>)
  with off gone show ?thesis by (auto simp: sample_session_def)
qed

text \<open>
  A membership that only identities of one provider back survives the removal of that provider
  with no grant left behind it: the user stays in the group, no synchronisation can take the
  membership away any more, and nobody can remove it as a member, because it is not a local one.
\<close>

theorem provider_removal_leaves_members:
  assumes ok: "groups_ok d"
    and m: "m \<in> set (t_memberships d)" "\<not> m_local_grant m"
    and only: "\<forall>g \<in> set (t_group_grants d). gg_membership g = m_id m \<longrightarrow>
      (\<exists>x \<in> set (t_identities d). xi_id x = gg_identity g \<and> xi_provider x = i)"
    and removed: "remove_provider d i confirm = Inr (d', w)"
  shows "m_group m \<in> set (group_ids d' (m_user m)) \<and>
    (\<forall>g \<in> set (t_group_grants d'). gg_membership g \<noteq> m_id m) \<and>
    (\<forall>actor. \<exists>e. remove_member d' (m_group m) (m_user m) actor = Inl e)"
proof (intro conjI allI)
  note d' = remove_provider_Inr [OF removed]
  have mem: "m \<in> set (t_memberships d')" using m(1) by (simp add: d' delete_provider_kept)
  then show "m_group m \<in> set (group_ids d' (m_user m))" by (simp add: group_ids_def)
  show "\<forall>g \<in> set (t_group_grants d'). gg_membership g \<noteq> m_id m"
    using only by (auto simp: d' delete_provider_def cascade_role_mappings_def cascade_group_mappings_def
        cascade_identities_def Let_def row_simps image_iff) metis
  have unique: "n = m" if "find_membership d' (m_group m) (m_user m) = Some n" for n
  proof (rule unique_key_eq [of "\<lambda>m. (m_group m, m_user m)" "t_memberships d'"])
    show "distinct (map (\<lambda>m. (m_group m, m_user m)) (t_memberships d'))"
      using ok by (simp add: d' delete_provider_kept groups_ok_def)
    show "n \<in> set (t_memberships d')" "(m_group n, m_user n) = (m_group m, m_user m)"
      using find_membership_SomeD [OF that] by simp_all
  qed (rule mem)
  fix actor
  show "\<exists>e. remove_member d' (m_group m) (m_user m) actor = Inl e"
  proof (cases "remove_member d' (m_group m) (m_user m) actor")
    case (Inr d'')
    with unique m(2) have False by (auto simp: remove_member_def rbind_eq_Inr)
    then show ?thesis ..
  qed simp
qed

theorem provider_removal_leaves_members_witness:
  "\<exists>d' w. remove_provider sample_linked ''idp'' True = Inr (d', w) \<and> ''gr'' \<in> set (group_ids d' ''ada'') \<and>
     (\<forall>g \<in> set (t_group_grants d'). gg_membership g \<noteq> ''m'')"
proof -
  obtain d' w where gone: "remove_provider sample_linked ''idp'' True = Inr (d', w)"
    using sample_linked_removed by blast
  let ?m = "\<lparr>m_id = ''m'', m_group = ''gr'', m_user = ''ada'', m_role = MEMBER, m_local_grant = False\<rparr>"
  have "m_group ?m \<in> set (group_ids d' (m_user ?m)) \<and>
      (\<forall>g \<in> set (t_group_grants d'). gg_membership g \<noteq> m_id ?m) \<and>
      (\<forall>actor. \<exists>e. remove_member d' (m_group ?m) (m_user ?m) actor = Inl e)"
    by (rule provider_removal_leaves_members [OF sample_linked_ok(3) _ _ _ gone]) (simp_all add: sample_linked_defs)
  with gone show ?thesis by simp
qed

end
