(* ===== verification/Api_Keys.thy ===== *)
theory Api_Keys
  imports Sessions
begin

text \<open>
  \<^verbatim>\<open>apps/api/src/modules/api-keys/api-keys.service.ts\<close> with its two guards: keys for scripts, which
  stand for a user but may be confined to a list of permissions. Only hashes are stored. The JSON of
  the permission column is parsed on every use; what does not parse allows nothing.
\<close>

section \<open>The permission column\<close>

text \<open>\<open>ApiKeyPermissionSchema\<close>: an object with a resource and an action of the catalogue.\<close>

fun parse_key_permission :: "json \<Rightarrow> (resource \<times> action) option" where
  "parse_key_permission (JObject m) =
     (case (map_of m ''resource'', map_of m ''action'') of
        (Some (JString r), Some (JString a)) \<Rightarrow>
          (case (parse_resource r, parse_action a) of
             (Some r, Some a) \<Rightarrow> if is_permission_supported r a then Some (r, a) else None
           | _ \<Rightarrow> None)
      | _ \<Rightarrow> None)"
| "parse_key_permission _ = None"

fun parse_all :: "('a \<Rightarrow> 'b option) \<Rightarrow> 'a list \<Rightarrow> 'b list option" where
  "parse_all f [] = Some []"
| "parse_all f (x # xs) = (case (f x, parse_all f xs) of (Some y, Some ys) \<Rightarrow> Some (y # ys) | _ \<Rightarrow> None)"

text \<open>Both the SQL and the JSON null mean no restriction.\<close>

fun parse_permissions :: "json option \<Rightarrow> (resource \<times> action) list option" where
  "parse_permissions None = None"
| "parse_permissions (Some JNull) = None"
| "parse_permissions (Some (JArray vs)) =
     (case parse_all parse_key_permission vs of Some ps \<Rightarrow> Some ps | None \<Rightarrow> Some [])"
| "parse_permissions (Some _) = Some []"

definition permission_json :: "resource \<times> action \<Rightarrow> json" where
  "permission_json p =
     JObject [(''resource'', JString (resource_name (fst p))), (''action'', JString (action_name (snd p)))]"

definition permissions_for_create :: "(resource \<times> action) list option \<Rightarrow> json option" where
  "permissions_for_create ps = map_option (\<lambda>ps. JArray (map permission_json ps)) ps"

section \<open>Keys\<close>

definition KEY_PREFIX :: string where
  "KEY_PREFIX = ''ad_wiki_''"

definition base64url_char :: "char \<Rightarrow> bool" where
  "base64url_char c \<longleftrightarrow>
     (let n = of_char c :: nat in
      65 \<le> n \<and> n \<le> 90 \<or> 97 \<le> n \<and> n \<le> 122 \<or> 48 \<le> n \<and> n \<le> 57 \<or> c = CHR ''_'' \<or> c = CHR ''-'')"

definition key_pattern :: "string \<Rightarrow> bool" where
  "key_pattern s \<longleftrightarrow> starts_with KEY_PREFIX s \<and> length s = 56 \<and> list_all base64url_char (drop 8 s)"

datatype key_status = Key_Active | Key_Inactive | Key_Expired

record api_key_view =
  kv_id :: ident
  kv_name :: string
  kv_permissions :: "(resource \<times> action) list option"
  kv_last_used :: "time option"
  kv_expires :: "time option"
  kv_active :: bool
  kv_status :: key_status

definition key_expired :: "api_key_row \<Rightarrow> time \<Rightarrow> bool" where
  "key_expired k now \<longleftrightarrow> (case ak_expires k of Some t \<Rightarrow> t \<le> now | None \<Rightarrow> False)"

definition to_key_view :: "api_key_row \<Rightarrow> time \<Rightarrow> api_key_view" where
  "to_key_view k now =
     \<lparr>kv_id = ak_id k, kv_name = ak_name k, kv_permissions = parse_permissions (ak_permissions k),
      kv_last_used = ak_last_used k, kv_expires = ak_expires k, kv_active = ak_active k,
      kv_status = (if \<not> ak_active k then Key_Inactive else if key_expired k now then Key_Expired else Key_Active)\<rparr>"

text \<open>Keys are listed newest first; rows are appended when they are created.\<close>

definition list_keys :: "db \<Rightarrow> ident \<Rightarrow> time \<Rightarrow> api_key_view list" where
  "list_keys d uid now = map (\<lambda>k. to_key_view k now) (rev (filter (\<lambda>k. ak_user k = uid) (t_api_keys d)))"

definition list_all_keys :: "db \<Rightarrow> time \<Rightarrow> (api_key_view \<times> user_row option) list" where
  "list_all_keys d now = map (\<lambda>k. (to_key_view k now, find_user d (ak_user k))) (rev (t_api_keys d))"

text \<open>\<open>bhash\<close> is bcrypt with its salt; the secret is 36 random bytes in base64url.\<close>

definition create_key ::
    "crypto \<Rightarrow> (string \<Rightarrow> string) \<Rightarrow> db \<Rightarrow> ident \<Rightarrow> ident \<Rightarrow> string \<Rightarrow> time option \<Rightarrow>
     (resource \<times> action) list option \<Rightarrow> string \<Rightarrow> time \<Rightarrow> (db \<times> api_key_view \<times> string) result" where
  "create_key cr bhash d new_id uid name expires permissions secret now =
     rbind (rguard (\<not> (case expires of Some t \<Rightarrow> t \<le> now | None \<Rightarrow> False)) (BadRequest ''expiry'')) (\<lambda>_.
     let key = KEY_PREFIX @ secret;
         row = \<lparr>ak_id = new_id, ak_name = name, ak_key = cr_hash cr key, ak_key_hash = bhash key,
                ak_permissions = permissions_for_create permissions, ak_last_used = None, ak_expires = expires,
                ak_active = True, ak_user = uid\<rparr>
     in rbind (rguard (new_id \<notin> ak_id ` set (t_api_keys d)) (Internal ''P2002'')) (\<lambda>_.
        rbind (rguard (find_user d uid \<noteq> None) (Internal ''P2003'')) (\<lambda>_.
        rbind (insert_row ak_key (Internal ''P2002'') row (t_api_keys d)) (\<lambda>rows.
        Inr (d\<lparr>t_api_keys := rows\<rparr>, to_key_view row now, key)))))"

definition deactivate_key :: "db \<Rightarrow> ident \<Rightarrow> ident \<Rightarrow> time \<Rightarrow> (db \<times> api_key_view) result" where
  "deactivate_key d uid i now =
     rbind (or_throw (NotFound ''api key'')
       (List.find (\<lambda>k. ak_id k = i \<and> ak_user k = uid) (t_api_keys d))) (\<lambda>k.
     Inr (d\<lparr>t_api_keys := update_where (\<lambda>k. ak_id k = i) (\<lambda>k. k\<lparr>ak_active := False\<rparr>) (t_api_keys d)\<rparr>,
          to_key_view (k\<lparr>ak_active := False\<rparr>) now))"

definition key_user :: "api_key_row \<Rightarrow> user_row \<Rightarrow> role_row \<Rightarrow> auth_user" where
  "key_user k u r =
     \<lparr>au_id = u_id u, au_email = u_email u, au_username = u_username u, au_display_name = u_display_name u,
      au_role_id = r_id r, au_role = r_name r, au_active = u_active u, au_local_password = False,
      au_protected = False, au_method = Some Api_Key, au_api_key = Some (ak_id k),
      au_key_permissions = parse_permissions (ak_permissions k)\<rparr>"

definition verify_key :: "crypto \<Rightarrow> db \<Rightarrow> string \<Rightarrow> time \<Rightarrow> db \<times> auth_user option" where
  "verify_key cr d raw now =
     (if \<not> key_pattern raw then (d, None)
      else case List.find (\<lambda>k. ak_key k = cr_hash cr raw) (t_api_keys d) of
        None \<Rightarrow> (d, None)
      | Some k \<Rightarrow>
          (case find_user d (ak_user k) of
             None \<Rightarrow> (d, None)
           | Some u \<Rightarrow>
               (case find_role d (u_role u) of
                  None \<Rightarrow> (d, None)
                | Some r \<Rightarrow>
                    if \<not> ak_active k \<or> key_expired k now \<or> \<not> u_active u \<or> \<not> cr_compare cr raw (ak_key_hash k)
                    then (d, None)
                    else (d\<lparr>t_api_keys := update_where (\<lambda>x. ak_id x = ak_id k)
                              (\<lambda>x. x\<lparr>ak_last_used := Some now\<rparr>) (t_api_keys d)\<rparr>,
                          Some (key_user k u r)))))"

section \<open>The guards\<close>

definition api_key_guard :: "crypto \<Rightarrow> db \<Rightarrow> string option \<Rightarrow> time \<Rightarrow> auth_user outcome" where
  "api_key_guard cr d header now =
     (case map_option trim header of
        None \<Rightarrow> (d, Inl (Unauthorized ''api key required''))
      | Some raw \<Rightarrow>
          if raw = [] then (d, Inl (Unauthorized ''api key required''))
          else case verify_key cr d raw now of
            (d', None) \<Rightarrow> (d', Inl (Unauthorized ''api key''))
          | (d', Some u) \<Rightarrow> (d', Inr u))"

text \<open>The JWT strategy; \<open>bearer\<close> is \<^verbatim>\<open>passport-jwt\<close>'s extraction of the token from the header.\<close>

definition jwt_guard ::
    "(string \<Rightarrow> string \<Rightarrow> int) \<Rightarrow> crypto \<Rightarrow> (string \<Rightarrow> string option) \<Rightarrow> db \<Rightarrow> string \<Rightarrow> auth_user result" where
  "jwt_guard lc cr bearer d header =
     or_throw (Unauthorized ''jwt'') (Option.bind (bearer header) (verify_access_token lc cr d))"

text \<open>A request with an API key header is never tried as a JWT.\<close>

definition jwt_or_api_key_guard ::
    "(string \<Rightarrow> string \<Rightarrow> int) \<Rightarrow> crypto \<Rightarrow> (string \<Rightarrow> string option) \<Rightarrow> db \<Rightarrow> string option \<Rightarrow> string option \<Rightarrow> time \<Rightarrow>
     auth_user outcome" where
  "jwt_or_api_key_guard lc cr bearer d key_header authorization now =
     (case key_header of
        Some k \<Rightarrow> api_key_guard cr d (Some k) now
      | None \<Rightarrow>
          (case authorization of
             None \<Rightarrow> (d, Inl (Unauthorized ''jwt or api key''))
           | Some h \<Rightarrow>
               if starts_with ''Bearer '' h then (d, jwt_guard lc cr bearer d h)
               else (d, Inl (Unauthorized ''jwt or api key''))))"

section \<open>Reading back what was stored\<close>

lemma parse_all_map:
  "(\<And>x. x \<in> set xs \<Longrightarrow> f (g x) = Some x) \<Longrightarrow> parse_all f (map g xs) = Some xs"
  by (induction xs) auto

lemma parse_permission_json:
  "is_permission_supported r a \<Longrightarrow> parse_key_permission (permission_json (r, a)) = Some (r, a)"
  by (simp add: permission_json_def parse_resource_name parse_action_name)

lemma permissions_read_back:
  assumes "\<forall>ps. permissions = Some ps \<longrightarrow> (\<forall>(r, a) \<in> set ps. is_permission_supported r a)"
  shows "parse_permissions (permissions_for_create permissions) = permissions"
proof (cases permissions)
  case (Some ps)
  have "parse_all parse_key_permission (map permission_json ps) = Some ps"
    by (rule parse_all_map) (use assms Some parse_permission_json in auto)
  with Some show ?thesis by (simp add: permissions_for_create_def)
qed (simp add: permissions_for_create_def)

lemma verify_key_Some:
  assumes "verify_key cr d raw now = (d', Some u)"
  obtains k w r where "key_pattern raw" and "List.find (\<lambda>k. ak_key k = cr_hash cr raw) (t_api_keys d) = Some k"
    and "find_user d (ak_user k) = Some w" and "find_role d (u_role w) = Some r"
    and "ak_active k" and "\<not> key_expired k now" and "u_active w" and "cr_compare cr raw (ak_key_hash k)"
    and "u = key_user k w r"
    and "d' = d\<lparr>t_api_keys := update_where (\<lambda>x. ak_id x = ak_id k) (\<lambda>x. x\<lparr>ak_last_used := Some now\<rparr>) (t_api_keys d)\<rparr>"
  using assms by (auto simp: verify_key_def split: if_splits option.splits)

lemma key_user_allowed:
  "is_allowed d (key_user k w r) res a \<longleftrightarrow>
     (case parse_permissions (ak_permissions k) of None \<Rightarrow> True | Some ps \<Rightarrow> (res, a) \<in> set ps) \<and>
     stored_permission d (to_authenticated_user w r) res a"
  by (auto simp: is_allowed_unfold key_user_def key_excludes_def stored_permission_def
      to_authenticated_user_def split: option.splits)

lemma parse_permissions_Some:
  "parse_permissions v = Some ps \<Longrightarrow> (r, a) \<in> set ps \<Longrightarrow>
   \<exists>vs. v = Some (JArray vs) \<and> parse_all parse_key_permission vs = Some ps"
  by (cases v rule: parse_permissions.cases) (auto split: option.splits)

lemma parse_permissions_None: "parse_permissions v = None \<longleftrightarrow> v = None \<or> v = Some JNull"
  by (cases v rule: parse_permissions.cases) (auto split: option.splits)

text \<open>
  C28: An API key never allows more than its owner: what it allows, the tables allow the owner with the
  stored role, also when the account is protected, and the key's permission column is null or a
  well-formed list that names the right. A column that does not parse allows nothing. The row is
  active, not expired and was created with this very key.
\<close>

theorem api_key_confined:
  assumes "verify_key cr d raw now = (d', Some u)" and "is_allowed d u res a"
  shows "\<exists>k \<in> set (t_api_keys d). \<exists>w r.
    find_user d (ak_user k) = Some w \<and> find_role d (u_role w) = Some r \<and> u_active w \<and>
    stored_permission d (to_authenticated_user w r) res a \<and>
    is_allowed d (to_authenticated_user w r) res a \<and>
    ak_active k \<and> \<not> key_expired k now \<and> cr_compare cr raw (ak_key_hash k) \<and>
    (case ak_permissions k of
       None \<Rightarrow> True
     | Some JNull \<Rightarrow> True
     | Some (JArray vs) \<Rightarrow> (\<exists>ps. parse_all parse_key_permission vs = Some ps \<and> (res, a) \<in> set ps)
     | Some _ \<Rightarrow> False)"
proof -
  from assms(1) obtain k w r where k: "List.find (\<lambda>k. ak_key k = cr_hash cr raw) (t_api_keys d) = Some k"
      "find_user d (ak_user k) = Some w" "find_role d (u_role w) = Some r" "ak_active k"
      "\<not> key_expired k now" "u_active w" "cr_compare cr raw (ak_key_hash k)" and u: "u = key_user k w r"
    by (rule verify_key_Some)
  have allowed: "stored_permission d (to_authenticated_user w r) res a"
    and listed: "case parse_permissions (ak_permissions k) of None \<Rightarrow> True | Some ps \<Rightarrow> (res, a) \<in> set ps"
    using assms(2) unfolding u key_user_allowed by blast+
  have column: "case ak_permissions k of None \<Rightarrow> True | Some JNull \<Rightarrow> True
     | Some (JArray vs) \<Rightarrow> (\<exists>ps. parse_all parse_key_permission vs = Some ps \<and> (res, a) \<in> set ps)
     | Some _ \<Rightarrow> False"
  proof (cases "parse_permissions (ak_permissions k)")
    case None
    then show ?thesis by (auto simp: parse_permissions_None)
  next
    case (Some ps)
    with listed parse_permissions_Some [OF Some, of res a] show ?thesis by auto
  qed
  have "is_allowed d (to_authenticated_user w r) res a"
    using allowed by (simp add: is_allowed_unfold key_excludes_def to_authenticated_user_def)
  with k allowed column show ?thesis by (intro bexI [of _ k]) (auto dest: find_SomeD)
qed

text \<open>A key of the sample installation, confined to reading pages.\<close>

definition sample_secret :: string where
  "sample_secret = replicate 48 (CHR ''A'')"

definition sample_key_row :: api_key_row where
  "sample_key_row =
     \<lparr>ak_id = ''k'', ak_name = ''key'', ak_key = KEY_PREFIX @ sample_secret, ak_key_hash = KEY_PREFIX @ sample_secret,
      ak_permissions = Some (JArray [permission_json (Pages, Read)]), ak_last_used = None, ak_expires = Some 100,
      ak_active = True, ak_user = ''own''\<rparr>"

definition sample_keys :: db where
  "sample_keys = sample_db\<lparr>t_api_keys := [sample_key_row]\<rparr>"

theorem api_key_confined_witness:
  "\<exists>k \<in> set (t_api_keys sample_keys). \<exists>w r.
     find_user sample_keys (ak_user k) = Some w \<and> find_role sample_keys (u_role w) = Some r \<and>
     stored_permission sample_keys (to_authenticated_user w r) Pages Read"
proof -
  let ?d = sample_keys
  have "case verify_key sample_crypto ?d (KEY_PREFIX @ sample_secret) 5 of
      (d', Some u) \<Rightarrow> is_allowed ?d u Pages Read \<and> \<not> is_allowed ?d u Pages Update | _ \<Rightarrow> False"
    by code_simp
  then obtain d' u where "verify_key sample_crypto ?d (KEY_PREFIX @ sample_secret) 5 = (d', Some u)"
      "is_allowed ?d u Pages Read"
    by (auto split: prod.splits option.splits)
  from api_key_confined [OF this] show ?thesis by blast
qed

text \<open>
  A key that was created verifies, until it expires, as its owner with exactly the permissions it
  was created with, and as nobody once its owner deactivates it.
\<close>

theorem api_key_roundtrip:
  assumes created: "create_key cr bhash d i uid name expires permissions secret now = Inr (d1, v, key)"
    and secret: "length secret = 48" "list_all base64url_char secret"
    and bcrypt: "\<And>x. cr_compare cr x (bhash x)"
    and supported: "\<forall>ps. permissions = Some ps \<longrightarrow> (\<forall>(r, a) \<in> set ps. is_permission_supported r a)"
    and owner: "find_user d uid = Some w" "u_active w" "find_role d (u_role w) = Some r"
    and valid: "\<forall>t. expires = Some t \<longrightarrow> now' < t"
  shows "\<exists>u. snd (verify_key cr d1 key now') = Some u \<and> au_id u = uid \<and> au_key_permissions u = permissions \<and>
      au_role u = r_name r \<and>
      (\<exists>d2 v'. deactivate_key d1 uid i now' = Inr (d2, v') \<and> \<not> kv_active v' \<and> verify_key cr d2 key now' = (d2, None))"
proof -
  let ?row = "\<lparr>ak_id = i, ak_name = name, ak_key = cr_hash cr key, ak_key_hash = bhash key,
     ak_permissions = permissions_for_create permissions, ak_last_used = None, ak_expires = expires,
     ak_active = True, ak_user = uid\<rparr>"
  have key: "key = KEY_PREFIX @ secret"
    and fresh: "i \<notin> ak_id ` set (t_api_keys d)" "cr_hash cr key \<notin> ak_key ` set (t_api_keys d)"
    and d1: "d1 = d\<lparr>t_api_keys := t_api_keys d @ [?row]\<rparr>"
    using created by (auto simp: create_key_def Let_def rbind_eq_Inr insert_row_eq_Inr)
  have pattern: "key_pattern key"
    using secret by (simp add: key key_pattern_def KEY_PREFIX_def)
  have found: "List.find (\<lambda>k. ak_key k = cr_hash cr key) (t_api_keys d @ [?row]) = Some ?row"
    by (rule find_snoc_new) (use fresh(2) in \<open>auto simp: image_iff\<close>)
  have found_id: "List.find (\<lambda>k. ak_id k = i \<and> ak_user k = uid) (t_api_keys d @ [?row]) = Some ?row"
    by (rule find_snoc_new) (use fresh(1) in \<open>auto simp: image_iff\<close>)
  have live: "\<not> key_expired ?row now'"
    using valid by (auto simp: key_expired_def split: option.splits)
  have reads [simp]: "find_user d1 uid = Some w" "find_role d1 (u_role w) = Some r"
    using owner by (simp_all add: d1 find_user_def find_role_def)
  have verified: "snd (verify_key cr d1 key now') = Some (key_user ?row w r)"
    using pattern found live bcrypt [of key] owner(2) reads by (simp add: verify_key_def d1)
  define d2 where "d2 = d1\<lparr>t_api_keys := update_where (\<lambda>k. ak_id k = i) (\<lambda>k. k\<lparr>ak_active := False\<rparr>) (t_api_keys d1)\<rparr>"
  have gone: "deactivate_key d1 uid i now' = Inr (d2, to_key_view (?row\<lparr>ak_active := False\<rparr>) now')"
    using found_id by (simp add: deactivate_key_def d1 d2_def)
  have "List.find (\<lambda>k. ak_key k = cr_hash cr key) (t_api_keys d2) = Some (?row\<lparr>ak_active := False\<rparr>)"
    unfolding d2_def using found by (simp add: d1 find_update_where)
  then have refused: "verify_key cr d2 key now' = (d2, None)"
    by (auto simp: verify_key_def split: option.splits)
  show ?thesis
  proof (intro exI conjI)
    show "snd (verify_key cr d1 key now') = Some (key_user ?row w r)" by (rule verified)
    show "deactivate_key d1 uid i now' = Inr (d2, to_key_view (?row\<lparr>ak_active := False\<rparr>) now')" by (rule gone)
    show "verify_key cr d2 key now' = (d2, None)" by (rule refused)
    show "au_id (key_user ?row w r) = uid"
      using owner(1) by (auto simp: key_user_def find_user_def dest: find_SomeD)
    show "au_key_permissions (key_user ?row w r) = permissions"
      using permissions_read_back [OF supported] by (simp add: key_user_def)
  qed (simp_all add: key_user_def to_key_view_def)
qed

theorem api_key_roundtrip_witness:
  "\<exists>d1 v key u. create_key sample_crypto (\<lambda>x. x) sample_db ''k'' ''rob'' ''key'' (Some 100) (Some [(Pages, Read)])
     sample_secret 0 = Inr (d1, v, key) \<and> snd (verify_key sample_crypto d1 key 99) = Some u \<and>
     au_key_permissions u = Some [(Pages, Read)]"
proof -
  obtain d1 v key where created: "create_key sample_crypto (\<lambda>x. x) sample_db ''k'' ''rob'' ''key'' (Some 100)
      (Some [(Pages, Read)]) sample_secret 0 = Inr (d1, v, key)"
  proof -
    have "case create_key sample_crypto (\<lambda>x. x) sample_db ''k'' ''rob'' ''key'' (Some 100)
      (Some [(Pages, Read)]) sample_secret 0 of Inr _ \<Rightarrow> True | Inl _ \<Rightarrow> False" by code_simp
    then show thesis using that by (auto split: sum.splits)
  qed
  have "length sample_secret = 48" "list_all base64url_char sample_secret"
    "\<forall>ps. Some [(Pages, Read)] = Some ps \<longrightarrow> (\<forall>(r, a) \<in> set ps. is_permission_supported r a)"
    "find_user sample_db ''rob'' = Some (sample_user ''rob'' ''rd'' False)"
    "u_active (sample_user ''rob'' ''rd'' False)"
    "find_role sample_db (u_role (sample_user ''rob'' ''rd'' False)) =
       Some \<lparr>r_id = ''rd'', r_name = ''reader'', r_description = None, r_system = False\<rparr>"
    by (simp_all add: sample_secret_def base64url_char_def list_all_iff is_permission_supported_def sample_defs find_defs)
  note facts = this
  have "cr_compare sample_crypto x x" for x by (simp add: sample_crypto_def)
  from api_key_roundtrip [OF created facts(1,2) this facts(3-6), of 99] created show ?thesis
    by auto
qed

end
