(* ===== verification/Urls.thy ===== *)
theory Urls
  imports Text "HOL-Library.Word"
begin

text \<open>
  What the services read of a WHATWG \<open>URL\<close>, and \<^verbatim>\<open>apps/api/src/modules/auth/oidc/oidc-url-security.ts\<close>:
  the check that keeps the server from fetching internal addresses on behalf of an identity provider.
\<close>

section \<open>URLs\<close>

text \<open>
  \<open>url_plain\<close> is the \<open>href\<close> after the scheme and the host were lower-cased and the fragment was removed.
  \<open>ua_parse\<close> is \<open>new URL(text)\<close> (\<open>None\<close> when it throws), \<open>ua_resolve\<close> the \<open>href\<close> of
  \<open>new URL(path, base)\<close>, \<open>ua_with_params\<close> the \<open>href\<close> after \<open>searchParams.set\<close> for each pair.
\<close>

record url =
  url_protocol :: string
  url_hostname :: string
  url_username :: string
  url_password :: string
  url_search :: string
  url_hash :: string
  url_plain :: string

record url_api =
  ua_parse :: "string \<Rightarrow> url option"
  ua_resolve :: "string \<Rightarrow> url \<Rightarrow> string"
  ua_with_params :: "string \<Rightarrow> (string \<times> string) list \<Rightarrow> string option"

text \<open>\<open>replace(/\/$/, "")\<close>: one slash at the end is dropped.\<close>

definition strip_last :: "char \<Rightarrow> string \<Rightarrow> string" where
  "strip_last c s = (if s \<noteq> [] \<and> last s = c then butlast s else s)"

definition canonical :: "url \<Rightarrow> string" where
  "canonical u = strip_last (CHR ''/'') (url_plain u)"

definition sample_url :: "string \<Rightarrow> url" where
  "sample_url s = \<lparr>url_protocol = ''https:'', url_hostname = s, url_username = [], url_password = [],
     url_search = [], url_hash = [], url_plain = s\<rparr>"

section \<open>IPv4 addresses\<close>

definition is_digit_char :: "char \<Rightarrow> bool" where
  "is_digit_char c \<longleftrightarrow> (let n = of_char c :: nat in 48 \<le> n \<and> n \<le> 57)"

text \<open>An octet as \<open>isIP\<close> accepts it: decimal, no leading zero, at most 255.\<close>

definition octet :: "string \<Rightarrow> bool" where
  "octet s \<longleftrightarrow> s \<noteq> [] \<and> length s \<le> 3 \<and> list_all is_digit_char s \<and> (hd s = CHR ''0'' \<longrightarrow> s = ''0'') \<and> read_nat s \<le> 255"

definition ipv4_octets :: "string \<Rightarrow> nat list option" where
  "ipv4_octets s =
     (let ps = split_on (CHR ''.'') s
      in if length ps = 4 \<and> list_all octet ps then Some (map read_nat ps) else None)"

fun private_octets :: "nat list \<Rightarrow> bool" where
  "private_octets (first # second # _) \<longleftrightarrow>
     first = 0 \<or> first = 10 \<or> first = 127 \<or> (first = 169 \<and> second = 254) \<or>
     (first = 172 \<and> 16 \<le> second \<and> second \<le> 31) \<or> (first = 192 \<and> second = 168) \<or>
     (first = 100 \<and> 64 \<le> second \<and> second \<le> 127) \<or> 224 \<le> first"
| "private_octets _ = False"

definition private_ipv6 :: "string \<Rightarrow> bool" where
  "private_ipv6 s \<longleftrightarrow>
     (let n = to_lower s
      in n = ''::'' \<or> n = ''::1'' \<or> starts_with ''fc'' n \<or> starts_with ''fd'' n \<or>
         (\<exists>c \<in> set ''89ab''. starts_with (''fe'' @ [c]) n) \<or> starts_with ''ff'' n \<or>
         starts_with ''::ffff:127.'' n \<or> starts_with ''::ffff:10.'' n \<or> starts_with ''::ffff:192.168.'' n)"

text \<open>\<open>ip6\<close> decides \<open>isIP(value) === 6\<close>.\<close>

definition is_private_address :: "(string \<Rightarrow> bool) \<Rightarrow> string \<Rightarrow> bool" where
  "is_private_address ip6 s =
     (case ipv4_octets s of
        Some os \<Rightarrow> private_octets os
      | None \<Rightarrow> ip6 s \<and> private_ipv6 s)"

section \<open>The check\<close>

text \<open>
  The settings, as they are read from the environment; \<open>se_lookup\<close> resolves a host name (\<open>None\<close> when it
  fails).
\<close>

record url_security =
  se_test :: bool
  se_production :: bool
  se_insecure_http :: bool
  se_allowed_hosts :: string
  se_ip6 :: "string \<Rightarrow> bool"
  se_lookup :: "string \<Rightarrow> string list option"

definition allow_development_http :: "url_security \<Rightarrow> bool" where
  "allow_development_http se \<longleftrightarrow> \<not> se_production se \<and> se_insecure_http se"

definition parse_oidc_url :: "url_security \<Rightarrow> url_api \<Rightarrow> string \<Rightarrow> url result" where
  "parse_oidc_url se ua s =
     rbind (or_throw (Internal ''Invalid URL'') (ua_parse ua s)) (\<lambda>u.
     rbind (rguard (url_username u = [] \<and> url_password u = [] \<and> url_hash u = [] \<and>
         (url_protocol u = ''https:'' \<or> allow_development_http se \<and> url_protocol u = ''http:''))
       (Unavailable ''unsafe'')) (\<lambda>_. Inr u))"

definition allowed_private_hosts :: "url_security \<Rightarrow> string list" where
  "allowed_private_hosts se =
     filter (\<lambda>h. h \<noteq> []) (map (\<lambda>h. strip_last (CHR ''.'') (to_lower (trim h))) (split_on (CHR '','') (se_allowed_hosts se)))"

definition host_of :: "url \<Rightarrow> string" where
  "host_of u = strip_last (CHR ''.'') (to_lower (url_hostname u))"

definition ends_with :: "string \<Rightarrow> string \<Rightarrow> bool" where
  "ends_with suffix s = starts_with (rev suffix) (rev s)"

definition assert_safe_oidc_url :: "url_security \<Rightarrow> url_api \<Rightarrow> string \<Rightarrow> url result" where
  "assert_safe_oidc_url se ua s =
     rbind (parse_oidc_url se ua s) (\<lambda>u.
     let host = host_of u
     in if se_test se \<and> se_insecure_http se \<and> host \<in> set [''localhost'', ''127.0.0.1'', ''::1'', ''[::1]''] then Inr u
        else if host \<in> set (allowed_private_hosts se) then Inr u
        else if host = ''localhost'' \<or> ends_with ''.localhost'' host \<or> is_private_address (se_ip6 se) host
        then Inl (Unavailable ''unsafe'')
        else case se_lookup se host of
          None \<Rightarrow> Inl (Unavailable ''lookup'')
        | Some addresses \<Rightarrow>
            if addresses = [] \<or> (\<exists>a \<in> set addresses. is_private_address (se_ip6 se) a)
            then Inl (Unavailable ''unsafe'') else Inr u)"

section \<open>The blocks the octets stand for\<close>

text \<open>The internal blocks as networks with a prefix length.\<close>

definition INTERNAL_BLOCKS :: "(nat list \<times> nat) list" where
  "INTERNAL_BLOCKS =
     [([0, 0, 0, 0], 8), ([10, 0, 0, 0], 8), ([127, 0, 0, 0], 8), ([169, 254, 0, 0], 16),
      ([172, 16, 0, 0], 12), ([192, 168, 0, 0], 16), ([100, 64, 0, 0], 10), ([224, 0, 0, 0], 3)]"

definition address_word :: "nat list \<Rightarrow> 32 word" where
  "address_word os = foldl (\<lambda>w n. push_bit 8 w + of_nat n) 0 os"

definition in_block :: "32 word \<Rightarrow> nat list \<times> nat \<Rightarrow> bool" where
  "in_block w b \<longleftrightarrow> drop_bit (32 - snd b) w = drop_bit (32 - snd b) (address_word (fst b))"

definition dotted :: "nat list \<Rightarrow> string" where
  "dotted os =
     (case map show_nat os of [a, b, c, d] \<Rightarrow> a @ CHR ''.'' # b @ CHR ''.'' # c @ CHR ''.'' # d | _ \<Rightarrow> [])"

lemma is_digit_digit_char: "n < 10 \<Longrightarrow> is_digit_char (digit_char n)"
  by (simp add: is_digit_char_def digit_char_def of_char_of)

lemma digit_char_zero: "n < 10 \<Longrightarrow> digit_char n = CHR ''0'' \<longleftrightarrow> n = 0"
proof -
  assume n: "n < 10"
  have zero: "digit_char 0 = CHR ''0''" by code_simp
  show "digit_char n = CHR ''0'' \<longleftrightarrow> n = 0"
    using read_digit [OF n] zero by (cases "n = 0") (auto simp: zero)
qed

lemma octet_show_nat:
  assumes "n < 256"
  shows "octet (show_nat n)"
proof -
  consider "n < 10" | "10 \<le> n" "n < 100" | "100 \<le> n" by linarith
  then show ?thesis
  proof cases
    case 1
    then have s: "show_nat n = [digit_char n]" by (subst show_nat.simps) simp
    from 1 have "digit_char n = CHR ''0'' \<Longrightarrow> [digit_char n] = ''0''" by simp
    then show ?thesis
      using read_show_nat [of n] 1 unfolding s by (simp add: octet_def is_digit_digit_char)
  next
    case 2
    then have d: "n div 10 < 10" "n div 10 \<noteq> 0" by (simp_all add: div_eq_0_iff)
    have s: "show_nat n = [digit_char (n div 10), digit_char (n mod 10)]"
      using 2 d by (subst show_nat.simps, subst show_nat.simps) simp
    show ?thesis
      using read_show_nat [of n] assms d unfolding s by (simp add: octet_def is_digit_digit_char digit_char_zero)
  next
    case 3
    have d: "n div 10 div 10 < 10" "n div 10 div 10 \<noteq> 0" "\<not> n div 10 < 10" "\<not> n < 10"
      using 3 assms by simp_all
    have s: "show_nat n = [digit_char (n div 10 div 10), digit_char (n div 10 mod 10), digit_char (n mod 10)]"
      using d by (subst show_nat.simps, subst show_nat.simps, subst show_nat.simps) simp
    show ?thesis
      using read_show_nat [of n] assms d unfolding s by (simp add: octet_def is_digit_digit_char digit_char_zero)
  qed
qed

lemma octet_no_dot: "octet s \<Longrightarrow> CHR ''.'' \<notin> set s"
  by (auto simp: octet_def list_all_iff is_digit_char_def)

lemma ipv4_octets_dotted:
  assumes "a < 256" "b < 256" "c < 256" "d < 256"
  shows "ipv4_octets (dotted [a, b, c, d]) = Some [a, b, c, d]"
proof -
  have "split_on (CHR ''.'') (dotted [a, b, c, d]) = [show_nat a, show_nat b, show_nat c, show_nat d]"
    using assms by (simp add: dotted_def split_on_part split_on_end octet_no_dot octet_show_nat)
  with assms show ?thesis by (simp add: ipv4_octets_def octet_show_nat read_show_nat)
qed

lemma address_word_value:
  assumes "a < 256" "b < 256" "c < 256" "d < 256"
  shows "unat (address_word [a, b, c, d]) = ((a * 256 + b) * 256 + c) * 256 + d"
proof -
  have "address_word [a, b, c, d] = of_nat (((a * 256 + b) * 256 + c) * 256 + d)"
    by (simp add: address_word_def push_bit_eq_mult algebra_simps)
  moreover have "((a * 256 + b) * 256 + c) * 256 + d < 2 ^ LENGTH(32)"
    using assms by simp
  ultimately show ?thesis
    by (simp only: unat_of_nat take_bit_nat_eq_self mod_less)
qed

lemma in_block_div:
  "in_block w (os, n) \<longleftrightarrow> unat w div 2 ^ (32 - n) = unat (address_word os) div 2 ^ (32 - n)"
  unfolding in_block_def word_unat_eq_iff unat_drop_bit_eq by (simp add: drop_bit_eq_div)

lemma base_digits:
  fixes k :: nat
  assumes "x < k" and "q < k"
  shows "a * k + x = p * k + q \<longleftrightarrow> a = p \<and> x = q"
proof
  assume eq: "a * k + x = p * k + q"
  have "a = p"
    using arg_cong [where f = "\<lambda>n. n div k", OF eq] assms by simp
  with eq show "a = p \<and> x = q" by simp
qed simp

text \<open>
  For IPv4 the comparison of octets is membership in the internal networks: an address is refused
  exactly if, as a 32-bit number, it lies in one of 0/8, 10/8, 127/8, 169.254/16, 172.16/12, 192.168/16,
  100.64/10 and 224/3.
\<close>

theorem private_ipv4_is_blocks:
  assumes "a < 256" "b < 256" "c < 256" "d < 256"
  shows "is_private_address ip6 (dotted [a, b, c, d]) \<longleftrightarrow>
    (\<exists>block \<in> set INTERNAL_BLOCKS. in_block (address_word [a, b, c, d]) block)"
proof -
  let ?n = "((a * 256 + b) * 256 + c) * 256 + d"
  have blocks: "(\<exists>block \<in> set INTERNAL_BLOCKS. in_block (address_word [a, b, c, d]) block) \<longleftrightarrow>
      ?n div 16777216 = 0 \<or> ?n div 16777216 = 10 \<or> ?n div 16777216 = 127 \<or> ?n div 65536 = 43518 \<or>
      ?n div 1048576 = 2753 \<or> ?n div 65536 = 49320 \<or> ?n div 4194304 = 401 \<or> ?n div 536870912 = 7"
    by (simp add: INTERNAL_BLOCKS_def in_block_div address_word_value assms)
  have bytes: "?n div 256 = (a * 256 + b) * 256 + c" "((a * 256 + b) * 256 + c) div 256 = a * 256 + b"
    "(a * 256 + b) div 256 = a"
    using assms by simp_all
  have wide: "?n div 65536 = a * 256 + b"
    using div_mult2_eq [of ?n 256 256] bytes by simp
  have top: "?n div 16777216 = a"
    using div_mult2_eq [of ?n 65536 256] wide bytes by simp
  have small: "(a * 256 + b) div 16 = a * 16 + b div 16" "(a * 256 + b) div 64 = a * 4 + b div 64"
    by presburger+
  have nibble: "?n div 1048576 = a * 16 + b div 16" "?n div 4194304 = a * 4 + b div 64" "?n div 536870912 = a div 32"
    using div_mult2_eq [of ?n 65536 16] div_mult2_eq [of ?n 65536 64] div_mult2_eq [of ?n 16777216 32] small wide top by simp_all
  have pairs: "a * 256 + b = 43518 \<longleftrightarrow> a = 169 \<and> b = 254" "a * 256 + b = 49320 \<longleftrightarrow> a = 192 \<and> b = 168"
    using base_digits [of b 256 254 a 169] base_digits [of b 256 168 a 192] assms(2) by simp_all
  have quotient: "0 < k \<Longrightarrow> x div k = q \<longleftrightarrow> q * k \<le> x \<and> x < (q + 1) * k" for x k q :: nat
    using div_nat_eqI [of k q x] div_times_less_eq_dividend [of x k] dividend_less_div_times [of k x]
    by (auto simp: algebra_simps)
  have sixteenth: "b div 16 = 1 \<longleftrightarrow> 16 \<le> b \<and> b \<le> 31" using quotient [of 16 b 1] by auto
  have quarter: "b div 64 = 1 \<longleftrightarrow> 64 \<le> b \<and> b \<le> 127" using quotient [of 64 b 1] by auto
  have eighth: "a div 32 = 7 \<longleftrightarrow> 224 \<le> a" using quotient [of 32 a 7] assms(1) by auto
  have "a * 16 + b div 16 = 2753 \<longleftrightarrow> a = 172 \<and> b div 16 = 1"
    and "a * 4 + b div 64 = 401 \<longleftrightarrow> a = 100 \<and> b div 64 = 1"
    using base_digits [of "b div 16" 16 1 a 172] base_digits [of "b div 64" 4 1 a 100] assms(2) by simp_all
  note prefixes = this [unfolded sixteenth quarter]
  have "is_private_address ip6 (dotted [a, b, c, d]) \<longleftrightarrow> private_octets [a, b, c, d]"
    by (simp add: is_private_address_def ipv4_octets_dotted assms)
  also have "\<dots> \<longleftrightarrow> (\<exists>block \<in> set INTERNAL_BLOCKS. in_block (address_word [a, b, c, d]) block)"
    unfolding blocks top wide nibble private_octets.simps pairs prefixes eighth by blast
  finally show ?thesis .
qed

theorem private_ipv4_is_blocks_witness:
  "is_private_address (\<lambda>_. False) (dotted [172, 31, 0, 1]) \<and> \<not> is_private_address (\<lambda>_. False) (dotted [172, 32, 0, 1])"
  using private_ipv4_is_blocks [of 172 31 0 1 "\<lambda>_. False"] private_ipv4_is_blocks [of 172 32 0 1 "\<lambda>_. False"]
  by (simp add: is_private_address_def ipv4_octets_dotted)

text \<open>The IPv4-mapped forms of only three of the blocks are recognised.\<close>

lemma mapped_link_local_passes:
  "\<not> is_private_address (\<lambda>_. True) ''::ffff:169.254.169.254'' \<and>
   \<not> is_private_address (\<lambda>_. True) ''::ffff:172.16.0.1'' \<and> is_private_address (\<lambda>_. True) ''::ffff:10.0.0.1''"
  by code_simp

end
