(* ===== verification/Mcp_Tokens.thy ===== *)
theory Mcp_Tokens
  imports Api_Keys Urls
begin

text \<open>
  \<^verbatim>\<open>apps/api/src/modules/mcp/mcp-token.service.ts\<close>: access tokens of MCP clients. A token is made by
  its user or issued to an OAuth client; only its hash is stored. Every request verifies it again, so
  that its scopes are the user's current rights.
\<close>

section \<open>Tokens\<close>

definition TOKEN_PREFIX :: string where
  "TOKEN_PREFIX = ''ad_wiki_mcp_''"

definition LAST_USED_WRITE_INTERVAL_MS :: int where
  "LAST_USED_WRITE_INTERVAL_MS = 300000"

definition mcp_expired :: "mcp_token_row \<Rightarrow> time \<Rightarrow> bool" where
  "mcp_expired t now \<longleftrightarrow> (case mt_expires t of Some e \<Rightarrow> e \<le> now | None \<Rightarrow> False)"

record mcp_token_view =
  mv_id :: ident
  mv_name :: string
  mv_prefix :: string
  mv_last_used :: "time option"
  mv_expires :: "time option"
  mv_revoked :: "time option"
  mv_active :: bool

definition to_mcp_view :: "mcp_token_row \<Rightarrow> time \<Rightarrow> mcp_token_view" where
  "to_mcp_view t now =
     \<lparr>mv_id = mt_id t, mv_name = mt_name t, mv_prefix = mt_prefix t, mv_last_used = mt_last_used t,
      mv_expires = mt_expires t, mv_revoked = mt_revoked t,
      mv_active = (mt_revoked t = None \<and> \<not> mcp_expired t now)\<rparr>"

definition list_mcp_tokens :: "db \<Rightarrow> ident \<Rightarrow> time \<Rightarrow> mcp_token_view list" where
  "list_mcp_tokens d uid now = map (\<lambda>t. to_mcp_view t now) (rev (filter (\<lambda>t. mt_user t = uid) (t_mcp_tokens d)))"

definition find_client :: "db \<Rightarrow> ident \<Rightarrow> oauth_client_row option" where
  "find_client d i = List.find (\<lambda>c. oc_client_id c = i) (t_oauth_clients d)"

text \<open>A new row, under the table's unique columns and foreign keys.\<close>

definition insert_mcp_token :: "db \<Rightarrow> mcp_token_row \<Rightarrow> db result" where
  "insert_mcp_token d t =
     rbind (rguard (mt_id t \<notin> mt_id ` set (t_mcp_tokens d)) (Internal ''P2002'')) (\<lambda>_.
     rbind (rguard (find_user d (mt_user t) \<noteq> None) (Internal ''P2003'')) (\<lambda>_.
     rbind (rguard (case mt_client t of None \<Rightarrow> True | Some c \<Rightarrow> find_client d c \<noteq> None) (Internal ''P2003'')) (\<lambda>_.
     rbind (insert_row mt_token_hash (Internal ''P2002'') t (t_mcp_tokens d)) (\<lambda>rows.
     Inr (d\<lparr>t_mcp_tokens := rows\<rparr>)))))"

definition create_mcp_token ::
    "crypto \<Rightarrow> db \<Rightarrow> ident \<Rightarrow> ident \<Rightarrow> string \<Rightarrow> time option \<Rightarrow> string \<Rightarrow> time \<Rightarrow>
     (db \<times> mcp_token_view \<times> string) result" where
  "create_mcp_token cr d new_id uid name expires secret now =
     rbind (rguard (\<not> (case expires of Some t \<Rightarrow> t \<le> now | None \<Rightarrow> False)) (BadRequest ''expiry'')) (\<lambda>_.
     let token = TOKEN_PREFIX @ secret;
         row = \<lparr>mt_id = new_id, mt_name = name, mt_token_hash = cr_hash cr token,
                mt_prefix = TOKEN_PREFIX @ take 8 secret, mt_client = None, mt_resource = None, mt_scopes = [],
                mt_last_used = None, mt_expires = expires, mt_revoked = None, mt_user = uid\<rparr>
     in rbind (insert_mcp_token d row) (\<lambda>d'. Inr (d', to_mcp_view row now, token)))"

text \<open>A token for an OAuth client, bound to a resource and to scopes.\<close>

definition oauth_token_row ::
    "crypto \<Rightarrow> ident \<Rightarrow> ident \<Rightarrow> oauth_client_row \<Rightarrow> string \<Rightarrow> string list \<Rightarrow> time \<Rightarrow> string \<Rightarrow> mcp_token_row" where
  "oauth_token_row cr new_id uid client res scopes expires secret =
     \<lparr>mt_id = new_id, mt_name = take 100 (''OAuth: '' @ oc_name client),
      mt_token_hash = cr_hash cr (TOKEN_PREFIX @ secret), mt_prefix = TOKEN_PREFIX @ take 8 secret,
      mt_client = Some (oc_client_id client), mt_resource = Some res, mt_scopes = scopes,
      mt_last_used = None, mt_expires = Some expires, mt_revoked = None, mt_user = uid\<rparr>"

definition create_oauth_access_token ::
    "crypto \<Rightarrow> db \<Rightarrow> ident \<Rightarrow> ident \<Rightarrow> oauth_client_row \<Rightarrow> string \<Rightarrow> string list \<Rightarrow> time \<Rightarrow> string \<Rightarrow>
     (db \<times> string) result" where
  "create_oauth_access_token cr d new_id uid client res scopes expires secret =
     rbind (insert_mcp_token d (oauth_token_row cr new_id uid client res scopes expires secret)) (\<lambda>d'.
     Inr (d', TOKEN_PREFIX @ secret))"

definition revoke_mcp_token :: "db \<Rightarrow> ident \<Rightarrow> ident \<Rightarrow> time \<Rightarrow> (db \<times> mcp_token_view) result" where
  "revoke_mcp_token d uid i now =
     rbind (or_throw (NotFound ''mcp token'')
       (List.find (\<lambda>t. mt_id t = i \<and> mt_user t = uid) (t_mcp_tokens d))) (\<lambda>t.
     if mt_revoked t \<noteq> None then Inr (d, to_mcp_view t now)
     else Inr (d\<lparr>t_mcp_tokens := update_where (\<lambda>x. mt_id x = mt_id t) (\<lambda>x. x\<lparr>mt_revoked := Some now\<rparr>) (t_mcp_tokens d)\<rparr>,
               to_mcp_view (t\<lparr>mt_revoked := Some now\<rparr>) now))"

section \<open>Verification\<close>

record mcp_access =
  ma_token :: ident
  ma_client :: "ident option"
  ma_user :: auth_user
  ma_scopes :: "string list"
  ma_expires :: "time option"

definition mcp_user :: "user_row \<Rightarrow> role_row \<Rightarrow> auth_user" where
  "mcp_user u r =
     \<lparr>au_id = u_id u, au_email = u_email u, au_username = u_username u, au_display_name = u_display_name u,
      au_role_id = r_id r, au_role = r_name r, au_active = u_active u, au_local_password = False,
      au_protected = u_protected u, au_method = Some Jwt, au_api_key = None, au_key_permissions = None\<rparr>"

text \<open>\<open>scope.split(":", 2)[1]\<close>\<close>

definition scope_action :: "string \<Rightarrow> string option" where
  "scope_action s = (case split_on (CHR '':'') s of _ # a # _ \<Rightarrow> Some a | _ \<Rightarrow> None)"

definition current_scopes :: "(string \<Rightarrow> string \<Rightarrow> int) \<Rightarrow> db \<Rightarrow> ident \<Rightarrow> string list" where
  "current_scopes lc d uid = map entry_key (filter ae_allowed (effective_permissions lc d uid))"

text \<open>
  The resource is compared when the token has one and the caller expects one; the empty string counts
  as absent. A resource that is no URL makes the comparison throw.
\<close>

definition resource_matches :: "url_api \<Rightarrow> string option \<Rightarrow> string option \<Rightarrow> bool result" where
  "resource_matches ua bound expected =
     (case (bound, expected) of
        (Some b, Some e) \<Rightarrow>
          if b = [] \<or> e = [] then Inr True
          else rbind (or_throw (Internal ''Invalid URL'') (ua_parse ua b)) (\<lambda>ub.
               rbind (or_throw (Internal ''Invalid URL'') (ua_parse ua e)) (\<lambda>ue.
               Inr (canonical ub = canonical ue)))
      | _ \<Rightarrow> Inr True)"

definition granted_scopes :: "mcp_token_row \<Rightarrow> string list \<Rightarrow> string list option" where
  "granted_scopes t scopes =
     (if ''mcp:read'' \<notin> set scopes then None
      else if mt_client t = None then Some scopes
      else if mt_expires t = None \<or> ''mcp:read'' \<notin> set (mt_scopes t) then None
      else Some (filter (\<lambda>s. scope_action s = Some ''read'' \<or> scope_action s = None \<or>
                        ''mcp:write'' \<in> set (mt_scopes t)) scopes))"

definition touch_mcp_token :: "mcp_token_row \<Rightarrow> time \<Rightarrow> db \<Rightarrow> db" where
  "touch_mcp_token t now d =
     (if (case mt_last_used t of None \<Rightarrow> True | Some l \<Rightarrow> LAST_USED_WRITE_INTERVAL_MS \<le> now - l)
      then d\<lparr>t_mcp_tokens := update_where (\<lambda>x. mt_id x = mt_id t) (\<lambda>x. x\<lparr>mt_last_used := Some now\<rparr>) (t_mcp_tokens d)\<rparr>
      else d)"

definition verify_mcp_token ::
    "(string \<Rightarrow> string \<Rightarrow> int) \<Rightarrow> crypto \<Rightarrow> url_api \<Rightarrow> db \<Rightarrow> string \<Rightarrow> string option \<Rightarrow> time \<Rightarrow>
     mcp_access option outcome" where
  "verify_mcp_token lc cr ua d raw expected now =
     (if \<not> starts_with TOKEN_PREFIX raw then (d, Inr None)
      else case List.find (\<lambda>t. mt_token_hash t = cr_hash cr raw) (t_mcp_tokens d) of
        None \<Rightarrow> (d, Inr None)
      | Some t \<Rightarrow>
          (case find_user d (mt_user t) of
             None \<Rightarrow> (d, Inr None)
           | Some u \<Rightarrow>
               (case find_role d (u_role u) of
                  None \<Rightarrow> (d, Inr None)
                | Some r \<Rightarrow>
                    if mt_revoked t \<noteq> None \<or> mcp_expired t now \<or> \<not> u_active u then (d, Inr None)
                    else case resource_matches ua (mt_resource t) expected of
                      Inl e \<Rightarrow> (d, Inl e)
                    | Inr False \<Rightarrow> (d, Inr None)
                    | Inr True \<Rightarrow>
                        (case granted_scopes t (current_scopes lc d (mt_user t)) of
                           None \<Rightarrow> (d, Inr None)
                         | Some scopes \<Rightarrow>
                             (touch_mcp_token t now d,
                              Inr (Some \<lparr>ma_token = mt_id t, ma_client = mt_client t, ma_user = mcp_user u r,
                                         ma_scopes = scopes, ma_expires = mt_expires t\<rparr>))))))"

section \<open>Scopes are rights\<close>

lemma no_colon_action: "CHR '':'' \<notin> set (action_name a)"
  by (cases a) simp_all

lemma scope_action_perm_key [simp]: "scope_action (perm_key r a) = Some (action_name a)"
  by (simp add: scope_action_def perm_key_def split_on_part split_on_end no_colon_resource no_colon_action)

lemma mcp_read_key: "''mcp:read'' = perm_key Mcp Read"
  by (simp add: perm_key_def)

lemma current_scopes_grant:
  assumes "accounts_ok d" and "is_permission_supported r a" and "resolve_user lc d uid = Some (u, role)"
  shows "perm_key r a \<in> set (current_scopes lc d uid) \<longleftrightarrow> is_allowed d (to_authenticated_user u role) r a"
  using effective_permissions_grant [OF assms]
  by (auto simp: current_scopes_def entry_key_def image_iff)

lemma granted_scopes_Some:
  assumes "granted_scopes t scopes = Some granted"
  shows "perm_key r a \<in> set granted \<longleftrightarrow>
      perm_key r a \<in> set scopes \<and> (mt_client t = None \<or> a = Read \<or> ''mcp:write'' \<in> set (mt_scopes t))"
    and "''mcp:read'' \<in> set scopes"
    and "mt_client t = None \<or> mt_expires t \<noteq> None \<and> ''mcp:read'' \<in> set (mt_scopes t)"
proof -
  have "action_name a = ''read'' \<longleftrightarrow> a = Read" using action_name_inj [of a Read] by simp
  with assms show "perm_key r a \<in> set granted \<longleftrightarrow>
      perm_key r a \<in> set scopes \<and> (mt_client t = None \<or> a = Read \<or> ''mcp:write'' \<in> set (mt_scopes t))"
    by (auto simp: granted_scopes_def split: if_splits)
qed (use assms in \<open>auto simp: granted_scopes_def split: if_splits\<close>)

lemma verify_mcp_token_Some:
  assumes "verify_mcp_token lc cr ua d raw expected now = (d', Inr (Some v))"
  obtains t u r where "List.find (\<lambda>t. mt_token_hash t = cr_hash cr raw) (t_mcp_tokens d) = Some t"
    and "find_user d (mt_user t) = Some u" and "find_role d (u_role u) = Some r"
    and "mt_revoked t = None" and "\<not> mcp_expired t now" and "u_active u"
    and "resource_matches ua (mt_resource t) expected = Inr True"
    and "granted_scopes t (current_scopes lc d (mt_user t)) = Some (ma_scopes v)"
    and "ma_token v = mt_id t" and "ma_user v = mcp_user u r" and "ma_client v = mt_client t"
    and "d' = touch_mcp_token t now d"
  using assms by (auto simp: verify_mcp_token_def split: if_splits option.splits sum.splits bool.splits)

text \<open>
  C29: The scopes of a verified MCP token are the current rights of its user, under the effective role:
  the token is neither revoked nor expired, belongs to the hash that was sent, its user may use MCP,
  and a catalogued right is among its scopes exactly when the evaluator allows it to that user and the
  token is personal, the right only reads, or the client was granted \<open>mcp:write\<close>. A token of an OAuth
  client has an expiry.
\<close>

theorem mcp_scopes_exact:
  assumes "accounts_ok d" and "is_permission_supported r a"
    and "verify_mcp_token lc cr ua d raw expected now = (d', Inr (Some v))"
  shows "\<exists>t \<in> set (t_mcp_tokens d). \<exists>u role.
    mt_token_hash t = cr_hash cr raw \<and> mt_id t = ma_token v \<and> mt_revoked t = None \<and> \<not> mcp_expired t now \<and>
    (mt_client t \<noteq> None \<longrightarrow> mt_expires t \<noteq> None) \<and>
    resolve_user lc d (mt_user t) = Some (u, role) \<and> u_active u \<and>
    is_allowed d (to_authenticated_user u role) Mcp Read \<and>
    (perm_key r a \<in> set (ma_scopes v) \<longleftrightarrow>
       is_allowed d (to_authenticated_user u role) r a \<and>
       (mt_client t = None \<or> a = Read \<or> ''mcp:write'' \<in> set (mt_scopes t)))"
proof -
  from assms(3) obtain t u ro where t: "List.find (\<lambda>t. mt_token_hash t = cr_hash cr raw) (t_mcp_tokens d) = Some t"
      and u: "find_user d (mt_user t) = Some u" "find_role d (u_role u) = Some ro" "u_active u"
      and ok: "mt_revoked t = None" "\<not> mcp_expired t now"
      and granted: "granted_scopes t (current_scopes lc d (mt_user t)) = Some (ma_scopes v)"
      and tok: "ma_token v = mt_id t"
    by (rule verify_mcp_token_Some)
  obtain role where role: "resolve_user lc d (mt_user t) = Some (u, role)"
    using u by (auto simp: resolve_user_def)
  note g = granted_scopes_Some [OF granted]
  have mcp: "is_permission_supported Mcp Read" by (simp add: is_permission_supported_def)
  have "is_allowed d (to_authenticated_user u role) Mcp Read"
    using current_scopes_grant [OF assms(1) mcp role] g(2) by (simp add: mcp_read_key)
  moreover have "perm_key r a \<in> set (ma_scopes v) \<longleftrightarrow> is_allowed d (to_authenticated_user u role) r a \<and>
       (mt_client t = None \<or> a = Read \<or> ''mcp:write'' \<in> set (mt_scopes t))"
    using g(1) [of r a] current_scopes_grant [OF assms(1,2) role] by blast
  ultimately show ?thesis
    using t role u(3) ok g(3) tok by (intro bexI [of _ t] exI [of _ u] exI [of _ role]) (auto dest: find_SomeD)
qed

text \<open>A client that may only read, acting for the protected owner.\<close>

definition sample_client :: oauth_client_row where
  "sample_client =
     \<lparr>oc_client_id = ''cl'', oc_name = ''client'', oc_redirects = [''https://c/cb''],
      oc_grants = [''authorization_code'', ''refresh_token''], oc_responses = [''code''], oc_auth_method = ''none'',
      oc_last_used = None\<rparr>"

definition sample_mcp :: db where
  "sample_mcp = sample_db
     \<lparr>t_oauth_clients := [sample_client],
      t_mcp_tokens := [oauth_token_row sample_crypto ''t1'' ''own'' sample_client ''res'' [''mcp:read''] 1000 ''s'']\<rparr>"

definition sample_urls :: url_api where
  "sample_urls =
     \<lparr>ua_parse = (\<lambda>s. Some (sample_url s)), ua_resolve = (\<lambda>p b. url_plain b @ p),
      ua_with_params = (\<lambda>u ps. Some (u @ ''?'' @ concat (map snd ps)))\<rparr>"

lemma sample_mcp_ok: "accounts_ok sample_mcp"
  using sample_db_ok(1) by (simp add: sample_mcp_def accounts_ok_def)

theorem mcp_scopes_exact_witness:
  "\<exists>v. snd (verify_mcp_token code_point_compare sample_crypto sample_urls sample_mcp ''ad_wiki_mcp_s'' (Some ''res'') 5) =
       Inr (Some v) \<and>
     perm_key Pages Update \<notin> set (ma_scopes v) \<and>
     (\<exists>t \<in> set (t_mcp_tokens sample_mcp). mt_id t = ma_token v)"
proof -
  have "case verify_mcp_token code_point_compare sample_crypto sample_urls sample_mcp ''ad_wiki_mcp_s'' (Some ''res'') 5 of
      (d', Inr (Some v)) \<Rightarrow> perm_key Pages Update \<notin> set (ma_scopes v) | _ \<Rightarrow> False"
    by code_simp
  then obtain d' v where v: "verify_mcp_token code_point_compare sample_crypto sample_urls sample_mcp ''ad_wiki_mcp_s''
      (Some ''res'') 5 = (d', Inr (Some v))" "perm_key Pages Update \<notin> set (ma_scopes v)"
    by (auto split: prod.splits sum.splits option.splits)
  have "is_permission_supported Pages Update" by (simp add: is_permission_supported_def)
  from mcp_scopes_exact [OF sample_mcp_ok this v(1)] v show ?thesis by auto
qed

section \<open>The stored role\<close>

text \<open>
  API keys and MCP tokens put the stored role into the request, a JWT the effective one: \<open>ada\<close>, whom
  her provider has made a reader, may not update pages in the browser, but may with a key, and through
  the user of an MCP token.
\<close>

definition sample_demoted :: db where
  "sample_demoted = sample_db
     \<lparr>t_providers := [sample_provider], t_identities := [sample_identity],
      t_role_mappings := [sample_role_mapping],
      t_role_grants := [\<lparr>rg_identity = ''x'', rg_mapping = ''m'', rg_role = ''rd''\<rparr>],
      t_api_keys := [sample_key_row\<lparr>ak_user := ''ada'', ak_permissions := None\<rparr>],
      t_user_permissions := [\<lparr>p_user = ''ada'', p_resource = ''mcp'', p_action = ''read'', p_allowed = True\<rparr>],
      t_mcp_tokens := [\<lparr>mt_id = ''t1'', mt_name = ''t'', mt_token_hash = ''ad_wiki_mcp_s'', mt_prefix = [],
        mt_client = None, mt_resource = None, mt_scopes = [], mt_last_used = None, mt_expires = None,
        mt_revoked = None, mt_user = ''ada''\<rparr>]\<rparr>"

lemma machine_access_keeps_stored_role:
  "(case validate_user code_point_compare sample_demoted (access_payload ''ada'') of
      Some u \<Rightarrow> \<not> is_allowed sample_demoted u Pages Update | None \<Rightarrow> False) \<and>
   (case verify_key sample_crypto sample_demoted (KEY_PREFIX @ sample_secret) 5 of
      (_, Some u) \<Rightarrow> is_allowed sample_demoted u Pages Update | _ \<Rightarrow> False) \<and>
   (case verify_mcp_token code_point_compare sample_crypto sample_urls sample_demoted ''ad_wiki_mcp_s'' None 5 of
      (_, Inr (Some v)) \<Rightarrow> is_allowed sample_demoted (ma_user v) Pages Update \<and>
        perm_key Pages Update \<notin> set (ma_scopes v) | _ \<Rightarrow> False)"
  by code_simp

end
