(* ===== verification/Mcp_OAuth.thy ===== *)
theory Mcp_OAuth
  imports Mcp_Tokens
begin

text \<open>
  \<^verbatim>\<open>apps/api/src/modules/mcp/mcp-oauth.service.ts\<close>: the OAuth server for MCP clients. A client
  registers itself, the user approves a request in the browser, the client exchanges the code (bound
  to the client, the redirect URI, the resource and the PKCE challenge) for an access and a refresh
  token, and rotates the refresh token.

  \<open>OAuthRequestError\<close> with its status 400 is \<open>BadRequest\<close>, with 401 \<open>Unauthorized\<close>, tagged with its
  code. A body or a query is the list of its fields. The audit log is not modelled.
\<close>

section \<open>Reading a request\<close>

type_synonym fields = "(string \<times> json) list"

definition MCP_OAUTH_SCOPES :: "string list" where
  "MCP_OAUTH_SCOPES = [''mcp:read'', ''mcp:write'']"

definition required_string :: "fields \<Rightarrow> string \<Rightarrow> string result" where
  "required_string body name =
     (case map_of body name of
        Some (JString s) \<Rightarrow>
          if trim s = [] \<or> 4096 < length s then Inl (BadRequest ''invalid_request'') else Inr (trim s)
      | _ \<Rightarrow> Inl (BadRequest ''invalid_request''))"

definition optional_string :: "fields \<Rightarrow> string \<Rightarrow> nat \<Rightarrow> string option result" where
  "optional_string body name limit =
     (case map_of body name of
        None \<Rightarrow> Inr None
      | Some JNull \<Rightarrow> Inr None
      | Some (JString s) \<Rightarrow>
          if s = [] then Inr None
          else if limit < length s then Inl (BadRequest ''invalid_request'') else Inr (Some s)
      | Some _ \<Rightarrow> Inl (BadRequest ''invalid_request''))"

fun string_array :: "json option \<Rightarrow> nat \<Rightarrow> string list result" where
  "string_array (Some (JArray vs)) limit =
     (if limit < length vs then Inl (BadRequest ''invalid_client_metadata'')
      else case all_strings vs of
        None \<Rightarrow> Inl (BadRequest ''invalid_client_metadata'')
      | Some ss \<Rightarrow> Inr (uniq ss))"
| "string_array _ limit = Inl (BadRequest ''invalid_client_metadata'')"

fun optional_string_array :: "json option \<Rightarrow> string list option result" where
  "optional_string_array None = Inr None"
| "optional_string_array (Some v) = rbind (string_array (Some v) 10) (\<lambda>ss. Inr (Some ss))"

definition parse_scopes :: "string \<Rightarrow> string list result" where
  "parse_scopes s =
     (let scopes = uniq (words s)
      in if ''mcp:read'' \<notin> set scopes \<or> (\<exists>x \<in> set scopes. x \<notin> set MCP_OAUTH_SCOPES)
         then Inl (BadRequest ''invalid_scope'') else Inr scopes)"

definition is_safe_redirect_uri :: "url_api \<Rightarrow> string \<Rightarrow> bool" where
  "is_safe_redirect_uri ua s =
     (case ua_parse ua s of
        None \<Rightarrow> False
      | Some u \<Rightarrow>
          if url_hash u \<noteq> [] \<or> url_username u \<noteq> [] \<or> url_password u \<noteq> [] then False
          else url_protocol u = ''https:'' \<or>
            url_protocol u = ''http:'' \<and>
            to_lower (url_hostname u) \<in> set [''localhost'', ''127.0.0.1'', ''[::1]''])"

definition authorization_redirect :: "url_api \<Rightarrow> string \<Rightarrow> (string \<times> string option) list \<Rightarrow> string result" where
  "authorization_redirect ua uri params =
     or_throw (Internal ''Invalid URL'')
       (ua_with_params ua uri (List.map_filter (\<lambda>(k, v). map_option (Pair k) v) params))"

text \<open>\<open>pkce\<close> is the base64url form of the SHA-256 digest; the comparison in constant time is equality.\<close>

definition pkce_matches :: "(string \<Rightarrow> string) \<Rightarrow> string \<Rightarrow> string \<Rightarrow> bool" where
  "pkce_matches pkce verifier expected \<longleftrightarrow> pkce verifier = expected"

definition matches_bound_resource :: "url_api \<Rightarrow> string option \<Rightarrow> string \<Rightarrow> bool" where
  "matches_bound_resource ua requested bound =
     (case requested of
        None \<Rightarrow> True
      | Some s \<Rightarrow> (case ua_parse ua s of None \<Rightarrow> False | Some u \<Rightarrow> canonical u = bound))"

definition challenge_pattern :: "string \<Rightarrow> bool" where
  "challenge_pattern s \<longleftrightarrow> 43 \<le> length s \<and> length s \<le> 128 \<and> list_all base64url_char s"

definition verifier_pattern :: "string \<Rightarrow> bool" where
  "verifier_pattern s \<longleftrightarrow>
     43 \<le> length s \<and> length s \<le> 128 \<and> list_all (\<lambda>c. base64url_char c \<or> c = CHR ''.'' \<or> c = CHR ''~'') s"

text \<open>The part of \<open>getMcpProductionConfig\<close> that is used here; lifetimes in seconds.\<close>

record mcp_config =
  mc_resource :: url
  mc_issuer :: url
  mc_web :: url
  mc_access_ttl :: int
  mc_refresh_ttl :: int
  mc_request_ttl :: int
  mc_code_ttl :: int

section \<open>Registration\<close>

definition default_to :: "'a \<Rightarrow> 'a option \<Rightarrow> 'a" where
  "default_to x y = (case y of None \<Rightarrow> x | Some z \<Rightarrow> z)"

definition client_name :: "fields \<Rightarrow> string" where
  "client_name body =
     (case map_of body ''client_name'' of
        Some (JString s) \<Rightarrow> if trim s = [] then ''MCP Client'' else take 200 (trim s)
      | _ \<Rightarrow> ''MCP Client'')"

definition register_client :: "url_api \<Rightarrow> db \<Rightarrow> fields \<Rightarrow> string \<Rightarrow> (db \<times> oauth_client_row) result" where
  "register_client ua d body secret =
     rbind (string_array (map_of body ''redirect_uris'') 10) (\<lambda>redirects.
     rbind (rguard (redirects \<noteq> [] \<and> (\<forall>u \<in> set redirects. is_safe_redirect_uri ua u))
       (BadRequest ''invalid_redirect_uri'')) (\<lambda>_.
     rbind (optional_string_array (map_of body ''grant_types'')) (\<lambda>g.
     rbind (optional_string_array (map_of body ''response_types'')) (\<lambda>r.
     let grants = default_to [''authorization_code'', ''refresh_token''] g;
         responses = default_to [''code''] r;
         auth = (case map_of body ''token_endpoint_auth_method'' of Some (JString s) \<Rightarrow> s | _ \<Rightarrow> ''none'')
     in rbind (rguard (''authorization_code'' \<in> set grants \<and>
            (\<forall>x \<in> set grants. x \<in> set [''authorization_code'', ''refresh_token'']))
          (BadRequest ''invalid_client_metadata'')) (\<lambda>_.
        rbind (rguard (responses = [''code''] \<and> auth = ''none'') (BadRequest ''invalid_client_metadata'')) (\<lambda>_.
        let client = \<lparr>oc_client_id = ''ad_wiki_oauth_'' @ secret, oc_name = client_name body,
               oc_redirects = redirects, oc_grants = grants, oc_responses = responses, oc_auth_method = auth,
               oc_last_used = None\<rparr>
        in rbind (insert_row oc_client_id (Internal ''P2002'') client (t_oauth_clients d)) (\<lambda>rows.
           Inr (d\<lparr>t_oauth_clients := rows\<rparr>, client))))))))"

section \<open>Authorization requests\<close>

definition retention_ms :: int where
  "retention_ms = 30 * 24 * 60 * 60 * 1000"

definition before :: "time option \<Rightarrow> time \<Rightarrow> bool" where
  "before t limit = (case t of None \<Rightarrow> False | Some x \<Rightarrow> x < limit)"

definition cleanup_expired :: "db \<Rightarrow> time \<Rightarrow> db" where
  "cleanup_expired d now =
     d\<lparr>t_oauth_requests := delete_where (\<lambda>q. oq_expires q < now) (t_oauth_requests d),
       t_oauth_codes := delete_where (\<lambda>c. od_expires c < now) (t_oauth_codes d),
       t_oauth_refresh := delete_where (\<lambda>r. or_expires r < now \<or> before (or_revoked r) (now - retention_ms))
         (t_oauth_refresh d),
       t_mcp_tokens := delete_where (\<lambda>t. mt_client t \<noteq> None \<and>
           (before (mt_expires t) (now - retention_ms) \<or> before (mt_revoked t) (now - retention_ms)))
         (t_mcp_tokens d)\<rparr>"

text \<open>The row a valid authorization request becomes.\<close>

definition authorization_row ::
    "url_api \<Rightarrow> mcp_config \<Rightarrow> db \<Rightarrow> fields \<Rightarrow> ident \<Rightarrow> time \<Rightarrow> oauth_request_row result" where
  "authorization_row ua cf d query new_id now =
     rbind (required_string query ''response_type'') (\<lambda>response_type.
     rbind (required_string query ''client_id'') (\<lambda>client_id.
     rbind (required_string query ''redirect_uri'') (\<lambda>redirect.
     rbind (required_string query ''code_challenge'') (\<lambda>challenge.
     rbind (required_string query ''code_challenge_method'') (\<lambda>kind.
     rbind (required_string query ''resource'') (\<lambda>res.
     rbind (optional_string query ''state'' 1024) (\<lambda>state.
     rbind (rguard (response_type = ''code'' \<and> kind = ''S256'' \<and> challenge_pattern challenge)
       (BadRequest ''invalid_request'')) (\<lambda>_.
     rbind (or_throw (Internal ''Invalid URL'') (ua_parse ua res)) (\<lambda>target.
     rbind (rguard (canonical target = canonical (mc_resource cf)) (BadRequest ''invalid_target'')) (\<lambda>_.
     rbind (rguard (case find_client d client_id of None \<Rightarrow> False | Some c \<Rightarrow> redirect \<in> set (oc_redirects c))
       (Unauthorized ''invalid_client'')) (\<lambda>_.
     rbind (optional_string query ''scope'' 500) (\<lambda>scope.
     rbind (parse_scopes (default_to ''mcp:read'' scope)) (\<lambda>scopes.
     Inr \<lparr>oq_id = new_id, oq_client = client_id, oq_redirect = redirect, oq_state = state,
          oq_challenge = challenge, oq_resource = canonical (mc_resource cf), oq_scopes = scopes,
          oq_expires = now + mc_request_ttl cf * 1000\<rparr>)))))))))))))"

definition start_authorization ::
    "url_api \<Rightarrow> mcp_config \<Rightarrow> db \<Rightarrow> fields \<Rightarrow> ident \<Rightarrow> time \<Rightarrow> string outcome" where
  "start_authorization ua cf d query new_id now =
     (case authorization_row ua cf d query new_id now of
        Inl e \<Rightarrow> (d, Inl e)
      | Inr q \<Rightarrow>
          let d1 = cleanup_expired d now
          in case insert_row oq_id (Internal ''P2002'') q (t_oauth_requests d1) of
            Inl e \<Rightarrow> (d1, Inl e)
          | Inr rows \<Rightarrow>
              (d1\<lparr>t_oauth_requests := rows\<rparr>,
               or_throw (Internal ''Invalid URL'')
                 (ua_with_params ua (ua_resolve ua ''/settings/mcp/authorize'' (mc_web cf)) [(''request_id'', oq_id q)])))"

definition find_request :: "db \<Rightarrow> ident \<Rightarrow> oauth_request_row option" where
  "find_request d i = List.find (\<lambda>q. oq_id q = i) (t_oauth_requests d)"

record request_view =
  rv_id :: ident
  rv_client_name :: string
  rv_redirect :: string
  rv_scopes :: "string list"
  rv_expires :: time

text \<open>A request with its client; the foreign key makes the client exist.\<close>

definition request_client :: "db \<Rightarrow> oauth_request_row \<Rightarrow> oauth_client_row result" where
  "request_client d q = or_throw (Internal ''request.client'') (find_client d (oq_client q))"

definition authorization_request :: "db \<Rightarrow> ident \<Rightarrow> time \<Rightarrow> request_view outcome" where
  "authorization_request d i now =
     (case find_request d i of
        None \<Rightarrow> (d, Inl (NotFound ''oauth request''))
      | Some q \<Rightarrow>
          if oq_expires q \<le> now
          then (d\<lparr>t_oauth_requests := delete_where (\<lambda>q. oq_id q = i) (t_oauth_requests d)\<rparr>,
                Inl (NotFound ''oauth request''))
          else (d, rbind (request_client d q) (\<lambda>c.
            Inr \<lparr>rv_id = oq_id q, rv_client_name = oc_name c, rv_redirect = oq_redirect q,
                 rv_scopes = oq_scopes q, rv_expires = oq_expires q\<rparr>)))"

definition insert_code :: "db \<Rightarrow> oauth_code_row \<Rightarrow> db result" where
  "insert_code d c =
     rbind (rguard (od_id c \<notin> od_id ` set (t_oauth_codes d)) (Internal ''P2002'')) (\<lambda>_.
     rbind (rguard (find_user d (od_user c) \<noteq> None \<and> find_client d (od_client c) \<noteq> None) (Internal ''P2003'')) (\<lambda>_.
     rbind (insert_row od_code_hash (Internal ''P2002'') c (t_oauth_codes d)) (\<lambda>rows.
     Inr (d\<lparr>t_oauth_codes := rows\<rparr>))))"

text \<open>The transaction of an approval: the request is deleted (it must still be there), the code created.\<close>

definition approve_commit :: "db \<Rightarrow> oauth_request_row \<Rightarrow> oauth_code_row \<Rightarrow> db result" where
  "approve_commit d q c =
     rbind (rguard (find_request d (oq_id q) \<noteq> None) (Internal ''P2025'')) (\<lambda>_.
     insert_code (d\<lparr>t_oauth_requests := delete_where (\<lambda>x. oq_id x = oq_id q) (t_oauth_requests d)\<rparr>) c)"

definition approve ::
    "url_api \<Rightarrow> crypto \<Rightarrow> mcp_config \<Rightarrow> db \<Rightarrow> ident \<Rightarrow> ident \<Rightarrow> ident \<Rightarrow> string \<Rightarrow> time \<Rightarrow> string outcome" where
  "approve ua cr cf d i uid new_id secret now =
     (case find_request d i of
        None \<Rightarrow> (d, Inl (NotFound ''oauth request''))
      | Some q \<Rightarrow>
          if oq_expires q \<le> now then (d, Inl (NotFound ''oauth request''))
          else
            let code = ''ad_wiki_code_'' @ secret;
                row = \<lparr>od_id = new_id, od_code_hash = cr_hash cr code, od_client = oq_client q, od_user = uid,
                       od_redirect = oq_redirect q, od_challenge = oq_challenge q, od_resource = oq_resource q,
                       od_scopes = oq_scopes q, od_expires = now + mc_code_ttl cf * 1000, od_used = None\<rparr>
            in case approve_commit d q row of
                 Inl e \<Rightarrow> (d, Inl e)
               | Inr d' \<Rightarrow> (d', authorization_redirect ua (oq_redirect q) [(''code'', Some code), (''state'', oq_state q)]))"

definition deny :: "url_api \<Rightarrow> db \<Rightarrow> ident \<Rightarrow> string outcome" where
  "deny ua d i =
     (case find_request d i of
        None \<Rightarrow> (d, Inl (NotFound ''oauth request''))
      | Some q \<Rightarrow>
          (d\<lparr>t_oauth_requests := delete_where (\<lambda>x. oq_id x = i) (t_oauth_requests d)\<rparr>,
           authorization_redirect ua (oq_redirect q)
             [(''error'', Some ''access_denied''),
              (''error_description'', Some ''Der Benutzer hat den Zugriff abgelehnt.''), (''state'', oq_state q)]))"

section \<open>Issuing tokens\<close>

record token_response =
  tr_access :: string
  tr_expires_in :: int
  tr_refresh :: string
  tr_scope :: string

record issue_secrets =
  is_access_id :: ident
  is_access :: string
  is_refresh_id :: ident
  is_refresh :: string
  is_family :: ident

fun join_words :: "string list \<Rightarrow> string" where
  "join_words [] = []"
| "join_words [w] = w"
| "join_words (w # ws) = w @ CHR '' '' # join_words ws"

definition insert_refresh :: "db \<Rightarrow> oauth_refresh_row \<Rightarrow> db result" where
  "insert_refresh d r =
     rbind (rguard (or_id r \<notin> or_id ` set (t_oauth_refresh d)) (Internal ''P2002'')) (\<lambda>_.
     rbind (rguard (find_user d (or_user r) \<noteq> None \<and> find_client d (or_client r) \<noteq> None) (Internal ''P2003'')) (\<lambda>_.
     rbind (insert_row or_token_hash (Internal ''P2002'') r (t_oauth_refresh d)) (\<lambda>rows.
     Inr (d\<lparr>t_oauth_refresh := rows\<rparr>))))"

definition refresh_row ::
    "crypto \<Rightarrow> mcp_config \<Rightarrow> ident \<Rightarrow> oauth_client_row \<Rightarrow> string \<Rightarrow> string list \<Rightarrow> ident \<Rightarrow> issue_secrets \<Rightarrow> time \<Rightarrow>
     oauth_refresh_row" where
  "refresh_row cr cf uid client res scopes family s now =
     \<lparr>or_id = is_refresh_id s, or_token_hash = cr_hash cr (''ad_wiki_refresh_'' @ is_refresh s), or_family = family,
      or_client = oc_client_id client, or_user = uid, or_resource = res, or_scopes = scopes,
      or_expires = now + mc_refresh_ttl cf * 1000, or_revoked = None, or_rotated = None\<rparr>"

text \<open>Two separate inserts: when the second fails, the first stays.\<close>

definition issue_oauth_tokens ::
    "crypto \<Rightarrow> mcp_config \<Rightarrow> db \<Rightarrow> ident \<Rightarrow> oauth_client_row \<Rightarrow> string \<Rightarrow> string list \<Rightarrow> ident \<Rightarrow> issue_secrets \<Rightarrow>
     time \<Rightarrow> token_response outcome" where
  "issue_oauth_tokens cr cf d uid client res scopes family s now =
     (case create_oauth_access_token cr d (is_access_id s) uid client res scopes
         (now + mc_access_ttl cf * 1000) (is_access s) of
        Inl e \<Rightarrow> (d, Inl e)
      | Inr (d1, access) \<Rightarrow>
          (case insert_refresh d1 (refresh_row cr cf uid client res scopes family s now) of
             Inl e \<Rightarrow> (d1, Inl e)
           | Inr d2 \<Rightarrow>
               (d2, Inr \<lparr>tr_access = access, tr_expires_in = mc_access_ttl cf,
                  tr_refresh = ''ad_wiki_refresh_'' @ is_refresh s, tr_scope = join_words scopes\<rparr>)))"

section \<open>Exchanging a code\<close>

text \<open>What the request presents, checked against the stored code.\<close>

record code_input =
  ci_code :: string
  ci_client :: ident
  ci_redirect :: string
  ci_verifier :: string
  ci_resource :: string

definition code_input_of :: "fields \<Rightarrow> code_input result" where
  "code_input_of body =
     rbind (required_string body ''code'') (\<lambda>code.
     rbind (required_string body ''client_id'') (\<lambda>client.
     rbind (required_string body ''redirect_uri'') (\<lambda>redirect.
     rbind (required_string body ''code_verifier'') (\<lambda>verifier.
     rbind (required_string body ''resource'') (\<lambda>res.
     rbind (rguard (verifier_pattern verifier) (BadRequest ''invalid_grant'')) (\<lambda>_.
     Inr \<lparr>ci_code = code, ci_client = client, ci_redirect = redirect, ci_verifier = verifier, ci_resource = res\<rparr>))))))"

definition read_code ::
    "url_api \<Rightarrow> crypto \<Rightarrow> (string \<Rightarrow> string) \<Rightarrow> db \<Rightarrow> code_input \<Rightarrow> time \<Rightarrow> oauth_code_row result" where
  "read_code ua cr pkce d inp now =
     rbind (or_throw (BadRequest ''invalid_grant'')
       (List.find (\<lambda>c. od_code_hash c = cr_hash cr (ci_code inp)) (t_oauth_codes d))) (\<lambda>c.
     rbind (rguard (od_used c = None \<and> now < od_expires c \<and> od_client c = ci_client inp \<and>
         od_redirect c = ci_redirect inp) (BadRequest ''invalid_grant'')) (\<lambda>_.
     rbind (or_throw (Internal ''Invalid URL'') (ua_parse ua (ci_resource inp))) (\<lambda>u.
     rbind (rguard (canonical u = od_resource c \<and> pkce_matches pkce (ci_verifier inp) (od_challenge c))
       (BadRequest ''invalid_grant'')) (\<lambda>_.
     Inr c))))"

text \<open>The conditional update on the tables as they are when it runs: whoever comes second loses.\<close>

definition claim_code :: "oauth_code_row \<Rightarrow> time \<Rightarrow> db \<Rightarrow> db result" where
  "claim_code c now d =
     (let p = (\<lambda>x. od_id x = od_id c \<and> od_used x = None)
      in if count_where p (t_oauth_codes d) \<noteq> 1 then Inl (BadRequest ''invalid_grant'')
         else Inr (d\<lparr>t_oauth_codes := update_where p (\<lambda>x. x\<lparr>od_used := Some now\<rparr>) (t_oauth_codes d)\<rparr>))"

definition touch_client :: "ident \<Rightarrow> time \<Rightarrow> db \<Rightarrow> db" where
  "touch_client i now d =
     d\<lparr>t_oauth_clients := update_where (\<lambda>c. oc_client_id c = i) (\<lambda>c. c\<lparr>oc_last_used := Some now\<rparr>) (t_oauth_clients d)\<rparr>"

text \<open>What is left of the exchange once the code was read.\<close>

definition finish_code ::
    "crypto \<Rightarrow> mcp_config \<Rightarrow> db \<Rightarrow> oauth_code_row \<Rightarrow> oauth_client_row \<Rightarrow> issue_secrets \<Rightarrow> time \<Rightarrow> token_response outcome" where
  "finish_code cr cf d c client s now =
     (case claim_code c now d of
        Inl e \<Rightarrow> (d, Inl e)
      | Inr d1 \<Rightarrow>
          if find_client d1 (od_client c) = None then (d1, Inl (Internal ''P2025''))
          else issue_oauth_tokens cr cf (touch_client (od_client c) now d1) (od_user c) client (od_resource c)
                 (od_scopes c) (is_family s) s now)"

definition exchange_code ::
    "url_api \<Rightarrow> crypto \<Rightarrow> (string \<Rightarrow> string) \<Rightarrow> mcp_config \<Rightarrow> db \<Rightarrow> fields \<Rightarrow> issue_secrets \<Rightarrow> time \<Rightarrow>
     token_response outcome" where
  "exchange_code ua cr pkce cf d body s now =
     (case rbind (code_input_of body) (\<lambda>inp. read_code ua cr pkce d inp now) of
        Inl e \<Rightarrow> (d, Inl e)
      | Inr c \<Rightarrow>
          (case find_client d (od_client c) of
             None \<Rightarrow> (d, Inl (Internal ''code.client''))
           | Some client \<Rightarrow> finish_code cr cf d c client s now))"

section \<open>Rotating a refresh token\<close>

datatype oauth_read = Refused api_error | Replayed oauth_refresh_row | Usable oauth_refresh_row

definition find_refresh :: "db \<Rightarrow> string \<Rightarrow> oauth_refresh_row option" where
  "find_refresh d h = List.find (\<lambda>r. or_token_hash r = h) (t_oauth_refresh d)"

definition read_refresh ::
    "url_api \<Rightarrow> db \<Rightarrow> string \<Rightarrow> ident \<Rightarrow> string option \<Rightarrow> time \<Rightarrow> oauth_read" where
  "read_refresh ua d h client res now =
     (case find_refresh d h of
        None \<Rightarrow> Refused (BadRequest ''invalid_grant'')
      | Some r \<Rightarrow>
          if or_rotated r \<noteq> None then Replayed r
          else if or_revoked r \<noteq> None \<or> or_expires r \<le> now \<or> or_client r \<noteq> client \<or>
                  \<not> matches_bound_resource ua res (or_resource r)
               then Refused (BadRequest ''invalid_grant'')
          else Usable r)"

definition revoke_oauth_family :: "ident \<Rightarrow> time \<Rightarrow> db \<Rightarrow> db" where
  "revoke_oauth_family f now d =
     d\<lparr>t_oauth_refresh := update_where (\<lambda>r. or_family r = f \<and> or_revoked r = None)
       (\<lambda>r. r\<lparr>or_revoked := Some now\<rparr>) (t_oauth_refresh d)\<rparr>"

definition claimable :: "oauth_refresh_row \<Rightarrow> oauth_refresh_row \<Rightarrow> bool" where
  "claimable r x \<longleftrightarrow> or_id x = or_id r \<and> or_revoked x = None \<and> or_rotated x = None"

definition claim_refresh :: "oauth_refresh_row \<Rightarrow> time \<Rightarrow> db \<Rightarrow> db result" where
  "claim_refresh r now d =
     (if count_where (claimable r) (t_oauth_refresh d) \<noteq> 1 then Inl (BadRequest ''invalid_grant'')
      else Inr (d\<lparr>t_oauth_refresh := update_where (claimable r)
             (\<lambda>x. x\<lparr>or_rotated := Some now, or_revoked := Some now\<rparr>) (t_oauth_refresh d)\<rparr>))"

definition exchange_refresh ::
    "url_api \<Rightarrow> crypto \<Rightarrow> mcp_config \<Rightarrow> db \<Rightarrow> fields \<Rightarrow> issue_secrets \<Rightarrow> time \<Rightarrow> token_response outcome" where
  "exchange_refresh ua cr cf d body s now =
     (case rbind (required_string body ''refresh_token'') (\<lambda>token.
           rbind (required_string body ''client_id'') (\<lambda>client.
           rbind (optional_string body ''resource'' 4096) (\<lambda>res. Inr (token, client, res)))) of
        Inl e \<Rightarrow> (d, Inl e)
      | Inr (token, client, res) \<Rightarrow>
          (case read_refresh ua d (cr_hash cr token) client res now of
             Refused e \<Rightarrow> (d, Inl e)
           | Replayed r \<Rightarrow> (revoke_oauth_family (or_family r) now d, Inl (BadRequest ''invalid_grant''))
           | Usable r \<Rightarrow>
               (case find_client d (or_client r) of
                  None \<Rightarrow> (d, Inl (Internal ''token.client''))
                | Some c \<Rightarrow>
                    (case claim_refresh r now d of
                       Inl e \<Rightarrow> (d, Inl e)
                     | Inr d1 \<Rightarrow>
                         issue_oauth_tokens cr cf d1 (or_user r) c (or_resource r) (or_scopes r) (or_family r) s now))))"

definition exchange ::
    "url_api \<Rightarrow> crypto \<Rightarrow> (string \<Rightarrow> string) \<Rightarrow> mcp_config \<Rightarrow> db \<Rightarrow> fields \<Rightarrow> issue_secrets \<Rightarrow> time \<Rightarrow>
     token_response outcome" where
  "exchange ua cr pkce cf d body s now =
     (case required_string body ''grant_type'' of
        Inl e \<Rightarrow> (d, Inl e)
      | Inr g \<Rightarrow>
          if g = ''authorization_code'' then exchange_code ua cr pkce cf d body s now
          else if g = ''refresh_token'' then exchange_refresh ua cr cf d body s now
          else (d, Inl (BadRequest ''unsupported_grant_type'')))"

text \<open>Revocation by the client; nothing tells whether the token was known.\<close>

definition revoke_oauth :: "crypto \<Rightarrow> db \<Rightarrow> fields \<Rightarrow> time \<Rightarrow> db result" where
  "revoke_oauth cr d body now =
     rbind (required_string body ''token'') (\<lambda>token.
     rbind (optional_string body ''client_id'' 200) (\<lambda>client.
     let h = cr_hash cr token
     in case find_refresh d h of
          Some r \<Rightarrow>
            if client = None \<or> client = Some (or_client r)
            then Inr (d\<lparr>t_oauth_refresh := update_where (\<lambda>x. or_id x = or_id r \<and> or_revoked x = None)
                    (\<lambda>x. x\<lparr>or_revoked := Some now\<rparr>) (t_oauth_refresh d)\<rparr>)
            else Inr (d\<lparr>t_mcp_tokens := update_where (\<lambda>t. mt_token_hash t = h \<and> mt_client t = client)
                    (\<lambda>t. t\<lparr>mt_revoked := Some now\<rparr>) (t_mcp_tokens d)\<rparr>)
        | None \<Rightarrow>
            Inr (d\<lparr>t_mcp_tokens := update_where (\<lambda>t. mt_token_hash t = h \<and> (client = None \<or> mt_client t = client))
                    (\<lambda>t. t\<lparr>mt_revoked := Some now\<rparr>) (t_mcp_tokens d)\<rparr>)))"

section \<open>Refresh tokens as rotating tokens\<close>

definition revoke_row :: "time \<Rightarrow> oauth_refresh_row \<Rightarrow> oauth_refresh_row" where
  "revoke_row t r = r\<lparr>or_revoked := Some t\<rparr>"

definition rotate_row :: "time \<Rightarrow> oauth_refresh_row \<Rightarrow> oauth_refresh_row" where
  "rotate_row t r = r\<lparr>or_rotated := Some t, or_revoked := Some t\<rparr>"

interpretation oauth_tokens: token_family or_id or_family or_revoked or_rotated revoke_row rotate_row
  by unfold_locales (simp_all add: revoke_row_def rotate_row_def)

text \<open>What a token stands for, beside its family.\<close>

definition grant_of :: "oauth_refresh_row \<Rightarrow> ident \<times> ident \<times> string \<times> string list" where
  "grant_of r = (or_client r, or_user r, or_resource r, or_scopes r)"

definition one_grant :: "oauth_refresh_row list \<Rightarrow> bool" where
  "one_grant rows \<longleftrightarrow>
     (\<forall>r \<in> set rows. \<forall>q \<in> set rows. or_family r = or_family q \<longrightarrow> grant_of r = grant_of q)"

definition oauth_rows_ok :: "oauth_refresh_row list \<Rightarrow> bool" where
  "oauth_rows_ok rows \<longleftrightarrow>
     distinct (map or_id rows) \<and> distinct (map or_token_hash rows) \<and>
     single_live or_family or_revoked rows \<and> rotated_revoked or_rotated or_revoked rows \<and> one_grant rows"

abbreviation oauth_ok :: "db \<Rightarrow> bool" where
  "oauth_ok d \<equiv> oauth_rows_ok (t_oauth_refresh d)"

text \<open>An update that keeps the identifying columns and revokes.\<close>

lemma one_grant_update:
  assumes "one_grant rows" and "\<And>r. or_family (f r) = or_family r \<and> grant_of (f r) = grant_of r"
  shows "one_grant (update_where p f rows)"
proof -
  have same: "or_family (if p r then f r else r) = or_family r"
    "grant_of (if p r then f r else r) = grant_of r" for r
    by (simp_all add: assms(2))
  from assms(1) show ?thesis unfolding one_grant_def set_update_where ball_simps same .
qed

lemma one_grant_snoc:
  assumes "one_grant rows" and "\<And>r. r \<in> set rows \<Longrightarrow> or_family r = or_family n \<Longrightarrow> grant_of r = grant_of n"
  shows "one_grant (rows @ [n])"
  unfolding one_grant_def
proof (intro ballI impI)
  fix r q assume r: "r \<in> set (rows @ [n])" and q: "q \<in> set (rows @ [n])" and f: "or_family r = or_family q"
  show "grant_of r = grant_of q"
  proof (cases "r = n")
    case True
    show ?thesis
    proof (cases "q = n")
      case False
      with q have "q \<in> set rows" by simp
      from assms(2) [OF this] f True show ?thesis by simp
    qed (use True in simp)
  next
    case False
    with r have row: "r \<in> set rows" by simp
    show ?thesis
    proof (cases "q = n")
      case True
      with assms(2) [OF row] f show ?thesis by simp
    next
      case False
      with q have "q \<in> set rows" by simp
      with assms(1) row f show ?thesis unfolding one_grant_def by blast
    qed
  qed
qed

lemma kept_columns [simp]:
  "or_id (revoke_row t r) = or_id r" "or_token_hash (revoke_row t r) = or_token_hash r"
  "or_family (revoke_row t r) = or_family r" "grant_of (revoke_row t r) = grant_of r"
  "or_id (rotate_row t r) = or_id r" "or_token_hash (rotate_row t r) = or_token_hash r"
  "or_family (rotate_row t r) = or_family r" "grant_of (rotate_row t r) = grant_of r"
  by (simp_all add: revoke_row_def rotate_row_def grant_of_def)

lemma oauth_rows_revoke: "oauth_rows_ok rows \<Longrightarrow> oauth_rows_ok (update_where p (revoke_row t) rows)"
  by (simp add: oauth_rows_ok_def map_update_where oauth_tokens.revoke_single_live
      oauth_tokens.revoke_rotated_revoked one_grant_update)

lemma oauth_rows_delete: "oauth_rows_ok rows \<Longrightarrow> oauth_rows_ok (delete_where p rows)"
  unfolding oauth_rows_ok_def
  by (simp add: distinct_delete_where single_live_delete rotated_revoked_delete) (simp add: one_grant_def row_simps)

lemma single_live_rotate:
  "single_live or_family or_revoked rows \<Longrightarrow>
   single_live or_family or_revoked (update_where p (rotate_row t) rows)"
  by (rule single_liveI)
    (drule (1) oauth_tokens.live_after_rotate, drule (1) oauth_tokens.live_after_rotate,
      elim conjE, rule single_liveD)

lemma oauth_rows_rotate: "oauth_rows_ok rows \<Longrightarrow> oauth_rows_ok (update_where p (rotate_row t) rows)"
  by (simp add: oauth_rows_ok_def map_update_where single_live_rotate oauth_tokens.rotate_rotated_revoked
      one_grant_update)

text \<open>A new token may join when its family has no live token and the same grant.\<close>

lemma oauth_rows_snoc:
  assumes ok: "oauth_rows_ok rows"
    and new: "or_id n \<notin> or_id ` set rows" "or_token_hash n \<notin> or_token_hash ` set rows" "or_rotated n = None"
    and dead: "family_dead or_family or_revoked (or_family n) rows"
    and grant: "\<forall>r \<in> set rows. or_family r = or_family n \<longrightarrow> grant_of r = grant_of n"
  shows "oauth_rows_ok (rows @ [n])"
proof -
  have "single_live or_family or_revoked (rows @ [n])"
  proof (rule single_liveI)
    fix r q assume rq: "r \<in> set (rows @ [n])" "q \<in> set (rows @ [n])" "or_family r = or_family q"
      "or_revoked r = None" "or_revoked q = None"
    have "x = n" if "x \<in> set (rows @ [n])" "or_family x = or_family n" "or_revoked x = None" for x
      using that dead by (auto simp: family_dead_def)
    with rq have "r = n \<longleftrightarrow> q = n" by metis
    with rq ok show "r = q" by (cases "r = n") (auto simp: oauth_rows_ok_def dest: single_liveD)
  qed
  moreover have "one_grant (rows @ [n])"
    by (rule one_grant_snoc) (use ok grant in \<open>simp_all add: oauth_rows_ok_def\<close>)
  ultimately show ?thesis
    using ok new by (simp add: oauth_rows_ok_def rotated_revoked_snoc)
qed

section \<open>What the operations write\<close>

lemma revoke_oauth_family_rows:
  "t_oauth_refresh (revoke_oauth_family f now d) =
     update_where (\<lambda>r. or_family r = f \<and> or_revoked r = None) (revoke_row now) (t_oauth_refresh d)"
  by (simp add: revoke_oauth_family_def revoke_row_def [abs_def])

lemma claim_refresh_Inr:
  "claim_refresh r now d = Inr d' \<longleftrightarrow>
     count_where (claimable r) (t_oauth_refresh d) = 1 \<and>
     d' = d\<lparr>t_oauth_refresh := update_where (claimable r) (rotate_row now) (t_oauth_refresh d)\<rparr>"
  by (auto simp: claim_refresh_def rotate_row_def [abs_def])

lemma insert_mcp_token_Inr:
  "insert_mcp_token d t = Inr d' \<longleftrightarrow>
     mt_id t \<notin> mt_id ` set (t_mcp_tokens d) \<and> mt_token_hash t \<notin> mt_token_hash ` set (t_mcp_tokens d) \<and>
     find_user d (mt_user t) \<noteq> None \<and> (\<forall>c. mt_client t = Some c \<longrightarrow> find_client d c \<noteq> None) \<and>
     d' = d\<lparr>t_mcp_tokens := t_mcp_tokens d @ [t]\<rparr>"
  by (auto simp: insert_mcp_token_def rbind_eq_Inr insert_row_eq_Inr split: option.splits)

lemma insert_refresh_Inr:
  "insert_refresh d r = Inr d' \<longleftrightarrow>
     or_id r \<notin> or_id ` set (t_oauth_refresh d) \<and> or_token_hash r \<notin> or_token_hash ` set (t_oauth_refresh d) \<and>
     find_user d (or_user r) \<noteq> None \<and> find_client d (or_client r) \<noteq> None \<and>
     d' = d\<lparr>t_oauth_refresh := t_oauth_refresh d @ [r]\<rparr>"
  by (auto simp: insert_refresh_def rbind_eq_Inr insert_row_eq_Inr)

definition issued_access ::
    "crypto \<Rightarrow> mcp_config \<Rightarrow> ident \<Rightarrow> oauth_client_row \<Rightarrow> string \<Rightarrow> string list \<Rightarrow> issue_secrets \<Rightarrow> time \<Rightarrow> mcp_token_row" where
  "issued_access cr cf uid client res scopes s now =
     oauth_token_row cr (is_access_id s) uid client res scopes (now + mc_access_ttl cf * 1000) (is_access s)"

lemma issue_oauth_tokens_Inr:
  assumes "issue_oauth_tokens cr cf d uid client res scopes family s now = (d', Inr tr)"
  shows "d' = d\<lparr>t_mcp_tokens := t_mcp_tokens d @ [issued_access cr cf uid client res scopes s now],
      t_oauth_refresh := t_oauth_refresh d @ [refresh_row cr cf uid client res scopes family s now]\<rparr>"
    and "tr_access tr = TOKEN_PREFIX @ is_access s" and "tr_refresh tr = ''ad_wiki_refresh_'' @ is_refresh s"
    and "tr_expires_in tr = mc_access_ttl cf" and "tr_scope tr = join_words scopes"
  using assms
  by (auto simp: issue_oauth_tokens_def create_oauth_access_token_def rbind_eq_Inr insert_mcp_token_Inr
      insert_refresh_Inr issued_access_def split: sum.splits)

lemma issue_oauth_tokens_rows:
  assumes "issue_oauth_tokens cr cf d uid client res scopes family s now = (d', out)"
  shows "t_oauth_refresh d' = t_oauth_refresh d \<or>
    (let n = refresh_row cr cf uid client res scopes family s now in
     or_id n \<notin> or_id ` set (t_oauth_refresh d) \<and> or_token_hash n \<notin> or_token_hash ` set (t_oauth_refresh d) \<and>
     t_oauth_refresh d' = t_oauth_refresh d @ [n])"
  using assms
  by (auto simp: issue_oauth_tokens_def create_oauth_access_token_def rbind_eq_Inr insert_mcp_token_Inr
      insert_refresh_Inr Let_def split: sum.splits)

section \<open>Requests in any order\<close>

text \<open>
  The state is the database with the code exchanges that have read their code, the refresh requests that
  have read their token and not yet claimed it, those that have claimed it and not yet issued its
  successor (the exchange is no transaction), and a record of what users have approved: the client, the
  user, the resource and the scopes of every request whose approval changed the database. New ids are
  ones that nobody holds (\<^verbatim>\<open>randomUUID\<close>).
\<close>

type_synonym grant = "ident \<times> ident \<times> string \<times> string list"

type_synonym oauth_state =
  "db \<times> (oauth_code_row \<times> oauth_client_row) list \<times> oauth_refresh_row list \<times> oauth_refresh_row list \<times> grant set"

definition approved_now :: "db \<Rightarrow> ident \<Rightarrow> ident \<Rightarrow> db \<Rightarrow> grant set" where
  "approved_now d i uid d' =
     (case find_request d i of
        None \<Rightarrow> {}
      | Some q \<Rightarrow> if d' = d then {} else {(oq_client q, uid, oq_resource q, oq_scopes q)})"

inductive oauth_step :: "url_api \<Rightarrow> crypto \<Rightarrow> mcp_config \<Rightarrow> oauth_state \<Rightarrow> oauth_state \<Rightarrow> bool"
  for ua :: url_api and cr :: crypto and cf :: mcp_config where
  oauth_register: "register_client ua d body secret = Inr (d', c) \<Longrightarrow>
    oauth_step ua cr cf (d, codes, seen, pend, A) (d', codes, seen, pend, A)"
| oauth_start: "oauth_step ua cr cf (d, codes, seen, pend, A) (fst (start_authorization ua cf d query i now), codes, seen, pend, A)"
| oauth_show: "oauth_step ua cr cf (d, codes, seen, pend, A) (fst (authorization_request d i now), codes, seen, pend, A)"
| oauth_approve: "d' = fst (approve ua cr cf d i uid new_id secret now) \<Longrightarrow>
    oauth_step ua cr cf (d, codes, seen, pend, A) (d', codes, seen, pend, A \<union> approved_now d i uid d')"
| oauth_deny: "oauth_step ua cr cf (d, codes, seen, pend, A) (fst (deny ua d i), codes, seen, pend, A)"
| oauth_cleanup: "oauth_step ua cr cf (d, codes, seen, pend, A) (cleanup_expired d now, codes, seen, pend, A)"
| oauth_revoke: "revoke_oauth cr d body now = Inr d' \<Longrightarrow>
    oauth_step ua cr cf (d, codes, seen, pend, A) (d', codes, seen, pend, A)"
| oauth_read_code: "read_code ua cr pkce d inp now = Inr c \<Longrightarrow> find_client d (od_client c) = Some client \<Longrightarrow>
    oauth_step ua cr cf (d, codes, seen, pend, A) (d, (c, client) # codes, seen, pend, A)"
| oauth_code: "(c, client) \<in> set codes \<Longrightarrow> is_refresh_id s \<notin> or_id ` set seen \<Longrightarrow>
    is_family s \<notin> or_family ` set (t_oauth_refresh d) \<Longrightarrow> is_family s \<notin> or_family ` set pend \<Longrightarrow>
    oauth_step ua cr cf (d, codes, seen, pend, A)
      (fst (finish_code cr cf d c client s now), remove1 (c, client) codes, seen, pend, A)"
| oauth_read: "read_refresh ua d h client res now = Usable r \<Longrightarrow>
    oauth_step ua cr cf (d, codes, seen, pend, A) (d, codes, r # seen, pend, A)"
| oauth_replay: "read_refresh ua d h client res now = Replayed r \<Longrightarrow>
    oauth_step ua cr cf (d, codes, seen, pend, A) (revoke_oauth_family (or_family r) now d, codes, seen, pend, A)"
| oauth_claim: "r \<in> set seen \<Longrightarrow> claim_refresh r now d = Inr d' \<Longrightarrow>
    oauth_step ua cr cf (d, codes, seen, pend, A) (d', codes, remove1 r seen, r # pend, A)"
| oauth_lose: "r \<in> set seen \<Longrightarrow> claim_refresh r now d = Inl e \<Longrightarrow>
    oauth_step ua cr cf (d, codes, seen, pend, A) (d, codes, remove1 r seen, pend, A)"
| oauth_issue: "r \<in> set pend \<Longrightarrow> oc_client_id c = or_client r \<Longrightarrow> is_refresh_id s \<notin> or_id ` set seen \<Longrightarrow>
    oauth_step ua cr cf (d, codes, seen, pend, A)
      (fst (issue_oauth_tokens cr cf d (or_user r) c (or_resource r) (or_scopes r) (or_family r) s now),
       codes, seen, remove1 r pend, A)"

definition seen_ok :: "oauth_refresh_row list \<Rightarrow> oauth_refresh_row \<Rightarrow> bool" where
  "seen_ok rows r \<longleftrightarrow>
     (\<forall>x \<in> set rows. or_id x = or_id r \<longrightarrow> or_family x = or_family r \<and> grant_of x = grant_of r)"

definition claimed_ok :: "oauth_refresh_row list \<Rightarrow> oauth_refresh_row \<Rightarrow> bool" where
  "claimed_ok rows r \<longleftrightarrow>
     (\<forall>x \<in> set rows. or_family x = or_family r \<longrightarrow> or_revoked x \<noteq> None \<and> grant_of x = grant_of r)"

definition oauth_state_ok :: "oauth_state \<Rightarrow> bool" where
  "oauth_state_ok st \<longleftrightarrow>
     (case st of (d, codes, seen, pend, A) \<Rightarrow>
        oauth_ok d \<and> (\<forall>r \<in> set seen. seen_ok (t_oauth_refresh d) r) \<and>
        (\<forall>r \<in> set pend. claimed_ok (t_oauth_refresh d) r) \<and> distinct (map or_family pend))"

text \<open>Rows that come from old ones: same identity, and live only if they were.\<close>

definition thinned :: "oauth_refresh_row list \<Rightarrow> oauth_refresh_row list \<Rightarrow> bool" where
  "thinned rows rows' \<longleftrightarrow>
     (\<forall>r \<in> set rows'. \<exists>q \<in> set rows. or_id q = or_id r \<and> or_family q = or_family r \<and> grant_of q = grant_of r \<and>
        (or_revoked r = None \<longrightarrow> or_revoked q = None))"

lemma thinned_refl [simp]: "thinned rows rows"
  by (auto simp: thinned_def)

lemma thinned_delete: "thinned rows (delete_where p rows)"
  by (auto simp: thinned_def row_simps)

lemma thinned_update:
  assumes "\<And>r. or_id (g r) = or_id r \<and> or_family (g r) = or_family r \<and> grant_of (g r) = grant_of r \<and> or_revoked (g r) \<noteq> None"
  shows "thinned rows (update_where p g rows)"
  unfolding thinned_def set_update_where ball_simps
proof
  fix r assume "r \<in> set rows"
  then show "\<exists>q \<in> set rows. or_id q = or_id (if p r then g r else r) \<and> or_family q = or_family (if p r then g r else r) \<and>
      grant_of q = grant_of (if p r then g r else r) \<and> (or_revoked (if p r then g r else r) = None \<longrightarrow> or_revoked q = None)"
    by (intro bexI [of _ r]) (use assms [of r] in auto)
qed

lemma revoked_marks [simp]: "or_revoked (revoke_row t r) \<noteq> None" "or_revoked (rotate_row t r) \<noteq> None"
  by (simp_all add: revoke_row_def rotate_row_def)

lemma seen_thinned: "thinned rows rows' \<Longrightarrow> seen_ok rows r \<Longrightarrow> seen_ok rows' r"
  unfolding thinned_def seen_ok_def by metis

lemma claimed_thinned: "thinned rows rows' \<Longrightarrow> claimed_ok rows r \<Longrightarrow> claimed_ok rows' r"
  unfolding thinned_def claimed_ok_def by metis

lemma oauth_state_thinned:
  assumes "oauth_state_ok (d, codes, seen, pend, A)" and "oauth_ok d'" and "thinned (t_oauth_refresh d) (t_oauth_refresh d')"
    and "set seen' \<subseteq> set seen"
  shows "oauth_state_ok (d', codes', seen', pend, A')"
  using assms seen_thinned [OF assms(3)] claimed_thinned [OF assms(3)] by (auto simp: oauth_state_ok_def)

lemma oauth_state_same:
  "oauth_state_ok (d, codes, seen, pend, A) \<Longrightarrow> t_oauth_refresh d' = t_oauth_refresh d \<Longrightarrow> oauth_state_ok (d', codes', seen, pend, A')"
  by (simp add: oauth_state_ok_def)

text \<open>Issuing a token of a family nobody else is about to issue for.\<close>

lemma oauth_state_issue:
  assumes ok: "oauth_state_ok (d, codes, seen, pend, A)"
    and run: "issue_oauth_tokens cr cf d uid client res scopes family s now = (d', out)"
    and fresh: "is_refresh_id s \<notin> or_id ` set seen"
    and family: "\<forall>x \<in> set (t_oauth_refresh d). or_family x = family \<longrightarrow>
      or_revoked x \<noteq> None \<and> grant_of x = (oc_client_id client, uid, res, scopes)"
    and pend': "set pend' \<subseteq> set pend" "distinct (map or_family pend')" "family \<notin> or_family ` set pend'"
  shows "oauth_state_ok (d', codes', seen, pend', A')"
proof -
  let ?n = "refresh_row cr cf uid client res scopes family s now"
  have n: "or_id ?n = is_refresh_id s" "or_family ?n = family" "or_rotated ?n = None"
    "grant_of ?n = (oc_client_id client, uid, res, scopes)"
    by (simp_all add: refresh_row_def grant_of_def)
  from issue_oauth_tokens_rows [OF run] consider "t_oauth_refresh d' = t_oauth_refresh d"
    | "or_id ?n \<notin> or_id ` set (t_oauth_refresh d)" "or_token_hash ?n \<notin> or_token_hash ` set (t_oauth_refresh d)"
      "t_oauth_refresh d' = t_oauth_refresh d @ [?n]"
    by (auto simp: Let_def)
  then show ?thesis
  proof cases
    case 1
    with ok pend' show ?thesis by (auto simp: oauth_state_ok_def)
  next
    case 2
    have "oauth_rows_ok (t_oauth_refresh d @ [?n])"
      by (rule oauth_rows_snoc) (use ok 2 family n in \<open>auto simp: oauth_state_ok_def family_dead_def\<close>)
    moreover have "seen_ok (t_oauth_refresh d @ [?n]) r" if "r \<in> set seen" for r
      using ok that fresh n(1) by (auto simp: oauth_state_ok_def seen_ok_def)
    moreover have "claimed_ok (t_oauth_refresh d @ [?n]) r" if "r \<in> set pend'" for r
      using ok that pend' n(2) by (auto simp: oauth_state_ok_def claimed_ok_def)
    ultimately show ?thesis using 2(3) pend'(2) by (simp add: oauth_state_ok_def)
  qed
qed

text \<open>Claiming a token: the one live token of its family is gone until the successor is issued.\<close>

lemma oauth_state_claim:
  assumes ok: "oauth_state_ok (d, codes, seen, pend, A)" and r: "r \<in> set seen" and run: "claim_refresh r now d = Inr d'"
  shows "oauth_state_ok (d', codes', remove1 r seen, r # pend, A')"
proof -
  let ?rows = "t_oauth_refresh d"
  let ?rows' = "update_where (claimable r) (rotate_row now) ?rows"
  have d': "t_oauth_refresh d' = ?rows'" and one: "count_where (claimable r) ?rows = 1"
    using run by (simp_all add: claim_refresh_Inr)
  from one have "0 < count_where (claimable r) ?rows" by simp
  then obtain x where x: "x \<in> set ?rows" "claimable r x" by (auto simp: row_simps)
  have same: "or_family x = or_family r" "grant_of x = grant_of r"
    using ok r x by (auto simp: oauth_state_ok_def seen_ok_def claimable_def)
  have thin: "thinned ?rows ?rows'"
    by (rule thinned_update) simp
  have "claimed_ok ?rows' r"
    unfolding claimed_ok_def
  proof (intro ballI impI)
    fix y assume y: "y \<in> set ?rows'" and f: "or_family y = or_family r"
    from y obtain q where q: "q \<in> set ?rows" "y = (if claimable r q then rotate_row now q else q)"
      unfolding set_update_where by blast
    have "or_family q = or_family x" using q(2) f same(1) by (simp split: if_splits)
    then have "grant_of q = grant_of x"
      using ok q(1) x(1) unfolding oauth_state_ok_def oauth_rows_ok_def one_grant_def by blast
    moreover have "or_revoked y \<noteq> None"
    proof
      assume live: "or_revoked y = None"
      with q(2) have "\<not> claimable r q" "y = q" by (simp_all split: if_splits)
      moreover have "q = x"
        by (rule single_liveD [of or_family or_revoked ?rows])
          (use ok q(1) x \<open>or_family q = or_family x\<close> live \<open>y = q\<close> in
            \<open>simp_all add: oauth_state_ok_def oauth_rows_ok_def claimable_def\<close>)
      ultimately show False using x(2) by simp
    qed
    ultimately show "or_revoked y \<noteq> None \<and> grant_of y = grant_of r"
      using q(2) same(2) by (simp split: if_splits)
  qed
  moreover have "or_family r \<notin> or_family ` set pend"
  proof
    assume "or_family r \<in> or_family ` set pend"
    then obtain p where "p \<in> set pend" "or_family p = or_family x" using same(1) by auto
    moreover from this ok have "claimed_ok ?rows p" by (simp add: oauth_state_ok_def)
    ultimately have "or_revoked x \<noteq> None" using x(1) by (simp add: claimed_ok_def)
    with x(2) show False by (simp add: claimable_def)
  qed
  moreover have "oauth_rows_ok ?rows'" by (rule oauth_rows_rotate) (use ok in \<open>simp add: oauth_state_ok_def\<close>)
  ultimately show ?thesis
    using ok seen_thinned [OF thin] claimed_thinned [OF thin] set_remove1_subset [of r seen]
    by (auto simp: oauth_state_ok_def d')
qed

lemma insert_code_refresh: "insert_code d c = Inr d' \<Longrightarrow> t_oauth_refresh d' = t_oauth_refresh d"
  by (auto simp: insert_code_def rbind_eq_Inr)

lemma approve_commit_refresh:
  "approve_commit d q c = Inr d' \<Longrightarrow> t_oauth_refresh d' = t_oauth_refresh d"
  by (auto simp: approve_commit_def rbind_eq_Inr dest!: insert_code_refresh)

lemma approve_refresh: "t_oauth_refresh (fst (approve ua cr cf d i uid new_id secret now)) = t_oauth_refresh d"
proof (cases "find_request d i")
  case (Some q)
  then show ?thesis
    by (simp add: approve_def Let_def approve_commit_refresh split: sum.split)
qed (simp add: approve_def)

lemma register_client_refresh:
  assumes "register_client ua d body secret = Inr (d', c)"
  shows "t_oauth_refresh d' = t_oauth_refresh d"
proof -
  have "\<exists>rows. d' = d\<lparr>t_oauth_clients := rows\<rparr>"
    using assms unfolding register_client_def Let_def
    by (elim rbind_InrE, unfold sum.inject prod.inject) blast
  then show ?thesis by auto
qed

lemma start_authorization_refresh:
  "t_oauth_refresh (fst (start_authorization ua cf d query i now)) = t_oauth_refresh d \<or>
   t_oauth_refresh (fst (start_authorization ua cf d query i now)) = t_oauth_refresh (cleanup_expired d now)"
  by (auto simp: start_authorization_def Let_def split: sum.split)

lemma revoke_oauth_refresh:
  assumes "revoke_oauth cr d body now = Inr d'"
  shows "t_oauth_refresh d' = t_oauth_refresh d \<or>
    (\<exists>p. t_oauth_refresh d' = update_where p (revoke_row now) (t_oauth_refresh d))"
proof -
  obtain token client where "required_string body ''token'' = Inr token"
      "optional_string body ''client_id'' 200 = Inr client"
    using assms by (auto simp: revoke_oauth_def rbind_eq_Inr)
  with assms show ?thesis
    by (cases "find_refresh d (cr_hash cr token)")
      (auto simp: revoke_oauth_def Let_def revoke_row_def [abs_def] split: if_splits)
qed

lemma finish_code_cases:
  assumes "finish_code cr cf d c client s now = (d', out)"
  obtains "t_oauth_refresh d' = t_oauth_refresh d" and "\<And>tr. out \<noteq> Inr tr"
  | d1 where "claim_code c now d = Inr d1"
      and "issue_oauth_tokens cr cf (touch_client (od_client c) now d1) (od_user c) client (od_resource c)
             (od_scopes c) (is_family s) s now = (d', out)"
      and "t_oauth_refresh (touch_client (od_client c) now d1) = t_oauth_refresh d"
proof (cases "claim_code c now d")
  case (Inl e)
  with assms that(1) show ?thesis by (auto simp: finish_code_def)
next
  case (Inr d1)
  then have rows: "t_oauth_refresh d1 = t_oauth_refresh d"
    by (auto simp: claim_code_def Let_def split: if_splits)
  show ?thesis
  proof (cases "find_client d1 (od_client c) = None")
    case True
    with assms Inr rows that(1) show ?thesis by (auto simp: finish_code_def)
  next
    case False
    with assms Inr rows that(2) show ?thesis by (simp add: finish_code_def touch_client_def)
  qed
qed

lemma read_refresh_row:
  "read_refresh ua d h client res now = Usable r \<Longrightarrow> find_refresh d h = Some r"
  "read_refresh ua d h client res now = Replayed r \<Longrightarrow> find_refresh d h = Some r"
  by (auto simp: read_refresh_def split: option.splits if_splits)

lemma found_refresh_seen:
  assumes "oauth_ok d" and "find_refresh d h = Some r"
  shows "seen_ok (t_oauth_refresh d) r"
proof -
  have "r \<in> set (t_oauth_refresh d)" using assms(2) by (auto simp: find_refresh_def dest: find_SomeD)
  with assms(1) show ?thesis
    unfolding seen_ok_def oauth_rows_ok_def using unique_key_eq by metis
qed

lemma oauth_step_ok:
  assumes "oauth_step ua cr cf st st'" and "oauth_state_ok st"
  shows "oauth_state_ok st'"
  using assms
proof (induction rule: oauth_step.induct)
  case (oauth_register d body secret d' c codes seen pend A)
  then show ?case using oauth_state_same register_client_refresh by blast
next
  case (oauth_start d codes seen pend A query i now)
  have clean: "oauth_state_ok (cleanup_expired d now, codes, seen, pend, A)"
    by (rule oauth_state_thinned [OF oauth_start])
      (use oauth_start in \<open>simp_all add: cleanup_expired_def thinned_delete oauth_rows_delete oauth_state_ok_def\<close>)
  from start_authorization_refresh [of ua cf d query i now] show ?case
    using oauth_state_same [OF oauth_start] oauth_state_same [OF clean] by blast
next
  case (oauth_show d codes seen pend A i now)
  have "t_oauth_refresh (fst (authorization_request d i now)) = t_oauth_refresh d"
    by (simp add: authorization_request_def split: option.split)
  then show ?case by (rule oauth_state_same [OF oauth_show])
next
  case (oauth_approve d' d i uid new_id secret now codes seen pend A)
  show ?case unfolding oauth_approve(1) by (rule oauth_state_same [OF oauth_approve(2) approve_refresh])
next
  case (oauth_deny d codes seen pend A i)
  have "t_oauth_refresh (fst (deny ua d i)) = t_oauth_refresh d"
    by (simp add: deny_def split: option.split)
  then show ?case by (rule oauth_state_same [OF oauth_deny])
next
  case (oauth_cleanup d codes seen pend A now)
  show ?case
    by (rule oauth_state_thinned [OF oauth_cleanup])
      (use oauth_cleanup in \<open>simp_all add: cleanup_expired_def thinned_delete oauth_rows_delete oauth_state_ok_def\<close>)
next
  case (oauth_revoke d body now d' codes seen pend A)
  from revoke_oauth_refresh [OF oauth_revoke(1)] show ?case
  proof (elim disjE exE)
    fix p assume rows: "t_oauth_refresh d' = update_where p (revoke_row now) (t_oauth_refresh d)"
    show ?thesis
      by (rule oauth_state_thinned [OF oauth_revoke(2)], unfold rows)
        (use oauth_revoke(2) in \<open>simp_all add: oauth_rows_revoke oauth_state_ok_def thinned_update\<close>)
  qed (rule oauth_state_same [OF oauth_revoke(2)])
next
  case (oauth_code c client codes s seen d pend A now)
  obtain d' out where run: "finish_code cr cf d c client s now = (d', out)" by fastforce
  then show ?case
  proof (rule finish_code_cases)
    assume "t_oauth_refresh d' = t_oauth_refresh d"
    with oauth_state_same [OF oauth_code(5)] run show ?thesis by simp
  next
    fix d1 assume issue: "issue_oauth_tokens cr cf (touch_client (od_client c) now d1) (od_user c) client (od_resource c)
        (od_scopes c) (is_family s) s now = (d', out)"
      and rows: "t_oauth_refresh (touch_client (od_client c) now d1) = t_oauth_refresh d"
    have "oauth_state_ok (touch_client (od_client c) now d1, codes, seen, pend, A)"
      by (rule oauth_state_same [OF oauth_code(5) rows])
    then have "oauth_state_ok (d', remove1 (c, client) codes, seen, pend, A)"
      by (rule oauth_state_issue [OF _ issue oauth_code(2)])
        (use oauth_code in \<open>auto simp: rows oauth_state_ok_def image_iff\<close>)
    with run show ?thesis by simp
  qed
next
  case (oauth_read_code pkce d inp now c client codes seen pend A)
  show ?case by (rule oauth_state_same [OF oauth_read_code(3) refl])
next
  case (oauth_read d h client res now r codes seen pend A)
  then show ?case
    using found_refresh_seen [OF _ read_refresh_row(1) [OF oauth_read(1)]] by (simp add: oauth_state_ok_def)
next
  case (oauth_replay d h client res now r codes seen pend A)
  show ?case
    by (rule oauth_state_thinned [OF oauth_replay(2)], unfold revoke_oauth_family_rows)
      (use oauth_replay(2) in \<open>simp_all add: oauth_rows_revoke oauth_state_ok_def thinned_update\<close>)
next
  case (oauth_claim r seen now d d' codes pend A)
  then show ?case by (blast intro: oauth_state_claim)
next
  case (oauth_lose r seen now d e codes pend A)
  then show ?case
    by (intro oauth_state_thinned [OF oauth_lose(3)]) (simp_all add: oauth_state_ok_def set_remove1_subset)
next
  case (oauth_issue r pend c s seen d codes A now)
  obtain d' out where run:
    "issue_oauth_tokens cr cf d (or_user r) c (or_resource r) (or_scopes r) (or_family r) s now = (d', out)" by fastforce
  have "distinct (map or_family pend)" using oauth_issue(4) by (simp add: oauth_state_ok_def)
  then have "distinct (map or_family (remove1 r pend))" "or_family r \<notin> or_family ` set (remove1 r pend)"
    using oauth_issue(1) by (induction pend) (auto simp: image_iff)
  then have "oauth_state_ok (d', codes, seen, remove1 r pend, A)"
    by (intro oauth_state_issue [OF oauth_issue(4) run oauth_issue(3)])
      (use oauth_issue in \<open>auto simp: oauth_state_ok_def claimed_ok_def grant_of_def set_remove1_subset\<close>)
  with run show ?case by simp
qed

section \<open>Only what was approved\<close>

definition code_grant :: "oauth_code_row \<Rightarrow> grant" where
  "code_grant c = (od_client c, od_user c, od_resource c, od_scopes c)"

text \<open>An access token of a client; the tokens a user creates for himself have no client.\<close>

definition token_within :: "grant set \<Rightarrow> mcp_token_row \<Rightarrow> bool" where
  "token_within A t \<longleftrightarrow> (\<forall>cl. mt_client t = Some cl \<longrightarrow>
     (\<exists>res. mt_resource t = Some res \<and> (cl, mt_user t, res, mt_scopes t) \<in> A))"

definition grants_within :: "grant set \<Rightarrow> db \<Rightarrow> bool" where
  "grants_within A d \<longleftrightarrow> (\<forall>c \<in> set (t_oauth_codes d). code_grant c \<in> A) \<and>
     (\<forall>r \<in> set (t_oauth_refresh d). grant_of r \<in> A) \<and> (\<forall>t \<in> set (t_mcp_tokens d). token_within A t)"

definition flow_within :: "oauth_state \<Rightarrow> bool" where
  "flow_within st \<longleftrightarrow>
     (case st of (d, codes, seen, pend, A) \<Rightarrow>
        grants_within A d \<and> (\<forall>(c, cl) \<in> set codes. code_grant c \<in> A \<and> oc_client_id cl = od_client c) \<and>
        (\<forall>r \<in> set seen \<union> set pend. grant_of r \<in> A))"

lemma flow_withinI:
  assumes "grants_within A d" and "\<And>c cl. (c, cl) \<in> set codes \<Longrightarrow> code_grant c \<in> A \<and> oc_client_id cl = od_client c"
    and "\<And>r. r \<in> set seen \<or> r \<in> set pend \<Longrightarrow> grant_of r \<in> A"
  shows "flow_within (d, codes, seen, pend, A)"
  using assms by (auto simp: flow_within_def)

lemma flow_withinD:
  assumes "flow_within (d, codes, seen, pend, A)"
  shows "grants_within A d" and "(c, cl) \<in> set codes \<Longrightarrow> code_grant c \<in> A \<and> oc_client_id cl = od_client c"
    and "r \<in> set seen \<or> r \<in> set pend \<Longrightarrow> grant_of r \<in> A"
  using assms by (auto simp: flow_within_def)

lemma flow_within_db: "flow_within (d, codes, seen, pend, A) \<Longrightarrow> grants_within A d' \<Longrightarrow> flow_within (d', codes, seen, pend, A)"
  by (simp add: flow_within_def)

lemma token_within_mono: "token_within A t \<Longrightarrow> A \<subseteq> B \<Longrightarrow> token_within B t"
  unfolding token_within_def by blast

lemma grants_within_mono: "grants_within A d \<Longrightarrow> A \<subseteq> B \<Longrightarrow> grants_within B d"
  unfolding grants_within_def using token_within_mono by blast

lemma grants_within_tables:
  "grants_within A d \<Longrightarrow> set (t_oauth_codes d') \<subseteq> set (t_oauth_codes d) \<Longrightarrow>
   set (t_oauth_refresh d') \<subseteq> set (t_oauth_refresh d) \<Longrightarrow> set (t_mcp_tokens d') \<subseteq> set (t_mcp_tokens d) \<Longrightarrow> grants_within A d'"
  unfolding grants_within_def by blast

lemma update_all: "(\<forall>x \<in> set xs. P x) \<Longrightarrow> (\<And>x. P x \<Longrightarrow> P (f x)) \<Longrightarrow> \<forall>x \<in> set (update_where q f xs). P x"
  by (auto simp: update_where_def)

lemma grants_within_refresh:
  assumes "grants_within A d" and "\<And>r. grant_of (f r) = grant_of r"
  shows "grants_within A (d\<lparr>t_oauth_refresh := update_where q f (t_oauth_refresh d)\<rparr>)"
  using assms update_all [of "t_oauth_refresh d" "\<lambda>r. grant_of r \<in> A" f q] by (simp add: grants_within_def)

lemma grants_within_tokens:
  assumes "grants_within A d" and "\<And>t. token_within A t \<Longrightarrow> token_within A (f t)"
  shows "grants_within A (d\<lparr>t_mcp_tokens := update_where q f (t_mcp_tokens d)\<rparr>)"
  using assms update_all [of "t_mcp_tokens d" "token_within A" f q] by (simp add: grants_within_def)

lemma grants_within_codes:
  assumes "grants_within A d" and "\<And>c. code_grant (f c) = code_grant c"
  shows "grants_within A (d\<lparr>t_oauth_codes := update_where q f (t_oauth_codes d)\<rparr>)"
  using assms update_all [of "t_oauth_codes d" "\<lambda>c. code_grant c \<in> A" f q] by (simp add: grants_within_def)

lemma cleanup_within: "grants_within A d \<Longrightarrow> grants_within A (cleanup_expired d now)"
  by (rule grants_within_tables) (auto simp: cleanup_expired_def row_simps)

lemma register_client_within:
  assumes "register_client ua d body secret = Inr (d', c)" and "grants_within A d"
  shows "grants_within A d'"
proof -
  have "\<exists>rows. d' = d\<lparr>t_oauth_clients := rows\<rparr>"
    using assms(1) unfolding register_client_def Let_def
    by (elim rbind_InrE, unfold sum.inject prod.inject) blast
  then show ?thesis using assms(2) by (auto simp: grants_within_def)
qed

lemma start_authorization_within: "grants_within A d \<Longrightarrow> grants_within A (fst (start_authorization ua cf d query i now))"
  using cleanup_within [of A d now]
  by (auto simp: start_authorization_def Let_def grants_within_def split: sum.split)

lemma authorization_request_within: "grants_within A d \<Longrightarrow> grants_within A (fst (authorization_request d i now))"
  by (auto simp: authorization_request_def grants_within_def split: option.split)

lemma deny_within: "grants_within A d \<Longrightarrow> grants_within A (fst (deny ua d i))"
  by (auto simp: deny_def grants_within_def split: option.split)

lemma approve_commit_Inr:
  "approve_commit d q c = Inr d' \<Longrightarrow>
   d' = d\<lparr>t_oauth_requests := delete_where (\<lambda>x. oq_id x = oq_id q) (t_oauth_requests d), t_oauth_codes := t_oauth_codes d @ [c]\<rparr>"
  by (auto simp: approve_commit_def insert_code_def rbind_eq_Inr insert_row_eq_Inr)

text \<open>The code of an approval stands for what is recorded as approved.\<close>

lemma approve_within:
  assumes "grants_within A d" and d': "d' = fst (approve ua cr cf d i uid new_id secret now)"
  shows "grants_within (A \<union> approved_now d i uid d') d'"
proof (cases "d' = d")
  case True
  then show ?thesis using grants_within_mono [OF assms(1)] by simp
next
  case False
  then obtain q c where q: "find_request d i = Some q" and commit: "approve_commit d q c = Inr d'"
    and c: "code_grant c = (oq_client q, uid, oq_resource q, oq_scopes q)"
    unfolding d' approve_def Let_def
    by (auto simp: code_grant_def split: option.splits if_splits sum.splits)
  have "grants_within (A \<union> approved_now d i uid d') d" by (rule grants_within_mono [OF assms(1)]) simp
  moreover have "code_grant c \<in> approved_now d i uid d'" using False by (simp add: approved_now_def q c)
  ultimately show ?thesis using approve_commit_Inr [OF commit] by (auto simp: grants_within_def)
qed

lemma revoke_oauth_within:
  assumes "revoke_oauth cr d body now = Inr d'" and "grants_within A d"
  shows "grants_within A d'"
proof -
  obtain token client where args: "required_string body ''token'' = Inr token"
      "optional_string body ''client_id'' 200 = Inr client"
    using assms(1) by (auto simp: revoke_oauth_def rbind_eq_Inr)
  have tokens: "grants_within A (d\<lparr>t_mcp_tokens := update_where p (\<lambda>t. t\<lparr>mt_revoked := Some now\<rparr>) (t_mcp_tokens d)\<rparr>)" for p
    by (rule grants_within_tokens [OF assms(2)]) (simp add: token_within_def)
  have refresh: "grants_within A (d\<lparr>t_oauth_refresh := update_where p (\<lambda>x. x\<lparr>or_revoked := Some now\<rparr>) (t_oauth_refresh d)\<rparr>)" for p
    by (rule grants_within_refresh [OF assms(2)]) (simp add: grant_of_def)
  show ?thesis
  proof (cases "find_refresh d (cr_hash cr token)")
    case None
    then have "d' = d\<lparr>t_mcp_tokens := update_where (\<lambda>t. mt_token_hash t = cr_hash cr token \<and> (client = None \<or> mt_client t = client))
        (\<lambda>t. t\<lparr>mt_revoked := Some now\<rparr>) (t_mcp_tokens d)\<rparr>"
      using assms(1) by (simp add: revoke_oauth_def args Let_def)
    then show ?thesis using tokens by simp
  next
    case (Some r)
    then show ?thesis using assms(1) tokens refresh
      by (cases "client = None \<or> client = Some (or_client r)") (auto simp: revoke_oauth_def args Let_def)
  qed
qed

lemma issue_oauth_tokens_within:
  assumes "grants_within A d" and "(oc_client_id client, uid, res, scopes) \<in> A"
    and "issue_oauth_tokens cr cf d uid client res scopes family s now = (d', out)"
  shows "grants_within A d'"
proof -
  let ?t = "issued_access cr cf uid client res scopes s now" and ?r = "refresh_row cr cf uid client res scopes family s now"
  have token: "token_within A ?t"
    using assms(2) by (simp add: token_within_def issued_access_def oauth_token_row_def)
  have refresh: "grant_of ?r \<in> A"
    using assms(2) by (simp add: grant_of_def refresh_row_def)
  show ?thesis
  proof (cases "insert_mcp_token d ?t")
    case (Inl e)
    then have "d' = d" using assms(3)
      by (simp add: issue_oauth_tokens_def create_oauth_access_token_def issued_access_def)
    then show ?thesis using assms(1) by simp
  next
    case (Inr d1)
    have d1: "grants_within A d1" using Inr assms(1) token by (auto simp: insert_mcp_token_Inr grants_within_def)
    have "d' = d1 \<or> insert_refresh d1 ?r = Inr d'" using assms(3) Inr
      by (auto simp: issue_oauth_tokens_def create_oauth_access_token_def issued_access_def split: sum.splits)
    then show ?thesis using d1 refresh by (auto simp: insert_refresh_Inr grants_within_def)
  qed
qed

lemma finish_code_within:
  assumes ok: "grants_within A d" and c: "code_grant c \<in> A" "oc_client_id client = od_client c"
    and run: "finish_code cr cf d c client s now = (d', out)"
  shows "grants_within A d'"
proof (cases "claim_code c now d")
  case (Inl e)
  then show ?thesis using ok run by (simp add: finish_code_def)
next
  case (Inr d1)
  have d1: "grants_within A d1"
    using Inr grants_within_codes [OF ok, of "\<lambda>x. x\<lparr>od_used := Some now\<rparr>"]
    by (auto simp: claim_code_def Let_def code_grant_def split: if_splits)
  show ?thesis
  proof (cases "find_client d1 (od_client c) = None")
    case True
    then show ?thesis using Inr d1 run by (simp add: finish_code_def)
  next
    case False
    then have issue: "issue_oauth_tokens cr cf (touch_client (od_client c) now d1) (od_user c) client (od_resource c)
        (od_scopes c) (is_family s) s now = (d', out)"
      using run unfolding finish_code_def Inr sum.case by (simp only: if_False)
    have "grants_within A (touch_client (od_client c) now d1)" using d1 by (simp add: grants_within_def touch_client_def)
    from issue_oauth_tokens_within [OF this _ issue] c show ?thesis by (simp add: code_grant_def)
  qed
qed

lemma found_refresh_within: "grants_within A d \<Longrightarrow> find_refresh d h = Some r \<Longrightarrow> grant_of r \<in> A"
  by (auto simp: grants_within_def find_refresh_def dest: find_SomeD)

lemma find_client_id: "find_client d i = Some c \<Longrightarrow> oc_client_id c = i"
  by (auto simp: find_client_def dest: find_SomeD)

lemma oauth_step_within:
  assumes "oauth_step ua cr cf st st'" and "flow_within st"
  shows "flow_within st'"
  using assms
proof (induction rule: oauth_step.induct)
  case (oauth_register d body secret d' c codes seen pend A)
  then show ?case by (blast intro: flow_within_db register_client_within flow_withinD(1))
next
  case (oauth_start d codes seen pend A query i now)
  then show ?case by (blast intro: flow_within_db start_authorization_within flow_withinD(1))
next
  case (oauth_show d codes seen pend A i now)
  then show ?case by (blast intro: flow_within_db authorization_request_within flow_withinD(1))
next
  case (oauth_approve d' d i uid new_id secret now codes seen pend A)
  show ?case
    by (rule flow_withinI [OF approve_within [OF flow_withinD(1) [OF oauth_approve(2)] oauth_approve(1)]])
      (use flow_withinD(2,3) [OF oauth_approve(2)] in blast)+
next
  case (oauth_deny d codes seen pend A i)
  then show ?case by (blast intro: flow_within_db deny_within flow_withinD(1))
next
  case (oauth_cleanup d codes seen pend A now)
  then show ?case by (blast intro: flow_within_db cleanup_within flow_withinD(1))
next
  case (oauth_revoke d body now d' codes seen pend A)
  then show ?case by (blast intro: flow_within_db revoke_oauth_within flow_withinD(1))
next
  case (oauth_read_code pkce d inp now c client codes seen pend A)
  have "c \<in> set (t_oauth_codes d)"
    using oauth_read_code(1) by (auto simp: read_code_def rbind_eq_Inr dest!: find_SomeD)
  then have "code_grant c \<in> A" using flow_withinD(1) [OF oauth_read_code(3)] by (simp add: grants_within_def)
  with find_client_id [OF oauth_read_code(2)] oauth_read_code(3) show ?case by (simp add: flow_within_def)
next
  case (oauth_code c client codes s seen d pend A now)
  obtain d' out where run: "finish_code cr cf d c client s now = (d', out)" by fastforce
  have "grants_within A d'"
    using finish_code_within [OF flow_withinD(1) [OF oauth_code(5)] _ _ run] flow_withinD(2) [OF oauth_code(5) oauth_code(1)] by blast
  with flow_withinD(2,3) [OF oauth_code(5)] show ?case
    unfolding run fst_conv by (intro flow_withinI) (blast dest: subsetD [OF set_remove1_subset])+
next
  case (oauth_read d h client res now r codes seen pend A)
  have "grant_of r \<in> A"
    by (rule found_refresh_within [OF flow_withinD(1) [OF oauth_read(2)] read_refresh_row(1) [OF oauth_read(1)]])
  with oauth_read(2) show ?case by (simp add: flow_within_def)
next
  case (oauth_replay d h client res now r codes seen pend A)
  have "grants_within A (revoke_oauth_family (or_family r) now d)"
    unfolding revoke_oauth_family_def
    by (rule grants_within_refresh [OF flow_withinD(1) [OF oauth_replay(2)]]) (simp add: grant_of_def)
  with oauth_replay(2) show ?case by (rule flow_within_db)
next
  case (oauth_claim r seen now d d' codes pend A)
  have "d' = d\<lparr>t_oauth_refresh := update_where (claimable r) (rotate_row now) (t_oauth_refresh d)\<rparr>"
    using oauth_claim(2) by (simp add: claim_refresh_Inr)
  then have "grants_within A d'" using grants_within_refresh [OF flow_withinD(1) [OF oauth_claim(3)]] by simp
  with flow_withinD(2,3) [OF oauth_claim(3)] oauth_claim(1) show ?case
    by (intro flow_withinI) (auto dest: subsetD [OF set_remove1_subset])
next
  case (oauth_lose r seen now d e codes pend A)
  show ?case
    by (rule flow_withinI) (use flow_withinD [OF oauth_lose(3)] in \<open>auto dest: subsetD [OF set_remove1_subset]\<close>)
next
  case (oauth_issue r pend c s seen d codes A now)
  obtain d' out where run:
    "issue_oauth_tokens cr cf d (or_user r) c (or_resource r) (or_scopes r) (or_family r) s now = (d', out)" by fastforce
  have "grant_of r \<in> A" using flow_withinD(3) [OF oauth_issue(4)] oauth_issue(1) by blast
  then have "(oc_client_id c, or_user r, or_resource r, or_scopes r) \<in> A" using oauth_issue(2) by (simp add: grant_of_def)
  from issue_oauth_tokens_within [OF flow_withinD(1) [OF oauth_issue(4)] this run]
  show ?case unfolding run fst_conv
    by (intro flow_withinI) (use flow_withinD(2,3) [OF oauth_issue(4)] in \<open>auto dest: subsetD [OF set_remove1_subset]\<close>)
qed

section \<open>An installation with a code and a refresh token\<close>

definition sample_config :: mcp_config where
  "sample_config =
     \<lparr>mc_resource = sample_url ''res'', mc_issuer = sample_url ''iss'', mc_web = sample_url ''web'',
      mc_access_ttl = 900, mc_refresh_ttl = 2592000, mc_request_ttl = 600, mc_code_ttl = 300\<rparr>"

definition sample_code_row :: oauth_code_row where
  "sample_code_row =
     \<lparr>od_id = ''co'', od_code_hash = ''code'', od_client = ''cl'', od_user = ''ada'', od_redirect = ''https://c/cb'',
      od_challenge = replicate 43 (CHR ''v''), od_resource = ''res'', od_scopes = [''mcp:read''],
      od_expires = 1000, od_used = None\<rparr>"

definition sample_refresh :: oauth_refresh_row where
  "sample_refresh =
     \<lparr>or_id = ''r1'', or_token_hash = ''tok1'', or_family = ''f1'', or_client = ''cl'', or_user = ''ada'',
      or_resource = ''res'', or_scopes = [''mcp:read''], or_expires = 1000, or_revoked = None, or_rotated = None\<rparr>"

definition sample_oauth :: db where
  "sample_oauth = sample_mcp\<lparr>t_oauth_codes := [sample_code_row], t_oauth_refresh := [sample_refresh]\<rparr>"

definition sample_secrets :: "ident \<Rightarrow> issue_secrets" where
  "sample_secrets i = \<lparr>is_access_id = ''a'' @ i, is_access = ''a'' @ i, is_refresh_id = i, is_refresh = i, is_family = i\<rparr>"

definition sample_code_body :: fields where
  "sample_code_body =
     [(''grant_type'', JString ''authorization_code''), (''code'', JString ''code''), (''client_id'', JString ''cl''),
      (''redirect_uri'', JString ''https://c/cb''), (''code_verifier'', JString (replicate 43 (CHR ''v''))),
      (''resource'', JString ''res'')]"

definition sample_refresh_body :: "string \<Rightarrow> fields" where
  "sample_refresh_body t = [(''refresh_token'', JString t), (''client_id'', JString ''cl'')]"

lemma sample_oauth_ok: "oauth_ok sample_oauth"
  by (simp add: sample_oauth_def oauth_rows_ok_def single_live_def rotated_revoked_def one_grant_def sample_refresh_def)

section \<open>Properties\<close>

text \<open>
  C30: However the requests of MCP clients and the approvals of users interleave, also when exchanges
  overlap (the steps of an exchange are separate), the refresh tokens stay well formed: unique ids and
  hashes, at most one live token per family, no rotated token live, one grant per family. And every
  authorization code, refresh token and access token of a client stands for a client, a user, a resource
  and scopes that this user has approved together: scopes are never widened, whatever the rotations.
\<close>

theorem oauth_requests_keep_families:
  assumes "(oauth_step ua cr cf)\<^sup>*\<^sup>* (d, [], [], [], A) (d', codes, seen, pend, A')" and "oauth_ok d"
    and "grants_within A d"
  shows "oauth_ok d' \<and> (\<forall>c \<in> set (t_oauth_codes d'). (od_client c, od_user c, od_resource c, od_scopes c) \<in> A') \<and>
    (\<forall>r \<in> set (t_oauth_refresh d'). (or_client r, or_user r, or_resource r, or_scopes r) \<in> A') \<and>
    (\<forall>t \<in> set (t_mcp_tokens d'). \<forall>cl. mt_client t = Some cl \<longrightarrow>
      (\<exists>res. mt_resource t = Some res \<and> (cl, mt_user t, res, mt_scopes t) \<in> A'))"
proof -
  have "oauth_state_ok (d, [], [], [], A)" "flow_within (d, [], [], [], A)"
    using assms(2,3) by (simp_all add: oauth_state_ok_def flow_within_def)
  with assms(1) have "oauth_state_ok (d', codes, seen, pend, A') \<and> flow_within (d', codes, seen, pend, A')"
    by (induction rule: rtranclp_induct) (auto intro: oauth_step_ok oauth_step_within)
  then show ?thesis
    by (simp add: oauth_state_ok_def flow_within_def grants_within_def code_grant_def grant_of_def token_within_def)
qed

theorem oauth_requests_keep_families_witness:
  "\<exists>d'. fst (finish_code sample_crypto sample_config sample_oauth sample_code_row sample_client (sample_secrets ''r2'') 5) = d' \<and>
     oauth_ok d' \<and> length (t_oauth_refresh d') = 2 \<and>
     (\<forall>r \<in> set (t_oauth_refresh d'). (or_client r, or_resource r, or_scopes r) = (''cl'', ''res'', [''mcp:read'']))"
proof -
  let ?A = "{(''cl'', ''ada'', ''res'', [''mcp:read'']), (''cl'', ''own'', ''res'', [''mcp:read''])}"
  let ?d = "fst (finish_code sample_crypto sample_config sample_oauth sample_code_row sample_client (sample_secrets ''r2'') 5)"
  have within: "grants_within ?A sample_oauth"
    by (simp add: grants_within_def sample_oauth_def sample_code_row_def sample_refresh_def code_grant_def grant_of_def
        sample_mcp_def token_within_def oauth_token_row_def sample_client_def)
  obtain inp where read: "read_code sample_urls sample_crypto (\<lambda>x. x) sample_oauth inp 5 = Inr sample_code_row"
  proof -
    have "case code_input_of sample_code_body of Inr inp \<Rightarrow>
        (case read_code sample_urls sample_crypto (\<lambda>x. x) sample_oauth inp 5 of Inr c \<Rightarrow> c = sample_code_row | _ \<Rightarrow> False) | _ \<Rightarrow> False"
      by code_simp
    then show ?thesis using that by (auto split: sum.splits)
  qed
  have client: "find_client sample_oauth (od_client sample_code_row) = Some sample_client" by code_simp
  have "oauth_step sample_urls sample_crypto sample_config (sample_oauth, [], [], [], ?A)
      (sample_oauth, [(sample_code_row, sample_client)], [], [], ?A)"
    by (rule oauth_read_code [OF read client])
  moreover have "oauth_step sample_urls sample_crypto sample_config (sample_oauth, [(sample_code_row, sample_client)], [], [], ?A)
      (?d, remove1 (sample_code_row, sample_client) [(sample_code_row, sample_client)], [], [], ?A)"
    by (rule oauth_code) (simp_all add: sample_oauth_def sample_secrets_def sample_refresh_def)
  ultimately have "(oauth_step sample_urls sample_crypto sample_config)\<^sup>*\<^sup>* (sample_oauth, [], [], [], ?A)
      (?d, remove1 (sample_code_row, sample_client) [(sample_code_row, sample_client)], [], [], ?A)"
    by (meson r_into_rtranclp rtranclp_trans)
  note step = oauth_requests_keep_families [OF this sample_oauth_ok within]
  have "length (t_oauth_refresh ?d) = 2" by code_simp
  with step show ?thesis by auto
qed

text \<open>
  The exchange of a refresh token is a read, a claim and an issue of the step relation without anything
  in between.
\<close>

lemma exchange_refresh_Inr:
  assumes "exchange_refresh ua cr cf d body s now = (d', Inr tr)"
  obtains token client res r c d1 where "required_string body ''refresh_token'' = Inr token"
    and "required_string body ''client_id'' = Inr client" and "optional_string body ''resource'' 4096 = Inr res"
    and "read_refresh ua d (cr_hash cr token) client res now = Usable r"
    and "find_client d (or_client r) = Some c" and "claim_refresh r now d = Inr d1"
    and "issue_oauth_tokens cr cf d1 (or_user r) c (or_resource r) (or_scopes r) (or_family r) s now = (d', Inr tr)"
  using assms
  by (auto simp: exchange_refresh_def rbind_eq_Inr rbind_eq_Inl split: sum.splits oauth_read.splits option.splits)

lemma exchange_code_Inr:
  assumes "exchange_code ua cr pkce cf d body s now = (d', Inr tr)"
  obtains inp c client where "code_input_of body = Inr inp" and "read_code ua cr pkce d inp now = Inr c"
    and "find_client d (od_client c) = Some client"
    and "finish_code cr cf d c client s now = (d', Inr tr)"
  using assms by (auto simp: exchange_code_def rbind_eq_Inr split: sum.splits option.splits)

lemma finish_code_Inr:
  assumes "finish_code cr cf d c client s now = (d', Inr tr)"
  shows "t_oauth_codes d' = update_where (\<lambda>x. od_id x = od_id c \<and> od_used x = None)
      (\<lambda>x. x\<lparr>od_used := Some now\<rparr>) (t_oauth_codes d)"
    and "t_mcp_tokens d' = t_mcp_tokens d @ [issued_access cr cf (od_user c) client (od_resource c) (od_scopes c) s now]"
    and "t_oauth_refresh d' = t_oauth_refresh d @
      [refresh_row cr cf (od_user c) client (od_resource c) (od_scopes c) (is_family s) s now]"
    and "tr_access tr = TOKEN_PREFIX @ is_access s" and "tr_refresh tr = ''ad_wiki_refresh_'' @ is_refresh s"
proof -
  obtain d1 where claim: "claim_code c now d = Inr d1"
    and issue: "issue_oauth_tokens cr cf (touch_client (od_client c) now d1) (od_user c) client (od_resource c)
        (od_scopes c) (is_family s) s now = (d', Inr tr)"
    using assms by (auto simp: finish_code_def split: sum.splits if_splits)
  note i = issue_oauth_tokens_Inr [OF issue]
  show "t_oauth_codes d' = update_where (\<lambda>x. od_id x = od_id c \<and> od_used x = None)
      (\<lambda>x. x\<lparr>od_used := Some now\<rparr>) (t_oauth_codes d)"
    "t_mcp_tokens d' = t_mcp_tokens d @ [issued_access cr cf (od_user c) client (od_resource c) (od_scopes c) s now]"
    "t_oauth_refresh d' = t_oauth_refresh d @
      [refresh_row cr cf (od_user c) client (od_resource c) (od_scopes c) (is_family s) s now]"
    using claim by (auto simp: i(1) touch_client_def claim_code_def Let_def split: if_splits)
qed (use assms in \<open>auto simp: finish_code_def dest: issue_oauth_tokens_Inr split: sum.splits if_splits\<close>)

text \<open>A code that was claimed is used up for every later and for every overlapping exchange.\<close>

lemma claimed_code_refused:
  assumes keys: "distinct (map od_id (t_oauth_codes d))" "distinct (map od_code_hash (t_oauth_codes d))"
    and c: "c \<in> set (t_oauth_codes d)" "od_used c = None"
    and d': "t_oauth_codes d' = update_where (\<lambda>x. od_id x = od_id c \<and> od_used x = None)
      (\<lambda>x. x\<lparr>od_used := Some now\<rparr>) (t_oauth_codes d)"
  shows "cr_hash cr (ci_code inp) = od_code_hash c \<Longrightarrow>
      read_code ua cr pkce d' inp later = Inl (BadRequest ''invalid_grant'')"
    and "finish_code cr cf d' c client s later = (d', Inl (BadRequest ''invalid_grant''))"
proof -
  have "List.find (\<lambda>x. od_code_hash x = od_code_hash c) (t_oauth_codes d') = Some (c\<lparr>od_used := Some now\<rparr>)"
    unfolding d' using find_by_key [OF keys(2) c(1) refl] c(2) by (simp add: find_update_where)
  then show "cr_hash cr (ci_code inp) = od_code_hash c \<Longrightarrow>
      read_code ua cr pkce d' inp later = Inl (BadRequest ''invalid_grant'')"
    by (simp add: read_code_def)
  have "count_where (\<lambda>x. od_id x = od_id c \<and> od_used x = None) (t_oauth_codes d') = 0"
    unfolding d' count_where_eq_0 set_update_where ball_simps by simp
  then show "finish_code cr cf d' c client s later = (d', Inl (BadRequest ''invalid_grant''))"
    by (simp add: finish_code_def claim_code_def Let_def)
qed

text \<open>
  C31: An authorization code buys tokens only for the request it was made for, and only once. The client,
  the redirect URI, the resource and the PKCE verifier of a successful exchange are those of the approved
  request, the code is neither expired nor used; both tokens carry exactly the approved user, client,
  resource and scopes; and the code is refused afterwards, for a new exchange as for one that had
  already read it.
\<close>

theorem code_exchange_bound:
  assumes keys: "distinct (map od_id (t_oauth_codes d))" "distinct (map od_code_hash (t_oauth_codes d))"
    and run: "exchange_code ua cr pkce cf d body s now = (d', Inr tr)"
  shows "\<exists>inp. \<exists>c \<in> set (t_oauth_codes d). \<exists>u.
    code_input_of body = Inr inp \<and> od_code_hash c = cr_hash cr (ci_code inp) \<and> od_used c = None \<and>
    now < od_expires c \<and> od_client c = ci_client inp \<and> od_redirect c = ci_redirect inp \<and>
    ua_parse ua (ci_resource inp) = Some u \<and> canonical u = od_resource c \<and> pkce (ci_verifier inp) = od_challenge c \<and>
    (\<exists>t \<in> set (t_mcp_tokens d'). mt_token_hash t = cr_hash cr (tr_access tr) \<and> mt_user t = od_user c \<and>
       mt_client t = Some (od_client c) \<and> mt_resource t = Some (od_resource c) \<and> mt_scopes t = od_scopes c \<and>
       mt_expires t = Some (now + mc_access_ttl cf * 1000)) \<and>
    (\<exists>r \<in> set (t_oauth_refresh d'). or_token_hash r = cr_hash cr (tr_refresh tr) \<and>
       grant_of r = (od_client c, od_user c, od_resource c, od_scopes c)) \<and>
    (\<forall>inp' later. ci_code inp' = ci_code inp \<longrightarrow>
       read_code ua cr pkce d' inp' later = Inl (BadRequest ''invalid_grant'')) \<and>
    (\<forall>client s' later. finish_code cr cf d' c client s' later = (d', Inl (BadRequest ''invalid_grant'')))"
proof -
  from run obtain inp c client where inp: "code_input_of body = Inr inp" and read: "read_code ua cr pkce d inp now = Inr c"
    and client: "find_client d (od_client c) = Some client" and fin: "finish_code cr cf d c client s now = (d', Inr tr)"
    by (rule exchange_code_Inr)
  from read obtain u where c: "c \<in> set (t_oauth_codes d)" "od_code_hash c = cr_hash cr (ci_code inp)"
      "od_used c = None" "now < od_expires c" "od_client c = ci_client inp" "od_redirect c = ci_redirect inp"
      "ua_parse ua (ci_resource inp) = Some u" "canonical u = od_resource c" "pkce (ci_verifier inp) = od_challenge c"
    by (auto simp: read_code_def rbind_eq_Inr pkce_matches_def dest!: find_SomeD)
  note f = finish_code_Inr [OF fin]
  let ?t = "issued_access cr cf (od_user c) client (od_resource c) (od_scopes c) s now"
  let ?r = "refresh_row cr cf (od_user c) client (od_resource c) (od_scopes c) (is_family s) s now"
  have "\<exists>t \<in> set (t_mcp_tokens d'). mt_token_hash t = cr_hash cr (tr_access tr) \<and> mt_user t = od_user c \<and>
       mt_client t = Some (od_client c) \<and> mt_resource t = Some (od_resource c) \<and> mt_scopes t = od_scopes c \<and>
       mt_expires t = Some (now + mc_access_ttl cf * 1000)"
    by (rule bexI [of _ ?t])
      (simp_all add: f issued_access_def oauth_token_row_def find_client_id [OF client])
  moreover have "\<exists>r \<in> set (t_oauth_refresh d'). or_token_hash r = cr_hash cr (tr_refresh tr) \<and>
       grant_of r = (od_client c, od_user c, od_resource c, od_scopes c)"
    by (rule bexI [of _ ?r]) (simp_all add: f refresh_row_def grant_of_def find_client_id [OF client])
  moreover note claimed_code_refused [OF keys c(1,3) f(1)]
  ultimately show ?thesis using inp c by (intro exI [of _ inp] bexI [of _ c] exI [of _ u]) auto
qed

theorem code_exchange_bound_witness:
  "\<exists>d' tr. exchange_code sample_urls sample_crypto (\<lambda>x. x) sample_config sample_oauth sample_code_body
       (sample_secrets ''r2'') 5 = (d', Inr tr) \<and>
     (\<exists>t \<in> set (t_mcp_tokens d'). mt_user t = ''ada'' \<and> mt_scopes t = [''mcp:read''])"
proof -
  have "case exchange_code sample_urls sample_crypto (\<lambda>x. x) sample_config sample_oauth sample_code_body
       (sample_secrets ''r2'') 5 of (_, Inr _) \<Rightarrow> True | _ \<Rightarrow> False" by code_simp
  then obtain d' tr where run: "exchange_code sample_urls sample_crypto (\<lambda>x. x) sample_config sample_oauth
      sample_code_body (sample_secrets ''r2'') 5 = (d', Inr tr)"
    by (auto split: prod.splits sum.splits)
  have "distinct (map od_id (t_oauth_codes sample_oauth))" "distinct (map od_code_hash (t_oauth_codes sample_oauth))"
    by (simp_all add: sample_oauth_def)
  from code_exchange_bound [OF this run] obtain c t where "c \<in> set (t_oauth_codes sample_oauth)"
      "t \<in> set (t_mcp_tokens d')" "mt_user t = od_user c" "mt_scopes t = od_scopes c" by blast
  with run show ?thesis by (auto simp: sample_oauth_def sample_code_row_def)
qed

lemma claim_refresh_row:
  assumes "claim_refresh r now d = Inr d1"
  shows "t_mcp_tokens d1 = t_mcp_tokens d" and "t_oauth_codes d1 = t_oauth_codes d"
    and "find_client d1 i = find_client d i" and "find_user d1 i = find_user d i"
  using assms by (auto simp: claim_refresh_Inr find_client_def find_user_def)

text \<open>A rotated token stays recognisable: its hash finds it, marked as rotated.\<close>

lemma rotated_replayed:
  assumes ok: "oauth_ok d" and r: "r \<in> set (t_oauth_refresh d)" "or_rotated r \<noteq> None"
  shows "read_refresh ua d (or_token_hash r) client res now = Replayed r"
proof -
  have "find_refresh d (or_token_hash r) = Some r"
    using ok r(1) by (simp add: find_refresh_def oauth_rows_ok_def find_by_key)
  with r(2) show ?thesis by (simp add: read_refresh_def)
qed

lemma dead_family_unusable:
  assumes "family_dead or_family or_revoked f (t_oauth_refresh d)" and "or_family q = f"
  shows "read_refresh ua d h client res now \<noteq> Usable q"
proof
  assume u: "read_refresh ua d h client res now = Usable q"
  then have "q \<in> set (t_oauth_refresh d)" "or_revoked q = None"
    by (auto simp: read_refresh_def find_refresh_def dest: find_SomeD split: option.splits if_splits)
  with assms show False unfolding family_dead_def by metis
qed

text \<open>
  A refresh token works once. An exchange succeeds only for the client the token was issued to, gives
  an access token and a refresh token with the same user, client, resource and scopes, in the same
  family, and whoever presents the old token again, after any lapse of time, is refused and ends the
  family: none of its refresh tokens can be used any more. The access tokens already issued stay as
  they are.
\<close>

theorem oauth_refresh_single_use:
  assumes ok: "oauth_ok d" and run: "exchange_refresh ua cr cf d body s now = (d', Inr tr)"
    and token: "required_string body ''refresh_token'' = Inr token"
    and again: "required_string body' ''refresh_token'' = Inr token"
      "required_string body' ''client_id'' = Inr client'" "optional_string body' ''resource'' 4096 = Inr res'"
  shows "\<exists>r \<in> set (t_oauth_refresh d). or_token_hash r = cr_hash cr token \<and> now < or_expires r \<and>
    required_string body ''client_id'' = Inr (or_client r) \<and>
    (\<exists>t \<in> set (t_mcp_tokens d'). mt_token_hash t = cr_hash cr (tr_access tr) \<and> mt_user t = or_user r \<and>
       mt_client t = Some (or_client r) \<and> mt_resource t = Some (or_resource r) \<and> mt_scopes t = or_scopes r) \<and>
    (\<exists>n \<in> set (t_oauth_refresh d'). or_token_hash n = cr_hash cr (tr_refresh tr) \<and> or_family n = or_family r \<and>
       grant_of n = grant_of r \<and> or_revoked n = None) \<and>
    (\<exists>d2. exchange_refresh ua cr cf d' body' s' later = (d2, Inl (BadRequest ''invalid_grant'')) \<and>
       t_mcp_tokens d2 = t_mcp_tokens d' \<and>
       family_dead or_family or_revoked (or_family r) (t_oauth_refresh d2) \<and>
       (\<forall>h client res t q. or_family q = or_family r \<longrightarrow> read_refresh ua d2 h client res t \<noteq> Usable q))"
proof -
  from run obtain client res r c d1 where req: "required_string body ''client_id'' = Inr client"
    and read: "read_refresh ua d (cr_hash cr token) client res now = Usable r"
    and c: "find_client d (or_client r) = Some c" and claim: "claim_refresh r now d = Inr d1"
    and issue: "issue_oauth_tokens cr cf d1 (or_user r) c (or_resource r) (or_scopes r) (or_family r) s now = (d', Inr tr)"
    by (rule exchange_refresh_Inr) (use token in simp)
  have r: "r \<in> set (t_oauth_refresh d)" "or_token_hash r = cr_hash cr token" "or_rotated r = None"
      "or_revoked r = None" "now < or_expires r" "or_client r = client"
    using read by (auto simp: read_refresh_def find_refresh_def dest: find_SomeD split: option.splits if_splits)
  note i = issue_oauth_tokens_Inr [OF issue]
  let ?t = "issued_access cr cf (or_user r) c (or_resource r) (or_scopes r) s now"
  let ?n = "refresh_row cr cf (or_user r) c (or_resource r) (or_scopes r) (or_family r) s now"
  have rows: "t_oauth_refresh d' = update_where (claimable r) (rotate_row now) (t_oauth_refresh d) @ [?n]"
    using claim by (simp add: i(1) claim_refresh_Inr)
  have hit: "claimable r r" using r by (simp add: claimable_def)
  have "rotate_row now r \<in> set (update_where (claimable r) (rotate_row now) (t_oauth_refresh d))"
    unfolding set_update_where by (rule image_eqI [OF _ r(1)]) (simp add: hit)
  moreover have "find_refresh d' (or_token_hash r) = Some (rotate_row now r)"
    using ok r(1) hit
    by (simp add: find_refresh_def rows find_append find_update_where oauth_rows_ok_def find_by_key)
  ultimately have replay: "read_refresh ua d' (cr_hash cr token) client' res' later = Replayed (rotate_row now r)"
    by (simp add: read_refresh_def r(2) [symmetric] rotate_row_def)
  let ?d2 = "revoke_oauth_family (or_family r) later d'"
  have out: "exchange_refresh ua cr cf d' body' s' later = (?d2, Inl (BadRequest ''invalid_grant''))"
    using again replay by (simp add: exchange_refresh_def)
  have dead: "family_dead or_family or_revoked (or_family r) (t_oauth_refresh ?d2)"
    by (simp add: revoke_oauth_family_rows oauth_tokens.revoke_family_dead)
  have "\<exists>t \<in> set (t_mcp_tokens d'). mt_token_hash t = cr_hash cr (tr_access tr) \<and> mt_user t = or_user r \<and>
       mt_client t = Some (or_client r) \<and> mt_resource t = Some (or_resource r) \<and> mt_scopes t = or_scopes r"
    by (rule bexI [of _ ?t]) (simp_all add: i issued_access_def oauth_token_row_def find_client_id [OF c])
  moreover have "\<exists>n \<in> set (t_oauth_refresh d'). or_token_hash n = cr_hash cr (tr_refresh tr) \<and>
       or_family n = or_family r \<and> grant_of n = grant_of r \<and> or_revoked n = None"
    by (rule bexI [of _ ?n]) (simp_all add: i refresh_row_def grant_of_def find_client_id [OF c])
  moreover have "t_mcp_tokens ?d2 = t_mcp_tokens d'" by (simp add: revoke_oauth_family_def)
  moreover note dead_family_unusable [OF dead]
  ultimately show ?thesis
    using r(2,5,6) out dead req
    by (intro bexI [OF _ r(1)]) (intro conjI exI [of _ ?d2], (assumption | simp | blast)+)
qed

theorem oauth_refresh_single_use_witness:
  "\<exists>d' tr d2. exchange_refresh sample_urls sample_crypto sample_config sample_oauth (sample_refresh_body ''tok1'')
       (sample_secrets ''r2'') 5 = (d', Inr tr) \<and>
     exchange_refresh sample_urls sample_crypto sample_config d' (sample_refresh_body ''tok1'')
       (sample_secrets ''r3'') 6 = (d2, Inl (BadRequest ''invalid_grant'')) \<and>
     length (t_oauth_refresh d') = 2"
proof -
  have "case exchange_refresh sample_urls sample_crypto sample_config sample_oauth (sample_refresh_body ''tok1'')
       (sample_secrets ''r2'') 5 of (d', Inr _) \<Rightarrow> length (t_oauth_refresh d') = 2 | _ \<Rightarrow> False" by code_simp
  then obtain d' tr where run: "exchange_refresh sample_urls sample_crypto sample_config sample_oauth
      (sample_refresh_body ''tok1'') (sample_secrets ''r2'') 5 = (d', Inr tr)" "length (t_oauth_refresh d') = 2"
    by (auto split: prod.splits sum.splits)
  have body: "required_string (sample_refresh_body ''tok1'') ''refresh_token'' = Inr ''tok1''"
    "required_string (sample_refresh_body ''tok1'') ''client_id'' = Inr ''cl''"
    "optional_string (sample_refresh_body ''tok1'') ''resource'' 4096 = Inr None"
    by code_simp+
  from oauth_refresh_single_use [OF sample_oauth_ok run(1) body(1) body, of "sample_secrets ''r3''" 6] run
  show ?thesis by blast
qed

text \<open>
  The detection of reuse has a gap. A token is rotated by one request; before its successor is
  stored, the old token is presented again, and the family is revoked. The first request then stores its
  successor in the revoked family, live: the holder of that token goes on as if nothing had happened.
\<close>

theorem reuse_race_leaves_live_token:
  assumes claim: "claim_refresh r now d = Inr d1"
    and replay: "read_refresh ua d1 h client res later = Replayed q" "or_family q = or_family r"
    and issue: "issue_oauth_tokens cr cf (revoke_oauth_family (or_family q) later d1) (or_user r) c (or_resource r)
      (or_scopes r) (or_family r) s final = (d3, Inr tr)"
  shows "(\<exists>n \<in> set (t_oauth_refresh d3). or_token_hash n = cr_hash cr (tr_refresh tr) \<and>
      or_family n = or_family q \<and> or_revoked n = None) \<and>
    \<not> family_dead or_family or_revoked (or_family q) (t_oauth_refresh d3)"
proof -
  let ?n = "refresh_row cr cf (or_user r) c (or_resource r) (or_scopes r) (or_family r) s final"
  note i = issue_oauth_tokens_Inr [OF issue]
  have "\<exists>n \<in> set (t_oauth_refresh d3). or_token_hash n = cr_hash cr (tr_refresh tr) \<and>
      or_family n = or_family q \<and> or_revoked n = None"
    by (rule bexI [of _ ?n]) (simp_all add: i refresh_row_def replay(2))
  then show ?thesis by (auto simp: family_dead_def)
qed

theorem reuse_race_leaves_live_token_witness:
  "\<exists>d1 q d3 tr. claim_refresh sample_refresh 5 sample_oauth = Inr d1 \<and>
     read_refresh sample_urls d1 ''tok1'' ''cl'' None 6 = Replayed q \<and>
     issue_oauth_tokens sample_crypto sample_config (revoke_oauth_family ''f1'' 6 d1) ''ada'' sample_client ''res''
       [''mcp:read''] ''f1'' (sample_secrets ''r2'') 7 = (d3, Inr tr) \<and>
     \<not> family_dead or_family or_revoked ''f1'' (t_oauth_refresh d3)"
proof -
  have "case claim_refresh sample_refresh 5 sample_oauth of Inr d1 \<Rightarrow>
      (case read_refresh sample_urls d1 ''tok1'' ''cl'' None 6 of Replayed q \<Rightarrow> or_family q = ''f1'' \<and>
        (case issue_oauth_tokens sample_crypto sample_config (revoke_oauth_family ''f1'' 6 d1) ''ada'' sample_client ''res''
           [''mcp:read''] ''f1'' (sample_secrets ''r2'') 7 of (_, Inr _) \<Rightarrow> True | _ \<Rightarrow> False)
       | _ \<Rightarrow> False) | _ \<Rightarrow> False"
    by code_simp
  then obtain d1 q where run: "claim_refresh sample_refresh 5 sample_oauth = Inr d1"
    "read_refresh sample_urls d1 ''tok1'' ''cl'' None 6 = Replayed q" "or_family q = ''f1''"
    and issue: "case issue_oauth_tokens sample_crypto sample_config (revoke_oauth_family ''f1'' 6 d1) ''ada'' sample_client
       ''res'' [''mcp:read''] ''f1'' (sample_secrets ''r2'') 7 of (_, Inr _) \<Rightarrow> True | _ \<Rightarrow> False"
    by (auto split: sum.splits oauth_read.splits simp del: split_paired_Ex)
  from issue obtain d3 tr where run': "issue_oauth_tokens sample_crypto sample_config (revoke_oauth_family ''f1'' 6 d1)
      ''ada'' sample_client ''res'' [''mcp:read''] ''f1'' (sample_secrets ''r2'') 7 = (d3, Inr tr)"
    by (auto split: prod.splits sum.splits)
  have r: "or_family sample_refresh = ''f1''" "or_user sample_refresh = ''ada''" "or_resource sample_refresh = ''res''"
    "or_scopes sample_refresh = [''mcp:read'']" by (simp_all add: sample_refresh_def)
  have "\<not> family_dead or_family or_revoked (or_family q) (t_oauth_refresh d3)"
    using reuse_race_leaves_live_token [OF run(1,2), of sample_crypto sample_config sample_client] run(3) run' r by auto
  with run run' show ?thesis by auto
qed

end
