(* ===== verification/Mcp_Rate_Limit.thy ===== *)
theory Mcp_Rate_Limit
  imports Text
begin

text \<open>
  \<^verbatim>\<open>apps/api/src/modules/mcp/mcp-rate-limit.service.ts\<close>: a counter per token and kind of request, reset
  after a window. Production counts in Redis, with a script that all instances share; without Redis the
  counters are a \<open>Map\<close> in memory. The script is modelled; the commands it calls are a parameter, with
  their documented effect (\<open>redis_ok\<close>). What both stores have in common is the locale \<open>window_store\<close>.
\<close>

datatype request_kind = Read_Request | Write_Request

record bucket =
  bk_count :: nat
  bk_reset :: time

record rate_config =
  rl_read :: nat
  rl_write :: nat
  rl_window :: int

record rate_result =
  rr_allowed :: bool
  rr_limit :: nat
  rr_remaining :: nat
  rr_retry_after :: int

type_synonym buckets = "(string \<times> bucket) list"

definition limit_of :: "rate_config \<Rightarrow> request_kind \<Rightarrow> nat" where
  "limit_of cf k = (case k of Write_Request \<Rightarrow> rl_write cf | Read_Request \<Rightarrow> rl_read cf)"

definition kind_name :: "request_kind \<Rightarrow> string" where
  "kind_name k = (case k of Write_Request \<Rightarrow> ''write'' | Read_Request \<Rightarrow> ''read'')"

definition rate_key :: "request_kind \<Rightarrow> ident \<Rightarrow> string" where
  "rate_key k token = ''ad-wiki:mcp:rate:'' @ kind_name k @ CHR '':'' # token"

definition next_bucket :: "rate_config \<Rightarrow> bucket option \<Rightarrow> time \<Rightarrow> bucket" where
  "next_bucket cf current now =
     (case current of
        None \<Rightarrow> \<lparr>bk_count = 1, bk_reset = now + rl_window cf\<rparr>
      | Some b \<Rightarrow>
          if bk_reset b \<le> now then \<lparr>bk_count = 1, bk_reset = now + rl_window cf\<rparr>
          else \<lparr>bk_count = bk_count b + 1, bk_reset = bk_reset b\<rparr>)"

text \<open>Beyond 10000 entries the expired ones are dropped.\<close>

definition prune :: "time \<Rightarrow> buckets \<Rightarrow> buckets" where
  "prune now m = (if 10000 < length m then filter (\<lambda>(k, b). \<not> bk_reset b \<le> now) m else m)"

definition consume_memory :: "rate_config \<Rightarrow> string \<Rightarrow> time \<Rightarrow> buckets \<Rightarrow> buckets \<times> nat \<times> int" where
  "consume_memory cf key now m =
     (let b = next_bucket cf (map_of m key) now
      in (prune now (map_put key b m), bk_count b, bk_reset b - now))"

text \<open>
  The commands of Redis that the script calls, each on the server's state at a time: \<open>INCR\<close> returns the
  new value, \<open>PTTL\<close> the remaining milliseconds.
\<close>

record 's redis_api =
  rd_incr :: "string \<Rightarrow> time \<Rightarrow> 's \<Rightarrow> 's \<times> nat"
  rd_pexpire :: "string \<Rightarrow> int \<Rightarrow> time \<Rightarrow> 's \<Rightarrow> 's"
  rd_pttl :: "string \<Rightarrow> time \<Rightarrow> 's \<Rightarrow> int"

definition rate_script :: "'s redis_api \<Rightarrow> string \<Rightarrow> int \<Rightarrow> time \<Rightarrow> 's \<Rightarrow> 's \<times> nat \<times> int" where
  "rate_script R key ms now s =
     (let (s1, c) = rd_incr R key now s;
          s2 = (if c = 1 then rd_pexpire R key ms now s1 else s1)
      in (s2, c, rd_pttl R key now s2))"

text \<open>Where the counters are, and \<open>onModuleInit\<close>.\<close>

datatype 's rate_store = In_Memory buckets | In_Redis 's

definition init_store :: "string option \<Rightarrow> bool \<Rightarrow> 's \<Rightarrow> 's rate_store result" where
  "init_store redis_url production server =
     (if redis_url = None \<or> trim (the redis_url) = []
      then if production then Inl (Internal ''REDIS_URL'') else Inr (In_Memory [])
      else Inr (In_Redis server))"

text \<open>A call of the script is answered, or fails before or after the server has run it.\<close>

datatype redis_call = Answered | Not_Sent | Answer_Lost

definition rate_result_of :: "nat \<Rightarrow> nat \<Rightarrow> int \<Rightarrow> rate_result" where
  "rate_result_of limit count ttl =
     \<lparr>rr_allowed = (count \<le> limit), rr_limit = limit, rr_remaining = limit - count,
      rr_retry_after = max 1 ((ttl + 999) div 1000)\<rparr>"

definition consume ::
    "'s redis_api \<Rightarrow> rate_config \<Rightarrow> redis_call \<Rightarrow> 's rate_store \<Rightarrow> ident \<Rightarrow> request_kind \<Rightarrow> time \<Rightarrow>
     's rate_store \<times> rate_result result" where
  "consume R cf call store token k now =
     (let key = rate_key k token
      in case store of
        In_Redis s \<Rightarrow>
          (case rate_script R key (rl_window cf) now s of
             (s', count, ttl) \<Rightarrow>
               (case call of
                  Answered \<Rightarrow> (In_Redis s', Inr (rate_result_of (limit_of cf k) count (max 1 ttl)))
                | Not_Sent \<Rightarrow> (In_Redis s, Inl (Unavailable ''rate limit store''))
                | Answer_Lost \<Rightarrow> (In_Redis s', Inl (Unavailable ''rate limit store''))))
      | In_Memory m \<Rightarrow>
          (case consume_memory cf key now m of
             (m', count, ttl) \<Rightarrow> (In_Memory m', Inr (rate_result_of (limit_of cf k) count ttl))))"

section \<open>A history of requests\<close>

text \<open>
  The requests of all tokens, in the order the store sees them, with their times and what becomes of the
  call; which of them are let through, and how many of one token. With Redis these are the requests of
  all instances.
\<close>

type_synonym rate_event = "ident \<times> request_kind \<times> time \<times> redis_call"

fun run_requests :: "'s redis_api \<Rightarrow> rate_config \<Rightarrow> 's rate_store \<Rightarrow> rate_event list \<Rightarrow> bool list" where
  "run_requests R cf st [] = []"
| "run_requests R cf st ((token, k, now, call) # es) =
     (case consume R cf call st token k now of
        (st', Inr r) \<Rightarrow> rr_allowed r # run_requests R cf st' es
      | (st', Inl _) \<Rightarrow> False # run_requests R cf st' es)"

fun count_allowed :: "ident \<Rightarrow> request_kind \<Rightarrow> rate_event list \<Rightarrow> bool list \<Rightarrow> nat" where
  "count_allowed token k ((t, k', _, _) # es) (b # bs) =
     (if t = token \<and> k' = k \<and> b then 1 else 0) + count_allowed token k es bs"
| "count_allowed token k _ _ = 0"

section \<open>Counters with a window\<close>

text \<open>
  A counter is a number with the time it ends (\<open>None\<close>: never). Counting starts a window when there is
  no counter, and otherwise leaves the window alone.
\<close>

type_synonym counter = "nat \<times> time option"

definition alive :: "time \<Rightarrow> counter option \<Rightarrow> counter option" where
  "alive t b = (case b of Some (n, Some e) \<Rightarrow> if e \<le> t then None else b | _ \<Rightarrow> b)"

definition counted :: "int \<Rightarrow> time \<Rightarrow> counter option \<Rightarrow> counter" where
  "counted window now b = (case b of None \<Rightarrow> (1, Some (now + window)) | Some (n, e) \<Rightarrow> (n + 1, e))"

text \<open>How many more requests of a counter can pass before the time \<open>stop\<close>.\<close>

definition credit :: "nat \<Rightarrow> time \<Rightarrow> counter option \<Rightarrow> nat" where
  "credit limit stop b =
     (case b of
        None \<Rightarrow> limit
      | Some (n, None) \<Rightarrow> limit - n
      | Some (n, Some e) \<Rightarrow> if stop \<le> e then limit - n else (limit - n) + limit)"

lemma credit_alive: "t < stop \<Longrightarrow> credit limit stop (alive t b) \<le> credit limit stop b"
  by (auto simp: credit_def alive_def split: option.splits)

lemma credit_twice: "credit limit stop b \<le> 2 * limit"
  by (auto simp: credit_def split: option.splits)

lemma credit_counted:
  assumes "alive now b = b" and "start \<le> now" and "now < stop" and "stop \<le> start + window"
  shows "(if fst (counted window now b) \<le> limit then 1 else 0) + credit limit stop (alive now (Some (counted window now b))) \<le>
    credit limit stop b"
  using assms by (auto simp: credit_def alive_def counted_def split: option.splits if_splits)

text \<open>What a limiter needs of its store: \<open>hit\<close> counts one request, \<open>live\<close> shows the counters at a time.\<close>

locale window_store =
  fixes window :: int and hit :: "string \<Rightarrow> time \<Rightarrow> 's \<Rightarrow> 's \<times> nat \<times> int"
    and live :: "'s \<Rightarrow> string \<Rightarrow> time \<Rightarrow> counter option" and ok :: "'s \<Rightarrow> time \<Rightarrow> bool"
  assumes live_later: "ok s t \<Longrightarrow> t \<le> t' \<Longrightarrow> live s k t' = alive t' (live s k t)"
    and ok_later: "ok s t \<Longrightarrow> t \<le> t' \<Longrightarrow> ok s t'"
    and hit_ok: "ok s now \<Longrightarrow> hit key now s = (s', c, ttl) \<Longrightarrow> ok s' now"
    and hit_count: "ok s now \<Longrightarrow> hit key now s = (s', c, ttl) \<Longrightarrow> c = fst (counted window now (live s key now))"
    and hit_live: "ok s now \<Longrightarrow> hit key now s = (s', c, ttl) \<Longrightarrow>
      live s' key now = alive now (Some (counted window now (live s key now)))"
    and hit_other: "ok s now \<Longrightarrow> hit key now s = (s', c, ttl) \<Longrightarrow> k \<noteq> key \<Longrightarrow> live s' k now = live s k now"
begin

lemma credit_later: "ok s t \<Longrightarrow> t \<le> now \<Longrightarrow> now < stop \<Longrightarrow> credit limit stop (live s k now) \<le> credit limit stop (live s k t)"
  using credit_alive [of now stop limit "live s k t"] live_later [of s t now k] by simp

text \<open>A request that passes uses up credit of its own counter, and none of another.\<close>

lemma credit_hit:
  assumes "ok s now" and run: "hit key now s = (s', c, ttl)" and "start \<le> now" and "now < stop" and "stop \<le> start + window"
  shows "(if key = k \<and> c \<le> limit then 1 else 0) + credit limit stop (live s' k now) \<le> credit limit stop (live s k now)"
proof (cases "key = k")
  case True
  have "alive now (live s key now) = live s key now" using live_later [OF assms(1) order_refl, of key] by (rule sym)
  from credit_counted [OF this assms(3-5), of limit] show ?thesis
    unfolding hit_live [OF assms(1) run] True [symmetric] hit_count [OF assms(1) run] by simp
qed (simp add: hit_other [OF assms(1) run])

end

section \<open>Memory\<close>

definition memory_live :: "buckets \<Rightarrow> string \<Rightarrow> time \<Rightarrow> counter option" where
  "memory_live m key now = alive now (map_option (\<lambda>b. (bk_count b, Some (bk_reset b))) (map_of m key))"

lemma rate_key_inj: "rate_key k t = rate_key k' t' \<longleftrightarrow> k = k' \<and> t = t'"
proof -
  have "CHR '':'' \<notin> set (kind_name j)" for j by (cases j) (simp_all add: kind_name_def)
  moreover have "kind_name k = kind_name k' \<longleftrightarrow> k = k'"
    by (cases k; cases k') (simp_all add: kind_name_def)
  ultimately show ?thesis
    using split_at_sep [of "kind_name k" "CHR '':''" t "kind_name k'" t'] by (auto simp: rate_key_def)
qed

lemma map_of_unexpired:
  "distinct (map fst m) \<Longrightarrow> map_of (filter (\<lambda>(k, b). \<not> bk_reset b \<le> now) m) key =
     (case map_of m key of None \<Rightarrow> None | Some b \<Rightarrow> if bk_reset b \<le> now then None else Some b)"
proof (induction m)
  case (Cons x m)
  obtain k b where x: "x = (k, b)" by (cases x)
  have "key \<notin> fst ` set (filter (\<lambda>(k, b). \<not> bk_reset b \<le> now) m)" if "key \<notin> fst ` set m"
    using that by auto
  with Cons show ?case by (auto simp: x simp flip: map_of_eq_None_iff)
qed simp

text \<open>Dropping expired counters shows no difference.\<close>

lemma memory_live_prune: "distinct (map fst m) \<Longrightarrow> memory_live (prune now m) key now = memory_live m key now"
  by (simp add: memory_live_def prune_def map_of_unexpired alive_def split: option.split)

lemma next_bucket_counted:
  "(bk_count (next_bucket cf (map_of m key) now), Some (bk_reset (next_bucket cf (map_of m key) now))) =
     counted (rl_window cf) now (memory_live m key now)"
  by (simp add: next_bucket_def counted_def memory_live_def alive_def split: option.split)

interpretation memory_store: window_store "rl_window cf" "consume_memory cf" memory_live "\<lambda>m _. distinct (map fst m)"
  for cf
proof
  fix s s' :: buckets and t t' now :: time and k key :: string and c :: nat and ttl :: int
  show "t \<le> t' \<Longrightarrow> memory_live s k t' = alive t' (memory_live s k t)"
    by (auto simp: memory_live_def alive_def split: option.splits)
  assume dist: "distinct (map fst s)" and run: "consume_memory cf key now s = (s', c, ttl)"
  let ?b = "next_bucket cf (map_of s key) now"
  have s': "s' = prune now (map_put key ?b s)" and c: "c = bk_count ?b"
    using run by (simp_all add: consume_memory_def Let_def)
  have put: "distinct (map fst (map_put key ?b s))" by (rule distinct_map_put [OF dist])
  then show "distinct (map fst s')" by (simp add: s' prune_def distinct_map_filter)
  show "c = fst (counted (rl_window cf) now (memory_live s key now))"
    by (simp add: c next_bucket_counted [symmetric])
  show "memory_live s' key now = alive now (Some (counted (rl_window cf) now (memory_live s key now)))"
    unfolding s' memory_live_prune [OF put] next_bucket_counted [symmetric] by (simp add: memory_live_def)
  show "k \<noteq> key \<Longrightarrow> memory_live s' k now = memory_live s k now"
    unfolding s' memory_live_prune [OF put] by (simp add: memory_live_def)
qed

section \<open>Redis\<close>

text \<open>
  The documented effect of the commands. \<open>view s k t\<close> is the value of a key at a time with the time it
  expires, if it is there. A key disappears when its time is over and only then; \<open>INCR\<close> creates it with
  1 and no expiry or adds 1 and keeps the expiry; \<open>PEXPIRE\<close> sets the expiry, and removes the key when that
  is not in the future; \<open>PTTL\<close> is the remaining time, -1 without an expiry, -2 without the key.
\<close>

definition redis_ok :: "'s redis_api \<Rightarrow> ('s \<Rightarrow> string \<Rightarrow> time \<Rightarrow> counter option) \<Rightarrow> bool" where
  "redis_ok R view \<longleftrightarrow>
     (\<forall>s k t t'. t \<le> t' \<longrightarrow> view s k t' = alive t' (view s k t)) \<and>
     (\<forall>s key now. case rd_incr R key now s of (s', c) \<Rightarrow>
        c = (case view s key now of None \<Rightarrow> 1 | Some (n, e) \<Rightarrow> n + 1) \<and>
        view s' key now = Some (c, Option.bind (view s key now) snd) \<and>
        (\<forall>k. k \<noteq> key \<longrightarrow> view s' k now = view s k now)) \<and>
     (\<forall>s key ms now. view (rd_pexpire R key ms now s) key now =
          alive now (map_option (\<lambda>(n, e). (n, Some (now + ms))) (view s key now)) \<and>
        (\<forall>k. k \<noteq> key \<longrightarrow> view (rd_pexpire R key ms now s) k now = view s k now)) \<and>
     (\<forall>s key now. rd_pttl R key now s =
        (case view s key now of None \<Rightarrow> -2 | Some (n, None) \<Rightarrow> -1 | Some (n, Some e) \<Rightarrow> e - now))"

text \<open>The counters of the script are never 0.\<close>

definition counters_positive :: "('s \<Rightarrow> string \<Rightarrow> time \<Rightarrow> counter option) \<Rightarrow> 's \<Rightarrow> time \<Rightarrow> bool" where
  "counters_positive view s t \<longleftrightarrow> (\<forall>k n e. view s k t = Some (n, e) \<longrightarrow> 1 \<le> n)"

lemma alive_Some: "alive t b = Some x \<Longrightarrow> b = Some x"
  by (auto simp: alive_def split: option.splits if_splits)

lemma redis_expires: "redis_ok R view \<Longrightarrow> t \<le> t' \<Longrightarrow> view s k t' = alive t' (view s k t)"
  unfolding redis_ok_def by blast

lemma redis_incr:
  assumes "redis_ok R view" and "rd_incr R key now s = (s', c)"
  shows "c = (case view s key now of None \<Rightarrow> 1 | Some (n, e) \<Rightarrow> n + 1)"
    and "view s' key now = Some (c, Option.bind (view s key now) snd)" and "k \<noteq> key \<Longrightarrow> view s' k now = view s k now"
proof -
  have "case rd_incr R key now s of (s', c) \<Rightarrow> c = (case view s key now of None \<Rightarrow> 1 | Some (n, e) \<Rightarrow> n + 1) \<and>
      view s' key now = Some (c, Option.bind (view s key now) snd) \<and> (\<forall>k. k \<noteq> key \<longrightarrow> view s' k now = view s k now)"
    by (rule spec [OF spec [OF spec [OF conjunct1 [OF conjunct2 [OF assms(1) [unfolded redis_ok_def]]]]]])
  with assms(2) show "c = (case view s key now of None \<Rightarrow> 1 | Some (n, e) \<Rightarrow> n + 1)"
    "view s' key now = Some (c, Option.bind (view s key now) snd)" "k \<noteq> key \<Longrightarrow> view s' k now = view s k now"
    by simp_all
qed

lemma redis_pexpire:
  assumes "redis_ok R view"
  shows "view (rd_pexpire R key ms now s) key now = alive now (map_option (\<lambda>(n, e). (n, Some (now + ms))) (view s key now))"
    and "k \<noteq> key \<Longrightarrow> view (rd_pexpire R key ms now s) k now = view s k now"
  using assms unfolding redis_ok_def by blast+

lemma rate_script_view:
  assumes R: "redis_ok R view" and pos: "counters_positive view s now" and run: "rate_script R key ms now s = (s', c, ttl)"
  shows "c = fst (counted ms now (view s key now))"
    and "view s' key now = alive now (Some (counted ms now (view s key now)))"
    and "k \<noteq> key \<Longrightarrow> view s' k now = view s k now"
proof -
  obtain s1 where incr: "rd_incr R key now s = (s1, c)" and s': "s' = (if c = 1 then rd_pexpire R key ms now s1 else s1)"
    using run by (auto simp: rate_script_def Let_def split: prod.splits)
  note i = redis_incr [OF R incr]
  show "k \<noteq> key \<Longrightarrow> view s' k now = view s k now" using i(3) redis_pexpire(2) [OF R] by (simp add: s')
  show "c = fst (counted ms now (view s key now))" using i(1) by (simp add: counted_def split: option.splits prod.splits)
  show "view s' key now = alive now (Some (counted ms now (view s key now)))"
  proof (cases "view s key now")
    case None
    then show ?thesis using i(1,2) redis_pexpire(1) [OF R, of key ms now s1] by (simp add: s' counted_def)
  next
    case (Some x)
    obtain n e where x: "view s key now = Some (n, e)" using Some by (cases x) auto
    then have "1 \<le> n" using pos unfolding counters_positive_def by blast
    then have "s' = s1" "view s1 key now = Some (n + 1, e)" using i(1,2) x by (simp_all add: s')
    moreover have "view s1 key now = alive now (view s1 key now)" by (rule redis_expires [OF R order_refl])
    ultimately show ?thesis by (simp add: x counted_def)
  qed
qed

lemma redis_store:
  assumes R: "redis_ok R view"
  shows "window_store w (\<lambda>key. rate_script R key w) view (counters_positive view)"
proof
  fix s s' t t' now k key c ttl
  show "t \<le> t' \<Longrightarrow> view s k t' = alive t' (view s k t)" by (rule redis_expires [OF R])
  show "counters_positive view s t \<Longrightarrow> t \<le> t' \<Longrightarrow> counters_positive view s t'"
    unfolding counters_positive_def by (metis redis_expires [OF R] alive_Some)
  assume pos: "counters_positive view s now" and run: "rate_script R key w now s = (s', c, ttl)"
  note step = rate_script_view [OF R pos run]
  show "c = fst (counted w now (view s key now))" "view s' key now = alive now (Some (counted w now (view s key now)))"
    "k \<noteq> key \<Longrightarrow> view s' k now = view s k now" by (rule step)+
  show "counters_positive view s' now"
    unfolding counters_positive_def
  proof (intro allI impI)
    fix j n e assume j: "view s' j now = Some (n, e)"
    show "1 \<le> n"
    proof (cases "j = key")
      case True
      then have "counted w now (view s key now) = (n, e)" using j step(2) by (auto dest: alive_Some)
      then show ?thesis by (auto simp: counted_def split: option.splits)
    next
      case False
      then show ?thesis using j step(3) [of j] pos unfolding counters_positive_def by metis
    qed
  qed
qed

section \<open>The limit\<close>

definition store_ok :: "('s \<Rightarrow> string \<Rightarrow> time \<Rightarrow> counter option) \<Rightarrow> 's rate_store \<Rightarrow> time \<Rightarrow> bool" where
  "store_ok view st t = (case st of In_Memory m \<Rightarrow> distinct (map fst m) | In_Redis s \<Rightarrow> counters_positive view s t)"

definition store_live :: "('s \<Rightarrow> string \<Rightarrow> time \<Rightarrow> counter option) \<Rightarrow> 's rate_store \<Rightarrow> string \<Rightarrow> time \<Rightarrow> counter option" where
  "store_live view st key t = (case st of In_Memory m \<Rightarrow> memory_live m key t | In_Redis s \<Rightarrow> view s key t)"

lemma store_later:
  assumes R: "redis_ok R view" and "store_ok view st t" and "t \<le> now"
  shows "store_ok view st now"
    and "now < stop \<Longrightarrow> credit limit stop (store_live view st k now) \<le> credit limit stop (store_live view st k t)"
  using assms(2,3) memory_store.credit_later window_store.credit_later [OF redis_store [OF R]]
    window_store.ok_later [OF redis_store [OF R]]
  by (auto simp: store_ok_def store_live_def split: rate_store.splits)

definition let_through :: "rate_result result \<Rightarrow> bool" where
  "let_through r = (case r of Inr x \<Rightarrow> rr_allowed x | Inl _ \<Rightarrow> False)"

lemma consume_credit:
  assumes R: "redis_ok R view" and ok: "store_ok view st now" and run: "consume R cf call st tok k' now = (st', out)"
    and time: "start \<le> now" "now < stop" "stop \<le> start + rl_window cf"
  shows "store_ok view st' now"
    and "(if tok = token \<and> k' = k \<and> let_through out then 1 else 0) +
        credit (limit_of cf k) stop (store_live view st' (rate_key k token) now) \<le>
      credit (limit_of cf k) stop (store_live view st (rate_key k token) now)"
proof -
  let ?key = "rate_key k' tok" and ?L = "limit_of cf k"
  have key: "?key = rate_key k token \<longleftrightarrow> tok = token \<and> k' = k" by (auto simp: rate_key_inj)
  have "store_ok view st' now \<and> (if tok = token \<and> k' = k \<and> let_through out then 1 else 0) +
      credit ?L stop (store_live view st' (rate_key k token) now) \<le> credit ?L stop (store_live view st (rate_key k token) now)"
  proof (cases st)
    case (In_Memory m)
    obtain m' c ttl where hit: "consume_memory cf ?key now m = (m', c, ttl)" by (metis surj_pair)
    have "st' = In_Memory m'" "let_through out = (c \<le> limit_of cf k')"
      using run by (auto simp: In_Memory consume_def hit rate_result_of_def let_through_def)
    with memory_store.hit_ok [OF _ hit] memory_store.credit_hit [OF _ hit time, of "rate_key k token" ?L] ok key
    show ?thesis by (auto simp: In_Memory store_ok_def store_live_def)
  next
    case (In_Redis s)
    obtain s' c ttl where hit: "rate_script R ?key (rl_window cf) now s = (s', c, ttl)" by (metis surj_pair)
    have out: "st' = In_Redis s' \<and> (let_through out \<longrightarrow> c \<le> limit_of cf k') \<or> st' = st \<and> \<not> let_through out"
      using run by (auto simp: In_Redis consume_def hit rate_result_of_def let_through_def split: redis_call.splits)
    have pos: "counters_positive view s now" using ok by (simp add: In_Redis store_ok_def)
    from window_store.hit_ok [OF redis_store [OF R] pos hit]
      window_store.credit_hit [OF redis_store [OF R] pos hit time, of "rate_key k token" ?L] out key ok
    show ?thesis by (auto simp: In_Redis store_ok_def store_live_def split: if_splits)
  qed
  then show "store_ok view st' now" and "(if tok = token \<and> k' = k \<and> let_through out then 1 else 0) +
      credit ?L stop (store_live view st' (rate_key k token) now) \<le> credit ?L stop (store_live view st (rate_key k token) now)"
    by blast+
qed

lemma run_requests_Cons:
  "consume R cf call st token k now = (st', out) \<Longrightarrow>
   run_requests R cf st ((token, k, now, call) # es) = let_through out # run_requests R cf st' es"
  by (auto simp: let_through_def split: sum.split)

lemma allowed_within_credit:
  assumes R: "redis_ok R view" and "store_ok view st t0" and "sorted (t0 # map (\<lambda>(_, _, t, _). t) es)" and "start \<le> t0"
    and "\<forall>(_, _, t, _) \<in> set es. t < stop" and "stop \<le> start + rl_window cf"
  shows "count_allowed token k es (run_requests R cf st es) \<le>
    credit (limit_of cf k) stop (store_live view st (rate_key k token) t0)"
  using assms(2-)
proof (induction es arbitrary: st t0)
  case (Cons e es)
  obtain tok k' now call where e: "e = (tok, k', now, call)" by (metis surj_pair)
  obtain st' out where run: "consume R cf call st tok k' now = (st', out)" by fastforce
  have times: "t0 \<le> now" "now < stop" "start \<le> now" "sorted (now # map (\<lambda>(_, _, t, _). t) es)"
    using Cons.prems(2,3,4) by (auto simp: e)
  note later = store_later [OF R Cons.prems(1) times(1)]
  note step = consume_credit [OF R later(1) run times(3,2) Cons.prems(5)]
  have "count_allowed token k es (run_requests R cf st' es) \<le>
      credit (limit_of cf k) stop (store_live view st' (rate_key k token) now)"
    by (rule Cons.IH) (use Cons.prems step(1) times in auto)
  with step(2) [of token k] later(2) [OF times(2), of "limit_of cf k" "rate_key k token"]
  show ?case unfolding e run_requests_Cons [OF run] by simp
qed simp

text \<open>
  C32: However the requests of all tokens mix, within any stretch of time no longer than the window at most
  twice the limit of requests of one token and kind pass: the window is fixed, so a burst at its end may
  be followed by one at the start of the next, and no more. This holds for the counters in memory, where
  dropping expired ones never lets a request through, for the requests of that process; and with Redis,
  which production requires, for the requests of all instances together, also when calls of the store
  fail or their answers are lost.
\<close>

theorem rate_limit_bound:
  assumes "redis_ok R view" and "store_ok view st start" and "sorted (map (\<lambda>(_, _, t, _). t) es)"
    and "\<forall>(_, _, t, _) \<in> set es. start \<le> t \<and> t < start + rl_window cf"
  shows "count_allowed token k es (run_requests R cf st es) \<le> 2 * limit_of cf k"
proof -
  let ?stop = "start + rl_window cf"
  have "count_allowed token k es (run_requests R cf st es) \<le>
      credit (limit_of cf k) ?stop (store_live view st (rate_key k token) start)"
    by (rule allowed_within_credit [OF assms(1,2)]) (use assms(3,4) in auto)
  then show ?thesis using credit_twice [of "limit_of cf k" ?stop] le_trans by blast
qed

text \<open>In production the counters are in Redis.\<close>

lemma production_counts_in_redis: "init_store url True s = Inr st \<Longrightarrow> st = In_Redis s"
  by (auto simp: init_store_def split: if_splits)

section \<open>A burst\<close>

text \<open>A server that keeps the counters and looks at the time when it reads them.\<close>

definition lazy_view :: "(string \<Rightarrow> counter option) \<Rightarrow> string \<Rightarrow> time \<Rightarrow> counter option" where
  "lazy_view s k t = alive t (s k)"

definition lazy_redis :: "(string \<Rightarrow> counter option) redis_api" where
  "lazy_redis =
     \<lparr>rd_incr = (\<lambda>k now s. let c = (case alive now (s k) of None \<Rightarrow> (1, None) | Some (n, e) \<Rightarrow> (n + 1, e)) in (s(k \<mapsto> c), fst c)),
      rd_pexpire = (\<lambda>k ms now s. s(k := map_option (\<lambda>(n, e). (n, Some (now + ms))) (alive now (s k)))),
      rd_pttl = (\<lambda>k now s. case alive now (s k) of None \<Rightarrow> -2 | Some (n, None) \<Rightarrow> -1 | Some (n, Some e) \<Rightarrow> e - now)\<rparr>"

lemma lazy_redis_ok: "redis_ok lazy_redis lazy_view"
  by (auto simp: redis_ok_def lazy_redis_def lazy_view_def alive_def Let_def split: option.splits)

definition sample_rates :: rate_config where
  "sample_rates = \<lparr>rl_read = 2, rl_write = 1, rl_window = 60\<rparr>"

definition sample_burst :: "rate_event list" where
  "sample_burst = map (\<lambda>t. (''t'', Read_Request, t, Answered)) [58, 59, 60, 61, 62]"

definition sample_server :: "string \<Rightarrow> counter option" where
  "sample_server = [rate_key Read_Request ''t'' \<mapsto> (1, Some 60)]"

theorem rate_limit_bound_witness:
  "count_allowed ''t'' Read_Request sample_burst (run_requests lazy_redis sample_rates (In_Redis sample_server) sample_burst) \<le>
     2 * limit_of sample_rates Read_Request \<and>
   run_requests lazy_redis sample_rates (In_Redis sample_server) sample_burst = [True, False, True, True, False]"
proof
  have ok: "store_ok lazy_view (In_Redis sample_server) 58"
    by (simp add: store_ok_def counters_positive_def lazy_view_def sample_server_def alive_def)
  show "count_allowed ''t'' Read_Request sample_burst (run_requests lazy_redis sample_rates (In_Redis sample_server) sample_burst) \<le>
     2 * limit_of sample_rates Read_Request"
    by (rule rate_limit_bound [OF lazy_redis_ok ok]) (simp_all add: sample_rates_def sample_burst_def)
  show "run_requests lazy_redis sample_rates (In_Redis sample_server) sample_burst = [True, False, True, True, False]"
    by (simp add: sample_rates_def sample_burst_def sample_server_def consume_def rate_script_def lazy_redis_def alive_def
        rate_result_of_def limit_of_def Let_def)
qed

end
