(* ===== verification/Entra_Groups.thy ===== *)
theory Entra_Groups
  imports Identity_Sync Urls
begin

text \<open>
  \<^verbatim>\<open>apps/api/src/modules/auth/oidc/entra-group-resolver.service.ts\<close> and \<^verbatim>\<open>entra-group-cache.service.ts\<close>: when
  Microsoft Entra leaves the groups out of a token because there are too many, they are fetched page by
  page from Microsoft Graph and put where the provider's group claim is read. The HTTP request is a
  parameter. The cache is a list of keys: the one in memory, or, with Redis, the keys of the server, which
  gives a value back (as JSON) until its time is over.
\<close>

datatype entra_failure = Resolution string | Resolver_Thrown api_error

definition GRAPH_GROUP_LIMIT :: nat where "GRAPH_GROUP_LIMIT = 500"
definition GRAPH_PAGE_LIMIT :: nat where "GRAPH_PAGE_LIMIT = 20"

section \<open>The cache\<close>

record cached_groups =
  cg_groups :: "string list"
  cg_expires :: time

type_synonym group_cache = "(string \<times> cached_groups) list"

definition cache_key :: "(string \<Rightarrow> string) \<Rightarrow> ident \<Rightarrow> string \<Rightarrow> entra_mode \<Rightarrow> string" where
  "cache_key sha pid subject mode =
     ''ad-wiki:oidc:entra-groups:'' @
     sha (pid @ CHR 0x00 # subject @ CHR 0x00 # (case mode of DIRECT \<Rightarrow> ''DIRECT'' | TRANSITIVE \<Rightarrow> ''TRANSITIVE''))"

definition cache_get :: "string \<Rightarrow> time \<Rightarrow> group_cache \<Rightarrow> group_cache \<times> string list option" where
  "cache_get key now c =
     (case map_of c key of
        None \<Rightarrow> (filter (\<lambda>(k, _). k \<noteq> key) c, None)
      | Some e \<Rightarrow> if cg_expires e \<le> now then (filter (\<lambda>(k, _). k \<noteq> key) c, None) else (c, Some (cg_groups e)))"

text \<open>\<open>GET\<close> and \<open>parseGroupIds\<close>.\<close>

definition redis_groups :: "string \<Rightarrow> time \<Rightarrow> group_cache \<Rightarrow> string list option" where
  "redis_groups key now c =
     (case map_of c key of
        None \<Rightarrow> None
      | Some e \<Rightarrow> if cg_expires e \<le> now \<or> 500 < length (cg_groups e) then None else Some (cg_groups e))"

definition cache_ttl_seconds :: "int \<Rightarrow> int" where
  "cache_ttl_seconds minutes = max 60 (min 3600 (minutes * 60))"

definition cache_set :: "string \<Rightarrow> string list \<Rightarrow> int \<Rightarrow> time \<Rightarrow> group_cache \<Rightarrow> group_cache" where
  "cache_set key ids minutes now c =
     map_put key \<lparr>cg_groups = ids, cg_expires = now + cache_ttl_seconds minutes * 1000\<rparr> c"

section \<open>Overage and the claim path\<close>

definition has_entra_overage :: "json \<Rightarrow> bool" where
  "has_entra_overage claims \<longleftrightarrow>
     (case claims of
        JObject m \<Rightarrow>
          map_of m ''hasgroups'' = Some (JBool True) \<or>
          (case map_of m ''_claim_names'' of Some (JObject n) \<Rightarrow> map_of n ''groups'' \<noteq> None | _ \<Rightarrow> False)
      | _ \<Rightarrow> False)"

definition forbidden_segment :: "string \<Rightarrow> bool" where
  "forbidden_segment s \<longleftrightarrow> s = [] \<or> s = ''__proto__'' \<or> s = ''prototype'' \<or> s = ''constructor''"

text \<open>Objects along the path are copied or created; anything else in the way is an error.\<close>

fun set_segments :: "(string \<times> json) list \<Rightarrow> string list \<Rightarrow> json \<Rightarrow> (string \<times> json) list option" where
  "set_segments m [] v = None"
| "set_segments m [s] v = Some (map_put s v m)"
| "set_segments m (s # ss) v =
     (case map_of m s of
        None \<Rightarrow> map_option (\<lambda>n. map_put s (JObject n) m) (set_segments [] ss v)
      | Some (JObject n) \<Rightarrow> map_option (\<lambda>n'. map_put s (JObject n') m) (set_segments n ss v)
      | Some _ \<Rightarrow> None)"

definition set_claim_at_path :: "(string \<times> json) list \<Rightarrow> string \<Rightarrow> string list \<Rightarrow> entra_failure + json" where
  "set_claim_at_path m path ids =
     (let ss = split_on (CHR ''.'') path
      in if \<exists>s \<in> set ss. forbidden_segment s then Inl (Resolution ''graph_claim_configuration_invalid'')
         else case set_segments m ss (JArray (map JString ids)) of
           None \<Rightarrow> Inl (Resolution ''graph_claim_configuration_invalid'')
         | Some m' \<Rightarrow> Inr (JObject m'))"

section \<open>Fetching\<close>

text \<open>\<open>Graph_Failed\<close>: the request itself failed; otherwise the status and the parsed body.\<close>

datatype graph_answer = Graph_Failed | Graph_Status int "json option"

definition graph_ok_status :: "int \<Rightarrow> bool" where
  "graph_ok_status n \<longleftrightarrow> 200 \<le> n \<and> n \<le> 299"

fun page_id :: "json \<Rightarrow> string option" where
  "page_id (JObject m) = (case map_of m ''id'' of Some (JString s) \<Rightarrow> Some s | _ \<Rightarrow> None)"
| "page_id _ = None"

fun page_ids :: "json list \<Rightarrow> string list option" where
  "page_ids [] = Some []"
| "page_ids (v # vs) = (case (page_id v, page_ids vs) of (Some s, Some ss) \<Rightarrow> Some (s # ss) | _ \<Rightarrow> None)"

text \<open>An absent and an empty link end the listing.\<close>

definition parse_graph_page :: "json option \<Rightarrow> (string list \<times> string option) option" where
  "parse_graph_page body =
     (case body of
        Some (JObject m) \<Rightarrow>
          (case map_of m ''value'' of
             Some (JArray vs) \<Rightarrow>
               (case (page_ids vs, map_of m ''@odata.nextLink'') of
                  (Some ids, None) \<Rightarrow> Some (ids, None)
                | (Some ids, Some (JString l)) \<Rightarrow> Some (ids, if l = [] then None else Some l)
                | _ \<Rightarrow> None)
           | _ \<Rightarrow> None)
      | _ \<Rightarrow> None)"

definition hex_char :: "char \<Rightarrow> bool" where
  "hex_char c \<longleftrightarrow> is_digit_char c \<or> (let n = of_char c :: nat in 65 \<le> n \<and> n \<le> 70 \<or> 97 \<le> n \<and> n \<le> 102)"

definition object_id :: "string \<Rightarrow> bool" where
  "object_id s \<longleftrightarrow> map length (split_on (CHR ''-'') s) = [8, 4, 4, 4, 12] \<and>
     (\<forall>p \<in> set (split_on (CHR ''-'') s). list_all hex_char p)"

text \<open>The identifiers of one page join the set, in lower case, until the limit.\<close>

fun add_ids :: "string list \<Rightarrow> string list \<Rightarrow> entra_failure + string list" where
  "add_ids acc [] = Inr acc"
| "add_ids acc (s # ss) =
     (if \<not> object_id s then Inl (Resolution ''graph_response_invalid'')
      else let acc' = (if to_lower s \<in> set acc then acc else acc @ [to_lower s])
           in if GRAPH_GROUP_LIMIT < length acc' then Inl (Resolution ''graph_group_limit_exceeded'')
              else add_ids acc' ss)"

text \<open>\<open>graph_url\<close> is \<open>assertGraphUrl\<close>'s test of a link, \<open>link_url\<close> parsing it.\<close>

fun fetch_pages ::
    "nat \<Rightarrow> (string \<Rightarrow> bool) \<Rightarrow> (string \<Rightarrow> bool) \<Rightarrow> (string \<Rightarrow> graph_answer) \<Rightarrow> string \<Rightarrow> string list \<Rightarrow>
     entra_failure + string list" where
  "fetch_pages 0 link_url graph_url get url acc = Inl (Resolution ''graph_group_limit_exceeded'')"
| "fetch_pages (Suc n) link_url graph_url get url acc =
     (if \<not> graph_url url then Inl (Resolution ''graph_response_invalid'')
      else case get url of
        Graph_Failed \<Rightarrow> Inl (Resolution ''graph_unavailable'')
      | Graph_Status status body \<Rightarrow>
          if status = 401 \<or> status = 403 then Inl (Resolution ''graph_consent_missing'')
          else if \<not> graph_ok_status status then Inl (Resolution ''graph_unavailable'')
          else case parse_graph_page body of
            None \<Rightarrow> Inl (Resolution ''graph_response_invalid'')
          | Some (ids, next) \<Rightarrow>
              rbind (add_ids acc ids) (\<lambda>acc'.
                case next of
                  None \<Rightarrow> Inr (sort acc')
                | Some l \<Rightarrow>
                    if \<not> link_url l then Inl (Resolver_Thrown (Internal ''Invalid URL''))
                    else fetch_pages n link_url graph_url get l acc'))"

definition first_page :: "entra_mode \<Rightarrow> string" where
  "first_page mode =
     ''https://graph.microsoft.com/v1.0/me/'' @
     (case mode of DIRECT \<Rightarrow> ''memberOf'' | TRANSITIVE \<Rightarrow> ''transitiveMemberOf'') @
     ''/microsoft.graph.group?$select=id&$top=999''"

record graph_api =
  ga_link_url :: "string \<Rightarrow> bool"
  ga_graph_url :: "string \<Rightarrow> bool"
  ga_get :: "string \<Rightarrow> string \<Rightarrow> graph_answer"
  ga_sha :: "string \<Rightarrow> string"
  ga_production :: bool
  ga_redis :: "bool option"

text \<open>The cache that is used: Redis, which answers or fails, or else memory, which production refuses.\<close>

definition cache_lookup ::
    "graph_api \<Rightarrow> string \<Rightarrow> time \<Rightarrow> group_cache \<Rightarrow> entra_failure + group_cache \<times> string list option" where
  "cache_lookup ga key now c =
     (case ga_redis ga of
        Some up \<Rightarrow> if up then Inr (c, redis_groups key now c) else Inl (Resolver_Thrown (Internal ''redis''))
      | None \<Rightarrow>
          if ga_production ga then Inl (Resolver_Thrown (Unavailable ''group cache'')) else Inr (cache_get key now c))"

definition fetch_group_ids :: "graph_api \<Rightarrow> entra_mode \<Rightarrow> string option \<Rightarrow> entra_failure + string list" where
  "fetch_group_ids ga mode token =
     (case token of
        None \<Rightarrow> Inl (Resolution ''graph_token_missing'')
      | Some t \<Rightarrow>
          if t = [] then Inl (Resolution ''graph_token_missing'')
          else fetch_pages GRAPH_PAGE_LIMIT (ga_link_url ga) (ga_graph_url ga) (ga_get ga t) (first_page mode) [])"

definition resolve_claims ::
    "graph_api \<Rightarrow> group_cache \<Rightarrow> provider_row \<Rightarrow> json \<Rightarrow> string option \<Rightarrow> time \<Rightarrow> group_cache \<times> (entra_failure + json)" where
  "resolve_claims ga c p claims token now =
     (if ip_type p \<noteq> MICROSOFT_ENTRA \<or> \<not> has_entra_overage claims then (c, Inr claims)
      else if \<not> ip_entra_fallback p then (c, Inl (Resolution ''graph_fallback_disabled''))
      else case (ip_group_claim p, claims) of
        (Some path, JObject m) \<Rightarrow>
          if path = [] then (c, Inl (Resolution ''graph_claim_configuration_invalid''))
          else (case map_of m ''sub'' of
            Some (JString subject) \<Rightarrow>
              if trim subject = [] then (c, Inl (Resolution ''graph_identity_missing''))
              else let key = cache_key (ga_sha ga) (ip_id p) subject (ip_entra_mode p)
              in (case cache_lookup ga key now c of
                Inl e \<Rightarrow> (c, Inl e)
              | Inr (c1, Some ids) \<Rightarrow> (c1, set_claim_at_path m path ids)
              | Inr (c1, None) \<Rightarrow>
                  (case fetch_group_ids ga (ip_entra_mode p) token of
                     Inl e \<Rightarrow> (c1, Inl e)
                   | Inr ids \<Rightarrow>
                       (cache_set key ids (ip_entra_cache_ttl p) now c1, set_claim_at_path m path ids)))
          | _ \<Rightarrow> (c, Inl (Resolution ''graph_identity_missing'')))
      | _ \<Rightarrow> (c, Inl (Resolution ''graph_claim_configuration_invalid'')))"

section \<open>Identifiers\<close>

text \<open>What the resolver hands on: few, distinct, well-formed identifiers.\<close>

definition group_ids_ok :: "string list \<Rightarrow> bool" where
  "group_ids_ok ids \<longleftrightarrow> length ids \<le> GRAPH_GROUP_LIMIT \<and> distinct ids \<and> (\<forall>s \<in> set ids. object_id s)"

lemma split_on_map:
  assumes "\<And>x. f x = c \<longleftrightarrow> x = c"
  shows "split_on c (map f s) = map (map f) (split_on c s)"
proof (induction s)
  case (Cons x s)
  show ?case
  proof (cases "split_on c s")
    case Nil
    then show ?thesis by simp
  next
    case (Cons w ws)
    with Cons.IH assms [of x] show ?thesis by simp
  qed
qed simp

lemma of_char_lower:
  "(of_char (lower_char c) :: nat) =
     (let n = of_char c in if 65 \<le> n \<and> n \<le> 90 \<or> 192 \<le> n \<and> n \<le> 222 \<and> n \<noteq> 215 then n + 32 else n)"
  by (auto simp: lower_char_def Let_def of_char_of)

lemma lower_char_dash: "lower_char c = CHR ''-'' \<longleftrightarrow> c = CHR ''-''"
proof -
  have "lower_char c = CHR ''-'' \<longleftrightarrow> (of_char (lower_char c) :: nat) = 45"
    using of_char_eq_iff [where ?'a = nat, of "lower_char c" "CHR ''-''"] by simp
  also have "\<dots> \<longleftrightarrow> (of_char c :: nat) = 45"
    unfolding of_char_lower by (simp add: Let_def)
  also have "\<dots> \<longleftrightarrow> c = CHR ''-''"
    using of_char_eq_iff [of c "CHR ''-''", where ?'a = nat] by simp
  finally show ?thesis .
qed

lemma hex_lower: "hex_char c \<Longrightarrow> hex_char (lower_char c)"
  by (auto simp: hex_char_def is_digit_char_def of_char_lower Let_def)

lemma object_id_lower: "object_id s \<Longrightarrow> object_id (to_lower s)"
  by (auto simp: object_id_def to_lower_def split_on_map [OF lower_char_dash] list_all_iff hex_lower comp_def)

lemma split_on_chars: "set s \<subseteq> insert c (\<Union>p \<in> set (split_on c s). set p)"
proof (induction s)
  case (Cons x s)
  then show ?case by (cases "split_on c s") auto
qed simp

lemma split_on_length: "length s + 1 = sum_list (map length (split_on c s)) + length (split_on c s)"
proof (induction s)
  case (Cons x s)
  then show ?case by (cases "split_on c s") auto
qed simp

lemma object_id_length: "object_id s \<Longrightarrow> length s = 36"
proof -
  assume "object_id s"
  then have l: "map length (split_on (CHR ''-'') s) = [8, 4, 4, 4, 12]" by (simp add: object_id_def)
  have "length (split_on (CHR ''-'') s) = 5" using arg_cong [OF l, of length] by simp
  with l split_on_length [of s "CHR ''-''"] show ?thesis by simp
qed

lemma trim_id:
  assumes "\<forall>c \<in> set s. \<not> js_space c"
  shows "trim s = s"
proof -
  have "dropWhile js_space xs = xs" if "\<forall>c \<in> set xs. \<not> js_space c" for xs
    using that by (cases xs) simp_all
  from this [of s] this [of "rev s"] assms show ?thesis by (simp add: trim_def)
qed

lemma object_id_trim: "object_id s \<Longrightarrow> trim s = s"
proof (rule trim_id)
  assume s: "object_id s"
  show "\<forall>c \<in> set s. \<not> js_space c"
  proof
    fix c assume "c \<in> set s"
    with split_on_chars [of s "CHR ''-''"] s have "c = CHR ''-'' \<or> hex_char c"
      by (auto simp: object_id_def list_all_iff)
    then show "\<not> js_space c"
      by (auto simp: js_space_def hex_char_def is_digit_char_def Let_def)
  qed
qed

lemma uniq_acc_distinct: "distinct xs \<Longrightarrow> set xs \<inter> set seen = {} \<Longrightarrow> uniq_acc seen xs = xs"
  by (induction seen xs rule: uniq_acc.induct) auto

lemma uniq_distinct: "distinct xs \<Longrightarrow> uniq xs = xs"
  by (simp add: uniq_def uniq_acc_distinct)

lemma add_ids_ok:
  "add_ids acc ss = Inr acc' \<Longrightarrow> group_ids_ok acc \<Longrightarrow> group_ids_ok acc'"
proof (induction ss arbitrary: acc)
  case (Cons s ss)
  let ?acc = "if to_lower s \<in> set acc then acc else acc @ [to_lower s]"
  from Cons.prems(1) have s: "object_id s" "length ?acc \<le> GRAPH_GROUP_LIMIT" "add_ids ?acc ss = Inr acc'"
    by (simp_all add: Let_def not_less split: if_splits)
  have "group_ids_ok ?acc"
    using Cons.prems(2) s(1,2) object_id_lower [OF s(1)] by (auto simp: group_ids_ok_def)
  with Cons.IH [OF s(3)] show ?case .
qed simp

lemma group_ids_ok_sort: "group_ids_ok ids \<Longrightarrow> group_ids_ok (sort ids)"
  by (simp add: group_ids_ok_def)

lemma fetch_pages_ok:
  assumes "fetch_pages n link_url graph_url get url acc = Inr ids" and "group_ids_ok acc"
  shows "group_ids_ok ids"
  using assms
proof (induction n arbitrary: url acc)
  case (Suc n)
  from Suc.prems(1) obtain page link where step: "rbind (add_ids acc page) (\<lambda>acc'. case link of
      None \<Rightarrow> Inr (sort acc')
    | Some l \<Rightarrow> if \<not> link_url l then Inl (Resolver_Thrown (Internal ''Invalid URL''))
        else fetch_pages n link_url graph_url get l acc') = Inr ids"
    by (auto split: if_splits graph_answer.splits option.splits prod.splits)
  from step obtain acc' where acc': "add_ids acc page = Inr acc'"
      and rest: "case link of None \<Rightarrow> ids = sort acc' | Some l \<Rightarrow> fetch_pages n link_url graph_url get l acc' = Inr ids"
    by (rule rbind_InrE) (auto split: option.splits if_splits)
  from add_ids_ok [OF acc' Suc.prems(2)] rest Suc.IH show ?case
    by (cases link) (simp_all add: group_ids_ok_sort)
qed simp

section \<open>The claim path\<close>

lemma set_segments_walk:
  assumes "set_segments m ss v = Some m'" and "\<forall>s \<in> set ss. \<not> forbidden_segment s"
  shows "claim_walk (JObject m') ss = Some v"
  using assms
proof (induction ss arbitrary: m m')
  case (Cons s ss)
  have s: "\<not> forbidden_segment s" using Cons.prems(2) by simp
  have walk: "claim_walk (JObject (map_put s w k)) (s # rest) = claim_walk w rest" for w k rest
    using s by (simp add: forbidden_segment_def)
  show ?case
  proof (cases ss)
    case Nil
    with Cons.prems(1) have "m' = map_put s v m" by simp
    with Nil walk [of v m "[]"] show ?thesis by simp
  next
    case (Cons t ts)
    from Cons.prems(1) obtain n n' where m': "m' = map_put s (JObject n') m" and n: "set_segments n ss v = Some n'"
      unfolding \<open>ss = t # ts\<close> by (auto split: option.splits json.splits)
    have "claim_walk (JObject n') ss = Some v"
      by (rule Cons.IH [OF n]) (use Cons.prems(2) in simp)
    then show ?thesis by (simp only: m' walk)
  qed
qed simp

lemma set_claim_read_back:
  "set_claim_at_path m path ids = Inr v \<Longrightarrow> claim_at_path v path = Some (JArray (map JString ids))"
  by (auto simp: set_claim_at_path_def claim_at_path_def Let_def set_segments_walk split: if_splits option.splits)

text \<open>Every cached list is one the resolver could have fetched.\<close>

definition cache_ok :: "group_cache \<Rightarrow> bool" where
  "cache_ok c \<longleftrightarrow> (\<forall>(k, e) \<in> set c. group_ids_ok (cg_groups e))"

lemma cache_get_ok: "cache_get key now c = (c', r) \<Longrightarrow> cache_ok c \<Longrightarrow> cache_ok c' \<and> (\<forall>ids. r = Some ids \<longrightarrow> group_ids_ok ids)"
  by (fastforce simp: cache_get_def cache_ok_def split: option.splits if_splits dest: map_of_SomeD)

lemma cache_lookup_ok:
  assumes "cache_lookup ga key now c = Inr (c', r)" and ok: "cache_ok c"
  shows "cache_ok c' \<and> (\<forall>ids. r = Some ids \<longrightarrow> group_ids_ok ids)"
proof (cases "ga_redis ga")
  case None
  then have "cache_get key now c = (c', r)" using assms(1) by (simp add: cache_lookup_def split: if_splits)
  then show ?thesis by (rule cache_get_ok [OF _ ok])
next
  case (Some up)
  then have "c' = c" "r = redis_groups key now c" using assms(1) by (auto simp: cache_lookup_def split: if_splits)
  then show ?thesis using ok
    by (fastforce simp: redis_groups_def cache_ok_def split: option.splits if_splits dest: map_of_SomeD)
qed

lemma map_put_all: "\<forall>(k, e) \<in> set c. P e \<Longrightarrow> P e \<Longrightarrow> \<forall>(k, e) \<in> set (map_put key e c). P e"
  by (induction key e c rule: map_put.induct) auto

lemma cache_set_ok: "cache_ok c \<Longrightarrow> group_ids_ok ids \<Longrightarrow> cache_ok (cache_set key ids minutes now c)"
  unfolding cache_ok_def cache_set_def by (rule map_put_all) simp_all

lemma fetch_group_ids_ok: "fetch_group_ids ga mode token = Inr ids \<Longrightarrow> group_ids_ok ids"
  by (auto simp: fetch_group_ids_def group_ids_ok_def [of "[]"] split: option.splits if_splits intro: fetch_pages_ok)

lemma resolve_claims_overage:
  assumes run: "resolve_claims ga c p claims token now = (c', Inr claims')" and ok: "cache_ok c"
    and over: "ip_type p = MICROSOFT_ENTRA" "has_entra_overage claims"
  obtains m path ids where "claims = JObject m" and "ip_group_claim p = Some path" and "path \<noteq> []"
    and "set_claim_at_path m path ids = Inr claims'" and "group_ids_ok ids" and "cache_ok c'"
proof -
  obtain m path subject where m: "claims = JObject m" "ip_group_claim p = Some path" "path \<noteq> []"
      "map_of m ''sub'' = Some (JString subject)" "trim subject \<noteq> []" "ip_entra_fallback p"
    using run over by (auto simp: resolve_claims_def split: if_splits option.splits json.splits)
  let ?key = "cache_key (ga_sha ga) (ip_id p) subject (ip_entra_mode p)"
  obtain c1 r where get: "cache_lookup ga ?key now c = Inr (c1, r)"
    using run m over by (cases "cache_lookup ga ?key now c") (auto simp: resolve_claims_def Let_def)
  note c1 = cache_lookup_ok [OF get ok]
  show ?thesis
  proof (cases r)
    case (Some ids)
    with run m over get have "set_claim_at_path m path ids = Inr claims'" "c' = c1"
      by (auto simp: resolve_claims_def Let_def)
    with that [OF m(1-3)] c1 Some show ?thesis by simp
  next
    case None
    with run m over get obtain ids where fetched: "fetch_group_ids ga (ip_entra_mode p) token = Inr ids"
        and "set_claim_at_path m path ids = Inr claims'" "c' = cache_set ?key ids (ip_entra_cache_ttl p) now c1"
      by (auto simp: resolve_claims_def Let_def split: sum.splits)
    with that [OF m(1-3)] c1 fetch_group_ids_ok [OF fetched] show ?thesis by (simp add: cache_set_ok)
  qed
qed

text \<open>
  Groups resolved through Microsoft Graph always fit the synchronisation. When a token leaves its groups
  out and the resolver succeeds, from the cache or by fetching at most twenty pages, it has put at most
  500 distinct, well-formed identifiers where the group claim is read, and the normalisation of the
  synchronisation accepts them unchanged, only sorted; the cache again holds only such lists.
\<close>

theorem entra_groups_reach_sync:
  assumes "resolve_claims ga c p claims token now = (c', Inr claims')" and "cache_ok c"
    and "ip_type p = MICROSOFT_ENTRA" and "has_entra_overage claims"
  shows "cache_ok c' \<and> (\<exists>ids. length ids \<le> 500 \<and> distinct ids \<and> (\<forall>s \<in> set ids. object_id s) \<and>
    normalize_claim_values lc claims' (ip_group_claim p) err = Inr (sort_by lc ids))"
proof -
  obtain m path ids where path: "ip_group_claim p = Some path" "path \<noteq> []"
      and set: "set_claim_at_path m path ids = Inr claims'" and ids: "group_ids_ok ids" and c': "cache_ok c'"
    by (rule resolve_claims_overage [OF assms])
  have strings: "all_strings (map JString ids) = Some ids" by (rule all_strings_map)
  have trimmed: "map trim ids = ids"
    using ids by (intro map_idI) (simp add: group_ids_ok_def object_id_trim)
  have small: "s \<noteq> [] \<and> length s \<le> MAX_SYNC_VALUE_LENGTH" if "s \<in> set ids" for s
  proof -
    have "length s = 36" using ids that object_id_length unfolding group_ids_ok_def by blast
    then show ?thesis by (auto simp: MAX_SYNC_VALUE_LENGTH_def)
  qed
  have "claim_values (claim_at_path claims' path) = Some ids"
    by (simp add: set_claim_read_back [OF set] claim_values_def strings)
  moreover have "\<not> MAX_SYNC_VALUES < length ids" "uniq ids = ids"
    using ids by (simp_all add: group_ids_ok_def GRAPH_GROUP_LIMIT_def MAX_SYNC_VALUES_def uniq_distinct)
  moreover have "\<not> (\<exists>x \<in> set ids. x = [] \<or> MAX_SYNC_VALUE_LENGTH < length x)"
    using small by (meson not_less)
  ultimately have "normalize_claim_values lc claims' (ip_group_claim p) err = Inr (sort_by lc ids)"
    unfolding normalize_claim_values_def path(1) using path(2) by (simp add: trimmed Let_def)
  with ids c' show ?thesis by (auto simp: group_ids_ok_def GRAPH_GROUP_LIMIT_def)
qed

text \<open>Two pages with a repeated identifier in another spelling.\<close>

definition sample_object_id :: "string" where
  "sample_object_id = ''0A000000-0000-0000-0000-00000000000b''"

definition sample_graph :: graph_api where
  "sample_graph =
     \<lparr>ga_link_url = (\<lambda>_. True), ga_graph_url = (\<lambda>_. True),
      ga_get = (\<lambda>t u. Graph_Status 200 (Some (JObject
        (if u = ''next'' then [(''value'', JArray [JObject [(''id'', JString (to_lower sample_object_id))]])]
         else [(''value'', JArray [JObject [(''id'', JString sample_object_id)]]), (''@odata.nextLink'', JString ''next'')])))),
      ga_sha = (\<lambda>x. x), ga_production = True, ga_redis = Some True\<rparr>"

definition sample_entra :: provider_row where
  "sample_entra = sample_provider\<lparr>ip_type := MICROSOFT_ENTRA, ip_entra_fallback := True\<rparr>"

definition sample_overage :: json where
  "sample_overage = JObject [(''sub'', JString ''ada''), (''hasgroups'', JBool True)]"

theorem entra_groups_reach_sync_witness:
  "\<exists>c' claims' ids. resolve_claims sample_graph [] sample_entra sample_overage (Some ''t'') 0 = (c', Inr claims') \<and>
     length c' = 1 \<and> cache_ok c' \<and> (\<forall>s \<in> set ids. object_id s) \<and>
     normalize_claim_values code_point_compare claims' (Some ''groups'') Group_Claim_Invalid = Inr (sort_by code_point_compare ids)"
proof -
  have "case resolve_claims sample_graph [] sample_entra sample_overage (Some ''t'') 0 of
      (c', Inr _) \<Rightarrow> length c' = 1 | _ \<Rightarrow> False" by code_simp
  then obtain c' claims' where run: "resolve_claims sample_graph [] sample_entra sample_overage (Some ''t'') 0 = (c', Inr claims')"
      "length c' = 1"
    by (auto split: prod.splits sum.splits)
  have "cache_ok []" "ip_type sample_entra = MICROSOFT_ENTRA" "has_entra_overage sample_overage"
    "ip_group_claim sample_entra = Some ''groups''"
    by (simp_all add: cache_ok_def sample_entra_def has_entra_overage_def sample_overage_def sample_provider_def)
  note facts = this
  from entra_groups_reach_sync [OF run(1) facts(1-3), of code_point_compare Group_Claim_Invalid]
  obtain ids where "cache_ok c'" "\<forall>s \<in> set ids. object_id s"
    "normalize_claim_values code_point_compare claims' (Some ''groups'') Group_Claim_Invalid = Inr (sort_by code_point_compare ids)"
    unfolding facts(4) by blast
  with run show ?thesis by blast
qed

end
