(* ===== verification/Oidc_Requests.thy ===== *)
theory Oidc_Requests
  imports Identity_Admin Sessions Urls
begin

text \<open>
  \<^verbatim>\<open>apps/api/src/modules/auth/oidc/oidc.service.ts\<close>, first half: the requests that wait for a provider's
  callback, the one-time codes that turn a finished login into a session, and linking and unlinking of
  external identities. The second half is in \<open>Oidc_Login\<close>. Logging, metrics and the audit log are not
  modelled.
\<close>

section \<open>Errors\<close>

text \<open>
  The codes of \<open>OidcLoginError\<close>; \<open>Thrown\<close> is any other exception. The flag \<open>accountAction\<close> is added where
  the callback is finished.
\<close>

datatype oidc_code =
    Invalid_Request
  | Provider_Unavailable
  | Account_Not_Linked
  | Account_Unavailable
  | Account_Conflict
  | Claims_Invalid
  | Jit_Unavailable
  | Sync_Failed
  | Group_Overage_Unresolved

datatype oidc_failure = Oidc oidc_code | Thrown api_error

type_synonym 'a oidc = "oidc_failure + 'a"

definition AUTHORIZATION_TTL_MS :: int where "AUTHORIZATION_TTL_MS = 600000"
definition LOGIN_CODE_TTL_MS :: int where "LOGIN_CODE_TTL_MS = 60000"
definition ACCOUNT_REAUTH_MAX_AGE_SECONDS :: int where "ACCOUNT_REAUTH_MAX_AGE_SECONDS = 300"

definition hash_oidc_value :: "crypto \<Rightarrow> string \<Rightarrow> string \<Rightarrow> string" where
  "hash_oidc_value cr domain v = cr_hash cr (''ad-wiki:oidc:'' @ domain @ CHR '':'' # v)"

definition hash_user_agent :: "crypto \<Rightarrow> string option \<Rightarrow> string" where
  "hash_user_agent cr agent = hash_oidc_value cr ''user-agent'' (case agent of None \<Rightarrow> [] | Some a \<Rightarrow> trim a)"

section \<open>Providers offered and identities linked\<close>

definition find_provider_by_slug :: "db \<Rightarrow> string \<Rightarrow> provider_row option" where
  "find_provider_by_slug d s = List.find (\<lambda>p. ip_slug p = s) (t_providers d)"

definition find_active_provider :: "db \<Rightarrow> string \<Rightarrow> provider_row result" where
  "find_active_provider d s =
     (case find_provider_by_slug d s of
        None \<Rightarrow> Inl (NotFound ''provider'')
      | Some p \<Rightarrow> if ip_active p then Inr p else Inl (NotFound ''provider''))"

text \<open>Without a configured encryption key no provider is offered.\<close>

definition login_providers ::
    "(string \<Rightarrow> string \<Rightarrow> int) \<Rightarrow> bool \<Rightarrow> db \<Rightarrow> (string \<times> string \<times> provider_type) list" where
  "login_providers lc configured d =
     (if \<not> configured then []
      else map (\<lambda>p. (ip_slug p, ip_name p, ip_type p))
        (sort_by (\<lambda>l r. if ip_display_order l - ip_display_order r \<noteq> 0 then ip_display_order l - ip_display_order r
                         else lc (ip_name l) (ip_name r))
          (filter ip_active (t_providers d))))"

definition identities_of :: "db \<Rightarrow> ident \<Rightarrow> identity_row list" where
  "identities_of d uid = filter (\<lambda>x. xi_user x = uid) (t_identities d)"

section \<open>Starting an authorization\<close>

record purpose =
  pp_intent :: intent
  pp_user :: "ident option"
  pp_unlink :: "ident option"

text \<open>The random values of a request; \<open>os_encrypt\<close> is the encryption at rest.\<close>

record oidc_secrets =
  os_id :: ident
  os_state :: string
  os_nonce :: string
  os_verifier :: string
  os_binding :: string

record oidc_env =
  oe_configured :: bool
  oe_encrypt :: "string \<Rightarrow> string"
  oe_decrypt :: "string \<Rightarrow> string option"
  oe_callback :: "string \<Rightarrow> string result"
  oe_discover :: "provider_row \<Rightarrow> string \<Rightarrow> unit result"

text \<open>What the authorization URL asks of the provider; its rendering is \<^verbatim>\<open>openid-client\<close>'s.\<close>

record authorization_query =
  aq_provider :: ident
  aq_redirect :: string
  aq_scopes :: "string list"
  aq_state :: string
  aq_nonce :: string
  aq_max_age :: int
  aq_prompt_login :: bool

record login_start =
  ls_query :: authorization_query
  ls_cookie :: string
  ls_binding :: string

definition binding_cookie :: "crypto \<Rightarrow> string \<Rightarrow> string" where
  "binding_cookie cr state = ''ad_wiki_oidc_'' @ take 16 (hash_oidc_value cr ''cookie'' state)"

definition max_age_of :: "intent \<Rightarrow> provider_row \<Rightarrow> int" where
  "max_age_of i p = (if i = Login_Intent then ip_max_session_age p * 60 else ACCOUNT_REAUTH_MAX_AGE_SECONDS)"

definition drop_stale :: "time \<Rightarrow> db \<Rightarrow> db" where
  "drop_stale now d =
     d\<lparr>t_oidc_requests := delete_where (\<lambda>r. oa_expires r \<le> now) (t_oidc_requests d),
       t_login_codes := delete_where (\<lambda>c. ol_expires c \<le> now \<or> ol_used c \<noteq> None) (t_login_codes d)\<rparr>"

definition insert_oidc_request :: "oidc_request_row \<Rightarrow> db \<Rightarrow> db result" where
  "insert_oidc_request r d =
     rbind (rguard (oa_id r \<notin> oa_id ` set (t_oidc_requests d)) (Internal ''P2002'')) (\<lambda>_.
     rbind (rguard (fk (oa_user r) (u_id ` set (t_users d)) \<and> fk (oa_unlink r) (xi_id ` set (t_identities d)) \<and>
         oa_provider r \<in> ip_id ` set (t_providers d)) (Internal ''P2003'')) (\<lambda>_.
     rbind (insert_row oa_state_hash (Internal ''P2002'') r (t_oidc_requests d)) (\<lambda>rows.
     Inr (d\<lparr>t_oidc_requests := rows\<rparr>))))"

definition oidc_request :: "crypto \<Rightarrow> oidc_env \<Rightarrow> provider_row \<Rightarrow> string \<Rightarrow> purpose \<Rightarrow> oidc_secrets \<Rightarrow> time \<Rightarrow> oidc_request_row" where
  "oidc_request cr env p redirect pp s now =
     \<lparr>oa_id = os_id s, oa_state_hash = hash_oidc_value cr ''state'' (os_state s),
      oa_binding_hash = hash_oidc_value cr ''binding'' (os_binding s),
      oa_verifier = oe_encrypt env (os_verifier s), oa_nonce = oe_encrypt env (os_nonce s),
      oa_redirect = redirect, oa_intent = pp_intent pp, oa_expires = now + AUTHORIZATION_TTL_MS,
      oa_provider = ip_id p, oa_user = pp_user pp, oa_unlink = pp_unlink pp\<rparr>"

definition start_oidc ::
    "crypto \<Rightarrow> oidc_env \<Rightarrow> db \<Rightarrow> string \<Rightarrow> purpose \<Rightarrow> oidc_secrets \<Rightarrow> time \<Rightarrow> (db \<times> login_start) result" where
  "start_oidc cr env d slug pp s now =
     rbind (rguard (oe_configured env) (Unavailable ''sso'')) (\<lambda>_.
     rbind (rguard (case pp_user pp of None \<Rightarrow> True | Some uid \<Rightarrow>
         (case find_user d uid of None \<Rightarrow> False | Some u \<Rightarrow> u_active u \<and> \<not> u_protected u)) (Conflict ''account'')) (\<lambda>_.
     rbind (find_active_provider d slug) (\<lambda>p.
     rbind (oe_callback env (ip_slug p)) (\<lambda>redirect.
     rbind (oe_discover env p redirect) (\<lambda>_.
     rbind (insert_oidc_request (oidc_request cr env p redirect pp s now) (drop_stale now d)) (\<lambda>d'.
     Inr (d', \<lparr>ls_query = \<lparr>aq_provider = ip_id p, aq_redirect = redirect, aq_scopes = ip_scopes p,
                 aq_state = os_state s, aq_nonce = os_nonce s, aq_max_age = max_age_of (pp_intent pp) p,
                 aq_prompt_login = (pp_intent pp \<noteq> Login_Intent)\<rparr>,
               ls_cookie = binding_cookie cr (os_state s), ls_binding = os_binding s\<rparr>)))))))"

definition start_login ::
    "crypto \<Rightarrow> oidc_env \<Rightarrow> db \<Rightarrow> string \<Rightarrow> oidc_secrets \<Rightarrow> time \<Rightarrow> (db \<times> login_start) result" where
  "start_login cr env d slug s now =
     start_oidc cr env d slug \<lparr>pp_intent = Login_Intent, pp_user = None, pp_unlink = None\<rparr> s now"

definition start_link ::
    "crypto \<Rightarrow> oidc_env \<Rightarrow> db \<Rightarrow> string \<Rightarrow> ident \<Rightarrow> oidc_secrets \<Rightarrow> time \<Rightarrow> (db \<times> login_start) result" where
  "start_link cr env d slug uid s now =
     start_oidc cr env d slug \<lparr>pp_intent = Link_Intent, pp_user = Some uid, pp_unlink = None\<rparr> s now"

text \<open>The last way to sign in may not be given up.\<close>

definition may_unlink :: "db \<Rightarrow> user_row \<Rightarrow> bool" where
  "may_unlink d u \<longleftrightarrow> \<not> u_protected u \<and> (u_local_password u \<or> 1 < length (identities_of d (u_id u)))"

definition start_unlink ::
    "crypto \<Rightarrow> oidc_env \<Rightarrow> db \<Rightarrow> ident \<Rightarrow> ident \<Rightarrow> oidc_secrets \<Rightarrow> time \<Rightarrow> (db \<times> login_start) result" where
  "start_unlink cr env d i uid s now =
     rbind (or_throw (NotFound ''identity'') (List.find (\<lambda>x. xi_id x = i \<and> xi_user x = uid) (t_identities d))) (\<lambda>x.
     rbind (or_throw (Internal ''identity.provider'') (find_provider d (xi_provider x))) (\<lambda>p.
     rbind (or_throw (Internal ''identity.user'') (find_user d uid)) (\<lambda>u.
     rbind (rguard (ip_active p) (NotFound ''identity'')) (\<lambda>_.
     rbind (rguard (u_active u \<and> may_unlink d u) (Conflict ''last login'')) (\<lambda>_.
     start_oidc cr env d (ip_slug p) \<lparr>pp_intent = Unlink_Intent, pp_user = Some uid, pp_unlink = Some (xi_id x)\<rparr> s now)))))"

section \<open>Consuming a request\<close>

definition consume_request ::
    "crypto \<Rightarrow> db \<Rightarrow> string \<Rightarrow> string \<Rightarrow> string \<Rightarrow> time \<Rightarrow> db \<times> (oidc_request_row \<times> provider_row) oidc" where
  "consume_request cr d slug state binding now =
     (case List.find (\<lambda>r. oa_state_hash r = hash_oidc_value cr ''state'' state) (t_oidc_requests d) of
        None \<Rightarrow> (d, Inl (Oidc Invalid_Request))
      | Some r \<Rightarrow>
          (case find_provider d (oa_provider r) of
             None \<Rightarrow> (d, Inl (Thrown (Internal ''request.provider'')))
           | Some p \<Rightarrow>
               if oa_expires r \<le> now
               then (d\<lparr>t_oidc_requests := delete_where (\<lambda>x. oa_id x = oa_id r) (t_oidc_requests d)\<rparr>, Inl (Oidc Invalid_Request))
               else if ip_slug p \<noteq> slug \<or> \<not> ip_active p \<or> oa_binding_hash r \<noteq> hash_oidc_value cr ''binding'' binding
               then (d, Inl (Oidc Invalid_Request))
               else if count_where (\<lambda>x. oa_id x = oa_id r \<and> now < oa_expires x) (t_oidc_requests d) \<noteq> 1
               then (d, Inl (Oidc Invalid_Request))
               else (d\<lparr>t_oidc_requests := delete_where (\<lambda>x. oa_id x = oa_id r \<and> now < oa_expires x) (t_oidc_requests d)\<rparr>,
                     Inr (r, p))))"

section \<open>Login codes\<close>

definition find_login_code :: "crypto \<Rightarrow> db \<Rightarrow> string \<Rightarrow> login_code_row option" where
  "find_login_code cr d code = List.find (\<lambda>c. ol_token_hash c = hash_oidc_value cr ''login-code'' code) (t_login_codes d)"

text \<open>The transaction that consumes a code: what it reads, and the conditional update.\<close>

definition read_login_code :: "crypto \<Rightarrow> db \<Rightarrow> string \<Rightarrow> request_context \<Rightarrow> time \<Rightarrow> login_code_row option" where
  "read_login_code cr d code ctx now =
     (case find_login_code cr d code of
        None \<Rightarrow> None
      | Some c \<Rightarrow>
          if ol_used c \<noteq> None \<or> ol_expires c \<le> now \<or> \<not> user_active d (ol_user c) \<or>
             ol_agent_hash c \<noteq> hash_user_agent cr (rc_agent ctx)
          then None else Some c)"

definition claim_login_code :: "login_code_row \<Rightarrow> time \<Rightarrow> db \<Rightarrow> db option" where
  "claim_login_code c now d =
     (let p = (\<lambda>x. ol_id x = ol_id c \<and> ol_used x = None \<and> now < ol_expires x)
      in if count_where p (t_login_codes d) \<noteq> 1 then None
         else Some (d\<lparr>t_login_codes := update_where p (\<lambda>x. x\<lparr>ol_used := Some now\<rparr>) (t_login_codes d)\<rparr>))"

definition exchange_login_code ::
    "(string \<Rightarrow> string \<Rightarrow> int) \<Rightarrow> crypto \<Rightarrow> db \<Rightarrow> string \<Rightarrow> request_context \<Rightarrow> ident \<Rightarrow> time \<Rightarrow> auth_result outcome" where
  "exchange_login_code lc cr d code ctx sid now =
     (case read_login_code cr d code ctx now of
        None \<Rightarrow> (d, Inl (Unauthorized ''login code''))
      | Some c \<Rightarrow>
          (case claim_login_code c now d of
             None \<Rightarrow> (d, Inl (Unauthorized ''login code''))
           | Some d1 \<Rightarrow>
               (case find_provider d (ol_provider c) of
                  None \<Rightarrow> (d1, Inl (Internal ''code.provider''))
                | Some p \<Rightarrow>
                    create_session_for_user lc cr d1 (ol_user c) ctx
                      (Some \<lparr>ex_identity = ol_identity c, ex_verified = ol_created c,
                             ex_recheck = ol_created c + ip_max_session_age p * 60000\<rparr>) sid now)))"

section \<open>Linking and unlinking\<close>

record oidc_profile =
  op_subject :: string
  op_email :: string
  op_username :: string
  op_display_name :: string

definition profile_update :: "oidc_profile \<Rightarrow> time \<Rightarrow> identity_row \<Rightarrow> identity_row" where
  "profile_update pr now x =
     x\<lparr>xi_email := Some (op_email pr), xi_username := Some (op_username pr),
       xi_display_name := Some (op_display_name pr), xi_last_login := Some now, xi_sync_error := None\<rparr>"

definition find_subject :: "db \<Rightarrow> ident \<Rightarrow> string \<Rightarrow> string \<Rightarrow> identity_row option" where
  "find_subject d pid issuer subject =
     List.find (\<lambda>x. (xi_provider x, xi_issuer x, xi_subject x) = (pid, issuer, subject)) (t_identities d)"

definition find_link :: "db \<Rightarrow> ident \<Rightarrow> ident \<Rightarrow> identity_row option" where
  "find_link d pid uid = List.find (\<lambda>x. (xi_provider x, xi_user x) = (pid, uid)) (t_identities d)"

definition new_identity :: "ident \<Rightarrow> ident \<Rightarrow> ident \<Rightarrow> string \<Rightarrow> oidc_profile \<Rightarrow> time \<Rightarrow> identity_row" where
  "new_identity i pid uid issuer pr now =
     \<lparr>xi_id = i, xi_user = uid, xi_provider = pid, xi_issuer = issuer, xi_subject = op_subject pr,
      xi_email = Some (op_email pr), xi_username = Some (op_username pr),
      xi_display_name = Some (op_display_name pr), xi_last_login = Some now, xi_last_groups = [],
      xi_last_roles = [], xi_sync_error = None\<rparr>"

text \<open>A new row under the unique columns of the table; a conflict is reported as \<open>Account_Conflict\<close>.\<close>

definition insert_identity :: "identity_row \<Rightarrow> db \<Rightarrow> db oidc" where
  "insert_identity x d =
     rbind (rguard (xi_id x \<notin> xi_id ` set (t_identities d) \<and>
         find_subject d (xi_provider x) (xi_issuer x) (xi_subject x) = None \<and>
         find_link d (xi_provider x) (xi_user x) = None) (Oidc Account_Conflict)) (\<lambda>_.
     rbind (rguard (find_provider d (xi_provider x) \<noteq> None \<and> find_user d (xi_user x) \<noteq> None)
       (Thrown (Internal ''P2003''))) (\<lambda>_.
     Inr (d\<lparr>t_identities := t_identities d @ [x]\<rparr>)))"

definition link_identity ::
    "db \<Rightarrow> ident \<Rightarrow> ident \<Rightarrow> string \<Rightarrow> oidc_profile \<Rightarrow> ident \<Rightarrow> time \<Rightarrow> db oidc" where
  "link_identity d pid uid issuer pr new_id now =
     rbind (rguard (case find_user d uid of None \<Rightarrow> False | Some u \<Rightarrow> u_active u \<and> \<not> u_protected u)
       (Oidc Account_Unavailable)) (\<lambda>_.
     let claimed = find_subject d pid issuer (op_subject pr);
         linked = find_link d pid uid
     in rbind (rguard (case claimed of None \<Rightarrow> True | Some x \<Rightarrow> xi_user x = uid) (Oidc Account_Conflict)) (\<lambda>_.
        rbind (rguard (case linked of None \<Rightarrow> True
            | Some x \<Rightarrow> xi_issuer x = issuer \<and> xi_subject x = op_subject pr) (Oidc Account_Conflict)) (\<lambda>_.
        case claimed of
          Some x \<Rightarrow> Inr (d\<lparr>t_identities := update_where (\<lambda>y. xi_id y = xi_id x) (profile_update pr now) (t_identities d)\<rparr>)
        | None \<Rightarrow> insert_identity (new_identity new_id pid uid issuer pr now) d)))"

definition revoke_identity_sessions :: "ident \<Rightarrow> time \<Rightarrow> db \<Rightarrow> db" where
  "revoke_identity_sessions i now d =
     d\<lparr>t_sessions := update_where (\<lambda>s. ses_identity s = Some i \<and> ses_revoked s = None)
       (\<lambda>s. s\<lparr>ses_revoked := Some now\<rparr>) (t_sessions d)\<rparr>"

definition unlink_identity ::
    "db \<Rightarrow> ident \<Rightarrow> ident \<Rightarrow> ident \<Rightarrow> string \<Rightarrow> string \<Rightarrow> time \<Rightarrow> db oidc" where
  "unlink_identity d pid uid i issuer subject now =
     rbind (or_throw (Oidc Account_Conflict)
       (List.find (\<lambda>x. xi_id x = i \<and> xi_user x = uid \<and> xi_provider x = pid) (t_identities d))) (\<lambda>x.
     rbind (or_throw (Thrown (Internal ''identity.user'')) (find_user d uid)) (\<lambda>u.
     rbind (rguard (xi_issuer x = issuer \<and> xi_subject x = subject \<and> may_unlink d u) (Oidc Account_Conflict)) (\<lambda>_.
     Inr (cascade_identities (\<lambda>y. xi_id y = i) (revoke_identity_sessions i now d)))))"

text \<open>Unlinking is made of the two steps \<open>Sessions\<close> has for it.\<close>

lemma unlink_identity_steps:
  assumes "unlink_identity d pid uid i issuer subject now = Inr d'"
  shows "(auth_step lc fresh cr)\<^sup>*\<^sup>* (d, fl) (d', fl)"
proof -
  have "d' = cascade_identities (\<lambda>y. xi_id y = i) (revoke_identity_sessions i now d)"
    using assms by (auto simp: unlink_identity_def rbind_eq_Inr)
  then have "auth_step lc fresh cr (revoke_identity_sessions i now d, fl) (d', fl)"
    by (intro step_detach [where ids = "xi_id ` {x \<in> set (t_identities d). xi_id x = i}"])
      (simp add: cascade_identities_def revoke_identity_sessions_def Let_def)
  moreover have "auth_step lc fresh cr (d, fl) (revoke_identity_sessions i now d, fl)"
    by (rule step_unlink) (simp add: revoke_identity_sessions_def)
  ultimately show ?thesis by (metis converse_rtranclp_into_rtranclp r_into_rtranclp)
qed

section \<open>What a login code buys\<close>

text \<open>The effective role depends on these tables only.\<close>

lemma resolve_user_frame:
  assumes "t_users d' = t_users d" "t_roles d' = t_roles d" "t_providers d' = t_providers d"
    "t_identities d' = t_identities d" "t_role_mappings d' = t_role_mappings d" "t_role_grants d' = t_role_grants d"
  shows "resolve_user lc d' i = resolve_user lc d i"
proof -
  have same: "find_user d' = find_user d" "find_role d' = find_role d" "load_grant d' = load_grant d"
    by (simp_all add: fun_eq_iff find_defs load_grant_def assms split: option.split)
  then have "external_grants d' j = external_grants d j" for j
    by (simp add: external_grants_def assms)
  then have "with_effective_role lc d' = with_effective_role lc d"
    by (simp add: fun_eq_iff with_effective_role_def)
  with same show ?thesis by (simp add: resolve_user_def split: option.split)
qed

definition external_session_row ::
    "crypto \<Rightarrow> auth_user \<Rightarrow> request_context \<Rightarrow> external_session \<Rightarrow> ident \<Rightarrow> string \<Rightarrow> time \<Rightarrow> session_row" where
  "external_session_row cr u ctx ex sid refresh now =
     \<lparr>ses_id = sid, ses_token_hash = cr_hash cr refresh, ses_family = sid, ses_ip = rc_ip ctx,
      ses_agent = rc_agent ctx, ses_user = au_id u, ses_expires = refresh_expiry cr refresh now,
      ses_rotated = None, ses_revoked = None, ses_identity = Some (ex_identity ex),
      ses_verified = Some (ex_verified ex), ses_recheck = Some (ex_recheck ex)\<rparr>"

lemma create_session_Inr:
  assumes "create_session_for_user lc cr d uid ctx (Some ex) sid now = (d', Inr ar)"
  obtains u r where "resolve_user lc d uid = Some (u, r)" and "u_active u"
    and "ar_user ar = to_authenticated_user u r"
    and "d' = d\<lparr>t_sessions := t_sessions d @ [external_session_row cr (ar_user ar) ctx ex sid (ar_refresh ar) now]\<rparr>"
  using assms
  by (auto simp: create_session_for_user_def answer_session_def issue_tokens_def Let_def rbind_eq_Inr
      insert_session_Inr external_session_row_def split: option.splits if_splits sum.splits prod.splits)

lemma create_session_keeps:
  assumes "create_session_for_user lc cr d uid ctx ext sid now = (d', out)"
  shows "t_login_codes d' = t_login_codes d"
  using assms
  by (auto simp: create_session_for_user_def answer_session_def issue_tokens_def Let_def rbind_eq_Inr
      insert_session_Inr split: option.splits if_splits sum.splits prod.splits)

lemma claim_login_code_Some:
  assumes "claim_login_code c now d = Some d'"
  shows "d' = d\<lparr>t_login_codes := update_where (\<lambda>x. ol_id x = ol_id c \<and> ol_used x = None \<and> now < ol_expires x)
      (\<lambda>x. x\<lparr>ol_used := Some now\<rparr>) (t_login_codes d)\<rparr>"
  using assms by (simp add: claim_login_code_def Let_def split: if_splits)

lemma used_code_refused:
  assumes keys: "distinct (map ol_id (t_login_codes d))" "distinct (map ol_token_hash (t_login_codes d))"
    and c: "c \<in> set (t_login_codes d)" "ol_used c = None" "now < ol_expires c"
    and codes: "t_login_codes d' = update_where (\<lambda>x. ol_id x = ol_id c \<and> ol_used x = None \<and> now < ol_expires x)
      (\<lambda>x. x\<lparr>ol_used := Some now\<rparr>) (t_login_codes d)"
  shows "ol_token_hash c = hash_oidc_value cr ''login-code'' code \<Longrightarrow> read_login_code cr d' code ctx later = None"
    and "claim_login_code c later d' = None"
proof -
  have "List.find (\<lambda>x. ol_token_hash x = ol_token_hash c) (t_login_codes d') = Some (c\<lparr>ol_used := Some now\<rparr>)"
    unfolding codes using find_by_key [OF keys(2) c(1) refl] c(2,3) by (simp add: find_update_where)
  then show "ol_token_hash c = hash_oidc_value cr ''login-code'' code \<Longrightarrow> read_login_code cr d' code ctx later = None"
    by (simp add: read_login_code_def find_login_code_def)
  have only: "x = c" if "x \<in> set (t_login_codes d)" "ol_id x = ol_id c" for x
    by (rule unique_key_eq [OF keys(1) that(1) c(1) that(2)])
  have "\<not> (ol_id x = ol_id c \<and> ol_used x = None \<and> later < ol_expires x)" if x: "x \<in> set (t_login_codes d')" for x
  proof -
    from x obtain y where y: "y \<in> set (t_login_codes d)"
        "x = (if ol_id y = ol_id c \<and> ol_used y = None \<and> now < ol_expires y then y\<lparr>ol_used := Some now\<rparr> else y)"
      unfolding codes set_update_where by blast
    show ?thesis
    proof (cases "ol_id y = ol_id c")
      case True
      from only [OF y(1) this] y(2) c(2,3) show ?thesis by simp
    qed (use y(2) in simp)
  qed
  then have "count_where (\<lambda>x. ol_id x = ol_id c \<and> ol_used x = None \<and> later < ol_expires x) (t_login_codes d') = 0"
    unfolding count_where_eq_0 by blast
  then show "claim_login_code c later d' = None" by (simp add: claim_login_code_def Let_def)
qed

text \<open>
  The one-time code of a finished external login opens one session. It must be unused, unexpired and
  presented by the same user agent, its user active; the session belongs to that user and to the identity
  that signed in, and must be rechecked when the provider's session age is over, counted from the login
  at the provider. The code is refused afterwards, also for a request that had already read it.
\<close>

theorem login_code_single_use:
  assumes keys: "distinct (map ol_id (t_login_codes d))" "distinct (map ol_token_hash (t_login_codes d))"
    and run: "exchange_login_code lc cr d code ctx sid now = (d', Inr ar)"
  shows "\<exists>c \<in> set (t_login_codes d). \<exists>p u r s.
    ol_token_hash c = hash_oidc_value cr ''login-code'' code \<and> ol_used c = None \<and> now < ol_expires c \<and>
    ol_agent_hash c = hash_user_agent cr (rc_agent ctx) \<and> find_provider d (ol_provider c) = Some p \<and>
    resolve_user lc d (ol_user c) = Some (u, r) \<and> u_active u \<and> ar_user ar = to_authenticated_user u r \<and>
    s \<in> set (t_sessions d') \<and> ses_id s = sid \<and> ses_user s = ol_user c \<and> ses_identity s = Some (ol_identity c) \<and>
    ses_recheck s = Some (ol_created c + ip_max_session_age p * 60000) \<and>
    (\<forall>ctx' sid' later. exchange_login_code lc cr d' code ctx' sid' later = (d', Inl (Unauthorized ''login code''))) \<and>
    (\<forall>later. claim_login_code c later d' = None)"
proof -
  from run obtain c d1 p where read: "read_login_code cr d code ctx now = Some c"
      and claim: "claim_login_code c now d = Some d1" and p: "find_provider d (ol_provider c) = Some p"
      and session: "create_session_for_user lc cr d1 (ol_user c) ctx
        (Some \<lparr>ex_identity = ol_identity c, ex_verified = ol_created c,
               ex_recheck = ol_created c + ip_max_session_age p * 60000\<rparr>) sid now = (d', Inr ar)"
    by (auto simp: exchange_login_code_def split: option.splits)
  have c: "c \<in> set (t_login_codes d)" "ol_token_hash c = hash_oidc_value cr ''login-code'' code" "ol_used c = None"
      "now < ol_expires c" "ol_agent_hash c = hash_user_agent cr (rc_agent ctx)"
    using read by (auto simp: read_login_code_def find_login_code_def dest: find_SomeD split: option.splits if_splits)
  note d1 = claim_login_code_Some [OF claim]
  from session obtain u r where u: "resolve_user lc d1 (ol_user c) = Some (u, r)" "u_active u"
      "ar_user ar = to_authenticated_user u r"
    and d': "d' = d1\<lparr>t_sessions := t_sessions d1 @ [external_session_row cr (ar_user ar) ctx
        \<lparr>ex_identity = ol_identity c, ex_verified = ol_created c,
         ex_recheck = ol_created c + ip_max_session_age p * 60000\<rparr> sid (ar_refresh ar) now]\<rparr>"
    by (rule create_session_Inr)
  have same: "resolve_user lc d1 i = resolve_user lc d i" for i
    by (rule resolve_user_frame) (simp_all add: d1)
  have id: "u_id u = ol_user c"
    using u(1) by (auto simp: resolve_user_def find_user_def dest: find_SomeD split: option.splits)
  let ?s = "external_session_row cr (ar_user ar) ctx \<lparr>ex_identity = ol_identity c, ex_verified = ol_created c,
         ex_recheck = ol_created c + ip_max_session_age p * 60000\<rparr> sid (ar_refresh ar) now"
  have codes: "t_login_codes d' = t_login_codes d1" by (simp add: d')
  have refused: "read_login_code cr d' code ctx' later = None" "claim_login_code c later d' = None" for ctx' later
    by (rule used_code_refused [OF keys c(1,3,4)], simp add: codes d1, rule c(2))
      (rule used_code_refused(2) [OF keys c(1,3,4)], simp add: codes d1)
  have "?s \<in> set (t_sessions d')" "ses_id ?s = sid" "ses_user ?s = ol_user c" "ses_identity ?s = Some (ol_identity c)"
      "ses_recheck ?s = Some (ol_created c + ip_max_session_age p * 60000)"
    by (simp_all add: d' external_session_row_def u(3) to_authenticated_user_def id)
  moreover have "exchange_login_code lc cr d' code ctx' sid' later = (d', Inl (Unauthorized ''login code''))" for ctx' sid' later
    by (simp add: exchange_login_code_def refused(1))
  ultimately show ?thesis
    using c p u same refused(2) by (intro bexI [OF _ c(1)] exI [of _ p] exI [of _ u] exI [of _ r] exI [of _ ?s]) simp
qed

text \<open>A finished login of \<open>ada\<close> at the sample provider.\<close>

definition sample_login_code :: login_code_row where
  "sample_login_code =
     \<lparr>ol_id = ''lc'', ol_token_hash = hash_oidc_value sample_crypto ''login-code'' ''secret'',
      ol_agent_hash = hash_user_agent sample_crypto None, ol_expires = 60000, ol_used = None, ol_created = 0,
      ol_user = ''ada'', ol_provider = ''idp'', ol_identity = ''x''\<rparr>"

definition sample_oidc :: db where
  "sample_oidc = sample_sso\<lparr>t_login_codes := [sample_login_code]\<rparr>"

theorem login_code_single_use_witness:
  "\<exists>d' ar. exchange_login_code code_point_compare sample_crypto sample_oidc ''secret'' sample_context ''s9'' 5 = (d', Inr ar) \<and>
     au_id (ar_user ar) = ''ada'' \<and>
     exchange_login_code code_point_compare sample_crypto d' ''secret'' sample_context ''s10'' 6 =
       (d', Inl (Unauthorized ''login code''))"
proof -
  have "case exchange_login_code code_point_compare sample_crypto sample_oidc ''secret'' sample_context ''s9'' 5 of
      (_, Inr ar) \<Rightarrow> au_id (ar_user ar) = ''ada'' | _ \<Rightarrow> False" by code_simp
  then obtain d' ar where run: "exchange_login_code code_point_compare sample_crypto sample_oidc ''secret'' sample_context
      ''s9'' 5 = (d', Inr ar)" "au_id (ar_user ar) = ''ada''"
    by (auto split: prod.splits sum.splits)
  have "distinct (map ol_id (t_login_codes sample_oidc))" "distinct (map ol_token_hash (t_login_codes sample_oidc))"
    by (simp_all add: sample_oidc_def)
  from login_code_single_use [OF this run(1)] run show ?thesis by blast
qed

section \<open>Requests\<close>

text \<open>
  A callback is accepted once, for the request its state belongs to: the request has not expired, was
  made for the provider of the callback's path, which is still active, and in the browser that presents
  the binding cookie. It is gone afterwards, so that the same state is refused; every other request is
  still there.
\<close>

theorem request_consumed_once:
  assumes keys: "distinct (map oa_id (t_oidc_requests d))" "distinct (map oa_state_hash (t_oidc_requests d))"
    and run: "consume_request cr d slug state binding now = (d', Inr (r, p))"
  shows "r \<in> set (t_oidc_requests d) \<and> oa_state_hash r = hash_oidc_value cr ''state'' state \<and>
    oa_binding_hash r = hash_oidc_value cr ''binding'' binding \<and> now < oa_expires r \<and>
    find_provider d (oa_provider r) = Some p \<and> ip_slug p = slug \<and> ip_active p \<and>
    set (t_oidc_requests d') = set (t_oidc_requests d) - {r} \<and>
    (\<forall>slug' binding' later. consume_request cr d' slug' state binding' later = (d', Inl (Oidc Invalid_Request)))"
proof -
  have r: "r \<in> set (t_oidc_requests d)" "oa_state_hash r = hash_oidc_value cr ''state'' state"
      "oa_binding_hash r = hash_oidc_value cr ''binding'' binding" "now < oa_expires r"
      "find_provider d (oa_provider r) = Some p" "ip_slug p = slug" "ip_active p"
    and d': "t_oidc_requests d' = delete_where (\<lambda>x. oa_id x = oa_id r \<and> now < oa_expires x) (t_oidc_requests d)"
    using run by (auto simp: consume_request_def split: option.splits if_splits dest: find_SomeD)
  have only: "x = r" if "x \<in> set (t_oidc_requests d)" "oa_id x = oa_id r \<or> oa_state_hash x = oa_state_hash r" for x
    using that unique_key_eq [OF keys(1) _ r(1)] unique_key_eq [OF keys(2) _ r(1)] by blast
  have rows: "set (t_oidc_requests d') = set (t_oidc_requests d) - {r}"
    unfolding d' set_delete_where using only r(4) by blast
  have "List.find (\<lambda>x. oa_state_hash x = hash_oidc_value cr ''state'' state) (t_oidc_requests d') = None"
    unfolding find_None_iff rows using only r(2) by auto
  then have "consume_request cr d' slug' state binding' later = (d', Inl (Oidc Invalid_Request))" for slug' binding' later
    by (simp add: consume_request_def)
  with r rows show ?thesis by blast
qed

definition sample_env :: oidc_env where
  "sample_env =
     \<lparr>oe_configured = True, oe_encrypt = (\<lambda>s. s), oe_decrypt = Some, oe_callback = (\<lambda>s. Inr s),
      oe_discover = (\<lambda>_ _. Inr ())\<rparr>"

definition sample_oidc_secrets :: oidc_secrets where
  "sample_oidc_secrets = \<lparr>os_id = ''rq'', os_state = replicate 32 (CHR ''s''), os_nonce = ''n'', os_verifier = ''v'', os_binding = ''b''\<rparr>"

theorem request_consumed_once_witness:
  "\<exists>d0 start d' r p. start_login sample_crypto sample_env sample_oidc ''idp'' sample_oidc_secrets 0 = Inr (d0, start) \<and>
     consume_request sample_crypto d0 ''idp'' (os_state sample_oidc_secrets) ''b'' 5 = (d', Inr (r, p)) \<and>
     r \<notin> set (t_oidc_requests d')"
proof -
  have "case start_login sample_crypto sample_env sample_oidc ''idp'' sample_oidc_secrets 0 of
      Inr (d0, _) \<Rightarrow> distinct (map oa_id (t_oidc_requests d0)) \<and> distinct (map oa_state_hash (t_oidc_requests d0)) \<and>
        (case consume_request sample_crypto d0 ''idp'' (os_state sample_oidc_secrets) ''b'' 5 of
           (_, Inr _) \<Rightarrow> True | _ \<Rightarrow> False)
    | _ \<Rightarrow> False" by code_simp
  note found = this
  then obtain d0 start where run: "start_login sample_crypto sample_env sample_oidc ''idp'' sample_oidc_secrets 0 = Inr (d0, start)"
    by (cases "start_login sample_crypto sample_env sample_oidc ''idp'' sample_oidc_secrets 0") auto
  note start = run found [unfolded run sum.case prod.case, THEN conjunct1]
    found [unfolded run sum.case prod.case, THEN conjunct2, THEN conjunct1]
    found [unfolded run sum.case prod.case, THEN conjunct2, THEN conjunct2]
  from start(4) obtain d' r p where used: "consume_request sample_crypto d0 ''idp'' (os_state sample_oidc_secrets) ''b'' 5 =
      (d', Inr (r, p))"
    by (auto split: prod.splits sum.splits)
  have "r \<notin> set (t_oidc_requests d')"
    using request_consumed_once [OF start(2,3) used] by simp
  with start(1) used show ?thesis by (intro exI conjI)
qed

section \<open>Linking and unlinking\<close>

lemma unlink_identity_Inr:
  assumes "unlink_identity d pid uid i issuer subject now = Inr d'"
  obtains x u where "x \<in> set (t_identities d)" and "xi_id x = i" and "xi_user x = uid" and "xi_provider x = pid"
    and "xi_issuer x = issuer" and "xi_subject x = subject" and "find_user d uid = Some u" and "may_unlink d u"
    and "d' = cascade_identities (\<lambda>y. xi_id y = i) (revoke_identity_sessions i now d)"
  using assms by (auto simp: unlink_identity_def rbind_eq_Inr dest!: find_SomeD)

text \<open>
  C33: Unlinking removes exactly the identity the user signed in with at the provider once more, and never
  the last way in: the account is not protected and keeps a local password or another linked identity.
  Every session of the identity is revoked, so that none of them can be refreshed; sessions of other
  identities, and local ones, go on.
\<close>

theorem unlink_keeps_a_login:
  assumes ids: "distinct (map xi_id (t_identities d))"
    and run: "unlink_identity d pid uid i issuer subject now = Inr d'"
  shows "\<exists>x \<in> set (t_identities d). \<exists>u. xi_id x = i \<and> xi_user x = uid \<and> xi_provider x = pid \<and>
      xi_issuer x = issuer \<and> xi_subject x = subject \<and> find_user d uid = Some u \<and> \<not> u_protected u \<and>
      set (t_identities d') = set (t_identities d) - {x} \<and> t_users d' = t_users d \<and>
      (u_local_password u \<or> (\<exists>y \<in> set (t_identities d'). xi_user y = uid)) \<and>
      (\<forall>s \<in> set (t_sessions d). ses_identity s = Some i \<longrightarrow>
         (\<exists>s' \<in> set (t_sessions d'). ses_id s' = ses_id s \<and> ses_revoked s' \<noteq> None)) \<and>
      (\<forall>s \<in> set (t_sessions d). ses_identity s \<noteq> Some i \<longrightarrow> s \<in> set (t_sessions d'))"
proof -
  from run obtain x u where x: "x \<in> set (t_identities d)" "xi_id x = i" "xi_user x = uid" "xi_provider x = pid"
      "xi_issuer x = issuer" "xi_subject x = subject" and u: "find_user d uid = Some u" "may_unlink d u"
    and d': "d' = cascade_identities (\<lambda>y. xi_id y = i) (revoke_identity_sessions i now d)"
    by (rule unlink_identity_Inr)
  have only: "y = x" if "y \<in> set (t_identities d)" "xi_id y = i" for y
    using unique_key_eq [OF ids that(1) x(1)] that(2) x(2) by simp
  have rows: "t_identities d' = delete_where (\<lambda>y. xi_id y = i) (t_identities d)"
    by (simp add: d' cascade_identities_def Let_def revoke_identity_sessions_def)
  have removed: "set (t_identities d') = set (t_identities d) - {x}"
    unfolding rows set_delete_where using only x(2) by blast
  have uid: "u_id u = uid" using u(1) by (auto simp: find_user_def dest: find_SomeD)
  have "\<exists>y \<in> set (t_identities d'). xi_user y = uid" if "\<not> u_local_password u"
  proof -
    have "1 < length (identities_of d uid)" using u(2) that uid by (simp add: may_unlink_def)
    moreover have "distinct (identities_of d uid)" using ids by (simp add: identities_of_def distinct_map)
    ultimately obtain y where "y \<in> set (identities_of d uid)" "y \<noteq> x"
      using distinct_card [of "identities_of d uid"] card_le_Suc0_iff_eq [of "set (identities_of d uid)"]
      by (metis List.finite_set One_nat_def linorder_not_le)
    then show ?thesis using removed by (auto simp: identities_of_def)
  qed
  moreover have here: "\<exists>x. x \<in> set (t_identities d) \<and> xi_id x = i" using x(1,2) by blast
  moreover have ids_gone: "xi_id ` {y \<in> set (t_identities d). xi_id y = i} = {i}" using x(1,2) by auto
  have sessions: "t_sessions d' = update_where (\<lambda>s. ses_identity s = Some i) (\<lambda>s. s\<lparr>ses_identity := None\<rparr>)
      (update_where (\<lambda>s. ses_identity s = Some i \<and> ses_revoked s = None) (\<lambda>s. s\<lparr>ses_revoked := Some now\<rparr>) (t_sessions d))"
    by (simp add: d' cascade_identities_def Let_def revoke_identity_sessions_def ids_gone here)
  have image: "(if ses_identity s = Some i then (if ses_revoked s = None then s\<lparr>ses_revoked := Some now, ses_identity := None\<rparr>
        else s\<lparr>ses_identity := None\<rparr>) else s) \<in> set (t_sessions d')" if "s \<in> set (t_sessions d)" for s
    unfolding sessions update_where_def list.map_comp set_map
    by (rule image_eqI [OF _ that]) simp
  have "\<exists>s' \<in> set (t_sessions d'). ses_id s' = ses_id s \<and> ses_revoked s' \<noteq> None"
    if "s \<in> set (t_sessions d)" "ses_identity s = Some i" for s
    using image [OF that(1)] that(2) by (rule_tac rev_bexI) auto
  moreover have "s \<in> set (t_sessions d')" if "s \<in> set (t_sessions d)" "ses_identity s \<noteq> Some i" for s
    using image [OF that(1)] that(2) by simp
  moreover have "t_users d' = t_users d" by (simp add: d' cascade_identities_def Let_def revoke_identity_sessions_def)
  moreover have "\<not> u_protected u" using u(2) by (simp add: may_unlink_def)
  ultimately show ?thesis
    using x u(1) removed by (intro bexI [OF _ x(1)] exI [of _ u]) blast
qed

definition sample_password_user :: db where
  "sample_password_user = sample_sso\<lparr>t_sessions := [sample_session\<lparr>ses_identity := Some ''x''\<rparr>]\<rparr>"

theorem unlink_keeps_a_login_witness:
  "\<exists>d'. unlink_identity sample_password_user ''idp'' ''ada'' ''x'' ''iss'' ''ada'' 5 = Inr d' \<and>
     set (t_identities d') = set (t_identities sample_password_user) - {sample_identity}"
proof -
  have "case unlink_identity sample_password_user ''idp'' ''ada'' ''x'' ''iss'' ''ada'' 5 of Inr _ \<Rightarrow> True | _ \<Rightarrow> False"
    by code_simp
  then obtain d' where run: "unlink_identity sample_password_user ''idp'' ''ada'' ''x'' ''iss'' ''ada'' 5 = Inr d'"
    by (auto split: sum.splits)
  have rows: "t_identities sample_password_user = [sample_identity]"
    by (simp add: sample_password_user_def sample_sso_def)
  then have "distinct (map xi_id (t_identities sample_password_user))" by simp
  from unlink_keeps_a_login [OF this run] obtain x where "x \<in> set (t_identities sample_password_user)"
      "set (t_identities d') = set (t_identities sample_password_user) - {x}" by blast
  with run rows show ?thesis by simp
qed

text \<open>
  The memberships an identity was granted stay when it is unlinked: they lose the grant that backed them,
  and \<open>removeMember\<close> refuses to remove a membership that is not local.
\<close>

lemma unlink_leaves_members:
  assumes "unlink_identity d pid uid i issuer subject now = Inr d'"
  shows "t_memberships d' = t_memberships d" and "\<forall>g \<in> set (t_group_grants d'). gg_identity g \<noteq> i"
proof -
  from assms obtain x where "x \<in> set (t_identities d)" "xi_id x = i"
      and "d' = cascade_identities (\<lambda>y. xi_id y = i) (revoke_identity_sessions i now d)"
    by (rule unlink_identity_Inr)
  then show "t_memberships d' = t_memberships d" and "\<forall>g \<in> set (t_group_grants d'). gg_identity g \<noteq> i"
    by (auto simp: cascade_identities_def Let_def revoke_identity_sessions_def row_simps)
qed

text \<open>The schema's unique column \<open>(providerId, issuer, subject)\<close>.\<close>

definition subjects_unique :: "db \<Rightarrow> bool" where
  "subjects_unique d \<longleftrightarrow> distinct (map (\<lambda>x. (xi_provider x, xi_issuer x, xi_subject x)) (t_identities d))"

lemma profile_update_keys [simp]:
  "xi_id (profile_update pr now x) = xi_id x" "xi_user (profile_update pr now x) = xi_user x"
  "xi_provider (profile_update pr now x) = xi_provider x" "xi_issuer (profile_update pr now x) = xi_issuer x"
  "xi_subject (profile_update pr now x) = xi_subject x"
  by (simp_all add: profile_update_def)

lemma link_identity_cases:
  assumes "link_identity d pid uid issuer pr new_id now = Inr d'"
  obtains (refresh) x where "x \<in> set (t_identities d)" and "xi_user x = uid"
      and "(xi_provider x, xi_issuer x, xi_subject x) = (pid, issuer, op_subject pr)"
      and "d' = d\<lparr>t_identities := update_where (\<lambda>y. xi_id y = xi_id x) (profile_update pr now) (t_identities d)\<rparr>"
  | (new) "new_id \<notin> xi_id ` set (t_identities d)"
      and "find_subject d pid issuer (op_subject pr) = None" and "find_link d pid uid = None"
      and "find_provider d pid \<noteq> None" and "find_user d uid \<noteq> None"
      and "d' = d\<lparr>t_identities := t_identities d @ [new_identity new_id pid uid issuer pr now]\<rparr>"
proof (cases "find_subject d pid issuer (op_subject pr)")
  case None
  with assms that(2) show ?thesis
    by (auto simp: link_identity_def rbind_eq_Inr Let_def insert_identity_def new_identity_def)
next
  case (Some x)
  then have "x \<in> set (t_identities d)" "(xi_provider x, xi_issuer x, xi_subject x) = (pid, issuer, op_subject pr)"
    by (auto simp: find_subject_def dest: find_SomeD)
  with assms Some that(1) show ?thesis by (auto simp: link_identity_def rbind_eq_Inr Let_def)
qed

lemma link_identity_account:
  "link_identity d pid uid issuer pr new_id now = Inr d' \<Longrightarrow>
   \<exists>u. find_user d uid = Some u \<and> u_active u \<and> \<not> u_protected u"
  by (auto simp: link_identity_def rbind_eq_Inr split: option.splits)

text \<open>
  C34: Linking never takes an identity over. After it the subject at the provider stands for the user who
  asked, who is active and not protected and has no other identity at this provider; the identities of
  all other users are exactly what they were, and no new one of them has appeared.
\<close>

theorem link_no_takeover:
  assumes ok: "identities_ok d" "subjects_unique d"
    and run: "link_identity d pid uid issuer pr new_id now = Inr d'"
  shows "(\<exists>x \<in> set (t_identities d'). (xi_provider x, xi_issuer x, xi_subject x) = (pid, issuer, op_subject pr) \<and>
      xi_user x = uid \<and> (\<forall>y \<in> set (t_identities d'). xi_provider y = pid \<and> xi_user y = uid \<longrightarrow> y = x)) \<and>
    {y \<in> set (t_identities d'). xi_user y \<noteq> uid} = {y \<in> set (t_identities d). xi_user y \<noteq> uid} \<and>
    (\<exists>u. find_user d uid = Some u \<and> u_active u \<and> \<not> u_protected u)"
  using run
proof (cases rule: link_identity_cases)
  case (refresh x)
  let ?f = "\<lambda>y. if xi_id y = xi_id x then profile_update pr now y else y"
  have ids: "distinct (map xi_id (t_identities d))"
    and links: "distinct (map (\<lambda>x. (xi_provider x, xi_user x)) (t_identities d))"
    using ok(1) by (simp_all add: identities_ok_def)
  have rows: "set (t_identities d') = ?f ` set (t_identities d)"
    by (simp add: refresh(4) set_update_where)
  have only: "y = x" if "y \<in> set (t_identities d)" "xi_id y = xi_id x" for y
    by (rule unique_key_eq [OF ids that(1) refresh(1) that(2)])
  have here: "?f x \<in> set (t_identities d')" unfolding rows by (rule imageI [OF refresh(1)])
  have unique: "y = ?f x" if "y \<in> set (t_identities d')" "xi_provider y = pid" "xi_user y = uid" for y
  proof -
    from that(1) obtain z where z: "z \<in> set (t_identities d)" "y = ?f z" unfolding rows by blast
    then have "(xi_provider z, xi_user z) = (xi_provider x, xi_user x)"
      using that(2,3) refresh(2,3) by (auto split: if_splits)
    with unique_key_eq [OF links z(1) refresh(1)] z(2) show ?thesis by blast
  qed
  have others: "{y \<in> set (t_identities d'). xi_user y \<noteq> uid} = {y \<in> set (t_identities d). xi_user y \<noteq> uid}"
  proof -
    have same: "?f z = z" if "z \<in> set (t_identities d)" "xi_user z \<noteq> uid" for z
      using only [OF that(1)] that(2) refresh(2) by auto
    have kept: "xi_user (?f z) = xi_user z" for z by simp
    show ?thesis
    proof (intro set_eqI iffI)
      fix y assume "y \<in> {y \<in> set (t_identities d'). xi_user y \<noteq> uid}"
      then obtain z where z: "z \<in> set (t_identities d)" "y = ?f z" "xi_user y \<noteq> uid" unfolding rows by blast
      then have "xi_user z \<noteq> uid" using kept [of z] by simp
      then have "?f z = z" by (rule same [OF z(1)])
      with z(2) have "y = z" by (rule trans)
      with z(1,3) show "y \<in> {y \<in> set (t_identities d). xi_user y \<noteq> uid}" by (simp only: mem_Collect_eq simp_thms)
    next
      fix y assume "y \<in> {y \<in> set (t_identities d). xi_user y \<noteq> uid}"
      then have y: "y \<in> set (t_identities d)" "xi_user y \<noteq> uid" by simp_all
      have "y \<in> ?f ` set (t_identities d)" by (rule image_eqI [where f = ?f and x = y, OF same [OF y, symmetric] y(1)])
      with y(2) show "y \<in> {y \<in> set (t_identities d'). xi_user y \<noteq> uid}" by (simp only: rows mem_Collect_eq simp_thms)
    qed
  qed
  have "(xi_provider (?f x), xi_issuer (?f x), xi_subject (?f x)) = (pid, issuer, op_subject pr) \<and> xi_user (?f x) = uid"
    using refresh(2,3) by simp
  then have "\<exists>x \<in> set (t_identities d'). (xi_provider x, xi_issuer x, xi_subject x) = (pid, issuer, op_subject pr) \<and>
      xi_user x = uid \<and> (\<forall>y \<in> set (t_identities d'). xi_provider y = pid \<and> xi_user y = uid \<longrightarrow> y = x)"
    using here unique by blast
  with others link_identity_account [OF run] show ?thesis by (intro conjI)
next
  case new
  let ?n = "new_identity new_id pid uid issuer pr now"
  have rows: "set (t_identities d') = insert ?n (set (t_identities d))" by (simp add: new(6))
  have "\<not> (xi_provider y = pid \<and> xi_user y = uid)" if "y \<in> set (t_identities d)" for y
    using new(3) that by (simp add: find_link_def find_None_iff)
  then have "\<forall>y \<in> set (t_identities d'). xi_provider y = pid \<and> xi_user y = uid \<longrightarrow> y = ?n"
    unfolding rows by blast
  then show ?thesis
    using link_identity_account [OF run] unfolding rows
    by (intro conjI bexI [of _ ?n]) (auto simp: new_identity_def)
qed

definition sample_profile :: "string \<Rightarrow> oidc_profile" where
  "sample_profile s = \<lparr>op_subject = s, op_email = s @ ''@x'', op_username = s, op_display_name = s\<rparr>"

theorem link_no_takeover_witness:
  "\<exists>d'. link_identity sample_sso ''idp'' ''rob'' ''iss'' (sample_profile ''rob'') ''y'' 5 = Inr d' \<and>
     sample_identity \<in> set (t_identities d') \<and>
     link_identity d' ''idp'' ''rob'' ''iss'' (sample_profile ''ada'') ''z'' 6 = Inl (Oidc Account_Conflict)"
proof -
  have "case link_identity sample_sso ''idp'' ''rob'' ''iss'' (sample_profile ''rob'') ''y'' 5 of
      Inr d' \<Rightarrow> link_identity d' ''idp'' ''rob'' ''iss'' (sample_profile ''ada'') ''z'' 6 = Inl (Oidc Account_Conflict)
    | _ \<Rightarrow> False" by code_simp
  then obtain d' where run: "link_identity sample_sso ''idp'' ''rob'' ''iss'' (sample_profile ''rob'') ''y'' 5 = Inr d'"
      "link_identity d' ''idp'' ''rob'' ''iss'' (sample_profile ''ada'') ''z'' 6 = Inl (Oidc Account_Conflict)"
    by (auto split: sum.splits)
  have "subjects_unique sample_sso" by (simp add: subjects_unique_def sample_sso_def)
  from link_no_takeover [OF sample_sso_ok(1) this run(1)]
  have "{y \<in> set (t_identities d'). xi_user y \<noteq> ''rob''} = {y \<in> set (t_identities sample_sso). xi_user y \<noteq> ''rob''}" by simp
  moreover have "sample_identity \<in> {y \<in> set (t_identities sample_sso). xi_user y \<noteq> ''rob''}"
    by (simp add: sample_sso_def sample_identity_def)
  ultimately show ?thesis using run by blast
qed

end
