(* ===== verification/Oidc_Login.thy ===== *)
theory Oidc_Login
  imports Oidc_Requests Entra_Groups Api_Keys
begin

text \<open>
  \<^verbatim>\<open>apps/api/src/modules/auth/oidc/oidc.service.ts\<close>, second half: discovery of a provider, the profile
  taken from the claims, accounts created on the first login, and the callback of the provider
  (\<open>completeLogin\<close>), with \<^verbatim>\<open>oidc-provider-compatibility.ts\<close>. The exchange of the code and the check of the ID
  token are \<^verbatim>\<open>openid-client\<close>'s and a parameter. Logging, metrics and the audit log are not modelled.
\<close>

section \<open>Provider compatibility\<close>

definition supports_pkce_s256 :: "provider_type \<Rightarrow> json option \<Rightarrow> bool" where
  "supports_pkce_s256 t advertised =
     (case advertised of
        None \<Rightarrow> t = MICROSOFT_ENTRA
      | Some (JArray xs) \<Rightarrow> JString ''S256'' \<in> set xs
      | Some _ \<Rightarrow> False)"

definition accepts_email_verification_claim :: "provider_type \<Rightarrow> json option \<Rightarrow> bool" where
  "accepts_email_verification_claim t v =
     (if t = MICROSOFT_ENTRA then v = None \<or> v = Some (JBool True) else v = Some (JBool True))"

section \<open>Discovery\<close>

text \<open>What a provider publishes, as the client library returns it.\<close>

record provider_metadata =
  md_issuer :: string
  md_authorization :: "string option"
  md_token :: "string option"
  md_jwks :: "string option"
  md_end_session :: "string option"
  md_pkce :: "json option"

datatype client_authentication = No_Client_Auth | Client_Secret_Basic string | Client_Secret_Post string

definition validated_issuer :: "url_security \<Rightarrow> url_api \<Rightarrow> string \<Rightarrow> url result" where
  "validated_issuer se ua s =
     rbind (or_throw (Internal ''Invalid URL'') (ua_parse ua s)) (\<lambda>u.
     rbind (rguard (url_username u = [] \<and> url_password u = [] \<and> url_search u = [] \<and> url_hash u = [])
       (Unavailable ''issuer'')) (\<lambda>_.
     if url_protocol u = ''https:'' then Inr u
     else if url_protocol u = ''http:'' \<and> allow_development_http se then Inr u
     else Inl (Unavailable ''issuer https'')))"

definition client_authentication_of :: "provider_row \<Rightarrow> string option \<Rightarrow> client_authentication result" where
  "client_authentication_of p secret =
     (if ip_auth_method p = NO_SECRET
      then (if truthy secret then Inl (Unavailable ''client configuration'') else Inr No_Client_Auth)
      else if \<not> truthy secret then Inl (Unavailable ''client secret'')
      else Inr (if ip_auth_method p = SECRET_BASIC then Client_Secret_Basic (the secret)
                else Client_Secret_Post (the secret)))"

definition metadata_fits :: "provider_row \<Rightarrow> provider_metadata \<Rightarrow> bool" where
  "metadata_fits p md \<longleftrightarrow> md_issuer md = ip_issuer p \<and> truthy (md_authorization md) \<and>
     truthy (md_token md) \<and> truthy (md_jwks md) \<and> supports_pkce_s256 (ip_type p) (md_pkce md)"

definition metadata_endpoints :: "provider_metadata \<Rightarrow> string list" where
  "metadata_endpoints md =
     List.map_filter (\<lambda>e. e) [md_authorization md, md_token md, md_jwks md, md_end_session md]"

text \<open>
  \<open>decrypt\<close> is the encryption at rest, \<open>library\<close> the \<open>discovery\<close> of the client library with the target, the
  client, its authentication, the redirect address and whether plain HTTP is allowed. The two checks
  of addresses run in parallel in the source; the first failure is reported.
\<close>

definition discover ::
    "url_security \<Rightarrow> url_api \<Rightarrow> (string \<Rightarrow> string result) \<Rightarrow>
     (url \<Rightarrow> string \<Rightarrow> client_authentication \<Rightarrow> string \<Rightarrow> bool \<Rightarrow> provider_metadata result) \<Rightarrow>
     provider_row \<Rightarrow> string \<Rightarrow> provider_metadata result" where
  "discover se ua decrypt library p redirect =
     rbind (validated_issuer se ua (ip_issuer p)) (\<lambda>issuer.
     let target_text = (if truthy (ip_discovery_url p) then the (ip_discovery_url p) else ip_issuer p)
     in rbind (validated_issuer se ua target_text) (\<lambda>target.
        rbind (assert_safe_oidc_url se ua (ip_issuer p)) (\<lambda>_.
        rbind (assert_safe_oidc_url se ua target_text) (\<lambda>_.
        rbind (if truthy (ip_secret p) then rbind (decrypt (the (ip_secret p))) (\<lambda>s. Inr (Some s)) else Inr None) (\<lambda>secret.
        rbind (client_authentication_of p secret) (\<lambda>auth.
        rbind (library target (ip_client_id p) auth redirect
          (url_protocol issuer = ''http:'' \<or> url_protocol target = ''http:'')) (\<lambda>md.
        rbind (rguard (metadata_fits p md) (Unavailable ''provider metadata'')) (\<lambda>_.
        rbind (rmap (assert_safe_oidc_url se ua) (metadata_endpoints md)) (\<lambda>_.
        Inr md)))))))))"

section \<open>The profile of the claims\<close>

record claim_mapping =
  cm_subject :: string
  cm_email :: string
  cm_email_verified :: string
  cm_username :: string
  cm_display_name :: string

text \<open>\<open>z.string().trim()\<close> with bounds on the length.\<close>

definition trimmed_between :: "nat \<Rightarrow> nat \<Rightarrow> string \<Rightarrow> string option" where
  "trimmed_between lo hi s = (let t = trim s in if lo \<le> length t \<and> length t \<le> hi then Some t else None)"

definition mapping_path :: "(string \<times> json) list \<Rightarrow> string \<Rightarrow> string \<Rightarrow> string oidc" where
  "mapping_path m k default_path =
     (case map_of m k of
        None \<Rightarrow> Inr default_path
      | Some (JString s) \<Rightarrow> or_throw (Oidc Claims_Invalid) (trimmed_between 1 200 s)
      | Some _ \<Rightarrow> Inl (Oidc Claims_Invalid))"

definition MAPPING_KEYS :: "string list" where
  "MAPPING_KEYS = [''subject'', ''email'', ''emailVerified'', ''username'', ''displayName'']"

definition parse_claim_mapping :: "json \<Rightarrow> claim_mapping oidc" where
  "parse_claim_mapping v =
     (case v of
        JObject m \<Rightarrow>
          rbind (rguard (fst ` set m \<subseteq> set MAPPING_KEYS) (Oidc Claims_Invalid)) (\<lambda>_.
          rbind (mapping_path m ''subject'' ''sub'') (\<lambda>subject.
          rbind (mapping_path m ''email'' ''email'') (\<lambda>email.
          rbind (mapping_path m ''emailVerified'' ''email_verified'') (\<lambda>verified.
          rbind (mapping_path m ''username'' ''preferred_username'') (\<lambda>username.
          rbind (mapping_path m ''displayName'' ''name'') (\<lambda>display_name.
          Inr \<lparr>cm_subject = subject, cm_email = email, cm_email_verified = verified,
               cm_username = username, cm_display_name = display_name\<rparr>))))))
      | _ \<Rightarrow> Inl (Oidc Claims_Invalid))"

definition profile_field :: "json option \<Rightarrow> nat \<Rightarrow> nat \<Rightarrow> string oidc" where
  "profile_field v lo hi =
     (case v of
        Some (JString s) \<Rightarrow> or_throw (Oidc Claims_Invalid) (trimmed_between lo hi s)
      | _ \<Rightarrow> Inl (Oidc Claims_Invalid))"

text \<open>
  \<open>is_email\<close> is zod's check of an address. A path whose last segment is a method of \<open>Object.prototype\<close>
  finds a function, which is neither \<open>undefined\<close> nor \<open>true\<close>.
\<close>

definition OBJECT_METHODS :: "string list" where
  "OBJECT_METHODS =
     [''hasOwnProperty'', ''isPrototypeOf'', ''propertyIsEnumerable'', ''toLocaleString'', ''toString'', ''valueOf'',
      ''__defineGetter__'', ''__defineSetter__'', ''__lookupGetter__'', ''__lookupSetter__'']"

definition inherited_at_path :: "json \<Rightarrow> string \<Rightarrow> bool" where
  "inherited_at_path v path =
     (let ss = split_on (CHR ''.'') path
      in case claim_walk v (butlast ss) of
        Some (JObject m) \<Rightarrow> map_of m (last ss) = None \<and> last ss \<in> set OBJECT_METHODS
      | _ \<Rightarrow> False)"

definition mapped_profile :: "(string \<Rightarrow> bool) \<Rightarrow> provider_type \<Rightarrow> json \<Rightarrow> json \<Rightarrow> oidc_profile oidc" where
  "mapped_profile is_email t raw claims =
     rbind (parse_claim_mapping raw) (\<lambda>m.
     rbind (rguard (accepts_email_verification_claim t (claim_at_path claims (cm_email_verified m)) \<and>
         \<not> inherited_at_path claims (cm_email_verified m)) (Oidc Claims_Invalid)) (\<lambda>_.
     rbind (profile_field (claim_at_path claims (cm_subject m)) 1 1000) (\<lambda>subject.
     rbind (profile_field (claim_at_path claims (cm_email m)) 0 254) (\<lambda>email.
     rbind (rguard (is_email email) (Oidc Claims_Invalid)) (\<lambda>_.
     rbind (profile_field (claim_at_path claims (cm_username m)) 1 500) (\<lambda>username.
     rbind (profile_field (claim_at_path claims (cm_display_name m)) 1 100) (\<lambda>display_name.
     Inr \<lparr>op_subject = subject, op_email = to_lower email, op_username = username,
          op_display_name = display_name\<rparr>)))))))"

section \<open>Accounts of a first login\<close>

definition username_char :: "char \<Rightarrow> bool" where
  "username_char c \<longleftrightarrow>
     (let n = of_char c :: nat in 97 \<le> n \<and> n \<le> 122 \<or> 48 \<le> n \<and> n \<le> 57 \<or> c \<in> set ''._-'')"

text \<open>Every run of other characters becomes one hyphen.\<close>

fun hyphenate :: "bool \<Rightarrow> string \<Rightarrow> string" where
  "hyphenate run [] = []"
| "hyphenate run (c # cs) =
     (if username_char c then c # hyphenate False cs
      else if run then hyphenate True cs else CHR ''-'' # hyphenate True cs)"

definition separator_char :: "char \<Rightarrow> bool" where
  "separator_char c \<longleftrightarrow> c \<in> set ''._-''"

definition strip_separators :: "string \<Rightarrow> string" where
  "strip_separators s = rev (dropWhile separator_char (rev (dropWhile separator_char s)))"

text \<open>\<open>nfkd\<close> decomposes the characters and drops the combining marks.\<close>

definition normalize_username :: "(string \<Rightarrow> string) \<Rightarrow> crypto \<Rightarrow> string \<Rightarrow> string" where
  "normalize_username nfkd cr v =
     (let normalized = take 50 (strip_separators (hyphenate False (to_lower (nfkd v))))
      in if 3 \<le> length normalized then normalized else ''user-'' @ take 8 (cr_hash cr v))"

text \<open>\<open>ci\<close> is the database's comparison without case (\<open>mode: "insensitive"\<close>).\<close>

definition available_jit_username ::
    "(string \<Rightarrow> string) \<Rightarrow> (string \<Rightarrow> string \<Rightarrow> bool) \<Rightarrow> crypto \<Rightarrow> db \<Rightarrow> string \<Rightarrow> string \<Rightarrow> string \<Rightarrow> string oidc" where
  "available_jit_username nfkd ci cr d preferred issuer subject =
     (let base = normalize_username nfkd cr preferred
      in if \<not> (\<exists>u \<in> set (t_users d). ci (u_username u) base) then Inr base
         else let candidate = take 41 base @ CHR ''-'' # take 8 (cr_hash cr (issuer @ CHR 0x00 # subject))
           in if \<exists>u \<in> set (t_users d). ci (u_username u) candidate then Inl (Oidc Account_Conflict)
              else Inr candidate)"

definition jit_user_row :: "ident \<Rightarrow> oidc_profile \<Rightarrow> string \<Rightarrow> string \<Rightarrow> ident \<Rightarrow> user_row" where
  "jit_user_row uid pr username hash rid =
     \<lparr>u_id = uid, u_email = to_lower (op_email pr), u_username = username, u_display_name = op_display_name pr,
      u_password = hash, u_active = True, u_protected = False, u_local_password = False, u_role = rid\<rparr>"

definition insert_jit_user :: "user_row \<Rightarrow> db \<Rightarrow> db oidc" where
  "insert_jit_user u d =
     rbind (rguard (u_id u \<notin> u_id ` set (t_users d) \<and> u_email u \<notin> u_email ` set (t_users d) \<and>
         u_username u \<notin> u_username ` set (t_users d)) (Oidc Account_Conflict)) (\<lambda>_.
     rbind (rguard (u_role u \<in> r_id ` set (t_roles d)) (Thrown (Internal ''P2003''))) (\<lambda>_.
     Inr (d\<lparr>t_users := t_users d @ [u]\<rparr>)))"

text \<open>The fresh ids of the rows a callback may create, and the hash of the random password.\<close>

record callback_fresh =
  cf_identity :: ident
  cf_user :: ident
  cf_password :: string
  cf_code_id :: ident
  cf_code :: string
  cf_membership :: "ident \<Rightarrow> ident"

definition provision_identity ::
    "(string \<Rightarrow> string) \<Rightarrow> (string \<Rightarrow> string \<Rightarrow> bool) \<Rightarrow> crypto \<Rightarrow> db \<Rightarrow> provider_row \<Rightarrow> string \<Rightarrow> oidc_profile \<Rightarrow>
     callback_fresh \<Rightarrow> time \<Rightarrow> (db \<times> identity_row) oidc" where
  "provision_identity nfkd ci cr d p issuer pr fr now =
     rbind (or_throw (Oidc Jit_Unavailable) (ip_default_role p)) (\<lambda>rid.
     rbind (rguard (is_safe_jit_default_role d (find_role d rid)) (Oidc Jit_Unavailable)) (\<lambda>_.
     rbind (rguard (\<not> (\<exists>u \<in> set (t_users d). ci (u_email u) (op_email pr))) (Oidc Account_Conflict)) (\<lambda>_.
     rbind (available_jit_username nfkd ci cr d (op_username pr) issuer (op_subject pr)) (\<lambda>username.
     rbind (insert_jit_user (jit_user_row (cf_user fr) pr username (cf_password fr) rid) d) (\<lambda>d1.
     let x = new_identity (cf_identity fr) (ip_id p) (cf_user fr) issuer pr now
     in rbind (insert_identity x d1) (\<lambda>d2. Inr (d2, x)))))))"

section \<open>The callback\<close>

text \<open>
  What the client library is told to expect and what it returns: the claims of the ID token
  (\<open>None\<close> when there is none) and the access token.
\<close>

record grant_checks =
  gk_state :: string
  gk_nonce :: string
  gk_verifier :: string
  gk_max_age :: int

record callback_env =
  ce_oidc :: oidc_env
  ce_grant :: "provider_row \<Rightarrow> grant_checks \<Rightarrow> (json option \<times> string option) result"
  ce_is_email :: "string \<Rightarrow> bool"
  ce_nfkd :: "string \<Rightarrow> string"
  ce_ci :: "string \<Rightarrow> string \<Rightarrow> bool"
  ce_graph :: graph_api

datatype completion = Logged_In string | Account_Linked | Account_Unlinked

datatype callback_failure = Callback oidc_code bool | Escaped api_error

definition decrypted :: "oidc_env \<Rightarrow> string \<Rightarrow> string oidc" where
  "decrypted env s = or_throw (Thrown (Internal ''decrypt'')) (oe_decrypt env s)"

definition lift_thrown :: "'a result \<Rightarrow> 'a oidc" where
  "lift_thrown r = (case r of Inl e \<Rightarrow> Inl (Thrown e) | Inr x \<Rightarrow> Inr x)"

definition issuer_of :: "json \<Rightarrow> string oidc" where
  "issuer_of claims =
     (case claims of
        JObject m \<Rightarrow>
          (case map_of m ''iss'' of
             Some (JString s) \<Rightarrow> if s = [] then Inl (Oidc Provider_Unavailable) else Inr s
           | _ \<Rightarrow> Inl (Oidc Provider_Unavailable))
      | _ \<Rightarrow> Inl (Oidc Provider_Unavailable))"

record verified_callback =
  vc_issuer :: string
  vc_profile :: oidc_profile
  vc_claims :: json
  vc_token :: "string option"

definition verify_callback :: "callback_env \<Rightarrow> string \<Rightarrow> oidc_request_row \<Rightarrow> provider_row \<Rightarrow> verified_callback oidc" where
  "verify_callback ce state r p =
     rbind (lift_thrown (oe_discover (ce_oidc ce) p (oa_redirect r))) (\<lambda>_.
     rbind (decrypted (ce_oidc ce) (oa_nonce r)) (\<lambda>nonce.
     rbind (decrypted (ce_oidc ce) (oa_verifier r)) (\<lambda>verifier.
     rbind (lift_thrown (ce_grant ce p \<lparr>gk_state = state, gk_nonce = nonce, gk_verifier = verifier,
         gk_max_age = max_age_of (oa_intent r) p\<rparr>)) (\<lambda>(claims, token).
     rbind (or_throw (Oidc Provider_Unavailable) claims) (\<lambda>cs.
     rbind (issuer_of cs) (\<lambda>issuer.
     rbind (mapped_profile (ce_is_email ce) (ip_type p) (ip_claim_mapping p) cs) (\<lambda>pr.
     Inr \<lparr>vc_issuer = issuer, vc_profile = pr, vc_claims = cs, vc_token = token\<rparr>)))))))"

definition login_identity ::
    "callback_env \<Rightarrow> crypto \<Rightarrow> db \<Rightarrow> provider_row \<Rightarrow> string \<Rightarrow> oidc_profile \<Rightarrow> callback_fresh \<Rightarrow> time \<Rightarrow>
     (db \<times> identity_row) oidc" where
  "login_identity ce cr d p issuer pr fr now =
     (case find_subject d (ip_id p) issuer (op_subject pr) of
        Some x \<Rightarrow> Inr (d, x)
      | None \<Rightarrow>
          if ip_allow_jit p then provision_identity (ce_nfkd ce) (ce_ci ce) cr d p issuer pr fr now
          else Inl (Oidc Account_Not_Linked))"

definition new_login_code :: "crypto \<Rightarrow> identity_row \<Rightarrow> request_context \<Rightarrow> callback_fresh \<Rightarrow> time \<Rightarrow> login_code_row" where
  "new_login_code cr x ctx fr now =
     \<lparr>ol_id = cf_code_id fr, ol_token_hash = hash_oidc_value cr ''login-code'' (cf_code fr),
      ol_agent_hash = hash_user_agent cr (rc_agent ctx), ol_expires = now + LOGIN_CODE_TTL_MS, ol_used = None,
      ol_created = now, ol_user = xi_user x, ol_provider = xi_provider x, ol_identity = xi_id x\<rparr>"

definition insert_login_code :: "login_code_row \<Rightarrow> db \<Rightarrow> db oidc" where
  "insert_login_code c d =
     rbind (rguard (ol_id c \<notin> ol_id ` set (t_login_codes d) \<and>
         ol_token_hash c \<notin> ol_token_hash ` set (t_login_codes d)) (Thrown (Internal ''P2002''))) (\<lambda>_.
     rbind (rguard (find_user d (ol_user c) \<noteq> None \<and> find_provider d (ol_provider c) \<noteq> None \<and>
         find_identity d (ol_identity c) \<noteq> None) (Thrown (Internal ''P2003''))) (\<lambda>_.
     Inr (d\<lparr>t_login_codes := t_login_codes d @ [c]\<rparr>)))"

text \<open>The last transaction: the profile of the identity and the login code.\<close>

definition issue_login_code ::
    "crypto \<Rightarrow> db \<Rightarrow> identity_row \<Rightarrow> oidc_profile \<Rightarrow> request_context \<Rightarrow> callback_fresh \<Rightarrow> time \<Rightarrow> db oidc" where
  "issue_login_code cr d x pr ctx fr now =
     insert_login_code (new_login_code cr x ctx fr now)
       (d\<lparr>t_identities := update_where (\<lambda>y. xi_id y = xi_id x) (profile_update pr now) (t_identities d)\<rparr>)"

text \<open>
  A login. An account created on the way stays when a later step fails: the steps are separate
  transactions.
\<close>

definition sync_failure :: "sync_error \<Rightarrow> oidc_failure" where
  "sync_failure e = (case e of Sync_Other a \<Rightarrow> Thrown a | _ \<Rightarrow> Oidc Sync_Failed)"

definition entra_failure_of :: "entra_failure \<Rightarrow> oidc_failure" where
  "entra_failure_of e = (case e of Resolution _ \<Rightarrow> Oidc Group_Overage_Unresolved | Resolver_Thrown a \<Rightarrow> Thrown a)"

definition finish_login ::
    "(string \<Rightarrow> string \<Rightarrow> int) \<Rightarrow> callback_env \<Rightarrow> crypto \<Rightarrow> db \<Rightarrow> group_cache \<Rightarrow> provider_row \<Rightarrow> verified_callback \<Rightarrow>
     request_context \<Rightarrow> callback_fresh \<Rightarrow> time \<Rightarrow> db \<times> group_cache \<times> completion oidc" where
  "finish_login lc ce cr d c p v ctx fr now =
     (case login_identity ce cr d p (vc_issuer v) (vc_profile v) fr now of
        Inl e \<Rightarrow> (d, c, Inl e)
      | Inr (d1, x) \<Rightarrow>
          (case find_user d1 (xi_user x) of
             None \<Rightarrow> (d1, c, Inl (Thrown (Internal ''identity.user'')))
           | Some u \<Rightarrow>
               if \<not> u_active u \<or> u_protected u then (d1, c, Inl (Oidc Account_Unavailable))
               else (case resolve_claims (ce_graph ce) c p (vc_claims v) (vc_token v) now of
                  (c1, Inl e) \<Rightarrow> (d1, c1, Inl (entra_failure_of e))
                | (c1, Inr claims) \<Rightarrow>
                    (case synchronize lc (cf_membership fr) d1 (xi_id x) claims of
                       (d2, Inl e) \<Rightarrow> (d2, c1, Inl (sync_failure e))
                     | (d2, Inr _) \<Rightarrow>
                         (case issue_login_code cr d2 x (vc_profile v) ctx fr now of
                            Inl e \<Rightarrow> (d2, c1, Inl e)
                          | Inr d3 \<Rightarrow> (d3, c1, Inr (Logged_In (cf_code fr))))))))"

definition finish_callback ::
    "(string \<Rightarrow> string \<Rightarrow> int) \<Rightarrow> callback_env \<Rightarrow> crypto \<Rightarrow> db \<Rightarrow> group_cache \<Rightarrow> oidc_request_row \<Rightarrow> provider_row \<Rightarrow>
     string \<Rightarrow> request_context \<Rightarrow> callback_fresh \<Rightarrow> time \<Rightarrow> db \<times> group_cache \<times> completion oidc" where
  "finish_callback lc ce cr d c r p state ctx fr now =
     (case verify_callback ce state r p of
        Inl e \<Rightarrow> (d, c, Inl e)
      | Inr v \<Rightarrow>
          (case oa_intent r of
             Link_Intent \<Rightarrow>
               (case oa_user r of
                  None \<Rightarrow> (d, c, Inl (Oidc Invalid_Request))
                | Some uid \<Rightarrow>
                    (case link_identity d (ip_id p) uid (vc_issuer v) (vc_profile v) (cf_identity fr) now of
                       Inl e \<Rightarrow> (d, c, Inl e) | Inr d' \<Rightarrow> (d', c, Inr Account_Linked)))
           | Unlink_Intent \<Rightarrow>
               (case (oa_user r, oa_unlink r) of
                  (Some uid, Some i) \<Rightarrow>
                    (case unlink_identity d (ip_id p) uid i (vc_issuer v) (op_subject (vc_profile v)) now of
                       Inl e \<Rightarrow> (d, c, Inl e) | Inr d' \<Rightarrow> (d', c, Inr Account_Unlinked))
                | _ \<Rightarrow> (d, c, Inl (Oidc Invalid_Request)))
           | Login_Intent \<Rightarrow> finish_login lc ce cr d c p v ctx fr now))"

definition callback_failure_of :: "intent \<Rightarrow> oidc_failure \<Rightarrow> callback_failure" where
  "callback_failure_of i e =
     Callback (case e of Oidc code \<Rightarrow> code | Thrown _ \<Rightarrow> Provider_Unavailable) (i \<noteq> Login_Intent)"

text \<open>\<open>/^[A-Za-z0-9_-]{32,512}$/\<close>\<close>

definition oidc_value_pattern :: "string \<Rightarrow> bool" where
  "oidc_value_pattern s \<longleftrightarrow> 32 \<le> length s \<and> length s \<le> 512 \<and> list_all base64url_char s"

definition complete_login ::
    "(string \<Rightarrow> string \<Rightarrow> int) \<Rightarrow> callback_env \<Rightarrow> crypto \<Rightarrow> db \<Rightarrow> group_cache \<Rightarrow> string \<Rightarrow> string option \<Rightarrow> string option \<Rightarrow>
     request_context \<Rightarrow> callback_fresh \<Rightarrow> time \<Rightarrow> db \<times> group_cache \<times> (callback_failure + completion)" where
  "complete_login lc ce cr d c slug state binding ctx fr now =
     (if \<not> oe_configured (ce_oidc ce) then (d, c, Inl (Escaped (Unavailable ''sso'')))
      else case (state, binding) of
        (Some s, Some b) \<Rightarrow>
          if \<not> oidc_value_pattern s \<or> b = [] then (d, c, Inl (Callback Invalid_Request False))
          else (case consume_request cr d slug s b now of
             (d1, Inl (Oidc code)) \<Rightarrow> (d1, c, Inl (Callback code False))
           | (d1, Inl (Thrown e)) \<Rightarrow> (d1, c, Inl (Escaped e))
           | (d1, Inr (r, p)) \<Rightarrow>
               (case finish_callback lc ce cr d1 c r p s ctx fr now of
                  (d2, c2, Inl e) \<Rightarrow> (d2, c2, Inl (callback_failure_of (oa_intent r) e))
                | (d2, c2, Inr done_with) \<Rightarrow> (d2, c2, Inr done_with)))
      | _ \<Rightarrow> (d, c, Inl (Callback Invalid_Request False)))"

section \<open>What the steps leave alone\<close>

text \<open>A synchronisation changes grants, memberships and the stored claims of identities, nothing else.\<close>

definition identity_key :: "identity_row \<Rightarrow> ident \<times> ident \<times> ident \<times> string \<times> string" where
  "identity_key x = (xi_id x, xi_user x, xi_provider x, xi_issuer x, xi_subject x)"

lemma synchronize_tables:
  assumes "synchronize lc fresh d i j = (d', out)"
  shows "d'\<lparr>t_memberships := t_memberships d, t_group_grants := t_group_grants d,
      t_role_grants := t_role_grants d, t_identities := t_identities d\<rparr> = d"
    and "map identity_key (t_identities d') = map identity_key (t_identities d)"
proof -
  consider (same) "d' = d" | (failed) e where "d' = record_failure d i e"
    | (run) c v where "sync_transaction lc fresh d i c = Inr (d', v)"
    using synchronize_cases [OF assms] by blast
  then have "d'\<lparr>t_memberships := t_memberships d, t_group_grants := t_group_grants d,
      t_role_grants := t_role_grants d, t_identities := t_identities d\<rparr> = d \<and>
    map identity_key (t_identities d') = map identity_key (t_identities d)"
  proof cases
    case run
    then obtain c where "d'\<lparr>t_memberships := t_memberships d, t_group_grants := t_group_grants d,
      t_role_grants := t_role_grants d, t_identities := t_identities d\<rparr> = d"
      "t_identities d' = t_identities (store_claims i c d)"
      by (rule sync_transaction_tables)
    then show ?thesis by (simp add: store_claims_def identity_key_def update_where_def)
  qed (simp_all add: record_failure_def identity_key_def update_where_def)
  then show "d'\<lparr>t_memberships := t_memberships d, t_group_grants := t_group_grants d,
      t_role_grants := t_role_grants d, t_identities := t_identities d\<rparr> = d"
    "map identity_key (t_identities d') = map identity_key (t_identities d)" by simp_all
qed

lemma synchronize_frames:
  assumes "synchronize lc fresh d i j = (d', out)"
  shows "t_users d' = t_users d" "t_providers d' = t_providers d" "t_login_codes d' = t_login_codes d"
    "t_oidc_requests d' = t_oidc_requests d" "t_sessions d' = t_sessions d"
  using arg_cong [OF synchronize_tables(1) [OF assms], of t_users]
    arg_cong [OF synchronize_tables(1) [OF assms], of t_providers]
    arg_cong [OF synchronize_tables(1) [OF assms], of t_login_codes]
    arg_cong [OF synchronize_tables(1) [OF assms], of t_oidc_requests]
    arg_cong [OF synchronize_tables(1) [OF assms], of t_sessions]
  by simp_all

lemma provision_identity_Inr:
  assumes "provision_identity nfkd ci cr d p issuer pr fr now = Inr (d', x)"
  obtains rid username where "ip_default_role p = Some rid" and "is_safe_jit_default_role d (find_role d rid)"
    and "\<not> (\<exists>u \<in> set (t_users d). ci (u_email u) (op_email pr))"
    and "cf_user fr \<notin> u_id ` set (t_users d)" and "to_lower (op_email pr) \<notin> u_email ` set (t_users d)"
    and "username \<notin> u_username ` set (t_users d)"
    and "cf_identity fr \<notin> xi_id ` set (t_identities d)"
    and "find_subject d (ip_id p) issuer (op_subject pr) = None"
    and "find_link d (ip_id p) (cf_user fr) = None" and "find_provider d (ip_id p) \<noteq> None"
    and "x = new_identity (cf_identity fr) (ip_id p) (cf_user fr) issuer pr now"
    and "d' = d\<lparr>t_users := t_users d @ [jit_user_row (cf_user fr) pr username (cf_password fr) rid],
      t_identities := t_identities d @ [x]\<rparr>"
proof -
  from assms obtain rid where rid: "ip_default_role p = Some rid"
    and rest: "rbind (rguard (is_safe_jit_default_role d (find_role d rid)) (Oidc Jit_Unavailable)) (\<lambda>_.
     rbind (rguard (\<not> (\<exists>u \<in> set (t_users d). ci (u_email u) (op_email pr))) (Oidc Account_Conflict)) (\<lambda>_.
     rbind (available_jit_username nfkd ci cr d (op_username pr) issuer (op_subject pr)) (\<lambda>username.
     rbind (insert_jit_user (jit_user_row (cf_user fr) pr username (cf_password fr) rid) d) (\<lambda>d1.
     let x = new_identity (cf_identity fr) (ip_id p) (cf_user fr) issuer pr now
     in rbind (insert_identity x d1) (\<lambda>d2. Inr (d2, x)))))) = Inr (d', x)"
    unfolding provision_identity_def by (elim rbind_InrE) simp
  from rest obtain username d1 where safe: "is_safe_jit_default_role d (find_role d rid)"
    "\<not> (\<exists>u \<in> set (t_users d). ci (u_email u) (op_email pr))"
    and user: "insert_jit_user (jit_user_row (cf_user fr) pr username (cf_password fr) rid) d = Inr d1"
    and x: "x = new_identity (cf_identity fr) (ip_id p) (cf_user fr) issuer pr now"
    and ins: "insert_identity x d1 = Inr d'"
    by (elim rbind_InrE) (simp add: rbind_eq_Inr Let_def; blast)
  from user have d1: "d1 = d\<lparr>t_users := t_users d @ [jit_user_row (cf_user fr) pr username (cf_password fr) rid]\<rparr>"
    and keys: "cf_user fr \<notin> u_id ` set (t_users d)" "to_lower (op_email pr) \<notin> u_email ` set (t_users d)"
      "username \<notin> u_username ` set (t_users d)"
    by (simp_all add: insert_jit_user_def rbind_eq_Inr jit_user_row_def)
  from ins have "xi_id x \<notin> xi_id ` set (t_identities d1)"
    "find_subject d1 (xi_provider x) (xi_issuer x) (xi_subject x) = None"
    "find_link d1 (xi_provider x) (xi_user x) = None" "find_provider d1 (xi_provider x) \<noteq> None"
    and d': "d' = d1\<lparr>t_identities := t_identities d1 @ [x]\<rparr>"
    by (simp_all add: insert_identity_def rbind_eq_Inr)
  then have "cf_identity fr \<notin> xi_id ` set (t_identities d)" "find_subject d (ip_id p) issuer (op_subject pr) = None"
    "find_link d (ip_id p) (cf_user fr) = None" "find_provider d (ip_id p) \<noteq> None"
    by (simp_all add: d1 x new_identity_def find_subject_def find_link_def find_provider_def)
  then show thesis using that rid safe keys x d' unfolding d1 by simp
qed

section \<open>Accounts of a first login\<close>

text \<open>The foreign key of \<open>ExternalIdentity.userId\<close>.\<close>

definition identities_owned :: "db \<Rightarrow> bool" where
  "identities_owned d \<longleftrightarrow> (\<forall>x \<in> set (t_identities d). xi_user x \<in> u_id ` set (t_users d))"

lemma fresh_user_role:
  assumes "u_id u \<notin> u_id ` set (t_users d)" and "xi_user x = u_id u" and "xi_id x \<notin> xi_id ` set (t_identities d)"
    and ok: "identities_ok d" "identities_owned d"
    and role: "find_role d (u_role u) = Some role"
    and d': "d' = d\<lparr>t_users := t_users d @ [u], t_identities := t_identities d @ [x]\<rparr>"
  shows "find_user d' (u_id u) = Some u" and "resolve_user lc d' (u_id u) = Some (u, role)"
proof -
  show user: "find_user d' (u_id u) = Some u"
    unfolding find_user_def d' by (simp, rule find_snoc_new) (use assms(1) in \<open>auto simp: image_iff\<close>)
  have "xi_user y \<noteq> u_id u" if "y \<in> set (t_identities d)" for y
    using assms(1) ok(2) that unfolding identities_owned_def by metis
  then have "filter (\<lambda>y. xi_user y = u_id u) (t_identities d') = [x]"
    using assms(2) by (simp add: d' filter_empty_conv)
  moreover have "rg_identity g \<noteq> xi_id x" if "g \<in> set (t_role_grants d)" for g
    using assms(3) ok(1) that unfolding identities_ok_def by metis
  then have "filter (\<lambda>g. rg_identity g = xi_id x) (t_role_grants d') = []"
    by (simp add: d' filter_empty_conv)
  ultimately have "external_grants d' (u_id u) = []"
    by (simp add: external_grants_def List.map_filter_simps)
  then have "with_effective_role lc d' u role = role"
    by (simp add: with_effective_role_def sort_by_def)
  moreover have "find_role d' (u_role u) = Some role" using role by (simp add: find_role_def d')
  ultimately show "resolve_user lc d' (u_id u) = Some (u, role)"
    using user by (simp add: resolve_user_def)
qed

lemma safe_role_forbids:
  assumes "is_safe_jit_default_role d (Some role)" and "resource_name r \<in> set JIT_FORBIDDEN_ROLE_RESOURCES"
    and "\<not> u_protected u" and "\<forall>q \<in> set (t_user_permissions d). p_user q \<noteq> u_id u"
  shows "\<not> is_allowed d (to_authenticated_user u role) r a"
proof -
  have "override_of d (u_id u) r a = None"
    using assms(4) by (auto simp: override_of_def find_None_iff)
  moreover have "role_acl_of d (r_id role) r a \<noteq> Some True"
  proof
    assume "role_acl_of d (r_id role) r a = Some True"
    then obtain e where "e \<in> set (t_acls d)" "a_role e = r_id role" "a_resource e = resource_name r" "a_allowed e"
      by (auto simp: role_acl_of_def dest: find_SomeD)
    with assms(1,2) show False by (auto simp: is_safe_jit_default_role_def)
  qed
  ultimately show ?thesis using assms(3) unfolding is_allowed_of_user by (auto split: option.splits)
qed

text \<open>
  C40: The account a first login creates is harmless and takes nothing over. It is a new active account,
  unprotected and without a local password, whose effective role is the provider's default role; with
  that role it may do nothing on any of the resources the policy forbids. All other accounts and
  identities are as they were, and the tables stay consistent.
\<close>

theorem jit_account_safe:
  assumes ok: "accounts_ok d" "identities_ok d" "identities_owned d"
    and run: "provision_identity nfkd ci cr d p issuer pr fr now = Inr (d', x)"
  shows "\<exists>u role. resolve_user lc d' (xi_user x) = Some (u, role) \<and> ip_default_role p = Some (r_id role) \<and>
    u_active u \<and> \<not> u_protected u \<and> \<not> u_local_password u \<and>
    u_id u \<notin> u_id ` set (t_users d) \<and> u_email u \<notin> u_email ` set (t_users d) \<and>
    (\<forall>r a. resource_name r \<in> set JIT_FORBIDDEN_ROLE_RESOURCES \<longrightarrow>
       \<not> is_allowed d' (to_authenticated_user u role) r a) \<and>
    d' = d\<lparr>t_users := t_users d @ [u], t_identities := t_identities d @ [x]\<rparr> \<and>
    accounts_ok d' \<and> identities_ok d' \<and> identities_owned d'"
proof -
  obtain rid username where rid: "ip_default_role p = Some rid"
    and safe: "is_safe_jit_default_role d (find_role d rid)"
    and "\<not> (\<exists>u \<in> set (t_users d). ci (u_email u) (op_email pr))"
    and new: "cf_user fr \<notin> u_id ` set (t_users d)" "to_lower (op_email pr) \<notin> u_email ` set (t_users d)"
      "username \<notin> u_username ` set (t_users d)" "cf_identity fr \<notin> xi_id ` set (t_identities d)"
    and "find_subject d (ip_id p) issuer (op_subject pr) = None"
    and link: "find_link d (ip_id p) (cf_user fr) = None" "find_provider d (ip_id p) \<noteq> None"
    and x: "x = new_identity (cf_identity fr) (ip_id p) (cf_user fr) issuer pr now"
    and d': "d' = d\<lparr>t_users := t_users d @ [jit_user_row (cf_user fr) pr username (cf_password fr) rid],
      t_identities := t_identities d @ [x]\<rparr>"
    using provision_identity_Inr [OF run] .
  define u where "u = jit_user_row (cf_user fr) pr username (cf_password fr) rid"
  have u: "u_id u = cf_user fr" "u_email u = to_lower (op_email pr)" "u_username u = username" "u_role u = rid"
      "u_active u" "\<not> u_protected u" "\<not> u_local_password u"
    by (simp_all add: u_def jit_user_row_def)
  from safe obtain role where role: "find_role d rid = Some role"
    by (auto simp: is_safe_jit_default_role_def split: option.splits)
  then have "role \<in> set (t_roles d)" "r_id role = rid" by (auto simp: find_role_def dest: find_SomeD)
  have d'u: "d' = d\<lparr>t_users := t_users d @ [u], t_identities := t_identities d @ [x]\<rparr>" by (simp add: d' u_def)
  have resolved: "resolve_user lc d' (xi_user x) = Some (u, role)"
    using fresh_user_role(2) [of u d x role d' lc] new(1,4) u role ok(2,3) d'u by (simp add: x new_identity_def)
  have "\<forall>q \<in> set (t_user_permissions d'). p_user q \<noteq> u_id u"
  proof
    fix q assume "q \<in> set (t_user_permissions d')"
    then have "p_user q \<in> u_id ` set (t_users d)" using ok(1) by (simp add: accounts_ok_def d')
    with new(1) u(1) show "p_user q \<noteq> u_id u" by metis
  qed
  moreover have "is_safe_jit_default_role d' (Some role)"
    using safe role by (simp add: is_safe_jit_default_role_def d')
  ultimately have harmless: "\<not> is_allowed d' (to_authenticated_user u role) r a"
    if "resource_name r \<in> set JIT_FORBIDDEN_ROLE_RESOURCES" for r a
    using safe_role_forbids that u(6) by blast
  have "rid \<in> r_id ` set (t_roles d)"
    using \<open>role \<in> set (t_roles d)\<close> \<open>r_id role = rid\<close> by blast
  then have "accounts_ok d'"
    using ok(1) new(1-3) u(1-4) unfolding accounts_ok_def d'u by auto
  moreover have "ip_id p \<in> ip_id ` set (t_providers d)"
    using link(2) by (simp add: find_provider_def find_key_None)
  then have "identities_ok d'"
    using ok(2) new(4) link(1) unfolding identities_ok_def d'u x
    by (auto simp: new_identity_def find_link_def find_None_iff)
  moreover have "identities_owned d'"
    using ok(3) unfolding identities_owned_def d'u x by (simp add: new_identity_def u(1))
  ultimately show ?thesis
    using resolved rid \<open>r_id role = rid\<close> u(5-7) new(1,2) harmless d'u unfolding u(1,2)
    by (intro exI [of _ u] exI [of _ role]) (simp add: u(1,2))
qed

definition sample_jit_provider :: provider_row where
  "sample_jit_provider = sample_provider\<lparr>ip_allow_jit := True, ip_default_role := Some ''rd'', ip_sync_mode := ADD_ONLY\<rparr>"

definition sample_jit :: db where
  "sample_jit = sample_sso\<lparr>t_providers := [sample_jit_provider]\<rparr>"

definition sample_fresh :: callback_fresh where
  "sample_fresh = \<lparr>cf_identity = ''y'', cf_user = ''new'', cf_password = ''h'', cf_code_id = ''lc'', cf_code = ''code'',
     cf_membership = (\<lambda>_. ''ms'')\<rparr>"

theorem jit_account_safe_witness:
  "\<exists>d' x u role. provision_identity (\<lambda>s. s) (=) sample_crypto sample_jit sample_jit_provider ''iss''
       (sample_profile ''zoe'') sample_fresh 5 = Inr (d', x) \<and>
     resolve_user code_point_compare d' ''new'' = Some (u, role) \<and> r_id role = ''rd'' \<and>
     \<not> is_allowed d' (to_authenticated_user u role) Users Read"
proof -
  have "case provision_identity (\<lambda>s. s) (=) sample_crypto sample_jit sample_jit_provider ''iss''
       (sample_profile ''zoe'') sample_fresh 5 of Inr (d', x) \<Rightarrow> xi_user x = ''new'' | _ \<Rightarrow> False" by code_simp
  then obtain d' x where run: "provision_identity (\<lambda>s. s) (=) sample_crypto sample_jit sample_jit_provider ''iss''
       (sample_profile ''zoe'') sample_fresh 5 = Inr (d', x)" "xi_user x = ''new''" by (auto split: sum.splits prod.splits)
  have "accounts_ok sample_jit" "identities_ok sample_jit" "identities_owned sample_jit"
    by (simp_all add: accounts_ok_def identities_ok_def identities_owned_def sample_jit_def sample_jit_provider_def
        sample_sso_def sample_defs sample_sso_defs)
  from jit_account_safe [OF this run(1), of code_point_compare] obtain u role where
    "resolve_user code_point_compare d' ''new'' = Some (u, role)" "r_id role = ''rd''"
    "\<forall>r a. resource_name r \<in> set JIT_FORBIDDEN_ROLE_RESOURCES \<longrightarrow>
       \<not> is_allowed d' (to_authenticated_user u role) r a"
    unfolding run(2) by (auto simp: sample_jit_provider_def)
  moreover have "resource_name Users \<in> set JIT_FORBIDDEN_ROLE_RESOURCES"
    by (simp add: JIT_FORBIDDEN_ROLE_RESOURCES_def)
  ultimately show ?thesis using run(1) by blast
qed

section \<open>The callback\<close>

lemma login_identity_frames:
  assumes "login_identity ce cr d p issuer pr fr now = Inr (d', x)"
  shows "t_login_codes d' = t_login_codes d" "t_oidc_requests d' = t_oidc_requests d"
  using assms unfolding login_identity_def
  by (auto split: option.splits if_splits elim!: provision_identity_Inr)

lemma issue_login_code_Inr:
  "issue_login_code cr d x pr ctx fr now = Inr d' \<Longrightarrow>
   d' = d\<lparr>t_identities := update_where (\<lambda>y. xi_id y = xi_id x) (profile_update pr now) (t_identities d),
     t_login_codes := t_login_codes d @ [new_login_code cr x ctx fr now]\<rparr>"
  by (auto simp: issue_login_code_def insert_login_code_def rbind_eq_Inr)

lemma finish_login_cases:
  assumes "finish_login lc ce cr d c p v ctx fr now = (d', c', out)"
  obtains (refused) "isl out" and "t_login_codes d' = t_login_codes d" and "t_oidc_requests d' = t_oidc_requests d"
  | (code) d1 x u j d2 w where "login_identity ce cr d p (vc_issuer v) (vc_profile v) fr now = Inr (d1, x)"
      and "find_user d1 (xi_user x) = Some u" and "u_active u" and "\<not> u_protected u"
      and "synchronize lc (cf_membership fr) d1 (xi_id x) j = (d2, Inr w)"
      and "issue_login_code cr d2 x (vc_profile v) ctx fr now = Inr d'" and "out = Inr (Logged_In (cf_code fr))"
proof (cases "login_identity ce cr d p (vc_issuer v) (vc_profile v) fr now")
  case (Inl e)
  with assms show thesis by (intro refused) (auto simp: finish_login_def)
next
  case (Inr b)
  obtain d1 x where b: "b = (d1, x)" by (cases b)
  note login = Inr [unfolded b]
  note frames = login_identity_frames [OF login]
  show thesis
  proof (cases "\<exists>u. find_user d1 (xi_user x) = Some u \<and> u_active u \<and> \<not> u_protected u")
    case False
    with assms login frames show thesis
      by (intro refused) (auto simp: finish_login_def split: option.splits if_splits)
  next
    case True
    then obtain u where u: "find_user d1 (xi_user x) = Some u" "u_active u" "\<not> u_protected u" by blast
    obtain c1 resolved where rc: "resolve_claims (ce_graph ce) c p (vc_claims v) (vc_token v) now = (c1, resolved)"
      by fastforce
    show thesis
    proof (cases resolved)
      case (Inl e)
      with assms login frames u rc show thesis by (intro refused) (auto simp: finish_login_def)
    next
      case (Inr j)
      obtain d2 synced where sync: "synchronize lc (cf_membership fr) d1 (xi_id x) j = (d2, synced)" by fastforce
      note kept = synchronize_frames(3,4) [OF sync]
      show thesis
      proof (cases synced)
        case (Inl e)
        with assms login frames u rc Inr sync kept show thesis by (intro refused) (auto simp: finish_login_def)
      next
        case synced: (Inr w)
        show thesis
        proof (cases "issue_login_code cr d2 x (vc_profile v) ctx fr now")
          case (Inl e)
          with assms login frames u rc Inr sync synced kept show thesis
            by (intro refused) (auto simp: finish_login_def)
        next
          case issued: (Inr d3)
          with assms login u rc Inr sync synced have "d' = d3" "out = Inr (Logged_In (cf_code fr))"
            by (simp_all add: finish_login_def)
          with code [OF login u sync [unfolded synced]] issued show thesis by simp
        qed
      qed
    qed
  qed
qed

lemma link_identity_frames:
  assumes "link_identity d pid uid issuer pr i now = Inr d'"
  shows "t_login_codes d' = t_login_codes d" "t_oidc_requests d' = t_oidc_requests d"
  using assms by (auto elim!: link_identity_cases)

lemma unlink_identity_frames:
  assumes "unlink_identity d pid uid i issuer subject now = Inr d'"
  shows "set (t_login_codes d') \<subseteq> set (t_login_codes d)" "set (t_oidc_requests d') \<subseteq> set (t_oidc_requests d)"
  using assms
  by (auto elim!: unlink_identity_Inr simp: cascade_identities_def revoke_identity_sessions_def Let_def row_simps)

lemma finish_callback_frames:
  assumes "finish_callback lc ce cr d c r p s ctx fr now = (d', c', out)"
  shows "set (t_oidc_requests d') \<subseteq> set (t_oidc_requests d)"
    and "(\<forall>code. out \<noteq> Inr (Logged_In code)) \<Longrightarrow> set (t_login_codes d') \<subseteq> set (t_login_codes d)"
proof -
  have "set (t_oidc_requests d') \<subseteq> set (t_oidc_requests d) \<and>
    ((\<exists>code. out = Inr (Logged_In code)) \<or> set (t_login_codes d') \<subseteq> set (t_login_codes d))"
  proof (cases "verify_callback ce s r p")
    case (Inl e)
    with assms show ?thesis by (auto simp: finish_callback_def)
  next
    case (Inr v)
    show ?thesis
    proof (cases "oa_intent r")
      case Login_Intent
      with assms Inr have "finish_login lc ce cr d c p v ctx fr now = (d', c', out)"
        by (simp add: finish_callback_def)
      then show ?thesis
      proof (cases rule: finish_login_cases)
        case (code d1 x u j d2 w)
        with login_identity_frames [OF code(1)] synchronize_frames(3,4) [OF code(5)]
          issue_login_code_Inr [OF code(6)]
        show ?thesis by simp
      qed simp
    next
      case Link_Intent
      with assms Inr show ?thesis
        by (auto simp: finish_callback_def link_identity_frames split: option.splits sum.splits)
    next
      case Unlink_Intent
      with assms Inr show ?thesis
        by (auto simp: finish_callback_def split: option.splits sum.splits dest: unlink_identity_frames)
    qed
  qed
  then show "set (t_oidc_requests d') \<subseteq> set (t_oidc_requests d)"
    "(\<forall>code. out \<noteq> Inr (Logged_In code)) \<Longrightarrow> set (t_login_codes d') \<subseteq> set (t_login_codes d)" by blast+
qed

lemma complete_login_accepted:
  assumes "oe_configured (ce_oidc ce)" "oidc_value_pattern s" "b \<noteq> []"
    and "consume_request cr d slug s b now = (d1, Inr (r, p))"
    and "complete_login lc ce cr d c slug (Some s) (Some b) ctx fr now = (d', c', out)"
  obtains out' where "finish_callback lc ce cr d1 c r p s ctx fr now = (d', c', out')"
    and "out = (case out' of Inl e \<Rightarrow> Inl (callback_failure_of (oa_intent r) e) | Inr w \<Rightarrow> Inr w)"
  using assms by (cases "finish_callback lc ce cr d1 c r p s ctx fr now")
    (auto simp: complete_login_def split: sum.splits)

lemma complete_login_Inr:
  assumes "complete_login lc ce cr d c slug state binding ctx fr now = (d', c', Inr w)"
  obtains s b d1 r p where "state = Some s" and "binding = Some b" and "oe_configured (ce_oidc ce)"
    and "oidc_value_pattern s" and "b \<noteq> []" and "consume_request cr d slug s b now = (d1, Inr (r, p))"
    and "finish_callback lc ce cr d1 c r p s ctx fr now = (d', c', Inr w)"
  using assms
  by (auto simp: complete_login_def split: if_splits option.splits prod.splits sum.splits oidc_failure.splits)

lemma consume_request_rows:
  assumes "consume_request cr d slug s b now = (d1, Inr (r, p))"
  shows "d1 = d\<lparr>t_oidc_requests := t_oidc_requests d1\<rparr>" and "find_provider d (oa_provider r) = Some p"
  using assms by (auto simp: consume_request_def split: option.splits if_splits)

text \<open>
  A callback works once, whatever comes of it. Once its request was accepted, the same state is
  refused for every provider, cookie and time, without any effect; this also holds when the login, the
  linking or the unlinking failed later. Unless the answer is a login, no login code appears.
\<close>

theorem callback_single_use:
  assumes keys: "distinct (map oa_id (t_oidc_requests d))" "distinct (map oa_state_hash (t_oidc_requests d))"
    and fits: "oe_configured (ce_oidc ce)" "oidc_value_pattern s" "b \<noteq> []"
    and accepted: "consume_request cr d slug s b now = (d1, Inr (r, p))"
    and run: "complete_login lc ce cr d c slug (Some s) (Some b) ctx fr now = (d', c', out)"
  shows "(\<forall>c2 slug' b' ctx' fr' later.
      complete_login lc ce cr d' c2 slug' (Some s) b' ctx' fr' later = (d', c2, Inl (Callback Invalid_Request False))) \<and>
    ((\<forall>code. out \<noteq> Inr (Logged_In code)) \<longrightarrow> set (t_login_codes d') \<subseteq> set (t_login_codes d))"
proof -
  obtain out' where finish: "finish_callback lc ce cr d1 c r p s ctx fr now = (d', c', out')"
    and out: "out = (case out' of Inl e \<Rightarrow> Inl (callback_failure_of (oa_intent r) e) | Inr w \<Rightarrow> Inr w)"
    using complete_login_accepted [OF fits accepted run] .
  note frames = finish_callback_frames [OF finish]
  have "oa_state_hash x \<noteq> hash_oidc_value cr ''state'' s" if "x \<in> set (t_oidc_requests d1)" for x
  proof -
    have r: "r \<in> set (t_oidc_requests d)" "oa_state_hash r = hash_oidc_value cr ''state'' s" "now < oa_expires r"
      and d1: "t_oidc_requests d1 = delete_where (\<lambda>x. oa_id x = oa_id r \<and> now < oa_expires x) (t_oidc_requests d)"
      using accepted by (auto simp: consume_request_def split: option.splits if_splits dest: find_SomeD)
    from that have "x \<in> set (t_oidc_requests d)" "x \<noteq> r" using r(3) by (auto simp: d1 row_simps)
    with unique_key_eq [OF keys(2) _ r(1)] r(2) show ?thesis by metis
  qed
  then have "List.find (\<lambda>x. oa_state_hash x = hash_oidc_value cr ''state'' s) (t_oidc_requests d') = None"
    unfolding find_None_iff using frames(1) by blast
  then have "consume_request cr d' slug' s b' later = (d', Inl (Oidc Invalid_Request))" for slug' b' later
    by (simp add: consume_request_def)
  then have "complete_login lc ce cr d' c2 slug' (Some s) b' ctx' fr' later = (d', c2, Inl (Callback Invalid_Request False))"
    for c2 slug' b' ctx' fr' later
    using fits(1) by (simp add: complete_login_def split: option.split)
  moreover have "set (t_login_codes d') \<subseteq> set (t_login_codes d)" if "\<forall>code. out \<noteq> Inr (Logged_In code)"
  proof -
    have "\<forall>code. out' \<noteq> Inr (Logged_In code)" using that out by auto
    from frames(2) [OF this] show ?thesis using arg_cong [OF consume_request_rows(1) [OF accepted], of t_login_codes] by simp
  qed
  ultimately show ?thesis by blast
qed

text \<open>Who is logged in.\<close>

lemma login_identity_subject:
  assumes "login_identity ce cr d p issuer pr fr now = Inr (d', x)" and "subjects_unique d"
  shows "x \<in> set (t_identities d')" and "(xi_provider x, xi_issuer x, xi_subject x) = (ip_id p, issuer, op_subject pr)"
    and "x \<in> set (t_identities d) \<and> d' = d \<or> ip_allow_jit p \<and> xi_user x \<notin> u_id ` set (t_users d) \<and>
      (\<forall>y \<in> set (t_identities d). (xi_provider y, xi_issuer y, xi_subject y) \<noteq> (ip_id p, issuer, op_subject pr))"
    and "y \<in> set (t_identities d) \<Longrightarrow> (xi_provider y, xi_issuer y, xi_subject y) = (ip_id p, issuer, op_subject pr) \<Longrightarrow> y = x"
proof -
  have "(x \<in> set (t_identities d')) \<and> (xi_provider x, xi_issuer x, xi_subject x) = (ip_id p, issuer, op_subject pr) \<and>
    (x \<in> set (t_identities d) \<and> d' = d \<or> ip_allow_jit p \<and> xi_user x \<notin> u_id ` set (t_users d) \<and>
      (\<forall>y \<in> set (t_identities d). (xi_provider y, xi_issuer y, xi_subject y) \<noteq> (ip_id p, issuer, op_subject pr))) \<and>
    (\<forall>y \<in> set (t_identities d). (xi_provider y, xi_issuer y, xi_subject y) = (ip_id p, issuer, op_subject pr) \<longrightarrow> y = x)"
  proof (cases "find_subject d (ip_id p) issuer (op_subject pr)")
    case None
    with assms(1) have jit: "ip_allow_jit p" "provision_identity (ce_nfkd ce) (ce_ci ce) cr d p issuer pr fr now = Inr (d', x)"
      by (auto simp: login_identity_def split: if_splits)
    from None have none: "\<forall>y \<in> set (t_identities d). (xi_provider y, xi_issuer y, xi_subject y) \<noteq> (ip_id p, issuer, op_subject pr)"
      by (auto simp: find_subject_def find_None_iff)
    from jit(2) have "x \<in> set (t_identities d')" "xi_user x \<notin> u_id ` set (t_users d)"
      "(xi_provider x, xi_issuer x, xi_subject x) = (ip_id p, issuer, op_subject pr)"
      by (auto elim!: provision_identity_Inr simp: new_identity_def)
    with none jit(1) show ?thesis by blast
  next
    case (Some z)
    with assms(1) have same: "z = x" "d' = d" by (simp_all add: login_identity_def)
    from Some have x: "x \<in> set (t_identities d)" "(xi_provider x, xi_issuer x, xi_subject x) = (ip_id p, issuer, op_subject pr)"
      unfolding same by (auto simp: find_subject_def dest: find_SomeD)
    with unique_key_eq [OF assms(2) [unfolded subjects_unique_def] _ x(1)] same(2) show ?thesis by metis
  qed
  then show "x \<in> set (t_identities d')" "(xi_provider x, xi_issuer x, xi_subject x) = (ip_id p, issuer, op_subject pr)"
    "x \<in> set (t_identities d) \<and> d' = d \<or> ip_allow_jit p \<and> xi_user x \<notin> u_id ` set (t_users d) \<and>
      (\<forall>y \<in> set (t_identities d). (xi_provider y, xi_issuer y, xi_subject y) \<noteq> (ip_id p, issuer, op_subject pr))"
    "y \<in> set (t_identities d) \<Longrightarrow> (xi_provider y, xi_issuer y, xi_subject y) = (ip_id p, issuer, op_subject pr) \<Longrightarrow> y = x"
    by blast+
qed

lemma profile_key: "identity_key (profile_update pr now x) = identity_key x"
  by (simp add: identity_key_def)

lemma key_member:
  assumes "map identity_key xs = map identity_key ys" and "x \<in> set ys"
  shows "\<exists>z \<in> set xs. identity_key z = identity_key x"
proof -
  have "identity_key x \<in> set (map identity_key xs)" unfolding assms(1) using assms(2) by simp
  then show ?thesis by force
qed

text \<open>
  C39: A login answers for the subject the provider vouched for, and for nobody else. The callback
  consumed a request of a login; the code stands for an identity with the provider, issuer and subject
  of the verified ID token, and for its user, who is active and not protected. Either that very
  identity, with that subject, was linked to that user before; or nobody had that subject, the provider
  allows first logins and the user is new: no other account is ever taken, whatever its other identities
  are. Existing codes and existing accounts are as they were.
\<close>

theorem login_stands_for_subject:
  assumes ok: "subjects_unique d"
    and run: "complete_login lc ce cr d c slug state binding ctx fr now = (d', c', Inr (Logged_In code))"
  shows "\<exists>s b d1 r p v row u. state = Some s \<and> binding = Some b \<and>
    consume_request cr d slug s b now = (d1, Inr (r, p)) \<and> oa_intent r = Login_Intent \<and>
    verify_callback ce s r p = Inr v \<and>
    t_login_codes d' = t_login_codes d @ [row] \<and> ol_token_hash row = hash_oidc_value cr ''login-code'' code \<and>
    find_user d' (ol_user row) = Some u \<and> u_active u \<and> \<not> u_protected u \<and>
    (\<exists>x \<in> set (t_identities d'). xi_id x = ol_identity row \<and> xi_user x = ol_user row \<and>
      (xi_provider x, xi_issuer x, xi_subject x) = (ip_id p, vc_issuer v, op_subject (vc_profile v))) \<and>
    (\<forall>y \<in> set (t_identities d).
      (xi_provider y, xi_issuer y, xi_subject y) = (ip_id p, vc_issuer v, op_subject (vc_profile v)) \<longrightarrow>
      xi_user y = ol_user row) \<and>
    ((\<exists>y \<in> set (t_identities d). xi_id y = ol_identity row \<and> xi_user y = ol_user row \<and>
        (xi_provider y, xi_issuer y, xi_subject y) = (ip_id p, vc_issuer v, op_subject (vc_profile v))) \<or>
     ip_allow_jit p \<and> ol_user row \<notin> u_id ` set (t_users d) \<and>
       (\<forall>y \<in> set (t_identities d).
         (xi_provider y, xi_issuer y, xi_subject y) \<noteq> (ip_id p, vc_issuer v, op_subject (vc_profile v)))) \<and>
    set (t_users d) \<subseteq> set (t_users d')"
proof -
  obtain s b d1 r p where args: "state = Some s" "binding = Some b"
    and "oe_configured (ce_oidc ce)" "oidc_value_pattern s" "b \<noteq> []"
    and accepted: "consume_request cr d slug s b now = (d1, Inr (r, p))"
    and finish: "finish_callback lc ce cr d1 c r p s ctx fr now = (d', c', Inr (Logged_In code))"
    using complete_login_Inr [OF run] .
  have d1: "t_identities d1 = t_identities d" "t_users d1 = t_users d" "t_login_codes d1 = t_login_codes d"
    using arg_cong [OF consume_request_rows(1) [OF accepted], of t_identities]
      arg_cong [OF consume_request_rows(1) [OF accepted], of t_users]
      arg_cong [OF consume_request_rows(1) [OF accepted], of t_login_codes] by simp_all
  from finish obtain v where v: "verify_callback ce s r p = Inr v" "oa_intent r = Login_Intent"
    and login: "finish_login lc ce cr d1 c p v ctx fr now = (d', c', Inr (Logged_In code))"
    by (auto simp: finish_callback_def split: sum.splits intent.splits option.splits prod.splits)
  from login show ?thesis
  proof (cases rule: finish_login_cases)
    case (code d2 x u j d3 w)
    let ?row = "new_login_code cr x ctx fr now"
    have unique: "subjects_unique d1" using ok by (simp add: subjects_unique_def d1)
    note subject = login_identity_subject [OF code(1) unique]
    note frames = login_identity_frames [OF code(1)] synchronize_frames [OF code(5)] issue_login_code_Inr [OF code(6)]
    have row: "t_login_codes d' = t_login_codes d @ [?row]" using frames(1,5,8) d1(3) by simp
    have users: "t_users d' = t_users d2" using frames(3,8) by simp
    have user: "find_user d' (xi_user x) = Some u" using code(2) by (simp add: find_user_def users)
    have old: "set (t_users d) \<subseteq> set (t_users d')"
      using code(1) unfolding users login_identity_def d1(2) [symmetric]
      by (auto split: option.splits if_splits elim!: provision_identity_Inr)
    have "map identity_key (t_identities d') = map identity_key (t_identities d2)"
      using synchronize_tables(2) [OF code(5)] frames(8) by (simp add: map_update_where profile_key)
    then obtain z where z: "z \<in> set (t_identities d')" "identity_key z = identity_key x"
      using key_member subject(1) by blast
    then have here: "\<exists>x' \<in> set (t_identities d'). xi_id x' = ol_identity ?row \<and> xi_user x' = ol_user ?row \<and>
      (xi_provider x', xi_issuer x', xi_subject x') = (ip_id p, vc_issuer v, op_subject (vc_profile v))"
      using subject(2) by (intro bexI [of _ z]) (simp_all add: identity_key_def new_login_code_def)
    have linked: "xi_user y = ol_user ?row"
      if "y \<in> set (t_identities d)"
        "(xi_provider y, xi_issuer y, xi_subject y) = (ip_id p, vc_issuer v, op_subject (vc_profile v))" for y
      using subject(4) [of y] that by (simp add: d1 new_login_code_def)
    have who: "(\<exists>y \<in> set (t_identities d). xi_id y = ol_identity ?row \<and> xi_user y = ol_user ?row \<and>
        (xi_provider y, xi_issuer y, xi_subject y) = (ip_id p, vc_issuer v, op_subject (vc_profile v))) \<or>
      ip_allow_jit p \<and> ol_user ?row \<notin> u_id ` set (t_users d) \<and>
        (\<forall>y \<in> set (t_identities d).
          (xi_provider y, xi_issuer y, xi_subject y) \<noteq> (ip_id p, vc_issuer v, op_subject (vc_profile v)))"
      using subject(3) subject(2) unfolding d1 by (auto simp: new_login_code_def)
    have "ol_token_hash ?row = hash_oidc_value cr ''login-code'' code" "ol_user ?row = xi_user x"
      using code(7) by (simp_all add: new_login_code_def)
    with args accepted v row user code(3,4) here linked who old show ?thesis
      by (intro exI [of _ s] exI [of _ b] exI [of _ d1] exI [of _ r] exI [of _ p] exI [of _ v] exI [of _ ?row]
          exI [of _ u] conjI ballI impI) auto
  qed simp
qed

section \<open>A login\<close>

definition sample_id_token :: json where
  "sample_id_token = JObject [(''iss'', JString ''iss''), (''sub'', JString ''zoe''), (''email'', JString ''Zoe@x''),
     (''email_verified'', JBool True), (''preferred_username'', JString ''Zoe Q''), (''name'', JString ''Zoe''),
     (''groups'', JArray [JString ''wiki'']), (''roles'', JArray [])]"

definition sample_callback :: callback_env where
  "sample_callback =
     \<lparr>ce_oidc = sample_env, ce_grant = (\<lambda>_ _. Inr (Some sample_id_token, None)), ce_is_email = (\<lambda>_. True),
      ce_nfkd = (\<lambda>s. s), ce_ci = (=), ce_graph = sample_graph\<rparr>"

definition sample_pending :: db where
  "sample_pending = sample_jit\<lparr>t_oidc_requests :=
     [\<lparr>oa_id = ''rq'', oa_state_hash = hash_oidc_value sample_crypto ''state'' (os_state sample_oidc_secrets),
       oa_binding_hash = hash_oidc_value sample_crypto ''binding'' ''b'', oa_verifier = ''v'', oa_nonce = ''n'',
       oa_redirect = ''cb'', oa_intent = Login_Intent, oa_expires = 600000, oa_provider = ''idp'', oa_user = None,
       oa_unlink = None\<rparr>]\<rparr>"

abbreviation sample_complete :: "db \<Rightarrow> db \<times> group_cache \<times> (callback_failure + completion)" where
  "sample_complete d \<equiv> complete_login code_point_compare sample_callback sample_crypto d [] ''idp''
     (Some (os_state sample_oidc_secrets)) (Some ''b'') \<lparr>rc_ip = None, rc_agent = None\<rparr> sample_fresh 5"

lemma sample_login: "\<exists>d' c'. sample_complete sample_pending = (d', c', Inr (Logged_In ''code''))"
proof -
  have "case sample_complete sample_pending of (_, _, Inr (Logged_In w)) \<Rightarrow> w = ''code'' | _ \<Rightarrow> False" by code_simp
  then show ?thesis by (auto split: prod.splits sum.splits completion.splits)
qed

theorem login_stands_for_subject_witness:
  "\<exists>d' c' row u. sample_complete sample_pending = (d', c', Inr (Logged_In ''code'')) \<and>
     row \<in> set (t_login_codes d') \<and> find_user d' (ol_user row) = Some u \<and> u_active u"
proof -
  obtain d' c' where run: "sample_complete sample_pending = (d', c', Inr (Logged_In ''code''))" using sample_login by blast
  have "subjects_unique sample_pending"
    by (simp add: subjects_unique_def sample_pending_def sample_jit_def sample_sso_def)
  from login_stands_for_subject [OF this run] obtain row u where
    "t_login_codes d' = t_login_codes sample_pending @ [row]" "find_user d' (ol_user row) = Some u" "u_active u"
    by blast
  with run show ?thesis by (intro exI [of _ d'] exI [of _ c'] exI [of _ row] exI [of _ u]) simp
qed

theorem callback_single_use_witness:
  "\<exists>d' c'. sample_complete sample_pending = (d', c', Inr (Logged_In ''code'')) \<and>
     sample_complete d' = (d', [], Inl (Callback Invalid_Request False))"
proof -
  obtain d' c' where run: "sample_complete sample_pending = (d', c', Inr (Logged_In ''code''))" using sample_login by blast
  then obtain s b d1 r p where "Some (os_state sample_oidc_secrets) = Some s" "Some ''b'' = Some b"
    and fits: "oe_configured (ce_oidc sample_callback)" "oidc_value_pattern s" "b \<noteq> []"
    and accepted: "consume_request sample_crypto sample_pending ''idp'' s b 5 = (d1, Inr (r, p))"
    and "finish_callback code_point_compare sample_callback sample_crypto d1 [] r p s \<lparr>rc_ip = None, rc_agent = None\<rparr>
      sample_fresh 5 = (d', c', Inr (Logged_In ''code''))"
    by (rule complete_login_Inr)
  then have same: "s = os_state sample_oidc_secrets" "b = ''b''" by simp_all
  have "distinct (map oa_id (t_oidc_requests sample_pending))" "distinct (map oa_state_hash (t_oidc_requests sample_pending))"
    by (simp_all add: sample_pending_def)
  from callback_single_use [OF this fits accepted, unfolded same, OF run]
  have "sample_complete d' = (d', [], Inl (Callback Invalid_Request False))" by blast
  with run show ?thesis by (intro exI conjI)
qed

end
