(* ===== verification/Content.thy ===== *)
theory Content
  imports Resource_Acls Slugs
begin

text \<open>
  What the content services (spaces, categories, pages, notes, standards) share: the access check
  for an optional actor, the deletions with the cascades of the schema
  (\<^verbatim>\<open>onDelete\<close> of \<^verbatim>\<open>apps/api/prisma/schema.prisma\<close>), and
  the predicates on where content may stand. The services are modelled with the access
  service present, as the application module wires them; a call without an actor comes from inside.
\<close>

section \<open>Access of an optional actor\<close>

definition assert_actor ::
    "db \<Rightarrow> auth_user option \<Rightarrow> resource \<Rightarrow> action \<Rightarrow> target_type \<Rightarrow> ident \<Rightarrow> unit result" where
  "assert_actor d actor r a ty i =
     (case actor of
        None \<Rightarrow> Inr ()
      | Some u \<Rightarrow> rbind (assert_allowed d u r a ty i) (\<lambda>_. Inr ()))"

definition allowed_for ::
    "db \<Rightarrow> auth_user option \<Rightarrow> resource \<Rightarrow> action \<Rightarrow> target_type \<Rightarrow> ident list \<Rightarrow> ident list result" where
  "allowed_for d actor r a ty ids =
     (case actor of None \<Rightarrow> Inr ids | Some u \<Rightarrow> allowed_target_ids d u r a ty ids)"

lemma assert_actor_None [simp]: "assert_actor d None r a ty i = Inr ()"
  by (simp add: assert_actor_def)

lemma assert_actor_Some:
  "assert_actor d (Some u) r a ty i = Inr x \<longleftrightarrow> (\<exists>dc. evaluate d u r a ty i = Inr dc \<and> dc_allowed dc)"
  by (auto simp: assert_actor_def assert_allowed_def result_simps)

lemma allowed_for_None [simp]: "allowed_for d None r a ty ids = Inr ids"
  by (simp add: allowed_for_def)

text \<open>
  Pages and notes carry their own copy of the permission test; it agrees with the guard's.
\<close>

definition has_permission :: "db \<Rightarrow> auth_user \<Rightarrow> resource \<Rightarrow> action \<Rightarrow> bool" where
  "has_permission d u r a =
     (if au_protected u \<and> au_method u \<noteq> Some Api_Key then True
      else if (case au_key_permissions u of None \<Rightarrow> False | Some ps \<Rightarrow> (r, a) \<notin> set ps) then False
      else case override_of d (au_id u) r a of
        Some b \<Rightarrow> b
      | None \<Rightarrow> (case role_acl_of d (au_role_id u) r a of Some b \<Rightarrow> b | None \<Rightarrow> False))"

lemma has_permission_is_allowed: "has_permission d u r a = is_allowed d u r a"
proof (cases "au_protected u \<and> au_method u \<noteq> Some Api_Key")
  case False
  then have "has_permission d u r a \<longleftrightarrow> \<not> key_excludes u r a \<and> stored_permission d u r a"
    by (simp only: has_permission_def key_excludes_def stored_permission_def if_False) simp
  with False show ?thesis by (auto simp: is_allowed_unfold)
qed (simp add: has_permission_def is_allowed_unfold)

section \<open>Kinds and scopes\<close>

fun kind_of_scope :: "category_scope \<Rightarrow> knowledge_kind" where
  "kind_of_scope WIKI = Wiki_Kind"
| "kind_of_scope NOTE = Note_Kind"
| "kind_of_scope STANDARD = Standard_Kind"

section \<open>Deletions with their cascades\<close>

text \<open>
  A deleted page takes its versions, drafts, tags, links, media references, links from standards,
  resource rules and boundaries with it; its children and the notes promoted to it lose the
  reference.
\<close>

definition delete_pages :: "(page_row \<Rightarrow> bool) \<Rightarrow> db \<Rightarrow> db" where
  "delete_pages p d =
     (let gone = pg_id ` set (filter p (t_pages d));
          hit = (\<lambda>x. case x of None \<Rightarrow> False | Some i \<Rightarrow> i \<in> gone)
      in d\<lparr>t_pages := update_where (\<lambda>q. hit (pg_parent q)) (\<lambda>q. q\<lparr>pg_parent := None\<rparr>)
             (delete_where p (t_pages d)),
           t_notes := update_where (\<lambda>n. hit (n_promoted n)) (\<lambda>n. n\<lparr>n_promoted := None\<rparr>) (t_notes d),
           t_page_versions := delete_where (\<lambda>v. pv_page v \<in> gone) (t_page_versions d),
           t_page_drafts := delete_where (\<lambda>v. pd_page v \<in> gone) (t_page_drafts d),
           t_page_tags := delete_where (\<lambda>v. pt_page v \<in> gone) (t_page_tags d),
           t_page_links := delete_where (\<lambda>v. pl_source v \<in> gone \<or> pl_target v \<in> gone) (t_page_links d),
           t_page_media := delete_where (\<lambda>v. pm_page v \<in> gone) (t_page_media d),
           t_standard_pages := delete_where (\<lambda>v. sp_page v \<in> gone) (t_standard_pages d),
           t_entries := delete_where (\<lambda>e. hit (ti_page (e_target e))) (t_entries d),
           t_boundaries := delete_where (\<lambda>b. hit (ti_page (b_target b))) (t_boundaries d)\<rparr>)"

text \<open>A deleted category leaves its content without a category.\<close>

definition delete_category :: "ident \<Rightarrow> db \<Rightarrow> db" where
  "delete_category i d =
     d\<lparr>t_categories := delete_where (\<lambda>c. c_id c = i) (t_categories d),
       t_pages := update_where (\<lambda>p. pg_category p = Some i) (\<lambda>p. p\<lparr>pg_category := None\<rparr>) (t_pages d),
       t_notes := update_where (\<lambda>n. n_category n = Some i) (\<lambda>n. n\<lparr>n_category := None\<rparr>) (t_notes d),
       t_standards :=
         update_where (\<lambda>x. st_category x = Some i) (\<lambda>x. x\<lparr>st_category := None\<rparr>) (t_standards d),
       t_entries := delete_where (\<lambda>e. ti_category (e_target e) = Some i) (t_entries d),
       t_boundaries := delete_where (\<lambda>b. ti_category (b_target b) = Some i) (t_boundaries d)\<rparr>"

definition delete_note :: "ident \<Rightarrow> db \<Rightarrow> db" where
  "delete_note i d =
     d\<lparr>t_notes := delete_where (\<lambda>n. n_id n = i) (t_notes d),
       t_note_shares := delete_where (\<lambda>s. sh_note s = i) (t_note_shares d),
       t_note_tags := delete_where (\<lambda>x. nt_note x = i) (t_note_tags d),
       t_entries := delete_where (\<lambda>e. ti_note (e_target e) = Some i) (t_entries d),
       t_boundaries := delete_where (\<lambda>b. ti_note (b_target b) = Some i) (t_boundaries d)\<rparr>"

definition delete_standard :: "ident \<Rightarrow> db \<Rightarrow> db" where
  "delete_standard i d =
     d\<lparr>t_standards := delete_where (\<lambda>x. st_id x = i) (t_standards d),
       t_rules := delete_where (\<lambda>x. sr_standard x = i) (t_rules d),
       t_standard_versions := delete_where (\<lambda>x. sv_standard x = i) (t_standard_versions d),
       t_standard_pages := delete_where (\<lambda>x. sp_standard x = i) (t_standard_pages d),
       t_exceptions := delete_where (\<lambda>x. ex_standard x = i) (t_exceptions d),
       t_entries := delete_where (\<lambda>e. ti_standard (e_target e) = Some i) (t_entries d),
       t_boundaries := delete_where (\<lambda>b. ti_standard (b_target b) = Some i) (t_boundaries d)\<rparr>"

section \<open>Where content may stand\<close>

text \<open>
  A category is of a kind its space allows; a page, a shared note or a standard lies in a space
  that allows its kind, under a category of its own scope and space (if any).
\<close>

definition space_allows :: "db \<Rightarrow> ident \<Rightarrow> knowledge_kind \<Rightarrow> bool" where
  "space_allows d i k \<longleftrightarrow> (\<exists>s \<in> set (t_spaces d). s_id s = i \<and> k \<in> set (s_kinds s))"

fun category_fits :: "db \<Rightarrow> ident option \<Rightarrow> category_scope \<Rightarrow> ident \<Rightarrow> bool" where
  "category_fits d None sc sp = True"
| "category_fits d (Some i) sc sp =
     (\<exists>c \<in> set (t_categories d). c_id c = i \<and> c_scope c = sc \<and> c_space c = sp)"

definition pages_placed :: "db \<Rightarrow> bool" where
  "pages_placed d \<longleftrightarrow>
     (\<forall>p \<in> set (t_pages d). space_allows d (pg_space p) Wiki_Kind \<and>
        category_fits d (pg_category p) WIKI (pg_space p))"

definition standards_placed :: "db \<Rightarrow> bool" where
  "standards_placed d \<longleftrightarrow>
     (\<forall>x \<in> set (t_standards d). space_allows d (st_space x) Standard_Kind \<and>
        category_fits d (st_category x) STANDARD (st_space x))"

definition notes_placed :: "db \<Rightarrow> bool" where
  "notes_placed d \<longleftrightarrow>
     (\<forall>n \<in> set (t_notes d). \<forall>i. n_space n = Some i \<longrightarrow>
        space_allows d i Note_Kind \<and> category_fits d (n_category n) NOTE i)"

lemma category_fits_fun:
  "category_fits d x sc sp \<longleftrightarrow>
     (\<forall>i. x = Some i \<longrightarrow> (\<exists>c \<in> set (t_categories d). c_id c = i \<and> c_scope c = sc \<and> c_space c = sp))"
  by (cases x) simp_all

text \<open>Both tests look at the spaces and categories only.\<close>

lemma space_allows_cong: "t_spaces d' = t_spaces d \<Longrightarrow> space_allows d' = space_allows d"
  by (simp add: space_allows_def fun_eq_iff)

lemma category_fits_cong: "t_categories d' = t_categories d \<Longrightarrow> category_fits d' = category_fits d"
  by (auto simp: category_fits_fun fun_eq_iff)

text \<open>Deleting a category keeps what fitted, less the references to it.\<close>

lemma category_fits_delete:
  "category_fits d x sc sp \<Longrightarrow> category_fits (delete_category i d) (if x = Some i then None else x) sc sp"
  by (auto simp: category_fits_fun delete_category_def row_simps)

end
