(* ===== verification/Spaces.thy ===== *)
theory Spaces
  imports Content
begin

text \<open>
  \<^verbatim>\<open>apps/api/src/modules/spaces/spaces.service.ts\<close>: knowledge spaces, their visibility, the kinds
  of content they allow and their deletion. \<open>slugify\<close> is the npm package, \<open>fold_case\<close> the database's
  case folding; fresh row ids are arguments (\<open>fresh a\<close> is the id of the owner rule for action
  \<open>a\<close>). A unique violation (P2002) is the test of the schema's unique columns.
\<close>

definition DEFAULT_SPACE_ID :: ident where
  "DEFAULT_SPACE_ID = ''00000000-0000-4000-8000-000000000014''"

section \<open>Reading\<close>

definition find_all_spaces :: "db \<Rightarrow> auth_user option \<Rightarrow> space_row list result" where
  "find_all_spaces d user =
     rbind (allowed_for d user Spaces Read Space (map s_id (t_spaces d))) (\<lambda>allowed.
     Inr (filter (\<lambda>s. s_id s \<in> set allowed) (t_spaces d)))"

definition get_space :: "db \<Rightarrow> ident \<Rightarrow> space_row result" where
  "get_space d i = or_throw (NotFound ''space'') (find_space d i)"

definition find_space_by_id :: "db \<Rightarrow> ident \<Rightarrow> auth_user option \<Rightarrow> space_row result" where
  "find_space_by_id d i user = rbind (assert_actor d user Spaces Read Space i) (\<lambda>_. get_space d i)"

text \<open>Despite its name, the test is for the kind, not for the visibility.\<close>

definition resolve_open_space :: "db \<Rightarrow> knowledge_kind \<Rightarrow> ident option \<Rightarrow> ident result" where
  "resolve_open_space d kind requested =
     rbind (get_space d (given requested DEFAULT_SPACE_ID)) (\<lambda>s.
     rbind (rguard (kind \<in> set (s_kinds s)) (BadRequest ''kind not enabled'')) (\<lambda>_. Inr (s_id s)))"

section \<open>Checks\<close>

definition assert_space_name ::
    "(string \<Rightarrow> string) \<Rightarrow> db \<Rightarrow> string \<Rightarrow> ident option \<Rightarrow> unit result" where
  "assert_space_name fold_case d name exclude =
     rguard (\<not> (\<exists>s \<in> set (t_spaces d). fold_case (s_name s) = fold_case name \<and> exclude \<noteq> Some (s_id s)))
       (Conflict ''space name'')"

definition assert_responsible_group :: "db \<Rightarrow> ident option \<Rightarrow> unit result" where
  "assert_responsible_group d g =
     (if truthy g then rbind (or_throw (NotFound ''group'') (find_group d (the g))) (\<lambda>_. Inr ())
      else Inr ())"

definition assert_kinds_may_be_disabled :: "db \<Rightarrow> ident \<Rightarrow> knowledge_kind list \<Rightarrow> unit result" where
  "assert_kinds_may_be_disabled d i kinds =
     (let categories = (\<lambda>sc. count_where (\<lambda>c. c_space c = i \<and> c_scope c = sc) (t_categories d));
          wiki = (if Wiki_Kind \<in> set kinds then 0
            else count_where (\<lambda>p. pg_space p = i) (t_pages d) + categories WIKI);
          note = (if Note_Kind \<in> set kinds then 0
            else count_where (\<lambda>n. n_space n = Some i) (t_notes d) + categories NOTE);
          standard = (if Standard_Kind \<in> set kinds then 0
            else count_where (\<lambda>x. st_space x = i) (t_standards d) + categories STANDARD)
      in rguard (\<not> (0 < wiki \<or> 0 < note \<or> 0 < standard)) (Conflict ''kind in use''))"

definition space_slug_occupied :: "db \<Rightarrow> ident option \<Rightarrow> string \<Rightarrow> bool" where
  "space_slug_occupied d exclude s =
     (case List.find (\<lambda>x. s_slug x = s) (t_spaces d) of
        None \<Rightarrow> False | Some x \<Rightarrow> Some (s_id x) \<noteq> exclude)"

definition space_slug :: "(string \<Rightarrow> string) \<Rightarrow> db \<Rightarrow> string \<Rightarrow> ident option \<Rightarrow> string option" where
  "space_slug slugify d name exclude =
     (let base = (if slugify name = [] then ''bereich'' else slugify name)
      in slug_loop (length (t_spaces d) + 1) (space_slug_occupied d exclude) base 1 base)"

section \<open>The owner's rules\<close>

definition OWNER_ACTIONS :: "action list" where
  "OWNER_ACTIONS = [Read, Create, Update, Delete, Share, Approve, Purge]"

definition owner_rule :: "ident \<Rightarrow> ident \<Rightarrow> ident \<Rightarrow> action \<Rightarrow> entry_row" where
  "owner_rule new_id sp uid a =
     new_entry new_id To_User uid Space sp (target_key Space sp) a ALLOW (Some True)"

text \<open>\<open>createMany\<close> with \<open>skipDuplicates\<close>.\<close>

definition create_owner_rules ::
    "(action \<Rightarrow> ident) \<Rightarrow> ident \<Rightarrow> ident \<Rightarrow> entry_row list \<Rightarrow> entry_row list" where
  "create_owner_rules fresh sp uid es =
     es @ filter (\<lambda>e. entry_key3 e \<notin> entry_key3 ` set es)
       (map (\<lambda>a. owner_rule (fresh a) sp uid a) OWNER_ACTIONS)"

section \<open>Creating and changing spaces\<close>

record space_input =
  si_name :: string
  si_description :: "string option"
  si_visibility :: visibility
  si_kinds :: "knowledge_kind list option"
  si_group :: "ident option"

definition new_space :: "ident \<Rightarrow> string \<Rightarrow> space_input \<Rightarrow> space_row" where
  "new_space new_id slug x =
     \<lparr>s_id = new_id, s_name = si_name x, s_slug = slug, s_description = or_null (si_description x),
      s_visibility = si_visibility x, s_kinds = given (si_kinds x) [Wiki_Kind], s_system = False,
      s_group = or_null (si_group x)\<rparr>"

definition create_space ::
    "(string \<Rightarrow> string) \<Rightarrow> (string \<Rightarrow> string) \<Rightarrow> (action \<Rightarrow> ident) \<Rightarrow> db \<Rightarrow> ident \<Rightarrow> space_input \<Rightarrow>
     auth_user option \<Rightarrow> db result" where
  "create_space slugify fold_case fresh d new_id x actor =
     rbind (rguard (\<not> (si_visibility x = RESTRICTED \<and> actor = None)) (BadRequest ''actor'')) (\<lambda>_.
     rbind (assert_space_name fold_case d (si_name x) None) (\<lambda>_.
     rbind (assert_responsible_group d (si_group x)) (\<lambda>_.
     rbind (or_throw (Internal ''no slug'') (space_slug slugify d (si_name x) None)) (\<lambda>slug.
     rbind (rguard (new_id \<notin> s_id ` set (t_spaces d) \<and> si_name x \<notin> s_name ` set (t_spaces d) \<and>
         slug \<notin> s_slug ` set (t_spaces d)) (Conflict ''space name or slug'')) (\<lambda>_.
     let d' = d\<lparr>t_spaces := t_spaces d @ [new_space new_id slug x]\<rparr>
     in Inr (case actor of
          Some u \<Rightarrow> if si_visibility x = RESTRICTED
            then d'\<lparr>t_entries := create_owner_rules fresh new_id (au_id u) (t_entries d)\<rparr> else d'
        | None \<Rightarrow> d'))))))"

record space_change =
  sc_name :: "string option"
  sc_description :: "string option option"
  sc_visibility :: "visibility option"
  sc_kinds :: "knowledge_kind list option"
  sc_group :: "ident option option"

definition changed_space :: "space_change \<Rightarrow> string option \<Rightarrow> space_row \<Rightarrow> space_row" where
  "changed_space x slug s =
     s\<lparr>s_name := given (sc_name x) (s_name s), s_slug := given slug (s_slug s),
       s_description := given (map_option or_null (sc_description x)) (s_description s),
       s_visibility := given (sc_visibility x) (s_visibility s),
       s_kinds := given (sc_kinds x) (s_kinds s),
       s_group := given (map_option or_null (sc_group x)) (s_group s)\<rparr>"

definition update_space ::
    "(string \<Rightarrow> string) \<Rightarrow> (string \<Rightarrow> string) \<Rightarrow> (action \<Rightarrow> ident) \<Rightarrow> db \<Rightarrow> ident \<Rightarrow> space_change \<Rightarrow>
     auth_user option \<Rightarrow> db result" where
  "update_space slugify fold_case fresh d i x actor =
     rbind (assert_actor d actor Spaces Update Space i) (\<lambda>_.
     rbind (get_space d i) (\<lambda>existing.
     let renames = (sc_name x \<noteq> None \<and> sc_name x \<noteq> Some (s_name existing)) in
     rbind (rguard (\<not> (s_system existing \<and> renames)) (Forbidden ''system space'')) (\<lambda>_.
     rbind (if renames then assert_space_name fold_case d (the (sc_name x)) (Some i) else Inr ()) (\<lambda>_.
     rbind (assert_responsible_group d (given (sc_group x) None)) (\<lambda>_.
     rbind (case sc_kinds x of None \<Rightarrow> Inr () | Some ks \<Rightarrow> assert_kinds_may_be_disabled d i ks) (\<lambda>_.
     rbind (if renames
            then rbind (or_throw (Internal ''no slug'') (space_slug slugify d (the (sc_name x)) (Some i)))
                   (\<lambda>s. Inr (Some s))
            else Inr None) (\<lambda>slug.
     let restricts = (sc_visibility x = Some RESTRICTED \<and> s_visibility existing \<noteq> RESTRICTED) in
     rbind (rguard (\<not> (restricts \<and> actor = None)) (BadRequest ''actor'')) (\<lambda>_.
     rbind (rguard (\<forall>s \<in> set (t_spaces d). s_id s \<noteq> i \<longrightarrow>
         sc_name x \<noteq> Some (s_name s) \<and> slug \<noteq> Some (s_slug s)) (Conflict ''space name or slug'')) (\<lambda>_.
     let d' = d\<lparr>t_spaces := update_where (\<lambda>s. s_id s = i) (changed_space x slug) (t_spaces d)\<rparr>
     in Inr (case actor of
          Some u \<Rightarrow> if restricts
            then d'\<lparr>t_entries := create_owner_rules fresh i (au_id u) (t_entries d)\<rparr> else d'
        | None \<Rightarrow> d'))))))))))"

section \<open>Deleting a space\<close>

definition space_entry_count :: "db \<Rightarrow> ident \<Rightarrow> nat" where
  "space_entry_count d i = count_where (\<lambda>e. ti_space (e_target e) = Some i) (t_entries d)"

definition space_boundary_count :: "db \<Rightarrow> ident \<Rightarrow> nat" where
  "space_boundary_count d i = count_where (\<lambda>b. ti_space (b_target b) = Some i) (t_boundaries d)"

definition content_count :: "db \<Rightarrow> ident \<Rightarrow> nat" where
  "content_count d i =
     count_where (\<lambda>c. c_space c = i) (t_categories d) + count_where (\<lambda>p. pg_space p = i) (t_pages d) +
     count_where (\<lambda>n. n_space n = Some i) (t_notes d) + count_where (\<lambda>x. st_space x = i) (t_standards d)"

text \<open>The checks and the conditional deletion may see different databases.\<close>

definition remove_space_checks :: "db \<Rightarrow> ident \<Rightarrow> auth_user option \<Rightarrow> unit result" where
  "remove_space_checks d i actor =
     rbind (assert_actor d actor Spaces Delete Space i) (\<lambda>_.
     rbind (get_space d i) (\<lambda>s.
     rbind (rguard (\<not> s_system s) (Forbidden ''system space'')) (\<lambda>_.
     rbind (rguard (\<not> 0 < content_count d i) (Conflict ''content'')) (\<lambda>_.
       rguard (\<not> (0 < space_entry_count d i \<or> 0 < space_boundary_count d i)) (Conflict ''resource acls'')))))"

definition remove_space_commit :: "db \<Rightarrow> ident \<Rightarrow> db result" where
  "remove_space_commit d i =
     (let p = (\<lambda>s. s_id s = i \<and> \<not> s_system s \<and> content_count d i = 0 \<and>
                 space_entry_count d i = 0 \<and> space_boundary_count d i = 0)
      in rbind (rguard (count_where p (t_spaces d) = 1) (Conflict ''occupied meanwhile'')) (\<lambda>_.
         Inr (d\<lparr>t_spaces := delete_where p (t_spaces d)\<rparr>)))"

definition remove_space :: "db \<Rightarrow> ident \<Rightarrow> auth_user option \<Rightarrow> db result" where
  "remove_space d i actor = rbind (remove_space_checks d i actor) (\<lambda>_. remove_space_commit d i)"

section \<open>The owner of a restricted space\<close>

lemma target_key_inject: "target_key ty i = target_key ty' i' \<longleftrightarrow> ty = ty' \<and> i = i'"
proof
  assume "target_key ty i = target_key ty' i'"
  then have eq: "target_type_name ty @ CHR '':'' # i = target_type_name ty' @ CHR '':'' # i'"
    by (simp add: target_key_def)
  have "CHR '':'' \<notin> set (target_type_name t)" for t by (cases t) simp_all
  from split_at_sep [OF eq this this] show "ty = ty' \<and> i = i'" by (cases ty; cases ty') simp_all
qed simp

text \<open>Rules and boundaries on a space name a stored space (foreign keys of the schema).\<close>

definition space_rules_placed :: "db \<Rightarrow> bool" where
  "space_rules_placed d \<longleftrightarrow>
     (\<forall>e \<in> set (t_entries d). fk (ti_space (e_target e)) (s_id ` set (t_spaces d))) \<and>
     (\<forall>b \<in> set (t_boundaries d). fk (ti_space (b_target b)) (s_id ` set (t_spaces d)))"

lemma fk_Some: "fk x S \<Longrightarrow> x = Some i \<Longrightarrow> i \<in> S"
  by simp

lemma no_rules_on_new_space:
  assumes "acls_ok d" and "space_rules_placed d" and "i \<notin> s_id ` set (t_spaces d)"
  shows "\<forall>e \<in> set (t_entries d). e_target_key e \<noteq> target_key Space i"
    and "\<forall>b \<in> set (t_boundaries d). b_target_key b \<noteq> target_key Space i"
proof -
  have ids: "target_key ty tid = target_key Space i \<Longrightarrow> ti_space (target_ids_of ty tid) = Some i" for ty tid
    by (auto simp: target_key_inject simp: target_ids_of_def)
  show "\<forall>e \<in> set (t_entries d). e_target_key e \<noteq> target_key Space i"
  proof (rule ballI, rule notI)
    fix e assume e: "e \<in> set (t_entries d)" "e_target_key e = target_key Space i"
    then obtain ty tid where "e_target_key e = target_key ty tid" "e_target e = target_ids_of ty tid"
      using assms(1) unfolding acls_ok_def well_formed_entry_def by blast
    with e(2) have "ti_space (e_target e) = Some i" using ids by simp
    moreover have "fk (ti_space (e_target e)) (s_id ` set (t_spaces d))"
      using assms(2) e(1) by (simp add: space_rules_placed_def)
    ultimately show False by (rule notE [OF assms(3) fk_Some, rotated])
  qed
  show "\<forall>b \<in> set (t_boundaries d). b_target_key b \<noteq> target_key Space i"
  proof (rule ballI, rule notI)
    fix b assume b: "b \<in> set (t_boundaries d)" "b_target_key b = target_key Space i"
    then obtain ty tid where "b_target_key b = target_key ty tid" "b_target b = target_ids_of ty tid"
      using assms(1) unfolding acls_ok_def well_formed_boundary_def by blast
    with b(2) have "ti_space (b_target b) = Some i" using ids by simp
    moreover have "fk (ti_space (b_target b)) (s_id ` set (t_spaces d))"
      using assms(2) b(1) by (simp add: space_rules_placed_def)
    ultimately show False by (rule notE [OF assms(3) fk_Some, rotated])
  qed
qed

lemma owner_rule_fields:
  "e_target_key (owner_rule n i uid a) = target_key Space i"
  "e_action (owner_rule n i uid a) = action_name a"
  "e_effect (owner_rule n i uid a) = ALLOW" "e_user (owner_rule n i uid a) = Some uid"
  "e_group (owner_rule n i uid a) = None" "e_inherit (owner_rule n i uid a)"
  by (simp_all add: owner_rule_def new_entry_def)

lemma owner_rules_new:
  assumes "\<forall>e \<in> set es. e_target_key e \<noteq> target_key Space i"
  shows "create_owner_rules fresh i uid es = es @ map (\<lambda>a. owner_rule (fresh a) i uid a) OWNER_ACTIONS"
proof -
  have "entry_key3 (owner_rule (fresh a) i uid a) \<notin> entry_key3 ` set es" for a
    using assms by (auto simp: entry_key3_def owner_rule_fields)
  then show ?thesis unfolding create_owner_rules_def by (simp add: filter_id_conv)
qed

lemma owner_rules_unique:
  assumes "entries_unique d" and "\<forall>e \<in> set (t_entries d). e_target_key e \<noteq> target_key Space i"
    and "t_entries d' = t_entries d @ map (\<lambda>a. owner_rule (fresh a) i uid a) OWNER_ACTIONS"
  shows "entries_unique d'"
  unfolding entries_unique_def
proof (intro ballI impI)
  fix e e'
  assume e: "e \<in> set (t_entries d')" "e' \<in> set (t_entries d')"
    and same: "e_user e \<noteq> None \<and> e_user e = e_user e' \<and> e_target_key e = e_target_key e' \<and>
      e_action e = e_action e'"
  consider (old) "e \<in> set (t_entries d)" "e' \<in> set (t_entries d)"
    | (new) a a' where "e = owner_rule (fresh a) i uid a" "e' = owner_rule (fresh a') i uid a'"
    using e same assms(2) unfolding assms(3) by (auto simp: owner_rule_fields)
  then show "e = e'"
  proof cases
    case old
    with assms(1) same show ?thesis unfolding entries_unique_def by blast
  next
    case (new a a')
    with same have "action_name a = action_name a'" by (simp add: owner_rule_fields)
    then show ?thesis using new by simp
  qed
qed

lemma owner_rules_verdict:
  assumes "\<forall>e \<in> set (t_entries d). e_target_key e \<noteq> target_key Space i"
    and "\<forall>b \<in> set (t_boundaries d'). b_target_key b \<noteq> target_key Space i"
    and "t_entries d' = t_entries d @ map (\<lambda>a. owner_rule (fresh a) i uid a) OWNER_ACTIONS"
    and "a \<in> set OWNER_ACTIONS"
  shows "path_verdict d' v a False True [target_key Space i] \<longleftrightarrow> v = uid"
proof -
  have rules: "user_rules d' v a True (target_key Space i) =
      (if v = uid then {owner_rule (fresh a) i uid a} else {})"
    using assms(1,4) by (auto simp: user_rules_def assms(3) owner_rule_fields)
  have "group_rules d' v a True (target_key Space i) = {}"
    using assms(1) by (auto simp: group_rules_def assms(3) owner_rule_fields)
  moreover have "\<not> has_boundary d' a (target_key Space i)"
    using assms(2) by (simp add: has_boundary_def)
  ultimately show ?thesis by (simp add: level_verdict_def rules owner_rule_fields)
qed

lemma create_space_Inr:
  assumes "create_space slugify fold_case fresh d i x actor = Inr d'" and "si_visibility x = RESTRICTED"
  obtains u slug where "actor = Some u" "i \<notin> s_id ` set (t_spaces d)"
    "d' = d\<lparr>t_spaces := t_spaces d @ [new_space i slug x],
            t_entries := create_owner_rules fresh i (au_id u) (t_entries d)\<rparr>"
  using assms unfolding create_space_def by (auto simp: result_simps Let_def split: option.splits)

lemma evaluate_space:
  assumes "find_space d i = Some s" and "r \<in> set CONTENT_RESOURCES" and "is_permission_supported r a"
  obtains dc where "evaluate d v r a Space i = Inr dc"
    and "entries_unique d \<longrightarrow> (dc_allowed dc \<longleftrightarrow> is_allowed d v r a \<and>
      path_verdict d (au_id v) a (s_visibility s = OPEN) True [target_key Space i])"
proof (cases "is_allowed d v r a")
  case False
  then have "evaluate d v r a Space i = Inr global_denied"
    using assms(3) by (simp add: evaluate_decide)
  then show thesis using False that by (simp add: global_denied_def make_decision_def)
next
  case True
  let ?h = "in_space [] s"
  have h: "resolve_hierarchy d Space i = Inr ?h" using assms(1) by (simp add: space_hierarchy_def)
  have keys: "map tg_key (hr_path ?h) = [target_key Space i]"
    using assms(1) by (auto simp: in_space_def space_target_def make_target_def find_space_def dest: find_SomeD)
  have "check_target ?h r a = Inr ()"
    using assms(2,3) by (auto simp: check_target_def in_space_def space_target_def make_target_def
        assert_resource_matches_def assert_action_supported_def is_permission_supported_def)
  moreover obtain dc where dc: "decide d (au_id v) a ?h = Inr dc" using decide_Inr by blast
  ultimately have "evaluate d v r a Space i = Inr dc"
    using True assms(3) h by (simp add: evaluate_decide del: resolve_hierarchy.simps)
  moreover have "entries_unique d \<Longrightarrow> dc_allowed dc \<longleftrightarrow>
      path_verdict d (au_id v) a (s_visibility s = OPEN) True [target_key Space i]"
    using decide_verdict [OF _ dc] keys by (simp add: in_space_def)
  ultimately show thesis using True that by blast
qed

text \<open>
  C12: A restricted space belongs to its creator: when the service creates one, there is an
  authenticated creator, and for every content right the access decision on the new space is
  positive for exactly the creator (as far as the creator holds the right globally), however
  many rules, groups and boundaries the installation has elsewhere.
\<close>

theorem restricted_space_owned:
  assumes "acls_ok d" and "space_rules_placed d" and "si_visibility x = RESTRICTED"
    and "create_space slugify fold_case fresh d i x actor = Inr d'"
  shows "\<exists>u. actor = Some u \<and>
    (\<forall>v r a. r \<in> set CONTENT_RESOURCES \<and> a \<in> set OWNER_ACTIONS \<and> is_permission_supported r a \<longrightarrow>
      (\<exists>dc. evaluate d' v r a Space i = Inr dc \<and>
         (dc_allowed dc \<longleftrightarrow> is_allowed d' v r a \<and> au_id v = au_id u)))"
proof -
  obtain u slug where u: "actor = Some u" and new: "i \<notin> s_id ` set (t_spaces d)"
    and d': "d' = d\<lparr>t_spaces := t_spaces d @ [new_space i slug x],
            t_entries := create_owner_rules fresh i (au_id u) (t_entries d)\<rparr>"
    using create_space_Inr [OF assms(4,3)] .
  note free = no_rules_on_new_space [OF assms(1,2) new]
  have entries: "t_entries d' = t_entries d @ map (\<lambda>a. owner_rule (fresh a) i (au_id u) a) OWNER_ACTIONS"
    using owner_rules_new [OF free(1)] by (simp add: d')
  have unique: "entries_unique d'"
    by (rule owner_rules_unique [OF acls_ok_entries_unique [OF assms(1)] free(1) entries])
  have found: "find_space d' i = Some (new_space i slug x)"
    unfolding find_space_def d' using new
    by simp (rule find_snoc_new, auto simp: new_space_def)
  have "\<exists>dc. evaluate d' v r a Space i = Inr dc \<and> (dc_allowed dc \<longleftrightarrow> is_allowed d' v r a \<and> au_id v = au_id u)"
    if r: "r \<in> set CONTENT_RESOURCES" and a: "a \<in> set OWNER_ACTIONS" and c: "is_permission_supported r a" for v r a
  proof -
    obtain dc where "evaluate d' v r a Space i = Inr dc"
      and "entries_unique d' \<longrightarrow> (dc_allowed dc \<longleftrightarrow> is_allowed d' v r a \<and>
        path_verdict d' (au_id v) a (s_visibility (new_space i slug x) = OPEN) True [target_key Space i])"
      using evaluate_space [OF found r c, of v] .
    moreover have "path_verdict d' (au_id v) a False True [target_key Space i] \<longleftrightarrow> au_id v = au_id u"
      by (rule owner_rules_verdict [OF free(1) _ entries a]) (use free(2) in \<open>simp add: d'\<close>)
    ultimately show ?thesis using unique assms(3) by (simp add: new_space_def)
  qed
  with u show ?thesis by blast
qed

definition sample_restricted :: space_input where
  "sample_restricted = \<lparr>si_name = ''secret'', si_description = None, si_visibility = RESTRICTED,
     si_kinds = None, si_group = None\<rparr>"

theorem restricted_space_owned_witness:
  "\<exists>d' dc. create_space (\<lambda>s. s) (\<lambda>s. s) action_name sample_db ''new'' sample_restricted (Some sample_rob) = Inr d' \<and>
     evaluate d' sample_rob Pages Read Space ''new'' = Inr dc"
proof -
  have ok: "acls_ok sample_db" "space_rules_placed sample_db"
    by (simp_all add: acls_ok_def space_rules_placed_def sample_defs)
  have vis: "si_visibility sample_restricted = RESTRICTED" by (simp add: sample_restricted_def)
  have "isl (create_space (\<lambda>s. s) (\<lambda>s. s) action_name sample_db ''new'' sample_restricted
      (Some sample_rob)) = False"
    by code_simp
  then obtain d' where d': "create_space (\<lambda>s. s) (\<lambda>s. s) action_name sample_db ''new'' sample_restricted
      (Some sample_rob) = Inr d'"
    by (auto simp: isl_def) (metis sum.exhaust)
  obtain u where "Some sample_rob = Some u"
    "\<forall>v r a. r \<in> set CONTENT_RESOURCES \<and> a \<in> set OWNER_ACTIONS \<and> is_permission_supported r a \<longrightarrow>
      (\<exists>dc. evaluate d' v r a Space ''new'' = Inr dc \<and> (dc_allowed dc \<longleftrightarrow> is_allowed d' v r a \<and> au_id v = au_id u))"
    using restricted_space_owned [OF ok vis d'] by blast
  moreover have "Pages \<in> set CONTENT_RESOURCES \<and> Read \<in> set OWNER_ACTIONS \<and> is_permission_supported Pages Read"
    by (simp add: CONTENT_RESOURCES_def OWNER_ACTIONS_def is_permission_supported_def)
  ultimately have "\<exists>dc. evaluate d' sample_rob Pages Read Space ''new'' = Inr dc" by blast
  with d' show ?thesis by blast
qed

section \<open>Slugs and deletion\<close>

interpretation space_slugs: slug_source space_slug_occupied "\<lambda>d. map s_slug (t_spaces d)"
  by unfold_locales (auto simp: space_slug_occupied_def dest!: find_SomeD split: option.splits)

lemma space_slug_Some:
  obtains slug where "space_slug slugify d name exclude = Some slug"
    and "\<not> space_slug_occupied d exclude slug"
  using space_slugs.slug_loop_terminates [of d "length (t_spaces d) + 1" exclude
      "if slugify name = [] then ''bereich'' else slugify name"]
  by (auto simp: space_slug_def Let_def)

text \<open>
  The conditional deletion removes the empty, unprotected space and nothing else, whatever changed
  since the checks.
\<close>

lemma remove_space_commit_Inr:
  assumes "remove_space_commit d i = Inr d'"
  shows "d' = d\<lparr>t_spaces := delete_where (\<lambda>s. s_id s = i \<and> \<not> s_system s) (t_spaces d)\<rparr>"
    and "content_count d i = 0" and "\<exists>s \<in> set (t_spaces d). s_id s = i \<and> \<not> s_system s"
proof -
  let ?p = "\<lambda>s. s_id s = i \<and> \<not> s_system s \<and> content_count d i = 0 \<and>
      space_entry_count d i = 0 \<and> space_boundary_count d i = 0"
  have one: "count_where ?p (t_spaces d) = 1" and d': "d' = d\<lparr>t_spaces := delete_where ?p (t_spaces d)\<rparr>"
    using assms by (auto simp: remove_space_commit_def Let_def result_simps)
  then have "0 < count_where ?p (t_spaces d)" by simp
  then obtain s where s: "s \<in> set (t_spaces d)" "?p s" unfolding count_where_pos by blast
  then show "content_count d i = 0" "\<exists>s \<in> set (t_spaces d). s_id s = i \<and> \<not> s_system s" by blast+
  from s(2) have "delete_where ?p (t_spaces d) = delete_where (\<lambda>s. s_id s = i \<and> \<not> s_system s) (t_spaces d)"
    unfolding delete_where_def by simp
  with d' show "d' = d\<lparr>t_spaces := delete_where (\<lambda>s. s_id s = i \<and> \<not> s_system s) (t_spaces d)\<rparr>" by simp
qed

end
