(* ===== verification/Categories.thy ===== *)
theory Categories
  imports Spaces
begin

text \<open>
  \<^verbatim>\<open>apps/api/src/modules/categories/categories.service.ts\<close>: categories of a space, one scope
  (wiki, notes, standards) each, unique by name and by slug within space and scope. \<open>slugify\<close> is
  the npm package; the fresh row id is an argument.
\<close>

section \<open>Reading\<close>

record category_view =
  cv_category :: category_row
  cv_pages :: nat
  cv_notes :: nat
  cv_standards :: nat
  cv_content :: nat

fun content_of_scope :: "category_scope \<Rightarrow> nat \<Rightarrow> nat \<Rightarrow> nat \<Rightarrow> nat" where
  "content_of_scope NOTE pages notes standards = notes"
| "content_of_scope STANDARD pages notes standards = standards"
| "content_of_scope WIKI pages notes standards = pages"

definition category_view_of :: "category_scope \<Rightarrow> category_row \<Rightarrow> nat \<times> nat \<times> nat \<Rightarrow> category_view" where
  "category_view_of sc c n =
     (case n of (pages, notes, standards) \<Rightarrow>
        \<lparr>cv_category = c, cv_pages = pages, cv_notes = notes, cv_standards = standards,
         cv_content = content_of_scope sc pages notes standards\<rparr>)"

text \<open>Without a user the counts are the database's, trashed content included.\<close>

definition stored_counts :: "db \<Rightarrow> ident \<Rightarrow> nat \<times> nat \<times> nat" where
  "stored_counts d i =
     (count_where (\<lambda>p. pg_category p = Some i) (t_pages d),
      count_where (\<lambda>n. n_category n = Some i) (t_notes d),
      count_where (\<lambda>x. st_category x = Some i) (t_standards d))"

text \<open>With a user only live content the user may read counts.\<close>

definition visible_counts ::
    "page_row list \<Rightarrow> note_row list \<Rightarrow> standard_row list \<Rightarrow> ident list \<Rightarrow> ident list \<Rightarrow> ident list \<Rightarrow> ident \<Rightarrow>
     nat \<times> nat \<times> nat" where
  "visible_counts pages notes standards ap an ax i =
     (count_where (\<lambda>p. pg_category p = Some i \<and> pg_id p \<in> set ap) pages,
      count_where (\<lambda>n. n_category n = Some i \<and> n_id n \<in> set an) notes,
      count_where (\<lambda>x. st_category x = Some i \<and> st_id x \<in> set ax) standards)"

fun in_ids :: "ident option \<Rightarrow> ident list \<Rightarrow> bool" where
  "in_ids None ids = False"
| "in_ids (Some i) ids = (i \<in> set ids)"

definition find_all_categories ::
    "db \<Rightarrow> category_scope \<Rightarrow> ident \<Rightarrow> auth_user option \<Rightarrow> category_view list result" where
  "find_all_categories d sc sp user =
     (let stored = sort_key c_sort_order (filter (\<lambda>c. c_scope c = sc \<and> c_space c = sp) (t_categories d)) in
      rbind (allowed_for d user Categories Read Category (map c_id stored)) (\<lambda>allowed.
      let categories = filter (\<lambda>c. c_id c \<in> set allowed) stored;
          ids = map c_id categories in
      if user = None \<or> categories = []
      then Inr (map (\<lambda>c. category_view_of sc c (stored_counts d (c_id c))) categories)
      else
        let pages = filter (\<lambda>p. in_ids (pg_category p) ids \<and> pg_deleted p = None) (t_pages d);
            notes = filter (\<lambda>n. in_ids (n_category n) ids \<and> n_deleted n = None) (t_notes d);
            standards = filter (\<lambda>x. in_ids (st_category x) ids) (t_standards d) in
        rbind (allowed_for d user Pages Read Page (map pg_id pages)) (\<lambda>ap.
        rbind (allowed_for d user Notes Read Note (map n_id notes)) (\<lambda>an.
        rbind (allowed_for d user Standards Read Standard (map st_id standards)) (\<lambda>ax.
        Inr (map (\<lambda>c. category_view_of sc c (visible_counts pages notes standards ap an ax (c_id c)))
              categories))))))"

definition find_category_slug :: "db \<Rightarrow> ident \<Rightarrow> category_scope \<Rightarrow> string \<Rightarrow> category_row option" where
  "find_category_slug d sp sc slug =
     List.find (\<lambda>c. (c_space c, c_scope c, c_slug c) = (sp, sc, slug)) (t_categories d)"

text \<open>The pages come with the category, trashed ones included.\<close>

definition find_category_by_slug ::
    "db \<Rightarrow> string \<Rightarrow> category_scope \<Rightarrow> ident \<Rightarrow> auth_user option \<Rightarrow> (category_row \<times> page_row list) result" where
  "find_category_by_slug d slug sc sp user =
     rbind (or_throw (NotFound ''category'') (find_category_slug d sp sc slug)) (\<lambda>c.
     let pages = sort_key pg_sort_order (filter (\<lambda>p. pg_category p = Some (c_id c)) (t_pages d)) in
     rbind (assert_actor d user Categories Read Category (c_id c)) (\<lambda>_.
     rbind (allowed_for d user Pages Read Page (map pg_id pages)) (\<lambda>allowed.
     Inr (c, filter (\<lambda>p. pg_id p \<in> set allowed) pages))))"

section \<open>Creating and changing categories\<close>

definition category_slug_occupied :: "db \<Rightarrow> ident \<times> category_scope \<times> ident option \<Rightarrow> string \<Rightarrow> bool" where
  "category_slug_occupied d x s =
     (case x of (sp, sc, exclude) \<Rightarrow>
        (case find_category_slug d sp sc s of
           None \<Rightarrow> False | Some c \<Rightarrow> Some (c_id c) \<noteq> exclude))"

definition category_slug ::
    "(string \<Rightarrow> string) \<Rightarrow> db \<Rightarrow> string \<Rightarrow> category_scope \<Rightarrow> ident \<Rightarrow> ident option \<Rightarrow> string option" where
  "category_slug slugify d name sc sp exclude =
     slug_loop (length (t_categories d) + 1) (category_slug_occupied d (sp, sc, exclude))
       (slugify name) 1 (slugify name)"

record category_input =
  ci_name :: string
  ci_scope :: "category_scope option"
  ci_space :: "ident option"
  ci_description :: "string option"
  ci_icon :: "string option"
  ci_sort_order :: "int option"

text \<open>The unique columns of the table: within space and scope, the name and the slug.\<close>

definition category_fresh :: "category_row list \<Rightarrow> category_row \<Rightarrow> bool" where
  "category_fresh cs c \<longleftrightarrow> (\<forall>x \<in> set cs. c_space x = c_space c \<and> c_scope x = c_scope c \<longrightarrow>
     c_name x \<noteq> c_name c \<and> c_slug x \<noteq> c_slug c)"

definition new_category :: "ident \<Rightarrow> ident \<Rightarrow> string \<Rightarrow> category_input \<Rightarrow> category_row" where
  "new_category new_id sp slug x =
     \<lparr>c_id = new_id, c_name = ci_name x, c_slug = slug, c_scope = given (ci_scope x) WIKI,
      c_description = ci_description x, c_icon = ci_icon x, c_sort_order = given (ci_sort_order x) 0,
      c_space = sp\<rparr>"

definition create_category ::
    "(string \<Rightarrow> string) \<Rightarrow> db \<Rightarrow> ident \<Rightarrow> category_input \<Rightarrow> auth_user option \<Rightarrow> (db \<times> category_row) result" where
  "create_category slugify d new_id x actor =
     (let sc = given (ci_scope x) WIKI in
      rbind (resolve_open_space d (kind_of_scope sc) (ci_space x)) (\<lambda>sp.
      rbind (assert_actor d actor Categories Create Space sp) (\<lambda>_.
      rbind (or_throw (Internal ''no slug'') (category_slug slugify d (ci_name x) sc sp None)) (\<lambda>slug.
      let c = new_category new_id sp slug x in
      rbind (rguard (new_id \<notin> c_id ` set (t_categories d) \<and> category_fresh (t_categories d) c)
        (Internal ''P2002'')) (\<lambda>_.
      Inr (d\<lparr>t_categories := t_categories d @ [c]\<rparr>, c))))))"

record category_change =
  cc_name :: "string option"
  cc_scope :: "category_scope option"
  cc_space :: "ident option"
  cc_description :: "string option option"
  cc_icon :: "string option option"
  cc_sort_order :: "int option"

definition changed_category ::
    "category_change \<Rightarrow> ident \<Rightarrow> string option \<Rightarrow> category_row \<Rightarrow> category_row" where
  "changed_category x sp slug c =
     c\<lparr>c_name := given (cc_name x) (c_name c), c_space := sp, c_slug := given slug (c_slug c),
       c_scope := given (cc_scope x) (c_scope c), c_description := given (cc_description x) (c_description c),
       c_icon := given (cc_icon x) (c_icon c), c_sort_order := given (cc_sort_order x) (c_sort_order c)\<rparr>"

definition category_used :: "db \<Rightarrow> ident \<Rightarrow> bool" where
  "category_used d i \<longleftrightarrow>
     0 < count_where (\<lambda>p. pg_category p = Some i) (t_pages d) \<or>
     0 < count_where (\<lambda>n. n_category n = Some i) (t_notes d) \<or>
     0 < count_where (\<lambda>x. st_category x = Some i) (t_standards d)"

definition update_category ::
    "(string \<Rightarrow> string) \<Rightarrow> db \<Rightarrow> ident \<Rightarrow> category_change \<Rightarrow> auth_user option \<Rightarrow> db result" where
  "update_category slugify d i x actor =
     rbind (or_throw (NotFound ''category'') (find_category d i)) (\<lambda>existing.
     rbind (assert_actor d actor Categories Update Category i) (\<lambda>_.
     let sc = given (cc_scope x) (c_scope existing) in
     rbind (case cc_space x of
              None \<Rightarrow> Inr (c_space existing)
            | Some s \<Rightarrow> resolve_open_space d (kind_of_scope sc) (Some s)) (\<lambda>sp.
     rbind (if sp \<noteq> c_space existing then assert_actor d actor Categories Update Space sp else Inr ()) (\<lambda>_.
     rbind (rguard (\<not> ((sc \<noteq> c_scope existing \<or> sp \<noteq> c_space existing) \<and> category_used d i))
       (BadRequest ''category in use'')) (\<lambda>_.
     rbind (case cc_name x of
              None \<Rightarrow> Inr None
            | Some n \<Rightarrow> rbind (or_throw (Internal ''no slug'') (category_slug slugify d n sc sp (Some i)))
                (\<lambda>s. Inr (Some s))) (\<lambda>slug.
     let f = changed_category x sp slug in
     rbind (rguard (category_fresh (filter (\<lambda>c. c_id c \<noteq> i) (t_categories d)) (f existing))
       (Internal ''P2002'')) (\<lambda>_.
     Inr (d\<lparr>t_categories := update_where (\<lambda>c. c_id c = i) f (t_categories d)\<rparr>))))))))"

section \<open>Deleting a category\<close>

text \<open>All content of the category must be changeable by the actor, because it loses its category.\<close>

definition remove_category :: "db \<Rightarrow> ident \<Rightarrow> auth_user option \<Rightarrow> db result" where
  "remove_category d i actor =
     rbind (or_throw (NotFound ''category'') (find_category d i)) (\<lambda>c.
     rbind (assert_actor d actor Categories Delete Category i) (\<lambda>_.
     let pages = map pg_id (filter (\<lambda>p. pg_category p = Some i) (t_pages d));
         notes = map n_id (filter (\<lambda>n. n_category n = Some i) (t_notes d));
         standards = map st_id (filter (\<lambda>x. st_category x = Some i) (t_standards d)) in
     rbind (allowed_for d actor Pages Update Page pages) (\<lambda>ap.
     rbind (allowed_for d actor Notes Update Note notes) (\<lambda>an.
     rbind (allowed_for d actor Standards Update Standard standards) (\<lambda>ax.
     rbind (rguard (length ap = length pages \<and> length an = length notes \<and> length ax = length standards)
       (NotFound ''category or content'')) (\<lambda>_.
     Inr (delete_category i d)))))))"

end
