(* ===== verification/Page_Content.thy ===== *)
theory Page_Content
  imports Content
begin

text \<open>
  What the pages service computes from the text of a page: tags, \<open>[[links]]\<close> to other pages, and
  media referenced by their API path (\<open>tagRelations\<close>, \<open>syncLinks\<close>, \<open>syncMediaReferences\<close> and
  \<open>normalizeMediaUrls\<close> of \<^verbatim>\<open>apps/api/src/modules/pages/pages.service.ts\<close>). The regular
  expressions are scanners; each of them matches in one way only. Characters are bytes.
\<close>

section \<open>Scanning\<close>

text \<open>\<open>[...content.matchAll(re)]\<close>: after a match the scan goes on behind it, else one character on.\<close>

function scan :: "(string \<Rightarrow> ('a \<times> string) option) \<Rightarrow> string \<Rightarrow> 'a list" where
  "scan m [] = []"
| "scan m (c # s) =
     (case m (c # s) of
        None \<Rightarrow> scan m s
      | Some (x, rest) \<Rightarrow> if length rest \<le> length s then x # scan m rest else scan m s)"
  by pat_completeness auto
termination by (relation "measure (\<lambda>(m, s). length s)") auto

text \<open>\<open>\[\[([^\]|]+)(?:\|[^\]]+)?\]\]\<close>\<close>

fun closing :: "string \<Rightarrow> string option" where
  "closing (x # y # rest) = (if x = CHR '']'' \<and> y = CHR '']'' then Some rest else None)"
| "closing s = None"

fun skip_alias :: "string \<Rightarrow> string option" where
  "skip_alias [] = None"
| "skip_alias (c # s) =
     (if c \<noteq> CHR ''|'' then closing (c # s)
      else if takeWhile (\<lambda>x. x \<noteq> CHR '']'') s = [] then None
      else closing (dropWhile (\<lambda>x. x \<noteq> CHR '']'') s))"

fun match_link :: "string \<Rightarrow> (string \<times> string) option" where
  "match_link (x # y # s) =
     (if x = CHR ''['' \<and> y = CHR ''['' \<and> takeWhile (\<lambda>c. c \<noteq> CHR '']'' \<and> c \<noteq> CHR ''|'') s \<noteq> []
      then map_option (\<lambda>rest. (takeWhile (\<lambda>c. c \<noteq> CHR '']'' \<and> c \<noteq> CHR ''|'') s, rest))
             (skip_alias (dropWhile (\<lambda>c. c \<noteq> CHR '']'' \<and> c \<noteq> CHR ''|'') s))
      else None)"
| "match_link s = None"

definition link_slugs :: "(string \<Rightarrow> string) \<Rightarrow> string \<Rightarrow> string list" where
  "link_slugs slugify content =
     filter (\<lambda>s. s \<noteq> [])
       (uniq (map slugify (filter (\<lambda>s. s \<noteq> []) (map trim (scan match_link content)))))"

text \<open>\<open>/\/api\/v1\/media\/([0-9a-f-]{36})\/file(?:[?#][^\s"')<]*)?/gi\<close>\<close>

fun strip_prefix_ci :: "string \<Rightarrow> string \<Rightarrow> string option" where
  "strip_prefix_ci [] s = Some s"
| "strip_prefix_ci (p # ps) [] = None"
| "strip_prefix_ci (p # ps) (c # s) = (if lower_char c = p then strip_prefix_ci ps s else None)"

definition hex_or_dash :: "char \<Rightarrow> bool" where
  "hex_or_dash c \<longleftrightarrow> lower_char c \<in> set ''0123456789abcdef-''"

definition url_end :: "char \<Rightarrow> bool" where
  "url_end c \<longleftrightarrow> js_space c \<or> c = char_of (34 :: nat) \<or> c = char_of (39 :: nat) \<or> c = CHR '')'' \<or> c = CHR ''<''"

fun skip_query :: "string \<Rightarrow> string" where
  "skip_query (c # s) = (if c = CHR ''?'' \<or> c = CHR ''#'' then dropWhile (\<lambda>x. \<not> url_end x) s else c # s)"
| "skip_query [] = []"

definition match_media :: "string \<Rightarrow> (string \<times> string) option" where
  "match_media s =
     (case strip_prefix_ci ''/api/v1/media/'' s of
        None \<Rightarrow> None
      | Some t \<Rightarrow>
          if length t < 36 \<or> (\<exists>c \<in> set (take 36 t). \<not> hex_or_dash c) then None
          else map_option (\<lambda>rest. (take 36 t, skip_query rest)) (strip_prefix_ci ''/file'' (drop 36 t)))"

definition media_ids_in :: "string \<Rightarrow> ident list" where
  "media_ids_in content = uniq (scan match_media content)"

text \<open>\<open>/\/uploads\/([^\s"')<]+)/g\<close>, and the rewriting of old upload paths when a page is read.\<close>

definition match_upload :: "string \<Rightarrow> (string \<times> string) option" where
  "match_upload s =
     (if starts_with ''/uploads/'' s \<and> takeWhile (\<lambda>c. \<not> url_end c) (drop 9 s) \<noteq> []
      then Some (''uploads/'' @ takeWhile (\<lambda>c. \<not> url_end c) (drop 9 s), dropWhile (\<lambda>c. \<not> url_end c) (drop 9 s))
      else None)"

function replace_all :: "string \<Rightarrow> string \<Rightarrow> string \<Rightarrow> string" where
  "replace_all old new [] = []"
| "replace_all old new (c # s) =
     (if old \<noteq> [] \<and> starts_with old (c # s) then new @ replace_all old new (drop (length old) (c # s))
      else c # replace_all old new s)"
  by pat_completeness auto
termination by (relation "measure (\<lambda>(x, y, s). length s)") (auto simp: neq_Nil_conv)

definition normalize_media_urls :: "db \<Rightarrow> string \<Rightarrow> string" where
  "normalize_media_urls d content =
     (let paths = uniq (scan match_upload content) in
      if paths = [] then content
      else foldl (\<lambda>current m.
             replace_all (CHR ''/'' # md_filepath m) (''/api/v1/media/'' @ md_id m @ ''/file'') current)
           content (filter (\<lambda>m. md_filepath m \<in> set paths) (t_media d)))"

text \<open>Every match consumes something, so the scan's guard never fires.\<close>

lemma closing_shorter: "closing s = Some rest \<Longrightarrow> length rest < length s"
  by (cases s rule: closing.cases) (auto split: if_splits)

lemma skip_alias_shorter: "skip_alias s = Some rest \<Longrightarrow> length rest < length s"
proof (cases s)
  case (Cons c t)
  assume "skip_alias s = Some rest"
  with Cons consider "closing s = Some rest" | "closing (dropWhile (\<lambda>x. x \<noteq> CHR '']'') t) = Some rest"
    by (auto split: if_splits)
  then show ?thesis
    using closing_shorter length_dropWhile_le [of "\<lambda>x. x \<noteq> CHR '']''" t] Cons by cases fastforce+
qed simp

lemma match_link_shorter: "match_link s = Some (x, rest) \<Longrightarrow> length rest < length s"
proof (cases s rule: match_link.cases)
  case (1 a b t)
  assume "match_link s = Some (x, rest)"
  with 1 have "skip_alias (dropWhile (\<lambda>c. c \<noteq> CHR '']'' \<and> c \<noteq> CHR ''|'') t) = Some rest"
    by (auto split: if_splits)
  then have "length rest < length (dropWhile (\<lambda>c. c \<noteq> CHR '']'' \<and> c \<noteq> CHR ''|'') t)"
    by (rule skip_alias_shorter)
  also have "\<dots> \<le> length t" by (rule length_dropWhile_le)
  finally show ?thesis using 1 by simp
qed simp_all

lemma strip_prefix_ci_length: "strip_prefix_ci p s = Some t \<Longrightarrow> length s = length p + length t"
  by (induction p s rule: strip_prefix_ci.induct) (auto split: if_splits)

lemma skip_query_length: "length (skip_query s) \<le> length s"
  by (cases s) (auto intro: le_SucI [OF length_dropWhile_le])

lemma match_media_shorter: "match_media s = Some (x, rest) \<Longrightarrow> length rest < length s"
proof -
  assume "match_media s = Some (x, rest)"
  then obtain t u where t: "strip_prefix_ci ''/api/v1/media/'' s = Some t"
    and u: "strip_prefix_ci ''/file'' (drop 36 t) = Some u" "rest = skip_query u"
    by (auto simp: match_media_def split: option.splits if_splits)
  have "length rest \<le> length u" using u(2) skip_query_length by simp
  also have "\<dots> < length t" using strip_prefix_ci_length [OF u(1)] by simp
  also have "\<dots> < length s" using strip_prefix_ci_length [OF t] by simp
  finally show ?thesis .
qed

lemma match_upload_shorter: "match_upload s = Some (x, rest) \<Longrightarrow> length rest < length s"
  using length_dropWhile_le [of "\<lambda>c. \<not> url_end c" "drop 9 s"]
  by (auto simp: match_upload_def starts_with_iff split: if_splits)

section \<open>Tags\<close>

text \<open>
  The packages the service calls: \<open>slugify\<close> for titles and links, \<open>slugify\<close> with the German
  locale and \<open>toLocaleLowerCase('de-DE')\<close> for tags, and the id of a new tag by its slug.
\<close>

record content_env =
  ce_slugify :: "string \<Rightarrow> string"
  ce_slugify_de :: "string \<Rightarrow> string"
  ce_lower_de :: "string \<Rightarrow> string"
  ce_tag_id :: "string \<Rightarrow> ident"

definition hex_digit :: "nat \<Rightarrow> char" where
  "hex_digit n = (if n < 10 then char_of (48 + n) else char_of (87 + n))"

fun show_hex :: "nat \<Rightarrow> string" where
  "show_hex n = (if n < 16 then [hex_digit n] else show_hex (n div 16) @ [hex_digit (n mod 16)])"

declare show_hex.simps [simp del]

fun join_with :: "string \<Rightarrow> string list \<Rightarrow> string" where
  "join_with sep [] = []"
| "join_with sep [s] = s"
| "join_with sep (s # t # ss) = s @ sep @ join_with sep (t # ss)"

text \<open>The tags of a page, one per name up to case (the last spelling wins), each with its slug.\<close>

definition unique_tags :: "(string \<Rightarrow> string) \<Rightarrow> string list \<Rightarrow> string list" where
  "unique_tags lower_de tags =
     map snd (foldl (\<lambda>m raw. let name = trim raw in if name = [] then m else map_put (lower_de name) name m)
       [] tags)"

definition slug_of_tag :: "(string \<Rightarrow> string) \<Rightarrow> string \<Rightarrow> string" where
  "slug_of_tag slugify name =
     (if slugify name \<noteq> [] then slugify name
      else ''tag-'' @ join_with ''-'' (map (\<lambda>c. show_hex (of_char c)) name))"

definition tag_relations :: "content_env \<Rightarrow> string list \<Rightarrow> (string \<times> string) list" where
  "tag_relations env tags =
     map (\<lambda>name. (name, slug_of_tag (ce_slugify_de env) name)) (unique_tags (ce_lower_de env) tags)"

text \<open>
  \<open>connectOrCreate\<close> by slug, then the row of the join table; \<open>fresh s\<close> is the id of a new tag with
  slug \<open>s\<close>. Two relations with the same slug violate the key of the join table.
\<close>

definition connect_or_create ::
    "(string \<Rightarrow> ident) \<Rightarrow> string \<times> string \<Rightarrow> tag_row list \<Rightarrow> (tag_row list \<times> ident) result" where
  "connect_or_create fresh x tags =
     (case x of (name, slug) \<Rightarrow>
       (case List.find (\<lambda>t. tag_slug t = slug) tags of
          Some t \<Rightarrow> Inr (tags, tag_id t)
        | None \<Rightarrow>
            rbind (rguard (name \<notin> tag_name ` set tags \<and> fresh slug \<notin> tag_id ` set tags) (Internal ''P2002'')) (\<lambda>_.
            Inr (tags @ [\<lparr>tag_id = fresh slug, tag_name = name, tag_slug = slug\<rparr>], fresh slug))))"

fun attach_page_tags ::
    "(string \<Rightarrow> ident) \<Rightarrow> ident \<Rightarrow> (string \<times> string) list \<Rightarrow> tag_row list \<Rightarrow> page_tag_row list \<Rightarrow>
     (tag_row list \<times> page_tag_row list) result" where
  "attach_page_tags fresh i [] tags links = Inr (tags, links)"
| "attach_page_tags fresh i (x # xs) tags links =
     rbind (connect_or_create fresh x tags) (\<lambda>(tags', t).
     rbind (insert_row (\<lambda>r. (pt_page r, pt_tag r)) (Internal ''P2002'') \<lparr>pt_page = i, pt_tag = t\<rparr> links)
       (\<lambda>links'. attach_page_tags fresh i xs tags' links'))"

section \<open>Links and media of a page\<close>

definition sync_links :: "(string \<Rightarrow> string) \<Rightarrow> ident \<Rightarrow> string \<Rightarrow> db \<Rightarrow> db" where
  "sync_links slugify source content d =
     (let slugs = link_slugs slugify content;
          targets = filter (\<lambda>p. pg_slug p \<in> set slugs \<and> pg_id p \<noteq> source \<and> pg_deleted p = None) (t_pages d)
      in d\<lparr>t_page_links := delete_where (\<lambda>l. pl_source l = source) (t_page_links d) @
             map (\<lambda>p. \<lparr>pl_source = source, pl_target = pg_id p\<rparr>) targets\<rparr>)"

definition sync_media_references :: "ident \<Rightarrow> string \<Rightarrow> db \<Rightarrow> db" where
  "sync_media_references i content d =
     (let existing = filter (\<lambda>m. md_id m \<in> set (media_ids_in content)) (t_media d)
      in d\<lparr>t_page_media := t_page_media d @
             filter (\<lambda>r. r \<notin> set (t_page_media d)) (map (\<lambda>m. \<lparr>pm_page = i, pm_media = md_id m\<rparr>) existing)\<rparr>)"

definition sync_references :: "(string \<Rightarrow> string) \<Rightarrow> ident \<Rightarrow> string \<Rightarrow> db \<Rightarrow> db" where
  "sync_references slugify i content d = sync_media_references i content (sync_links slugify i content d)"

end
