(* ===== verification/Checkbox.thy ===== *)
theory Checkbox
  imports Text
begin

text \<open>
  \<^verbatim>\<open>apps/api/src/common/content/toggle-checkbox.ts\<close>: setting the \<open>n\<close>-th task of a text, written as
  Tiptap HTML or as Markdown. The HTML is tried first. Characters are bytes; the regular
  expressions are scanners, each of which matches in one way only.
\<close>

section \<open>Tiptap HTML\<close>

definition word_char :: "char \<Rightarrow> bool" where
  "word_char c \<longleftrightarrow> (let n = (of_char c :: nat) in
     (48 \<le> n \<and> n \<le> 57) \<or> (65 \<le> n \<and> n \<le> 90) \<or> (97 \<le> n \<and> n \<le> 122) \<or> n = 95)"

definition quote_char :: "char \<Rightarrow> bool" where
  "quote_char c \<longleftrightarrow> c = char_of (34 :: nat) \<or> c = char_of (39 :: nat)"

definition boundary_before :: "char option \<Rightarrow> bool" where
  "boundary_before prev = (case prev of None \<Rightarrow> True | Some c \<Rightarrow> \<not> word_char c)"

text \<open>\<open><li\b[^>]*>\<close>, case-insensitive: the tag and what follows it.\<close>

definition match_li :: "string \<Rightarrow> (string \<times> string) option" where
  "match_li s =
     (if to_lower (take 3 s) = ''<li'' \<and> (case drop 3 s of [] \<Rightarrow> True | c # _ \<Rightarrow> \<not> word_char c) \<and>
         CHR ''>'' \<in> set (drop 3 s)
      then let body = takeWhile (\<lambda>c. c \<noteq> CHR ''>'') s
           in Some (body @ ''>'', drop (length body + 1) s)
      else None)"

lemma match_li_shorter: "match_li s = Some (tag, rest) \<Longrightarrow> length rest < length s"
proof -
  assume "match_li s = Some (tag, rest)"
  then have "CHR ''>'' \<in> set (drop 3 s)" and r: "rest = drop (length (takeWhile (\<lambda>c. c \<noteq> CHR ''>'') s) + 1) s"
    by (simp_all add: match_li_def Let_def split: if_splits)
  then have "s \<noteq> []" by auto
  then show ?thesis by (simp add: r)
qed

lemma match_li_tail: "match_li (c # s) = Some x \<Longrightarrow> (tag, rest) = x \<Longrightarrow> length rest < Suc (length s)"
  using match_li_shorter [of "c # s" tag rest] by simp

text \<open>An attribute with one of the given values in quotes, at the start of the text: its rest.\<close>

definition match_attribute :: "string \<Rightarrow> string list \<Rightarrow> string \<Rightarrow> string option" where
  "match_attribute name values s =
     (let n = length name in
      if to_lower (take n s) = name \<and> drop n s \<noteq> [] \<and> quote_char (hd (drop n s))
      then let q = hd (drop n s); t = drop (n + 1) s;
               hits = filter (\<lambda>v. to_lower (take (length v) t) = v \<and> drop (length v) t \<noteq> [] \<and>
                 hd (drop (length v) t) = q) values
           in (case hits of [] \<Rightarrow> None | v # _ \<Rightarrow> Some (drop (length v + 1) t))
      else None)"

text \<open>The first occurrence after a word boundary: the text before it and after it.\<close>

fun find_attribute ::
    "string \<Rightarrow> string list \<Rightarrow> char option \<Rightarrow> string \<Rightarrow> (string \<times> string) option" where
  "find_attribute name values prev [] = None"
| "find_attribute name values prev (c # s) =
     (case (if boundary_before prev then match_attribute name values (c # s) else None) of
        Some rest \<Rightarrow> Some ([], rest)
      | None \<Rightarrow> map_option (\<lambda>(before, rest). (c # before, rest)) (find_attribute name values (Some c) s))"

definition is_task_item :: "string \<Rightarrow> bool" where
  "is_task_item tag \<longleftrightarrow> find_attribute ''data-type='' [''taskitem''] None tag \<noteq> None"

definition checked_text :: "bool \<Rightarrow> string" where
  "checked_text b = ''data-checked='' @ [char_of (34 :: nat)] @ (if b then ''true'' else ''false'') @ [char_of (34 :: nat)]"

text \<open>The replacer with its running index; \<open>True\<close> when the wanted task was found.\<close>

function tiptap_loop :: "nat \<Rightarrow> bool \<Rightarrow> nat \<Rightarrow> string \<Rightarrow> string \<times> bool" where
  "tiptap_loop want b index [] = ([], False)"
| "tiptap_loop want b index (c # s) =
     (case match_li (c # s) of
        None \<Rightarrow> (case tiptap_loop want b index s of (t, f) \<Rightarrow> (c # t, f))
      | Some (tag, rest) \<Rightarrow>
          if \<not> is_task_item tag
          then (case tiptap_loop want b index rest of (t, f) \<Rightarrow> (tag @ t, f))
          else if index \<noteq> want
          then (case tiptap_loop want b (index + 1) rest of (t, f) \<Rightarrow> (tag @ t, f))
          else (case find_attribute ''data-checked='' [''true'', ''false''] None tag of
              None \<Rightarrow> (case tiptap_loop want b (index + 1) rest of (t, f) \<Rightarrow> (tag @ t, f))
            | Some (before, after) \<Rightarrow>
                (case tiptap_loop want b (index + 1) rest of
                   (t, f) \<Rightarrow> (before @ checked_text b @ after @ t, True))))"
  by pat_completeness auto
termination
  by (relation "measure (\<lambda>(w, b, i, s). length s)") (simp_all add: match_li_tail)

definition toggle_tiptap_task_item :: "string \<Rightarrow> nat \<Rightarrow> bool \<Rightarrow> string option" where
  "toggle_tiptap_task_item content want b =
     (case tiptap_loop want b 0 content of (t, found) \<Rightarrow> if found then Some t else None)"

section \<open>Markdown\<close>

text \<open>\<open>content.split(/(\r\n|\n|\r)/)\<close>: lines and line ends alternate.\<close>

definition CR :: char where "CR = char_of (13 :: nat)"
definition LF :: char where "LF = char_of (10 :: nat)"

fun line_end :: "string \<Rightarrow> (string \<times> string) option" where
  "line_end (c # d # s) =
     (if c = CR \<and> d = LF then Some ([c, d], s)
      else if c = LF \<or> c = CR then Some ([c], d # s) else None)"
| "line_end [c] = (if c = LF \<or> c = CR then Some ([c], []) else None)"
| "line_end [] = None"

lemma line_end_length: "line_end s = Some (e, rest) \<Longrightarrow> s = e @ rest \<and> e \<noteq> []"
  by (cases s rule: line_end.cases) (auto split: if_splits)

function split_lines :: "string \<Rightarrow> string \<Rightarrow> string list" where
  "split_lines acc [] = [rev acc]"
| "split_lines acc (c # s) =
     (case line_end (c # s) of
        Some (e, rest) \<Rightarrow> rev acc # e # split_lines [] rest
      | None \<Rightarrow> split_lines (c # acc) s)"
  by pat_completeness auto
termination
proof (relation "measure (\<lambda>(acc, s). length s)")
  fix acc :: string and c :: char and s e rest x :: string and y
  assume "line_end (c # s) = Some y" and "(e, rest) = y"
  then have "line_end (c # s) = Some (e, rest)" by simp
  from line_end_length [OF this] have e: "c # s = e @ rest" "e \<noteq> []" by blast+
  from arg_cong [OF e(1), of length] have "length (c # s) = length e + length rest" by simp
  with e(2) show "(([], rest), (acc, c # s)) \<in> measure (\<lambda>(acc, s). length s)" by (cases e) auto
qed auto

definition is_line_end :: "string \<Rightarrow> bool" where
  "is_line_end s \<longleftrightarrow> s = [CR, LF] \<or> s = [LF] \<or> s = [CR]"

text \<open>\<open>/^\s*(`{3,}|~{3,})/\<close>: the marker and its length.\<close>

definition fence_match :: "string \<Rightarrow> (char \<times> nat) option" where
  "fence_match line =
     (case dropWhile js_space line of
        [] \<Rightarrow> None
      | c # s \<Rightarrow>
          if (c = CHR ''`'' \<or> c = CHR ''~'') \<and> 3 \<le> length (takeWhile (\<lambda>x. x = c) (c # s))
          then Some (c, length (takeWhile (\<lambda>x. x = c) (c # s))) else None)"

text \<open>\<open>/^(\s*[-+*]\s+\[)([ xX])(\])/\<close>: the text up to the box, and the text after its mark.\<close>

definition task_match :: "string \<Rightarrow> (string \<times> string) option" where
  "task_match line =
     (let indent = takeWhile js_space line; t = dropWhile js_space line in
      case t of
        [] \<Rightarrow> None
      | bullet # u \<Rightarrow>
          let gap = takeWhile js_space u in
          (case dropWhile js_space u of
             open # mark # close # rest \<Rightarrow>
               if (bullet = CHR ''-'' \<or> bullet = CHR ''+'' \<or> bullet = CHR ''*'') \<and> gap \<noteq> [] \<and>
                  open = CHR ''['' \<and> (mark = CHR '' '' \<or> mark = CHR ''x'' \<or> mark = CHR ''X'') \<and> close = CHR '']''
               then Some (indent @ [bullet] @ gap @ [open], close # rest) else None
           | _ \<Rightarrow> None))"

definition mark_char :: "bool \<Rightarrow> char" where
  "mark_char b = (if b then CHR ''x'' else CHR '' '')"

text \<open>A fence opens, and is closed by the same marker at least as long.\<close>

definition next_fence :: "(char \<times> nat) option \<Rightarrow> char \<times> nat \<Rightarrow> (char \<times> nat) option" where
  "next_fence fence m =
     (case fence of
        None \<Rightarrow> Some m
      | Some (c, n) \<Rightarrow> if c = fst m \<and> n \<le> snd m then None else fence)"

fun markdown_loop :: "nat \<Rightarrow> bool \<Rightarrow> nat \<Rightarrow> (char \<times> nat) option \<Rightarrow> string list \<Rightarrow> string list option" where
  "markdown_loop want b index fence [] = None"
| "markdown_loop want b index fence (line # parts) =
     (if is_line_end line then map_option (Cons line) (markdown_loop want b index fence parts)
      else case fence_match line of
        Some m \<Rightarrow> map_option (Cons line) (markdown_loop want b index (next_fence fence m) parts)
      | None \<Rightarrow>
          (case (if fence = None then task_match line else None) of
             None \<Rightarrow> map_option (Cons line) (markdown_loop want b index fence parts)
           | Some (before, after) \<Rightarrow>
               if index = want then Some ((before @ [mark_char b] @ after) # parts)
               else map_option (Cons line) (markdown_loop want b (index + 1) fence parts)))"

definition toggle_markdown_task_item :: "string \<Rightarrow> nat \<Rightarrow> bool \<Rightarrow> string option" where
  "toggle_markdown_task_item content want b =
     map_option concat (markdown_loop want b 0 None (split_lines [] content))"

definition toggle_checkbox_in_content :: "string \<Rightarrow> nat \<Rightarrow> bool \<Rightarrow> string option" where
  "toggle_checkbox_in_content content want b =
     (case toggle_tiptap_task_item content want b of
        Some t \<Rightarrow> Some t
      | None \<Rightarrow> toggle_markdown_task_item content want b)"

section \<open>What a toggle changes\<close>

lemma concat_split_lines: "concat (split_lines acc s) = rev acc @ s"
proof (induction acc s rule: split_lines.induct)
  case (2 acc c s)
  show ?case
  proof (cases "line_end (c # s)")
    case None
    from 2(1) [OF None] None show ?thesis by simp
  next
    case (Some y)
    obtain e rest where y: "y = (e, rest)" by (cases y)
    with Some have le: "line_end (c # s) = Some (e, rest)" by simp
    have eq: "c # s = e @ rest" by (rule line_end_length [OF le, THEN conjunct1])
    have "concat (split_lines [] rest) = rest" using 2(2) [OF le refl] by simp
    then have "concat (split_lines acc (c # s)) = rev acc @ e @ rest" by (simp add: le)
    then show ?thesis by (simp only: eq)
  qed
qed simp

lemma task_match_mark:
  "task_match line = Some (before, after) \<Longrightarrow>
   \<exists>m. line = before @ [m] @ after \<and> m \<in> {CHR '' '', CHR ''x'', CHR ''X''}"
proof -
  assume "task_match line = Some (before, after)"
  then obtain bullet u m rest where t: "dropWhile js_space line = bullet # u"
    "dropWhile js_space u = CHR ''['' # m # CHR '']'' # rest" "m \<in> {CHR '' '', CHR ''x'', CHR ''X''}"
    "before = takeWhile js_space line @ [bullet] @ takeWhile js_space u @ ''[''" "after = CHR '']'' # rest"
    by (auto simp: task_match_def Let_def split: list.splits if_splits)
  have "line = takeWhile js_space line @ bullet # u" using t(1) by (metis takeWhile_dropWhile_id)
  also have "u = takeWhile js_space u @ CHR ''['' # m # CHR '']'' # rest"
    using t(2) by (metis takeWhile_dropWhile_id)
  finally show ?thesis using t(3-5) by auto
qed

lemma markdown_loop_mark:
  "markdown_loop want b index fence parts = Some parts' \<Longrightarrow>
   \<exists>pre m post. concat parts = pre @ [m] @ post \<and> concat parts' = pre @ [mark_char b] @ post \<and>
     m \<in> {CHR '' '', CHR ''x'', CHR ''X''}"
proof (induction want b index fence parts arbitrary: parts' rule: markdown_loop.induct)
  case (2 want b index fence line parts)
  have later: ?case if a: "map_option (Cons line) r = Some parts'"
    and step: "\<And>ps. r = Some ps \<Longrightarrow> \<exists>pre m post. concat parts = pre @ [m] @ post \<and>
      concat ps = pre @ [mark_char b] @ post \<and> m \<in> {CHR '' '', CHR ''x'', CHR ''X''}" for r
  proof -
    obtain ps where ps: "r = Some ps" "parts' = line # ps" using a by auto
    obtain pre m post where "concat parts = pre @ [m] @ post" "concat ps = pre @ [mark_char b] @ post"
      "m \<in> {CHR '' '', CHR ''x'', CHR ''X''}"
      using step [OF ps(1)] by blast
    with ps(2) show ?thesis by (intro exI [of _ "line @ pre"] exI [of _ m] exI [of _ post]) simp
  qed
  show ?case
  proof (cases "is_line_end line")
    case True
    with 2(5) show ?thesis by (intro later [OF _ 2(1) [OF True]]) simp_all
  next
    case line: False
    show ?thesis
    proof (cases "fence_match line")
      case (Some m)
      with 2(5) line show ?thesis by (intro later [OF _ 2(4) [OF line Some]]) simp_all
    next
      case fence: None
      show ?thesis
      proof (cases "if fence = None then task_match line else None")
        case None
        with 2(5) line fence show ?thesis by (intro later [OF _ 2(2) [OF line fence None]]) simp_all
      next
        case (Some x)
        obtain before after where x: "x = (before, after)" by (cases x)
        show ?thesis
        proof (cases "index = want")
          case True
          have "task_match line = Some (before, after)" using Some x by (simp split: if_splits)
          then obtain m where "line = before @ [m] @ after" "m \<in> {CHR '' '', CHR ''x'', CHR ''X''}"
            using task_match_mark by blast
          moreover have "parts' = (before @ [mark_char b] @ after) # parts"
            using 2(5) line fence Some x True by simp
          ultimately show ?thesis
            by (intro exI [of _ before] exI [of _ m] exI [of _ "after @ concat parts"]) simp
        next
          case False
          with 2(5) line fence Some x show ?thesis
            by (intro later [OF _ 2(3) [OF line fence Some x [symmetric] False]]) simp_all
        qed
      qed
    qed
  qed
qed simp

text \<open>A Markdown toggle replaces one mark between brackets and leaves every other character.\<close>

lemma markdown_toggle_one_mark:
  assumes "toggle_markdown_task_item content want b = Some t"
  shows "\<exists>pre m post. content = pre @ [m] @ post \<and> t = pre @ [mark_char b] @ post \<and>
    m \<in> {CHR '' '', CHR ''x'', CHR ''X''}"
proof -
  obtain parts where "markdown_loop want b 0 None (split_lines [] content) = Some parts" "t = concat parts"
    using assms by (auto simp: toggle_markdown_task_item_def)
  then show ?thesis using markdown_loop_mark concat_split_lines [of "[]" content] by fastforce
qed

end
