(* ===== verification/Pages.thy ===== *)
theory Pages
  imports Categories Page_Content Checkbox
begin

text \<open>
  \<^verbatim>\<open>apps/api/src/modules/pages/pages.service.ts\<close>: wiki pages and folders. \<open>env\<close> holds the
  packages the service calls; \<open>now\<close> is the clock and fresh row ids are arguments. An update is
  split into its checks (\<open>update_begin\<close>), its transaction (\<open>update_commit\<close>) and the
  synchronisation of links and media, between which other requests may run; \<open>update_page\<close> is
  their composition.
\<close>

section \<open>Finding pages\<close>

definition live_page :: "db \<Rightarrow> ident \<Rightarrow> page_row option" where
  "live_page d i = List.find (\<lambda>p. pg_id p = i \<and> pg_deleted p = None) (t_pages d)"

definition trashed_page :: "db \<Rightarrow> ident \<Rightarrow> page_row option" where
  "trashed_page d i = List.find (\<lambda>p. pg_id p = i \<and> pg_deleted p \<noteq> None) (t_pages d)"

definition live_slug :: "db \<Rightarrow> string \<Rightarrow> page_row option" where
  "live_slug d s = List.find (\<lambda>p. pg_slug p = s \<and> pg_deleted p = None) (t_pages d)"

definition allowed_page_ids :: "db \<Rightarrow> auth_user option \<Rightarrow> action \<Rightarrow> (page_row \<Rightarrow> bool) \<Rightarrow> ident list result" where
  "allowed_page_ids d user a p =
     allowed_for d user Pages a Page (map pg_id (filter p (t_pages d)))"

record page_query =
  pq_space :: "ident option"
  pq_status :: "page_status option"
  pq_type :: "page_type option"
  pq_category :: "string option"
  pq_page :: nat
  pq_per_page :: nat

definition query_matches :: "db \<Rightarrow> page_query \<Rightarrow> page_row \<Rightarrow> bool" where
  "query_matches d q p \<longleftrightarrow> pg_deleted p = None \<and>
     (truthy (pq_space q) \<longrightarrow> Some (pg_space p) = pq_space q) \<and>
     (pq_status q \<noteq> None \<longrightarrow> Some (pg_status p) = pq_status q) \<and>
     (pq_type q \<noteq> None \<longrightarrow> Some (pg_type p) = pq_type q) \<and>
     (truthy (pq_category q) \<longrightarrow>
        (\<exists>c \<in> set (t_categories d). pg_category p = Some (c_id c) \<and> Some (c_slug c) = pq_category q))"

text \<open>The page asked for, and the total.\<close>

definition find_pages :: "db \<Rightarrow> page_query \<Rightarrow> auth_user option \<Rightarrow> (nat \<times> page_row list) result" where
  "find_pages d q user =
     rbind (allowed_page_ids d user Read (query_matches d q)) (\<lambda>allowed.
     let hits = filter (\<lambda>p. query_matches d q p \<and> pg_id p \<in> set allowed) (t_pages d)
     in Inr (length hits,
          take (pq_per_page q) (drop ((pq_page q - 1) * pq_per_page q) (sort_key pg_sort_order hits))))"

text \<open>The chain of live parents, root first: at most 20, each once.\<close>

function ancestors_loop :: "db \<Rightarrow> ident option \<Rightarrow> ident list \<Rightarrow> page_row list \<Rightarrow> page_row list" where
  "ancestors_loop d None visited acc = acc"
| "ancestors_loop d (Some i) visited acc =
     (if \<not> length acc < 20 \<or> i \<in> set visited then acc
      else case live_page d i of
        None \<Rightarrow> acc
      | Some p \<Rightarrow> ancestors_loop d (pg_parent p) (i # visited) (p # acc))"
  by pat_completeness auto
termination by (relation "measure (\<lambda>(d, i, visited, acc). 20 - length acc)") auto

definition find_ancestors :: "db \<Rightarrow> ident option \<Rightarrow> page_row list" where
  "find_ancestors d parent = ancestors_loop d parent [] []"

declare ancestors_loop.simps [simp del]

record page_detail =
  dt_page :: page_row
  dt_content :: string
  dt_category :: "category_row option"
  dt_ancestors :: "page_row list"

definition find_page_by_slug :: "db \<Rightarrow> string \<Rightarrow> auth_user option \<Rightarrow> page_detail result" where
  "find_page_by_slug d slug user =
     rbind (or_throw (NotFound ''page'') (live_slug d slug)) (\<lambda>p.
     rbind (assert_actor d user Pages Read Page (pg_id p)) (\<lambda>_.
     let ancestors = find_ancestors d (pg_parent p);
         category = Option.bind (pg_category p) (find_category d) in
     rbind (allowed_for d user Pages Read Page (map pg_id ancestors)) (\<lambda>ap.
     rbind (case category of
              None \<Rightarrow> Inr []
            | Some c \<Rightarrow> allowed_for d user Categories Read Category [c_id c]) (\<lambda>ac.
     Inr \<lparr>dt_page = p, dt_content = normalize_media_urls d (pg_content p),
          dt_category = (if ac = [] then None else category),
          dt_ancestors = filter (\<lambda>q. pg_id q \<in> set ap) ancestors\<rparr>))))"

definition find_public_page :: "db \<Rightarrow> string \<Rightarrow> (page_row \<times> string) result" where
  "find_public_page d slug =
     rbind (or_throw (NotFound ''public page'')
       (List.find (\<lambda>p. pg_slug p = slug \<and> pg_public p \<and> pg_status p = Page_Published \<and> pg_type p = PAGE \<and>
          pg_deleted p = None) (t_pages d))) (\<lambda>p.
     Inr (p, normalize_media_urls d (pg_content p)))"

text \<open>
  Related pages (raw SQL): those that share a tag with the page or its category, the most shared
  tags first, then same category, latest change, title in the database's order \<open>rank\<close>.
\<close>

definition shared_tags :: "db \<Rightarrow> ident \<Rightarrow> ident \<Rightarrow> ident list" where
  "shared_tags d i j =
     uniq (map pt_tag (filter (\<lambda>x. pt_page x = j \<and> \<lparr>pt_page = i, pt_tag = pt_tag x\<rparr> \<in> set (t_page_tags d))
       (t_page_tags d)))"

definition same_category :: "page_row \<Rightarrow> page_row \<Rightarrow> bool" where
  "same_category p q \<longleftrightarrow> pg_category p \<noteq> None \<and> pg_category q = pg_category p"

definition find_related ::
    "(string \<Rightarrow> nat) \<Rightarrow> db \<Rightarrow> ident \<Rightarrow> nat \<Rightarrow> auth_user option \<Rightarrow> page_row list result" where
  "find_related rank d i limit user =
     rbind (or_throw (NotFound ''page'')
       (List.find (\<lambda>p. pg_id p = i \<and> pg_type p = PAGE \<and> pg_deleted p = None) (t_pages d))) (\<lambda>source.
     rbind (assert_actor d user Pages Read Page i) (\<lambda>_.
     rbind (allowed_page_ids d user Read (\<lambda>p. pg_deleted p = None)) (\<lambda>allowed.
     let hits = filter (\<lambda>p. pg_id p \<noteq> i \<and> pg_id p \<in> set allowed \<and> pg_type p = PAGE \<and> pg_deleted p = None \<and>
           (shared_tags d i (pg_id p) \<noteq> [] \<or> same_category source p)) (t_pages d)
     in Inr (take limit
          (sort_key (\<lambda>p. - int (length (shared_tags d i (pg_id p))))
            (sort_key (\<lambda>p. if same_category source p then 0 else (1 :: nat))
              (sort_key (\<lambda>p. - pg_updated p) (sort_key (\<lambda>p. rank (pg_title p)) hits))))))))"

section \<open>Where a page goes\<close>

definition resolve_page_space ::
    "db \<Rightarrow> ident option \<Rightarrow> ident option option \<Rightarrow> ident option option \<Rightarrow> page_row option \<Rightarrow> ident result" where
  "resolve_page_space d space category_change parent_change existing =
     (let category = given category_change (Option.bind existing pg_category);
          parent = given parent_change (Option.bind existing pg_parent) in
      rbind (rguard (\<not> (parent \<noteq> None \<and> parent = map_option pg_id existing)) (BadRequest ''own parent'')) (\<lambda>_.
      let c = Option.bind category (find_category d);
          q = Option.bind parent (live_page d) in
      rbind (rguard (category \<noteq> None \<longrightarrow> map_option c_scope c = Some WIKI) (BadRequest ''category'')) (\<lambda>_.
      rbind (rguard (parent \<noteq> None \<longrightarrow> map_option pg_type q = Some FOLDER) (BadRequest ''parent'')) (\<lambda>_.
      let candidate = (case space of Some s \<Rightarrow> Some s | None \<Rightarrow>
            (case c of Some c \<Rightarrow> Some (c_space c) | None \<Rightarrow>
            (case q of Some q \<Rightarrow> Some (pg_space q) | None \<Rightarrow> map_option pg_space existing))) in
      rbind (resolve_open_space d Wiki_Kind candidate) (\<lambda>sp.
      rbind (rguard ((case c of None \<Rightarrow> True | Some x \<Rightarrow> c_space x = sp) \<and>
          (case q of None \<Rightarrow> True | Some x \<Rightarrow> pg_space x = sp \<and> pg_category x = category)) (BadRequest ''space, category and parent'')) (\<lambda>_.
      Inr sp))))))"

definition assert_page_destination ::
    "db \<Rightarrow> auth_user option \<Rightarrow> ident option \<Rightarrow> ident option \<Rightarrow> ident \<Rightarrow> action \<Rightarrow> unit result" where
  "assert_page_destination d actor parent category sp a =
     (case parent of
        Some i \<Rightarrow> assert_actor d actor Pages a Page i
      | None \<Rightarrow>
          (case category of
             Some i \<Rightarrow> assert_actor d actor Pages a Category i
           | None \<Rightarrow> assert_actor d actor Pages a Space sp))"

definition page_slug_occupied :: "db \<Rightarrow> unit \<Rightarrow> string \<Rightarrow> bool" where
  "page_slug_occupied d x s = (List.find (\<lambda>p. pg_slug p = s) (t_pages d) \<noteq> None)"

definition page_slug :: "(string \<Rightarrow> string) \<Rightarrow> db \<Rightarrow> string \<Rightarrow> string option" where
  "page_slug slugify d title =
     slug_loop (length (t_pages d) + 1) (page_slug_occupied d ()) (slugify title) 1 (slugify title)"

section \<open>Creating a page\<close>

record page_input =
  pi_title :: string
  pi_space :: "ident option"
  pi_type :: page_type
  pi_content :: string
  pi_excerpt :: "string option"
  pi_status :: page_status
  pi_public :: bool
  pi_mcp :: bool
  pi_category :: "ident option"
  pi_parent :: "ident option"
  pi_tags :: "string list"

definition new_page :: "ident \<Rightarrow> string \<Rightarrow> ident \<Rightarrow> ident \<Rightarrow> page_input \<Rightarrow> time \<Rightarrow> page_row" where
  "new_page new_id slug sp author x now =
     \<lparr>pg_id = new_id, pg_title = pi_title x, pg_slug = slug, pg_type = pi_type x,
      pg_content = pi_content x, pg_excerpt = pi_excerpt x, pg_status = pi_status x,
      pg_public = pi_public x, pg_mcp = pi_mcp x, pg_version = 1, pg_sort_order = 0,
      pg_updated = now, pg_deleted = None, pg_deleted_by = None, pg_author = author,
      pg_parent = pi_parent x, pg_category = pi_category x, pg_space = sp\<rparr>"

definition insert_page :: "content_env \<Rightarrow> db \<Rightarrow> page_row \<Rightarrow> string list \<Rightarrow> db result" where
  "insert_page env d p tags =
     rbind (rguard (pg_id p \<notin> pg_id ` set (t_pages d) \<and> pg_slug p \<notin> pg_slug ` set (t_pages d)) (Internal ''P2002'')) (\<lambda>_.
     rbind (rguard (pg_author p \<in> u_id ` set (t_users d)) (Internal ''P2025'')) (\<lambda>_.
     rbind (attach_page_tags (ce_tag_id env) (pg_id p) (tag_relations env tags) (t_tags d) (t_page_tags d)) (\<lambda>(ts, pts).
     Inr (d\<lparr>t_pages := t_pages d @ [p], t_tags := ts, t_page_tags := pts\<rparr>))))"

definition create_page ::
    "content_env \<Rightarrow> db \<Rightarrow> ident \<Rightarrow> page_input \<Rightarrow> ident \<Rightarrow> auth_user option \<Rightarrow> time \<Rightarrow> (db \<times> page_row) result" where
  "create_page env d new_id x author actor now =
     rbind (resolve_page_space d (pi_space x) (Some (pi_category x)) (Some (pi_parent x)) None) (\<lambda>sp.
     rbind (assert_page_destination d actor (pi_parent x) (pi_category x) sp Create) (\<lambda>_.
     rbind (or_throw (Internal ''no slug'') (page_slug (ce_slugify env) d (pi_title x))) (\<lambda>slug.
     let p = new_page new_id slug sp author x now in
     rbind (insert_page env d p (pi_tags x)) (\<lambda>d'.
     Inr (sync_references (ce_slugify env) new_id (pg_content p) d', p)))))"

text \<open>
  Importing an uploaded Markdown file: \<open>read_file\<close> is the file system, \<open>is_markdown\<close> the test on
  name and type.
\<close>

fun ends_with_ci :: "string \<Rightarrow> string \<Rightarrow> bool" where
  "ends_with_ci suffix s = starts_with (rev suffix) (rev (to_lower s))"

definition is_markdown :: "media_row \<Rightarrow> bool" where
  "is_markdown m \<longleftrightarrow> ends_with_ci ''.md'' (md_filename m) \<or> ends_with_ci ''.markdown'' (md_filename m) \<or>
     md_mimetype m = ''text/markdown'' \<or> md_mimetype m = ''text/x-markdown''"

definition import_markdown ::
    "(string \<Rightarrow> string option) \<Rightarrow> content_env \<Rightarrow> db \<Rightarrow> ident \<Rightarrow> ident \<Rightarrow> string \<Rightarrow> ident option \<Rightarrow> ident option \<Rightarrow>
     page_status \<Rightarrow> ident \<Rightarrow> auth_user option \<Rightarrow> time \<Rightarrow> (db \<times> page_row) result" where
  "import_markdown read_file env d new_id media title space category status author actor now =
     rbind (or_throw (NotFound ''media'') (List.find (\<lambda>m. md_id m = media) (t_media d))) (\<lambda>m.
     rbind (rguard (is_markdown m) (BadRequest ''markdown only'')) (\<lambda>_.
     rbind (or_throw (BadRequest ''unreadable'') (read_file (md_filepath m))) (\<lambda>content.
     rbind (create_page env d new_id
       \<lparr>pi_title = title, pi_space = space, pi_type = PAGE, pi_content = content, pi_excerpt = None,
        pi_status = status, pi_public = False, pi_mcp = False, pi_category = category,
        pi_parent = None, pi_tags = []\<rparr> author actor now) (\<lambda>(d', p).
     let row = \<lparr>pm_page = pg_id p, pm_media = md_id m\<rparr> in
     Inr (if row \<in> set (t_page_media d') then d' else d'\<lparr>t_page_media := t_page_media d' @ [row]\<rparr>, p)))))"

section \<open>Changing a page\<close>

record page_change =
  pc_title :: "string option"
  pc_space :: "ident option"
  pc_content :: "string option"
  pc_excerpt :: "string option option"
  pc_status :: "page_status option"
  pc_public :: "bool option"
  pc_mcp :: "bool option"
  pc_type :: "page_type option"
  pc_category :: "ident option option"
  pc_parent :: "ident option option"
  pc_tags :: "string list option"
  pc_sort_order :: "int option"
  pc_message :: "string option"

record update_options =
  uo_expected :: "nat option"
  uo_editor :: "ident option"
  uo_actor :: "auth_user option"

definition assignment_changed :: "page_change \<Rightarrow> bool" where
  "assignment_changed x \<longleftrightarrow> pc_space x \<noteq> None \<or> pc_category x \<noteq> None \<or> pc_parent x \<noteq> None"

definition changed_page :: "page_change \<Rightarrow> page_row \<Rightarrow> ident \<Rightarrow> time \<Rightarrow> page_row \<Rightarrow> page_row" where
  "changed_page x existing sp now p =
     p\<lparr>pg_version := pg_version existing + 1, pg_space := sp,
       pg_title := given (pc_title x) (pg_title p), pg_content := given (pc_content x) (pg_content p),
       pg_excerpt := given (pc_excerpt x) (pg_excerpt p), pg_status := given (pc_status x) (pg_status p),
       pg_public := given (pc_public x) (pg_public p), pg_mcp := given (pc_mcp x) (pg_mcp p),
       pg_type := given (pc_type x) (pg_type p), pg_sort_order := given (pc_sort_order x) (pg_sort_order p),
       pg_category := given (pc_category x) (pg_category p), pg_parent := given (pc_parent x) (pg_parent p),
       pg_updated := now\<rparr>"

text \<open>The checks; what they read and the resolved space go into the transaction.\<close>

definition update_begin ::
    "db \<Rightarrow> ident \<Rightarrow> page_change \<Rightarrow> update_options \<Rightarrow> (page_row \<times> ident) result" where
  "update_begin d i x opt =
     rbind (or_throw (NotFound ''page'') (live_page d i)) (\<lambda>existing.
     rbind (assert_actor d (uo_actor opt) Pages Update Page i) (\<lambda>_.
     rbind (rguard (\<not> (uo_expected opt \<noteq> None \<and> uo_expected opt \<noteq> Some (pg_version existing)))
       (Conflict ''version'')) (\<lambda>_.
     rbind (if assignment_changed x
            then resolve_page_space d (pc_space x) (pc_category x) (pc_parent x) (Some existing)
            else Inr (pg_space existing)) (\<lambda>sp.
     rbind (if assignment_changed x
            then assert_page_destination d (uo_actor opt) (given (pc_parent x) (pg_parent existing))
                   (given (pc_category x) (pg_category existing)) sp Update
            else Inr ()) (\<lambda>_.
     rbind (rguard (\<not> (sp \<noteq> pg_space existing \<and>
         0 < count_where (\<lambda>p. pg_parent p = Some i \<and> pg_deleted p = None) (t_pages d)))
       (BadRequest ''folder with content'')) (\<lambda>_.
     Inr (existing, sp)))))))"

text \<open>
  The transaction: the snapshot of what was read, then the row, addressed by id, liveness and (if
  expected) version; records to connect must exist. A missing record is P2025, which only a request
  with an expected version turns into a conflict.
\<close>

definition p2025 :: "update_options \<Rightarrow> api_error" where
  "p2025 opt = (if uo_expected opt = None then Internal ''P2025'' else Conflict ''version'')"

definition snapshot_of :: "ident \<Rightarrow> page_row \<Rightarrow> page_change \<Rightarrow> update_options \<Rightarrow> page_version_row" where
  "snapshot_of version_id p x opt =
     \<lparr>pv_id = version_id, pv_page = pg_id p, pv_title = pg_title p, pv_content = pg_content p,
      pv_version = pg_version p, pv_message = pc_message x,
      pv_author = given (uo_editor opt) (pg_author p)\<rparr>"

definition update_commit ::
    "content_env \<Rightarrow> db \<Rightarrow> ident \<Rightarrow> ident \<Rightarrow> page_change \<Rightarrow> update_options \<Rightarrow> page_row \<Rightarrow> ident \<Rightarrow> time \<Rightarrow>
     (db \<times> page_row) result" where
  "update_commit env d version_id i x opt existing sp now =
     (let hit = (\<lambda>p. pg_id p = i \<and> pg_deleted p = None \<and>
            (uo_expected opt = None \<or> uo_expected opt = Some (pg_version p))) in
      rbind (or_throw (p2025 opt) (List.find hit (t_pages d))) (\<lambda>p.
      rbind (rguard (sp \<in> s_id ` set (t_spaces d) \<and>
          fk (given (pc_category x) None) (c_id ` set (t_categories d)) \<and>
          fk (given (pc_parent x) None) (pg_id ` set (t_pages d)) \<and>
          given (uo_editor opt) (pg_author existing) \<in> u_id ` set (t_users d)) (p2025 opt)) (\<lambda>_.
      rbind (case pc_tags x of
               None \<Rightarrow> Inr (t_tags d, t_page_tags d)
             | Some tags \<Rightarrow> attach_page_tags (ce_tag_id env) i (tag_relations env tags) (t_tags d)
                 (delete_where (\<lambda>r. pt_page r = i) (t_page_tags d))) (\<lambda>(ts, pts).
      Inr (d\<lparr>t_page_versions := t_page_versions d @ [snapshot_of version_id existing x opt],
             t_pages := update_where hit (changed_page x existing sp now) (t_pages d),
             t_tags := ts, t_page_tags := pts\<rparr>, changed_page x existing sp now p)))))"

definition update_page ::
    "content_env \<Rightarrow> db \<Rightarrow> ident \<Rightarrow> ident \<Rightarrow> page_change \<Rightarrow> update_options \<Rightarrow> time \<Rightarrow> (db \<times> page_row) result" where
  "update_page env d version_id i x opt now =
     rbind (update_begin d i x opt) (\<lambda>(existing, sp).
     rbind (update_commit env d version_id i x opt existing sp now) (\<lambda>(d', p).
     Inr (sync_references (ce_slugify env) i (pg_content p) d', p)))"

definition find_update_state :: "db \<Rightarrow> ident \<Rightarrow> auth_user option \<Rightarrow> page_row result" where
  "find_update_state d i actor =
     rbind (or_throw (NotFound ''page'') (live_page d i)) (\<lambda>p.
     rbind (assert_actor d actor Pages Update Page i) (\<lambda>_. Inr p))"

text \<open>Ticking a task writes the content only: the version stays and no snapshot is kept.\<close>

definition toggle_page_checkbox ::
    "db \<Rightarrow> ident \<Rightarrow> nat \<Rightarrow> bool \<Rightarrow> auth_user option \<Rightarrow> time \<Rightarrow> (db \<times> page_row) result" where
  "toggle_page_checkbox d i index checked actor now =
     rbind (or_throw (NotFound ''page'')
       (List.find (\<lambda>p. pg_id p = i \<and> pg_type p = PAGE \<and> pg_deleted p = None) (t_pages d))) (\<lambda>existing.
     rbind (assert_actor d actor Pages Update Page i) (\<lambda>_.
     rbind (or_throw (BadRequest ''no such task'') (toggle_checkbox_in_content (pg_content existing) index checked))
       (\<lambda>content.
     let set_content = (\<lambda>p. p\<lparr>pg_content := content, pg_updated := now\<rparr>) in
     Inr (d\<lparr>t_pages := update_where (\<lambda>p. pg_id p = i) set_content (t_pages d)\<rparr>, set_content existing))))"

section \<open>Trash\<close>

definition remove_page :: "db \<Rightarrow> ident \<Rightarrow> ident \<Rightarrow> auth_user option \<Rightarrow> time \<Rightarrow> (db \<times> page_row) result" where
  "remove_page d i uid actor now =
     rbind (or_throw (NotFound ''page'') (live_page d i)) (\<lambda>existing.
     rbind (assert_actor d actor Pages Delete Page i) (\<lambda>_.
     let children = map pg_id (filter (\<lambda>p. pg_parent p = Some i \<and> pg_deleted p = None) (t_pages d)) in
     rbind (if actor \<noteq> None \<and> pg_type existing = FOLDER
            then rbind (allowed_for d actor Pages Update Page children) (\<lambda>allowed.
                   rguard (length allowed = length children) (NotFound ''folder or content''))
            else Inr ()) (\<lambda>_.
     let moved = (if pg_type existing = FOLDER
           then update_where (\<lambda>p. pg_parent p = Some i \<and> pg_deleted p = None)
                  (\<lambda>p. p\<lparr>pg_parent := None, pg_updated := now\<rparr>) (t_pages d)
           else t_pages d)
     in Inr (d\<lparr>t_pages := update_where (\<lambda>p. pg_id p = i)
          (\<lambda>p. p\<lparr>pg_deleted := Some now, pg_deleted_by := Some uid, pg_updated := now\<rparr>) moved\<rparr>, existing))))"

definition find_page_trash :: "db \<Rightarrow> auth_user option \<Rightarrow> page_row list result" where
  "find_page_trash d user =
     rbind (allowed_page_ids d user Update (\<lambda>p. pg_deleted p \<noteq> None)) (\<lambda>allowed.
     Inr (sort_key (\<lambda>p. - (case pg_deleted p of None \<Rightarrow> 0 | Some t \<Rightarrow> t))
       (filter (\<lambda>p. pg_deleted p \<noteq> None \<and> pg_id p \<in> set allowed) (t_pages d))))"

definition restore_page :: "db \<Rightarrow> ident \<Rightarrow> auth_user option \<Rightarrow> time \<Rightarrow> db result" where
  "restore_page d i actor now =
     rbind (or_throw (NotFound ''deleted page'') (trashed_page d i)) (\<lambda>p.
     rbind (assert_actor d actor Pages Update Page i) (\<lambda>_.
     Inr (d\<lparr>t_pages := update_where (\<lambda>p. pg_id p = i)
       (\<lambda>p. p\<lparr>pg_deleted := None, pg_deleted_by := None, pg_updated := now\<rparr>) (t_pages d)\<rparr>)))"

definition permanent_remove_page :: "db \<Rightarrow> ident \<Rightarrow> auth_user option \<Rightarrow> (db \<times> page_row) result" where
  "permanent_remove_page d i actor =
     rbind (or_throw (NotFound ''deleted page'') (trashed_page d i)) (\<lambda>p.
     rbind (assert_actor d actor Pages Purge Page i) (\<lambda>_.
     Inr (delete_pages (\<lambda>q. pg_id q = i) d, p)))"

definition empty_trash :: "db \<Rightarrow> auth_user option \<Rightarrow> (db \<times> nat) result" where
  "empty_trash d actor =
     rbind (allowed_page_ids d actor Purge (\<lambda>p. pg_deleted p \<noteq> None)) (\<lambda>allowed.
     let gone = (\<lambda>p. pg_deleted p \<noteq> None \<and> pg_id p \<in> set allowed)
     in Inr (delete_pages gone d, count_where gone (t_pages d)))"

section \<open>Versions and drafts\<close>

definition versions_of :: "db \<Rightarrow> ident \<Rightarrow> page_version_row list" where
  "versions_of d i = filter (\<lambda>v. pv_page v = i) (t_page_versions d)"

definition find_versions :: "db \<Rightarrow> ident \<Rightarrow> auth_user option \<Rightarrow> page_version_row list result" where
  "find_versions d i user =
     rbind (or_throw (NotFound ''page'') (live_page d i)) (\<lambda>_.
     rbind (assert_actor d user Pages Read Page i) (\<lambda>_.
     Inr (sort_key (\<lambda>v. - int (pv_version v)) (versions_of d i))))"

definition stored_draft :: "db \<Rightarrow> ident \<Rightarrow> ident \<Rightarrow> page_draft_row option" where
  "stored_draft d i uid = List.find (\<lambda>x. pd_page x = i \<and> pd_user x = uid) (t_page_drafts d)"

definition find_draft :: "db \<Rightarrow> ident \<Rightarrow> ident \<Rightarrow> auth_user option \<Rightarrow> page_draft_row option result" where
  "find_draft d i uid actor =
     rbind (or_throw (NotFound ''page'') (live_page d i)) (\<lambda>_.
     rbind (assert_actor d actor Pages Update Page i) (\<lambda>_. Inr (stored_draft d i uid)))"

record draft_input =
  di_title :: string
  di_content :: string
  di_status :: page_status
  di_public :: bool
  di_mcp :: bool
  di_tags :: "string list"

definition draft_row :: "ident \<Rightarrow> ident \<Rightarrow> draft_input \<Rightarrow> page_draft_row" where
  "draft_row i uid x =
     \<lparr>pd_page = i, pd_user = uid, pd_title = di_title x, pd_content = di_content x,
      pd_status = di_status x, pd_public = di_public x, pd_mcp = di_mcp x, pd_tags = di_tags x\<rparr>"

text \<open>The upsert: one draft per page and user.\<close>

definition save_draft ::
    "db \<Rightarrow> ident \<Rightarrow> ident \<Rightarrow> draft_input \<Rightarrow> auth_user option \<Rightarrow> (db \<times> page_draft_row) result" where
  "save_draft d i uid x actor =
     rbind (or_throw (NotFound ''page'') (live_page d i)) (\<lambda>_.
     rbind (assert_actor d actor Pages Update Page i) (\<lambda>_.
     let mine = (\<lambda>r. pd_page r = i \<and> pd_user r = uid);
         row = draft_row i uid x in
     Inr (d\<lparr>t_page_drafts := (case stored_draft d i uid of
         Some _ \<Rightarrow> update_where mine (\<lambda>_. row) (t_page_drafts d)
       | None \<Rightarrow> t_page_drafts d @ [row])\<rparr>, row)))"

definition delete_draft :: "db \<Rightarrow> ident \<Rightarrow> ident \<Rightarrow> auth_user option \<Rightarrow> db result" where
  "delete_draft d i uid actor =
     rbind (or_throw (NotFound ''page'') (live_page d i)) (\<lambda>_.
     rbind (assert_actor d actor Pages Update Page i) (\<lambda>_.
     Inr (d\<lparr>t_page_drafts := delete_where (\<lambda>r. pd_page r = i \<and> pd_user r = uid) (t_page_drafts d)\<rparr>)))"

section \<open>Trees, tags and backlinks\<close>

record folder_view =
  fv_folder :: page_row
  fv_pages :: "page_row list"

text \<open>
  The tree of a set of pages (those of a category, or of a space without category): every folder
  with its child pages, and the pages without a parent.
\<close>

definition tree_of :: "db \<Rightarrow> (page_row \<Rightarrow> bool) \<Rightarrow> ident list \<Rightarrow> folder_view list \<times> page_row list" where
  "tree_of d here allowed =
     (let shown = (\<lambda>p. pg_deleted p = None \<and> pg_id p \<in> set allowed);
          folders = sort_key pg_sort_order
            (filter (\<lambda>p. here p \<and> pg_type p = FOLDER \<and> shown p) (t_pages d))
      in (map (\<lambda>f. \<lparr>fv_folder = f, fv_pages = sort_key pg_sort_order
             (filter (\<lambda>p. pg_parent p = Some (pg_id f) \<and> pg_type p = PAGE \<and> shown p) (t_pages d))\<rparr>) folders,
          sort_key pg_sort_order
            (filter (\<lambda>p. here p \<and> pg_type p = PAGE \<and> pg_parent p = None \<and> shown p) (t_pages d))))"

definition build_tree ::
    "db \<Rightarrow> string \<Rightarrow> ident \<Rightarrow> auth_user option \<Rightarrow> (category_row \<times> folder_view list \<times> page_row list) result" where
  "build_tree d slug sp user =
     rbind (or_throw (NotFound ''category'') (find_category_slug d sp WIKI slug)) (\<lambda>c.
     rbind (assert_actor d user Pages Read Category (c_id c)) (\<lambda>_.
     rbind (allowed_page_ids d user Read (\<lambda>p. pg_category p = Some (c_id c) \<and> pg_deleted p = None)) (\<lambda>allowed.
     let allowed' = (if user = None then map pg_id (t_pages d) else allowed)
     in Inr (c, tree_of d (\<lambda>p. pg_category p = Some (c_id c)) allowed'))))"

definition build_uncategorized_tree ::
    "db \<Rightarrow> ident \<Rightarrow> auth_user option \<Rightarrow> (folder_view list \<times> page_row list) result" where
  "build_uncategorized_tree d sp user =
     rbind (assert_actor d user Pages Read Space sp) (\<lambda>_.
     rbind (allowed_page_ids d user Read (\<lambda>p. pg_space p = sp \<and> pg_category p = None \<and> pg_deleted p = None))
       (\<lambda>allowed.
     let allowed' = (if user = None then map pg_id (t_pages d) else allowed)
     in Inr (tree_of d (\<lambda>p. pg_space p = sp \<and> pg_category p = None) allowed')))"

text \<open>Without a user every tag, else the tags of readable pages; \<open>rank\<close> is the database's order.\<close>

definition find_tags :: "(string \<Rightarrow> nat) \<Rightarrow> db \<Rightarrow> auth_user option \<Rightarrow> string list result" where
  "find_tags rank d user =
     rbind (allowed_page_ids d user Read (\<lambda>p. pg_deleted p = None)) (\<lambda>allowed.
     Inr (sort_key rank (map tag_name (filter (\<lambda>t. user = None \<or>
       (\<exists>x \<in> set (t_page_tags d). pt_tag x = tag_id t \<and> pt_page x \<in> set allowed)) (t_tags d)))))"

definition find_backlinks :: "db \<Rightarrow> string \<Rightarrow> auth_user option \<Rightarrow> page_row list result" where
  "find_backlinks d slug user =
     rbind (or_throw (NotFound ''page'') (live_slug d slug)) (\<lambda>p.
     rbind (assert_actor d user Pages Read Page (pg_id p)) (\<lambda>_.
     rbind (allowed_page_ids d user Read (\<lambda>p. pg_deleted p = None)) (\<lambda>allowed.
     Inr (List.map_filter (\<lambda>l.
         if pl_target l = pg_id p \<and> pl_source l \<in> set allowed then live_page d (pl_source l) else None)
       (rev (t_page_links d))))))"

definition find_standard_backlinks :: "(string \<Rightarrow> nat) \<Rightarrow> db \<Rightarrow> string \<Rightarrow> auth_user \<Rightarrow> standard_row list result" where
  "find_standard_backlinks rank d slug user =
     (if \<not> has_permission d user Standards Read then Inr []
      else
        rbind (or_throw (NotFound ''page'') (live_slug d slug)) (\<lambda>p.
        rbind (assert_actor d (Some user) Pages Read Page (pg_id p)) (\<lambda>_.
        let linked = map sp_standard (filter (\<lambda>l. sp_page l = pg_id p) (t_standard_pages d)) in
        rbind (allowed_for d (Some user) Standards Read Standard linked) (\<lambda>allowed.
        Inr (sort_key (\<lambda>x. rank (st_title x)) (List.map_filter (find_standard d)
          (filter (\<lambda>i. i \<in> set allowed) linked)))))))"

text \<open>A text environment for examples: nothing is changed.\<close>

definition sample_env :: content_env where
  "sample_env = \<lparr>ce_slugify = (\<lambda>s. s), ce_slugify_de = (\<lambda>s. s), ce_lower_de = (\<lambda>s. s), ce_tag_id = (\<lambda>s. s)\<rparr>"

end
