(* ===== verification/Page_History.thy ===== *)
theory Page_History
  imports Pages
begin

text \<open>
  What the versions of a page are worth. Requests interleave: an update's checks and its transaction
  are separate steps, and between them any other request of pages, categories and spaces may run.
  With an expected version (as the MCP tools send it) the history of every page is complete; without
  one (as the REST interface sends it) two editors can lose a text for good.
\<close>

section \<open>Requests\<close>

inductive page_request :: "content_env \<Rightarrow> db \<Rightarrow> db \<Rightarrow> bool" for env where
  Create: "create_page env d i x author actor now = Inr (d', p) \<Longrightarrow> page_request env d d'"
| Import: "import_markdown read_file env d i media title sp cat status author actor now = Inr (d', p) \<Longrightarrow>
    page_request env d d'"
| Sync: "page_request env d (sync_references (ce_slugify env) i content d)"
| Remove: "remove_page d i uid actor now = Inr (d', p) \<Longrightarrow> page_request env d d'"
| Restore: "restore_page d i actor now = Inr d' \<Longrightarrow> page_request env d d'"
| Purge: "permanent_remove_page d i actor = Inr (d', p) \<Longrightarrow> page_request env d d'"
| Empty: "empty_trash d actor = Inr (d', n) \<Longrightarrow> page_request env d d'"
| Save_Draft: "save_draft d i uid dr actor = Inr (d', r) \<Longrightarrow> page_request env d d'"
| Delete_Draft: "delete_draft d i uid actor = Inr d' \<Longrightarrow> page_request env d d'"
| New_Category: "create_category slugify d i ci actor = Inr (d', c) \<Longrightarrow> page_request env d d'"
| Change_Category: "update_category slugify d i cc actor = Inr d' \<Longrightarrow> page_request env d d'"
| Remove_Category: "remove_category d i actor = Inr d' \<Longrightarrow> page_request env d d'"
| New_Space: "create_space slugify fold_case fresh d i si actor = Inr d' \<Longrightarrow> page_request env d d'"
| Change_Space: "update_space slugify fold_case fresh d i sc actor = Inr d' \<Longrightarrow> page_request env d d'"
| Remove_Space: "remove_space_commit d i = Inr d' \<Longrightarrow> page_request env d d'"

text \<open>An update between its checks and its transaction.\<close>

record pending_update =
  up_page :: ident
  up_change :: page_change
  up_options :: update_options
  up_existing :: page_row
  up_space :: ident

text \<open>
  One step of the server: \<open>guarded\<close> says that updates carry an expected version, \<open>ticks\<close> that tasks
  may be ticked. A new page gets an id that no running update knows.
\<close>

inductive history_step ::
    "content_env \<Rightarrow> bool \<Rightarrow> bool \<Rightarrow> db \<times> pending_update list \<Rightarrow> db \<times> pending_update list \<Rightarrow> bool"
  for env guarded ticks where
  Begin: "update_begin d i x opt = Inr (e, sp) \<Longrightarrow> (guarded \<Longrightarrow> uo_expected opt \<noteq> None) \<Longrightarrow>
    history_step env guarded ticks (d, us)
      (d, us @ [\<lparr>up_page = i, up_change = x, up_options = opt, up_existing = e, up_space = sp\<rparr>])"
| Commit: "u \<in> set us \<Longrightarrow>
    update_commit env d vid (up_page u) (up_change u) (up_options u) (up_existing u) (up_space u) now = Inr (d', p) \<Longrightarrow>
    history_step env guarded ticks (d, us) (d', remove1 u us)"
| Abort: "history_step env guarded ticks (d, us) (d, remove1 u us)"
| Request: "page_request env d d' \<Longrightarrow>
    (\<And>u. u \<in> set us \<Longrightarrow> up_page u \<in> pg_id ` set (t_pages d') \<Longrightarrow> up_page u \<in> pg_id ` set (t_pages d)) \<Longrightarrow>
    history_step env guarded ticks (d, us) (d', us)"
| Tick: "ticks \<Longrightarrow> toggle_page_checkbox d i index checked actor now = Inr (d', p) \<Longrightarrow>
    history_step env guarded ticks (d, us) (d', us)"

text \<open>Every page has the versions 1, 2, ... below its own, in this order, each once.\<close>

definition history_ok :: "db \<Rightarrow> bool" where
  "history_ok d \<longleftrightarrow> distinct (map pg_id (t_pages d)) \<and>
     pv_page ` set (t_page_versions d) \<subseteq> pg_id ` set (t_pages d) \<and>
     (\<forall>p \<in> set (t_pages d). 1 \<le> pg_version p \<and>
        map pv_version (versions_of d (pg_id p)) = [1..<pg_version p])"

section \<open>Requests keep the texts\<close>

definition page_text :: "page_row \<Rightarrow> ident \<times> string \<times> string \<times> nat" where
  "page_text p = (pg_id p, pg_title p, pg_content p, pg_version p)"

text \<open>Pages disappear with their versions; a new one starts with version 1.\<close>

definition texts_kept :: "db \<Rightarrow> db \<Rightarrow> bool" where
  "texts_kept d d' \<longleftrightarrow> (\<exists>gone new.
     map page_text (t_pages d') = filter (\<lambda>x. fst x \<notin> gone) (map page_text (t_pages d)) @ new \<and>
     t_page_versions d' = filter (\<lambda>v. pv_page v \<notin> gone) (t_page_versions d) \<and>
     (new = [] \<or> (\<exists>i t c. new = [(i, t, c, 1)] \<and> i \<notin> pg_id ` set (t_pages d))))"

lemma texts_same:
  assumes "map page_text (t_pages d') = map page_text (t_pages d)"
    and "t_page_versions d' = t_page_versions d"
  shows "texts_kept d d'"
  unfolding texts_kept_def using assms by (intro exI [of _ "{}"] exI [of _ "[]"]) simp

lemma texts_update_where:
  assumes "\<And>p. page_text (f p) = page_text p"
  shows "map page_text (update_where q f ps) = map page_text ps"
  by (rule map_update_where) (rule assms)

lemma texts_new:
  assumes "t_pages d' = t_pages d @ [p]" and "t_page_versions d' = t_page_versions d"
    and "pg_version p = 1" and "pg_id p \<notin> pg_id ` set (t_pages d)"
  shows "texts_kept d d'"
  unfolding texts_kept_def using assms
  by (intro exI [of _ "{}"] exI [of _ "[page_text p]"]) (simp add: page_text_def)

lemma texts_delete_pages: "distinct (map pg_id (t_pages d)) \<Longrightarrow> texts_kept d (delete_pages q d)"
proof -
  assume distinct: "distinct (map pg_id (t_pages d))"
  let ?gone = "pg_id ` set (filter q (t_pages d))"
  have "q p \<longleftrightarrow> pg_id p \<in> ?gone" if "p \<in> set (t_pages d)" for p
    using unique_key_eq [OF distinct that] that by auto
  then have "delete_where q (t_pages d) = filter (\<lambda>p. pg_id p \<notin> ?gone) (t_pages d)"
    unfolding delete_where_def by (intro filter_cong refl) blast
  moreover have "map page_text (t_pages (delete_pages q d)) = map page_text (delete_where q (t_pages d))"
    unfolding delete_pages_def Let_def by (simp add: texts_update_where page_text_def)
  ultimately have "map page_text (t_pages (delete_pages q d)) =
      filter (\<lambda>x. fst x \<notin> ?gone) (map page_text (t_pages d))"
    by (simp add: filter_map comp_def page_text_def)
  moreover have "t_page_versions (delete_pages q d) = filter (\<lambda>v. pv_page v \<notin> ?gone) (t_page_versions d)"
    unfolding delete_pages_def Let_def by (simp add: delete_where_def)
  ultimately show ?thesis
    unfolding texts_kept_def by (intro exI [of _ ?gone] exI [of _ "[]"]) simp
qed

lemma sync_references_fields [simp]:
  "t_pages (sync_references f i content d) = t_pages d"
  "t_page_versions (sync_references f i content d) = t_page_versions d"
  "t_spaces (sync_references f i content d) = t_spaces d"
  "t_categories (sync_references f i content d) = t_categories d"
  by (simp_all add: sync_references_def sync_links_def sync_media_references_def Let_def)

lemma create_page_Inr:
  assumes "create_page env d i x author actor now = Inr (d', p)"
  shows "\<exists>sp slug. resolve_page_space d (pi_space x) (Some (pi_category x)) (Some (pi_parent x)) None = Inr sp \<and>
    p = new_page i slug sp author x now \<and> t_pages d' = t_pages d @ [p] \<and> i \<notin> pg_id ` set (t_pages d) \<and>
    t_page_versions d' = t_page_versions d \<and> t_spaces d' = t_spaces d \<and> t_categories d' = t_categories d"
  using assms
  by (auto simp: create_page_def insert_page_def result_simps Let_def new_page_def)

lemma import_markdown_Inr:
  assumes "import_markdown read_file env d i media title sp cat status author actor now = Inr (d', p)"
  shows "\<exists>x d0. create_page env d i x author actor now = Inr (d0, p) \<and>
    t_pages d' = t_pages d0 \<and> t_page_versions d' = t_page_versions d0 \<and>
    t_spaces d' = t_spaces d0 \<and> t_categories d' = t_categories d0 \<and>
    t_notes d' = t_notes d0 \<and> t_standards d' = t_standards d0"
proof -
  obtain m :: media_row and content d0 where c: "create_page env d i
       \<lparr>pi_title = title, pi_space = sp, pi_type = PAGE, pi_content = content, pi_excerpt = None,
        pi_status = status, pi_public = False, pi_mcp = False, pi_category = cat,
        pi_parent = None, pi_tags = []\<rparr> author actor now = Inr (d0, p)"
    and d': "d' = (if \<lparr>pm_page = pg_id p, pm_media = md_id m\<rparr> \<in> set (t_page_media d0) then d0
       else d0\<lparr>t_page_media := t_page_media d0 @ [\<lparr>pm_page = pg_id p, pm_media = md_id m\<rparr>]\<rparr>)"
    using assms unfolding import_markdown_def Let_def
    apply (elim rbind_InrE)
    subgoal for m u content r by (cases r, rule that [of content "fst r" m]) (simp_all, auto)
    done
  show ?thesis
    by (rule exI, rule exI, rule conjI [OF c]) (simp add: d')
qed

text \<open>The other requests: what they do to pages, categories and spaces.\<close>

lemma create_category_Inr:
  assumes "create_category slugify d i x actor = Inr (d', c)"
  shows "resolve_open_space d (kind_of_scope (c_scope c)) (ci_space x) = Inr (c_space c) \<and>
    c_id c = i \<and> i \<notin> c_id ` set (t_categories d) \<and> d' = d\<lparr>t_categories := t_categories d @ [c]\<rparr>"
  using assms by (auto simp: create_category_def Let_def result_simps new_category_def)

lemma update_category_Inr:
  assumes "update_category slugify d i x actor = Inr d'"
  shows "\<exists>existing sp slug. find_category d i = Some existing \<and>
    (case cc_space x of None \<Rightarrow> sp = c_space existing
     | Some s \<Rightarrow> resolve_open_space d (kind_of_scope (given (cc_scope x) (c_scope existing))) (Some s) = Inr sp) \<and>
    (given (cc_scope x) (c_scope existing) \<noteq> c_scope existing \<or> sp \<noteq> c_space existing \<longrightarrow> \<not> category_used d i) \<and>
    d' = d\<lparr>t_categories := update_where (\<lambda>c. c_id c = i) (changed_category x sp slug) (t_categories d)\<rparr>"
proof -
  obtain existing sp slug where "find_category d i = Some existing"
    "(case cc_space x of None \<Rightarrow> Inr (c_space existing)
       | Some s \<Rightarrow> resolve_open_space d (kind_of_scope (given (cc_scope x) (c_scope existing))) (Some s)) = Inr sp"
    "\<not> ((given (cc_scope x) (c_scope existing) \<noteq> c_scope existing \<or> sp \<noteq> c_space existing) \<and> category_used d i)"
    "d' = d\<lparr>t_categories := update_where (\<lambda>c. c_id c = i) (changed_category x sp slug) (t_categories d)\<rparr>"
    using assms unfolding update_category_def Let_def
    by (elim rbind_InrE) (simp only: or_throw_eq_Inr rguard_eq_Inr sum.inject, rule that, assumption+, rule sym, assumption)
  then show ?thesis by (intro exI [of _ existing] exI [of _ sp] exI [of _ slug]) (auto split: option.splits)
qed

lemma remove_category_Inr:
  "remove_category d i actor = Inr d' \<Longrightarrow> d' = delete_category i d"
  by (auto simp: remove_category_def Let_def result_simps)

lemma create_space_Inr_tables:
  assumes "create_space slugify fold_case fresh d i x actor = Inr d'"
  shows "(\<exists>slug. t_spaces d' = t_spaces d @ [new_space i slug x]) \<and> i \<notin> s_id ` set (t_spaces d) \<and>
    t_pages d' = t_pages d \<and> t_page_versions d' = t_page_versions d \<and> t_categories d' = t_categories d"
  using assms unfolding create_space_def Let_def
  apply (elim rbind_InrE)
  subgoal for a b c slug e
    by (intro conjI exI [of _ slug]) (auto split: if_split_asm option.split_asm option.split)
  done

lemma update_space_Inr_tables:
  assumes "update_space slugify fold_case fresh d i x actor = Inr d'"
  shows "(\<exists>slug. t_spaces d' = update_where (\<lambda>s. s_id s = i) (changed_space x slug) (t_spaces d)) \<and>
    (case sc_kinds x of None \<Rightarrow> True | Some ks \<Rightarrow> assert_kinds_may_be_disabled d i ks = Inr ()) \<and>
    t_pages d' = t_pages d \<and> t_page_versions d' = t_page_versions d \<and> t_categories d' = t_categories d"
  using assms unfolding update_space_def Let_def
  apply (elim rbind_InrE)
  subgoal for a existing c e f g slug h j
    by (intro conjI exI [of _ slug]) (auto split: if_split_asm option.split_asm option.split)
  done

lemma remove_page_Inr:
  assumes "remove_page d i uid actor now = Inr (d', p)"
  shows "t_page_versions d' = t_page_versions d \<and> t_spaces d' = t_spaces d \<and> t_categories d' = t_categories d \<and>
    (\<exists>q. t_pages d' = update_where (\<lambda>p. pg_id p = i)
        (\<lambda>p. p\<lparr>pg_deleted := Some now, pg_deleted_by := Some uid, pg_updated := now\<rparr>)
        (update_where q (\<lambda>p. p\<lparr>pg_parent := None, pg_updated := now\<rparr>) (t_pages d)))"
proof -
  have none: "update_where (\<lambda>p. False) f ps = ps" for f :: "page_row \<Rightarrow> page_row" and ps
    by (simp add: update_where_def)
  show ?thesis
    using assms unfolding remove_page_def Let_def
    apply (elim rbind_InrE)
    subgoal for existing u v
      by (intro conjI exI [of _ "\<lambda>q. pg_type existing = FOLDER \<and> pg_parent q = Some i \<and> pg_deleted q = None"])
        (auto simp: none)
    done
qed

lemma restore_page_Inr:
  "restore_page d i actor now = Inr d' \<Longrightarrow>
   d' = d\<lparr>t_pages := update_where (\<lambda>p. pg_id p = i)
     (\<lambda>p. p\<lparr>pg_deleted := None, pg_deleted_by := None, pg_updated := now\<rparr>) (t_pages d)\<rparr>"
  by (auto simp: restore_page_def result_simps)

lemma permanent_remove_page_Inr:
  "permanent_remove_page d i actor = Inr (d', p) \<Longrightarrow> d' = delete_pages (\<lambda>q. pg_id q = i) d"
  by (auto simp: permanent_remove_page_def result_simps)

lemma empty_trash_Inr:
  "empty_trash d actor = Inr (d', n) \<Longrightarrow> \<exists>q. d' = delete_pages q d"
  by (auto simp: empty_trash_def result_simps Let_def)

lemma save_draft_Inr:
  "save_draft d i uid x actor = Inr (d', r) \<Longrightarrow> \<exists>ds. d' = d\<lparr>t_page_drafts := ds\<rparr>"
  by (auto simp: save_draft_def result_simps Let_def)

lemma delete_draft_Inr:
  "delete_draft d i uid actor = Inr d' \<Longrightarrow> \<exists>ds. d' = d\<lparr>t_page_drafts := ds\<rparr>"
  by (auto simp: delete_draft_def result_simps)

lemma request_texts:
  assumes "page_request env d d'" and "distinct (map pg_id (t_pages d))"
  shows "texts_kept d d'"
  using assms
proof (cases rule: page_request.cases)
  case (Create i x author actor now p)
  from create_page_Inr [OF this] show ?thesis
    by (elim exE conjE) (rule texts_new, auto simp: new_page_def)
next
  case (Import read_file i media title sp cat status author actor now p)
  from import_markdown_Inr [OF this] obtain x d0 where
    c: "create_page env d i x author actor now = Inr (d0, p)" and
    t: "t_pages d' = t_pages d0" "t_page_versions d' = t_page_versions d0" by (elim exE conjE) rule
  from create_page_Inr [OF c] show ?thesis
    by (elim exE conjE) (rule texts_new, auto simp: new_page_def t)
next
  case Sync
  then show ?thesis by (intro texts_same) simp_all
next
  case (Remove i uid actor now p)
  from remove_page_Inr [OF this] show ?thesis
    by (elim exE conjE) (rule texts_same, simp_all add: texts_update_where page_text_def)
next
  case (Restore i actor now)
  from restore_page_Inr [OF this] show ?thesis
    by (intro texts_same) (simp_all add: texts_update_where page_text_def)
next
  case (Purge i actor p)
  from permanent_remove_page_Inr [OF this] show ?thesis using texts_delete_pages [OF assms(2)] by simp
next
  case (Empty actor n)
  from empty_trash_Inr [OF this] show ?thesis using texts_delete_pages [OF assms(2)] by (elim exE) simp
next
  case (Save_Draft i uid dr actor r)
  from save_draft_Inr [OF this] show ?thesis by (elim exE) (rule texts_same, simp_all)
next
  case (Delete_Draft i uid actor)
  from delete_draft_Inr [OF this] show ?thesis by (elim exE) (rule texts_same, simp_all)
next
  case (New_Category slugify i ci actor c)
  from create_category_Inr [OF this] show ?thesis by (elim conjE) (rule texts_same, simp_all)
next
  case (Change_Category slugify i cc actor)
  from update_category_Inr [OF this] show ?thesis by (elim exE conjE) (rule texts_same, simp_all)
next
  case (Remove_Category i actor)
  from remove_category_Inr [OF this] show ?thesis
    by (intro texts_same) (simp_all add: delete_category_def texts_update_where page_text_def)
next
  case (New_Space slugify fold_case fresh i si actor)
  from create_space_Inr_tables [OF this] show ?thesis by (intro texts_same) simp_all
next
  case (Change_Space slugify fold_case fresh i sc actor)
  from update_space_Inr_tables [OF this] show ?thesis by (intro texts_same) simp_all
next
  case (Remove_Space i)
  from remove_space_commit_Inr(1) [OF this] show ?thesis by (intro texts_same) simp_all
qed

section \<open>Histories\<close>

text \<open>
  What a running update has read is the page's text as long as its version is the page's version.
\<close>

definition pending_ok :: "bool \<Rightarrow> db \<Rightarrow> pending_update \<Rightarrow> bool" where
  "pending_ok ticks d u \<longleftrightarrow> pg_id (up_existing u) = up_page u \<and>
     uo_expected (up_options u) = Some (pg_version (up_existing u)) \<and>
     (\<forall>p \<in> set (t_pages d). pg_id p = up_page u \<longrightarrow> pg_version (up_existing u) \<le> pg_version p \<and>
        (pg_version p = pg_version (up_existing u) \<longrightarrow> pg_title p = pg_title (up_existing u) \<and>
           (ticks \<or> pg_content p = pg_content (up_existing u))))"

text \<open>Nothing happened to the page's text, or the text as it was is the newest version.\<close>

definition recorded :: "bool \<Rightarrow> page_row \<Rightarrow> page_row \<Rightarrow> page_version_row list \<Rightarrow> page_version_row list \<Rightarrow> bool" where
  "recorded ticks p p' vs vs' \<longleftrightarrow>
     (pg_version p' = pg_version p \<and> pg_title p' = pg_title p \<and> (ticks \<or> pg_content p' = pg_content p) \<and> vs' = vs) \<or>
     (pg_version p' = pg_version p + 1 \<and> (\<exists>v. vs' = vs @ [v] \<and> pv_version v = pg_version p \<and>
        pv_title v = pg_title p \<and> (ticks \<or> pv_content v = pg_content p)))"

definition step_recorded :: "bool \<Rightarrow> db \<Rightarrow> db \<Rightarrow> bool" where
  "step_recorded ticks d d' \<longleftrightarrow> (\<forall>p \<in> set (t_pages d). \<forall>p' \<in> set (t_pages d'). pg_id p' = pg_id p \<longrightarrow>
     recorded ticks p p' (versions_of d (pg_id p)) (versions_of d' (pg_id p)))"

lemma history_okD:
  assumes "history_ok d" and "p \<in> set (t_pages d)"
  shows "1 \<le> pg_version p" and "map pv_version (versions_of d (pg_id p)) = [1..<pg_version p]"
  using assms by (simp_all add: history_ok_def)

lemma versions_of_unknown: "history_ok d \<Longrightarrow> i \<notin> pg_id ` set (t_pages d) \<Longrightarrow> versions_of d i = []"
  unfolding history_ok_def versions_of_def by (subst filter_empty_conv) blast

lemma texts_kept_page:
  assumes "texts_kept d d'" and "p' \<in> set (t_pages d')"
  shows "(\<exists>p \<in> set (t_pages d). page_text p = page_text p' \<and> versions_of d' (pg_id p') = versions_of d (pg_id p')) \<or>
    (pg_version p' = 1 \<and> pg_id p' \<notin> pg_id ` set (t_pages d) \<and>
     (history_ok d \<longrightarrow> versions_of d' (pg_id p') = []))"
proof -
  obtain gone new where t: "map page_text (t_pages d') = filter (\<lambda>x. fst x \<notin> gone) (map page_text (t_pages d)) @ new"
    "t_page_versions d' = filter (\<lambda>v. pv_page v \<notin> gone) (t_page_versions d)"
    "new = [] \<or> (\<exists>i t c. new = [(i, t, c, 1)] \<and> i \<notin> pg_id ` set (t_pages d))"
    using assms(1) unfolding texts_kept_def by (elim exE conjE) rule
  have v: "versions_of d' i = (if i \<in> gone then [] else versions_of d i)" for i
    unfolding versions_of_def t(2) by (auto intro!: filter_cong simp: filter_empty_conv)
  have "page_text p' \<in> set (map page_text (t_pages d'))" using assms(2) by simp
  then have "page_text p' \<in> set (filter (\<lambda>x. fst x \<notin> gone) (map page_text (t_pages d)) @ new)"
    unfolding t(1) .
  then consider p where "p \<in> set (t_pages d)" "page_text p = page_text p'" "pg_id p' \<notin> gone"
    | "page_text p' \<in> set new"
    by (auto simp: page_text_def)
  then show ?thesis
  proof cases
    case 1
    then show ?thesis using v by auto
  next
    case 2
    with t(3) have "pg_version p' = 1" "pg_id p' \<notin> pg_id ` set (t_pages d)" by (auto simp: page_text_def)
    then show ?thesis using v [of "pg_id p'"] versions_of_unknown by auto
  qed
qed

lemma texts_kept_ids:
  assumes "texts_kept d d'" and "history_ok d"
  shows "distinct (map pg_id (t_pages d')) \<and> pv_page ` set (t_page_versions d') \<subseteq> pg_id ` set (t_pages d')"
proof -
  obtain gone new where t: "map page_text (t_pages d') = filter (\<lambda>x. fst x \<notin> gone) (map page_text (t_pages d)) @ new"
    "t_page_versions d' = filter (\<lambda>v. pv_page v \<notin> gone) (t_page_versions d)"
    "new = [] \<or> (\<exists>i t c. new = [(i, t, c, 1)] \<and> i \<notin> pg_id ` set (t_pages d))"
    using assms(1) unfolding texts_kept_def by (elim exE conjE) rule
  have fst: "map fst (map page_text ps) = map pg_id ps" for ps by (simp add: page_text_def)
  have "map fst (filter (\<lambda>x. fst x \<notin> gone) xs) = filter (\<lambda>i. i \<notin> gone) (map fst xs)"
    for xs :: "(ident \<times> string \<times> string \<times> nat) list"
    by (simp add: filter_map comp_def)
  with arg_cong [OF t(1), of "map fst"]
  have ids: "map pg_id (t_pages d') = filter (\<lambda>i. i \<notin> gone) (map pg_id (t_pages d)) @ map fst new"
    by (simp only: map_append fst)
  have distinct: "distinct (map pg_id (t_pages d'))"
    unfolding ids using assms(2) t(3) by (auto simp: history_ok_def)
  have "pv_page ` set (t_page_versions d') \<subseteq> set (map pg_id (t_pages d'))"
    unfolding ids t(2) using assms(2) unfolding history_ok_def by fastforce
  with distinct show ?thesis by simp
qed

lemma kept_history_ok: "texts_kept d d' \<Longrightarrow> history_ok d \<Longrightarrow> history_ok d'"
proof -
  assume kept: "texts_kept d d'" and ok: "history_ok d"
  have "1 \<le> pg_version p' \<and> map pv_version (versions_of d' (pg_id p')) = [1..<pg_version p']"
    if p': "p' \<in> set (t_pages d')" for p'
    using texts_kept_page [OF kept p']
  proof (elim disjE bexE conjE)
    fix p assume p: "p \<in> set (t_pages d)" "page_text p = page_text p'"
      "versions_of d' (pg_id p') = versions_of d (pg_id p')"
    then have "pg_version p = pg_version p'" "pg_id p = pg_id p'" by (simp_all add: page_text_def)
    with history_okD [OF ok p(1)] p(3) show ?thesis by simp
  qed (use ok in simp)
  with texts_kept_ids [OF kept ok] show ?thesis by (simp add: history_ok_def)
qed

lemma kept_recorded: "texts_kept d d' \<Longrightarrow> history_ok d \<Longrightarrow> step_recorded ticks d d'"
proof -
  assume kept: "texts_kept d d'" and ok: "history_ok d"
  have "recorded ticks p p' (versions_of d (pg_id p)) (versions_of d' (pg_id p))"
    if p: "p \<in> set (t_pages d)" and p': "p' \<in> set (t_pages d')" and id: "pg_id p' = pg_id p" for p p'
    using texts_kept_page [OF kept p']
  proof (elim disjE bexE conjE)
    fix q assume q: "q \<in> set (t_pages d)" "page_text q = page_text p'"
      "versions_of d' (pg_id p') = versions_of d (pg_id p')"
    then have "pg_id q = pg_id p" by (simp add: page_text_def id)
    then have "q = p" using ok q(1) p unique_key_eq unfolding history_ok_def by metis
    with q show ?thesis by (simp add: recorded_def page_text_def)
  next
    assume "pg_id p' \<notin> pg_id ` set (t_pages d)"
    with p id show ?thesis by simp
  qed
  then show ?thesis by (simp add: step_recorded_def)
qed

lemma kept_pending:
  assumes "texts_kept d d'" and "pending_ok ticks d u"
    and "up_page u \<in> pg_id ` set (t_pages d') \<longrightarrow> up_page u \<in> pg_id ` set (t_pages d)"
  shows "pending_ok ticks d' u"
proof -
  have "pg_version (up_existing u) \<le> pg_version p' \<and>
        (pg_version p' = pg_version (up_existing u) \<longrightarrow> pg_title p' = pg_title (up_existing u) \<and>
           (ticks \<or> pg_content p' = pg_content (up_existing u)))"
    if p': "p' \<in> set (t_pages d')" and id: "pg_id p' = up_page u" for p'
    using texts_kept_page [OF assms(1) p']
  proof (elim disjE bexE conjE)
    fix q assume q: "q \<in> set (t_pages d)" "page_text q = page_text p'"
    then have same: "pg_title q = pg_title p'" "pg_content q = pg_content p'" "pg_version q = pg_version p'"
      and "pg_id q = up_page u" by (simp_all add: page_text_def id)
    with bspec [of "set (t_pages d)" _ q, OF _ q(1)] assms(2) show ?thesis
      unfolding pending_ok_def same [symmetric] by blast
  next
    assume "pg_id p' \<notin> pg_id ` set (t_pages d)"
    with assms(3) p' id show ?thesis by force
  qed
  with assms(2) show ?thesis by (simp add: pending_ok_def)
qed

section \<open>Updates\<close>

lemma update_begin_Inr:
  assumes "update_begin d i x opt = Inr (e, sp)"
  shows "live_page d i = Some e \<and> e \<in> set (t_pages d) \<and> pg_id e = i \<and> pg_deleted e = None \<and>
    (uo_expected opt = None \<or> uo_expected opt = Some (pg_version e)) \<and>
    (if assignment_changed x
     then resolve_page_space d (pc_space x) (pc_category x) (pc_parent x) (Some e) = Inr sp
     else sp = pg_space e)"
proof -
  obtain u v where "live_page d i = Some e" "\<not> (uo_expected opt \<noteq> None \<and> uo_expected opt \<noteq> Some (pg_version e))"
    "(if assignment_changed x
            then resolve_page_space d (pc_space x) (pc_category x) (pc_parent x) (Some e)
            else Inr (pg_space e)) = Inr sp"
    using assms unfolding update_begin_def
    apply (elim rbind_InrE)
    subgoal for f g h k l m by (rule that) (auto split del: if_split)
    done
  then show ?thesis by (auto simp: live_page_def dest: find_SomeD split: if_splits)
qed

definition commit_hits :: "ident \<Rightarrow> update_options \<Rightarrow> page_row \<Rightarrow> bool" where
  "commit_hits i opt p \<longleftrightarrow> pg_id p = i \<and> pg_deleted p = None \<and>
     (uo_expected opt = None \<or> uo_expected opt = Some (pg_version p))"

lemma update_commit_Inr:
  assumes "update_commit env d vid i x opt e sp now = Inr (d', p')"
  shows "\<exists>p ts pts. List.find (commit_hits i opt) (t_pages d) = Some p \<and> p' = changed_page x e sp now p \<and>
    sp \<in> s_id ` set (t_spaces d) \<and>
    d' = d\<lparr>t_page_versions := t_page_versions d @ [snapshot_of vid e x opt],
      t_pages := update_where (commit_hits i opt) (changed_page x e sp now) (t_pages d),
      t_tags := ts, t_page_tags := pts\<rparr>"
proof -
  have hits: "(\<lambda>p. pg_id p = i \<and> pg_deleted p = None \<and>
      (uo_expected opt = None \<or> uo_expected opt = Some (pg_version p))) = commit_hits i opt"
    by (simp add: commit_hits_def fun_eq_iff)
  show ?thesis
    using assms unfolding update_commit_def Let_def hits
    apply (elim rbind_InrE)
    subgoal for p u r by (cases r) auto
    done
qed

lemma changed_page_id [simp]: "pg_id (changed_page x e sp now p) = pg_id p"
  by (simp add: changed_page_def)

lemma changed_page_version [simp]: "pg_version (changed_page x e sp now p) = pg_version e + 1"
  by (simp add: changed_page_def)

lemma commit_pages:
  assumes "distinct (map pg_id (t_pages d))" and "update_commit env d vid i x opt e sp now = Inr (d', p')"
  obtains p where "p \<in> set (t_pages d)" and "commit_hits i opt p"
    and "t_pages d' = update_where (\<lambda>q. pg_id q = i) (changed_page x e sp now) (t_pages d)"
    and "t_page_versions d' = t_page_versions d @ [snapshot_of vid e x opt]"
proof -
  obtain p ts pts where p: "List.find (commit_hits i opt) (t_pages d) = Some p"
    and d': "d' = d\<lparr>t_page_versions := t_page_versions d @ [snapshot_of vid e x opt],
      t_pages := update_where (commit_hits i opt) (changed_page x e sp now) (t_pages d),
      t_tags := ts, t_page_tags := pts\<rparr>"
    using update_commit_Inr [OF assms(2)] by blast
  from find_SomeD [OF p] have hit: "commit_hits i opt p" "p \<in> set (t_pages d)" by blast+
  have "commit_hits i opt q \<longleftrightarrow> pg_id q = i" if "q \<in> set (t_pages d)" for q
  proof
    assume "pg_id q = i"
    then have "pg_id q = pg_id p" using hit(1) by (simp add: commit_hits_def)
    then have "q = p" using assms(1) that hit(2) unique_key_eq by metis
    with hit(1) show "commit_hits i opt q" by simp
  qed (simp add: commit_hits_def)
  then have "update_where (commit_hits i opt) f (t_pages d) = update_where (\<lambda>q. pg_id q = i) f (t_pages d)" for f
    unfolding update_where_def by (intro map_cong refl) simp
  with d' hit that show thesis by simp
qed

lemma snapshot_fields [simp]:
  "pv_page (snapshot_of vid e x opt) = pg_id e" "pv_title (snapshot_of vid e x opt) = pg_title e"
  "pv_content (snapshot_of vid e x opt) = pg_content e" "pv_version (snapshot_of vid e x opt) = pg_version e"
  by (simp_all add: snapshot_of_def)

text \<open>What a commit of a guarded update finds: the page as it was read, and where it leaves it.\<close>

lemma guarded_commit:
  assumes ok: "history_ok d" and u: "pending_ok ticks d u"
    and commit: "update_commit env d vid (up_page u) x (up_options u) (up_existing u) sp now = Inr (d', p')"
  obtains p e where "p \<in> set (t_pages d)" and "pg_id p = up_page u" and "e = up_existing u" and "pg_id e = pg_id p"
    and "pg_version e = pg_version p" and "pg_title e = pg_title p" and "ticks \<or> pg_content e = pg_content p"
    and "t_pages d' = update_where (\<lambda>q. pg_id q = pg_id p) (changed_page x e sp now) (t_pages d)"
    and "\<forall>i. versions_of d' i =
      (if i = pg_id p then versions_of d i @ [snapshot_of vid e x (up_options u)] else versions_of d i)"
    and "t_page_versions d' = t_page_versions d @ [snapshot_of vid e x (up_options u)]"
proof -
  obtain p where p: "p \<in> set (t_pages d)" "commit_hits (up_page u) (up_options u) p"
    and pages: "t_pages d' = update_where (\<lambda>q. pg_id q = up_page u) (changed_page x (up_existing u) sp now) (t_pages d)"
    and vs: "t_page_versions d' = t_page_versions d @ [snapshot_of vid (up_existing u) x (up_options u)]"
    using commit_pages [OF _ commit] ok [unfolded history_ok_def, THEN conjunct1] .
  have id: "pg_id p = up_page u" "pg_version (up_existing u) = pg_version p"
    using p(2) u by (simp_all add: commit_hits_def pending_ok_def)
  moreover have "pg_id (up_existing u) = pg_id p" "pg_title (up_existing u) = pg_title p"
    "ticks \<or> pg_content (up_existing u) = pg_content p"
    using u p(1) id unfolding pending_ok_def by simp_all metis
  moreover have "versions_of d' i = (if i = pg_id p
      then versions_of d i @ [snapshot_of vid (up_existing u) x (up_options u)] else versions_of d i)" for i
    using calculation(3) by (simp add: versions_of_def vs)
  ultimately show thesis
    using that [of p "up_existing u"] p(1) pages vs by simp
qed

lemma guarded_commit_step:
  assumes ok: "history_ok d" and u: "pending_ok ticks d u"
    and commit: "update_commit env d vid (up_page u) x (up_options u) (up_existing u) sp now = Inr (d', p')"
  shows "history_ok d' \<and> step_recorded ticks d d' \<and> (\<forall>u'. pending_ok ticks d u' \<longrightarrow> pending_ok ticks d' u')"
proof -
  obtain p e where p: "p \<in> set (t_pages d)" "pg_id p = up_page u" "e = up_existing u" "pg_id e = pg_id p"
    and same: "pg_version e = pg_version p" "pg_title e = pg_title p" "ticks \<or> pg_content e = pg_content p"
    and pages: "t_pages d' = update_where (\<lambda>q. pg_id q = pg_id p) (changed_page x e sp now) (t_pages d)"
    and vs: "\<forall>i. versions_of d' i =
      (if i = pg_id p then versions_of d i @ [snapshot_of vid e x (up_options u)] else versions_of d i)"
    and all: "t_page_versions d' = t_page_versions d @ [snapshot_of vid e x (up_options u)]"
    using guarded_commit [OF assms] .
  have distinct: "distinct (map pg_id (t_pages d))" using ok by (simp add: history_ok_def)
  have ids: "map pg_id (t_pages d') = map pg_id (t_pages d)" unfolding pages by (rule map_update_where) simp
  have page: "\<exists>q0 \<in> set (t_pages d). pg_id q = pg_id q0 \<and> (if pg_id q = pg_id p then q0 = p \<and>
      pg_version q = pg_version p + 1 else q = q0)" if "q \<in> set (t_pages d')" for q
  proof -
    from that obtain q0 where q0: "q0 \<in> set (t_pages d)" "q = (if pg_id q0 = pg_id p then changed_page x e sp now q0 else q0)"
      unfolding pages set_update_where by blast
    then have "pg_id q0 = pg_id p \<Longrightarrow> q0 = p" using unique_key_eq [OF distinct] p(1) by blast
    with q0 show ?thesis by (intro bexI [of _ q0]) (auto simp: same)
  qed
  have "1 \<le> pg_version q \<and> map pv_version (versions_of d' (pg_id q)) = [1..<pg_version q]"
    if q: "q \<in> set (t_pages d')" for q
  proof -
    obtain q0 where q0: "q0 \<in> set (t_pages d)" "pg_id q = pg_id q0"
      "if pg_id q = pg_id p then q0 = p \<and> pg_version q = pg_version p + 1 else q = q0"
      using page [OF q] by blast
    note h = history_okD [OF ok q0(1)]
    show ?thesis
    proof (cases "pg_id q = pg_id p")
      case True
      with q0 have "pg_version q = Suc (pg_version p)" "q0 = p" by simp_all
      with h True show ?thesis by (simp add: vs [rule_format] same)
    next
      case False
      then have "q = q0" using q0(3) by simp
      then show ?thesis using h False by (simp only: vs [rule_format] if_False)
    qed
  qed
  moreover have "pv_page ` set (t_page_versions d') \<subseteq> pg_id ` set (t_pages d')"
    using ok p(1,4) arg_cong [OF ids, of set] by (auto simp: history_ok_def all)
  ultimately have ok': "history_ok d'" using distinct ids by (simp add: history_ok_def)
  have "recorded ticks q0 q (versions_of d (pg_id q0)) (versions_of d' (pg_id q0))"
    if q0: "q0 \<in> set (t_pages d)" and q: "q \<in> set (t_pages d')" and id: "pg_id q = pg_id q0" for q0 q
  proof -
    obtain q1 where q1: "q1 \<in> set (t_pages d)" "pg_id q = pg_id q1"
      "if pg_id q = pg_id p then q1 = p \<and> pg_version q = pg_version p + 1 else q = q1"
      using page [OF q] by blast
    have "q1 = q0" by (rule unique_key_eq [OF distinct q1(1) q0]) (simp add: q1(2) [symmetric] id)
    with q1 id same(3) show ?thesis
      by (cases "pg_id q = pg_id p") (auto simp: recorded_def vs [rule_format] same(1,2))
  qed
  then have rec: "step_recorded ticks d d'" by (simp add: step_recorded_def)
  have "pending_ok ticks d' u'" if u': "pending_ok ticks d u'" for u'
  proof -
    have "pg_version (up_existing u') \<le> pg_version q \<and>
        (pg_version q = pg_version (up_existing u') \<longrightarrow> pg_title q = pg_title (up_existing u') \<and>
           (ticks \<or> pg_content q = pg_content (up_existing u')))"
      if q: "q \<in> set (t_pages d')" and id: "pg_id q = up_page u'" for q
    proof -
      obtain q0 where q0: "q0 \<in> set (t_pages d)" "pg_id q = pg_id q0"
        "if pg_id q = pg_id p then q0 = p \<and> pg_version q = pg_version p + 1 else q = q0"
        using page [OF q] by blast
      have "pg_id q0 = up_page u'" using q0(2) id by simp
      with u' q0(1) have "pg_version (up_existing u') \<le> pg_version q0"
        "pg_version q0 = pg_version (up_existing u') \<longrightarrow> pg_title q0 = pg_title (up_existing u') \<and>
           (ticks \<or> pg_content q0 = pg_content (up_existing u'))"
        unfolding pending_ok_def by blast+
      with q0(3) show ?thesis by (cases "pg_id q = pg_id p") simp_all
    qed
    with u' show ?thesis by (simp add: pending_ok_def)
  qed
  with ok' rec show ?thesis by blast
qed

lemma begin_pending:
  assumes "history_ok d" and "update_begin d i x opt = Inr (e, sp)" and "uo_expected opt \<noteq> None"
  shows "pending_ok ticks d \<lparr>up_page = i, up_change = x, up_options = opt, up_existing = e, up_space = sp\<rparr>"
proof -
  from update_begin_Inr [OF assms(2)] assms(3)
  have e: "e \<in> set (t_pages d)" "pg_id e = i" "uo_expected opt = Some (pg_version e)" by simp_all
  have "p = e" if "p \<in> set (t_pages d)" "pg_id p = i" for p
    using assms(1) that e unique_key_eq unfolding history_ok_def by metis
  then have "pg_version e \<le> pg_version p \<and> (pg_version p = pg_version e \<longrightarrow> pg_title p = pg_title e \<and>
      (ticks \<or> pg_content p = pg_content e))" if "p \<in> set (t_pages d)" "pg_id p = i" for p
    using that by (metis order_refl)
  then show ?thesis by (simp add: pending_ok_def e(2,3))
qed

lemma tick_step:
  assumes ok: "history_ok d" and tick: "toggle_page_checkbox d i index checked actor now = Inr (d', p')"
  shows "history_ok d' \<and> step_recorded True d d' \<and> (\<forall>u. pending_ok True d u \<longrightarrow> pending_ok True d' u)"
proof -
  obtain content where d': "d' = d\<lparr>t_pages := update_where (\<lambda>p. pg_id p = i)
      (\<lambda>p. p\<lparr>pg_content := content, pg_updated := now\<rparr>) (t_pages d)\<rparr>"
    using tick by (auto simp: toggle_page_checkbox_def Let_def result_simps)
  have distinct: "distinct (map pg_id (t_pages d))" using ok by (simp add: history_ok_def)
  have page: "\<exists>p \<in> set (t_pages d). pg_id q = pg_id p \<and> pg_version q = pg_version p \<and> pg_title q = pg_title p"
    if "q \<in> set (t_pages d')" for q
    using that by (auto simp: d' set_update_where)
  have ids: "map pg_id (t_pages d') = map pg_id (t_pages d)"
    by (simp add: d') (rule map_update_where, simp)
  have vs: "versions_of d' = versions_of d" by (simp add: d' versions_of_def fun_eq_iff)
  have "history_ok d'"
    unfolding history_ok_def
  proof (intro conjI ballI)
    show "distinct (map pg_id (t_pages d'))" using distinct ids by simp
    show "pv_page ` set (t_page_versions d') \<subseteq> pg_id ` set (t_pages d')"
      using ok arg_cong [OF ids, of set] by (simp add: history_ok_def d')
    fix q assume "q \<in> set (t_pages d')"
    from page [OF this] obtain p where p: "p \<in> set (t_pages d)" "pg_id q = pg_id p" "pg_version q = pg_version p"
      by blast
    with history_okD [OF ok p(1)] vs
    show "1 \<le> pg_version q" "map pv_version (versions_of d' (pg_id q)) = [1..<pg_version q]" by simp_all
  qed
  moreover have "recorded True p q (versions_of d (pg_id p)) (versions_of d' (pg_id p))"
    if p: "p \<in> set (t_pages d)" and q: "q \<in> set (t_pages d')" and id: "pg_id q = pg_id p" for p q
  proof -
    obtain r where r: "r \<in> set (t_pages d)" "pg_id q = pg_id r" "pg_version q = pg_version r" "pg_title q = pg_title r"
      using page [OF q] by blast
    have "r = p" by (rule unique_key_eq [OF distinct r(1) p]) (simp add: r(2) [symmetric] id)
    with r show ?thesis by (simp add: recorded_def vs)
  qed
  then have "step_recorded True d d'" by (simp add: step_recorded_def)
  moreover have "pending_ok True d' u" if "pending_ok True d u" for u
    using that page unfolding pending_ok_def by fastforce
  ultimately show ?thesis by blast
qed

lemma history_step_inv:
  assumes "history_step env True ticks s s'" and "history_ok (fst s) \<and> (\<forall>u \<in> set (snd s). pending_ok ticks (fst s) u)"
  shows "(history_ok (fst s') \<and> (\<forall>u \<in> set (snd s'). pending_ok ticks (fst s') u)) \<and>
    step_recorded ticks (fst s) (fst s')"
  using assms
proof (cases rule: history_step.cases)
  case (Begin d i x opt e sp us)
  with assms(2) show ?thesis
    using begin_pending [of d i x opt e sp ticks] kept_recorded [OF texts_same [OF refl refl]] by auto
next
  case (Commit u us d vid now d' p)
  with assms(2) have "pending_ok ticks d u" "history_ok d" by simp_all
  from guarded_commit_step [OF this(2,1) Commit(4)] Commit assms(2) show ?thesis
    by (auto dest: notin_set_remove1 [THEN contrapos_nn, rotated] in_set_remove1 [THEN iffD1, rotated])
next
  case (Abort d us u)
  with assms(2) show ?thesis
    using kept_recorded [OF texts_same [OF refl refl]] set_remove1_subset [of u us] by auto
next
  case (Request d d' us)
  with assms(2) have ok: "history_ok d" by simp
  then have kept: "texts_kept d d'" using request_texts [OF Request(3)] by (simp add: history_ok_def)
  from kept_history_ok [OF kept ok] kept_recorded [OF kept ok] kept_pending [OF kept] Request assms(2)
  show ?thesis by simp
next
  case (Tick d i index checked actor now d' p us)
  with assms(2) have ok: "history_ok d" by simp
  from tick_step [OF ok Tick(4)] Tick assms(2) show ?thesis by simp
qed

lemma history_steps_inv:
  assumes "(history_step env True ticks)\<^sup>*\<^sup>* s s'"
    and "history_ok (fst s) \<and> (\<forall>u \<in> set (snd s). pending_ok ticks (fst s) u)"
  shows "history_ok (fst s') \<and> (\<forall>u \<in> set (snd s'). pending_ok ticks (fst s') u)"
  using assms by (induction rule: rtranclp_induct) (use history_step_inv in blast)+

text \<open>
  C4: When every update carries the version it was made from, no text of a page is lost, however the
  requests of pages, categories and spaces interleave with the checks and transactions of updates:
  in every reachable state each page has exactly the versions 1 to its own minus one, in this order,
  and a step that changes the title or the content of a page stores what the page said before as the
  version with its number. If tasks may be ticked meanwhile, the same holds up to the content, which
  a tick overwrites without a version.
\<close>

theorem guarded_history_complete:
  assumes "history_ok d0"
    and "(history_step env True ticks)\<^sup>*\<^sup>* (d0, []) (d, us)"
    and "history_step env True ticks (d, us) (d', us')"
  shows "history_ok d' \<and> step_recorded ticks d d'"
proof -
  have "history_ok d \<and> (\<forall>u \<in> set us. pending_ok ticks d u)"
    using history_steps_inv [OF assms(2)] assms(1) by simp
  with history_step_inv [OF assms(3)] show ?thesis by simp
qed

definition rewrite :: "string \<Rightarrow> page_change" where
  "rewrite s = \<lparr>pc_title = None, pc_space = None, pc_content = Some s, pc_excerpt = None, pc_status = None,
     pc_public = None, pc_mcp = None, pc_type = None, pc_category = None, pc_parent = None, pc_tags = None,
     pc_sort_order = None, pc_message = None\<rparr>"

definition internal :: "nat option \<Rightarrow> update_options" where
  "internal v = \<lparr>uo_expected = v, uo_editor = None, uo_actor = None\<rparr>"

lemma sample_history_ok: "history_ok sample_db"
  by (simp add: history_ok_def sample_defs versions_of_def)

lemma sample_begin:
  "update_begin sample_db ''p3'' (rewrite s) (internal None) = Inr (sample_page ''p3'' (Some ''p2''), ''sp'')"
  "update_begin sample_db ''p3'' (rewrite s) (internal (Some 1)) = Inr (sample_page ''p3'' (Some ''p2''), ''sp'')"
  by (simp_all add: update_begin_def live_page_def internal_def rewrite_def assignment_changed_def sample_defs
      or_throw_def)

theorem guarded_history_complete_witness:
  "\<exists>d'. update_commit sample_env sample_db ''v'' ''p3'' (rewrite ''new'') (internal (Some 1))
      (sample_page ''p3'' (Some ''p2'')) ''sp'' 7 = Inr d' \<and> history_ok (fst d') \<and> length (t_page_versions (fst d')) = 1"
proof -
  have c: "case update_commit sample_env sample_db ''v'' ''p3'' (rewrite ''new'') (internal (Some 1))
      (sample_page ''p3'' (Some ''p2'')) ''sp'' 7 of Inl e \<Rightarrow> False | Inr r \<Rightarrow> length (t_page_versions (fst r)) = 1"
    by code_simp
  obtain d' p where r: "update_commit sample_env sample_db ''v'' ''p3'' (rewrite ''new'') (internal (Some 1))
      (sample_page ''p3'' (Some ''p2'')) ''sp'' 7 = Inr (d', p)" "length (t_page_versions d') = 1"
    using c by (auto split: sum.splits)
  let ?u = "\<lparr>up_page = ''p3'', up_change = rewrite ''new'', up_options = internal (Some 1),
      up_existing = sample_page ''p3'' (Some ''p2''), up_space = ''sp''\<rparr>"
  have "history_step sample_env True False (sample_db, []) (sample_db, [] @ [?u])"
    by (rule history_step.Begin) (simp_all only: sample_begin, simp add: internal_def)
  then have "(history_step sample_env True False)\<^sup>*\<^sup>* (sample_db, []) (sample_db, [?u])" by simp
  moreover have "history_step sample_env True False (sample_db, [?u]) (d', remove1 ?u [?u])"
    by (rule history_step.Commit [where vid = "''v''" and now = 7 and p = p]) (simp_all add: r(1) del: One_nat_def)
  ultimately have "history_ok d' \<and> step_recorded False sample_db d'"
    by (rule guarded_history_complete [OF sample_history_ok])
  with r show ?thesis by auto
qed

section \<open>Updates without an expected version\<close>

lemma filter_key_one:
  "distinct (map key xs) \<Longrightarrow> x \<in> set xs \<Longrightarrow> key x = k \<Longrightarrow> filter (\<lambda>r. key r = k) xs = [x]"
proof (induction xs)
  case (Cons a xs)
  then show ?case by (cases "a = x") (auto simp: filter_empty_conv image_iff)
qed simp

lemma unguarded_commit:
  assumes "distinct (map pg_id (t_pages d))" and "pg_id e = i"
    and "update_commit env d vid i x opt e sp now = Inr (d', p')"
  shows "(\<exists>p \<in> set (t_pages d). pg_id p = i) \<and>
    t_pages d' = update_where (\<lambda>q. pg_id q = i) (changed_page x e sp now) (t_pages d) \<and>
    versions_of d' i = versions_of d i @ [snapshot_of vid e x opt] \<and> distinct (map pg_id (t_pages d'))"
proof -
  obtain p where p: "p \<in> set (t_pages d)" "commit_hits i opt p"
    and pages: "t_pages d' = update_where (\<lambda>q. pg_id q = i) (changed_page x e sp now) (t_pages d)"
    and vs: "t_page_versions d' = t_page_versions d @ [snapshot_of vid e x opt]"
    using commit_pages [OF assms(1,3)] .
  have "map pg_id (t_pages d') = map pg_id (t_pages d)" unfolding pages by (rule map_update_where) simp
  moreover have "versions_of d' i = versions_of d i @ [snapshot_of vid e x opt]"
    by (simp add: versions_of_def vs assms(2))
  ultimately show ?thesis using p assms(1) pages by (auto simp: commit_hits_def)
qed

text \<open>
  Two editors of one page that send no expected version (the REST interface never does) both
  succeed, and the text of the first is gone: it is neither the page nor any of its versions. The
  version both started from is stored twice under the same number, so the history is no longer
  complete.
\<close>

theorem unguarded_update_loses_text:
  assumes "history_ok d"
    and "update_begin d i x1 o1 = Inr (e1, sp1)" and "update_begin d i x2 o2 = Inr (e2, sp2)"
    and "uo_expected o1 = None" and "uo_expected o2 = None"
    and "pc_content x1 = Some c1" and "pc_content x2 = Some c2"
    and "update_commit env d v1 i x1 o1 e1 sp1 t1 = Inr (d1, p1)"
    and "update_commit env d1 v2 i x2 o2 e2 sp2 t2 = Inr (d2, p2)"
  shows "map pg_content (filter (\<lambda>p. pg_id p = i) (t_pages d1)) = [c1] \<and>
    map pg_content (filter (\<lambda>p. pg_id p = i) (t_pages d2)) = [c2] \<and>
    map pv_content (versions_of d2 i) = map pv_content (versions_of d i) @ [pg_content e1, pg_content e1] \<and>
    map pv_version (versions_of d2 i) = [1..<pg_version e1] @ [pg_version e1, pg_version e1] \<and>
    \<not> history_ok d2"
proof -
  have e: "live_page d i = Some e1" "live_page d i = Some e2" "e1 \<in> set (t_pages d)" "pg_id e1 = i"
    using update_begin_Inr [OF assms(2)] update_begin_Inr [OF assms(3)] by blast+
  then have same: "e2 = e1" by simp
  have distinct: "distinct (map pg_id (t_pages d))" using assms(1) by (simp add: history_ok_def)
  from unguarded_commit [OF distinct e(4) assms(8)] have c1: "\<exists>p \<in> set (t_pages d). pg_id p = i"
    "t_pages d1 = update_where (\<lambda>q. pg_id q = i) (changed_page x1 e1 sp1 t1) (t_pages d)"
    "versions_of d1 i = versions_of d i @ [snapshot_of v1 e1 x1 o1]" "distinct (map pg_id (t_pages d1))" by blast+
  from unguarded_commit [OF c1(4) e(4) assms(9) [unfolded same]] have c2: "\<exists>p \<in> set (t_pages d1). pg_id p = i"
    "t_pages d2 = update_where (\<lambda>q. pg_id q = i) (changed_page x2 e1 sp2 t2) (t_pages d1)"
    "versions_of d2 i = versions_of d1 i @ [snapshot_of v2 e1 x2 o2]" by blast+
  have one: "map pg_content (filter (\<lambda>q. pg_id q = i) (update_where (\<lambda>q. pg_id q = i) (changed_page x e sp now) ps)) = [c]"
    if ps: "distinct (map pg_id ps)" "\<exists>p \<in> set ps. pg_id p = i" and "pc_content x = Some c" for x e sp now ps c
  proof -
    have "map pg_content (filter (\<lambda>q. pg_id q = i) (update_where (\<lambda>q. pg_id q = i) (changed_page x e sp now) ps)) =
        map (\<lambda>q. c) (filter (\<lambda>q. pg_id q = i) ps)"
      using \<open>pc_content x = Some c\<close> by (induction ps) (simp_all add: update_where_def changed_page_def given_def)
    moreover obtain p where "p \<in> set ps" "pg_id p = i" using ps(2) by blast
    then have "filter (\<lambda>q. pg_id q = i) ps = [p]" using filter_key_one [OF ps(1)] by blast
    ultimately show ?thesis by simp
  qed
  have now: "map pg_content (filter (\<lambda>p. pg_id p = i) (t_pages d1)) = [c1]"
    "map pg_content (filter (\<lambda>p. pg_id p = i) (t_pages d2)) = [c2]"
    unfolding c2(2) using one [OF c1(4) c2(1) assms(7)] one [OF distinct c1(1) assms(6)]
    by (simp_all only: c1(2))
  have contents: "map pv_content (versions_of d2 i) = map pv_content (versions_of d i) @ [pg_content e1, pg_content e1]"
    by (simp add: c1(3) c2(3))
  have versions: "map pv_version (versions_of d2 i) = [1..<pg_version e1] @ [pg_version e1, pg_version e1]"
    using history_okD(2) [OF assms(1) e(3)] by (simp add: c1(3) c2(3) e(4))
  have "\<not> history_ok d2"
  proof
    assume ok: "history_ok d2"
    obtain p where "p \<in> set (t_pages d2)" "pg_id p = i"
      using c2(1) unfolding c2(2) set_update_where by fastforce
    with history_okD(2) [OF ok] have "map pv_version (versions_of d2 i) = [1..<pg_version p]" by blast
    then have "distinct (map pv_version (versions_of d2 i))" by simp
    then show False by (simp add: versions)
  qed
  with now contents versions show ?thesis by blast
qed

theorem unguarded_update_loses_text_witness:
  "\<exists>r1 r2. update_commit sample_env sample_db ''v'' ''p3'' (rewrite ''first'') (internal None)
      (sample_page ''p3'' (Some ''p2'')) ''sp'' 7 = Inr r1 \<and>
    update_commit sample_env (fst r1) ''w'' ''p3'' (rewrite ''second'') (internal None)
      (sample_page ''p3'' (Some ''p2'')) ''sp'' 8 = Inr r2 \<and> \<not> history_ok (fst r2)"
proof -
  have c: "case update_commit sample_env sample_db ''v'' ''p3'' (rewrite ''first'') (internal None)
      (sample_page ''p3'' (Some ''p2'')) ''sp'' 7 of Inl e \<Rightarrow> False
    | Inr r \<Rightarrow> (case update_commit sample_env (fst r) ''w'' ''p3'' (rewrite ''second'') (internal None)
      (sample_page ''p3'' (Some ''p2'')) ''sp'' 8 of Inl e \<Rightarrow> False | Inr r' \<Rightarrow> True)"
    by code_simp
  obtain d1 p1 d2 p2 where r: "update_commit sample_env sample_db ''v'' ''p3'' (rewrite ''first'') (internal None)
      (sample_page ''p3'' (Some ''p2'')) ''sp'' 7 = Inr (d1, p1)"
    "update_commit sample_env d1 ''w'' ''p3'' (rewrite ''second'') (internal None)
      (sample_page ''p3'' (Some ''p2'')) ''sp'' 8 = Inr (d2, p2)"
    using c by (auto split: sum.splits)
  have "uo_expected (internal None) = None" "pc_content (rewrite s) = Some s" for s
    by (simp_all add: internal_def rewrite_def)
  from unguarded_update_loses_text [OF sample_history_ok sample_begin(1) sample_begin(1) this(1) this(1)
      this(2) this(2) r] r show ?thesis by auto
qed

end
