(* ===== verification/Notes.thy ===== *)
theory Notes
  imports Pages
begin

text \<open>
  \<^verbatim>\<open>apps/api/src/modules/notes/notes.service.ts\<close>: notes, personal or in a space, their sharing with
  single users and their promotion to wiki pages. A request carries the user's id and, from the
  REST interface, the user as actor; without an actor ownership and shares decide alone.
  \<open>likes\<close> is the database's case-insensitive search in a text.
\<close>

section \<open>Finding notes\<close>

definition live_note :: "db \<Rightarrow> ident \<Rightarrow> note_row option" where
  "live_note d i = List.find (\<lambda>n. n_id n = i \<and> n_deleted n = None) (t_notes d)"

definition shared_with :: "db \<Rightarrow> ident \<Rightarrow> ident \<Rightarrow> bool" where
  "shared_with d i uid \<longleftrightarrow> (\<exists>s \<in> set (t_note_shares d). sh_note s = i \<and> sh_user s = uid)"

definition tags_of_note :: "db \<Rightarrow> ident \<Rightarrow> string list" where
  "tags_of_note d i = List.map_filter (\<lambda>r. if nt_note r = i
     then map_option tag_name (List.find (\<lambda>t. tag_id t = nt_tag r) (t_tags d)) else None) (t_note_tags d)"

datatype note_scope = Mine | Shared | All_Notes

record note_query =
  nq_scope :: note_scope
  nq_space :: "ident option"
  nq_status :: "note_status option"
  nq_text :: "string option"

definition note_matches ::
    "(string \<Rightarrow> string \<Rightarrow> bool) \<Rightarrow> db \<Rightarrow> ident \<Rightarrow> note_query \<Rightarrow> bool \<Rightarrow> note_row \<Rightarrow> bool" where
  "note_matches likes d uid q with_actor n \<longleftrightarrow>
     (case nq_scope q of
        Mine \<Rightarrow> n_owner n = uid
      | Shared \<Rightarrow> n_owner n \<noteq> uid \<and> shared_with d (n_id n) uid
      | All_Notes \<Rightarrow> n_owner n = uid \<or> shared_with d (n_id n) uid \<or> (with_actor \<and> n_space n \<noteq> None)) \<and>
     n_deleted n = None \<and>
     (truthy (nq_space q) \<longrightarrow> n_space n = nq_space q) \<and>
     (nq_status q \<noteq> None \<longrightarrow> Some (n_status n) = nq_status q) \<and>
     (truthy (nq_text q) \<longrightarrow>
        (case n_title n of None \<Rightarrow> False | Some t \<Rightarrow> likes (the (nq_text q)) t) \<or>
        likes (the (nq_text q)) (n_content n) \<or>
        (\<exists>t \<in> set (tags_of_note d (n_id n)). likes (the (nq_text q)) t))"

text \<open>In the database's order (latest change first).\<close>

definition find_all_notes ::
    "(string \<Rightarrow> string \<Rightarrow> bool) \<Rightarrow> db \<Rightarrow> ident \<Rightarrow> note_query \<Rightarrow> auth_user option \<Rightarrow> note_row list result" where
  "find_all_notes likes d uid q actor =
     (let hits = filter (note_matches likes d uid q (actor \<noteq> None)) (t_notes d) in
      rbind (allowed_for d actor Notes Read Note (map n_id hits)) (\<lambda>allowed.
      Inr (filter (\<lambda>n. n_id n \<in> set allowed) hits)))"

definition find_note_trash :: "db \<Rightarrow> ident \<Rightarrow> auth_user option \<Rightarrow> note_row list result" where
  "find_note_trash d uid actor =
     (let hits = filter (\<lambda>n. n_owner n = uid \<and> n_deleted n \<noteq> None) (t_notes d) in
      rbind (allowed_for d actor Notes Delete Note (map n_id hits)) (\<lambda>allowed.
      Inr (sort_key (\<lambda>n. - (case n_deleted n of None \<Rightarrow> 0 | Some t \<Rightarrow> t))
        (filter (\<lambda>n. n_id n \<in> set allowed) hits))))"

definition find_one_note :: "db \<Rightarrow> ident \<Rightarrow> ident \<Rightarrow> auth_user option \<Rightarrow> note_row result" where
  "find_one_note d i uid actor =
     rbind (or_throw (NotFound ''note'') (live_note d i)) (\<lambda>n.
     rbind (if actor \<noteq> None then assert_actor d actor Notes Read Note i
            else rguard (\<not> (n_owner n \<noteq> uid \<and> \<not> shared_with d i uid)) (NotFound ''note'')) (\<lambda>_.
     Inr n))"

definition find_editable :: "db \<Rightarrow> ident \<Rightarrow> ident \<Rightarrow> auth_user option \<Rightarrow> note_row result" where
  "find_editable d i uid actor =
     (case actor of
        Some u \<Rightarrow>
          rbind (or_throw (NotFound ''note'') (live_note d i)) (\<lambda>n.
          rbind (assert_actor d actor Notes Update Note i) (\<lambda>_. Inr n))
      | None \<Rightarrow> or_throw (Forbidden ''note'') (List.find (\<lambda>n. n_id n = i \<and> n_deleted n = None \<and>
          (n_owner n = uid \<or> (\<exists>s \<in> set (t_note_shares d).
             sh_note s = i \<and> sh_user s = uid \<and> sh_permission s = EDIT))) (t_notes d)))"

definition find_for_action ::
    "db \<Rightarrow> ident \<Rightarrow> ident \<Rightarrow> bool \<Rightarrow> action \<Rightarrow> auth_user option \<Rightarrow> note_row result" where
  "find_for_action d i uid deleted a actor =
     rbind (or_throw (NotFound ''own note'') (List.find (\<lambda>n. n_id n = i \<and>
       (actor \<noteq> None \<or> n_owner n = uid) \<and> (n_deleted n \<noteq> None) = deleted) (t_notes d))) (\<lambda>n.
     rbind (assert_actor d actor Notes a Note i) (\<lambda>_. Inr n))"

definition share_candidates :: "(string \<Rightarrow> nat) \<Rightarrow> db \<Rightarrow> ident \<Rightarrow> user_row list" where
  "share_candidates rank d uid =
     sort_key (\<lambda>u. rank (u_display_name u)) (filter (\<lambda>u. u_id u \<noteq> uid \<and> u_active u) (t_users d))"

section \<open>Creating and changing notes\<close>

definition ensure_note_category :: "db \<Rightarrow> ident \<Rightarrow> category_row result" where
  "ensure_note_category d i =
     rbind (or_throw (BadRequest ''category'') (find_category d i)) (\<lambda>c.
     rbind (rguard (c_scope c = NOTE) (BadRequest ''category'')) (\<lambda>_. Inr c))"

fun attach_note_tags ::
    "(string \<Rightarrow> ident) \<Rightarrow> ident \<Rightarrow> (string \<times> string) list \<Rightarrow> tag_row list \<Rightarrow> note_tag_row list \<Rightarrow>
     (tag_row list \<times> note_tag_row list) result" where
  "attach_note_tags fresh i [] tags links = Inr (tags, links)"
| "attach_note_tags fresh i (x # xs) tags links =
     rbind (connect_or_create fresh x tags) (\<lambda>(tags', t).
     rbind (insert_row (\<lambda>r. (nt_note r, nt_tag r)) (Internal ''P2002'') \<lparr>nt_note = i, nt_tag = t\<rparr> links)
       (\<lambda>links'. attach_note_tags fresh i xs tags' links'))"

record note_input =
  ti_title :: "string option"
  ti_content :: string
  ti_in_space :: "ident option"
  ti_in_category :: "ident option"
  ti_tags :: "string list"
  ti_mcp :: bool

text \<open>\<open>input.title?.trim() || null\<close>.\<close>

definition stored_title :: "string option \<Rightarrow> string option" where
  "stored_title t = or_null (map_option trim t)"

definition new_note :: "ident \<Rightarrow> ident \<Rightarrow> ident option \<Rightarrow> note_input \<Rightarrow> note_row" where
  "new_note new_id owner sp x =
     \<lparr>n_id = new_id, n_title = stored_title (ti_title x), n_content = ti_content x,
      n_status = Note_Captured, n_mcp = ti_mcp x, n_deleted = None, n_deleted_by = None,
      n_owner = owner, n_space = sp, n_category = ti_in_category x, n_promoted = None\<rparr>"

text \<open>The space asked for and the category agree.\<close>

definition note_place :: "db \<Rightarrow> ident option \<Rightarrow> ident option \<Rightarrow> ident option result" where
  "note_place d sp category =
     rbind (case category of None \<Rightarrow> Inr None | Some c \<Rightarrow> rbind (ensure_note_category d c) (\<lambda>x. Inr (Some x))) (\<lambda>c.
     rbind (case sp of None \<Rightarrow> Inr None | Some s \<Rightarrow> rbind (resolve_open_space d Note_Kind (Some s)) (\<lambda>x. Inr (Some x))) (\<lambda>s.
     rbind (rguard (case (s, c) of (Some x, Some y) \<Rightarrow> c_space y = x | _ \<Rightarrow> True) (BadRequest ''space of the category''))
       (\<lambda>_. Inr s)))"

definition assert_note_destination ::
    "db \<Rightarrow> auth_user option \<Rightarrow> ident option \<Rightarrow> ident option \<Rightarrow> action \<Rightarrow> unit result" where
  "assert_note_destination d actor sp category a =
     (case sp of
        None \<Rightarrow> Inr ()
      | Some s \<Rightarrow> (case category of
            Some c \<Rightarrow> assert_actor d actor Notes a Category c
          | None \<Rightarrow> assert_actor d actor Notes a Space s))"

definition create_note ::
    "content_env \<Rightarrow> db \<Rightarrow> ident \<Rightarrow> note_input \<Rightarrow> ident \<Rightarrow> auth_user option \<Rightarrow> (db \<times> note_row) result" where
  "create_note env d new_id x owner actor =
     rbind (note_place d (ti_in_space x) (ti_in_category x)) (\<lambda>sp.
     rbind (assert_note_destination d actor sp (ti_in_category x) Create) (\<lambda>_.
     let n = new_note new_id owner sp x in
     rbind (rguard (new_id \<notin> n_id ` set (t_notes d)) (Internal ''P2002'')) (\<lambda>_.
     rbind (rguard (owner \<in> u_id ` set (t_users d)) (Internal ''P2025'')) (\<lambda>_.
     rbind (attach_note_tags (ce_tag_id env) new_id (tag_relations env (ti_tags x)) (t_tags d) (t_note_tags d))
       (\<lambda>(ts, nts).
     Inr (d\<lparr>t_notes := t_notes d @ [n], t_tags := ts, t_note_tags := nts\<rparr>, n))))))"

record note_change =
  nx_title :: "string option option"
  nx_content :: "string option"
  nx_space :: "ident option option"
  nx_status :: "note_status option"
  nx_category :: "ident option option"
  nx_tags :: "string list option"
  nx_mcp :: "bool option"

definition changed_note :: "note_change \<Rightarrow> bool \<Rightarrow> ident option \<Rightarrow> note_row \<Rightarrow> note_row" where
  "changed_note x is_owner sp n =
     n\<lparr>n_space := (if nx_space x \<noteq> None then sp else n_space n),
       n_title := given (map_option stored_title (nx_title x)) (n_title n),
       n_content := given (nx_content x) (n_content n),
       n_category := given (nx_category x) (n_category n),
       n_status := (if is_owner then given (nx_status x) (n_status n) else n_status n),
       n_mcp := (if is_owner then given (nx_mcp x) (n_mcp n) else n_mcp n)\<rparr>"

definition update_note ::
    "content_env \<Rightarrow> db \<Rightarrow> ident \<Rightarrow> note_change \<Rightarrow> ident \<Rightarrow> auth_user option \<Rightarrow> db result" where
  "update_note env d i x uid actor =
     rbind (find_editable d i uid actor) (\<lambda>existing.
     let category = given (nx_category x) (n_category existing);
         moved = (nx_space x \<noteq> None \<or> nx_category x \<noteq> None) in
     rbind (note_place d (given (nx_space x) (n_space existing)) category) (\<lambda>sp.
     rbind (rguard (\<not> (moved \<and> n_owner existing \<noteq> uid)) (Forbidden ''only the owner moves a note'')) (\<lambda>_.
     rbind (if moved then assert_note_destination d actor sp category Update else Inr ()) (\<lambda>_.
     rbind (case nx_tags x of
              None \<Rightarrow> Inr (t_tags d, t_note_tags d)
            | Some tags \<Rightarrow> attach_note_tags (ce_tag_id env) i (tag_relations env tags) (t_tags d)
                (delete_where (\<lambda>r. nt_note r = i) (t_note_tags d))) (\<lambda>(ts, nts).
     Inr (d\<lparr>t_notes := update_where (\<lambda>n. n_id n = i) (changed_note x (n_owner existing = uid) sp) (t_notes d),
            t_tags := ts, t_note_tags := nts\<rparr>))))))"

definition toggle_note_checkbox ::
    "db \<Rightarrow> ident \<Rightarrow> nat \<Rightarrow> bool \<Rightarrow> ident \<Rightarrow> auth_user option \<Rightarrow> db result" where
  "toggle_note_checkbox d i index checked uid actor =
     rbind (find_editable d i uid actor) (\<lambda>existing.
     rbind (or_throw (BadRequest ''no such task'') (toggle_checkbox_in_content (n_content existing) index checked))
       (\<lambda>content.
     Inr (d\<lparr>t_notes := update_where (\<lambda>n. n_id n = i) (\<lambda>n. n\<lparr>n_content := content\<rparr>) (t_notes d)\<rparr>)))"

definition remove_note :: "db \<Rightarrow> ident \<Rightarrow> ident \<Rightarrow> auth_user option \<Rightarrow> time \<Rightarrow> db result" where
  "remove_note d i uid actor now =
     rbind (find_for_action d i uid False Delete actor) (\<lambda>_.
     Inr (d\<lparr>t_notes := update_where (\<lambda>n. n_id n = i)
       (\<lambda>n. n\<lparr>n_deleted := Some now, n_deleted_by := Some uid\<rparr>) (t_notes d)\<rparr>))"

definition restore_note :: "db \<Rightarrow> ident \<Rightarrow> ident \<Rightarrow> auth_user option \<Rightarrow> db result" where
  "restore_note d i uid actor =
     rbind (find_for_action d i uid True Delete actor) (\<lambda>_.
     Inr (d\<lparr>t_notes := update_where (\<lambda>n. n_id n = i)
       (\<lambda>n. n\<lparr>n_deleted := None, n_deleted_by := None\<rparr>) (t_notes d)\<rparr>))"

definition permanent_remove_note :: "db \<Rightarrow> ident \<Rightarrow> ident \<Rightarrow> auth_user option \<Rightarrow> db result" where
  "permanent_remove_note d i uid actor =
     rbind (find_for_action d i uid True Delete actor) (\<lambda>_. Inr (delete_note i d))"

section \<open>Sharing\<close>

text \<open>
  Both end by reading the note without an actor, so that a user who may share a note without owning
  it or being a recipient gets an error although the change is stored.
\<close>

definition share_row :: "ident \<Rightarrow> ident \<Rightarrow> share_permission \<Rightarrow> ident \<Rightarrow> share_row" where
  "share_row i v perm uid = \<lparr>sh_note = i, sh_user = v, sh_permission = perm, sh_shared_by = uid\<rparr>"

definition put_share :: "ident \<Rightarrow> ident \<Rightarrow> share_permission \<Rightarrow> ident \<Rightarrow> share_row list \<Rightarrow> share_row list" where
  "put_share i v perm uid shares =
     (if \<exists>s \<in> set shares. sh_note s = i \<and> sh_user s = v
      then update_where (\<lambda>s. sh_note s = i \<and> sh_user s = v) (\<lambda>_. share_row i v perm uid) shares
      else shares @ [share_row i v perm uid])"

definition share_note ::
    "db \<Rightarrow> ident \<Rightarrow> ident \<Rightarrow> share_permission \<Rightarrow> ident \<Rightarrow> auth_user option \<Rightarrow> (db \<times> note_row result) result" where
  "share_note d i v perm uid actor =
     rbind (find_for_action d i uid False Share actor) (\<lambda>n.
     rbind (rguard (v \<noteq> uid) (Forbidden ''own note'')) (\<lambda>_.
     rbind (rguard (\<exists>u \<in> set (t_users d). u_id u = v \<and> u_active u) (NotFound ''user'')) (\<lambda>_.
     let d' = d\<lparr>t_note_shares := put_share i v perm uid (t_note_shares d)\<rparr>
     in Inr (d', find_one_note d' (n_id n) uid None))))"

definition unshare_note ::
    "db \<Rightarrow> ident \<Rightarrow> ident \<Rightarrow> ident \<Rightarrow> auth_user option \<Rightarrow> (db \<times> note_row result) result" where
  "unshare_note d i v uid actor =
     rbind (find_for_action d i uid False Share actor) (\<lambda>_.
     let d' = d\<lparr>t_note_shares := delete_where (\<lambda>s. sh_note s = i \<and> sh_user s = v) (t_note_shares d)\<rparr>
     in Inr (d', find_one_note d' i uid None))"

section \<open>Promotion to a wiki page\<close>

definition first_line :: "string \<Rightarrow> string" where
  "first_line s =
     (let l = takeWhile (\<lambda>c. c \<noteq> LF) s
      in if length l < length s \<and> l \<noteq> [] \<and> hd (rev l) = CR then butlast l else l)"

text \<open>\<open>replace(/\s+/g, ' ')\<close>.\<close>

fun squeeze :: "bool \<Rightarrow> string \<Rightarrow> string" where
  "squeeze in_gap [] = []"
| "squeeze in_gap (c # s) =
     (if js_space c then (if in_gap then squeeze True s else CHR '' '' # squeeze True s)
      else c # squeeze False s)"

definition promoted_title :: "string option \<Rightarrow> note_row \<Rightarrow> string" where
  "promoted_title title n =
     (case stored_title title of Some t \<Rightarrow> t
      | None \<Rightarrow> (case stored_title (n_title n) of Some t \<Rightarrow> t
      | None \<Rightarrow> (if take 200 (first_line (n_content n)) \<noteq> [] then take 200 (first_line (n_content n))
          else ''Neue Wiki-Seite'')))"

text \<open>The wiki category with the slug of the note's category, in the note's space.\<close>

definition wiki_category_of :: "db \<Rightarrow> note_row \<Rightarrow> ident option" where
  "wiki_category_of d n =
     (case Option.bind (n_category n) (find_category d) of
        None \<Rightarrow> None
      | Some c \<Rightarrow> map_option c_id
          (find_category_slug d (given (n_space n) DEFAULT_SPACE_ID) WIKI (c_slug c)))"

definition promote_note ::
    "content_env \<Rightarrow> db \<Rightarrow> ident \<Rightarrow> ident \<Rightarrow> string option \<Rightarrow> page_status \<Rightarrow> auth_user \<Rightarrow> time \<Rightarrow>
     (db \<times> page_row) result" where
  "promote_note env d page_id i title status user now =
     rbind (find_for_action d i (au_id user) False Update (Some user)) (\<lambda>n.
     rbind (rguard (has_permission d user Pages Create) (Forbidden ''pages:create'')) (\<lambda>_.
     rbind (create_page env d page_id
       \<lparr>pi_title = promoted_title title n, pi_space = Some (given (n_space n) DEFAULT_SPACE_ID),
        pi_type = PAGE, pi_content = n_content n, pi_excerpt = Some (take 500 (squeeze False (n_content n))),
        pi_status = status, pi_public = False, pi_mcp = False, pi_category = wiki_category_of d n,
        pi_parent = None, pi_tags = tags_of_note d i\<rparr> (au_id user) (Some user) now) (\<lambda>(d', p).
     Inr (d'\<lparr>t_notes := update_where (\<lambda>n. n_id n = i)
       (\<lambda>n. n\<lparr>n_status := Note_Promoted, n_promoted := Some (pg_id p)\<rparr>) (t_notes d')\<rparr>, p))))"

section \<open>What sharing gives and takes\<close>

lemma share_note_Inr:
  assumes "share_note d i v perm uid actor = Inr (d', ans)"
  shows "d' = d\<lparr>t_note_shares := put_share i v perm uid (t_note_shares d)\<rparr>"
  using assms by (auto simp: share_note_def Let_def result_simps)

lemma unshare_note_Inr:
  assumes "unshare_note d i v uid actor = Inr (d', ans)"
  shows "d' = d\<lparr>t_note_shares := delete_where (\<lambda>s. sh_note s = i \<and> sh_user s = v) (t_note_shares d)\<rparr>"
  using assms by (auto simp: unshare_note_def Let_def result_simps)

lemma put_share_of:
  assumes "distinct (map sh_user (filter (\<lambda>s. sh_note s = i) shares))"
  shows "distinct (map sh_user (filter (\<lambda>s. sh_note s = i) (put_share i v perm uid shares)))"
    and "s \<in> set (put_share i v perm uid shares) \<and> sh_note s = i \<and> sh_user s = v \<longleftrightarrow> s = share_row i v perm uid"
proof -
  have row: "sh_note (share_row i v perm uid) = i" "sh_user (share_row i v perm uid) = v"
    by (simp_all add: share_row_def)
  show "distinct (map sh_user (filter (\<lambda>s. sh_note s = i) (put_share i v perm uid shares)))"
  proof (cases "\<exists>s \<in> set shares. sh_note s = i \<and> sh_user s = v")
    case True
    have "map sh_user (filter (\<lambda>s. sh_note s = i)
        (update_where (\<lambda>s. sh_note s = i \<and> sh_user s = v) (\<lambda>_. share_row i v perm uid) shares)) =
      map sh_user (filter (\<lambda>s. sh_note s = i) shares)"
      by (induction shares) (simp_all add: update_where_def row)
    with True assms show ?thesis by (simp add: put_share_def)
  next
    case False
    with assms row show ?thesis by (auto simp: put_share_def)
  qed
  show "s \<in> set (put_share i v perm uid shares) \<and> sh_note s = i \<and> sh_user s = v \<longleftrightarrow> s = share_row i v perm uid"
    by (auto simp: put_share_def row_simps share_row_def image_iff split: if_splits)
qed

text \<open>
  C11: Sharing a personal note gives the recipient exactly what the share says, and unsharing takes
  it back: between the two the access decision for the recipient (who is not the owner) is positive,
  within their global rights, for reading, and for updating if the share permits editing, and for
  nothing else; after unsharing it is negative for every action.
\<close>

theorem note_share_roundtrip:
  assumes "find_note d i = Some n" and "n_space n = None" and "n_owner n \<noteq> au_id w"
    and "distinct (map sh_user (filter (\<lambda>s. sh_note s = i) (t_note_shares d)))"
    and "share_note d i (au_id w) perm uid actor = Inr (d1, ans1)"
    and "unshare_note d1 i (au_id w) uid' actor' = Inr (d2, ans2)"
    and "evaluate d1 w Notes a Note i = Inr dc1" and "evaluate d2 w Notes a Note i = Inr dc2"
  shows "(dc_allowed dc1 \<longleftrightarrow> is_allowed d1 w Notes a \<and> (a = Read \<or> a = Update \<and> perm = EDIT)) \<and>
    \<not> dc_allowed dc2"
proof -
  note d1 = share_note_Inr [OF assms(5)] and d2 = unshare_note_Inr [OF assms(6)]
  note put = put_share_of [OF assms(4), where v = "au_id w" and perm = perm and uid = uid]
  have n: "find_note d1 i = Some n" "find_note d2 i = Some n"
    using assms(1) by (simp_all add: d1 d2 find_note_def)
  have s1: "distinct (map sh_user (filter (\<lambda>s. sh_note s = i) (t_note_shares d1)))"
    using put(1) by (simp add: d1)
  have "filter p (delete_where q xs) = delete_where q (filter p xs)" for p q and xs :: "share_row list"
    by (induction xs) (simp_all add: delete_where_def)
  with s1 have s2: "distinct (map sh_user (filter (\<lambda>s. sh_note s = i) (t_note_shares d2)))"
    by (simp add: d2 distinct_delete_where)
  have "(\<exists>s \<in> set (t_note_shares d1). sh_note s = i \<and> sh_user s = au_id w \<and> (a = Read \<or> a = Update \<and> sh_permission s = EDIT)) \<longleftrightarrow>
      a = Read \<or> a = Update \<and> perm = EDIT"
  proof -
    have perm: "sh_permission (share_row i (au_id w) perm uid) = perm" by (simp add: share_row_def)
    show ?thesis using put(2) perm by (simp add: d1) metis
  qed
  with personal_note_access [OF n(1) assms(2) s1 assms(7)] assms(3)
  have "dc_allowed dc1 \<longleftrightarrow> is_allowed d1 w Notes a \<and> (a = Read \<or> a = Update \<and> perm = EDIT)" by simp
  moreover have "\<not> dc_allowed dc2"
    using personal_note_access [OF n(2) assms(2) s2 assms(8)] assms(3) by (auto simp: d2 row_simps)
  ultimately show ?thesis by blast
qed

abbreviation sample_own :: auth_user where
  "sample_own \<equiv> to_authenticated_user (sample_user ''own'' ''adm'' True)
     \<lparr>r_id = ''adm'', r_name = ''admin'', r_description = None, r_system = True\<rparr>"

theorem note_share_roundtrip_witness:
  "\<exists>r1 r2 dc1 dc2. share_note sample_db ''n1'' ''own'' VIEW ''rob'' None = Inr r1 \<and>
     unshare_note (fst r1) ''n1'' ''own'' ''rob'' None = Inr r2 \<and>
     evaluate (fst r1) sample_own Notes Read Note ''n1'' = Inr dc1 \<and> dc_allowed dc1 \<and>
     evaluate (fst r2) sample_own Notes Read Note ''n1'' = Inr dc2 \<and> \<not> dc_allowed dc2"
proof -
  have c: "case share_note sample_db ''n1'' ''own'' VIEW ''rob'' None of Inl e \<Rightarrow> False
    | Inr r1 \<Rightarrow> (case unshare_note (fst r1) ''n1'' ''own'' ''rob'' None of Inl e \<Rightarrow> False
    | Inr r2 \<Rightarrow> \<not> isl (evaluate (fst r1) sample_own Notes Read Note ''n1'') \<and>
        \<not> isl (evaluate (fst r2) sample_own Notes Read Note ''n1'') \<and> is_allowed (fst r1) sample_own Notes Read)"
    by code_simp
  obtain d1 a1 d2 a2 where r: "share_note sample_db ''n1'' ''own'' VIEW ''rob'' None = Inr (d1, a1)"
    "unshare_note d1 ''n1'' ''own'' ''rob'' None = Inr (d2, a2)"
    "\<not> isl (evaluate d1 sample_own Notes Read Note ''n1'')" "\<not> isl (evaluate d2 sample_own Notes Read Note ''n1'')"
    "is_allowed d1 sample_own Notes Read"
    using c by (auto split: sum.splits)
  obtain dc1 dc2 where e: "evaluate d1 sample_own Notes Read Note ''n1'' = Inr dc1"
    "evaluate d2 sample_own Notes Read Note ''n1'' = Inr dc2"
    using r(3,4) by (metis sum.disc(1) sum.exhaust)
  have own: "au_id sample_own = ''own''" by (simp add: to_authenticated_user_def sample_user_def)
  have n: "find_note sample_db ''n1'' = Some (sample_note ''n1'' ''rob'' None)"
    "n_space (sample_note ''n1'' ''rob'' None) = None" "n_owner (sample_note ''n1'' ''rob'' None) \<noteq> au_id sample_own"
    "distinct (map sh_user (filter (\<lambda>s. sh_note s = ''n1'') (t_note_shares sample_db)))"
    unfolding own by (simp_all add: find_note_def sample_defs)
  from note_share_roundtrip [OF n, unfolded own, OF r(1) r(2) e] r e show ?thesis by auto
qed

section \<open>What an editor may change\<close>

lemma find_editable_Inr:
  assumes "find_editable d i uid actor = Inr n"
  shows "n \<in> set (t_notes d) \<and> n_id n = i \<and> n_deleted n = None \<and>
    (case actor of
       Some u \<Rightarrow> \<exists>dc. evaluate d u Notes Update Note i = Inr dc \<and> dc_allowed dc
     | None \<Rightarrow> n_owner n = uid \<or> (\<exists>s \<in> set (t_note_shares d).
         sh_note s = i \<and> sh_user s = uid \<and> sh_permission s = EDIT))"
  using assms
  by (auto simp: find_editable_def live_note_def result_simps assert_actor_Some dest!: find_SomeD split: option.splits)

lemma attach_note_tags_other:
  "attach_note_tags fresh i xs tags links = Inr (tags', links') \<Longrightarrow> j \<noteq> i \<Longrightarrow>
   filter (\<lambda>r. nt_note r = j) links' = filter (\<lambda>r. nt_note r = j) links"
proof (induction fresh i xs tags links rule: attach_note_tags.induct)
  case (2 fresh i x xs tags links)
  then obtain t u where "attach_note_tags fresh i xs t (links @ [\<lparr>nt_note = i, nt_tag = u\<rparr>]) = Inr (tags', links')"
    and "connect_or_create fresh x tags = Inr (t, u)"
    and "insert_row (\<lambda>r. (nt_note r, nt_tag r)) (Internal ''P2002'') \<lparr>nt_note = i, nt_tag = u\<rparr> links =
      Inr (links @ [\<lparr>nt_note = i, nt_tag = u\<rparr>])"
    by (auto simp: result_simps insert_row_eq_Inr)
  with 2 show ?case by simp
qed simp

text \<open>
  C10: Who edits a note without owning it changes its words only. A successful update comes from
  the owner, from a recipient of an edit share, or from an actor whom the access decision permits
  updating this note; and unless the user is the owner, every note keeps its owner, space,
  category, status, MCP visibility, deletion and promotion, only the title and the content of this
  note and its tags may differ (tags named for the first time join the table of tags, which the
  statement leaves open), and shares, rules, spaces, categories and pages are as they were.
\<close>

theorem note_editor_confined:
  assumes "update_note env d i x uid actor = Inr d'"
  shows "\<exists>n ts nts. n \<in> set (t_notes d) \<and> n_id n = i \<and> n_deleted n = None \<and>
    (case actor of
       Some u \<Rightarrow> \<exists>dc. evaluate d u Notes Update Note i = Inr dc \<and> dc_allowed dc
     | None \<Rightarrow> n_owner n = uid \<or> (\<exists>s \<in> set (t_note_shares d).
         sh_note s = i \<and> sh_user s = uid \<and> sh_permission s = EDIT)) \<and>
    (n_owner n \<noteq> uid \<longrightarrow> (\<exists>title content.
       d' = d\<lparr>t_notes := update_where (\<lambda>m. n_id m = i)
                (\<lambda>m. m\<lparr>n_title := given title (n_title m), n_content := given content (n_content m)\<rparr>) (t_notes d),
              t_tags := ts, t_note_tags := nts\<rparr>)) \<and>
    (\<forall>j. j \<noteq> i \<longrightarrow> filter (\<lambda>r. nt_note r = j) (t_note_tags d') = filter (\<lambda>r. nt_note r = j) (t_note_tags d))"
proof -
  obtain n sp ts nts where n: "find_editable d i uid actor = Inr n"
    and guard: "\<not> ((nx_space x \<noteq> None \<or> nx_category x \<noteq> None) \<and> n_owner n \<noteq> uid)"
    and tags: "(case nx_tags x of
              None \<Rightarrow> Inr (t_tags d, t_note_tags d)
            | Some tags \<Rightarrow> attach_note_tags (ce_tag_id env) i (tag_relations env tags) (t_tags d)
                (delete_where (\<lambda>r. nt_note r = i) (t_note_tags d))) = Inr (ts, nts)"
    and d': "d' = d\<lparr>t_notes := update_where (\<lambda>m. n_id m = i) (changed_note x (n_owner n = uid) sp) (t_notes d),
            t_tags := ts, t_note_tags := nts\<rparr>"
    using assms unfolding update_note_def Let_def
    apply (elim rbind_InrE)
    subgoal for n sp u v r by (cases r, rule that [of n "fst r" "snd r" sp]) auto
    done
  have "filter (\<lambda>r. nt_note r = j) nts = filter (\<lambda>r. nt_note r = j) (t_note_tags d)" if "j \<noteq> i" for j
  proof -
    have "filter (\<lambda>r. nt_note r = j) (delete_where (\<lambda>r. nt_note r = i) (t_note_tags d)) =
        filter (\<lambda>r. nt_note r = j) (t_note_tags d)"
      unfolding delete_where_def filter_filter using that by (intro filter_cong refl) auto
    then show ?thesis using tags attach_note_tags_other that by (auto split: option.splits)
  qed
  moreover have "changed_note x False sp = (\<lambda>m. m\<lparr>n_title := given (map_option stored_title (nx_title x)) (n_title m),
      n_content := given (nx_content x) (n_content m)\<rparr>)" if "nx_space x = None" "nx_category x = None"
    using that by (simp add: changed_note_def fun_eq_iff given_def)
  ultimately show ?thesis
    using find_editable_Inr [OF n] guard
    by (intro exI [of _ n] exI [of _ ts] exI [of _ nts])
      (auto simp: d' intro!: exI [of _ "map_option stored_title (nx_title x)"] exI [of _ "nx_content x"])
qed

definition sample_note_change :: note_change where
  "sample_note_change = \<lparr>nx_title = None, nx_content = Some ''text'', nx_space = None, nx_status = None,
     nx_category = None, nx_tags = None, nx_mcp = None\<rparr>"

theorem note_editor_confined_witness:
  "\<exists>d' n. update_note sample_env sample_db ''n1'' sample_note_change ''rob'' None = Inr d' \<and>
     n \<in> set (t_notes sample_db) \<and> n_id n = ''n1''"
proof -
  have "\<not> isl (update_note sample_env sample_db ''n1'' sample_note_change ''rob'' None)" by code_simp
  then obtain d' where r: "update_note sample_env sample_db ''n1'' sample_note_change ''rob'' None = Inr d'"
    by (metis sum.disc(1) sum.exhaust)
  from note_editor_confined [OF r] r show ?thesis by blast
qed

end
