(* ===== verification/Page_Tree.thy ===== *)
theory Page_Tree
  imports Page_History Notes
begin

text \<open>
  Folders and the access decision. A page whose chain of folders is broken (a cycle, a folder of
  another space or category) has no access decision, and every list that meets it fails. Two
  requests that the service accepts produce such chains.
\<close>

section \<open>Chains of folders\<close>

definition parent_step :: "db \<Rightarrow> ident \<Rightarrow> ident \<Rightarrow> bool" where
  "parent_step d a b \<longleftrightarrow> (\<exists>p. find_page d a = Some p \<and> pg_parent p = Some b)"

definition folder_chain :: "db \<Rightarrow> ident \<Rightarrow> page_row list \<Rightarrow> bool" where
  "folder_chain d a ps \<longleftrightarrow> linked ps \<and> pg_id (hd ps) = a \<and> (\<forall>p \<in> set ps. find_page d (pg_id p) = Some p)"

lemma page_path_chain: "page_path d i ps \<Longrightarrow> folder_chain d i ps"
  by (simp add: page_path_def folder_chain_def)

lemma chain_step:
  assumes "folder_chain d a ps" and "parent_step d a b"
  shows "folder_chain d b (tl ps) \<and> length (tl ps) < length ps"
proof (cases ps)
  case (Cons p qs)
  obtain q where q: "find_page d a = Some q" "pg_parent q = Some b" using assms(2) by (auto simp: parent_step_def)
  have "q = p" using q(1) assms(1) Cons by (auto simp: folder_chain_def)
  with assms(1) q(2) Cons have "linked qs" "pg_id (hd qs) = b"
    by (auto simp: folder_chain_def linked_Cons)
  with assms(1) Cons show ?thesis by (auto simp: folder_chain_def)
qed (use assms(1) in \<open>simp add: folder_chain_def\<close>)

lemma chain_steps:
  assumes "(parent_step d)\<^sup>+\<^sup>+ a b" and "folder_chain d a ps"
  shows "\<exists>qs. folder_chain d b qs \<and> length qs < length ps"
  using assms
proof (induction arbitrary: rule: tranclp_induct)
  case (base b)
  then show ?case using chain_step by blast
next
  case (step b c)
  then obtain qs where "folder_chain d b qs" "length qs < length ps" by blast
  with chain_step [OF this(1) step(2)] show ?case by (intro exI [of _ "tl qs"]) simp
qed

lemma chain_unique: "folder_chain d a ps \<Longrightarrow> folder_chain d a qs \<Longrightarrow> ps = qs"
proof (induction ps arbitrary: a qs)
  case Nil
  then show ?case by (simp add: folder_chain_def)
next
  case (Cons p ps)
  obtain q qs' where qs: "qs = q # qs'" using Cons.prems(2) by (cases qs) (auto simp: folder_chain_def)
  have head: "find_page d a = Some r" if "folder_chain d a (r # rs)" for r rs
    using that by (auto simp: folder_chain_def)
  have "find_page d a = Some p" by (rule head [OF Cons.prems(1)])
  moreover have "find_page d a = Some q" using Cons.prems(2) unfolding qs by (rule head)
  ultimately have pq: "q = p" by simp
  show ?case
  proof (cases "pg_parent p")
    case None
    then show ?thesis using Cons.prems by (simp add: folder_chain_def qs pq linked_Cons)
  next
    case (Some b)
    then have "folder_chain d b ps" "folder_chain d b qs'"
      using Cons.prems by (auto simp: folder_chain_def qs pq linked_Cons)
    with Cons.IH show ?thesis by (simp add: qs pq)
  qed
qed

text \<open>No page on a cycle, or below one, has a chain.\<close>

lemma no_chain_in_cycle:
  assumes "(parent_step d)\<^sup>+\<^sup>+ i i" and "(parent_step d)\<^sup>*\<^sup>* k i"
  shows "\<not> folder_chain d k ps"
proof
  assume "folder_chain d k ps"
  then obtain qs where qs: "folder_chain d i qs"
    using rtranclpD [OF assms(2)] chain_steps [of d k i ps] by (cases "k = i") auto
  from chain_steps [OF assms(1) qs] obtain rs where "folder_chain d i rs" "length rs < length qs" by blast
  with chain_unique [OF qs] show False by blast
qed

section \<open>A broken chain is a bad request\<close>

lemma page_chain_bad:
  assumes ok: "content_ok d" and "visited \<noteq> []" and "c \<in> pg_id ` set (t_pages d)"
    and "page_chain d start (Some c) visited cat sp path = Inl e"
  shows "is_bad_request e"
  using assms(2-)
proof (induction "100 - length visited" arbitrary: c visited cat sp path rule: less_induct)
  case less
  obtain p where p: "find_page d c = Some p"
    using less.prems(2) find_key_None [of pg_id c "t_pages d"] by (cases "find_page d c") (auto simp: find_page_def)
  show ?case
  proof (cases "c \<in> set visited \<or> 100 \<le> length visited \<or> (sp \<noteq> None \<and> sp \<noteq> Some (pg_space p)) \<or> pg_category p \<noteq> cat")
    case True
    then show ?thesis using less.prems(1,3) p
      by (auto simp: page_chain.simps(2) split: if_splits)
  next
    case False
    let ?cat = "case cat of None \<Rightarrow> pg_category p | Some x \<Rightarrow> Some x"
    have step: "page_chain d start (pg_parent p) (c # visited) ?cat (Some (pg_space p)) (path @ [page_target p]) = Inl e"
      using less.prems(3) False p by (subst (asm) page_chain.simps(2)) (auto split: if_splits)
    then obtain q where q: "pg_parent p = Some q" by (cases "pg_parent p") (simp_all add: page_chain.simps(1))
    have "p \<in> set (t_pages d)" using p by (auto simp: find_page_def dest: find_SomeD)
    then have "q \<in> pg_id ` set (t_pages d)" using ok q by (auto simp: content_ok_def)
    moreover have "100 - length (c # visited) < 100 - length visited" using False by auto
    ultimately show ?thesis using less.hyps [of "c # visited" q] step q by simp
  qed
qed

lemma no_path_bad:
  assumes ok: "content_ok d" and "i \<in> pg_id ` set (t_pages d)" and none: "\<nexists>ps. page_path d i ps"
  shows "\<exists>e. page_hierarchy d i = Inl e \<and> is_bad_request e"
proof -
  obtain p where p: "find_page d i = Some p"
    using assms(2) find_key_None [of pg_id i "t_pages d"] by (cases "find_page d i") (auto simp: find_page_def)
  obtain e where e: "page_chain d i (Some i) [] None None [] = Inl e"
    using none page_chain_start [of d i] by (cases "page_chain d i (Some i) [] None None []") auto
  have step: "page_chain d i (pg_parent p) [i] (pg_category p) (Some (pg_space p)) ([] @ [page_target p]) = Inl e"
    using e p by (subst (asm) page_chain.simps(2)) (simp add: option.case_eq_if split: if_splits)
  then obtain q where q: "pg_parent p = Some q" by (cases "pg_parent p") (simp_all add: page_chain.simps(1))
  have "p \<in> set (t_pages d)" using p by (auto simp: find_page_def dest: find_SomeD)
  then have "q \<in> pg_id ` set (t_pages d)" using ok q by (auto simp: content_ok_def)
  with page_chain_bad [OF ok _ this step [unfolded q]] have "is_bad_request e" by simp
  then show ?thesis using e by (simp add: page_hierarchy_def)
qed

text \<open>One such page in a list, and the list fails, for everybody who may read pages at all.\<close>

lemma bad_page_blocks:
  assumes ok: "content_ok d" and bad: "page_hierarchy d i = Inl e" "is_bad_request e"
    and user: "is_allowed d u Pages a" and a: "is_permission_supported Pages a" and i: "i \<in> set ids"
  shows "\<exists>e'. allowed_target_ids d u Pages a Page ids = Inl e' \<and> is_bad_request e'"
proof -
  have run: "evaluate d u Pages a Page i = Inl e" using bad(1) user a by (simp add: evaluate_decide)
  show ?thesis
  proof (cases "evaluate_many d u Pages a Page ids")
    case (Inl e')
    then have "is_bad_request e'"
      using evaluate_many_agrees_all [OF ok, of u Pages a Page ids] by (simp add: many_agrees_def)
    with Inl show ?thesis by (simp add: allowed_target_ids_def)
  next
    case (Inr m)
    then have m: "map_of m i = Some dc \<longleftrightarrow> evaluate d u Pages a Page i = Inr dc"
      and none: "map_of m i = None \<Longrightarrow> \<exists>e. evaluate d u Pages a Page i = Inl e \<and> is_not_found e" for dc
      using evaluate_many_agrees_all [OF ok, of u Pages a Page ids] i by (auto simp: many_agrees_def)
    have "map_of m i = None" using m run by (cases "map_of m i") auto
    from none [OF this] run bad(2) have False by (cases e) auto
    then show ?thesis ..
  qed
qed

section \<open>Moving folders\<close>

text \<open>A successful update: what becomes of the pages, and the keys stay in order.\<close>

lemma update_page_Inr:
  assumes ok: "content_ok d" and run: "update_page env d vid i x opt now = Inr (d', p)"
  obtains e sp where "find_page d i = Some e" and "update_begin d i x opt = Inr (e, sp)"
    and "t_pages d' = update_where (\<lambda>q. pg_id q = i) (changed_page x e sp now) (t_pages d)" and "content_ok d'"
    and "\<forall>j. find_page d' j = (if j = i then Some (changed_page x e sp now e) else find_page d j)"
proof -
  obtain e sp d0 where b: "update_begin d i x opt = Inr (e, sp)"
    and c: "update_commit env d vid i x opt e sp now = Inr (d0, p)"
    and d': "d' = sync_references (ce_slugify env) i (pg_content p) d0"
    using run by (auto simp: update_page_def result_simps split: prod.splits)
  have distinct: "distinct (map pg_id (t_pages d))" using ok by (simp add: content_ok_def)
  from update_begin_Inr [OF b] have e: "e \<in> set (t_pages d)" "pg_id e = i" by blast+
  then have found: "find_page d i = Some e" using find_by_key [OF distinct e] by (simp add: find_page_def)
  have pages0: "t_pages d0 = update_where (\<lambda>q. pg_id q = i) (changed_page x e sp now) (t_pages d)"
    by (rule commit_pages [OF distinct c])
  obtain q ts pts where d0: "d0 = d\<lparr>t_page_versions := t_page_versions d @ [snapshot_of vid e x opt],
      t_pages := update_where (commit_hits i opt) (changed_page x e sp now) (t_pages d),
      t_tags := ts, t_page_tags := pts\<rparr>"
    using update_commit_Inr [OF c] by blast
  have fks: "sp \<in> s_id ` set (t_spaces d)" "fk (given (pc_category x) None) (c_id ` set (t_categories d))"
    "fk (given (pc_parent x) None) (pg_id ` set (t_pages d))"
    using c unfolding update_commit_def Let_def by (elim rbind_InrE, simp)+
  have pages: "t_pages d' = update_where (\<lambda>q. pg_id q = i) (changed_page x e sp now) (t_pages d)"
    by (simp add: d' pages0)
  have same: "t_spaces d' = t_spaces d" "t_categories d' = t_categories d" "t_notes d' = t_notes d" "t_standards d' = t_standards d"
    by (simp_all add: d' d0 sync_references_def sync_links_def sync_media_references_def Let_def)
  have ids: "map pg_id (t_pages d') = map pg_id (t_pages d)" unfolding pages by (rule map_update_where) simp
  have ids': "pg_id ` set (t_pages d') = pg_id ` set (t_pages d)" using arg_cong [OF ids, of set] by simp
  have row: "r \<in> set (t_pages d) \<or> (\<exists>r0 \<in> set (t_pages d). r = changed_page x e sp now r0)" if "r \<in> set (t_pages d')" for r
    using that unfolding pages set_update_where by auto
  have "\<forall>r \<in> set (t_pages d'). pg_space r \<in> s_id ` set (t_spaces d) \<and> fk (pg_parent r) (pg_id ` set (t_pages d)) \<and>
      fk (pg_category r) (c_id ` set (t_categories d))"
  proof
    fix r assume "r \<in> set (t_pages d')"
    from row [OF this] show "pg_space r \<in> s_id ` set (t_spaces d) \<and> fk (pg_parent r) (pg_id ` set (t_pages d)) \<and>
      fk (pg_category r) (c_id ` set (t_categories d))"
    proof (elim disjE bexE)
      fix r0 assume "r0 \<in> set (t_pages d)" and r: "r = changed_page x e sp now r0"
      then have "fk (pg_parent r0) (pg_id ` set (t_pages d))" "fk (pg_category r0) (c_id ` set (t_categories d))"
        using ok by (simp_all add: content_ok_def)
      with fks show ?thesis unfolding r changed_page_def given_def
        by (cases "pc_category x"; cases "pc_parent x") simp_all
    qed (use ok in \<open>simp add: content_ok_def\<close>)
  qed
  then have "content_ok d'" using ok unfolding content_ok_def same ids ids' by simp
  moreover have "find_page d' j = (if j = i then Some (changed_page x e sp now e) else find_page d j)" for j
  proof -
    have "find_page d' j = map_option (\<lambda>r. if pg_id r = i then changed_page x e sp now r else r) (find_page d j)"
      unfolding find_page_def pages by (rule find_update_where) simp
    also have "\<dots> = (if j = i then Some (changed_page x e sp now e) else find_page d j)"
      using found by (cases "find_page d j") (auto simp: find_page_def dest: find_SomeD)
    finally show ?thesis .
  qed
  ultimately show thesis using that found b pages by blast
qed

definition move :: "ident option option \<Rightarrow> ident option option \<Rightarrow> page_change" where
  "move category parent = (rewrite [])\<lparr>pc_content := None, pc_category := category, pc_parent := parent\<rparr>"

text \<open>
  C13: The update service accepts a move of a folder below itself (it compares the new parent with the
  page only, not with its descendants). After it no page on the cycle or anywhere below it has an
  access decision any more, and every list of page ids that contains one of them (all pages, a
  category's tree, related pages, tags, the trash) fails with a bad request, for every user who may
  read pages at all, administrators and protected accounts included.
\<close>

theorem folder_cycle_blocks_lists:
  assumes "content_ok d" and "update_page env d vid i x opt now = Inr (d', p)"
    and "pc_parent x = Some (Some j)" and "(parent_step d)\<^sup>*\<^sup>* j i"
    and "k \<in> pg_id ` set (t_pages d)" and "(parent_step d)\<^sup>*\<^sup>* k i" and "k \<in> set ids"
    and "is_allowed d' u Pages a" and "is_permission_supported Pages a"
  shows "(\<exists>e. evaluate d' u Pages a Page k = Inl e \<and> is_bad_request e) \<and>
    (\<exists>e. allowed_target_ids d' u Pages a Page ids = Inl e \<and> is_bad_request e)"
proof -
  obtain e sp where ok': "content_ok d'" and pages: "t_pages d' = update_where (\<lambda>q. pg_id q = i) (changed_page x e sp now) (t_pages d)"
    and find: "\<forall>j. find_page d' j = (if j = i then Some (changed_page x e sp now e) else find_page d j)"
    using update_page_Inr [OF assms(1,2)] by blast
  have step: "parent_step d' i j"
    using find assms(3) by (simp add: parent_step_def changed_page_def given_def)
  have up: "(parent_step d')\<^sup>*\<^sup>* b i" if "(parent_step d)\<^sup>*\<^sup>* b i" for b
    using that
  proof (induction rule: converse_rtranclp_induct)
    case (step b c)
    show ?case
    proof (cases "b = i")
      case False
      then have "parent_step d' b c" using step(1) find by (simp add: parent_step_def)
      with step(3) show ?thesis by (rule converse_rtranclp_into_rtranclp [rotated])
    qed simp
  qed simp
  have "(parent_step d')\<^sup>+\<^sup>+ i i" using step up [OF assms(4)] by (rule tranclp_rtranclp_tranclp [OF tranclp.r_into_trancl])
  then have "\<nexists>ps. page_path d' k ps" using no_chain_in_cycle [OF _ up [OF assms(6)]] page_path_chain by blast
  moreover have "k \<in> pg_id ` set (t_pages d')"
    using assms(5) key_image_update_where [of "\<lambda>q. pg_id q = i" pg_id "changed_page x e sp now" "t_pages d"] by (simp add: pages)
  ultimately obtain e' where bad: "page_hierarchy d' k = Inl e'" "is_bad_request e'" using no_path_bad [OF ok'] by blast
  then have "evaluate d' u Pages a Page k = Inl e'" using assms(8,9) by (simp add: evaluate_decide)
  with bad bad_page_blocks [OF ok' bad assms(8,9,7)] show ?thesis by blast
qed

theorem folder_cycle_blocks_lists_witness:
  "\<exists>d' p e. update_page sample_env sample_db ''v'' ''p1'' (move None (Some (Some ''p2''))) (internal None) 7 = Inr (d', p) \<and>
     allowed_target_ids d' sample_own Pages Read Page [''p3''] = Inl e \<and> is_bad_request e"
proof -
  have c: "case update_page sample_env sample_db ''v'' ''p1'' (move None (Some (Some ''p2''))) (internal None) 7
    of Inl e \<Rightarrow> False | Inr r \<Rightarrow> is_allowed (fst r) sample_own Pages Read" by code_simp
  obtain d' p where r: "update_page sample_env sample_db ''v'' ''p1'' (move None (Some (Some ''p2''))) (internal None) 7 = Inr (d', p)"
    "is_allowed d' sample_own Pages Read" using c by (auto split: sum.splits)
  have up: "parent_step sample_db ''p2'' ''p1''" "parent_step sample_db ''p3'' ''p2''"
    by (simp_all add: parent_step_def find_page_def sample_defs)
  have ups: "(parent_step sample_db)\<^sup>*\<^sup>* ''p2'' ''p1''" "(parent_step sample_db)\<^sup>*\<^sup>* ''p3'' ''p1''"
    using up by (auto intro: converse_rtranclp_into_rtranclp)
  have p3: "''p3'' \<in> pg_id ` set (t_pages sample_db)" by (simp add: sample_defs)
  have m: "pc_parent (move None (Some (Some ''p2''))) = Some (Some ''p2'')" by (simp add: move_def)
  have s: "is_permission_supported Pages Read" by code_simp
  from folder_cycle_blocks_lists [OF sample_db_ok(3) r(1) m ups(1) p3 ups(2) _ r(2) s, of "[''p3'']"] r(1)
  show ?thesis by auto
qed

text \<open>
  C14: Moving a folder with content into another category breaks the content: the service changes the
  folder only, and a page in another category than its folder has no access decision. From then on
  every list of page ids that contains one of the folder's pages fails with a bad request for every
  user who may read pages at all.
\<close>

theorem folder_category_blocks_lists:
  assumes "content_ok d" and "update_page env d vid i x opt now = Inr (d', p)"
    and "q \<in> set (t_pages d)" and "pg_parent q = Some i" and "pg_id q \<noteq> i"
    and "pc_category x = Some c" and "c \<noteq> pg_category q" and "pg_id q \<in> set ids"
    and "is_allowed d' u Pages a" and "is_permission_supported Pages a"
  shows "(\<exists>e. evaluate d' u Pages a Page (pg_id q) = Inl e \<and> is_bad_request e) \<and>
    (\<exists>e. allowed_target_ids d' u Pages a Page ids = Inl e \<and> is_bad_request e)"
proof -
  obtain e sp where ok': "content_ok d'" and pages: "t_pages d' = update_where (\<lambda>q. pg_id q = i) (changed_page x e sp now) (t_pages d)"
    and find: "\<forall>j. find_page d' j = (if j = i then Some (changed_page x e sp now e) else find_page d j)"
    using update_page_Inr [OF assms(1,2)] by blast
  have "distinct (map pg_id (t_pages d))" using assms(1) by (simp add: content_ok_def)
  then have q: "find_page d' (pg_id q) = Some q"
    using find_by_key [OF _ assms(3) refl] find assms(5) by (simp add: find_page_def)
  have "\<nexists>ps. page_path d' (pg_id q) ps"
  proof
    assume "\<exists>ps. page_path d' (pg_id q) ps"
    then obtain ps where ps: "page_path d' (pg_id q) ps" ..
    then obtain r rs where r: "ps = r # rs" by (cases ps) (auto simp: page_path_def)
    have "pg_id (hd ps) = pg_id q" and all: "\<forall>p \<in> set ps. find_page d' (pg_id p) = Some p"
      using ps unfolding page_path_def by blast+
    then have id: "pg_id r = pg_id q" by (simp add: r)
    have "find_page d' (pg_id r) = Some r" using all by (simp add: r)
    with q have "r = q" unfolding id by simp
    with ps r assms(4) obtain f rs' where f: "rs = f # rs'" "pg_id f = i"
      by (cases rs) (auto simp: page_path_def linked_Cons)
    have "find_page d' i = Some f" "pg_category f = pg_category q"
      using ps f \<open>r = q\<close> by (auto simp: page_path_def r)
    then show False using find assms(6,7) by (auto simp: changed_page_def given_def)
  qed
  moreover have "pg_id q \<in> pg_id ` set (t_pages d')"
    using assms(3) key_image_update_where [of "\<lambda>q. pg_id q = i" pg_id "changed_page x e sp now" "t_pages d"] by (simp add: pages)
  ultimately obtain e' where bad: "page_hierarchy d' (pg_id q) = Inl e'" "is_bad_request e'"
    using no_path_bad [OF ok'] by blast
  then have "evaluate d' u Pages a Page (pg_id q) = Inl e'" using assms(9,10) by (simp add: evaluate_decide)
  with bad bad_page_blocks [OF ok' bad assms(9,10,8)] show ?thesis by blast
qed

theorem folder_category_blocks_lists_witness:
  "\<exists>d' p e. update_page sample_env sample_db ''v'' ''p1'' (move (Some None) None) (internal None) 7 = Inr (d', p) \<and>
     allowed_target_ids d' sample_own Pages Read Page [''p2''] = Inl e \<and> is_bad_request e"
proof -
  have c: "case update_page sample_env sample_db ''v'' ''p1'' (move (Some None) None) (internal None) 7
    of Inl e \<Rightarrow> False | Inr r \<Rightarrow> is_allowed (fst r) sample_own Pages Read" by code_simp
  obtain d' p where r: "update_page sample_env sample_db ''v'' ''p1'' (move (Some None) None) (internal None) 7 = Inr (d', p)"
    "is_allowed d' sample_own Pages Read" using c by (auto split: sum.splits)
  have q: "sample_page ''p2'' (Some ''p1'') \<in> set (t_pages sample_db)" "pg_parent (sample_page ''p2'' (Some ''p1'')) = Some ''p1''"
    "pg_id (sample_page ''p2'' (Some ''p1'')) \<noteq> ''p1''" "None \<noteq> pg_category (sample_page ''p2'' (Some ''p1''))"
    "pg_id (sample_page ''p2'' (Some ''p1'')) \<in> set [''p2'']"
    by (simp_all add: sample_defs)
  have m: "pc_category (move (Some None) None) = Some None" by (simp add: move_def)
  have s: "is_permission_supported Pages Read" by code_simp
  from folder_category_blocks_lists [OF sample_db_ok(3) r(1) q(1-3) m q(4,5) r(2) s] r(1)
  show ?thesis by auto
qed

end
