(* ===== verification/Standards.thy ===== *)
theory Standards
  imports Spaces
begin

text \<open>
  \<^verbatim>\<open>apps/api/src/modules/standards/standards.service.ts\<close>: standards (binding guidelines) with their
  rules, their approval, their links to pages and the exceptions asked for them. \<open>now\<close> is the clock,
  fresh row ids are arguments, \<open>likes\<close> is the database's case-insensitive search in a text. A
  request ends with the standard as the user sees it; that answer may fail after the change is stored.
\<close>

section \<open>What a user sees\<close>

definition full_standard :: "db \<Rightarrow> ident \<Rightarrow> standard_row result" where
  "full_standard d i = or_throw (NotFound ''standard'') (find_standard d i)"

definition standard_page_ids :: "db \<Rightarrow> ident \<Rightarrow> ident list" where
  "standard_page_ids d i = map sp_page (filter (\<lambda>l. sp_standard l = i) (t_standard_pages d))"

definition standard_rules :: "db \<Rightarrow> ident \<Rightarrow> rule_row list" where
  "standard_rules d i = sort_key sr_sort_order (filter (\<lambda>r. sr_standard r = i) (t_rules d))"

definition json_list :: "json \<Rightarrow> json" where
  "json_list j = (case j of JArray xs \<Rightarrow> JArray xs | _ \<Rightarrow> JArray [])"

definition map_rule :: "rule_row \<Rightarrow> rule_row" where
  "map_rule r = r\<lparr>sr_ports := json_list (sr_ports r), sr_networks := json_list (sr_networks r)\<rparr>"

text \<open>An approved exception is shown as expired after its date.\<close>

definition shown_status :: "time \<Rightarrow> exception_row \<Rightarrow> exception_status" where
  "shown_status now e =
     (if ex_status e = Exc_Approved \<and> (case ex_expires e of None \<Rightarrow> False | Some t \<Rightarrow> t < now)
      then Exc_Expired else ex_status e)"

record standard_view =
  vw_standard :: standard_row
  vw_rules :: "rule_row list"
  vw_pages :: "ident list"
  vw_exceptions :: "(exception_row \<times> exception_status) list"

definition standard_view_of :: "db \<Rightarrow> time \<Rightarrow> ident list option \<Rightarrow> standard_row \<Rightarrow> standard_view" where
  "standard_view_of d now allowed x =
     \<lparr>vw_standard = x, vw_rules = map map_rule (standard_rules d (st_id x)),
      vw_pages = filter (\<lambda>p. case allowed of None \<Rightarrow> True | Some ps \<Rightarrow> p \<in> set ps) (standard_page_ids d (st_id x)),
      vw_exceptions = map (\<lambda>e. (e, shown_status now e))
        (rev (filter (\<lambda>e. ex_standard e = st_id x) (t_exceptions d)))\<rparr>"

definition standard_views :: "db \<Rightarrow> time \<Rightarrow> standard_row list \<Rightarrow> auth_user option \<Rightarrow> standard_view list result" where
  "standard_views d now xs user =
     (case user of
        None \<Rightarrow> Inr (map (standard_view_of d now None) xs)
      | Some u \<Rightarrow>
          rbind (allowed_target_ids d u Pages Read Page
            (uniq (concat (map (\<lambda>x. standard_page_ids d (st_id x)) xs)))) (\<lambda>allowed.
          Inr (map (standard_view_of d now (Some allowed)) xs)))"

definition priority_rank :: "standard_priority \<Rightarrow> int" where
  "priority_rank p = (case p of Prio_Low \<Rightarrow> 0 | Prio_Medium \<Rightarrow> 1 | Prio_High \<Rightarrow> 2 | Prio_Critical \<Rightarrow> 3)"

record standard_query =
  sq_space :: "ident option"
  sq_status :: "standard_status option"
  sq_priority :: "standard_priority option"
  sq_category :: "ident option"
  sq_text :: "string option"

definition standard_matches ::
    "(string \<Rightarrow> string \<Rightarrow> bool) \<Rightarrow> db \<Rightarrow> standard_query \<Rightarrow> standard_row \<Rightarrow> bool" where
  "standard_matches likes d q x \<longleftrightarrow>
     (truthy (sq_space q) \<longrightarrow> Some (st_space x) = sq_space q) \<and>
     (sq_status q \<noteq> None \<longrightarrow> Some (st_status x) = sq_status q) \<and>
     (sq_priority q \<noteq> None \<longrightarrow> Some (st_priority x) = sq_priority q) \<and>
     (truthy (sq_category q) \<longrightarrow> st_category x = sq_category q) \<and>
     (truthy (sq_text q) \<longrightarrow> likes (the (sq_text q)) (st_title x) \<or> likes (the (sq_text q)) (st_description x) \<or>
        (\<exists>r \<in> set (t_rules d). sr_standard r = st_id x \<and> likes (the (sq_text q)) (sr_title r)))"

text \<open>The most important first; ties in the database's order.\<close>

definition find_all_standards ::
    "(string \<Rightarrow> string \<Rightarrow> bool) \<Rightarrow> db \<Rightarrow> time \<Rightarrow> standard_query \<Rightarrow> auth_user option \<Rightarrow> standard_view list result" where
  "find_all_standards likes d now q user =
     rbind (allowed_for d user Standards Read Standard
       (map st_id (filter (standard_matches likes d q) (t_standards d)))) (\<lambda>allowed.
     standard_views d now
       (sort_key (\<lambda>x. - priority_rank (st_priority x))
         (filter (\<lambda>x. standard_matches likes d q x \<and> st_id x \<in> set allowed) (t_standards d))) user)"

definition find_one_standard :: "db \<Rightarrow> time \<Rightarrow> ident \<Rightarrow> auth_user option \<Rightarrow> standard_view result" where
  "find_one_standard d now i user =
     rbind (full_standard d i) (\<lambda>x.
     rbind (assert_actor d user Standards Read Standard i) (\<lambda>_.
     rbind (standard_views d now [x] user) (\<lambda>vs. Inr (hd vs))))"

text \<open>The users, categories and pages offered in a form; \<open>rank\<close> is the database's order of names.\<close>

definition standard_options ::
    "(string \<Rightarrow> nat) \<Rightarrow> db \<Rightarrow> auth_user option \<Rightarrow> (user_row list \<times> category_row list \<times> page_row list) result" where
  "standard_options rank d user =
     (let users = sort_key (\<lambda>u. rank (u_display_name u)) (filter u_active (t_users d));
          categories = sort_key c_sort_order (filter (\<lambda>c. c_scope c = STANDARD) (t_categories d));
          pages = sort_key (\<lambda>p. rank (pg_title p))
            (filter (\<lambda>p. pg_deleted p = None \<and> pg_type p = PAGE) (t_pages d)) in
      rbind (allowed_for d user Categories Read Category (map c_id categories)) (\<lambda>ac.
      rbind (allowed_for d user Pages Read Page (map pg_id pages)) (\<lambda>ap.
      Inr (users, filter (\<lambda>c. c_id c \<in> set ac) categories, filter (\<lambda>p. pg_id p \<in> set ap) pages))))"

definition standard_versions ::
    "db \<Rightarrow> time \<Rightarrow> ident \<Rightarrow> auth_user option \<Rightarrow> standard_version_row list result" where
  "standard_versions d now i user =
     rbind (case user of
              Some u \<Rightarrow> rbind (find_one_standard d now i user) (\<lambda>_. Inr ())
            | None \<Rightarrow> rbind (full_standard d i) (\<lambda>_. Inr ())) (\<lambda>_.
     Inr (sort_key (\<lambda>v. - int (sv_version v)) (filter (\<lambda>v. sv_standard v = i) (t_standard_versions d))))"

section \<open>Checks\<close>

definition standard_slug_occupied :: "db \<Rightarrow> unit \<Rightarrow> string \<Rightarrow> bool" where
  "standard_slug_occupied d x s = (List.find (\<lambda>y. st_slug y = s) (t_standards d) \<noteq> None)"

definition standard_slug :: "(string \<Rightarrow> string) \<Rightarrow> db \<Rightarrow> string \<Rightarrow> string option" where
  "standard_slug slugify d title =
     (let base = (if slugify title = [] then ''standard'' else slugify title)
      in slug_loop (length (t_standards d) + 1) (standard_slug_occupied d ()) base 1 base)"

definition ensure_rule :: "db \<Rightarrow> ident \<Rightarrow> ident \<Rightarrow> unit result" where
  "ensure_rule d i r =
     rguard (\<exists>x \<in> set (t_rules d). sr_id x = r \<and> sr_standard x = i) (NotFound ''rule'')"

definition ensure_user :: "db \<Rightarrow> ident \<Rightarrow> unit result" where
  "ensure_user d i = rguard (\<exists>u \<in> set (t_users d). u_id u = i \<and> u_active u) (NotFound ''responsible user'')"

definition assert_standard_access :: "db \<Rightarrow> auth_user option \<Rightarrow> ident \<Rightarrow> action \<Rightarrow> unit result" where
  "assert_standard_access d actor i a = assert_actor d actor Standards a Standard i"

definition assert_standard_destination ::
    "db \<Rightarrow> auth_user option \<Rightarrow> ident \<Rightarrow> ident option \<Rightarrow> action \<Rightarrow> unit result" where
  "assert_standard_destination d actor sp category a =
     (case category of
        Some c \<Rightarrow> assert_actor d actor Standards a Category c
      | None \<Rightarrow> assert_actor d actor Standards a Space sp)"

definition assert_linked_pages_readable :: "db \<Rightarrow> auth_user option \<Rightarrow> ident list \<Rightarrow> unit result" where
  "assert_linked_pages_readable d actor pages =
     (if actor = None \<or> pages = [] then Inr ()
      else rbind (allowed_for d actor Pages Read Page pages) (\<lambda>allowed.
        rguard (length allowed = length (uniq pages)) (NotFound ''page'')))"

definition resolve_standard_space ::
    "db \<Rightarrow> ident option \<Rightarrow> ident option \<Rightarrow> ident list \<Rightarrow> ident option \<Rightarrow> ident result" where
  "resolve_standard_space d requested category pages fallback =
     (let c = Option.bind category (find_category d);
          first = (case pages of [] \<Rightarrow> None
            | p # _ \<Rightarrow> List.find (\<lambda>q. pg_id q = p \<and> pg_deleted q = None) (t_pages d)) in
      rbind (rguard (category \<noteq> None \<longrightarrow> map_option c_scope c = Some STANDARD) (BadRequest ''category'')) (\<lambda>_.
      resolve_open_space d Standard_Kind
        (case requested of Some s \<Rightarrow> Some s | None \<Rightarrow>
          (case c of Some x \<Rightarrow> Some (c_space x) | None \<Rightarrow>
            (case first of Some p \<Rightarrow> Some (pg_space p) | None \<Rightarrow> fallback)))))"

definition assert_standard_space_relations ::
    "db \<Rightarrow> ident \<Rightarrow> ident option \<Rightarrow> ident list \<Rightarrow> unit result" where
  "assert_standard_space_relations d sp category pages =
     (let c = Option.bind category (find_category d);
          n = count_where (\<lambda>p. pg_id p \<in> set pages \<and> pg_space p = sp \<and> pg_deleted p = None) (t_pages d) in
      rbind (rguard (case c of None \<Rightarrow> True | Some x \<Rightarrow> c_space x = sp) (BadRequest ''space of the category'')) (\<lambda>_.
      rguard (\<not> (pages \<noteq> [] \<and> n \<noteq> length (uniq pages))) (BadRequest ''space of a page'')))"

definition validate_relations :: "db \<Rightarrow> ident option \<Rightarrow> ident \<Rightarrow> ident list \<Rightarrow> unit result" where
  "validate_relations d category responsible pages =
     rbind (ensure_user d responsible) (\<lambda>_.
     rbind (rguard (category \<noteq> None \<longrightarrow>
         map_option c_scope (Option.bind category (find_category d)) = Some STANDARD) (BadRequest ''category'')) (\<lambda>_.
     rguard (\<not> (pages \<noteq> [] \<and>
         count_where (\<lambda>p. pg_id p \<in> set pages \<and> pg_deleted p = None) (t_pages d) \<noteq> length (uniq pages)))
       (BadRequest ''page'')))"

section \<open>Creating a standard\<close>

record rule_input =
  ri_title :: string
  ri_description :: "string option"
  ri_type :: "rule_type option"
  ri_sort_order :: "int option"
  ri_min_vcpu :: "int option"
  ri_min_ram :: "int option"
  ri_backup :: "bool option"
  ri_ports :: "json option"
  ri_networks :: "json option"
  ri_naming :: "string option"

definition rule_create_data :: "ident \<Rightarrow> ident \<Rightarrow> rule_input \<Rightarrow> rule_row" where
  "rule_create_data new_id i x =
     \<lparr>sr_id = new_id, sr_standard = i, sr_title = ri_title x, sr_description = ri_description x,
      sr_type = given (ri_type x) Must, sr_sort_order = given (ri_sort_order x) 0,
      sr_min_vcpu = ri_min_vcpu x, sr_min_ram = ri_min_ram x, sr_backup = ri_backup x,
      sr_ports = given (ri_ports x) (JArray []), sr_networks = given (ri_networks x) (JArray []),
      sr_naming = ri_naming x\<rparr>"

record standard_input =
  ni_title :: string
  ni_description :: string
  ni_justification :: string
  ni_space :: "ident option"
  ni_priority :: "standard_priority option"
  ni_category :: "ident option"
  ni_responsible :: ident
  ni_from :: "time option"
  ni_until :: "time option"
  ni_pages :: "ident list"
  ni_rules :: "rule_input list"

definition new_standard :: "ident \<Rightarrow> string \<Rightarrow> ident \<Rightarrow> ident \<Rightarrow> standard_input \<Rightarrow> standard_row" where
  "new_standard new_id slug sp uid x =
     \<lparr>st_id = new_id, st_title = ni_title x, st_slug = slug, st_description = ni_description x,
      st_justification = ni_justification x, st_status = Std_Draft,
      st_priority = given (ni_priority x) Prio_Medium, st_version = 1, st_mcp = False,
      st_valid_from = ni_from x, st_valid_until = ni_until x, st_created_by = uid,
      st_responsible = ni_responsible x, st_space = sp, st_category = ni_category x\<rparr>"

text \<open>
  \<open>rule_ids\<close> are the ids of the new rules. A page named twice passes the checks, which count pages
  without repetition, and then violates the key of the links.
\<close>

definition create_standard ::
    "(string \<Rightarrow> string) \<Rightarrow> db \<Rightarrow> ident \<Rightarrow> ident list \<Rightarrow> standard_input \<Rightarrow> ident \<Rightarrow> auth_user option \<Rightarrow>
     (db \<times> standard_row) result" where
  "create_standard slugify d new_id rule_ids x uid actor =
     rbind (resolve_standard_space d (ni_space x) (ni_category x) (ni_pages x) None) (\<lambda>sp.
     rbind (assert_standard_destination d actor sp (ni_category x) Create) (\<lambda>_.
     rbind (assert_linked_pages_readable d actor (ni_pages x)) (\<lambda>_.
     rbind (validate_relations d (ni_category x) (ni_responsible x) (ni_pages x)) (\<lambda>_.
     rbind (assert_standard_space_relations d sp (ni_category x) (ni_pages x)) (\<lambda>_.
     rbind (or_throw (Internal ''no slug'') (standard_slug slugify d (ni_title x))) (\<lambda>slug.
     let row = new_standard new_id slug sp uid x;
         rules = map (\<lambda>(r, y). rule_create_data r new_id y) (zip rule_ids (ni_rules x)) in
     rbind (rguard (new_id \<notin> st_id ` set (t_standards d) \<and> slug \<notin> st_slug ` set (t_standards d) \<and>
         distinct (map sr_id (t_rules d @ rules)) \<and> distinct (ni_pages x)) (Internal ''P2002'')) (\<lambda>_.
     rbind (rguard (uid \<in> u_id ` set (t_users d)) (Internal ''P2003'')) (\<lambda>_.
     Inr (d\<lparr>t_standards := t_standards d @ [row], t_rules := t_rules d @ rules,
            t_standard_pages := t_standard_pages d @
              map (\<lambda>p. \<lparr>sp_standard = new_id, sp_page = p\<rparr>) (ni_pages x)\<rparr>, row)))))))))"

section \<open>Changing a standard\<close>

text \<open>The version's snapshot, kept once: an existing one stays as it is.\<close>

definition snapshot_row :: "db \<Rightarrow> standard_row \<Rightarrow> ident \<Rightarrow> standard_version_row" where
  "snapshot_row d x uid =
     \<lparr>sv_standard = st_id x, sv_version = st_version x, sv_author = uid,
      sv_snapshot = \<lparr>ss_title = st_title x, ss_description = st_description x,
        ss_justification = st_justification x, ss_status = st_status x, ss_priority = st_priority x,
        ss_valid_from = st_valid_from x, ss_valid_until = st_valid_until x,
        ss_rules = map map_rule (standard_rules d (st_id x))\<rparr>\<rparr>"

definition snapshot_standard :: "db \<Rightarrow> standard_row \<Rightarrow> ident \<Rightarrow> standard_version_row list" where
  "snapshot_standard d x uid =
     (if (st_id x, st_version x) \<in> (\<lambda>v. (sv_standard v, sv_version v)) ` set (t_standard_versions d)
      then t_standard_versions d else t_standard_versions d @ [snapshot_row d x uid])"

record standard_change =
  sx_title :: "string option"
  sx_description :: "string option"
  sx_justification :: "string option"
  sx_space :: "ident option"
  sx_priority :: "standard_priority option"
  sx_category :: "ident option option"
  sx_responsible :: "ident option"
  sx_from :: "time option option"
  sx_until :: "time option option"
  sx_mcp :: "bool option"

definition content_change :: "standard_change \<Rightarrow> bool" where
  "content_change x \<longleftrightarrow> sx_title x \<noteq> None \<or> sx_description x \<noteq> None \<or> sx_justification x \<noteq> None \<or>
     sx_space x \<noteq> None \<or> sx_priority x \<noteq> None \<or> sx_category x \<noteq> None \<or> sx_responsible x \<noteq> None \<or>
     sx_from x \<noteq> None \<or> sx_until x \<noteq> None"

text \<open>A changed active standard goes back to review, hidden from MCP.\<close>

definition reopened :: "bool \<Rightarrow> standard_row \<Rightarrow> standard_row" where
  "reopened b x = (if b then x\<lparr>st_status := Std_Review, st_mcp := False\<rparr> else x)"

definition changed_standard ::
    "standard_change \<Rightarrow> ident \<Rightarrow> standard_status \<Rightarrow> standard_row \<Rightarrow> standard_row" where
  "changed_standard x sp status y =
     reopened (status = Std_Active \<and> content_change x)
       (y\<lparr>st_title := given (sx_title x) (st_title y),
          st_description := given (sx_description x) (st_description y),
          st_justification := given (sx_justification x) (st_justification y), st_space := sp,
          st_priority := given (sx_priority x) (st_priority y),
          st_category := given (sx_category x) (st_category y),
          st_responsible := given (sx_responsible x) (st_responsible y),
          st_valid_from := given (sx_from x) (st_valid_from y),
          st_valid_until := given (sx_until x) (st_valid_until y),
          st_mcp := given (sx_mcp x) (st_mcp y), st_version := st_version y + 1\<rparr>)"

definition update_standard ::
    "db \<Rightarrow> ident \<Rightarrow> standard_change \<Rightarrow> ident \<Rightarrow> auth_user option \<Rightarrow> db result" where
  "update_standard d i x uid actor =
     rbind (assert_standard_access d actor i Update) (\<lambda>_.
     rbind (full_standard d i) (\<lambda>existing.
     rbind (rguard (st_status existing \<noteq> Std_Deprecated) (BadRequest ''deprecated'')) (\<lambda>_.
     rbind (rguard (\<not> (sx_mcp x = Some True \<and> st_status existing \<noteq> Std_Active)) (BadRequest ''not active'')) (\<lambda>_.
     if \<not> content_change x \<and> sx_mcp x \<noteq> None
     then Inr (d\<lparr>t_standards := update_where (\<lambda>y. st_id y = i) (\<lambda>y. y\<lparr>st_mcp := the (sx_mcp x)\<rparr>) (t_standards d)\<rparr>)
     else
       let category = given (sx_category x) (st_category existing);
           pages = standard_page_ids d i in
       rbind (resolve_standard_space d (sx_space x) category pages (Some (st_space existing))) (\<lambda>sp.
       rbind (if sx_space x \<noteq> None \<or> sx_category x \<noteq> None
              then assert_standard_destination d actor sp category Update else Inr ()) (\<lambda>_.
       rbind (assert_standard_space_relations d sp category pages) (\<lambda>_.
       rbind (if sx_category x \<noteq> None \<or> truthy (sx_responsible x) \<or> given (sx_from x) None \<noteq> None \<or>
                given (sx_until x) None \<noteq> None
              then validate_relations d (given (sx_category x) None) (given (sx_responsible x) (st_responsible existing)) []
              else Inr ()) (\<lambda>_.
       rbind (rguard (given (sx_responsible x) (st_responsible existing) \<in> u_id ` set (t_users d)) (Internal ''P2003'')) (\<lambda>_.
       Inr (d\<lparr>t_standard_versions := snapshot_standard d existing uid,
              t_standards := update_where (\<lambda>y. st_id y = i) (changed_standard x sp (st_status existing))
                (t_standards d)\<rparr>))))))))))"

definition remove_standard :: "db \<Rightarrow> ident \<Rightarrow> auth_user option \<Rightarrow> (db \<times> standard_row) result" where
  "remove_standard d i actor =
     rbind (assert_standard_access d actor i Delete) (\<lambda>_.
     rbind (full_standard d i) (\<lambda>existing. Inr (delete_standard i d, existing)))"

section \<open>Approval\<close>

definition set_standard :: "(standard_row \<Rightarrow> standard_row) \<Rightarrow> ident \<Rightarrow> db \<Rightarrow> db" where
  "set_standard f i d = d\<lparr>t_standards := update_where (\<lambda>y. st_id y = i) f (t_standards d)\<rparr>"

definition submit_standard :: "db \<Rightarrow> ident \<Rightarrow> auth_user option \<Rightarrow> db result" where
  "submit_standard d i actor =
     rbind (assert_standard_access d actor i Update) (\<lambda>_.
     rbind (full_standard d i) (\<lambda>_.
     Inr (set_standard (\<lambda>y. y\<lparr>st_status := Std_Review, st_mcp := False\<rparr>) i d)))"

definition approve_standard :: "db \<Rightarrow> ident \<Rightarrow> auth_user option \<Rightarrow> db result" where
  "approve_standard d i actor =
     rbind (assert_standard_access d actor i Approve) (\<lambda>_.
     rbind (full_standard d i) (\<lambda>current.
     rbind (rguard (st_status current = Std_Review) (BadRequest ''not in review'')) (\<lambda>_.
     Inr (set_standard (\<lambda>y. y\<lparr>st_status := Std_Active\<rparr>) i d))))"

definition deprecate_standard :: "db \<Rightarrow> ident \<Rightarrow> auth_user option \<Rightarrow> db result" where
  "deprecate_standard d i actor =
     rbind (assert_standard_access d actor i Approve) (\<lambda>_.
     rbind (full_standard d i) (\<lambda>_.
     Inr (set_standard (\<lambda>y. y\<lparr>st_status := Std_Deprecated, st_mcp := False\<rparr>) i d)))"

section \<open>Rules\<close>

record rule_change =
  rx_title :: "string option"
  rx_description :: "string option"
  rx_type :: "rule_type option"
  rx_sort_order :: "int option"
  rx_min_vcpu :: "int option option"
  rx_min_ram :: "int option option"
  rx_backup :: "bool option option"
  rx_ports :: "json option"
  rx_networks :: "json option"
  rx_naming :: "string option option"

definition rule_update_data :: "rule_change \<Rightarrow> rule_row \<Rightarrow> rule_row" where
  "rule_update_data x r =
     r\<lparr>sr_title := given (rx_title x) (sr_title r),
       sr_description := (case rx_description x of None \<Rightarrow> sr_description r | Some t \<Rightarrow> Some t),
       sr_type := given (rx_type x) (sr_type r), sr_sort_order := given (rx_sort_order x) (sr_sort_order r),
       sr_min_vcpu := given (rx_min_vcpu x) (sr_min_vcpu r), sr_min_ram := given (rx_min_ram x) (sr_min_ram r),
       sr_backup := given (rx_backup x) (sr_backup r), sr_ports := given (rx_ports x) (sr_ports r),
       sr_networks := given (rx_networks x) (sr_networks r), sr_naming := given (rx_naming x) (sr_naming r)\<rparr>"

text \<open>What the three rule operations share: the snapshot, the change of the rules, the new version.\<close>

definition with_rules :: "db \<Rightarrow> standard_row \<Rightarrow> rule_row list \<Rightarrow> ident \<Rightarrow> db" where
  "with_rules d x rules uid =
     d\<lparr>t_standard_versions := snapshot_standard d x uid, t_rules := rules,
       t_standards := update_where (\<lambda>y. st_id y = st_id x)
         (\<lambda>y. reopened (st_status x = Std_Active) (y\<lparr>st_version := st_version y + 1\<rparr>)) (t_standards d)\<rparr>"

definition add_rule ::
    "db \<Rightarrow> time \<Rightarrow> ident \<Rightarrow> ident \<Rightarrow> rule_input \<Rightarrow> ident \<Rightarrow> auth_user option \<Rightarrow> (db \<times> standard_view result) result" where
  "add_rule d now new_id i x uid actor =
     rbind (assert_standard_access d actor i Update) (\<lambda>_.
     rbind (full_standard d i) (\<lambda>s.
     rbind (insert_row sr_id (Internal ''P2002'') (rule_create_data new_id i x) (t_rules d)) (\<lambda>rules.
     let d' = with_rules d s rules uid in Inr (d', find_one_standard d' now i actor))))"

definition update_rule ::
    "db \<Rightarrow> time \<Rightarrow> ident \<Rightarrow> ident \<Rightarrow> rule_change \<Rightarrow> ident \<Rightarrow> auth_user option \<Rightarrow> (db \<times> standard_view result) result" where
  "update_rule d now i r x uid actor =
     rbind (assert_standard_access d actor i Update) (\<lambda>_.
     rbind (full_standard d i) (\<lambda>s.
     rbind (ensure_rule d i r) (\<lambda>_.
     let d' = with_rules d s (update_where (\<lambda>y. sr_id y = r) (rule_update_data x) (t_rules d)) uid in
     Inr (d', find_one_standard d' now i actor))))"

definition remove_rule ::
    "db \<Rightarrow> time \<Rightarrow> ident \<Rightarrow> ident \<Rightarrow> ident \<Rightarrow> auth_user option \<Rightarrow> (db \<times> standard_view result) result" where
  "remove_rule d now i r uid actor =
     rbind (assert_standard_access d actor i Update) (\<lambda>_.
     rbind (full_standard d i) (\<lambda>s.
     rbind (ensure_rule d i r) (\<lambda>_.
     let d' = with_rules d s (delete_where (\<lambda>y. sr_id y = r) (t_rules d)) uid in
     Inr (d', find_one_standard d' now i actor))))"

section \<open>Links and exceptions\<close>

definition link_page ::
    "db \<Rightarrow> time \<Rightarrow> ident \<Rightarrow> ident \<Rightarrow> auth_user option \<Rightarrow> (db \<times> standard_view result) result" where
  "link_page d now i page actor =
     rbind (assert_standard_access d actor i Update) (\<lambda>_.
     rbind (assert_linked_pages_readable d actor [page]) (\<lambda>_.
     rbind (full_standard d i) (\<lambda>s.
     rbind (or_throw (NotFound ''page'') (List.find (\<lambda>p. pg_id p = page \<and> pg_deleted p = None) (t_pages d))) (\<lambda>p.
     rbind (rguard (pg_space p = st_space s) (BadRequest ''space'')) (\<lambda>_.
     let row = \<lparr>sp_standard = i, sp_page = page\<rparr>;
         d' = (if row \<in> set (t_standard_pages d) then d else d\<lparr>t_standard_pages := t_standard_pages d @ [row]\<rparr>)
     in Inr (d', find_one_standard d' now i actor))))))"

definition unlink_page ::
    "db \<Rightarrow> time \<Rightarrow> ident \<Rightarrow> ident \<Rightarrow> auth_user option \<Rightarrow> (db \<times> standard_view result) result" where
  "unlink_page d now i page actor =
     rbind (assert_standard_access d actor i Update) (\<lambda>_.
     let d' = d\<lparr>t_standard_pages := delete_where (\<lambda>l. sp_standard l = i \<and> sp_page l = page) (t_standard_pages d)\<rparr>
     in Inr (d', find_one_standard d' now i actor))"

definition request_exception ::
    "db \<Rightarrow> time \<Rightarrow> ident \<Rightarrow> ident \<Rightarrow> string \<Rightarrow> ident \<Rightarrow> time option \<Rightarrow> ident \<Rightarrow> auth_user option \<Rightarrow>
     (db \<times> standard_view result) result" where
  "request_exception d now new_id i reason responsible expires uid actor =
     rbind (assert_standard_access d actor i Read) (\<lambda>_.
     rbind (full_standard d i) (\<lambda>_.
     rbind (ensure_user d responsible) (\<lambda>_.
     rbind (rguard (uid \<in> u_id ` set (t_users d)) (Internal ''P2003'')) (\<lambda>_.
     rbind (insert_row ex_id (Internal ''P2002'')
       \<lparr>ex_id = new_id, ex_standard = i, ex_reason = reason, ex_status = Exc_Requested, ex_expires = expires,
        ex_note = None, ex_requested_by = uid, ex_responsible = responsible, ex_decided_by = None\<rparr>
       (t_exceptions d)) (\<lambda>es.
     let d' = d\<lparr>t_exceptions := es\<rparr> in Inr (d', find_one_standard d' now i actor))))))"

definition decide_exception ::
    "db \<Rightarrow> time \<Rightarrow> ident \<Rightarrow> ident \<Rightarrow> bool \<Rightarrow> string option \<Rightarrow> ident \<Rightarrow> auth_user option \<Rightarrow>
     (db \<times> standard_view result) result" where
  "decide_exception d now i e approved note_text uid actor =
     rbind (assert_standard_access d actor i Approve) (\<lambda>_.
     rbind (rguard (\<exists>x \<in> set (t_exceptions d). ex_id x = e \<and> ex_standard x = i) (NotFound ''exception'')) (\<lambda>_.
     let decide_row = (\<lambda>x. x\<lparr>ex_status := (if approved then Exc_Approved else Exc_Rejected),
           ex_note := (case note_text of None \<Rightarrow> ex_note x | Some t \<Rightarrow> Some t), ex_decided_by := Some uid\<rparr>);
         d' = d\<lparr>t_exceptions := update_where (\<lambda>x. ex_id x = e) decide_row (t_exceptions d)\<rparr>
     in Inr (d', find_one_standard d' now i actor)))"

end
