(* ===== verification/Standard_Lifecycle.thy ===== *)
theory Standard_Lifecycle
  imports Standards
begin

text \<open>
  What the approval of standards guarantees, over every sequence of requests of the service and of
  the deletions that reach its tables.
\<close>

section \<open>Requests and what is kept\<close>

text \<open>
  A request of \<open>actor\<close>, as the controller passes it on (\<open>None\<close>: a call without a user, for which the
  service skips its checks); deletions elsewhere have any.
\<close>

inductive standard_request :: "auth_user option \<Rightarrow> db \<Rightarrow> db \<Rightarrow> bool" where
  Create: "create_standard slugify d i rule_ids x uid actor = Inr (d', row) \<Longrightarrow> standard_request actor d d'"
| Update: "update_standard d i sx uid actor = Inr d' \<Longrightarrow> standard_request actor d d'"
| Remove: "remove_standard d i actor = Inr (d', row) \<Longrightarrow> standard_request actor d d'"
| Submit: "submit_standard d i actor = Inr d' \<Longrightarrow> standard_request actor d d'"
| Approve: "approve_standard d i actor = Inr d' \<Longrightarrow> standard_request actor d d'"
| Deprecate: "deprecate_standard d i actor = Inr d' \<Longrightarrow> standard_request actor d d'"
| Add_Rule: "add_rule d now r i ru uid actor = Inr (d', ans) \<Longrightarrow> standard_request actor d d'"
| Update_Rule: "update_rule d now i r rx uid actor = Inr (d', ans) \<Longrightarrow> standard_request actor d d'"
| Remove_Rule: "remove_rule d now i r uid actor = Inr (d', ans) \<Longrightarrow> standard_request actor d d'"
| Link: "link_page d now i p actor = Inr (d', ans) \<Longrightarrow> standard_request actor d d'"
| Unlink: "unlink_page d now i p actor = Inr (d', ans) \<Longrightarrow> standard_request actor d d'"
| Request_Exception: "request_exception d now e i reason resp expires uid actor = Inr (d', ans) \<Longrightarrow> standard_request actor d d'"
| Decide_Exception: "decide_exception d now i e ok note_text uid actor = Inr (d', ans) \<Longrightarrow> standard_request actor d d'"
| Category_Gone: "standard_request actor d (delete_category i d)"
| Pages_Gone: "standard_request actor d (delete_pages q d)"

definition versions_of_standard :: "db \<Rightarrow> ident \<Rightarrow> standard_version_row list" where
  "versions_of_standard d i = filter (\<lambda>v. sv_standard v = i) (t_standard_versions d)"

text \<open>
  Only active standards are open to MCP; every standard has the versions 1, 2, ... below its own.
\<close>

definition standards_ok :: "db \<Rightarrow> bool" where
  "standards_ok d \<longleftrightarrow> distinct (map st_id (t_standards d)) \<and> distinct (map sr_id (t_rules d)) \<and>
     sr_standard ` set (t_rules d) \<subseteq> st_id ` set (t_standards d) \<and>
     sv_standard ` set (t_standard_versions d) \<subseteq> st_id ` set (t_standards d) \<and>
     (\<forall>x \<in> set (t_standards d). (st_mcp x \<longrightarrow> st_status x = Std_Active) \<and> 1 \<le> st_version x \<and>
        map sv_version (versions_of_standard d (st_id x)) = [1..<st_version x])"

text \<open>What an approver approves: the text, the priority, the validity and the rules.\<close>

definition standard_text ::
    "db \<Rightarrow> standard_row \<Rightarrow> (string \<times> string \<times> string) \<times> standard_priority \<times> (time option \<times> time option) \<times> rule_row list" where
  "standard_text d x = ((st_title x, st_description x, st_justification x), st_priority x,
     (st_valid_from x, st_valid_until x), standard_rules d (st_id x))"

text \<open>
  The request was the approval by its own actor, who, if a user, is allowed to approve this standard:
  the decision of the access evaluation on the state before.
\<close>

definition approved_by :: "auth_user option \<Rightarrow> db \<Rightarrow> ident \<Rightarrow> db \<Rightarrow> bool" where
  "approved_by actor d i d' \<longleftrightarrow> approve_standard d i actor = Inr d' \<and>
     (\<forall>u. actor = Some u \<longrightarrow> (\<exists>dc. evaluate d u Standards Approve Standard i = Inr dc \<and> dc_allowed dc))"

definition approval_step :: "auth_user option \<Rightarrow> db \<Rightarrow> db \<Rightarrow> bool" where
  "approval_step actor d d' \<longleftrightarrow> (\<forall>x' \<in> set (t_standards d'). st_status x' = Std_Active \<longrightarrow>
     (\<exists>x \<in> set (t_standards d). st_id x = st_id x' \<and> standard_text d x = standard_text d' x' \<and>
        (st_status x = Std_Active \<or>
         (st_status x = Std_Review \<and> approved_by actor d (st_id x) d'))))"

text \<open>The text is as before, or what it was is the newest version.\<close>

definition standard_recorded :: "db \<Rightarrow> db \<Rightarrow> bool" where
  "standard_recorded d d' \<longleftrightarrow> (\<forall>x \<in> set (t_standards d). \<forall>x' \<in> set (t_standards d'). st_id x' = st_id x \<longrightarrow>
     (standard_text d' x' = standard_text d x \<and> st_version x' = st_version x \<and>
      versions_of_standard d' (st_id x) = versions_of_standard d (st_id x)) \<or>
     (st_version x' = st_version x + 1 \<and> (\<exists>uid. versions_of_standard d' (st_id x) =
        versions_of_standard d (st_id x) @ [snapshot_row d x uid])))"

abbreviation kept :: "auth_user option \<Rightarrow> db \<Rightarrow> db \<Rightarrow> bool" where
  "kept actor d d' \<equiv> standards_ok d' \<and> approval_step actor d d' \<and> standard_recorded d d'"

lemma standards_okD:
  assumes "standards_ok d" and "x \<in> set (t_standards d)"
  shows "st_mcp x \<Longrightarrow> st_status x = Std_Active" and "1 \<le> st_version x"
    and "map sv_version (versions_of_standard d (st_id x)) = [1..<st_version x]"
  using assms by (auto simp: standards_ok_def)

lemma standards_ok_unique:
  "standards_ok d \<Longrightarrow> x \<in> set (t_standards d) \<Longrightarrow> y \<in> set (t_standards d) \<Longrightarrow> st_id x = st_id y \<Longrightarrow> x = y"
  unfolding standards_ok_def using unique_key_eq by metis

section \<open>Steps that leave the texts alone\<close>

text \<open>The columns the properties speak of.\<close>

definition standard_core ::
    "standard_row \<Rightarrow> ident \<times> standard_status \<times> nat \<times> bool \<times> (string \<times> string \<times> string) \<times> standard_priority \<times>
       (time option \<times> time option)" where
  "standard_core x = (st_id x, st_status x, st_version x, st_mcp x,
     (st_title x, st_description x, st_justification x), st_priority x, (st_valid_from x, st_valid_until x))"

lemma same_cores:
  assumes ok: "standards_ok d" and cores: "map standard_core (t_standards d') = map standard_core (t_standards d)"
    and "t_rules d' = t_rules d" and "t_standard_versions d' = t_standard_versions d"
  shows "kept actor d d'"
proof -
  have ids: "map st_id (t_standards d') = map st_id (t_standards d)"
    using arg_cong [OF cores, of "map fst"] by (simp add: standard_core_def comp_def)
  have rules: "standard_rules d' i = standard_rules d i" and vs: "versions_of_standard d' i = versions_of_standard d i" for i
    using assms(3,4) by (simp_all add: standard_rules_def versions_of_standard_def)
  have origin: "\<exists>x \<in> set (t_standards d). standard_core x = standard_core x'" if "x' \<in> set (t_standards d')" for x'
  proof -
    from that have "standard_core x' \<in> set (map standard_core (t_standards d'))" by simp
    then show ?thesis unfolding cores by auto
  qed
  have same: "standard_core x = standard_core x' \<Longrightarrow> standard_text d' x' = standard_text d x" for x x'
    by (simp add: standard_core_def standard_text_def rules)
  have "standards_ok d'"
    unfolding standards_ok_def
  proof (intro conjI ballI)
    show "distinct (map st_id (t_standards d'))" "distinct (map sr_id (t_rules d'))"
      using ok ids assms(3) by (simp_all add: standards_ok_def)
    show "sr_standard ` set (t_rules d') \<subseteq> st_id ` set (t_standards d')"
      "sv_standard ` set (t_standard_versions d') \<subseteq> st_id ` set (t_standards d')"
      using ok arg_cong [OF ids, of set] assms(3,4) by (simp_all add: standards_ok_def)
    fix x' assume "x' \<in> set (t_standards d')"
    from origin [OF this] obtain x where x: "x \<in> set (t_standards d)" "standard_core x = standard_core x'" by blast
    with standards_okD [OF ok x(1)] vs
    show "st_mcp x' \<longrightarrow> st_status x' = Std_Active" "1 \<le> st_version x'"
      "map sv_version (versions_of_standard d' (st_id x')) = [1..<st_version x']"
      by (simp_all add: standard_core_def)
  qed
  moreover have "approval_step actor d d'"
    unfolding approval_step_def
  proof (intro ballI impI)
    fix x' assume "x' \<in> set (t_standards d')" and active: "st_status x' = Std_Active"
    from origin [OF this(1)] obtain x where x: "x \<in> set (t_standards d)" "standard_core x = standard_core x'" by blast
    then show "\<exists>x \<in> set (t_standards d). st_id x = st_id x' \<and> standard_text d x = standard_text d' x' \<and>
        (st_status x = Std_Active \<or>
         (st_status x = Std_Review \<and> approved_by actor d (st_id x) d'))"
      using same [OF x(2)] active by (intro bexI [OF _ x(1)]) (simp add: standard_core_def)
  qed
  moreover have "standard_recorded d d'"
    unfolding standard_recorded_def
  proof (intro ballI impI disjI1)
    fix x x' assume x: "x \<in> set (t_standards d)" and x': "x' \<in> set (t_standards d')" and id: "st_id x' = st_id x"
    from origin [OF x'] obtain y where y: "y \<in> set (t_standards d)" "standard_core y = standard_core x'" by blast
    then have "st_id y = st_id x" using id by (simp add: standard_core_def)
    then have "y = x" using standards_ok_unique [OF ok y(1) x] by simp
    with y(2) same [OF y(2)] vs
    show "standard_text d' x' = standard_text d x \<and> st_version x' = st_version x \<and>
      versions_of_standard d' (st_id x) = versions_of_standard d (st_id x)"
      by (simp add: standard_core_def)
  qed
  ultimately show ?thesis by blast
qed

section \<open>Steps that change one standard\<close>

lemma snapshot_new:
  assumes "standards_ok d" and "x \<in> set (t_standards d)"
  shows "snapshot_standard d x uid = t_standard_versions d @ [snapshot_row d x uid]"
proof -
  have "(st_id x, st_version x) \<notin> (\<lambda>v. (sv_standard v, sv_version v)) ` set (t_standard_versions d)"
  proof
    assume "(st_id x, st_version x) \<in> (\<lambda>v. (sv_standard v, sv_version v)) ` set (t_standard_versions d)"
    then obtain v where "v \<in> set (versions_of_standard d (st_id x))" "sv_version v = st_version x"
      by (auto simp: versions_of_standard_def)
    then have "st_version x \<in> set (map sv_version (versions_of_standard d (st_id x)))" by force
    then show False by (simp add: standards_okD(3) [OF assms])
  qed
  then show ?thesis by (simp add: snapshot_standard_def)
qed

lemma snapshot_row_key [simp]: "sv_standard (snapshot_row d x uid) = st_id x" "sv_version (snapshot_row d x uid) = st_version x"
  by (simp_all add: snapshot_row_def)

text \<open>
  The standard \<open>x\<close> becomes \<open>f x\<close>, either with its text and version, or with the next version after
  its snapshot.
\<close>

lemma one_standard:
  assumes ok: "standards_ok d" and x: "x \<in> set (t_standards d)"
    and rows: "t_standards d' = update_where (\<lambda>y. st_id y = st_id x) f (t_standards d)"
    and f: "st_id (f x) = st_id x" "st_mcp (f x) \<longrightarrow> st_status (f x) = Std_Active"
    and rules: "\<forall>j. j \<noteq> st_id x \<longrightarrow> standard_rules d' j = standard_rules d j"
      "distinct (map sr_id (t_rules d'))" "sr_standard ` set (t_rules d') \<subseteq> st_id ` set (t_standards d)"
    and change: "(st_version (f x) = st_version x \<and> standard_text d' (f x) = standard_text d x \<and>
        t_standard_versions d' = t_standard_versions d \<and>
        (st_status (f x) = Std_Active \<longrightarrow> st_status x = Std_Active \<or>
          (st_status x = Std_Review \<and> approved_by actor d (st_id x) d'))) \<or>
      (st_version (f x) = st_version x + 1 \<and> t_standard_versions d' = snapshot_standard d x uid \<and>
        (st_status (f x) = Std_Active \<longrightarrow> st_status x = Std_Active \<and> standard_text d' (f x) = standard_text d x))"
  shows "kept actor d d'"
proof -
  have origin: "(x' = f x) \<or> (x' \<in> set (t_standards d) \<and> st_id x' \<noteq> st_id x)" if "x' \<in> set (t_standards d')" for x'
  proof -
    from that obtain y where y: "y \<in> set (t_standards d)" "x' = (if st_id y = st_id x then f y else y)"
      unfolding rows set_update_where by blast
    then show ?thesis using standards_ok_unique [OF ok y(1) x] by (cases "st_id y = st_id x") simp_all
  qed
  have ids: "st_id ` set (t_standards d') = st_id ` set (t_standards d) \<and> distinct (map st_id (t_standards d'))"
  proof -
    have m: "map st_id (t_standards d') = map st_id (t_standards d)"
      unfolding rows update_where_def
      by (simp, intro ballI impI) (metis f(1) standards_ok_unique [OF ok _ x])
    have "st_id ` set (t_standards d') = st_id ` set (t_standards d)" using arg_cong [OF m, of set] by simp
    moreover have "distinct (map st_id (t_standards d'))" using ok m by (simp add: standards_ok_def)
    ultimately show ?thesis by blast
  qed
  have other: "standard_text d' y = standard_text d y" if "st_id y \<noteq> st_id x" for y
    using rules(1) that by (simp add: standard_text_def)
  have vs: "t_standard_versions d' = t_standard_versions d \<and> st_version (f x) = st_version x \<or>
      t_standard_versions d' = t_standard_versions d @ [snapshot_row d x uid] \<and> st_version (f x) = st_version x + 1"
    using change snapshot_new [OF ok x] by metis
  then have vs_other: "versions_of_standard d' j = versions_of_standard d j" if "j \<noteq> st_id x" for j
    using that by (auto simp: versions_of_standard_def)
  have vs_x: "versions_of_standard d' (st_id x) = versions_of_standard d (st_id x) \<and> st_version (f x) = st_version x \<or>
      versions_of_standard d' (st_id x) = versions_of_standard d (st_id x) @ [snapshot_row d x uid] \<and>
        st_version (f x) = st_version x + 1"
    using vs by (auto simp: versions_of_standard_def)
  have "sv_standard ` set (t_standard_versions d') \<subseteq> st_id ` set (t_standards d)"
    using vs ok imageI [OF x, of st_id] unfolding standards_ok_def by (elim disjE conjE) simp_all
  moreover have "(st_mcp x' \<longrightarrow> st_status x' = Std_Active) \<and> 1 \<le> st_version x' \<and>
      map sv_version (versions_of_standard d' (st_id x')) = [1..<st_version x']" if x': "x' \<in> set (t_standards d')" for x'
    using origin [OF x']
  proof
    assume "x' = f x"
    then show ?thesis using vs_x f standards_okD(2,3) [OF ok x] by auto
  next
    assume "x' \<in> set (t_standards d) \<and> st_id x' \<noteq> st_id x"
    then show ?thesis using vs_other standards_okD [OF ok, of x'] by auto
  qed
  ultimately have "standards_ok d'" using ids rules(2,3) by (simp add: standards_ok_def)
  moreover have "approval_step actor d d'"
    unfolding approval_step_def
  proof (intro ballI impI)
    fix x' assume x': "x' \<in> set (t_standards d')" and active: "st_status x' = Std_Active"
    show "\<exists>y \<in> set (t_standards d). st_id y = st_id x' \<and> standard_text d y = standard_text d' x' \<and>
        (st_status y = Std_Active \<or>
         (st_status y = Std_Review \<and> approved_by actor d (st_id y) d'))"
      using origin [OF x']
    proof
      assume "x' = f x"
      then show ?thesis using change active f(1) by (intro bexI [OF _ x]) auto
    next
      assume "x' \<in> set (t_standards d) \<and> st_id x' \<noteq> st_id x"
      then show ?thesis using other active by (intro bexI [of _ x']) auto
    qed
  qed
  moreover have "standard_recorded d d'"
    unfolding standard_recorded_def
  proof (intro ballI impI)
    fix y x' assume y: "y \<in> set (t_standards d)" and x': "x' \<in> set (t_standards d')" and id: "st_id x' = st_id y"
    show "(standard_text d' x' = standard_text d y \<and> st_version x' = st_version y \<and>
        versions_of_standard d' (st_id y) = versions_of_standard d (st_id y)) \<or>
      (st_version x' = st_version y + 1 \<and> (\<exists>uid. versions_of_standard d' (st_id y) =
        versions_of_standard d (st_id y) @ [snapshot_row d y uid]))"
      using origin [OF x']
    proof
      assume fx: "x' = f x"
      with id f(1) have "y = x" using standards_ok_unique [OF ok y x] by simp
      with fx vs_x change show ?thesis by auto
    next
      assume "x' \<in> set (t_standards d) \<and> st_id x' \<noteq> st_id x"
      moreover from this have "y = x'" using standards_ok_unique [OF ok y] id by simp
      ultimately show ?thesis using other vs_other by simp
    qed
  qed
  ultimately show ?thesis by blast
qed

section \<open>The requests\<close>

lemma full_standard_Inr: "full_standard d i = Inr x \<Longrightarrow> x \<in> set (t_standards d) \<and> st_id x = i"
  by (auto simp: full_standard_def find_standard_def dest: find_SomeD)

lemma reopened_fields [simp]:
  "st_id (reopened b x) = st_id x" "st_version (reopened b x) = st_version x"
  "st_status (reopened b x) = (if b then Std_Review else st_status x)"
  "st_mcp (reopened b x) = (\<not> b \<and> st_mcp x)" "standard_text d (reopened b x) = standard_text d x"
  by (simp_all add: reopened_def standard_text_def)

lemma reopened_False [simp]: "reopened False x = x"
  by (simp add: reopened_def)

text \<open>A status change through \<open>set_standard\<close>.\<close>

lemma status_kept:
  assumes ok: "standards_ok d" and x: "x \<in> set (t_standards d)" "st_id x = i"
    and f: "f x = x\<lparr>st_status := status, st_mcp := mcp\<rparr>" "mcp \<longrightarrow> status = Std_Active"
    and active: "status = Std_Active \<longrightarrow> st_status x = Std_Active \<or>
      (st_status x = Std_Review \<and> approved_by actor d (st_id x) (set_standard f i d))"
  shows "kept actor d (set_standard f i d)"
proof -
  have same: "t_standards (set_standard f i d) = update_where (\<lambda>y. st_id y = st_id x) f (t_standards d)"
    "t_rules (set_standard f i d) = t_rules d" "t_standard_versions (set_standard f i d) = t_standard_versions d"
    by (simp_all add: set_standard_def x(2))
  then have rules: "standard_rules (set_standard f i d) j = standard_rules d j" for j
    by (simp add: standard_rules_def)
  show ?thesis
    by (rule one_standard [OF ok x(1) same(1)])
      (use ok active in \<open>simp_all add: f same rules standards_ok_def standard_text_def\<close>)
qed

text \<open>A change of rules.\<close>

lemma rules_kept:
  assumes ok: "standards_ok d" and x: "x \<in> set (t_standards d)"
    and rules: "\<forall>j. j \<noteq> st_id x \<longrightarrow> filter (\<lambda>r. sr_standard r = j) rs = filter (\<lambda>r. sr_standard r = j) (t_rules d)"
      "distinct (map sr_id rs)" "sr_standard ` set rs \<subseteq> st_id ` set (t_standards d)"
  shows "kept actor d (with_rules d x rs uid)"
proof (rule one_standard [OF ok x, where uid = uid])
  let ?f = "\<lambda>y. reopened (st_status x = Std_Active) (y\<lparr>st_version := st_version y + 1\<rparr>)"
  show "t_standards (with_rules d x rs uid) = update_where (\<lambda>y. st_id y = st_id x) ?f (t_standards d)"
    by (simp add: with_rules_def)
  show "\<forall>j. j \<noteq> st_id x \<longrightarrow> standard_rules (with_rules d x rs uid) j = standard_rules d j"
    using rules(1) by (simp add: standard_rules_def with_rules_def)
  show "st_mcp (?f x) \<longrightarrow> st_status (?f x) = Std_Active" using standards_okD(1) [OF ok x] by auto
qed (use rules(2,3) in \<open>simp_all add: with_rules_def\<close>)

lemma update_standard_kept:
  assumes ok: "standards_ok d" and run: "update_standard d i sx uid actor = Inr d'"
  shows "kept actor d d'"
proof -
  obtain x where x: "x \<in> set (t_standards d)" "st_id x = i" and status: "st_status x \<noteq> Std_Deprecated"
    and guard: "\<not> (sx_mcp sx = Some True \<and> st_status x \<noteq> Std_Active)"
    and cases: "(\<not> content_change sx \<and> sx_mcp sx \<noteq> None \<and>
        d' = set_standard (\<lambda>y. y\<lparr>st_mcp := the (sx_mcp sx)\<rparr>) i d) \<or>
      (\<not> (\<not> content_change sx \<and> sx_mcp sx \<noteq> None) \<and> (\<exists>sp. d' = d\<lparr>t_standard_versions := snapshot_standard d x uid,
          t_standards := update_where (\<lambda>y. st_id y = i) (changed_standard sx sp (st_status x)) (t_standards d)\<rparr>))"
    using run unfolding update_standard_def Let_def
    apply (elim rbind_InrE)
    subgoal for u x v w
      apply (cases "\<not> content_change sx \<and> sx_mcp sx \<noteq> None")
      subgoal by (rule that [of x]) (use full_standard_Inr [of d i x] in \<open>auto simp: set_standard_def\<close>)
      subgoal
        apply (simp only: if_False)
        apply (elim rbind_InrE)
        apply (rule that [of x])
        using full_standard_Inr [of d i x] by auto
      done
    done
  show ?thesis
    using cases
  proof (elim disjE conjE exE)
    assume change: "\<not> content_change sx" "sx_mcp sx \<noteq> None" and d': "d' = set_standard (\<lambda>y. y\<lparr>st_mcp := the (sx_mcp sx)\<rparr>) i d"
    show ?thesis unfolding d'
      by (rule status_kept [OF ok x, where status = "st_status x" and mcp = "the (sx_mcp sx)"])
        (use guard change in auto)
  next
    fix sp assume not_only: "\<not> (\<not> content_change sx \<and> sx_mcp sx \<noteq> None)"
      and d': "d' = d\<lparr>t_standard_versions := snapshot_standard d x uid,
          t_standards := update_where (\<lambda>y. st_id y = i) (changed_standard sx sp (st_status x)) (t_standards d)\<rparr>"
    have rules: "standard_rules d' j = standard_rules d j" for j by (simp add: d' standard_rules_def)
    show ?thesis
    proof (rule one_standard [OF ok x(1), where uid = uid])
      show "t_standards d' = update_where (\<lambda>y. st_id y = st_id x) (changed_standard sx sp (st_status x)) (t_standards d)"
        by (simp add: d' x(2))
      show "st_mcp (changed_standard sx sp (st_status x) x) \<longrightarrow> st_status (changed_standard sx sp (st_status x) x) = Std_Active"
        using guard standards_okD(1) [OF ok x(1)]
        by (cases "sx_mcp sx") (auto simp: changed_standard_def given_def)
    qed (use ok not_only in \<open>auto simp: d' rules changed_standard_def standard_text_def standards_ok_def given_def
        content_change_def standard_rules_def\<close>)
  qed
qed

lemma remove_standard_kept:
  assumes ok: "standards_ok d"
  shows "kept actor d (delete_standard i d)"
proof -
  have x: "t_standards (delete_standard i d) = filter (\<lambda>x. st_id x \<noteq> i) (t_standards d)"
    and r: "t_rules (delete_standard i d) = filter (\<lambda>r. sr_standard r \<noteq> i) (t_rules d)"
    and v: "t_standard_versions (delete_standard i d) = filter (\<lambda>v. sv_standard v \<noteq> i) (t_standard_versions d)"
    by (simp_all add: delete_standard_def delete_where_def)
  have rules: "standard_rules (delete_standard i d) j = standard_rules d j"
    and vs: "versions_of_standard (delete_standard i d) j = versions_of_standard d j" if "j \<noteq> i" for j
    using that by (auto simp: standard_rules_def versions_of_standard_def r v intro!: arg_cong [of _ _ "sort_key sr_sort_order"] filter_cong)
  have same: "standard_text (delete_standard i d) y = standard_text d y" if "st_id y \<noteq> i" for y
    using rules that by (simp add: standard_text_def)
  have "standards_ok (delete_standard i d)"
    using ok vs unfolding standards_ok_def x r v by (auto simp: distinct_map_filter image_subset_iff)
  moreover have "approval_step actor d (delete_standard i d)"
    unfolding approval_step_def x using same by (auto intro!: bexI)
  moreover have "standard_recorded d (delete_standard i d)"
    unfolding standard_recorded_def
  proof (intro ballI impI disjI1)
    fix y x' assume y: "y \<in> set (t_standards d)" and x': "x' \<in> set (t_standards (delete_standard i d))" and id: "st_id x' = st_id y"
    from x' have x'': "x' \<in> set (t_standards d)" "st_id x' \<noteq> i" unfolding x by simp_all
    then have "x' = y" using standards_ok_unique [OF ok _ y] id by simp
    with x'' same vs show "standard_text (delete_standard i d) x' = standard_text d y \<and> st_version x' = st_version y \<and>
        versions_of_standard (delete_standard i d) (st_id y) = versions_of_standard d (st_id y)"
      by simp
  qed
  ultimately show ?thesis by blast
qed

lemma create_standard_kept:
  assumes ok: "standards_ok d" and run: "create_standard slugify d i rule_ids x uid actor = Inr (d', row)"
  shows "kept actor d d'"
proof -
  obtain slug sp rules where row: "row = new_standard i slug sp uid x" and new: "i \<notin> st_id ` set (t_standards d)"
    and rules: "rules = map (\<lambda>(r, y). rule_create_data r i y) (zip rule_ids (ni_rules x))"
    and distinct: "distinct (map sr_id (t_rules d @ rules))"
    and t: "t_standards d' = t_standards d @ [row]" "t_rules d' = t_rules d @ rules"
      "t_standard_versions d' = t_standard_versions d"
    using run unfolding create_standard_def Let_def
    apply (elim rbind_InrE)
    subgoal for sp a b c e slug f g
      by (rule that [of slug sp "map (\<lambda>(r, y). rule_create_data r i y) (zip rule_ids (ni_rules x))"]) auto
    done
  have i: "sr_standard r = i" if "r \<in> set rules" for r
    using that by (auto simp: rules rule_create_data_def)
  have same_rules: "standard_rules d' j = standard_rules d j" if "j \<noteq> i" for j
  proof -
    have "filter (\<lambda>r. sr_standard r = j) rules = []" using i that by (auto simp: filter_empty_conv)
    then show ?thesis by (simp add: standard_rules_def t)
  qed
  have vs: "versions_of_standard d' j = versions_of_standard d j" for j by (simp add: versions_of_standard_def t)
  have none: "versions_of_standard d i = []"
    using ok new unfolding versions_of_standard_def standards_ok_def by (subst filter_empty_conv) blast
  have row_fields: "st_id row = i" "st_status row = Std_Draft" "\<not> st_mcp row" "st_version row = 1"
    by (simp_all add: row new_standard_def)
  have "standards_ok d'"
    unfolding standards_ok_def
  proof (intro conjI ballI)
    show "distinct (map st_id (t_standards d'))" using ok new row_fields(1) by (simp add: t standards_ok_def)
    show "distinct (map sr_id (t_rules d'))" using distinct by (simp only: t)
    show "sr_standard ` set (t_rules d') \<subseteq> st_id ` set (t_standards d')"
      using ok i row_fields(1) by (auto simp: t standards_ok_def)
    show "sv_standard ` set (t_standard_versions d') \<subseteq> st_id ` set (t_standards d')"
      using ok unfolding t standards_ok_def set_append image_Un by blast
    fix y assume "y \<in> set (t_standards d')"
    then consider "y = row" | "y \<in> set (t_standards d)" by (auto simp: t)
    then have "(st_mcp y \<longrightarrow> st_status y = Std_Active) \<and> 1 \<le> st_version y \<and>
        map sv_version (versions_of_standard d' (st_id y)) = [1..<st_version y]"
    proof cases
      case 1
      then show ?thesis by (simp add: row_fields none vs)
    next
      case 2
      then show ?thesis using standards_okD [OF ok 2] by (auto simp: vs)
    qed
    then show "st_mcp y \<longrightarrow> st_status y = Std_Active" "1 \<le> st_version y"
      "map sv_version (versions_of_standard d' (st_id y)) = [1..<st_version y]" by simp_all
  qed
  moreover have same: "standard_text d' y = standard_text d y" if "y \<in> set (t_standards d)" for y
    using that new same_rules by (auto simp: standard_text_def image_iff)
  then have "approval_step actor d d'"
    unfolding approval_step_def t by (auto simp: row_fields)
  moreover have "standard_recorded d d'"
    unfolding standard_recorded_def
  proof (intro ballI impI disjI1)
    fix y x' assume y: "y \<in> set (t_standards d)" and x': "x' \<in> set (t_standards d')" and id: "st_id x' = st_id y"
    have "x' \<noteq> row" using new y id row_fields(1) by auto
    then have "x' = y" using standards_ok_unique [OF ok _ y] id x' by (simp add: t)
    with same [OF y] vs show "standard_text d' x' = standard_text d y \<and> st_version x' = st_version y \<and>
        versions_of_standard d' (st_id y) = versions_of_standard d (st_id y)"
      by simp
  qed
  ultimately show ?thesis by blast
qed

lemma rule_of_standard:
  assumes "standards_ok d" and "ensure_rule d i r = Inr ()" and "y \<in> set (t_rules d)" and "sr_id y = r"
  shows "sr_standard y = i"
proof -
  obtain x where x: "x \<in> set (t_rules d)" "sr_id x = r" "sr_standard x = i"
    using assms(2) by (auto simp: ensure_rule_def)
  then have "y = x" using assms(1,3,4) unique_key_eq unfolding standards_ok_def by metis
  with x show ?thesis by simp
qed

lemma rule_requests_kept:
  assumes ok: "standards_ok d"
  shows "add_rule d now new_id i ru uid actor = Inr (d', ans) \<Longrightarrow> kept actor d d'"
    and "update_rule d now i r rx uid actor = Inr (d', ans) \<Longrightarrow> kept actor d d'"
    and "remove_rule d now i r uid actor = Inr (d', ans) \<Longrightarrow> kept actor d d'"
proof -
  assume "add_rule d now new_id i ru uid actor = Inr (d', ans)"
  then obtain x where x: "full_standard d i = Inr x" and new: "new_id \<notin> sr_id ` set (t_rules d)"
    and d': "d' = with_rules d x (t_rules d @ [rule_create_data new_id i ru]) uid"
    by (auto simp: add_rule_def Let_def result_simps insert_row_eq_Inr rule_create_data_def)
  from full_standard_Inr [OF x] have x': "x \<in> set (t_standards d)" "st_id x = i" by blast+
  show "kept actor d d'" unfolding d'
    by (rule rules_kept [OF ok x'(1)])
      (use ok new x' in \<open>auto simp: rule_create_data_def standards_ok_def\<close>)
next
  assume "update_rule d now i r rx uid actor = Inr (d', ans)"
  then obtain x where x: "full_standard d i = Inr x" and rule: "ensure_rule d i r = Inr ()"
    and d': "d' = with_rules d x (update_where (\<lambda>y. sr_id y = r) (rule_update_data rx) (t_rules d)) uid"
    by (auto simp: update_rule_def Let_def result_simps)
  from full_standard_Inr [OF x] have x': "x \<in> set (t_standards d)" "st_id x = i" by blast+
  have keys: "sr_id (rule_update_data rx y) = sr_id y" "sr_standard (rule_update_data rx y) = sr_standard y" for y
    by (simp_all add: rule_update_data_def)
  show "kept actor d d'" unfolding d'
  proof (rule rules_kept [OF ok x'(1)])
    show "\<forall>j. j \<noteq> st_id x \<longrightarrow> filter (\<lambda>y. sr_standard y = j) (update_where (\<lambda>y. sr_id y = r) (rule_update_data rx) (t_rules d)) =
        filter (\<lambda>y. sr_standard y = j) (t_rules d)"
      using rule_of_standard [OF ok rule] x'(2) by (intro allI impI filter_update_where) (simp add: keys)
    show "distinct (map sr_id (update_where (\<lambda>y. sr_id y = r) (rule_update_data rx) (t_rules d)))"
      using ok map_update_where [of "\<lambda>y. sr_id y = r" sr_id "rule_update_data rx" "t_rules d"]
      by (simp add: keys standards_ok_def)
    show "sr_standard ` set (update_where (\<lambda>y. sr_id y = r) (rule_update_data rx) (t_rules d)) \<subseteq> st_id ` set (t_standards d)"
      using ok key_image_update_where [of "\<lambda>y. sr_id y = r" sr_standard "rule_update_data rx" "t_rules d"]
      by (simp add: keys standards_ok_def)
  qed
next
  assume "remove_rule d now i r uid actor = Inr (d', ans)"
  then obtain x where x: "full_standard d i = Inr x" and rule: "ensure_rule d i r = Inr ()"
    and d': "d' = with_rules d x (delete_where (\<lambda>y. sr_id y = r) (t_rules d)) uid"
    by (auto simp: remove_rule_def Let_def result_simps)
  from full_standard_Inr [OF x] have x': "x \<in> set (t_standards d)" "st_id x = i" by blast+
  show "kept actor d d'" unfolding d'
  proof (rule rules_kept [OF ok x'(1)])
    show "\<forall>j. j \<noteq> st_id x \<longrightarrow> filter (\<lambda>y. sr_standard y = j) (delete_where (\<lambda>y. sr_id y = r) (t_rules d)) =
        filter (\<lambda>y. sr_standard y = j) (t_rules d)"
      using rule_of_standard [OF ok rule] x'(2) unfolding delete_where_def filter_filter
      by (intro allI impI filter_cong refl) auto
    show "distinct (map sr_id (delete_where (\<lambda>y. sr_id y = r) (t_rules d)))"
      using ok by (intro distinct_delete_where) (simp add: standards_ok_def)
    show "sr_standard ` set (delete_where (\<lambda>y. sr_id y = r) (t_rules d)) \<subseteq> st_id ` set (t_standards d)"
      using ok unfolding standards_ok_def set_delete_where by blast
  qed
qed

lemma approval_requests_kept:
  assumes ok: "standards_ok d"
  shows "submit_standard d i actor = Inr d' \<Longrightarrow> kept actor d d'"
    and "approve_standard d i actor = Inr d' \<Longrightarrow> kept actor d d'"
    and "deprecate_standard d i actor = Inr d' \<Longrightarrow> kept actor d d'"
proof -
  assume "submit_standard d i actor = Inr d'"
  then obtain x where x: "full_standard d i = Inr x"
    and d': "d' = set_standard (\<lambda>y. y\<lparr>st_status := Std_Review, st_mcp := False\<rparr>) i d"
    by (auto simp: submit_standard_def result_simps)
  from full_standard_Inr [OF x] have x': "x \<in> set (t_standards d)" "st_id x = i" by blast+
  show "kept actor d d'" unfolding d' by (rule status_kept [OF ok x']) auto
next
  assume run: "approve_standard d i actor = Inr d'"
  then obtain x where x: "full_standard d i = Inr x" and review: "st_status x = Std_Review"
    and d': "d' = set_standard (\<lambda>y. y\<lparr>st_status := Std_Active\<rparr>) i d"
    by (auto simp: approve_standard_def result_simps)
  from full_standard_Inr [OF x] have x': "x \<in> set (t_standards d)" "st_id x = i" by blast+
  have approved: "approved_by actor d (st_id x) d'"
    using run unfolding approved_by_def x'(2)
    by (auto simp: approve_standard_def result_simps assert_standard_access_def assert_actor_Some)
  show "kept actor d d'" unfolding d'
    by (rule status_kept [OF ok x', where status = Std_Active and mcp = "st_mcp x"])
      (use approved x' review d' in auto)
next
  assume "deprecate_standard d i actor = Inr d'"
  then obtain x where x: "full_standard d i = Inr x"
    and d': "d' = set_standard (\<lambda>y. y\<lparr>st_status := Std_Deprecated, st_mcp := False\<rparr>) i d"
    by (auto simp: deprecate_standard_def result_simps)
  from full_standard_Inr [OF x] have x': "x \<in> set (t_standards d)" "st_id x = i" by blast+
  show "kept actor d d'" unfolding d' by (rule status_kept [OF ok x']) auto
qed

lemma standard_request_kept:
  assumes "standard_request actor d d'" and ok: "standards_ok d"
  shows "kept actor d d'"
  using assms(1)
proof (cases rule: standard_request.cases)
  case Remove
  then show ?thesis using remove_standard_kept [OF ok] by (auto simp: remove_standard_def result_simps)
next
  case Link
  then show ?thesis
    by (intro same_cores [OF ok]) (auto simp: link_page_def Let_def result_simps)
next
  case Unlink
  then show ?thesis
    by (intro same_cores [OF ok]) (auto simp: unlink_page_def Let_def result_simps)
next
  case Request_Exception
  then show ?thesis
    by (intro same_cores [OF ok]) (auto simp: request_exception_def Let_def result_simps)
next
  case Decide_Exception
  then show ?thesis
    by (intro same_cores [OF ok]) (auto simp: decide_exception_def Let_def result_simps)
next
  case Category_Gone
  then show ?thesis
    by (intro same_cores [OF ok]) (simp_all add: delete_category_def map_update_where standard_core_def)
next
  case Pages_Gone
  then show ?thesis
    by (intro same_cores [OF ok]) (simp_all add: delete_pages_def Let_def)
next
  case Create
  then show ?thesis by (rule create_standard_kept [OF ok])
next
  case Update
  then show ?thesis by (rule update_standard_kept [OF ok])
next
  case Submit
  then show ?thesis by (rule approval_requests_kept(1) [OF ok])
next
  case Approve
  then show ?thesis by (rule approval_requests_kept(2) [OF ok])
next
  case Deprecate
  then show ?thesis by (rule approval_requests_kept(3) [OF ok])
next
  case Add_Rule
  then show ?thesis by (rule rule_requests_kept(1) [OF ok])
next
  case Update_Rule
  then show ?thesis by (rule rule_requests_kept(2) [OF ok])
next
  case Remove_Rule
  then show ?thesis by (rule rule_requests_kept(3) [OF ok])
qed

text \<open>The requests of anybody.\<close>

definition some_request :: "db \<Rightarrow> db \<Rightarrow> bool" where
  "some_request d d' \<longleftrightarrow> (\<exists>actor. standard_request actor d d')"

lemma standard_requests_ok: "some_request\<^sup>*\<^sup>* d d' \<Longrightarrow> standards_ok d \<Longrightarrow> standards_ok d'"
  by (induction rule: rtranclp_induct) (use standard_request_kept in \<open>auto simp: some_request_def\<close>)

section \<open>Approval\<close>

text \<open>
  C5: Only what was approved is active. After any sequence of requests by anybody: a standard that a
  request leaves active was active before with the same text, priority, validity and rules, or it was in
  review and the request was its approval, of exactly the text that is active now, by the request's own
  actor, whom the access decision of that moment allows to approve this very standard (a call without a
  user skips the check; the controller, the only caller, passes the user). And no standard that is not
  active is open to MCP.
\<close>

theorem active_only_by_approval:
  assumes "standards_ok d0" and "some_request\<^sup>*\<^sup>* d0 d" and "standard_request actor d d'"
  shows "(\<forall>x' \<in> set (t_standards d'). st_status x' = Std_Active \<longrightarrow>
      (\<exists>x \<in> set (t_standards d). st_id x = st_id x' \<and> standard_text d x = standard_text d' x' \<and>
        (st_status x = Std_Active \<or>
         (st_status x = Std_Review \<and> approve_standard d (st_id x) actor = Inr d' \<and>
          (\<forall>u. actor = Some u \<longrightarrow>
            (\<exists>dc. evaluate d u Standards Approve Standard (st_id x) = Inr dc \<and> dc_allowed dc)))))) \<and>
    (\<forall>x \<in> set (t_standards d'). st_mcp x \<longrightarrow> st_status x = Std_Active)"
  using standard_request_kept [OF assms(3) standard_requests_ok [OF assms(2,1)]]
  by (simp add: standards_ok_def approval_step_def approved_by_def)

text \<open>
  C7: The history of a standard is complete: in every reachable state it has exactly the versions 1
  to its own minus one, in this order, and a request that changes its text, priority, validity or
  rules first stores all of it as the version with its number. Requests run one after the other here.
\<close>

theorem standard_history_complete:
  assumes "standards_ok d0" and "some_request\<^sup>*\<^sup>* d0 d" and "standard_request actor d d'"
  shows "standard_recorded d d' \<and>
    (\<forall>x \<in> set (t_standards d'). map sv_version (versions_of_standard d' (st_id x)) = [1..<st_version x])"
  using standard_request_kept [OF assms(3) standard_requests_ok [OF assms(2,1)]]
  by (simp add: standards_ok_def)

lemma sample_standards_ok: "standards_ok sample_db"
  by (simp add: standards_ok_def sample_defs versions_of_standard_def)

definition sample_rewrite :: standard_change where
  "sample_rewrite = \<lparr>sx_title = Some ''new'', sx_description = None, sx_justification = None, sx_space = None,
     sx_priority = None, sx_category = None, sx_responsible = None, sx_from = None, sx_until = None, sx_mcp = None\<rparr>"

definition sample_approver :: auth_user where
  "sample_approver = to_authenticated_user (sample_user ''own'' ''adm'' True) \<lparr>r_id = ''adm'', r_name = ''admin'', r_description = None, r_system = True\<rparr>"

theorem active_only_by_approval_witness:
  "\<exists>d1 d2 dc. submit_standard sample_db ''st'' (Some sample_approver) = Inr d1 \<and>
     approve_standard d1 ''st'' (Some sample_approver) = Inr d2 \<and> st_status (hd (t_standards d2)) = Std_Active \<and>
     evaluate d1 sample_approver Standards Approve Standard ''st'' = Inr dc \<and> dc_allowed dc"
proof -
  have c: "case submit_standard sample_db ''st'' (Some sample_approver) of Inl e \<Rightarrow> False | Inr d1 \<Rightarrow>
      map st_id (t_standards d1) = [''st''] \<and> st_status (hd (t_standards d1)) = Std_Review \<and>
      (case approve_standard d1 ''st'' (Some sample_approver) of Inl e \<Rightarrow> False
       | Inr d2 \<Rightarrow> map st_id (t_standards d2) = [''st''] \<and> st_status (hd (t_standards d2)) = Std_Active)"
    by code_simp
  obtain d1 d2 where r: "submit_standard sample_db ''st'' (Some sample_approver) = Inr d1"
    "approve_standard d1 ''st'' (Some sample_approver) = Inr d2"
    and s1: "map st_id (t_standards d1) = [''st'']" "st_status (hd (t_standards d1)) = Std_Review"
    and s2: "map st_id (t_standards d2) = [''st'']" "st_status (hd (t_standards d2)) = Std_Active"
    using c by (auto split: sum.splits)
  have "some_request\<^sup>*\<^sup>* sample_db d1" 
    using standard_request.Submit [OF r(1)] by (intro r_into_rtranclp) (auto simp: some_request_def)
  note step = active_only_by_approval [OF sample_standards_ok this standard_request.Approve [OF r(2)]]
  obtain x' where x': "t_standards d2 = [x']" "st_id x' = ''st''" "st_status x' = Std_Active"
    using s2 by (cases "t_standards d2") auto
  obtain x where x: "t_standards d1 = [x]" "st_id x = ''st''" "st_status x = Std_Review"
    using s1 by (cases "t_standards d1") auto
  from step x x' have "\<exists>dc. evaluate d1 sample_approver Standards Approve Standard ''st'' = Inr dc \<and> dc_allowed dc" by simp
  with r s2 show ?thesis by blast
qed

theorem standard_history_complete_witness:
  "\<exists>d'. update_standard sample_db ''st'' sample_rewrite ''ada'' None = Inr d' \<and> standard_recorded sample_db d' \<and>
     map sv_version (t_standard_versions d') = [1]"
proof -
  have c: "case update_standard sample_db ''st'' sample_rewrite ''ada'' None of Inl e \<Rightarrow> False
    | Inr d' \<Rightarrow> map sv_version (t_standard_versions d') = [1]"
    by code_simp
  obtain d' where r: "update_standard sample_db ''st'' sample_rewrite ''ada'' None = Inr d'"
    "map sv_version (t_standard_versions d') = [1]"
    using c by (auto split: sum.splits)
  from standard_history_complete [OF sample_standards_ok rtranclp.rtrancl_refl standard_request.Update [OF r(1)]] r
  show ?thesis by (intro exI [of _ d'] conjI) simp_all
qed

end
