(* ===== verification/Placement.thy ===== *)
theory Placement
  imports Page_History Standard_Lifecycle Notes
begin

text \<open>
  Where content stands: every page, standard and shared note lies in a space that is open to its
  kind, under a category of its own kind and space, whatever is requested of the content services.
\<close>

section \<open>Slots\<close>

fun scope_of :: "knowledge_kind \<Rightarrow> category_scope" where
  "scope_of Wiki_Kind = WIKI"
| "scope_of Note_Kind = NOTE"
| "scope_of Standard_Kind = STANDARD"

text \<open>The places that are taken: kind, space and category of all pages, standards and shared notes.\<close>

definition slots :: "db \<Rightarrow> (knowledge_kind \<times> ident \<times> ident option) set" where
  "slots d = (\<lambda>p. (Wiki_Kind, pg_space p, pg_category p)) ` set (t_pages d) \<union>
     (\<lambda>x. (Standard_Kind, st_space x, st_category x)) ` set (t_standards d) \<union>
     {(Note_Kind, i, n_category n) | i n. n \<in> set (t_notes d) \<and> n_space n = Some i}"

definition slot_ok :: "db \<Rightarrow> knowledge_kind \<times> ident \<times> ident option \<Rightarrow> bool" where
  "slot_ok d x = (case x of (k, sp, c) \<Rightarrow> space_allows d sp k \<and> category_fits d c (scope_of k) sp)"

definition content_keys :: "db \<Rightarrow> bool" where
  "content_keys d \<longleftrightarrow> distinct (map c_id (t_categories d)) \<and> distinct (map pg_id (t_pages d)) \<and>
     distinct (map st_id (t_standards d)) \<and> distinct (map n_id (t_notes d))"

definition placed :: "db \<Rightarrow> bool" where
  "placed d \<longleftrightarrow> content_keys d \<and> (\<forall>x \<in> slots d. slot_ok d x)"

lemma ball_slots:
  "(\<forall>x \<in> slots d. P x) \<longleftrightarrow> (\<forall>p \<in> set (t_pages d). P (Wiki_Kind, pg_space p, pg_category p)) \<and>
     (\<forall>x \<in> set (t_standards d). P (Standard_Kind, st_space x, st_category x)) \<and>
     (\<forall>n \<in> set (t_notes d). \<forall>i. n_space n = Some i \<longrightarrow> P (Note_Kind, i, n_category n))"
  by (auto simp: slots_def)

lemma placed_tables: "placed d \<longleftrightarrow> content_keys d \<and> pages_placed d \<and> standards_placed d \<and> notes_placed d"
  unfolding placed_def ball_slots slot_ok_def pages_placed_def standards_placed_def notes_placed_def
  by (simp only: prod.case scope_of.simps)

lemma slot_ok_cong:
  "t_spaces d' = t_spaces d \<Longrightarrow> t_categories d' = t_categories d \<Longrightarrow> slot_ok d' = slot_ok d"
  using space_allows_cong [of d' d] category_fits_cong [of d' d] by (simp only: slot_ok_def [abs_def])

text \<open>A request that leaves spaces and categories alone may take good places only.\<close>

lemma placed_step:
  assumes "placed d" and "content_keys d'" and "t_spaces d' = t_spaces d" and "t_categories d' = t_categories d"
    and "\<And>x. x \<in> slots d' \<Longrightarrow> x \<in> slots d \<or> slot_ok d x"
  shows "placed d'"
  unfolding placed_def slot_ok_cong [OF assms(3,4)]
proof (intro conjI ballI assms(2))
  fix x assume "x \<in> slots d'"
  from assms(5) [OF this] show "slot_ok d x"
    by (elim disjE) (use assms(1) in \<open>simp_all add: placed_def\<close>)
qed

lemma same_slots:
  assumes "placed d" and "t_spaces d' = t_spaces d" and "t_categories d' = t_categories d"
    and "t_pages d' = t_pages d" and "t_standards d' = t_standards d" and "t_notes d' = t_notes d"
  shows "placed d'"
  by (rule placed_step [OF assms(1) _ assms(2,3)]) (use assms in \<open>simp_all add: placed_def content_keys_def slots_def\<close>)

lemma resolve_open_space_Inr: "resolve_open_space d k r = Inr sp \<Longrightarrow> space_allows d sp k"
  by (auto simp: resolve_open_space_def get_space_def find_space_def space_allows_def result_simps dest!: find_SomeD)

lemma resolve_page_space_Inr:
  assumes "resolve_page_space d space cc pc existing = Inr sp"
  shows "slot_ok d (Wiki_Kind, sp, given cc (Option.bind existing pg_category))"
proof -
  let ?category = "given cc (Option.bind existing pg_category)"
  let ?c = "Option.bind ?category (find_category d)"
  obtain candidate where scope: "?category \<noteq> None \<longrightarrow> map_option c_scope ?c = Some WIKI"
    and sp: "resolve_open_space d Wiki_Kind candidate = Inr sp" and space: "case ?c of None \<Rightarrow> True | Some x \<Rightarrow> c_space x = sp"
    using assms unfolding resolve_page_space_def Let_def
    apply (elim rbind_InrE)
    subgoal for a b c s e by (rule that) auto
    done
  have "category_fits d ?category WIKI sp"
    using scope space by (cases ?category) (auto simp: find_category_def split: option.splits dest: find_SomeD)
  with resolve_open_space_Inr [OF sp] show ?thesis by (simp add: slot_ok_def)
qed

section \<open>Requests for pages, categories and spaces\<close>

lemma slots_pages:
  assumes "t_standards d' = t_standards d" and "t_notes d' = t_notes d"
    and "\<And>p. p \<in> set (t_pages d') \<Longrightarrow> (Wiki_Kind, pg_space p, pg_category p) \<in> slots d \<or>
      slot_ok d (Wiki_Kind, pg_space p, pg_category p)"
  shows "x \<in> slots d' \<Longrightarrow> x \<in> slots d \<or> slot_ok d x"
  using assms by (auto simp: slots_def)

lemma page_slot: "p \<in> set (t_pages d) \<Longrightarrow> (Wiki_Kind, pg_space p, pg_category p) \<in> slots d"
  by (auto simp: slots_def)

lemma page_rows_kept:
  assumes "placed d" and "t_spaces d' = t_spaces d" and "t_categories d' = t_categories d"
    and "t_standards d' = t_standards d" and "t_notes d' = t_notes d"
    and "map (\<lambda>p. (pg_id p, pg_space p, pg_category p)) (t_pages d') =
      map (\<lambda>p. (pg_id p, pg_space p, pg_category p)) (t_pages d)"
  shows "placed d'"
proof (rule placed_step [OF assms(1) _ assms(2,3) slots_pages [OF assms(4,5)]])
  have "map pg_id (t_pages d') = map pg_id (t_pages d)"
    using arg_cong [OF assms(6), of "map fst"] by (simp add: comp_def)
  then show "content_keys d'" using assms(1,3,4,5) by (simp add: placed_def content_keys_def)
  fix p assume "p \<in> set (t_pages d')"
  then have "(pg_id p, pg_space p, pg_category p) \<in> set (map (\<lambda>p. (pg_id p, pg_space p, pg_category p)) (t_pages d'))"
    by simp
  then have "(pg_id p, pg_space p, pg_category p) \<in> (\<lambda>p. (pg_id p, pg_space p, pg_category p)) ` set (t_pages d)"
    unfolding assms(6) by simp
  then show "(Wiki_Kind, pg_space p, pg_category p) \<in> slots d \<or> slot_ok d (Wiki_Kind, pg_space p, pg_category p)"
    by (auto simp: slots_def)
qed

lemma placed_new_page:
  assumes "placed d" and "t_pages d' = t_pages d @ [p]" and "pg_id p \<notin> pg_id ` set (t_pages d)"
    and "slot_ok d (Wiki_Kind, pg_space p, pg_category p)"
    and "t_spaces d' = t_spaces d" and "t_categories d' = t_categories d"
    and "t_standards d' = t_standards d" and "t_notes d' = t_notes d"
  shows "placed d'"
proof (rule placed_step [OF assms(1) _ assms(5,6) slots_pages [OF assms(7,8)]])
  show "content_keys d'" using assms by (simp add: placed_def content_keys_def)
  fix q assume "q \<in> set (t_pages d')"
  then show "(Wiki_Kind, pg_space q, pg_category q) \<in> slots d \<or> slot_ok d (Wiki_Kind, pg_space q, pg_category q)"
    using assms(2,4) page_slot [of q d] by auto
qed

lemma create_page_placed:
  assumes ok: "placed d" and run: "create_page env d i x author actor now = Inr (d', p)"
  shows "placed d' \<and> t_notes d' = t_notes d \<and> t_standards d' = t_standards d"
proof -
  have tables: "t_notes d' = t_notes d \<and> t_standards d' = t_standards d"
    using run by (auto simp: create_page_def insert_page_def result_simps Let_def
        sync_references_def sync_links_def sync_media_references_def)
  obtain sp slug where r: "resolve_page_space d (pi_space x) (Some (pi_category x)) (Some (pi_parent x)) None = Inr sp"
    "p = new_page i slug sp author x now" "t_pages d' = t_pages d @ [p]" "i \<notin> pg_id ` set (t_pages d)"
    "t_spaces d' = t_spaces d" "t_categories d' = t_categories d"
    using create_page_Inr [OF run] by blast
  have "slot_ok d (Wiki_Kind, pg_space p, pg_category p)"
    using resolve_page_space_Inr [OF r(1)] by (simp add: r(2) new_page_def given_def)
  with r tables have "placed d'" by (intro placed_new_page [OF ok r(3)]) (simp_all add: new_page_def)
  with tables show ?thesis by blast
qed

lemma delete_pages_placed: "placed d \<Longrightarrow> placed (delete_pages q d)"
proof (rule placed_step)
  assume ok: "placed d"
  obtain h where pages: "t_pages (delete_pages q d) =
      update_where h (\<lambda>q. q\<lparr>pg_parent := None\<rparr>) (delete_where q (t_pages d))"
    by (auto simp: delete_pages_def Let_def)
  obtain h' where nrows: "t_notes (delete_pages q d) = update_where h' (\<lambda>n. n\<lparr>n_promoted := None\<rparr>) (t_notes d)"
    by (auto simp: delete_pages_def Let_def)
  have same: "t_standards (delete_pages q d) = t_standards d" "t_categories (delete_pages q d) = t_categories d"
    by (simp_all add: delete_pages_def Let_def)
  have "map pg_id (t_pages (delete_pages q d)) = map pg_id (delete_where q (t_pages d))"
    unfolding pages by (rule map_update_where) simp
  moreover have "map n_id (t_notes (delete_pages q d)) = map n_id (t_notes d)"
    unfolding nrows by (rule map_update_where) simp
  ultimately show "content_keys (delete_pages q d)"
    using ok same distinct_delete_where [of pg_id "t_pages d" q] by (simp add: placed_def content_keys_def)
  show "t_spaces (delete_pages q d) = t_spaces d" "t_categories (delete_pages q d) = t_categories d"
    by (simp_all add: delete_pages_def Let_def)
  show "x \<in> slots (delete_pages q d) \<Longrightarrow> x \<in> slots d \<or> slot_ok d x" for x
    by (auto simp: slots_def same pages nrows row_simps split: if_splits)
qed

lemma delete_category_placed:
  assumes "placed d"
  shows "placed (delete_category i d)"
proof -
  have spaces: "space_allows (delete_category i d) = space_allows d"
    by (rule space_allows_cong) (simp add: delete_category_def)
  have fits: "slot_ok (delete_category i d) (k, sp, if c = Some i then None else c)" if "slot_ok d (k, sp, c)" for k sp c
    using that category_fits_delete [of d c "scope_of k" sp i] by (simp add: slot_ok_def spaces)
  note old = assms [unfolded placed_def ball_slots]
  have "\<forall>x \<in> slots (delete_category i d). slot_ok (delete_category i d) x"
    unfolding ball_slots
  proof (intro conjI ballI allI impI)
    fix p assume "p \<in> set (t_pages (delete_category i d))"
    then obtain q where q: "q \<in> set (t_pages d)" "p = (if pg_category q = Some i then q\<lparr>pg_category := None\<rparr> else q)"
      by (auto simp: delete_category_def set_update_where)
    with old have "slot_ok d (Wiki_Kind, pg_space q, pg_category q)" by blast
    from fits [OF this] q(2) show "slot_ok (delete_category i d) (Wiki_Kind, pg_space p, pg_category p)"
      by (simp split: if_splits)
  next
    fix p assume "p \<in> set (t_standards (delete_category i d))"
    then obtain q where q: "q \<in> set (t_standards d)" "p = (if st_category q = Some i then q\<lparr>st_category := None\<rparr> else q)"
      by (auto simp: delete_category_def set_update_where)
    with old have "slot_ok d (Standard_Kind, st_space q, st_category q)" by blast
    from fits [OF this] q(2) show "slot_ok (delete_category i d) (Standard_Kind, st_space p, st_category p)"
      by (simp split: if_splits)
  next
    fix p sp assume "p \<in> set (t_notes (delete_category i d))" and sp: "n_space p = Some sp"
    then obtain q where q: "q \<in> set (t_notes d)" "p = (if n_category q = Some i then q\<lparr>n_category := None\<rparr> else q)"
      by (auto simp: delete_category_def set_update_where)
    then have "n_space q = Some sp" using sp by (simp split: if_splits)
    with q old have "slot_ok d (Note_Kind, sp, n_category q)" by blast
    from fits [OF this] q(2) show "slot_ok (delete_category i d) (Note_Kind, sp, n_category p)"
      by (simp split: if_splits)
  qed
  moreover have "content_keys (delete_category i d)"
  proof -
    have "map pg_id (t_pages (delete_category i d)) = map pg_id (t_pages d)"
      "map n_id (t_notes (delete_category i d)) = map n_id (t_notes d)"
      "map st_id (t_standards (delete_category i d)) = map st_id (t_standards d)"
      unfolding delete_category_def by (simp_all, (rule map_update_where, simp)+)
    moreover have "distinct (map c_id (t_categories (delete_category i d)))"
      using assms by (simp add: delete_category_def distinct_delete_where placed_def content_keys_def)
    ultimately show ?thesis using assms by (simp add: placed_def content_keys_def)
  qed
  ultimately show ?thesis by (simp add: placed_def)
qed

lemma same_content:
  assumes "placed d" and "t_pages d' = t_pages d" and "t_standards d' = t_standards d" and "t_notes d' = t_notes d"
    and "distinct (map c_id (t_categories d'))" and "\<And>x. x \<in> slots d \<Longrightarrow> slot_ok d x \<Longrightarrow> slot_ok d' x"
  shows "placed d'"
  using assms by (simp add: placed_def content_keys_def slots_def)

lemma create_category_placed:
  assumes ok: "placed d" and run: "create_category slugify d i x actor = Inr (d', c)"
  shows "placed d'"
proof -
  from create_category_Inr [OF run] have d': "d' = d\<lparr>t_categories := t_categories d @ [c]\<rparr>"
    and new: "c_id c = i" "i \<notin> c_id ` set (t_categories d)" by blast+
  have spaces: "space_allows d' = space_allows d" by (rule space_allows_cong) (simp add: d')
  have cats: "t_categories d' = t_categories d @ [c]" by (simp add: d')
  show ?thesis
  proof (rule same_content [OF ok])
    show "distinct (map c_id (t_categories d'))" using ok new by (simp add: cats placed_def content_keys_def)
    show "slot_ok d' y" if "slot_ok d y" for y
      using that by (auto simp: slot_ok_def spaces category_fits_fun cats)
  qed (simp_all add: d')
qed

lemma update_category_placed:
  assumes ok: "placed d" and run: "update_category slugify d i x actor = Inr d'"
  shows "placed d'"
proof -
  obtain e sp slug where e: "find_category d i = Some e"
    and sp: "cc_space x = None \<longrightarrow> sp = c_space e"
    and used: "given (cc_scope x) (c_scope e) \<noteq> c_scope e \<or> sp \<noteq> c_space e \<longrightarrow> \<not> category_used d i"
    and d': "d' = d\<lparr>t_categories := update_where (\<lambda>c. c_id c = i) (changed_category x sp slug) (t_categories d)\<rparr>"
    using update_category_Inr [OF run]
    apply (elim exE conjE)
    subgoal premises p for existing sp slug
      by (rule p(1) [OF p(2) _ p(4,5)]) (use p(3) in \<open>simp split: option.splits\<close>)
    done
  have spaces: "space_allows d' = space_allows d" by (rule space_allows_cong) (simp add: d')
  have keys: "c_id (changed_category x sp slug c) = c_id c" for c by (simp add: changed_category_def)
  have distinct: "distinct (map c_id (t_categories d))" using ok by (simp add: placed_def content_keys_def)
  have e': "e \<in> set (t_categories d)" "c_id e = i" using e by (auto simp: find_category_def dest: find_SomeD)
  show ?thesis
  proof (rule same_content [OF ok])
    show "distinct (map c_id (t_categories d'))"
      using distinct map_update_where [of "\<lambda>c. c_id c = i" c_id "changed_category x sp slug" "t_categories d"]
      by (simp add: d' keys)
    fix y assume y: "y \<in> slots d" "slot_ok d y"
    obtain k s c where ksc: "y = (k, s, c)" by (cases y)
    have "category_fits d' c (scope_of k) s"
    proof (cases c)
      case (Some j)
      then obtain r where r: "r \<in> set (t_categories d)" "c_id r = j" "c_scope r = scope_of k" "c_space r = s"
        using y(2) by (auto simp: ksc slot_ok_def)
      show ?thesis
      proof (cases "j = i")
        case False
        with r have "r \<in> set (t_categories d')" by (auto simp: d' row_simps intro!: image_eqI [of _ _ r])
        with r Some show ?thesis by auto
      next
        case True
        then have "r = e" using unique_key_eq [OF distinct r(1) e'(1)] r(2) e'(2) by simp
        moreover have "category_used d i"
          using y(1) Some True unfolding ksc category_used_def count_where_pos slots_def by auto
        with used have "given (cc_scope x) (c_scope e) = c_scope e" "sp = c_space e" by auto
        ultimately have "changed_category x sp slug e \<in> set (t_categories d') \<and>
            c_scope (changed_category x sp slug e) = scope_of k \<and> c_space (changed_category x sp slug e) = s"
          using e' r by (auto simp: d' row_simps changed_category_def intro!: image_eqI [of _ _ e])
        then show ?thesis using Some True e'(2) keys [of e] by auto
      qed
    qed simp
    with y(2) show "slot_ok d' y" by (simp add: ksc slot_ok_def spaces)
  qed (simp_all add: d')
qed

lemma space_tables_placed:
  assumes "placed d" and "t_categories d' = t_categories d" and "t_pages d' = t_pages d"
    and "t_standards d' = t_standards d" and "t_notes d' = t_notes d"
    and "\<And>k sp c. (k, sp, c) \<in> slots d \<Longrightarrow> space_allows d sp k \<Longrightarrow> space_allows d' sp k"
  shows "placed d'"
proof (rule same_content [OF assms(1,3,4,5)])
  show "distinct (map c_id (t_categories d'))" using assms(1,2) by (simp add: placed_def content_keys_def)
  show "y \<in> slots d \<Longrightarrow> slot_ok d y \<Longrightarrow> slot_ok d' y" for y
    using assms(6) category_fits_cong [OF assms(2)] by (auto simp: slot_ok_def)
qed

lemma space_notes_standards:
  "create_space slugify fold_case fresh d i si actor = Inr d' \<Longrightarrow> t_standards d' = t_standards d \<and> t_notes d' = t_notes d"
  "update_space slugify fold_case fresh d i sc actor = Inr d' \<Longrightarrow> t_standards d' = t_standards d \<and> t_notes d' = t_notes d"
  subgoal
    unfolding create_space_def Let_def
    by (elim rbind_InrE) (auto split: if_split_asm option.split_asm)
  subgoal
    unfolding update_space_def Let_def
    by (elim rbind_InrE) (auto split: if_split_asm option.split_asm)
  done

lemma update_space_placed:
  assumes ok: "placed d" and run: "update_space slugify fold_case fresh d i x actor = Inr d'"
  shows "placed d'"
proof -
  from update_space_Inr_tables [OF run] obtain slug where
    spaces: "t_spaces d' = update_where (\<lambda>s. s_id s = i) (changed_space x slug) (t_spaces d)"
    and kinds: "case sc_kinds x of None \<Rightarrow> True | Some ks \<Rightarrow> assert_kinds_may_be_disabled d i ks = Inr ()"
    and same: "t_pages d' = t_pages d" "t_categories d' = t_categories d" by blast
  show ?thesis
  proof (rule space_tables_placed [OF ok same(2,1)])
    show "t_standards d' = t_standards d" "t_notes d' = t_notes d" using space_notes_standards(2) [OF run] by blast+
    fix k sp c assume slot: "(k, sp, c) \<in> slots d" and "space_allows d sp k"
    then obtain s where s: "s \<in> set (t_spaces d)" "s_id s = sp" "k \<in> set (s_kinds s)" by (auto simp: space_allows_def)
    show "space_allows d' sp k"
    proof (cases "sp = i")
      case False
      with s have "s \<in> set (t_spaces d')" by (auto simp: spaces row_simps intro!: image_eqI [of _ _ s])
      with s show ?thesis by (auto simp: space_allows_def)
    next
      case True
      have "k \<in> set (given (sc_kinds x) (s_kinds s))"
      proof (cases "sc_kinds x")
        case None
        with s(3) show ?thesis by (simp add: given_def)
      next
        case (Some ks)
        with kinds slot True show ?thesis
          by (cases k) (auto simp: assert_kinds_may_be_disabled_def Let_def given_def row_simps slots_def split: if_splits)
      qed
      moreover have "changed_space x slug s \<in> set (t_spaces d')"
        using s True by (auto simp: spaces row_simps intro!: image_eqI [of _ _ s])
      moreover have "s_id (changed_space x slug s) = sp" "s_kinds (changed_space x slug s) = given (sc_kinds x) (s_kinds s)"
        using s(2) by (simp_all add: changed_space_def)
      ultimately show ?thesis unfolding space_allows_def by (intro bexI [of _ "changed_space x slug s"]) simp_all
    qed
  qed
qed

lemma remove_space_placed:
  assumes ok: "placed d" and run: "remove_space_commit d i = Inr d'"
  shows "placed d'"
proof -
  note r = remove_space_commit_Inr [OF run]
  show ?thesis
  proof (rule space_tables_placed [OF ok])
    fix k sp c assume slot: "(k, sp, c) \<in> slots d" and "space_allows d sp k"
    then obtain s where s: "s \<in> set (t_spaces d)" "s_id s = sp" "k \<in> set (s_kinds s)" by (auto simp: space_allows_def)
    have "sp \<noteq> i"
      using r(2) slot by (auto simp: content_count_def row_simps slots_def)
    with s show "space_allows d' sp k" by (auto simp: space_allows_def r(1) row_simps)
  qed (simp_all add: r(1))
qed

lemma create_space_placed:
  assumes ok: "placed d" and run: "create_space slugify fold_case fresh d i si actor = Inr d'"
  shows "placed d'"
proof -
  from create_space_Inr_tables [OF run] obtain slug where
    t: "t_spaces d' = t_spaces d @ [new_space i slug si]" "t_pages d' = t_pages d" "t_categories d' = t_categories d"
    by blast
  show ?thesis
    by (rule space_tables_placed [OF ok t(3,2)])
      (use space_notes_standards(1) [OF run] in \<open>auto simp: space_allows_def t(1)\<close>)
qed

lemma page_request_placed:
  assumes "page_request env d d'" and ok: "placed d"
  shows "placed d'"
  using assms(1)
proof (cases rule: page_request.cases)
  case Create
  then show ?thesis using create_page_placed [OF ok] by blast
next
  case (Import read_file i media title sp cat status author actor now p)
  from import_markdown_Inr [OF this] obtain x d0 where
    c: "create_page env d i x author actor now = Inr (d0, p)" and
    t: "t_pages d' = t_pages d0" "t_spaces d' = t_spaces d0" "t_categories d' = t_categories d0"
      "t_notes d' = t_notes d0" "t_standards d' = t_standards d0" by (elim exE conjE) rule
  with create_page_placed [OF ok c] show ?thesis
    by (elim conjE) (rule same_slots, assumption, simp_all add: t)
next
  case Sync
  show ?thesis unfolding Sync
    by (rule same_slots [OF ok])
      (simp_all add: sync_references_def sync_links_def sync_media_references_def Let_def)
next
  case (Remove i uid actor now p)
  from remove_page_Inr [OF this] show ?thesis
    by (intro page_rows_kept [OF ok]) (use Remove in \<open>auto simp: map_update_where remove_page_def result_simps Let_def\<close>)
next
  case Restore
  from restore_page_Inr [OF this] show ?thesis
    by (intro page_rows_kept [OF ok]) (simp_all add: map_update_where)
next
  case Purge
  from permanent_remove_page_Inr [OF this] show ?thesis using delete_pages_placed [OF ok] by simp
next
  case Empty
  from empty_trash_Inr [OF this] show ?thesis using delete_pages_placed [OF ok] by (elim exE) simp
next
  case Save_Draft
  from save_draft_Inr [OF this] show ?thesis by (elim exE) (rule same_slots [OF ok], simp_all)
next
  case Delete_Draft
  from delete_draft_Inr [OF this] show ?thesis by (elim exE) (rule same_slots [OF ok], simp_all)
next
  case New_Category
  then show ?thesis by (rule create_category_placed [OF ok])
next
  case Change_Category
  then show ?thesis by (rule update_category_placed [OF ok])
next
  case Remove_Category
  from remove_category_Inr [OF this] show ?thesis using delete_category_placed [OF ok] by simp
next
  case New_Space
  then show ?thesis by (rule create_space_placed [OF ok])
next
  case Change_Space
  then show ?thesis by (rule update_space_placed [OF ok])
next
  case Remove_Space
  then show ?thesis by (rule remove_space_placed [OF ok])
qed

lemma update_page_placed:
  assumes ok: "placed d" and run: "update_page env d vid i x opt now = Inr (d', p)"
  shows "placed d'"
proof -
  obtain e sp d0 where b: "update_begin d i x opt = Inr (e, sp)"
    and c: "update_commit env d vid i x opt e sp now = Inr (d0, p)"
    and d': "d' = sync_references (ce_slugify env) i (pg_content p) d0"
    using run by (auto simp: update_page_def result_simps split: prod.splits)
  from update_begin_Inr [OF b] have e: "e \<in> set (t_pages d)" "pg_id e = i"
    and sp: "if assignment_changed x then resolve_page_space d (pc_space x) (pc_category x) (pc_parent x) (Some e) = Inr sp
     else sp = pg_space e" by blast+
  obtain q ts pts where d0: "d0 = d\<lparr>t_page_versions := t_page_versions d @ [snapshot_of vid e x opt],
      t_pages := update_where (commit_hits i opt) (changed_page x e sp now) (t_pages d),
      t_tags := ts, t_page_tags := pts\<rparr>"
    using update_commit_Inr [OF c] by blast
  have slot: "slot_ok d (Wiki_Kind, sp, given (pc_category x) (pg_category e))"
  proof (cases "assignment_changed x")
    case True
    with sp resolve_page_space_Inr [of d "pc_space x" "pc_category x" "pc_parent x" "Some e" sp] show ?thesis by simp
  next
    case False
    then have "pc_category x = None" by (simp add: assignment_changed_def)
    then show ?thesis using False sp ok page_slot [OF e(1)] by (simp add: given_def placed_def)
  qed
  have distinct: "distinct (map pg_id (t_pages d))" using ok by (simp add: placed_def content_keys_def)
  have "placed d0"
  proof (rule placed_step [OF ok _ _ _ slots_pages])
    have "map pg_id (t_pages d0) = map pg_id (t_pages d)"
      unfolding d0 by simp (rule map_update_where, simp)
    then show "content_keys d0" using ok by (simp add: placed_def content_keys_def d0)
    fix r assume "r \<in> set (t_pages d0)"
    then obtain r0 where r0: "r0 \<in> set (t_pages d)" "r = (if commit_hits i opt r0 then changed_page x e sp now r0 else r0)"
      unfolding d0 by (auto simp: set_update_where)
    show "(Wiki_Kind, pg_space r, pg_category r) \<in> slots d \<or> slot_ok d (Wiki_Kind, pg_space r, pg_category r)"
    proof (cases "commit_hits i opt r0")
      case True
      then have "r0 = e" using unique_key_eq [OF distinct r0(1) e(1)] e(2) by (simp add: commit_hits_def)
      with slot True r0(2) show ?thesis by (simp add: changed_page_def)
    next
      case False
      with r0 page_slot [of r0 d] show ?thesis by simp
    qed
  qed (simp_all add: d0)
  then show ?thesis unfolding d'
    by (rule same_slots)
      (simp_all add: sync_references_def sync_links_def sync_media_references_def Let_def)
qed

lemma toggle_page_placed:
  assumes ok: "placed d" and run: "toggle_page_checkbox d i index checked actor now = Inr (d', p)"
  shows "placed d'"
  by (rule page_rows_kept [OF ok]) (use run in \<open>auto simp: toggle_page_checkbox_def Let_def result_simps map_update_where\<close>)

section \<open>Requests for standards\<close>

lemma standard_rows_kept:
  assumes ok: "placed d" and same: "t_spaces d' = t_spaces d" "t_categories d' = t_categories d"
    "t_pages d' = t_pages d" "t_notes d' = t_notes d"
    and rows: "\<And>x. x \<in> set (t_standards d') \<Longrightarrow> (Standard_Kind, st_space x, st_category x) \<in> slots d \<or>
      slot_ok d (Standard_Kind, st_space x, st_category x)"
    and distinct: "distinct (map st_id (t_standards d'))"
  shows "placed d'"
proof (rule placed_step [OF ok _ same(1,2)])
  show "content_keys d'" using ok same distinct by (simp add: placed_def content_keys_def)
  show "x \<in> slots d' \<Longrightarrow> x \<in> slots d \<or> slot_ok d x" for x
    using rows unfolding slots_def same by blast
qed

lemma standard_slot: "x \<in> set (t_standards d) \<Longrightarrow> (Standard_Kind, st_space x, st_category x) \<in> slots d"
  by (auto simp: slots_def)

lemma standard_update_kept:
  assumes ok: "placed d" and same: "t_spaces d' = t_spaces d" "t_categories d' = t_categories d"
    "t_pages d' = t_pages d" "t_notes d' = t_notes d"
    and rows: "t_standards d' = update_where (\<lambda>y. st_id y = i) f (t_standards d)"
    and f: "\<And>y. y \<in> set (t_standards d) \<Longrightarrow> st_id y = i \<Longrightarrow> st_id (f y) = i \<and>
      ((st_space (f y) = st_space y \<and> st_category (f y) = st_category y) \<or>
       slot_ok d (Standard_Kind, st_space (f y), st_category (f y)))"
  shows "placed d'"
proof (rule standard_rows_kept [OF ok same])
  have "map st_id (t_standards d') = map st_id (t_standards d)"
    unfolding rows update_where_def using f by simp
  then show "distinct (map st_id (t_standards d'))" using ok by (simp add: placed_def content_keys_def)
  fix x assume "x \<in> set (t_standards d')"
  then obtain y where y: "y \<in> set (t_standards d)" "x = (if st_id y = i then f y else y)"
    unfolding rows set_update_where by blast
  with f [OF y(1)] standard_slot [OF y(1)]
  show "(Standard_Kind, st_space x, st_category x) \<in> slots d \<or> slot_ok d (Standard_Kind, st_space x, st_category x)"
    by (cases "st_id y = i") auto
qed

lemma standard_space_slot:
  assumes "resolve_standard_space d requested category pages fallback = Inr sp"
    and "assert_standard_space_relations d sp category pages' = Inr u"
  shows "slot_ok d (Standard_Kind, sp, category)"
proof -
  let ?c = "Option.bind category (find_category d)"
  obtain candidate where scope: "category \<noteq> None \<longrightarrow> map_option c_scope ?c = Some STANDARD"
    and sp: "resolve_open_space d Standard_Kind candidate = Inr sp"
    using assms(1) unfolding resolve_standard_space_def Let_def
    apply (elim rbind_InrE)
    subgoal by (rule that) simp_all
    done
  have space: "case ?c of None \<Rightarrow> True | Some x \<Rightarrow> c_space x = sp"
    using assms(2) by (auto simp: assert_standard_space_relations_def Let_def result_simps)
  have "category_fits d category STANDARD sp"
    using scope space by (cases category) (auto simp: find_category_def split: option.splits dest: find_SomeD)
  with resolve_open_space_Inr [OF sp] show ?thesis by (simp add: slot_ok_def)
qed

lemma update_standard_placed:
  assumes ok: "placed d" and run: "update_standard d i sx uid actor = Inr d'"
  shows "placed d'"
proof -
  obtain e where e: "full_standard d i = Inr e"
    and cases: "d' = d\<lparr>t_standards := update_where (\<lambda>y. st_id y = i) (\<lambda>y. y\<lparr>st_mcp := the (sx_mcp sx)\<rparr>) (t_standards d)\<rparr> \<or>
      (\<exists>sp. slot_ok d (Standard_Kind, sp, given (sx_category sx) (st_category e)) \<and>
        d' = d\<lparr>t_standard_versions := snapshot_standard d e uid,
          t_standards := update_where (\<lambda>y. st_id y = i) (changed_standard sx sp (st_status e)) (t_standards d)\<rparr>)"
    using run unfolding update_standard_def Let_def
    apply (elim rbind_InrE)
    subgoal for u e v w
      apply (cases "\<not> content_change sx \<and> sx_mcp sx \<noteq> None")
      subgoal by (rule that [of e]) auto
      subgoal
        apply (simp only: if_False)
        apply (elim rbind_InrE)
        subgoal for sp
          by (rule that [of e], assumption, rule disjI2, rule exI [of _ sp], rule conjI, erule (1) standard_space_slot, simp)
        done
      done
    done
  have distinct: "distinct (map st_id (t_standards d))" using ok by (simp add: placed_def content_keys_def)
  show ?thesis
    using cases
  proof (elim disjE exE conjE)
    assume d': "d' = d\<lparr>t_standards := update_where (\<lambda>y. st_id y = i) (\<lambda>y. y\<lparr>st_mcp := the (sx_mcp sx)\<rparr>) (t_standards d)\<rparr>"
    show ?thesis
      by (rule standard_update_kept [OF ok, where i = i and f = "\<lambda>y. y\<lparr>st_mcp := the (sx_mcp sx)\<rparr>"])
        (simp_all add: d')
  next
    fix sp assume slot: "slot_ok d (Standard_Kind, sp, given (sx_category sx) (st_category e))"
      and d': "d' = d\<lparr>t_standard_versions := snapshot_standard d e uid,
          t_standards := update_where (\<lambda>y. st_id y = i) (changed_standard sx sp (st_status e)) (t_standards d)\<rparr>"
    show ?thesis
    proof (rule standard_update_kept [OF ok])
      show "t_standards d' = update_where (\<lambda>y. st_id y = i) (changed_standard sx sp (st_status e)) (t_standards d)"
        by (simp add: d')
      fix y assume y: "y \<in> set (t_standards d)" "st_id y = i"
      from full_standard_Inr [OF e] have e': "e \<in> set (t_standards d)" "st_id e = i" by blast+
      have "y = e" by (rule unique_key_eq [OF distinct y(1) e'(1)]) (simp add: y(2) e'(2))
      then show "st_id (changed_standard sx sp (st_status e) y) = i \<and>
        ((st_space (changed_standard sx sp (st_status e) y) = st_space y \<and>
          st_category (changed_standard sx sp (st_status e) y) = st_category y) \<or>
         slot_ok d (Standard_Kind, st_space (changed_standard sx sp (st_status e) y),
           st_category (changed_standard sx sp (st_status e) y)))"
        using slot y(2) by (simp add: changed_standard_def reopened_def)
    qed (simp_all add: d')
  qed
qed

lemma create_standard_placed:
  assumes ok: "placed d" and run: "create_standard slugify d i rule_ids x uid actor = Inr (d', row)"
  shows "placed d'"
proof -
  obtain sp slug where slot: "slot_ok d (Standard_Kind, sp, ni_category x)" and new: "i \<notin> st_id ` set (t_standards d)"
    and rows: "t_standards d' = t_standards d @ [new_standard i slug sp uid x]"
    and same: "t_spaces d' = t_spaces d" "t_categories d' = t_categories d" "t_pages d' = t_pages d" "t_notes d' = t_notes d"
    using run unfolding create_standard_def Let_def
    apply (elim rbind_InrE)
    subgoal for sp a b c e slug f g
      by (rule that [of sp slug], erule (1) standard_space_slot) auto
    done
  show ?thesis
  proof (rule standard_rows_kept [OF ok same])
    show "distinct (map st_id (t_standards d'))"
      using ok new by (simp add: rows placed_def content_keys_def new_standard_def)
    fix y assume "y \<in> set (t_standards d')"
    with slot standard_slot [of y d] show "(Standard_Kind, st_space y, st_category y) \<in> slots d \<or>
      slot_ok d (Standard_Kind, st_space y, st_category y)"
      by (auto simp: rows new_standard_def)
  qed
qed

lemma set_standard_placed:
  assumes ok: "placed d" and "\<And>y. st_id (f y) = st_id y \<and> st_space (f y) = st_space y \<and> st_category (f y) = st_category y"
  shows "placed (set_standard f i d)"
  by (rule standard_update_kept [OF ok, where i = i and f = f]) (simp_all add: set_standard_def assms(2))

lemma with_rules_placed:
  assumes ok: "placed d"
  shows "placed (with_rules d x rs uid)"
  by (rule standard_update_kept [OF ok, where i = "st_id x"
      and f = "\<lambda>y. reopened (st_status x = Std_Active) (y\<lparr>st_version := st_version y + 1\<rparr>)"])
    (simp_all add: with_rules_def reopened_def)

lemma standard_request_placed:
  assumes "standard_request by_user d d'" and ok: "placed d"
  shows "placed d'"
  using assms(1)
proof (cases rule: standard_request.cases)
  case Create
  then show ?thesis by (rule create_standard_placed [OF ok])
next
  case Update
  then show ?thesis by (rule update_standard_placed [OF ok])
next
  case (Remove i)
  then have d': "d' = delete_standard i d" by (auto simp: remove_standard_def result_simps)
  show ?thesis
  proof (rule standard_rows_kept [OF ok])
    show "distinct (map st_id (t_standards d'))"
      using ok by (simp add: d' delete_standard_def distinct_delete_where placed_def content_keys_def)
    fix x assume "x \<in> set (t_standards d')"
    then have "x \<in> set (t_standards d)" by (simp add: d' delete_standard_def row_simps)
    then show "(Standard_Kind, st_space x, st_category x) \<in> slots d \<or>
      slot_ok d (Standard_Kind, st_space x, st_category x)"
      by (intro disjI1 standard_slot)
  qed (simp_all add: d' delete_standard_def)
next
  case Submit
  then show ?thesis using set_standard_placed [OF ok] by (auto simp: submit_standard_def result_simps)
next
  case Approve
  then show ?thesis using set_standard_placed [OF ok] by (auto simp: approve_standard_def result_simps)
next
  case Deprecate
  then show ?thesis using set_standard_placed [OF ok] by (auto simp: deprecate_standard_def result_simps)
next
  case Add_Rule
  then show ?thesis using with_rules_placed [OF ok] by (auto simp: add_rule_def result_simps Let_def)
next
  case Update_Rule
  then show ?thesis using with_rules_placed [OF ok] by (auto simp: update_rule_def result_simps Let_def)
next
  case Remove_Rule
  then show ?thesis using with_rules_placed [OF ok] by (auto simp: remove_rule_def result_simps Let_def)
next
  case Link
  then show ?thesis by (intro same_slots [OF ok]) (auto simp: link_page_def Let_def result_simps)
next
  case Unlink
  then show ?thesis by (intro same_slots [OF ok]) (auto simp: unlink_page_def Let_def result_simps)
next
  case Request_Exception
  then show ?thesis by (intro same_slots [OF ok]) (auto simp: request_exception_def Let_def result_simps)
next
  case Decide_Exception
  then show ?thesis by (intro same_slots [OF ok]) (auto simp: decide_exception_def Let_def result_simps)
next
  case Category_Gone
  then show ?thesis using delete_category_placed [OF ok] by simp
next
  case Pages_Gone
  then show ?thesis using delete_pages_placed [OF ok] by simp
qed

section \<open>Requests for notes\<close>

lemma note_slot: "n \<in> set (t_notes d) \<Longrightarrow> n_space n = Some i \<Longrightarrow> (Note_Kind, i, n_category n) \<in> slots d"
  by (auto simp: slots_def)

lemma note_rows_kept:
  assumes ok: "placed d" and same: "t_spaces d' = t_spaces d" "t_categories d' = t_categories d"
    "t_pages d' = t_pages d" "t_standards d' = t_standards d"
    and rows: "\<And>n i. n \<in> set (t_notes d') \<Longrightarrow> n_space n = Some i \<Longrightarrow> (Note_Kind, i, n_category n) \<in> slots d \<or>
      slot_ok d (Note_Kind, i, n_category n)"
    and distinct: "distinct (map n_id (t_notes d'))"
  shows "placed d'"
proof (rule placed_step [OF ok _ same(1,2)])
  show "content_keys d'" using ok same distinct by (simp add: placed_def content_keys_def)
  show "x \<in> slots d' \<Longrightarrow> x \<in> slots d \<or> slot_ok d x" for x
    using rows unfolding slots_def same by blast
qed

lemma note_update_kept:
  assumes ok: "placed d" and same: "t_spaces d' = t_spaces d" "t_categories d' = t_categories d"
    "t_pages d' = t_pages d" "t_standards d' = t_standards d"
    and rows: "t_notes d' = update_where (\<lambda>y. n_id y = i) f (t_notes d)"
    and f: "\<And>y. y \<in> set (t_notes d) \<Longrightarrow> n_id y = i \<Longrightarrow> n_id (f y) = i \<and>
      ((n_space (f y) = n_space y \<and> n_category (f y) = n_category y) \<or>
       (\<forall>s. n_space (f y) = Some s \<longrightarrow> slot_ok d (Note_Kind, s, n_category (f y))))"
  shows "placed d'"
proof (rule note_rows_kept [OF ok same])
  have "map n_id (t_notes d') = map n_id (t_notes d)"
    unfolding rows update_where_def using f by simp
  then show "distinct (map n_id (t_notes d'))" using ok by (simp add: placed_def content_keys_def)
  fix x s assume "x \<in> set (t_notes d')" and s: "n_space x = Some s"
  then obtain y where y: "y \<in> set (t_notes d)" "x = (if n_id y = i then f y else y)"
    unfolding rows set_update_where by blast
  with f [OF y(1)] note_slot [OF y(1)] s
  show "(Note_Kind, s, n_category x) \<in> slots d \<or> slot_ok d (Note_Kind, s, n_category x)"
    by (cases "n_id y = i") auto
qed

lemma resolve_open_space_Some: "resolve_open_space d k (Some s) = Inr r \<Longrightarrow> r = s"
  by (auto simp: resolve_open_space_def get_space_def find_space_def given_def result_simps dest!: find_SomeD)

lemma note_place_slot:
  assumes "note_place d sp category = Inr r"
  shows "r = sp \<and> (\<forall>s. r = Some s \<longrightarrow> slot_ok d (Note_Kind, s, category))"
proof (cases sp)
  case None
  with assms show ?thesis by (auto simp: note_place_def result_simps)
next
  case (Some s)
  obtain c u where c: "(case category of None \<Rightarrow> Inr None | Some c \<Rightarrow> rbind (ensure_note_category d c) (\<lambda>x. Inr (Some x))) = Inr c"
    and s: "resolve_open_space d Note_Kind (Some s) = Inr u" "r = Some u"
    and fit: "case c of Some y \<Rightarrow> c_space y = u | None \<Rightarrow> True"
    using assms unfolding note_place_def Some
    apply (elim rbind_InrE)
    subgoal for c v w by (cases v; cases c) (auto simp: result_simps)
    done
  have u: "u = s" by (rule resolve_open_space_Some [OF s(1)])
  have "category_fits d category NOTE s"
    using c fit u by (cases category) (auto simp: ensure_note_category_def result_simps find_category_def dest!: find_SomeD)
  with resolve_open_space_Inr [OF s(1)] s(2) Some u show ?thesis by (simp add: slot_ok_def)
qed

lemma create_note_placed:
  assumes ok: "placed d" and run: "create_note env d i x owner actor = Inr (d', n)"
  shows "placed d'"
proof -
  obtain sp where place: "note_place d (ti_in_space x) (ti_in_category x) = Inr sp" and new: "i \<notin> n_id ` set (t_notes d)"
    and rows: "t_notes d' = t_notes d @ [new_note i owner sp x]"
    and same: "t_spaces d' = t_spaces d" "t_categories d' = t_categories d" "t_pages d' = t_pages d" "t_standards d' = t_standards d"
    using run unfolding create_note_def Let_def
    apply (elim rbind_InrE)
    subgoal for sp a b c r by (cases r, rule that [of sp]) auto
    done
  show ?thesis
  proof (rule note_rows_kept [OF ok same])
    show "distinct (map n_id (t_notes d'))"
      using ok new by (simp add: rows placed_def content_keys_def new_note_def)
    fix m s assume "m \<in> set (t_notes d')" and s: "n_space m = Some s"
    then consider "m \<in> set (t_notes d)" | "m = new_note i owner sp x" by (auto simp: rows)
    then show "(Note_Kind, s, n_category m) \<in> slots d \<or> slot_ok d (Note_Kind, s, n_category m)"
    proof cases
      case 1
      then show ?thesis using note_slot s by blast
    next
      case 2
      then show ?thesis using note_place_slot [OF place] s by (simp add: new_note_def)
    qed
  qed
qed

lemma update_note_placed:
  assumes ok: "placed d" and run: "update_note env d i x uid actor = Inr d'"
  shows "placed d'"
proof -
  obtain n sp ts nts where n: "find_editable d i uid actor = Inr n"
    and place: "note_place d (given (nx_space x) (n_space n)) (given (nx_category x) (n_category n)) = Inr sp"
    and d': "d' = d\<lparr>t_notes := update_where (\<lambda>m. n_id m = i) (changed_note x (n_owner n = uid) sp) (t_notes d),
            t_tags := ts, t_note_tags := nts\<rparr>"
    using run unfolding update_note_def Let_def
    apply (elim rbind_InrE)
    subgoal for n sp u v r by (cases r, rule that [of n sp "snd r" "fst r"]) auto
    done
  from find_editable_Inr [OF n] have n': "n \<in> set (t_notes d)" "n_id n = i" by blast+
  have distinct: "distinct (map n_id (t_notes d))" using ok by (simp add: placed_def content_keys_def)
  show ?thesis
  proof (rule note_update_kept [OF ok])
    show "t_notes d' = update_where (\<lambda>m. n_id m = i) (changed_note x (n_owner n = uid) sp) (t_notes d)"
      by (simp add: d')
    fix y assume y: "y \<in> set (t_notes d)" "n_id y = i"
    have "y = n" by (rule unique_key_eq [OF distinct y(1) n'(1)]) (simp add: y(2) n'(2))
    moreover have "sp = given (nx_space x) (n_space n)" "\<forall>s. sp = Some s \<longrightarrow> slot_ok d (Note_Kind, s, given (nx_category x) (n_category n))"
      using note_place_slot [OF place] by blast+
    ultimately show "n_id (changed_note x (n_owner n = uid) sp y) = i \<and>
      ((n_space (changed_note x (n_owner n = uid) sp y) = n_space y \<and>
        n_category (changed_note x (n_owner n = uid) sp y) = n_category y) \<or>
       (\<forall>s. n_space (changed_note x (n_owner n = uid) sp y) = Some s \<longrightarrow>
          slot_ok d (Note_Kind, s, n_category (changed_note x (n_owner n = uid) sp y))))"
      using n'(2) by (auto simp: changed_note_def given_def split: option.splits)
  qed (simp_all add: d')
qed

lemma note_row_update_placed:
  assumes "placed d" and "\<And>n. n_id (f n) = n_id n \<and> n_space (f n) = n_space n \<and> n_category (f n) = n_category n"
  shows "placed (d\<lparr>t_notes := update_where (\<lambda>n. n_id n = i) f (t_notes d)\<rparr>)"
  by (rule note_update_kept [OF assms(1), where i = i and f = f]) (simp_all add: assms(2))

lemma delete_note_placed:
  assumes ok: "placed d"
  shows "placed (delete_note i d)"
proof (rule note_rows_kept [OF ok])
  show "distinct (map n_id (t_notes (delete_note i d)))"
    using ok by (simp add: delete_note_def distinct_delete_where placed_def content_keys_def)
  fix n s assume "n \<in> set (t_notes (delete_note i d))" and "n_space n = Some s"
  then show "(Note_Kind, s, n_category n) \<in> slots d \<or> slot_ok d (Note_Kind, s, n_category n)"
    by (intro disjI1 note_slot) (simp_all add: delete_note_def row_simps)
qed (simp_all add: delete_note_def)

section \<open>All requests\<close>

inductive content_request :: "content_env \<Rightarrow> db \<Rightarrow> db \<Rightarrow> bool" for env where
  Page: "page_request env d d' \<Longrightarrow> content_request env d d'"
| Page_Update: "update_page env d vid i x opt now = Inr (d', p) \<Longrightarrow> content_request env d d'"
| Page_Tick: "toggle_page_checkbox d i index checked actor now = Inr (d', p) \<Longrightarrow> content_request env d d'"
| Standard: "standard_request by_user d d' \<Longrightarrow> content_request env d d'"
| New_Note: "create_note env d i y owner actor = Inr (d', n) \<Longrightarrow> content_request env d d'"
| Note_Update: "update_note env d i z uid actor = Inr d' \<Longrightarrow> content_request env d d'"
| Note_Tick: "toggle_note_checkbox d i index checked uid actor = Inr d' \<Longrightarrow> content_request env d d'"
| Note_Remove: "remove_note d i uid actor now = Inr d' \<Longrightarrow> content_request env d d'"
| Note_Restore: "restore_note d i uid actor = Inr d' \<Longrightarrow> content_request env d d'"
| Note_Purge: "permanent_remove_note d i uid actor = Inr d' \<Longrightarrow> content_request env d d'"
| Note_Share: "share_note d i v perm uid actor = Inr (d', ans) \<Longrightarrow> content_request env d d'"
| Note_Unshare: "unshare_note d i v uid actor = Inr (d', ans) \<Longrightarrow> content_request env d d'"
| Note_Promote: "promote_note env d pid i title status user now = Inr (d', p) \<Longrightarrow> content_request env d d'"

lemma content_request_placed:
  assumes "content_request env d d'" and ok: "placed d"
  shows "placed d'"
  using assms(1)
proof (cases rule: content_request.cases)
  case Page
  then show ?thesis by (rule page_request_placed [OF _ ok])
next
  case Page_Update
  then show ?thesis by (rule update_page_placed [OF ok])
next
  case Page_Tick
  then show ?thesis by (rule toggle_page_placed [OF ok])
next
  case Standard
  then show ?thesis by (rule standard_request_placed [OF _ ok])
next
  case New_Note
  then show ?thesis by (rule create_note_placed [OF ok])
next
  case Note_Update
  then show ?thesis by (rule update_note_placed [OF ok])
next
  case Note_Tick
  then show ?thesis using note_row_update_placed [OF ok] by (auto simp: toggle_note_checkbox_def result_simps)
next
  case Note_Remove
  then show ?thesis using note_row_update_placed [OF ok] by (auto simp: remove_note_def result_simps)
next
  case Note_Restore
  then show ?thesis using note_row_update_placed [OF ok] by (auto simp: restore_note_def result_simps)
next
  case Note_Purge
  then show ?thesis using delete_note_placed [OF ok] by (auto simp: permanent_remove_note_def result_simps)
next
  case Note_Share
  from share_note_Inr [OF this] show ?thesis by (intro same_slots [OF ok]) simp_all
next
  case Note_Unshare
  from unshare_note_Inr [OF this] show ?thesis by (intro same_slots [OF ok]) simp_all
next
  case (Note_Promote pid i title status user now p)
  then obtain x d0 where c: "create_page env d pid x (au_id user) (Some user) now = Inr (d0, p)"
    and d': "d' = d0\<lparr>t_notes := update_where (\<lambda>n. n_id n = i)
       (\<lambda>n. n\<lparr>n_status := Note_Promoted, n_promoted := Some (pg_id p)\<rparr>) (t_notes d0)\<rparr>"
    by (auto simp: promote_note_def result_simps)
  from create_page_placed [OF ok c] have "placed d0" by blast
  then show ?thesis unfolding d' by (rule note_row_update_placed) simp
qed

text \<open>
  C3: Content stays where it may stand. If every page, standard and shared note lies in a space that
  is open to its kind, and under no category or one of its own kind and space, then so it does after
  any sequence of requests of the services for pages, categories, spaces, standards and notes (each
  of them run without interruption): however content is created, moved, imported, promoted, trashed
  and restored, and however spaces and categories are changed, closed for a kind or deleted.
\<close>

theorem content_stays_placed:
  assumes "placed d" and "(content_request env)\<^sup>*\<^sup>* d d'"
  shows "pages_placed d' \<and> standards_placed d' \<and> notes_placed d'"
proof -
  from assms(2,1) have "placed d'"
    by (induction rule: rtranclp_induct) (use content_request_placed in blast)+
  then show ?thesis by (simp add: placed_tables)
qed

definition sample_page_input :: page_input where
  "sample_page_input =
     \<lparr>pi_title = ''t'', pi_space = None, pi_type = PAGE, pi_content = [], pi_excerpt = None,
      pi_status = Page_Draft, pi_public = False, pi_mcp = False, pi_category = Some ''cat'',
      pi_parent = Some ''p2'', pi_tags = []\<rparr>"

theorem content_stays_placed_witness:
  "\<exists>d' p. create_page sample_env sample_db ''new'' sample_page_input ''ada'' None 0 = Inr (d', p) \<and>
     pages_placed d' \<and> standards_placed d' \<and> notes_placed d'"
proof -
  have "\<not> isl (create_page sample_env sample_db ''new'' sample_page_input ''ada'' None 0)" by code_simp
  then obtain d' p where r: "create_page sample_env sample_db ''new'' sample_page_input ''ada'' None 0 = Inr (d', p)"
    by (metis sum.disc(1) sum.exhaust surj_pair)
  have "placed sample_db"
    by (simp add: placed_tables content_keys_def pages_placed_def standards_placed_def notes_placed_def
        space_allows_def sample_defs)
  moreover have "(content_request sample_env)\<^sup>*\<^sup>* sample_db d'"
    using content_request.Page [OF page_request.Create [OF r]] by simp
  ultimately have "pages_placed d' \<and> standards_placed d' \<and> notes_placed d'" by (rule content_stays_placed)
  with r show ?thesis by blast
qed

end
