(* ===== verification/Backup_Schedule.thy ===== *)
theory Backup_Schedule
  imports Prelude
begin

text \<open>
  When backups run:
  \<^verbatim>\<open>apps/api/src/modules/backups/backup-schedule.ts\<close>.
  Times are milliseconds since 1970. What \<open>Intl.DateTimeFormat\<close> knows about time zones is a
  parameter: the local date and time of an instant. The calendar of \<open>Date.UTC\<close> is written out.
\<close>

section \<open>The calendar\<close>

text \<open>Days since 1970-01-01: \<open>Date.UTC(y, m - 1, d)\<close>, \<open>getUTCDay\<close> and \<open>getUTCFullYear\<close>.\<close>

definition year_days :: "int \<Rightarrow> int" where
  "year_days y = 365 * (y - 1970) + (y - 1) div 4 - (y - 1) div 100 + (y - 1) div 400 - 477"

definition leap_year :: "int \<Rightarrow> bool" where
  "leap_year y \<longleftrightarrow> (y mod 4 = 0 \<and> y mod 100 \<noteq> 0) \<or> y mod 400 = 0"

definition month_days :: "int \<Rightarrow> int \<Rightarrow> int" where
  "month_days y m =
     [0, 31, 59, 90, 120, 151, 181, 212, 243, 273, 304, 334] ! nat (m - 1) + (if 2 < m \<and> leap_year y then 1 else 0)"

definition utc_days :: "int \<Rightarrow> int \<Rightarrow> int \<Rightarrow> int" where
  "utc_days y m d = year_days y + month_days y m + d - 1"

definition utc_weekday :: "int \<Rightarrow> int" where
  "utc_weekday n = (n + 4) mod 7"

definition utc_year :: "int \<Rightarrow> int" where
  "utc_year n =
     (let y = 1970 + 400 * n div 146097
      in if n < year_days y then y - 1 else if year_days (y + 1) \<le> n then y + 1 else y)"

lemma div_lower: "0 < (c :: int) \<Longrightarrow> c * (x div c) \<le> x"
  using mult_div_mod_eq [of c x] pos_mod_sign [of c x] by linarith

lemma div_upper: "0 < (c :: int) \<Longrightarrow> x < c * (x div c) + c"
  using mult_div_mod_eq [of c x] pos_mod_bound [of c x] by linarith

lemma year_days_bounds:
  shows "146097 * (y - 1970) - 506 \<le> 400 * year_days y" and "400 * year_days y \<le> 146097 * (y - 1970) + 589"
proof -
  define a b c where "a = (y - 1) div 4" and "b = (y - 1) div 100" and "c = (y - 1) div 400"
  have days: "year_days y = 365 * (y - 1970) + a - b + c - 477" by (simp add: year_days_def a_def b_def c_def)
  have "4 * a \<le> y - 1" "100 * b \<le> y - 1" "400 * c \<le> y - 1"
    unfolding a_def b_def c_def by (rule div_lower, simp)+
  moreover have "y - 1 < 4 * a + 4" "y - 1 < 100 * b + 100" "y - 1 < 400 * c + 400"
    unfolding a_def b_def c_def by (rule div_upper, simp)+
  note facts = calculation this
  show "146097 * (y - 1970) - 506 \<le> 400 * year_days y" using facts days by (simp add: algebra_simps)
  show "400 * year_days y \<le> 146097 * (y - 1970) + 589" using facts days by (simp add: algebra_simps)
qed

lemma utc_year_correct: "year_days (utc_year n) \<le> n \<and> n < year_days (utc_year n + 1)"
proof -
  define q where "q = 400 * n div 146097"
  have q: "146097 * q \<le> 400 * n" "400 * n < 146097 * q + 146097"
    unfolding q_def using div_lower [of 146097 "400 * n"] div_upper [of 146097 "400 * n"] by simp_all
  have lo: "year_days (1970 + q - 1) \<le> n"
    using year_days_bounds [of "1970 + q - 1"] q(1) by (simp add: algebra_simps)
  have hi: "n < year_days (1970 + q + 1 + 1)"
    using year_days_bounds [of "1970 + q + 1 + 1"] q(2) by (simp add: algebra_simps)
  consider "n < year_days (1970 + q)" | "\<not> n < year_days (1970 + q)" "year_days (1970 + q + 1) \<le> n"
    | "\<not> n < year_days (1970 + q)" "\<not> year_days (1970 + q + 1) \<le> n" by blast
  then show ?thesis
  proof cases
    case 1
    then have "utc_year n = 1970 + q - 1" unfolding utc_year_def Let_def q_def by simp
    with 1 lo show ?thesis by simp
  next
    case 2
    then have "utc_year n = 1970 + q + 1" unfolding utc_year_def Let_def q_def by simp
    with 2 hi show ?thesis by simp
  next
    case 3
    then have "utc_year n = 1970 + q" unfolding utc_year_def Let_def q_def by simp
    with 3 show ?thesis by simp
  qed
qed

section \<open>The schedule\<close>

text \<open>The numeric parts of a formatted date; \<open>Number\<close> of digits is not negative.\<close>

record local_time =
  lt_year :: nat
  lt_month :: nat
  lt_day :: nat
  lt_hour :: nat
  lt_minute :: nat

type_synonym zone = "time \<Rightarrow> local_time"

record schedule =
  sch_hour :: nat
  sch_minute :: nat
  sch_timezone :: string
  sch_weekdays :: "nat list"

definition MINUTE_MS :: int where
  "MINUTE_MS = 60000"

definition MAX_SEARCH_MINUTES :: int where
  "MAX_SEARCH_MINUTES = 15 * 24 * 60"

definition DST_LOOKBACK_MINUTES :: nat where
  "DST_LOOKBACK_MINUTES = 180"

definition local_days :: "local_time \<Rightarrow> int" where
  "local_days l = utc_days (int (lt_year l)) (int (lt_month l)) (int (lt_day l))"

definition iso_weekday :: "local_time \<Rightarrow> nat" where
  "iso_weekday l = (let s = nat (utc_weekday (local_days l)) in if s = 0 then 7 else s)"

text \<open>The signature is the string of the five numbers; here the numbers themselves.\<close>

definition local_signature :: "local_time \<Rightarrow> nat \<times> nat \<times> nat \<times> nat \<times> nat" where
  "local_signature l = (lt_year l, lt_month l, lt_day l, lt_hour l, lt_minute l)"

definition is_second_occurrence :: "zone \<Rightarrow> time \<Rightarrow> bool" where
  "is_second_occurrence z t =
     list_ex (\<lambda>k. local_signature (z (t - int k * MINUTE_MS)) = local_signature (z t)) [1..<DST_LOOKBACK_MINUTES + 1]"

definition matches_schedule :: "zone \<Rightarrow> schedule \<Rightarrow> time \<Rightarrow> bool" where
  "matches_schedule z s t =
     (let l = z t in lt_hour l = sch_hour s \<and> lt_minute l = sch_minute s \<and>
        iso_weekday l \<in> set (sch_weekdays s))"

function search_run :: "zone \<Rightarrow> schedule \<Rightarrow> time \<Rightarrow> int \<Rightarrow> time result" where
  "search_run z s start k =
     (if k < MAX_SEARCH_MINUTES
      then let t = start + k * MINUTE_MS in
           if matches_schedule z s t \<and> \<not> is_second_occurrence z t then Inr t
           else search_run z s start (k + 1)
      else Inl (Internal ''RangeError''))"
  by pat_completeness auto
termination by (relation "measure (\<lambda>(z, s, start, k). nat (MAX_SEARCH_MINUTES - k))") auto

declare search_run.simps [simp del]

definition next_scheduled_run :: "(string \<Rightarrow> zone) \<Rightarrow> schedule \<Rightarrow> time \<Rightarrow> time result" where
  "next_scheduled_run zones s after =
     search_run (zones (sch_timezone s)) s (after div MINUTE_MS * MINUTE_MS + MINUTE_MS) 0"

text \<open>What the search finds: the first minute that is due, among those it looks at.\<close>

definition is_due :: "zone \<Rightarrow> schedule \<Rightarrow> time \<Rightarrow> bool" where
  "is_due z s t \<longleftrightarrow> matches_schedule z s t \<and> \<not> is_second_occurrence z t"

lemma search_run_spec:
  assumes "0 \<le> k" and "\<forall>j. 0 \<le> j \<and> j < k \<longrightarrow> \<not> is_due z s (start + j * MINUTE_MS)"
  shows "case search_run z s start k of
    Inr t \<Rightarrow> \<exists>j. 0 \<le> j \<and> j < MAX_SEARCH_MINUTES \<and> t = start + j * MINUTE_MS \<and> is_due z s t \<and>
      (\<forall>i. 0 \<le> i \<and> i < j \<longrightarrow> \<not> is_due z s (start + i * MINUTE_MS))
  | Inl e \<Rightarrow> \<forall>j. 0 \<le> j \<and> j < MAX_SEARCH_MINUTES \<longrightarrow> \<not> is_due z s (start + j * MINUTE_MS)"
  using assms
proof (induction z s start k rule: search_run.induct)
  case (1 z s start k)
  show ?case
  proof (cases "k < MAX_SEARCH_MINUTES")
    case False
    then have "search_run z s start k = Inl (Internal ''RangeError'')" by (subst search_run.simps) simp
    with 1(3) False show ?thesis by simp
  next
    case True
    show ?thesis
    proof (cases "is_due z s (start + k * MINUTE_MS)")
      case due: True
      then have "search_run z s start k = Inr (start + k * MINUTE_MS)"
        using True by (subst search_run.simps) (simp add: is_due_def Let_def)
      with True due 1(2,3) show ?thesis by auto
    next
      case no: False
      then have step: "search_run z s start k = search_run z s start (k + 1)"
        using True by (subst search_run.simps) (auto simp: is_due_def Let_def)
      have "\<forall>j. 0 \<le> j \<and> j < k + 1 \<longrightarrow> \<not> is_due z s (start + j * MINUTE_MS)"
        using 1(3) no by (metis linorder_neqE_linordered_idom zless_add1_eq)
      then show ?thesis unfolding step using 1(1) True no 1(2) by (simp add: is_due_def)
    qed
  qed
qed

lemma next_minutes:
  assumes "u mod MINUTE_MS = 0" and "after < u"
  obtains j where "0 \<le> j" and "u = after div MINUTE_MS * MINUTE_MS + MINUTE_MS + j * MINUTE_MS"
proof -
  have u: "u = u div MINUTE_MS * MINUTE_MS" using assms(1) by (metis add.right_neutral div_mult_mod_eq)
  have "after < MINUTE_MS * (after div MINUTE_MS) + MINUTE_MS" "MINUTE_MS * (after div MINUTE_MS) \<le> after"
    by (rule div_upper div_lower, simp add: MINUTE_MS_def)+
  with u assms(2) have "MINUTE_MS * (after div MINUTE_MS) < MINUTE_MS * (u div MINUTE_MS)" by (simp add: mult.commute)
  then have "after div MINUTE_MS < u div MINUTE_MS" by (simp add: MINUTE_MS_def)
  then show thesis by (intro that [of "u div MINUTE_MS - after div MINUTE_MS - 1"]) (use u in \<open>simp_all add: algebra_simps\<close>)
qed

lemma later_minutes:
  assumes "0 \<le> j"
  shows "after < after div MINUTE_MS * MINUTE_MS + MINUTE_MS + j * MINUTE_MS"
proof -
  have "after < MINUTE_MS * (after div MINUTE_MS) + MINUTE_MS" by (rule div_upper) (simp add: MINUTE_MS_def)
  moreover have "0 \<le> j * MINUTE_MS" using assms by (simp add: MINUTE_MS_def)
  ultimately show ?thesis by (simp add: mult.commute)
qed

lemma next_run_spec:
  fixes zones s after
  defines "z \<equiv> zones (sch_timezone s)"
  shows "case next_scheduled_run zones s after of
    Inr t \<Rightarrow> after < t \<and> t mod MINUTE_MS = 0 \<and> is_due z s t \<and>
      (\<nexists>u. after < u \<and> u < t \<and> u mod MINUTE_MS = 0 \<and> is_due z s u)
  | Inl e \<Rightarrow> (\<nexists>u. after < u \<and> u \<le> after + MAX_SEARCH_MINUTES * MINUTE_MS \<and> u mod MINUTE_MS = 0 \<and> is_due z s u)"
proof -
  let ?start = "after div MINUTE_MS * MINUTE_MS + MINUTE_MS"
  have spec: "case search_run z s ?start 0 of
    Inr t \<Rightarrow> \<exists>j. 0 \<le> j \<and> j < MAX_SEARCH_MINUTES \<and> t = ?start + j * MINUTE_MS \<and> is_due z s t \<and>
      (\<forall>i. 0 \<le> i \<and> i < j \<longrightarrow> \<not> is_due z s (?start + i * MINUTE_MS))
  | Inl e \<Rightarrow> \<forall>j. 0 \<le> j \<and> j < MAX_SEARCH_MINUTES \<longrightarrow> \<not> is_due z s (?start + j * MINUTE_MS)"
    by (rule search_run_spec) auto
  show ?thesis
  proof (cases "search_run z s ?start 0")
    case (Inr t)
    with spec obtain j where j: "0 \<le> j" "t = ?start + j * MINUTE_MS" "is_due z s t"
      and first: "\<forall>i. 0 \<le> i \<and> i < j \<longrightarrow> \<not> is_due z s (?start + i * MINUTE_MS)" by auto
    have "\<not> is_due z s u" if u: "after < u" "u < t" "u mod MINUTE_MS = 0" for u
    proof -
      obtain i where "0 \<le> i" "u = ?start + i * MINUTE_MS" using next_minutes [OF u(3,1)] .
      with u(2) j(2) first show ?thesis by (simp add: MINUTE_MS_def)
    qed
    moreover have "after < t" using later_minutes [OF j(1)] j(2) by simp
    moreover have "t mod MINUTE_MS = 0" using j(2) by simp
    ultimately show ?thesis using Inr j(3) by (simp add: next_scheduled_run_def z_def)
  next
    case (Inl e)
    with spec have none: "\<forall>j. 0 \<le> j \<and> j < MAX_SEARCH_MINUTES \<longrightarrow> \<not> is_due z s (?start + j * MINUTE_MS)" by simp
    have "\<not> is_due z s u" if u: "after < u" "u \<le> after + MAX_SEARCH_MINUTES * MINUTE_MS" "u mod MINUTE_MS = 0" for u
    proof -
      obtain i where i: "0 \<le> i" "u = ?start + i * MINUTE_MS" using next_minutes [OF u(3,1)] .
      have "after < MINUTE_MS * (after div MINUTE_MS) + MINUTE_MS" by (rule div_upper) (simp add: MINUTE_MS_def)
      with i(2) u(2) have "i * MINUTE_MS < MAX_SEARCH_MINUTES * MINUTE_MS" by (simp add: mult.commute)
      with none i show ?thesis by (simp add: MINUTE_MS_def)
    qed
    then show ?thesis using Inl by (simp add: next_scheduled_run_def z_def)
  qed
qed

text \<open>
  The next run of a schedule is the first full minute after the given instant that has the local
  time and weekday of the schedule and is not the second occurrence of a minute that a change of the
  clocks repeats, whatever the time zone; the search fails only if the next 15 days have none.
\<close>

theorem next_run_exact:
  "case next_scheduled_run zones s after of
    Inr t \<Rightarrow> after < t \<and> t mod MINUTE_MS = 0 \<and> is_due (zones (sch_timezone s)) s t \<and>
      (\<nexists>u. after < u \<and> u < t \<and> u mod MINUTE_MS = 0 \<and> is_due (zones (sch_timezone s)) s u)
  | Inl e \<Rightarrow> (\<nexists>u. after < u \<and> u \<le> after + MAX_SEARCH_MINUTES * MINUTE_MS \<and> u mod MINUTE_MS = 0 \<and>
      is_due (zones (sch_timezone s)) s u)"
  by (rule next_run_spec)

text \<open>
  A time zone without changes of the clocks (since 1969): local time is UTC plus a fixed number of
  minutes.
\<close>

definition fixed_zone :: "zone \<Rightarrow> int \<Rightarrow> bool" where
  "fixed_zone z off \<longleftrightarrow> (\<forall>m \<ge> - 525600. let l = z (m * MINUTE_MS) in
     local_days l = (m + off) div 1440 \<and> int (lt_hour l) = (m + off) mod 1440 div 60 \<and> int (lt_minute l) = (m + off) mod 60)"

lemma fixed_zone_signature:
  assumes "fixed_zone z off" and "- 525600 \<le> m" and "- 525600 \<le> n"
    and "local_signature (z (m * MINUTE_MS)) = local_signature (z (n * MINUTE_MS))"
  shows "m = n"
proof -
  have l: "local_days (z (m * MINUTE_MS)) = local_days (z (n * MINUTE_MS))"
    "lt_hour (z (m * MINUTE_MS)) = lt_hour (z (n * MINUTE_MS))" "lt_minute (z (m * MINUTE_MS)) = lt_minute (z (n * MINUTE_MS))"
    using assms(4) by (simp_all add: local_signature_def local_days_def)
  have parts: "local_days (z (k * MINUTE_MS)) = (k + off) div 1440" "int (lt_hour (z (k * MINUTE_MS))) = (k + off) mod 1440 div 60"
    "int (lt_minute (z (k * MINUTE_MS))) = (k + off) mod 60" if "- 525600 \<le> k" for k
    using assms(1) that by (simp_all add: fixed_zone_def Let_def)
  have "(m + off) div 1440 = (n + off) div 1440" using parts(1) [OF assms(2)] parts(1) [OF assms(3)] l(1) by simp
  moreover have "(m + off) mod 1440 div 60 = (n + off) mod 1440 div 60" using parts(2) [OF assms(2)] parts(2) [OF assms(3)] l(2) by simp
  moreover have "(m + off) mod 60 = (n + off) mod 60" using parts(3) [OF assms(2)] parts(3) [OF assms(3)] l(3) by simp
  moreover have whole: "k = 1440 * (k div 1440) + 60 * (k mod 1440 div 60) + k mod 60" for k :: int
  proof -
    have "k mod 1440 mod 60 = k mod 60" by (rule mod_mod_cancel) simp
    then show ?thesis using mult_div_mod_eq [of 1440 k] mult_div_mod_eq [of 60 "k mod 1440"] by linarith
  qed
  ultimately have same: "1440 * ((m + off) div 1440) + 60 * ((m + off) mod 1440 div 60) + (m + off) mod 60 =
      1440 * ((n + off) div 1440) + 60 * ((n + off) mod 1440 div 60) + (n + off) mod 60" by (simp only:)
  have "m + off = n + off" by (rule trans [OF whole trans [OF same whole [symmetric]]])
  then show ?thesis by (rule add_right_imp_eq)
qed

lemma fixed_zone_first: "fixed_zone z off \<Longrightarrow> 0 \<le> m \<Longrightarrow> \<not> is_second_occurrence z (m * MINUTE_MS)"
proof
  assume z: "fixed_zone z off" "0 \<le> m" and "is_second_occurrence z (m * MINUTE_MS)"
  then obtain k :: nat where k: "1 \<le> k" "k \<le> DST_LOOKBACK_MINUTES" "local_signature (z (m * MINUTE_MS - int k * MINUTE_MS)) = local_signature (z (m * MINUTE_MS))"
    by (auto simp: is_second_occurrence_def list_ex_iff)
  have "m * MINUTE_MS - int k * MINUTE_MS = (m - int k) * MINUTE_MS" by (simp add: left_diff_distrib)
  with k z(2) fixed_zone_signature [OF z(1), of "m - int k" m] show False by (simp add: DST_LOOKBACK_MINUTES_def)
qed

lemma block_div:
  fixes d k r :: int
  assumes "0 \<le> r" and "r < k"
  shows "(d * k + r) div k = d" and "(d * k + r) mod k = r"
  using assms by simp_all

lemma weekday_shift: "(7 * q + (w + 3) mod 7 + 4) mod 7 = w mod (7 :: int)"
proof -
  have "(7 * q + (w + 3) mod 7 + 4) mod 7 = (7 * q + 4 + (w + 3) mod 7) mod 7" by (simp only: ac_simps)
  also have "\<dots> = (7 * q + 4 + (w + 3)) mod 7" by (rule mod_add_right_eq)
  also have "\<dots> = (w + 7 * (q + 1)) mod 7" by (simp add: algebra_simps)
  finally show ?thesis by (simp only: mod_mult_self2)
qed

lemma weekly_residue:
  fixes c n :: int
  obtains i where "0 \<le> i" and "i < 10080" and "(n + i) mod 10080 = c mod 10080"
  by (rule that [of "(c - n) mod 10080"]) (simp_all add: mod_add_right_eq)

lemma due_in_week:
  assumes z: "fixed_zone z off" and w: "w \<in> set (sch_weekdays s)" "1 \<le> w" "w \<le> 7"
    and hm: "sch_hour s < 24" "sch_minute s < 60" and n: "0 \<le> n"
  obtains i where "0 \<le> i" and "i < 10080" and "is_due z s ((n + i) * MINUTE_MS)"
proof -
  define day where "day = (int w + 3) mod 7"
  define rest where "rest = 60 * int (sch_hour s) + int (sch_minute s)"
  have day: "0 \<le> day" "day < 7" by (simp_all add: day_def)
  have rest: "0 \<le> rest" "rest < 1440" unfolding rest_def using hm by linarith+
  obtain i where i: "0 \<le> i" "i < 10080" "(n + off + i) mod 10080 = (day * 1440 + rest) mod 10080" using weekly_residue .
  define m where "m = n + i + off"
  have "(n + off + i) mod 10080 = day * 1440 + rest" using i(3) day rest by simp
  then obtain q where q: "m = 10080 * q + (day * 1440 + rest)" by (metis m_def mult_div_mod_eq add.assoc add.commute)
  then have m: "m = (7 * q + day) * 1440 + rest" by simp
  have m': "m = ((7 * q + day) * 24 + int (sch_hour s)) * 60 + int (sch_minute s)" by (simp add: m rest_def)
  let ?l = "z ((n + i) * MINUTE_MS)"
  have l: "local_days ?l = m div 1440" "int (lt_hour ?l) = m mod 1440 div 60" "int (lt_minute ?l) = m mod 60"
    using z i(1) n by (simp_all add: fixed_zone_def Let_def m_def)
  have "local_days ?l = 7 * q + day" unfolding l(1) m by (rule block_div(1) [OF rest])
  then have "utc_weekday (local_days ?l) = int w mod 7"
    by (simp add: utc_weekday_def day_def weekday_shift)
  then have "iso_weekday ?l = w" using w(2,3) by (cases "w = 7") (simp_all add: iso_weekday_def Let_def)
  moreover have "m mod 1440 = rest" unfolding m by (rule block_div(2) [OF rest])
  then have "int (lt_hour ?l) = int (sch_hour s)" unfolding l(2) rest_def using hm(2) by simp
  moreover have "int (lt_minute ?l) = int (sch_minute s)" unfolding l(3) m' by (rule block_div(2)) (use hm(2) in simp_all)
  ultimately have "is_due z s ((n + i) * MINUTE_MS)"
    using w(1) fixed_zone_first [OF z, of "n + i"] i(1) n by (simp add: is_due_def matches_schedule_def Let_def)
  with i show thesis by (intro that)
qed

text \<open>
  In a zone without changes of the clocks a valid schedule always has a next run, within a week.
\<close>

theorem next_run_within_week:
  assumes "fixed_zone (zones (sch_timezone s)) off" and "w \<in> set (sch_weekdays s)" and "1 \<le> w" and "w \<le> 7"
    and "sch_hour s < 24" and "sch_minute s < 60" and "0 \<le> after"
  shows "\<exists>t. next_scheduled_run zones s after = Inr t \<and> after < t \<and> t \<le> after + 7 * 24 * 60 * MINUTE_MS"
proof -
  let ?z = "zones (sch_timezone s)" and ?m = "after div MINUTE_MS"
  obtain i where i: "0 \<le> i" "i < 10080" "is_due ?z s ((?m + 1 + i) * MINUTE_MS)"
    by (rule due_in_week [OF assms(1-6), of "?m + 1"]) (use assms(7) in \<open>simp_all add: MINUTE_MS_def\<close>)
  let ?u = "(?m + 1 + i) * MINUTE_MS"
  have u: "after < ?u" using later_minutes [OF i(1)] by (simp add: algebra_simps)
  have "MINUTE_MS * ?m \<le> after" by (rule div_lower) (simp add: MINUTE_MS_def)
  then have late: "?u \<le> after + 10080 * MINUTE_MS" using i(2) by (simp add: MINUTE_MS_def algebra_simps)
  show ?thesis
  proof (cases "next_scheduled_run zones s after")
    case (Inl e)
    then have "\<nexists>u. after < u \<and> u \<le> after + MAX_SEARCH_MINUTES * MINUTE_MS \<and> u mod MINUTE_MS = 0 \<and> is_due ?z s u"
      using next_run_spec [where zones = zones and s = s and after = after] by simp
    with u late i(3) have False by (auto simp: MAX_SEARCH_MINUTES_def MINUTE_MS_def)
    then show ?thesis ..
  next
    case (Inr t)
    then have t: "after < t" "\<nexists>u. after < u \<and> u < t \<and> u mod MINUTE_MS = 0 \<and> is_due ?z s u"
      using next_run_spec [where zones = zones and s = s and after = after] by simp_all
    then have "t \<le> ?u" using u i(3) by (metis linorder_not_less mod_mult_self2_is_0)
    with Inr t(1) late show ?thesis by auto
  qed
qed

text \<open>UTC itself, with the dates of the calendar.\<close>

definition utc_zone :: zone where
  "utc_zone t =
     (let m = t div MINUTE_MS; n = m div 1440; y = utc_year n; ordinal = n - year_days y;
          month = last (filter (\<lambda>k. month_days y k \<le> ordinal) [1..12])
      in \<lparr>lt_year = nat y, lt_month = nat month, lt_day = nat (ordinal - month_days y month + 1),
          lt_hour = nat (m mod 1440 div 60), lt_minute = nat (m mod 60)\<rparr>)"

lemma utc_year_pos: "- 365 \<le> n \<Longrightarrow> 0 \<le> utc_year n"
  using utc_year_correct [of n] year_days_bounds(2) [of "utc_year n + 1"] by (simp add: algebra_simps)

lemma utc_zone_days:
  assumes "- 525600 \<le> m"
  shows "local_days (utc_zone (m * MINUTE_MS)) = m div 1440"
proof -
  define n where "n = m div 1440"
  define y where "y = utc_year n"
  define months where "months = filter (\<lambda>k. month_days y k \<le> n - year_days y) [1..12]"
  have "1 \<in> set months" using utc_year_correct [of n] by (simp add: months_def y_def month_days_def)
  then have last: "last months \<in> set months" by (metis empty_iff last_in_set list.set(1))
  then have month: "month_days y (last months) \<le> n - year_days y" "1 \<le> last months" by (simp_all add: months_def)
  have "- 365 \<le> n" using assms zdiv_mono1 [of "- 525600" m 1440] by (simp add: n_def)
  then have "0 \<le> y" by (simp add: y_def utc_year_pos)
  moreover have "m * MINUTE_MS div MINUTE_MS = m" by (simp add: MINUTE_MS_def)
  ultimately show ?thesis using month
    by (simp add: utc_zone_def Let_def local_days_def utc_days_def flip: n_def y_def months_def)
qed

lemma utc_zone_fixed: "fixed_zone utc_zone 0"
proof -
  have "m * MINUTE_MS div MINUTE_MS = m" for m by (simp add: MINUTE_MS_def)
  then show ?thesis using utc_zone_days by (simp add: fixed_zone_def utc_zone_def Let_def)
qed

theorem next_run_within_week_witness:
  "\<exists>t. next_scheduled_run (\<lambda>_. utc_zone) \<lparr>sch_hour = 3, sch_minute = 30, sch_timezone = ''UTC'', sch_weekdays = [7]\<rparr> 0 = Inr t \<and>
     0 < t \<and> t \<le> 0 + 7 * 24 * 60 * MINUTE_MS"
  by (rule next_run_within_week [where off = 0 and w = 7]) (simp_all add: utc_zone_fixed)

end
