(* ===== verification/Backup_Retention.thy ===== *)
theory Backup_Retention
  imports Backup_Schedule
begin

text \<open>
  Which backups of a plan are kept: \<^verbatim>\<open>apps/api/src/modules/backups/backup-retention.ts\<close>. The newest
  backup of every day, week and month is kept, up to a limit for each, and always the newest of all.
  The result is shown to be this rule, with calendar weeks from Monday to Sunday.
\<close>

section \<open>Buckets\<close>

datatype bucket_unit = Day_Unit | Week_Unit | Month_Unit

definition pad2 :: "string \<Rightarrow> string" where
  "pad2 s = replicate (2 - length s) (CHR ''0'') @ s"

definition show_int :: "int \<Rightarrow> string" where
  "show_int i = (if i < 0 then ''-'' @ show_nat (nat (- i)) else show_nat (nat i))"

text \<open>\<open>isoWeek\<close>: the year and number of the week of a local date, by its Thursday.\<close>

definition iso_week :: "local_time \<Rightarrow> int \<times> int" where
  "iso_week l =
     (let thursday = local_days l + 4 - int (iso_weekday l);
          year = utc_year thursday
      in (year, - ((- (thursday - year_days year + 1)) div 7)))"

definition bucket_key :: "zone \<Rightarrow> time \<Rightarrow> bucket_unit \<Rightarrow> string" where
  "bucket_key z t u =
     (let l = z t in case u of
        Month_Unit \<Rightarrow> show_nat (lt_year l) @ ''-'' @ pad2 (show_nat (lt_month l))
      | Day_Unit \<Rightarrow> show_nat (lt_year l) @ ''-'' @ pad2 (show_nat (lt_month l)) @ ''-'' @ pad2 (show_nat (lt_day l))
      | Week_Unit \<Rightarrow> (case iso_week l of (y, w) \<Rightarrow> show_int y @ ''-W'' @ pad2 (show_int w)))"

section \<open>The selection\<close>

record candidate =
  rc_id :: ident
  rc_created :: time

record retention =
  rt_daily :: int
  rt_weekly :: int
  rt_monthly :: int

fun bucket_loop :: "(candidate \<Rightarrow> string) \<Rightarrow> int \<Rightarrow> candidate list \<Rightarrow> string list \<Rightarrow> ident list \<Rightarrow> ident list" where
  "bucket_loop key limit [] buckets keep = keep"
| "bucket_loop key limit (c # cs) buckets keep =
     (if key c \<in> set buckets \<or> limit \<le> int (length buckets) then bucket_loop key limit cs buckets keep
      else bucket_loop key limit cs (key c # buckets) (rc_id c # keep))"

definition keep_buckets :: "zone \<Rightarrow> candidate list \<Rightarrow> int \<Rightarrow> bucket_unit \<Rightarrow> ident list \<Rightarrow> ident list" where
  "keep_buckets z cs limit u keep =
     (if limit \<le> 0 then keep else bucket_loop (\<lambda>c. bucket_key z (rc_created c) u) limit cs [] keep)"

definition newest_first :: "candidate list \<Rightarrow> candidate list" where
  "newest_first cs = sort_key (\<lambda>c. - rc_created c) cs"

definition expired_backups :: "(string \<Rightarrow> zone) \<Rightarrow> candidate list \<Rightarrow> retention \<Rightarrow> string \<Rightarrow> ident list" where
  "expired_backups zones cs r tz =
     (case newest_first cs of
        [] \<Rightarrow> []
      | newest # rest \<Rightarrow>
          let sorted = newest # rest; z = zones tz;
              keep = keep_buckets z sorted (rt_monthly r) Month_Unit
                (keep_buckets z sorted (rt_weekly r) Week_Unit
                (keep_buckets z sorted (rt_daily r) Day_Unit [rc_id newest]))
          in map rc_id (filter (\<lambda>c. rc_id c \<notin> set keep) sorted))"

section \<open>Buckets are days, weeks and months\<close>

lemma digits_show_nat: "set (show_nat n) \<subseteq> digit_char ` {..<10}"
proof (induction n rule: show_nat.induct)
  case (1 n)
  show ?case
  proof (cases "n < 10")
    case True
    then show ?thesis by (subst show_nat.simps) simp
  next
    case False
    then show ?thesis using 1 by (subst show_nat.simps) (simp add: Let_def)
  qed
qed

lemma digit_char_0: "digit_char 0 = CHR ''0''"
  unfolding digit_char_def by code_simp

lemma digits_pad2: "set (pad2 (show_nat n)) \<subseteq> digit_char ` {..<10}"
proof -
  have "CHR ''0'' \<in> digit_char ` {..<10}" using digit_char_0 by (metis image_eqI lessThan_iff zero_less_numeral)
  then show ?thesis using digits_show_nat [of n] by (auto simp: pad2_def)
qed

lemma digit_char_code: "d < 10 \<Longrightarrow> of_char (digit_char d) = (48 + d :: nat)"
  by (simp add: digit_char_def of_char_of)

lemma not_digit: "of_char c < (48 :: nat) \<or> 57 < (of_char c :: nat) \<Longrightarrow> c \<notin> digit_char ` {..<10}"
  by (auto simp: digit_char_code)

lemma no_separator: "CHR ''-'' \<notin> digit_char ` {..<10}" "CHR ''W'' \<notin> digit_char ` {..<10}"
  by (rule not_digit, simp)+

lemma read_leading_zeros: "read_nat (replicate k (CHR ''0'') @ s) = read_nat s"
proof -
  have "foldl (\<lambda>acc c. 10 * acc + (of_char c - 48)) 0 (replicate k (CHR ''0'')) = (0 :: nat)" by (induction k) simp_all
  then show ?thesis by (simp add: read_nat_def)
qed

lemma pad2_inj: "pad2 (show_nat m) = pad2 (show_nat n) \<longleftrightarrow> m = n"
  by (metis pad2_def read_leading_zeros read_show_nat)

lemma month_key:
  "show_nat y @ ''-'' @ pad2 (show_nat m) = show_nat y' @ ''-'' @ pad2 (show_nat m') \<longleftrightarrow> y = y' \<and> m = m'"
  using split_at_sep [of "show_nat y" "CHR ''-''" "pad2 (show_nat m)" "show_nat y'" "pad2 (show_nat m')"]
    digits_show_nat [of y] digits_show_nat [of y'] no_separator
  by (auto simp: pad2_inj show_nat_inj)

lemma day_key:
  "show_nat y @ ''-'' @ pad2 (show_nat m) @ ''-'' @ pad2 (show_nat d) =
     show_nat y' @ ''-'' @ pad2 (show_nat m') @ ''-'' @ pad2 (show_nat d') \<longleftrightarrow> y = y' \<and> m = m' \<and> d = d'"
  using split_at_sep [of "show_nat y" "CHR ''-''" "pad2 (show_nat m) @ ''-'' @ pad2 (show_nat d)" "show_nat y'"
      "pad2 (show_nat m') @ ''-'' @ pad2 (show_nat d')"]
    split_at_sep [of "pad2 (show_nat m)" "CHR ''-''" "pad2 (show_nat d)" "pad2 (show_nat m')" "pad2 (show_nat d')"]
    digits_show_nat [of y] digits_show_nat [of y'] digits_pad2 [of m] digits_pad2 [of m'] no_separator
  by (auto simp: pad2_inj show_nat_inj)

lemma show_int_inj: "show_int i = show_int j \<longleftrightarrow> i = j"
proof -
  have "show_nat m \<noteq> CHR ''-'' # s" for m s
    using digits_show_nat [of m] no_separator(1) by auto
  then show ?thesis by (auto simp: show_int_def show_nat_inj nat_eq_iff2 dest: sym)
qed

lemma no_W: "CHR ''W'' \<notin> set (show_int i @ ''-'')"
  using digits_show_nat [of "nat i"] digits_show_nat [of "nat (- i)"] no_separator(2) by (auto simp: show_int_def)

lemma week_key:
  assumes "0 \<le> w" and "0 \<le> w'"
  shows "show_int y @ ''-W'' @ pad2 (show_int w) = show_int y' @ ''-W'' @ pad2 (show_int w') \<longleftrightarrow> y = y' \<and> w = w'"
proof
  assume "show_int y @ ''-W'' @ pad2 (show_int w) = show_int y' @ ''-W'' @ pad2 (show_int w')"
  then have "(show_int y @ ''-'') @ CHR ''W'' # pad2 (show_int w) = (show_int y' @ ''-'') @ CHR ''W'' # pad2 (show_int w')" by simp
  from split_at_sep [OF this no_W no_W] have "show_int y = show_int y'" "pad2 (show_int w) = pad2 (show_int w')" by simp_all
  then show "y = y' \<and> w = w'" using assms by (simp add: show_int_inj) (simp add: show_int_def pad2_inj)
qed simp

text \<open>The Thursday of a week is 7 times the number of the week counted from the first Monday.\<close>

definition monday_week :: "local_time \<Rightarrow> int" where
  "monday_week l = (local_days l + 3) div 7"

lemma thursday: "local_days l + 4 - int (iso_weekday l) = 7 * monday_week l"
proof -
  have "(if (v + 4) mod 7 = 0 then 7 else (v + 4) mod 7) = (v + 3) mod 7 + 1" for v :: int
  proof -
    define r where "r = (v + 3) mod 7"
    have "(v + 4) mod 7 = (r + 1) mod 7" using mod_add_left_eq [of "v + 3" 7 1] by (simp add: r_def ac_simps)
    moreover have "0 \<le> r" "r < 7" by (simp_all add: r_def)
    ultimately show ?thesis unfolding r_def [symmetric] by (cases "r = 6") simp_all
  qed
  moreover have "int (iso_weekday l) = (if (local_days l + 4) mod 7 = 0 then 7 else (local_days l + 4) mod 7)"
    by (simp add: iso_weekday_def utc_weekday_def Let_def nat_eq_iff)
  ultimately have "int (iso_weekday l) = (local_days l + 3) mod 7 + 1" by simp
  then show ?thesis using mult_div_mod_eq [of 7 "local_days l + 3"] unfolding monday_week_def by linarith
qed

lemma iso_week_pos: "1 \<le> snd (iso_week l)"
proof -
  have "- (7 * monday_week l - year_days (utc_year (7 * monday_week l)) + 1) < 0"
    using utc_year_correct [of "7 * monday_week l"] by linarith
  then have "(- (7 * monday_week l - year_days (utc_year (7 * monday_week l)) + 1)) div 7 < 0"
    by (rule div_neg_pos_less0) simp
  then show ?thesis by (simp add: iso_week_def Let_def thursday)
qed

lemma iso_week_eq: "iso_week l = iso_week l' \<longleftrightarrow> monday_week l = monday_week l'"
proof
  assume *: "iso_week l = iso_week l'"
  then have both: "utc_year (7 * monday_week l) = utc_year (7 * monday_week l') \<and>
      (- (7 * monday_week l - year_days (utc_year (7 * monday_week l)) + 1)) div 7 =
      (- (7 * monday_week l' - year_days (utc_year (7 * monday_week l')) + 1)) div 7"
    unfolding iso_week_def Let_def thursday prod.inject neg_equal_iff_equal .
  have week: "(- (7 * monday_week l - year_days (utc_year (7 * monday_week l)) + 1)) div 7 =
      (- (7 * monday_week l' - year_days (utc_year (7 * monday_week l)) + 1)) div 7"
    using conjunct2 [OF both] unfolding conjunct1 [OF both] .
  define b where "b = year_days (utc_year (7 * monday_week l)) - 1"
  have "- (7 * k - year_days (utc_year (7 * monday_week l)) + 1) = b + 7 * (- k)" for k by (simp add: b_def)
  with week have "(b + 7 * (- monday_week l)) div 7 = (b + 7 * (- monday_week l')) div 7" by (simp only:)
  then show "monday_week l = monday_week l'" by simp
qed (simp add: iso_week_def Let_def thursday)

text \<open>The days, weeks and months themselves.\<close>

definition same_period :: "zone \<Rightarrow> bucket_unit \<Rightarrow> time \<Rightarrow> time \<Rightarrow> bool" where
  "same_period z u a b \<longleftrightarrow> (case u of
     Day_Unit \<Rightarrow> lt_year (z a) = lt_year (z b) \<and> lt_month (z a) = lt_month (z b) \<and> lt_day (z a) = lt_day (z b)
   | Week_Unit \<Rightarrow> monday_week (z a) = monday_week (z b)
   | Month_Unit \<Rightarrow> lt_year (z a) = lt_year (z b) \<and> lt_month (z a) = lt_month (z b))"

lemma bucket_key_eq: "bucket_key z a u = bucket_key z b u \<longleftrightarrow> same_period z u a b"
proof (cases u)
  case Week_Unit
  obtain y w y' w' where "iso_week (z a) = (y, w)" "iso_week (z b) = (y', w')" by (metis surj_pair)
  moreover from this have "0 \<le> w" "0 \<le> w'" using iso_week_pos [of "z a"] iso_week_pos [of "z b"] by simp_all
  ultimately show ?thesis using Week_Unit week_key [of w w' y y'] iso_week_eq [of "z a" "z b"]
    by (simp add: bucket_key_def Let_def same_period_def)
qed (simp_all only: bucket_key_def Let_def same_period_def bucket_unit.case month_key day_key)

section \<open>What is kept\<close>

text \<open>
  A backup is the newest of its period, and fewer than \<open>limit\<close> periods have newer ones. \<open>newer\<close> are
  the backups before it in the list from new to old.
\<close>

definition newest_of_period :: "zone \<Rightarrow> bucket_unit \<Rightarrow> int \<Rightarrow> candidate list \<Rightarrow> candidate \<Rightarrow> bool" where
  "newest_of_period z u limit newer c \<longleftrightarrow>
     (\<forall>x \<in> set newer. \<not> same_period z u (rc_created x) (rc_created c)) \<and>
     int (card ((\<lambda>x. bucket_key z (rc_created x) u) ` set newer)) < limit"

fun kept_ids :: "(candidate \<Rightarrow> string) \<Rightarrow> int \<Rightarrow> candidate list \<Rightarrow> string set \<Rightarrow> ident set" where
  "kept_ids key limit [] B = {}"
| "kept_ids key limit (c # cs) B =
     (if key c \<notin> B \<and> int (card B) < limit then {rc_id c} else {}) \<union> kept_ids key limit cs (insert (key c) B)"

lemma kept_full: "finite B \<Longrightarrow> limit \<le> int (card B) \<Longrightarrow> kept_ids key limit cs B = {}"
proof (induction cs arbitrary: B)
  case (Cons c cs)
  have "card B \<le> card (insert (key c) B)" using Cons.prems(1) by (simp add: card_insert_le)
  with Cons show ?case by simp
qed simp

lemma bucket_loop_kept:
  "distinct buckets \<Longrightarrow> set (bucket_loop key limit cs buckets keep) = set keep \<union> kept_ids key limit cs (set buckets)"
proof (induction cs arbitrary: buckets keep)
  case (Cons c cs)
  note size = distinct_card [OF Cons.prems]
  consider "key c \<in> set buckets" | "key c \<notin> set buckets" "limit \<le> int (length buckets)"
    | "key c \<notin> set buckets" "\<not> limit \<le> int (length buckets)" by blast
  then show ?case
  proof cases
    case 1
    then show ?thesis using Cons.IH [OF Cons.prems] by (simp add: insert_absorb)
  next
    case 2
    then have "kept_ids key limit cs (set buckets) = {}" "kept_ids key limit (c # cs) (set buckets) = {}"
      using size by (simp_all only: kept_full finite_set)
    then show ?thesis using 2 Cons.IH [OF Cons.prems] by simp
  next
    case 3
    then show ?thesis using Cons.IH [of "key c # buckets" "rc_id c # keep"] Cons.prems size by simp
  qed
qed simp

lemma split_Cons:
  "(\<exists>newer x rest. c # cs = newer @ x # rest \<and> P newer x) \<longleftrightarrow> P [] c \<or> (\<exists>newer x rest. cs = newer @ x # rest \<and> P (c # newer) x)"
  by (auto simp: Cons_eq_append_conv)

lemma kept_iff:
  "i \<in> kept_ids key limit cs B \<longleftrightarrow> (\<exists>newer c rest. cs = newer @ c # rest \<and>
     rc_id c = i \<and> key c \<notin> B \<union> key ` set newer \<and> int (card (B \<union> key ` set newer)) < limit)"
proof (induction cs arbitrary: B)
  case (Cons c cs)
  show ?case unfolding split_Cons kept_ids.simps Un_iff Cons.IH by (simp add: Un_insert_left) blast
qed simp

lemma keep_buckets_iff:
  "i \<in> set (keep_buckets z cs limit u keep) \<longleftrightarrow> i \<in> set keep \<or>
     (\<exists>newer c rest. cs = newer @ c # rest \<and> rc_id c = i \<and> newest_of_period z u limit newer c)"
proof (cases "limit \<le> 0")
  case True
  then show ?thesis by (simp add: keep_buckets_def newest_of_period_def)
next
  case False
  have fresh: "(\<forall>x \<in> set newer. \<not> same_period z u (rc_created x) (rc_created c)) \<longleftrightarrow>
      bucket_key z (rc_created c) u \<notin> (\<lambda>x. bucket_key z (rc_created x) u) ` set newer" for newer c
  proof -
    have "bucket_key z (rc_created x) u = bucket_key z (rc_created c) u \<longleftrightarrow>
        bucket_key z (rc_created c) u = bucket_key z (rc_created x) u" for x by (rule eq_commute)
    then show ?thesis unfolding bucket_key_eq [symmetric] image_iff by blast
  qed
  then show ?thesis using False
    by (simp add: keep_buckets_def bucket_loop_kept kept_iff newest_of_period_def fresh)
qed

lemma kept_bound: "finite B \<Longrightarrow> int (card (kept_ids key limit cs B)) \<le> max 0 (limit - int (card B))"
proof (induction cs arbitrary: B)
  case (Cons c cs)
  show ?case
  proof (cases "key c \<notin> B \<and> int (card B) < limit")
    case True
    have "card ({rc_id c} \<union> kept_ids key limit cs (insert (key c) B)) \<le> 1 + card (kept_ids key limit cs (insert (key c) B))"
      using card_Un_le [of "{rc_id c}"] by simp
    with True Cons.IH [of "insert (key c) B"] Cons.prems show ?thesis by simp
  next
    case False
    have "max 0 (limit - int (card (insert (key c) B))) \<le> max 0 (limit - int (card B))"
      using card_insert_le [of B "key c"] Cons.prems by simp
    moreover have "kept_ids key limit (c # cs) B = kept_ids key limit cs (insert (key c) B)" using False by auto
    moreover have "int (card (kept_ids key limit cs (insert (key c) B))) \<le> max 0 (limit - int (card (insert (key c) B)))"
      by (rule Cons.IH) (simp add: Cons.prems)
    ultimately show ?thesis by simp
  qed
qed simp

lemma keep_buckets_bound:
  "int (card (set (keep_buckets z cs limit u keep))) \<le> int (card (set keep)) + max 0 limit"
proof (cases "limit \<le> 0")
  case False
  let ?K = "kept_ids (\<lambda>c. bucket_key z (rc_created c) u) limit cs {}"
  have "card (set keep \<union> ?K) \<le> card (set keep) + card ?K" by (rule card_Un_le)
  with False kept_bound [of "{}" "\<lambda>c. bucket_key z (rc_created c) u" limit cs] show ?thesis
    by (simp add: keep_buckets_def bucket_loop_kept)
qed (simp add: keep_buckets_def)

lemma position_unique:
  assumes "distinct (map f cs)" and "cs = xs @ c # ys" and "cs = xs' @ c' # ys'" and "f c = f c'"
  shows "xs = xs' \<and> c = c'"
proof -
  have "length xs = length xs'"
    using assms nth_eq_iff_index_eq [of "map f cs" "length xs" "length xs'"] by (metis add_Suc_right length_append length_map
      less_add_Suc1 list.size(4) map_append list.map(2) nth_append_length)
  with assms(2,3) show ?thesis by simp
qed

text \<open>
  C38: The retention keeps exactly the newest backup of all and the newest of each of the last days,
  weeks and months, as many of each as the plan says; weeks run from Monday to Sunday and everything
  is local time of the plan. So it never keeps more than the sum of the limits and one, and as long as
  there is a backup the newest stays.
\<close>

theorem retention_exact:
  assumes "distinct (map rc_id cs)" and "c \<in> set cs"
  shows "(rc_id c \<notin> set (expired_backups zones cs r tz) \<longleftrightarrow>
      (\<exists>newer rest. newest_first cs = newer @ c # rest \<and>
        (newer = [] \<or> newest_of_period (zones tz) Day_Unit (rt_daily r) newer c \<or>
         newest_of_period (zones tz) Week_Unit (rt_weekly r) newer c \<or>
         newest_of_period (zones tz) Month_Unit (rt_monthly r) newer c))) \<and>
    int (card (rc_id ` set cs - set (expired_backups zones cs r tz))) \<le>
      1 + max 0 (rt_daily r) + max 0 (rt_weekly r) + max 0 (rt_monthly r)"
proof -
  obtain newest rest where sorted: "newest_first cs = newest # rest"
    using assms(2) by (cases "newest_first cs") (auto simp: newest_first_def dest: arg_cong [of _ _ set])
  have set: "set (newest_first cs) = set cs" by (simp add: newest_first_def)
  have distinct: "distinct (map rc_id (newest_first cs))"
    using assms(1) by (simp add: newest_first_def distinct_map)
  let ?z = "zones tz"
  define keep where "keep = keep_buckets ?z (newest_first cs) (rt_monthly r) Month_Unit
    (keep_buckets ?z (newest_first cs) (rt_weekly r) Week_Unit
    (keep_buckets ?z (newest_first cs) (rt_daily r) Day_Unit [rc_id newest]))"
  have expired: "set (expired_backups zones cs r tz) = rc_id ` set cs - set keep"
    using set by (auto simp: expired_backups_def Let_def sorted keep_def)
  obtain xs ys where pos: "newest_first cs = xs @ c # ys" using assms(2) set split_list [of c "newest_first cs"] by auto
  have here: "(\<exists>newer d rest. newest_first cs = newer @ d # rest \<and> rc_id d = rc_id c \<and> P newer d) \<longleftrightarrow> P xs c" for P
    using position_unique [OF distinct pos] pos by metis
  have first: "rc_id c = rc_id newest \<longleftrightarrow> xs = []"
    using position_unique [OF distinct pos, of "[]" newest rest] sorted pos by auto
  have "rc_id c \<in> set keep \<longleftrightarrow> xs = [] \<or> newest_of_period ?z Day_Unit (rt_daily r) xs c \<or>
      newest_of_period ?z Week_Unit (rt_weekly r) xs c \<or> newest_of_period ?z Month_Unit (rt_monthly r) xs c"
    unfolding keep_def keep_buckets_iff here using first by auto
  moreover have pos_iff: "(\<exists>newer rest. newest_first cs = newer @ c # rest \<and> P newer) \<longleftrightarrow> P xs" for P
    using position_unique [OF distinct pos] pos by metis
  ultimately have "rc_id c \<notin> set (expired_backups zones cs r tz) \<longleftrightarrow>
      (\<exists>newer rest. newest_first cs = newer @ c # rest \<and>
        (newer = [] \<or> newest_of_period ?z Day_Unit (rt_daily r) newer c \<or>
         newest_of_period ?z Week_Unit (rt_weekly r) newer c \<or> newest_of_period ?z Month_Unit (rt_monthly r) newer c))"
    unfolding expired pos_iff using assms(2) by simp
  moreover have "card (rc_id ` set cs - set (expired_backups zones cs r tz)) \<le> card (set keep)"
    unfolding expired by (rule card_mono) auto
  moreover have "int (card (set keep)) \<le> 1 + max 0 (rt_daily r) + max 0 (rt_weekly r) + max 0 (rt_monthly r)"
    using keep_buckets_bound [of ?z "newest_first cs" "rt_daily r" Day_Unit "[rc_id newest]"]
      keep_buckets_bound [of ?z "newest_first cs" "rt_weekly r" Week_Unit
        "keep_buckets ?z (newest_first cs) (rt_daily r) Day_Unit [rc_id newest]"]
      keep_buckets_bound [of ?z "newest_first cs" "rt_monthly r" Month_Unit
        "keep_buckets ?z (newest_first cs) (rt_weekly r) Week_Unit
        (keep_buckets ?z (newest_first cs) (rt_daily r) Day_Unit [rc_id newest])"]
    by (simp add: keep_def)
  ultimately show ?thesis by simp
qed

theorem retention_exact_witness:
  "''b'' \<notin> set (expired_backups (\<lambda>_. utc_zone) [\<lparr>rc_id = ''a'', rc_created = 0\<rparr>, \<lparr>rc_id = ''b'', rc_created = 86400000\<rparr>]
      \<lparr>rt_daily = 1, rt_weekly = 0, rt_monthly = 0\<rparr> ''UTC'')"
proof -
  let ?cs = "[\<lparr>rc_id = ''a'', rc_created = 0\<rparr>, \<lparr>rc_id = ''b'', rc_created = 86400000\<rparr>]"
  let ?c = "\<lparr>rc_id = ''b'', rc_created = 86400000\<rparr>"
  have "newest_first ?cs = [] @ ?c # [\<lparr>rc_id = ''a'', rc_created = 0\<rparr>]" by (simp add: newest_first_def)
  then show ?thesis
    using retention_exact [of ?cs ?c "\<lambda>_. utc_zone" "\<lparr>rt_daily = 1, rt_weekly = 0, rt_monthly = 0\<rparr>" "''UTC''"] by auto
qed

end
