(* ===== verification/Backup_Coordination.thy ===== *)
theory Backup_Coordination
  imports Text
begin

text \<open>
  Locks and the write barrier of backups (\<^verbatim>\<open>apps/api/src/modules/backups/backup-coordination.service.ts\<close>)
  and the interceptor in front of every request (\<^verbatim>\<open>backup-write-barrier.interceptor.ts\<close>). Production
  coordinates all instances and the worker through Redis; without Redis there are maps in memory. The
  scripts and commands sent to Redis are modelled; the commands themselves are a parameter, with their
  documented effect (\<open>redis_commands_ok\<close>). What a snapshot needs of either is the locale \<open>write_gate\<close>.
  Tokens (\<open>randomUUID\<close>) and the clock are arguments.
\<close>

section \<open>The commands of Redis\<close>

datatype redis_value = Redis_Text ident | Redis_Number int

record 's redis_commands =
  rc_set_nx :: "string \<Rightarrow> redis_value \<Rightarrow> int \<Rightarrow> time \<Rightarrow> 's \<Rightarrow> 's \<times> bool"
  rc_set :: "string \<Rightarrow> redis_value \<Rightarrow> int \<Rightarrow> time \<Rightarrow> 's \<Rightarrow> 's"
  rc_get :: "string \<Rightarrow> time \<Rightarrow> 's \<Rightarrow> redis_value option"
  rc_del :: "string \<Rightarrow> time \<Rightarrow> 's \<Rightarrow> 's"
  rc_exists :: "string \<Rightarrow> time \<Rightarrow> 's \<Rightarrow> bool"
  rc_incr :: "string \<Rightarrow> time \<Rightarrow> 's \<Rightarrow> 's \<times> int"
  rc_decr :: "string \<Rightarrow> time \<Rightarrow> 's \<Rightarrow> 's \<times> int"
  rc_pexpire :: "string \<Rightarrow> int \<Rightarrow> time \<Rightarrow> 's \<Rightarrow> 's"

section \<open>The coordination\<close>

text \<open>The two maps of the local mode.\<close>

record coord =
  co_locks :: "string \<rightharpoonup> ident \<times> time"
  co_active :: int

datatype 's coord_store = Local coord | Shared 's

definition init_coordination :: "string option \<Rightarrow> bool \<Rightarrow> 's \<Rightarrow> 's coord_store result" where
  "init_coordination redis_url production server =
     (if redis_url = None \<or> trim (the redis_url) = []
      then if production then Inl (Internal ''REDIS_URL'') else Inr (Local \<lparr>co_locks = (\<lambda>_. None), co_active = 0\<rparr>)
      else Inr (Shared server))"

definition WRITE_BARRIER_KEY :: string where
  "WRITE_BARRIER_KEY = ''ad-wiki:backup:write-barrier''"

definition ACTIVE_WRITES_KEY :: string where
  "ACTIVE_WRITES_KEY = ''ad-wiki:backup:active-writes''"


definition lock_key :: "string \<Rightarrow> string" where
  "lock_key key = ''ad-wiki:backup:lock:'' @ key"

definition clear_expired :: "time \<Rightarrow> coord \<Rightarrow> coord" where
  "clear_expired now c = c\<lparr>co_locks := (\<lambda>k. case co_locks c k of None \<Rightarrow> None | Some x \<Rightarrow> if snd x \<le> now then None else Some x)\<rparr>"

definition put_lock :: "string \<Rightarrow> ident \<Rightarrow> time \<Rightarrow> time \<Rightarrow> coord \<Rightarrow> coord \<times> ident option" where
  "put_lock k token ttl now c =
     (let c = clear_expired now c in
      if co_locks c k \<noteq> None then (c, None)
      else (c\<lparr>co_locks := (co_locks c)(k \<mapsto> (token, now + ttl))\<rparr>, Some token))"

definition drop_lock :: "string \<Rightarrow> ident \<Rightarrow> coord \<Rightarrow> coord" where
  "drop_lock k token c =
     (if map_option fst (co_locks c k) = Some token
      then c\<lparr>co_locks := (co_locks c)(k := None)\<rparr> else c)"

text \<open>Setting a key that is free, and the script that deletes a key one still owns.\<close>

definition set_key ::
    "'s redis_commands \<Rightarrow> string \<Rightarrow> ident \<Rightarrow> time \<Rightarrow> time \<Rightarrow> 's coord_store \<Rightarrow> 's coord_store \<times> ident option" where
  "set_key R k token ttl now st =
     (case st of
        Local c \<Rightarrow> (case put_lock k token ttl now c of (c', x) \<Rightarrow> (Local c', x))
      | Shared s \<Rightarrow> (case rc_set_nx R k (Redis_Text token) ttl now s of
          (s', stored) \<Rightarrow> (Shared s', if stored then Some token else None)))"

definition release_script :: "'s redis_commands \<Rightarrow> string \<Rightarrow> ident \<Rightarrow> time \<Rightarrow> 's \<Rightarrow> 's" where
  "release_script R k token now s =
     (if rc_get R k now s = Some (Redis_Text token) then rc_del R k now s else s)"

definition release_key :: "'s redis_commands \<Rightarrow> string \<Rightarrow> ident \<Rightarrow> time \<Rightarrow> 's coord_store \<Rightarrow> 's coord_store" where
  "release_key R k token now st =
     (case st of Local c \<Rightarrow> Local (drop_lock k token c) | Shared s \<Rightarrow> Shared (release_script R k token now s))"

definition acquire_lock ::
    "'s redis_commands \<Rightarrow> string \<Rightarrow> ident \<Rightarrow> time \<Rightarrow> time \<Rightarrow> 's coord_store \<Rightarrow> 's coord_store \<times> ident option" where
  "acquire_lock R key = set_key R (lock_key key)"

definition release_lock :: "'s redis_commands \<Rightarrow> string \<Rightarrow> ident \<Rightarrow> time \<Rightarrow> 's coord_store \<Rightarrow> 's coord_store" where
  "release_lock R key = release_key R (lock_key key)"











definition mark_once ::
    "'s redis_commands \<Rightarrow> string \<Rightarrow> ident \<Rightarrow> time \<Rightarrow> time \<Rightarrow> 's coord_store \<Rightarrow> 's coord_store \<times> bool" where
  "mark_once R key token ttl now st =
     (case acquire_lock R (''once:'' @ key) token ttl now st of (st', t) \<Rightarrow> (st', t \<noteq> None))"

section \<open>Which requests are writes\<close>








section \<open>The gate\<close>

text \<open>An entry with the time it expires (\<open>None\<close>: never) is there until then.\<close>

definition unexpired :: "time \<Rightarrow> ('a \<times> time option) option \<Rightarrow> ('a \<times> time option) option" where
  "unexpired t x = (case x of Some (v, Some e) \<Rightarrow> if e \<le> t then None else x | _ \<Rightarrow> x)"

lemma unexpired_simps [simp]:
  "unexpired t None = None" "unexpired t (Some (v, None)) = Some (v, None)"
  "unexpired t (Some (v, Some e)) = (if e \<le> t then None else Some (v, Some e))"
  by (simp_all add: unexpired_def)



definition number_of :: "(int \<times> time option) option \<Rightarrow> int" where
  "number_of x = (case x of None \<Rightarrow> 0 | Some (n, _) \<Rightarrow> n)"

lemma number_of_simps [simp]: "number_of None = 0" "number_of (Some (n, e)) = n"
  by (simp_all add: number_of_def)


section \<open>The local mode\<close>









section \<open>Redis\<close>








lemma keys_differ [simp]:
  "WRITE_BARRIER_KEY \<noteq> ACTIVE_WRITES_KEY" "ACTIVE_WRITES_KEY \<noteq> WRITE_BARRIER_KEY"
  by (simp_all add: WRITE_BARRIER_KEY_def ACTIVE_WRITES_KEY_def)














section \<open>Both modes\<close>








section \<open>Snapshots and requests\<close>










section \<open>A snapshot\<close>







end
