(* ===== verification/Backups.thy ===== *)
theory Backups
  imports Backup_Retention Text
begin

text \<open>
  Backup destinations, plans and the queue of jobs:
  \<^verbatim>\<open>apps/api/src/modules/backups/backups.service.ts\<close>. Encryption of credentials, time zones, fresh ids
  and the clock are parameters. The tables are their own record; users, the audit log and answers'
  shapes are left out. The last section shows that the commands of a restore runbook are safe to paste
  into a shell.
\<close>

section \<open>Tables\<close>

datatype destination_type = Local_Destination | Sftp_Destination | S3_Destination

datatype job_operation = Backup_Op | Verify_Op | Connection_Test_Op | Restore_Preflight_Op

datatype job_trigger = Manual_Trigger | Scheduled_Trigger

datatype job_status = Job_Queued | Job_Running | Job_Succeeded | Job_Failed | Job_Cancelled

record destination_row =
  bd_id :: ident
  bd_name :: string
  bd_type :: destination_type
  bd_config :: json
  bd_credentials :: "string option"
  bd_enabled :: bool
  bd_tested_at :: "time option"
  bd_test_ok :: "bool option"
  bd_creator :: "ident option"

record plan_row =
  bp_id :: ident
  bp_name :: string
  bp_enabled :: bool
  bp_schedule :: schedule
  bp_retention :: retention
  bp_next :: "time option"
  bp_last :: "time option"
  bp_created :: time
  bp_destination :: ident
  bp_creator :: "ident option"

record preflight =
  pf_backup_id :: ident
  pf_restore_path :: string
  pf_ready :: bool

record job_row =
  bj_id :: ident
  bj_operation :: job_operation
  bj_trigger :: job_trigger
  bj_status :: job_status
  bj_scheduled_for :: "time option"
  bj_started :: "time option"
  bj_finished :: "time option"
  bj_artifact :: "string option"
  bj_size :: "int option"
  bj_checksum :: "string option"
  bj_error_code :: "string option"
  bj_error_message :: "string option"
  bj_preflight :: "preflight option"
  bj_created :: time
  bj_plan :: "ident option"
  bj_destination :: "ident option"
  bj_requester :: "ident option"
  bj_source :: "ident option"

record backup_db =
  bk_destinations :: "destination_row list"
  bk_plans :: "plan_row list"
  bk_jobs :: "job_row list"

definition find_destination :: "backup_db \<Rightarrow> ident \<Rightarrow> destination_row option" where
  "find_destination d i = List.find (\<lambda>x. bd_id x = i) (bk_destinations d)"

definition find_plan :: "backup_db \<Rightarrow> ident \<Rightarrow> plan_row option" where
  "find_plan d i = List.find (\<lambda>x. bp_id x = i) (bk_plans d)"

definition find_job :: "backup_db \<Rightarrow> ident \<Rightarrow> job_row option" where
  "find_job d i = List.find (\<lambda>x. bj_id x = i) (bk_jobs d)"

section \<open>Destinations\<close>

definition remote :: "destination_type \<Rightarrow> bool" where
  "remote t \<longleftrightarrow> t = Sftp_Destination \<or> t = S3_Destination"

record destination_settings =
  ds_type :: destination_type
  ds_config :: json
  ds_credentials :: "string option"

definition settings_credentials :: "destination_settings \<Rightarrow> string option" where
  "settings_credentials s = (if remote (ds_type s) then ds_credentials s else None)"

definition list_destinations :: "(string \<Rightarrow> nat) \<Rightarrow> backup_db \<Rightarrow> destination_row list" where
  "list_destinations rank d = sort_key (\<lambda>x. rank (bd_name x)) (bk_destinations d)"

definition create_destination ::
    "(string \<Rightarrow> string) \<Rightarrow> backup_db \<Rightarrow> ident \<Rightarrow> ident \<Rightarrow> string \<Rightarrow> bool \<Rightarrow> destination_settings \<Rightarrow>
     (backup_db \<times> destination_row) result" where
  "create_destination encrypt d new_id uid name enabled s =
     (let row = \<lparr>bd_id = new_id, bd_name = name, bd_type = ds_type s, bd_config = ds_config s,
            bd_credentials = map_option encrypt (settings_credentials s), bd_enabled = enabled,
            bd_tested_at = None, bd_test_ok = None, bd_creator = Some uid\<rparr> in
      rbind (rguard (new_id \<notin> bd_id ` set (bk_destinations d)) (Internal ''P2002'')) (\<lambda>_.
      rbind (rguard (name \<notin> bd_name ` set (bk_destinations d)) (Conflict ''destination name'')) (\<lambda>_.
      Inr (d\<lparr>bk_destinations := bk_destinations d @ [row]\<rparr>, row))))"

record destination_change =
  dx_name :: "string option"
  dx_enabled :: "bool option"
  dx_settings :: "destination_settings option"

definition changed_destination ::
    "(string \<Rightarrow> string) \<Rightarrow> destination_change \<Rightarrow> destination_row \<Rightarrow> destination_row" where
  "changed_destination encrypt x r =
     (let r = r\<lparr>bd_name := given (dx_name x) (bd_name r), bd_enabled := given (dx_enabled x) (bd_enabled r)\<rparr> in
      case dx_settings x of None \<Rightarrow> r
      | Some s \<Rightarrow> r\<lparr>bd_type := ds_type s, bd_config := ds_config s, bd_tested_at := None, bd_test_ok := None,
          bd_credentials := (case settings_credentials s of
             Some c \<Rightarrow> Some (encrypt c)
           | None \<Rightarrow> if remote (ds_type s) then bd_credentials r else None)\<rparr>)"

definition update_destination ::
    "(string \<Rightarrow> string) \<Rightarrow> backup_db \<Rightarrow> ident \<Rightarrow> destination_change \<Rightarrow> backup_db result" where
  "update_destination encrypt d i x =
     rbind (or_throw (NotFound ''destination'') (find_destination d i)) (\<lambda>existing.
     rbind (rguard (case dx_settings x of None \<Rightarrow> True
        | Some s \<Rightarrow> settings_credentials s \<noteq> None \<or> \<not> remote (ds_type s) \<or>
            ds_type s = bd_type existing \<and> truthy (bd_credentials existing)) (BadRequest ''credentials'')) (\<lambda>_.
     rbind (rguard (\<forall>r \<in> set (bk_destinations d). bd_id r \<noteq> i \<longrightarrow> Some (bd_name r) \<noteq> dx_name x) (Conflict ''destination name'')) (\<lambda>_.
     Inr (d\<lparr>bk_destinations := update_where (\<lambda>r. bd_id r = i) (changed_destination encrypt x) (bk_destinations d)\<rparr>))))"

text \<open>\<open>onDelete: SetNull\<close> on the jobs, \<open>Restrict\<close> on the plans.\<close>

definition delete_destination :: "backup_db \<Rightarrow> ident \<Rightarrow> backup_db result" where
  "delete_destination d i =
     rbind (or_throw (NotFound ''destination'') (find_destination d i)) (\<lambda>_.
     rbind (rguard (\<not> 0 < count_where (\<lambda>p. bp_destination p = i) (bk_plans d)) (Conflict ''destination in use'')) (\<lambda>_.
     Inr (d\<lparr>bk_destinations := delete_where (\<lambda>r. bd_id r = i) (bk_destinations d),
            bk_jobs := update_where (\<lambda>j. bj_destination j = Some i) (\<lambda>j. j\<lparr>bj_destination := None\<rparr>) (bk_jobs d)\<rparr>)))"

section \<open>Plans\<close>

definition require_destination :: "backup_db \<Rightarrow> ident \<Rightarrow> destination_row result" where
  "require_destination d i = or_throw (BadRequest ''destination'') (find_destination d i)"

definition assert_destination_tested :: "destination_row \<Rightarrow> unit result" where
  "assert_destination_tested r =
     rguard (\<not> (remote (bd_type r) \<and> bd_test_ok r \<noteq> Some True)) (BadRequest ''destination not tested'')"

definition assert_may_run :: "bool \<Rightarrow> destination_row \<Rightarrow> unit result" where
  "assert_may_run enabled r =
     rbind (rguard (\<not> (enabled \<and> \<not> bd_enabled r)) (BadRequest ''destination disabled'')) (\<lambda>_.
     if enabled then assert_destination_tested r else Inr ())"

record plan_input =
  bi_name :: string
  bi_enabled :: bool
  bi_destination :: ident
  bi_schedule :: schedule
  bi_retention :: retention

definition next_run_if ::
    "(string \<Rightarrow> zone) \<Rightarrow> bool \<Rightarrow> schedule \<Rightarrow> time \<Rightarrow> time option result" where
  "next_run_if zones enabled s now =
     (if enabled then rbind (next_scheduled_run zones s now) (\<lambda>t. Inr (Some t)) else Inr None)"

definition create_plan ::
    "(string \<Rightarrow> zone) \<Rightarrow> backup_db \<Rightarrow> ident \<Rightarrow> ident \<Rightarrow> plan_input \<Rightarrow> time \<Rightarrow> backup_db result" where
  "create_plan zones d new_id uid x now =
     rbind (require_destination d (bi_destination x)) (\<lambda>r.
     rbind (assert_may_run (bi_enabled x) r) (\<lambda>_.
     rbind (next_run_if zones (bi_enabled x) (bi_schedule x) now) (\<lambda>nxt.
     rbind (rguard (new_id \<notin> bp_id ` set (bk_plans d)) (Internal ''P2002'')) (\<lambda>_.
     rbind (rguard (bi_name x \<notin> bp_name ` set (bk_plans d)) (Conflict ''plan name'')) (\<lambda>_.
     Inr (d\<lparr>bk_plans := bk_plans d @ [\<lparr>bp_id = new_id, bp_name = bi_name x, bp_enabled = bi_enabled x,
        bp_schedule = bi_schedule x, bp_retention = bi_retention x, bp_next = nxt, bp_last = None,
        bp_created = now, bp_destination = bi_destination x, bp_creator = Some uid\<rparr>]\<rparr>))))))"

record plan_change =
  bx_name :: "string option"
  bx_enabled :: "bool option"
  bx_destination :: "ident option"
  bx_schedule :: "schedule option"
  bx_retention :: "retention option"

definition changed_plan :: "plan_change \<Rightarrow> time option option \<Rightarrow> plan_row \<Rightarrow> plan_row" where
  "changed_plan x nxt p =
     p\<lparr>bp_name := given (bx_name x) (bp_name p), bp_enabled := given (bx_enabled x) (bp_enabled p),
       bp_destination := given (bx_destination x) (bp_destination p),
       bp_schedule := given (bx_schedule x) (bp_schedule p), bp_retention := given (bx_retention x) (bp_retention p),
       bp_next := given nxt (bp_next p)\<rparr>"

definition update_plan ::
    "(string \<Rightarrow> zone) \<Rightarrow> backup_db \<Rightarrow> ident \<Rightarrow> plan_change \<Rightarrow> time \<Rightarrow> backup_db result" where
  "update_plan zones d i x now =
     rbind (or_throw (NotFound ''plan'') (find_plan d i)) (\<lambda>existing.
     rbind (case bx_destination x of
        Some j \<Rightarrow> require_destination d j
      | None \<Rightarrow> or_throw (Internal ''destination'') (find_destination d (bp_destination existing))) (\<lambda>r.
     let enabled = given (bx_enabled x) (bp_enabled existing) in
     rbind (assert_may_run enabled r) (\<lambda>_.
     rbind (if bx_enabled x \<noteq> None \<or> bx_schedule x \<noteq> None
            then rbind (next_run_if zones enabled (given (bx_schedule x) (bp_schedule existing)) now) (\<lambda>n. Inr (Some n))
            else Inr None) (\<lambda>nxt.
     rbind (rguard (\<forall>p \<in> set (bk_plans d). bp_id p \<noteq> i \<longrightarrow> Some (bp_name p) \<noteq> bx_name x) (Conflict ''plan name'')) (\<lambda>_.
     Inr (d\<lparr>bk_plans := update_where (\<lambda>p. bp_id p = i) (changed_plan x nxt) (bk_plans d)\<rparr>))))))"

definition delete_plan :: "backup_db \<Rightarrow> ident \<Rightarrow> backup_db result" where
  "delete_plan d i =
     rbind (or_throw (NotFound ''plan'') (find_plan d i)) (\<lambda>_.
     Inr (d\<lparr>bk_plans := delete_where (\<lambda>p. bp_id p = i) (bk_plans d),
            bk_jobs := update_where (\<lambda>j. bj_plan j = Some i) (\<lambda>j. j\<lparr>bj_plan := None\<rparr>) (bk_jobs d)\<rparr>))"

section \<open>Jobs\<close>

definition new_job :: "ident \<Rightarrow> job_operation \<Rightarrow> job_trigger \<Rightarrow> time \<Rightarrow> job_row" where
  "new_job new_id op trigger now =
     \<lparr>bj_id = new_id, bj_operation = op, bj_trigger = trigger, bj_status = Job_Queued, bj_scheduled_for = None,
      bj_started = None, bj_finished = None, bj_artifact = None, bj_size = None, bj_checksum = None,
      bj_error_code = None, bj_error_message = None, bj_preflight = None, bj_created = now, bj_plan = None,
      bj_destination = None, bj_requester = None, bj_source = None\<rparr>"

text \<open>The unique columns of the table: the id, and the plan with the planned time (if both are set).\<close>

definition job_fresh :: "backup_db \<Rightarrow> job_row \<Rightarrow> bool" where
  "job_fresh d j \<longleftrightarrow> bj_id j \<notin> bj_id ` set (bk_jobs d) \<and>
     (bj_plan j \<noteq> None \<and> bj_scheduled_for j \<noteq> None \<longrightarrow>
      (bj_plan j, bj_scheduled_for j) \<notin> (\<lambda>k. (bj_plan k, bj_scheduled_for k)) ` set (bk_jobs d))"

definition insert_job :: "backup_db \<Rightarrow> job_row \<Rightarrow> backup_db result" where
  "insert_job d j =
     rbind (rguard (job_fresh d j) (Internal ''P2002'')) (\<lambda>_.
     rbind (rguard (set_option (bj_plan j) \<subseteq> bp_id ` set (bk_plans d) \<and>
       set_option (bj_destination j) \<subseteq> bd_id ` set (bk_destinations d)) (Internal ''P2003'')) (\<lambda>_.
     Inr (d\<lparr>bk_jobs := bk_jobs d @ [j]\<rparr>)))"

definition active_job :: "backup_db \<Rightarrow> job_operation \<Rightarrow> (job_row \<Rightarrow> bool) \<Rightarrow> bool" where
  "active_job d op p \<longleftrightarrow>
     List.find (\<lambda>j. p j \<and> bj_operation j = op \<and> (bj_status j = Job_Queued \<or> bj_status j = Job_Running)) (bk_jobs d) \<noteq> None"

datatype start_input = By_Plan ident | By_Destination ident

definition start_backup_job ::
    "backup_db \<Rightarrow> ident \<Rightarrow> ident \<Rightarrow> start_input \<Rightarrow> time \<Rightarrow> backup_db result" where
  "start_backup_job d new_id uid x now =
     rbind (case x of
        By_Plan i \<Rightarrow> rbind (or_throw (NotFound ''plan'') (find_plan d i)) (\<lambda>p. Inr (Some i, bp_destination p))
      | By_Destination i \<Rightarrow> Inr (None, i)) (\<lambda>(plan, dest).
     rbind (or_throw (NotFound ''destination'') (find_destination d dest)) (\<lambda>r.
     rbind (rguard (bd_enabled r) (BadRequest ''destination disabled'')) (\<lambda>_.
     rbind (assert_destination_tested r) (\<lambda>_.
     rbind (rguard (\<not> active_job d Backup_Op (\<lambda>j. bj_destination j = Some (bd_id r))) (Conflict ''backup running'')) (\<lambda>_.
     insert_job d ((new_job new_id Backup_Op Manual_Trigger now)
       \<lparr>bj_plan := plan, bj_destination := Some (bd_id r), bj_requester := Some uid\<rparr>))))))"

definition start_connection_test :: "backup_db \<Rightarrow> ident \<Rightarrow> ident \<Rightarrow> ident \<Rightarrow> time \<Rightarrow> backup_db result" where
  "start_connection_test d new_id uid i now =
     rbind (or_throw (NotFound ''destination'') (find_destination d i)) (\<lambda>_.
     rbind (rguard (\<not> active_job d Connection_Test_Op (\<lambda>j. bj_destination j = Some i)) (Conflict ''test running'')) (\<lambda>_.
     insert_job d ((new_job new_id Connection_Test_Op Manual_Trigger now)
       \<lparr>bj_destination := Some i, bj_requester := Some uid\<rparr>)))"

definition prepare_restore :: "backup_db \<Rightarrow> ident \<Rightarrow> ident \<Rightarrow> ident \<Rightarrow> time \<Rightarrow> backup_db result" where
  "prepare_restore d new_id uid source now =
     rbind (or_throw (BadRequest ''backup not available'') (find_job d source)) (\<lambda>s.
     rbind (rguard (bj_operation s = Backup_Op \<and> bj_status s = Job_Succeeded \<and> truthy (bj_artifact s) \<and>
       bj_destination s \<noteq> None) (BadRequest ''backup not available'')) (\<lambda>_.
     rbind (rguard (\<not> active_job d Restore_Preflight_Op (\<lambda>j. bj_source j = Some source)) (Conflict ''restore running'')) (\<lambda>_.
     insert_job d ((new_job new_id Restore_Preflight_Op Manual_Trigger now)
       \<lparr>bj_destination := bj_destination s, bj_source := Some (bj_id s), bj_requester := Some uid\<rparr>))))"

definition list_jobs :: "backup_db \<Rightarrow> job_row list" where
  "list_jobs d = take 100 (sort_key (\<lambda>j. - bj_created j) (bk_jobs d))"

definition get_job :: "backup_db \<Rightarrow> ident \<Rightarrow> job_row result" where
  "get_job d i = or_throw (NotFound ''job'') (find_job d i)"

text \<open>
  The overview. The database sorts missing times first in descending order; among equals the row order
  stays.
\<close>

datatype backup_health = Healthy | Warning | Backup_Running | Never

definition latest_finished :: "backup_db \<Rightarrow> job_status \<Rightarrow> job_row option" where
  "latest_finished d s =
     (let js = filter (\<lambda>j. bj_operation j = Backup_Op \<and> bj_status j = s) (bk_jobs d);
          none = filter (\<lambda>j. bj_finished j = None) js;
          some = sort_key (\<lambda>j. - given (bj_finished j) 0) (filter (\<lambda>j. bj_finished j \<noteq> None) js)
      in case none @ some of [] \<Rightarrow> None | j # _ \<Rightarrow> Some j)"

definition first_active :: "backup_db \<Rightarrow> job_row option" where
  "first_active d =
     (case sort_key bj_created (filter (\<lambda>j. bj_operation j = Backup_Op \<and>
        (bj_status j = Job_Queued \<or> bj_status j = Job_Running)) (bk_jobs d)) of
      [] \<Rightarrow> None | j # _ \<Rightarrow> Some j)"

definition backup_status :: "backup_db \<Rightarrow> backup_health" where
  "backup_status d =
     (let ok = latest_finished d Job_Succeeded; bad = latest_finished d Job_Failed;
          bad_at = Option.bind bad bj_finished; ok_at = Option.bind ok bj_finished;
          open_failure = (case bad_at of None \<Rightarrow> False | Some b \<Rightarrow> (case ok_at of None \<Rightarrow> True | Some t \<Rightarrow> t < b))
      in if first_active d \<noteq> None then Backup_Running else if open_failure then Warning
         else if ok \<noteq> None then Healthy else Never)"

section \<open>The restore runbook\<close>

definition mount_char :: "char \<Rightarrow> bool" where
  "mount_char c \<longleftrightarrow> c \<in> set ''abcdefghijklmnopqrstuvwxyz0123456789_-''"

definition segment_char :: "char \<Rightarrow> bool" where
  "segment_char c \<longleftrightarrow> c \<in> set ''ABCDEFGHIJKLMNOPQRSTUVWXYZabcdefghijklmnopqrstuvwxyz0123456789._-''"

text \<open>\<open>/^[a-z0-9][a-z0-9_-]*$/\<close>\<close>

definition valid_mount :: "string \<Rightarrow> bool" where
  "valid_mount s \<longleftrightarrow> s \<noteq> [] \<and> hd s \<notin> set ''_-'' \<and> list_all mount_char s"

definition valid_segment :: "string \<Rightarrow> bool" where
  "valid_segment s \<longleftrightarrow> s \<noteq> [] \<and> list_all segment_char s \<and> s \<noteq> ''.'' \<and> s \<noteq> ''..''"

fun join_slash :: "string list \<Rightarrow> string" where
  "join_slash [] = []"
| "join_slash [s] = s"
| "join_slash (s # t # ss) = s @ ''/'' @ join_slash (t # ss)"

definition compose_command :: string where
  "compose_command = ''docker compose --env-file .env.production -f docker-compose.prod.yml''"

text \<open>What the schemas check of the stored preflight and of the answer; \<open>is_uuid\<close> is zod's \<open>uuid()\<close>.\<close>

definition preflight_parses :: "(string \<Rightarrow> bool) \<Rightarrow> preflight \<Rightarrow> bool" where
  "preflight_parses is_uuid p \<longleftrightarrow> is_uuid (pf_backup_id p) \<and> pf_restore_path p \<noteq> [] \<and> length (pf_restore_path p) \<le> 1500"

text \<open>The commands of the six steps; the first step has none.\<close>

definition restore_runbook :: "(string \<Rightarrow> bool) \<Rightarrow> backup_db \<Rightarrow> ident \<Rightarrow> string option list result" where
  "restore_runbook is_uuid d i =
     rbind (or_throw (BadRequest ''preflight'') (find_job d i)) (\<lambda>j.
     rbind (rguard (bj_operation j = Restore_Preflight_Op \<and> bj_status j = Job_Succeeded \<and> truthy (bj_source j))
       (BadRequest ''preflight'')) (\<lambda>_.
     rbind (or_throw (BadRequest ''preflight'') (bj_preflight j)) (\<lambda>p.
     rbind (rguard (preflight_parses is_uuid p) (Internal ''ZodError'')) (\<lambda>_.
     rbind (rguard (pf_ready p) (BadRequest ''not ready'')) (\<lambda>_.
     (case split_on (CHR ''/'') (pf_restore_path p) of
        [] \<Rightarrow> Inl (BadRequest ''restore path'')
      | mount # segments \<Rightarrow>
          rbind (rguard (valid_mount mount \<and> segments \<noteq> [] \<and> list_all valid_segment segments) (BadRequest ''restore path'')) (\<lambda>_.
          rbind (rguard (is_uuid i \<and> list_all is_uuid (case bj_source j of None \<Rightarrow> [] | Some k \<Rightarrow> [k])) (Internal ''ZodError'')) (\<lambda>_.
          let base = compose_command @ '' --profile operations run --rm backup-restore restore --mount '' @ mount @
                '' --backup '' @ join_slash segments
          in Inr [None, Some (base @ '' --dry-run''), Some (compose_command @ '' stop nginx web api backup-worker''),
            Some (base @ '' --confirm '' @ pf_backup_id p), Some (compose_command @ '' up -d''),
            Some ''curl --fail --silent --show-error --insecure https://127.0.0.1/api/v1/health/ready'']))))))))"

section \<open>The runbook is safe\<close>

text \<open>Letters, digits, blanks and \<open>. _ / : -\<close>: nothing a shell interprets.\<close>

definition shell_safe :: "char \<Rightarrow> bool" where
  "shell_safe c \<longleftrightarrow> segment_char c \<or> c \<in> set '' /:''"

lemma join_split: "join_slash (split_on (CHR ''/'') s) = s"
proof (induction s)
  case (Cons x s)
  then show ?case by (cases "split_on (CHR ''/'') s" rule: join_slash.cases) auto
qed simp

lemma join_Cons: "ss \<noteq> [] \<Longrightarrow> join_slash (s # ss) = s @ ''/'' @ join_slash ss"
  by (cases ss) simp_all

lemma mount_char_safe: "mount_char c \<Longrightarrow> segment_char c"
  unfolding mount_char_def segment_char_def by auto

lemma segments_safe: "list_all valid_segment ss \<Longrightarrow> list_all shell_safe (join_slash ss)"
  by (induction ss rule: join_slash.induct)
    (auto simp: valid_segment_def list_all_iff shell_safe_def)

lemma fixed_parts_safe:
  "list_all shell_safe compose_command" "list_all shell_safe '' --profile operations run --rm backup-restore restore --mount ''"
  "list_all shell_safe '' --backup ''" "list_all shell_safe '' --dry-run''" "list_all shell_safe '' --confirm ''"
  "list_all shell_safe '' stop nginx web api backup-worker''" "list_all shell_safe '' up -d''"
  "list_all shell_safe ''curl --fail --silent --show-error --insecure https://127.0.0.1/api/v1/health/ready''"
  by code_simp+

lemma six_commands:
  "P [] \<Longrightarrow> P a \<Longrightarrow> P b \<Longrightarrow> P c \<Longrightarrow> P d \<Longrightarrow> P e \<Longrightarrow>
   list_all (\<lambda>x. P (case x of None \<Rightarrow> [] | Some y \<Rightarrow> y)) [None, Some a, Some b, Some c, Some d, Some e]"
  by simp

text \<open>
  Whatever the stored preflight says, the commands an administrator is told to paste have no
  character a shell interprets; the restore is the very command whose dry run comes before it, on the
  path of a ready preflight without \<open>..\<close>, and asks for exactly the id of that backup.
\<close>

theorem restore_runbook_safe:
  assumes uuid: "\<And>x. is_uuid x \<Longrightarrow> list_all (\<lambda>c. c \<in> set ''0123456789abcdefABCDEF-'') x"
    and run: "restore_runbook is_uuid d i = Inr cs"
  shows "list_all (\<lambda>c. list_all shell_safe (case c of None \<Rightarrow> [] | Some x \<Rightarrow> x)) cs \<and>
    (\<exists>j p base mount segments. find_job d i = Some j \<and> bj_preflight j = Some p \<and> pf_ready p \<and>
      cs ! 1 = Some (base @ '' --dry-run'') \<and> cs ! 3 = Some (base @ '' --confirm '' @ pf_backup_id p) \<and>
      pf_restore_path p = mount @ ''/'' @ join_slash segments \<and> ''..'' \<notin> set segments \<and>
      base = compose_command @ '' --profile operations run --rm backup-restore restore --mount '' @ mount @
        '' --backup '' @ join_slash segments)"
proof -
  obtain j p mount segments where j: "find_job d i = Some j" "bj_preflight j = Some p" "pf_ready p" "preflight_parses is_uuid p"
    and path: "split_on (CHR ''/'') (pf_restore_path p) = mount # segments"
    and ok: "valid_mount mount" "segments \<noteq> []" "list_all valid_segment segments"
    and cs: "cs = (let base = compose_command @ '' --profile operations run --rm backup-restore restore --mount '' @ mount @
        '' --backup '' @ join_slash segments
      in [None, Some (base @ '' --dry-run''), Some (compose_command @ '' stop nginx web api backup-worker''),
        Some (base @ '' --confirm '' @ pf_backup_id p), Some (compose_command @ '' up -d''),
        Some ''curl --fail --silent --show-error --insecure https://127.0.0.1/api/v1/health/ready''])"
    using run unfolding restore_runbook_def
    by (elim rbind_InrE) (auto simp: or_throw_def rbind_eq_Inr Let_def split: option.splits list.splits)
  have whole: "pf_restore_path p = mount @ ''/'' @ join_slash segments"
    using join_split [of "pf_restore_path p"] join_Cons [OF ok(2)] unfolding path by simp
  have "list_all shell_safe mount" using ok(1) mount_char_safe by (auto simp: valid_mount_def list_all_iff shell_safe_def)
  moreover have "list_all shell_safe (pf_backup_id p)"
  proof -
    have "c \<in> set ''0123456789abcdefABCDEF-'' \<Longrightarrow> shell_safe c" for c by (auto simp: shell_safe_def segment_char_def)
    then show ?thesis using uuid [of "pf_backup_id p"] j(4) by (simp add: preflight_parses_def list_all_iff)
  qed
  ultimately have "list_all (\<lambda>c. list_all shell_safe (case c of None \<Rightarrow> [] | Some x \<Rightarrow> x)) cs"
    unfolding cs Let_def using segments_safe [OF ok(3)]
    by (intro six_commands [where P = "list_all shell_safe"]) (simp_all only: list_all_append fixed_parts_safe list.pred_inject(1) simp_thms)
  moreover have "''..'' \<notin> set segments" using ok(3) by (auto simp: list_all_iff valid_segment_def)
  ultimately show ?thesis using j(1-3) whole unfolding cs Let_def by auto
qed

definition sample_preflight_job :: job_row where
  "sample_preflight_job = (new_job ''a1'' Restore_Preflight_Op Manual_Trigger 0)\<lparr>bj_status := Job_Succeeded, bj_source := Some ''b2'',
     bj_preflight := Some \<lparr>pf_backup_id = ''b2'', pf_restore_path = ''nas/team/ad-wiki-1'', pf_ready = True\<rparr>\<rparr>"

theorem restore_runbook_safe_witness:
  "case restore_runbook (\<lambda>x. list_all (\<lambda>c. c \<in> set ''0123456789abcdefABCDEF-'') x)
      \<lparr>bk_destinations = [], bk_plans = [], bk_jobs = [sample_preflight_job]\<rparr> ''a1'' of
    Inl _ \<Rightarrow> False | Inr cs \<Rightarrow> list_all (\<lambda>c. list_all shell_safe (case c of None \<Rightarrow> [] | Some x \<Rightarrow> x)) cs"
proof -
  let ?u = "\<lambda>x. list_all (\<lambda>c. c \<in> set ''0123456789abcdefABCDEF-'') x"
  let ?d = "\<lparr>bk_destinations = [], bk_plans = [], bk_jobs = [sample_preflight_job]\<rparr>"
  have "case restore_runbook ?u ?d ''a1'' of Inl _ \<Rightarrow> False | Inr cs \<Rightarrow> True" by code_simp
  then obtain cs where cs: "restore_runbook ?u ?d ''a1'' = Inr cs" by (cases "restore_runbook ?u ?d ''a1''") simp_all
  show ?thesis using restore_runbook_safe [OF _ cs] unfolding cs by simp
qed

end
