(* ===== verification/Backup_Queue.thy ===== *)
theory Backup_Queue
  imports Backups Backup_Coordination
begin

text \<open>
  The scheduler (\<^verbatim>\<open>backup-scheduler.service.ts\<close>) and the worker
  (\<^verbatim>\<open>backup-worker/backup-job-worker.service.ts\<close>) on the queue of jobs, and what holds however they
  and the administration interleave: a due run is planned once, a job is taken by one worker, and a
  job whose worker died keeps its destination blocked.
\<close>

section \<open>The scheduler\<close>

definition scheduled_job :: "ident \<Rightarrow> plan_row \<Rightarrow> time \<Rightarrow> time \<Rightarrow> job_row" where
  "scheduled_job new_id p due now =
     (new_job new_id Backup_Op Scheduled_Trigger now)
       \<lparr>bj_plan := Some (bp_id p), bj_destination := Some (bp_destination p), bj_scheduled_for := Some due\<rparr>"

text \<open>One round of the loop of \<open>scheduleDuePlans\<close>, for a plan as it was read before the loop.\<close>

definition schedule_plan ::
    "(string \<Rightarrow> zone) \<Rightarrow> backup_db \<Rightarrow> ident \<Rightarrow> time \<Rightarrow> plan_row \<Rightarrow> (backup_db \<times> bool) result" where
  "schedule_plan zones d new_id now p =
     (case bp_next p of
        None \<Rightarrow>
          rbind (next_scheduled_run zones (bp_schedule p) now) (\<lambda>t.
          Inr (d\<lparr>bk_plans := update_where (\<lambda>q. bp_id q = bp_id p \<and> bp_enabled q \<and> bp_next q = None)
            (\<lambda>q. q\<lparr>bp_next := Some t\<rparr>) (bk_plans d)\<rparr>, False))
      | Some due \<Rightarrow>
          if now < due then Inr (d, False)
          else
            rbind (next_scheduled_run zones (bp_schedule p) now) (\<lambda>t.
            let hit = (\<lambda>q. bp_id q = bp_id p \<and> bp_enabled q \<and> bp_next q = Some due) in
            if count_where hit (bk_plans d) \<noteq> 1 then Inr (d, False)
            else (case insert_job (d\<lparr>bk_plans := update_where hit (\<lambda>q. q\<lparr>bp_next := Some t, bp_last := Some now\<rparr>) (bk_plans d)\<rparr>)
                      (scheduled_job new_id p due now) of
                Inl e \<Rightarrow> if e = Internal ''P2002'' then Inr (d, False) else Inl e
              | Inr d' \<Rightarrow> Inr (d', True))))"

fun schedule_loop ::
    "(string \<Rightarrow> zone) \<Rightarrow> (ident \<Rightarrow> ident) \<Rightarrow> time \<Rightarrow> plan_row list \<Rightarrow> backup_db \<Rightarrow> nat \<Rightarrow> backup_db \<times> nat result" where
  "schedule_loop zones ids now [] d n = (d, Inr n)"
| "schedule_loop zones ids now (p # ps) d n =
     (case schedule_plan zones d (ids (bp_id p)) now p of
        Inl e \<Rightarrow> (d, Inl e)
      | Inr (d', created) \<Rightarrow> schedule_loop zones ids now ps d' (if created then n + 1 else n))"

definition schedule_due_plans ::
    "(string \<Rightarrow> zone) \<Rightarrow> (ident \<Rightarrow> ident) \<Rightarrow> time \<Rightarrow> backup_db \<Rightarrow> backup_db \<times> nat result" where
  "schedule_due_plans zones ids now d =
     schedule_loop zones ids now (sort_key bp_created (filter bp_enabled (bk_plans d))) d 0"

definition SCHEDULER_LOCK_MS :: int where
  "SCHEDULER_LOCK_MS = 25000"

text \<open>\<open>runCycle\<close>, an error is logged only; the notification of failures is left out.\<close>

definition run_cycle ::
    "'s redis_commands \<Rightarrow> (string \<Rightarrow> zone) \<Rightarrow> (ident \<Rightarrow> ident) \<Rightarrow> ident \<Rightarrow> time \<Rightarrow> 's coord_store \<Rightarrow> backup_db \<Rightarrow>
     's coord_store \<times> backup_db" where
  "run_cycle R zones ids token now c d =
     (case acquire_lock R ''scheduler'' token SCHEDULER_LOCK_MS now c of
        (c', None) \<Rightarrow> (c', d)
      | (c', Some t) \<Rightarrow> (release_lock R ''scheduler'' t now c', fst (schedule_due_plans zones ids now d)))"

section \<open>The worker\<close>

record job_result =
  jr_artifact :: "string option"
  jr_size :: "int option"
  jr_checksum :: "string option"
  jr_preflight :: "preflight option"

text \<open>A \<open>BackupOperationError\<close> has a code and a message; any other error is \<open>None\<close>.\<close>

type_synonym job_failure = "(string \<times> string) option"

definition next_candidate :: "backup_db \<Rightarrow> job_row option" where
  "next_candidate d =
     (case sort_key bj_created (filter (\<lambda>j. bj_status j = Job_Queued \<and>
        (bj_operation j = Backup_Op \<or> bj_operation j = Connection_Test_Op \<or> bj_operation j = Restore_Preflight_Op)) (bk_jobs d)) of
      [] \<Rightarrow> None | j # _ \<Rightarrow> Some j)"

definition claim_job :: "ident \<Rightarrow> time \<Rightarrow> backup_db \<Rightarrow> backup_db \<times> bool" where
  "claim_job i now d =
     (let hit = (\<lambda>j. bj_id j = i \<and> bj_status j = Job_Queued) in
      (d\<lparr>bk_jobs := update_where hit (\<lambda>j. j\<lparr>bj_status := Job_Running, bj_started := Some now,
          bj_error_code := None, bj_error_message := None\<rparr>) (bk_jobs d)\<rparr>, count_where hit (bk_jobs d) = 1))"

definition JOB_LOCK_TTL_MS :: int where
  "JOB_LOCK_TTL_MS = 6 * 60 * 60 * 1000"

text \<open>The beginning of \<open>processNextJob\<close>: the oldest waiting job, its lock, and the claim in the table.\<close>

definition take_job ::
    "'s redis_commands \<Rightarrow> ident \<Rightarrow> time \<Rightarrow> 's coord_store \<Rightarrow> backup_db \<Rightarrow> 's coord_store \<times> backup_db \<times> job_row option" where
  "take_job R token now c d =
     (case next_candidate d of
        None \<Rightarrow> (c, d, None)
      | Some j \<Rightarrow>
          let key = ''job:'' @ bj_id j in
          (case acquire_lock R key token JOB_LOCK_TTL_MS now c of
             (c', None) \<Rightarrow> (c', d, None)
           | (c', Some t) \<Rightarrow>
               (case claim_job (bj_id j) now d of
                  (d', True) \<Rightarrow> (c', d', Some j)
                | (d', False) \<Rightarrow> (release_lock R key t now c', d', None))))"

definition set_test :: "bool \<Rightarrow> ident \<Rightarrow> time \<Rightarrow> backup_db \<Rightarrow> backup_db" where
  "set_test ok i now d =
     d\<lparr>bk_destinations := update_where (\<lambda>r. bd_id r = i) (\<lambda>r. r\<lparr>bd_tested_at := Some now, bd_test_ok := Some ok\<rparr>) (bk_destinations d)\<rparr>"

text \<open>What the worker checks itself; \<open>run\<close> is the work with storage and files.\<close>

definition execute_job ::
    "(job_row \<Rightarrow> job_failure + job_result) \<Rightarrow> job_row \<Rightarrow> destination_row option \<Rightarrow> job_row option \<Rightarrow> time \<Rightarrow> backup_db \<Rightarrow>
     backup_db \<times> (job_failure + job_result)" where
  "execute_job run j dest source now d =
     (let missing = Inl (Some (''BACKUP_DESTINATION_MISSING'', ''destination'')) in
      case bj_operation j of
        Backup_Op \<Rightarrow> (d, case dest of None \<Rightarrow> missing
          | Some r \<Rightarrow> if bd_enabled r then run j else Inl (Some (''BACKUP_DESTINATION_DISABLED'', ''destination'')))
      | Connection_Test_Op \<Rightarrow> (case dest of None \<Rightarrow> (d, missing)
          | Some r \<Rightarrow> (case run j of Inl e \<Rightarrow> (d, Inl e)
              | Inr _ \<Rightarrow> if find_destination d (bd_id r) = None then (d, Inl None)
                  else (set_test True (bd_id r) now d,
                    Inr \<lparr>jr_artifact = None, jr_size = None, jr_checksum = None, jr_preflight = None\<rparr>)))
      | Restore_Preflight_Op \<Rightarrow> (d, case source of
            None \<Rightarrow> Inl (Some (''BACKUP_RESTORE_SOURCE_INVALID'', ''source''))
          | Some s \<Rightarrow> if bj_status s = Job_Succeeded \<and> truthy (bj_artifact s) \<and> bj_destination s = bj_destination j
              then (if dest = None then missing else run j) else Inl (Some (''BACKUP_RESTORE_SOURCE_INVALID'', ''source'')))
      | Verify_Op \<Rightarrow> (d, Inl (Some (''BACKUP_OPERATION_UNSUPPORTED'', ''operation''))))"

definition safe_failure :: "job_failure \<Rightarrow> string \<times> string" where
  "safe_failure e = (case e of
     Some (code, message) \<Rightarrow> (take 100 code, take 1000 message)
   | None \<Rightarrow> (''BACKUP_UNEXPECTED_ERROR'', ''unexpected''))"

definition mark_succeeded :: "ident \<Rightarrow> job_result \<Rightarrow> time \<Rightarrow> backup_db \<Rightarrow> backup_db" where
  "mark_succeeded i res now d =
     d\<lparr>bk_jobs := update_where (\<lambda>j. bj_id j = i) (\<lambda>j. j\<lparr>bj_status := Job_Succeeded, bj_finished := Some now,
        bj_artifact := (if jr_artifact res = None then bj_artifact j else jr_artifact res),
        bj_size := (if jr_size res = None then bj_size j else jr_size res),
        bj_checksum := (if jr_checksum res = None then bj_checksum j else jr_checksum res),
        bj_preflight := (if jr_preflight res = None then bj_preflight j else jr_preflight res)\<rparr>) (bk_jobs d)\<rparr>"

text \<open>
  The update of the destination is part of the transaction: if a tested destination is gone, it fails
  and the job is not marked either.
\<close>

definition mark_failed :: "job_row \<Rightarrow> job_failure \<Rightarrow> time \<Rightarrow> backup_db \<Rightarrow> backup_db" where
  "mark_failed j e now d =
     (let d' = d\<lparr>bk_jobs := update_where (\<lambda>k. bj_id k = bj_id j) (\<lambda>k. k\<lparr>bj_status := Job_Failed, bj_finished := Some now,
        bj_error_code := Some (fst (safe_failure e)), bj_error_message := Some (snd (safe_failure e))\<rparr>) (bk_jobs d)\<rparr> in
      if bj_operation j = Connection_Test_Op
      then (case bj_destination j of
          None \<Rightarrow> d'
        | Some i \<Rightarrow> if find_destination d i = None then d else set_test False i now d')
      else d')"

text \<open>The deletion of expired backups; the first one that cannot be verified or deleted ends it.\<close>

fun retention_loop :: "(job_row \<Rightarrow> bool) \<Rightarrow> ident list \<Rightarrow> job_row list \<Rightarrow> backup_db \<Rightarrow> backup_db" where
  "retention_loop remove expired [] d = d"
| "retention_loop remove expired (j # js) d =
     (if bj_id j \<notin> set expired \<or> \<not> truthy (bj_artifact j) \<or> bj_destination j = None then retention_loop remove expired js d
      else if remove j
      then retention_loop remove expired js
        (d\<lparr>bk_jobs := update_where (\<lambda>k. bj_id k = bj_id j) (\<lambda>k. k\<lparr>bj_artifact := None\<rparr>) (bk_jobs d)\<rparr>)
      else d)"

definition apply_retention :: "(string \<Rightarrow> zone) \<Rightarrow> (job_row \<Rightarrow> bool) \<Rightarrow> ident option \<Rightarrow> backup_db \<Rightarrow> backup_db" where
  "apply_retention zones remove plan d =
     (case Option.bind plan (find_plan d) of
        None \<Rightarrow> d
      | Some p \<Rightarrow>
          let jobs = filter (\<lambda>j. bj_plan j = plan \<and> bj_operation j = Backup_Op \<and> bj_status j = Job_Succeeded \<and>
                bj_artifact j \<noteq> None) (bk_jobs d);
              expired = expired_backups zones (map (\<lambda>j. \<lparr>rc_id = bj_id j, rc_created = bj_created j\<rparr>) jobs)
                (bp_retention p) (sch_timezone (bp_schedule p))
          in retention_loop remove expired (sort_key (\<lambda>j. - bj_created j) jobs) d)"

text \<open>The end of \<open>processNextJob\<close>: the outcome is stored, then the retention is applied.\<close>

definition complete_job ::
    "(string \<Rightarrow> zone) \<Rightarrow> (job_row \<Rightarrow> bool) \<Rightarrow> (job_row \<Rightarrow> job_failure + job_result) \<Rightarrow> job_row \<Rightarrow> destination_row option \<Rightarrow>
     job_row option \<Rightarrow> time \<Rightarrow> backup_db \<Rightarrow> backup_db" where
  "complete_job zones remove run j dest source now d =
     (case execute_job run j dest source now d of
        (d', Inl e) \<Rightarrow> mark_failed j e now d'
      | (d', Inr res) \<Rightarrow>
          let d'' = mark_succeeded (bj_id j) res now d' in
          if bj_operation j = Backup_Op then apply_retention zones remove (bj_plan j) d'' else d'')"

section \<open>Interleavings\<close>

text \<open>
  The administration, schedulers that hold plans read earlier, and workers with the jobs they run; a
  worker may die. The clock runs forward. The outcome of a job and the retention after it are one step,
  with any destination and source the worker has read.
\<close>

record queue_state =
  qs_db :: backup_db
  qs_now :: time
  qs_read :: "plan_row list"
  qs_running :: "job_row list"

inductive backup_admin_step :: "(string \<Rightarrow> zone) \<Rightarrow> (string \<Rightarrow> string) \<Rightarrow> time \<Rightarrow> backup_db \<Rightarrow> backup_db \<Rightarrow> bool" for zones encrypt now where
  "create_destination encrypt d i uid name en s = Inr (d', r) \<Longrightarrow> backup_admin_step zones encrypt now d d'"
| "update_destination encrypt d i x = Inr d' \<Longrightarrow> backup_admin_step zones encrypt now d d'"
| "delete_destination d i = Inr d' \<Longrightarrow> backup_admin_step zones encrypt now d d'"
| "create_plan zones d i uid y now = Inr d' \<Longrightarrow> backup_admin_step zones encrypt now d d'"
| "update_plan zones d i z now = Inr d' \<Longrightarrow> backup_admin_step zones encrypt now d d'"
| "delete_plan d i = Inr d' \<Longrightarrow> backup_admin_step zones encrypt now d d'"
| "start_backup_job d i uid w now = Inr d' \<Longrightarrow> backup_admin_step zones encrypt now d d'"
| "start_connection_test d i uid k now = Inr d' \<Longrightarrow> backup_admin_step zones encrypt now d d'"
| "prepare_restore d i uid k now = Inr d' \<Longrightarrow> backup_admin_step zones encrypt now d d'"

inductive queue_step :: "(string \<Rightarrow> zone) \<Rightarrow> (string \<Rightarrow> string) \<Rightarrow> queue_state \<Rightarrow> queue_state \<Rightarrow> bool" for zones encrypt where
  Clock: "qs_now s \<le> t \<Longrightarrow> queue_step zones encrypt s (s\<lparr>qs_now := t\<rparr>)"
| Admin: "backup_admin_step zones encrypt (qs_now s) (qs_db s) d' \<Longrightarrow> queue_step zones encrypt s (s\<lparr>qs_db := d'\<rparr>)"
| Read_Plan: "p \<in> set (bk_plans (qs_db s)) \<Longrightarrow> queue_step zones encrypt s (s\<lparr>qs_read := p # qs_read s\<rparr>)"
| Schedule: "p \<in> set (qs_read s) \<Longrightarrow> schedule_plan zones (qs_db s) i (qs_now s) p = Inr (d', b) \<Longrightarrow>
    queue_step zones encrypt s (s\<lparr>qs_db := d'\<rparr>)"
| Claim: "claim_job (bj_id j) (qs_now s) (qs_db s) = (d', True) \<Longrightarrow>
    queue_step zones encrypt s (s\<lparr>qs_db := d', qs_running := j # qs_running s\<rparr>)"
| Complete: "j \<in> set (qs_running s) \<Longrightarrow>
    queue_step zones encrypt s (s\<lparr>qs_db := complete_job zones remove run j dest source (qs_now s) (qs_db s),
      qs_running := remove1 j (qs_running s)\<rparr>)"
| Die: "queue_step zones encrypt s (s\<lparr>qs_running := remove1 j (qs_running s)\<rparr>)"

text \<open>Whatever the locks say, taking a job is a claim; the lock only keeps workers from trying.\<close>

lemma take_job_step:
  assumes "take_job R token (qs_now s) c (qs_db s) = (c', d', Some j)"
  shows "queue_step zones encrypt s (s\<lparr>qs_db := d', qs_running := j # qs_running s\<rparr>)"
proof -
  have "claim_job (bj_id j) (qs_now s) (qs_db s) = (d', True)"
    using assms by (auto simp: take_job_def Let_def split: option.splits prod.splits bool.splits)
  then show ?thesis by (rule queue_step.Claim)
qed

section \<open>What the administration leaves alone\<close>

definition same_job :: "job_row \<Rightarrow> job_row \<Rightarrow> bool" where
  "same_job j k \<longleftrightarrow> bj_id k = bj_id j \<and> bj_operation k = bj_operation j \<and> bj_status k = bj_status j \<and>
     bj_scheduled_for k = bj_scheduled_for j \<and> bj_plan k \<in> {bj_plan j, None} \<and> bj_destination k \<in> {bj_destination j, None}"

definition jobs_kept :: "backup_db \<Rightarrow> backup_db \<Rightarrow> bool" where
  "jobs_kept d d' \<longleftrightarrow> (\<exists>f new. bk_jobs d' = map f (bk_jobs d) @ new \<and> (\<forall>j. same_job j (f j)) \<and>
     (\<forall>j \<in> set new. bj_status j = Job_Queued \<and> bj_scheduled_for j = None))"

definition plans_ahead :: "time \<Rightarrow> backup_db \<Rightarrow> backup_db \<Rightarrow> bool" where
  "plans_ahead now d d' \<longleftrightarrow> (\<forall>p' \<in> set (bk_plans d'). \<forall>n. bp_next p' = Some n \<longrightarrow>
     now < n \<or> (\<exists>p \<in> set (bk_plans d). bp_id p = bp_id p' \<and> bp_next p = Some n))"

definition base_ok :: "backup_db \<Rightarrow> bool" where
  "base_ok d \<longleftrightarrow> distinct (map bj_id (bk_jobs d)) \<and> distinct (map bp_id (bk_plans d)) \<and>
     distinct (map bd_id (bk_destinations d)) \<and> bp_destination ` set (bk_plans d) \<subseteq> bd_id ` set (bk_destinations d)"

lemma same_job_refl [simp]: "same_job j j"
  by (simp add: same_job_def)

lemma jobs_kept_same: "bk_jobs d' = bk_jobs d \<Longrightarrow> jobs_kept d d'"
  unfolding jobs_kept_def by (rule exI [of _ id], rule exI [of _ "[]"]) simp

lemma jobs_kept_new:
  "bk_jobs d' = bk_jobs d @ [j] \<Longrightarrow> bj_status j = Job_Queued \<Longrightarrow> bj_scheduled_for j = None \<Longrightarrow> jobs_kept d d'"
  unfolding jobs_kept_def by (rule exI [of _ id], rule exI [of _ "[j]"]) simp

lemma jobs_kept_update:
  "bk_jobs d' = update_where p g (bk_jobs d) \<Longrightarrow> (\<And>j. p j \<Longrightarrow> same_job j (g j)) \<Longrightarrow> jobs_kept d d'"
  unfolding jobs_kept_def update_where_def
  by (rule exI [of _ "\<lambda>j. if p j then g j else j"], rule exI [of _ "[]"]) simp

lemma plans_ahead_same: "bk_plans d' = bk_plans d \<Longrightarrow> plans_ahead now d d'"
  by (auto simp: plans_ahead_def)

lemma next_run_later: "next_scheduled_run zones s now = Inr t \<Longrightarrow> now < t"
  using next_run_spec [where zones = zones and s = s and after = now] by simp

lemma next_run_if_later: "next_run_if zones en s now = Inr (Some t) \<Longrightarrow> now < t"
  by (auto simp: next_run_if_def result_simps split: if_splits dest: next_run_later)

lemma insert_job_Inr:
  "insert_job d j = Inr d' \<longleftrightarrow> job_fresh d j \<and> set_option (bj_plan j) \<subseteq> bp_id ` set (bk_plans d) \<and>
     set_option (bj_destination j) \<subseteq> bd_id ` set (bk_destinations d) \<and> d' = d\<lparr>bk_jobs := bk_jobs d @ [j]\<rparr>"
  by (auto simp: insert_job_def result_simps)

lemma new_job_simps [simp]:
  "bj_id (new_job i op tr now) = i" "bj_status (new_job i op tr now) = Job_Queued"
  "bj_scheduled_for (new_job i op tr now) = None" "bj_operation (new_job i op tr now) = op"
  by (simp_all add: new_job_def)

lemmas service_defs = create_destination_def update_destination_def delete_destination_def create_plan_def
  update_plan_def delete_plan_def start_backup_job_def start_connection_test_def prepare_restore_def

lemma admin_step_jobs: "backup_admin_step zones encrypt now d d' \<Longrightarrow> jobs_kept d d'"
proof (induction rule: backup_admin_step.induct)
  case (3 d i d')
  then show ?case unfolding delete_destination_def
    by (elim rbind_InrE) (auto intro!: jobs_kept_update [where p = "\<lambda>j. bj_destination j = Some i"] simp: same_job_def)
next
  case (6 d i d')
  then show ?case unfolding delete_plan_def
    by (elim rbind_InrE) (auto intro!: jobs_kept_update [where p = "\<lambda>j. bj_plan j = Some i"] simp: same_job_def)
qed (unfold service_defs Let_def, (elim rbind_InrE; auto intro: jobs_kept_same jobs_kept_new simp: insert_job_Inr split: prod.splits)+)

lemma admin_step_plans: "backup_admin_step zones encrypt now d d' \<Longrightarrow> plans_ahead now d d'"
proof (induction rule: backup_admin_step.induct)
  case (4 d i uid y d')
  then show ?case unfolding create_plan_def
    by (elim rbind_InrE) (auto simp: plans_ahead_def, metis next_run_if_later)
next
  case (5 d i z d')
  then show ?case unfolding update_plan_def Let_def
    apply (elim rbind_InrE)
    subgoal for e r u nxt u'
      by (cases nxt; auto simp: plans_ahead_def row_simps changed_plan_def given_def result_simps split: if_splits; metis next_run_if_later)
    done
qed (unfold service_defs Let_def, (elim rbind_InrE; auto intro: plans_ahead_same simp: insert_job_Inr plans_ahead_def row_simps split: prod.splits)+)

lemma map_key_update: "(\<And>r. key (g r) = key r) \<Longrightarrow> map key (update_where p g rows) = map key rows"
  by (rule map_update_where)

lemma changed_keys [simp]:
  "bd_id (changed_destination encrypt x r) = bd_id r" "bp_id (changed_plan z nxt p) = bp_id p"
  by (simp_all add: changed_destination_def changed_plan_def Let_def split: option.splits)

lemma base_okI:
  assumes "base_ok d" and "map bd_id (bk_destinations d') = map bd_id (bk_destinations d)"
    and "map bp_id (bk_plans d') = map bp_id (bk_plans d)" and "distinct (map bj_id (bk_jobs d'))"
    and "bp_destination ` set (bk_plans d') \<subseteq> bd_id ` set (bk_destinations d)"
  shows "base_ok d'"
proof -
  have "bd_id ` set (bk_destinations d') = bd_id ` set (bk_destinations d)" using arg_cong [OF assms(2), of set] by simp
  with assms(1,4,5) show ?thesis unfolding base_ok_def assms(2,3) by simp
qed

lemma insert_job_base: "base_ok d \<Longrightarrow> insert_job d j = Inr d' \<Longrightarrow> base_ok d'"
  by (auto simp: insert_job_Inr base_ok_def job_fresh_def)

lemma destination_mem:
  "require_destination d i = Inr r \<Longrightarrow> i \<in> bd_id ` set (bk_destinations d)"
  by (auto simp: require_destination_def find_destination_def intro!: image_eqI dest: find_SomeD)

lemma admin_step_base: "backup_admin_step zones encrypt now d d' \<Longrightarrow> base_ok d \<Longrightarrow> base_ok d'"
proof (induction rule: backup_admin_step.induct)
  case (1 d i uid name en s d' r)
  then show ?case unfolding create_destination_def Let_def by (elim rbind_InrE) (auto simp: base_ok_def image_subset_iff)
next
  case (2 d i x d')
  from 2(1) obtain u where d': "d' = d\<lparr>bk_destinations := update_where (\<lambda>r. bd_id r = i) (changed_destination encrypt x) (bk_destinations d)\<rparr>"
    unfolding update_destination_def by (elim rbind_InrE) auto
  show ?case unfolding d' using 2(2) by (intro base_okI [OF 2(2)]) (auto simp: map_key_update base_ok_def)
next
  case (3 d i d')
  then show ?case unfolding delete_destination_def
    by (elim rbind_InrE) (auto simp: base_ok_def map_key_update row_simps distinct_delete_where count_where_eq_0 image_subset_iff)
next
  case (4 d i uid y d')
  then show ?case unfolding create_plan_def
    apply (elim rbind_InrE)
    subgoal for r u nxt v w
      using destination_mem [of d "bi_destination y" r] by (auto simp: base_ok_def image_subset_iff)
    done
next
  case (5 d i z d')
  then show ?case unfolding update_plan_def Let_def
    apply (elim rbind_InrE)
    subgoal for e r u nxt u'
      using destination_mem [of d "the (bx_destination z)" r]
      by (cases "bx_destination z") (auto simp: base_ok_def map_key_update row_simps changed_plan_def given_None given_Some image_subset_iff)
    done
next
  case (6 d i d')
  then show ?case unfolding delete_plan_def
    by (elim rbind_InrE) (auto simp: base_ok_def map_key_update row_simps distinct_delete_where image_subset_iff)
qed (unfold service_defs, (elim rbind_InrE; auto intro: insert_job_base split: prod.splits)+)

section \<open>What the worker changes\<close>

definition job_core :: "job_row \<Rightarrow> ident \<times> job_operation \<times> time option \<times> ident option \<times> ident option" where
  "job_core j = (bj_id j, bj_operation j, bj_scheduled_for j, bj_plan j, bj_destination j)"

text \<open>Only the job \<open>i\<close> changes its status, and that to one of \<open>S\<close>.\<close>

definition work_kept :: "ident \<Rightarrow> job_status set \<Rightarrow> backup_db \<Rightarrow> backup_db \<Rightarrow> bool" where
  "work_kept i S d d' \<longleftrightarrow> bk_plans d' = bk_plans d \<and> map bd_id (bk_destinations d') = map bd_id (bk_destinations d) \<and>
     (\<exists>f. bk_jobs d' = map f (bk_jobs d) \<and>
       (\<forall>j. job_core (f j) = job_core j \<and> (bj_status (f j) = bj_status j \<or> bj_id j = i \<and> bj_status (f j) \<in> S)))"

lemma work_kept_refl: "work_kept i S d d"
  unfolding work_kept_def by (auto intro!: exI [of _ id])

lemma work_kept_trans:
  assumes "work_kept i S d d'" and "work_kept i S d' d''"
  shows "work_kept i S d d''"
proof -
  obtain f where f: "bk_jobs d' = map f (bk_jobs d)" "\<forall>j. job_core (f j) = job_core j \<and> (bj_status (f j) = bj_status j \<or> bj_id j = i \<and> bj_status (f j) \<in> S)"
    using assms(1) unfolding work_kept_def by blast
  obtain g where g: "bk_jobs d'' = map g (bk_jobs d')" "\<forall>j. job_core (g j) = job_core j \<and> (bj_status (g j) = bj_status j \<or> bj_id j = i \<and> bj_status (g j) \<in> S)"
    using assms(2) unfolding work_kept_def by blast
  have id: "bj_id (f j) = bj_id j" for j using f(2) [THEN spec, of j] by (simp add: job_core_def)
  have "job_core (g (f j)) = job_core j \<and> (bj_status (g (f j)) = bj_status j \<or> bj_id j = i \<and> bj_status (g (f j)) \<in> S)" for j
    using f(2) [THEN spec, of j] g(2) [THEN spec, of "f j"] id [of j] by auto
  moreover have "bk_jobs d'' = map (\<lambda>j. g (f j)) (bk_jobs d)" using f(1) g(1) by simp
  moreover have "bk_plans d'' = bk_plans d" "map bd_id (bk_destinations d'') = map bd_id (bk_destinations d)"
    using assms by (simp_all add: work_kept_def)
  ultimately show ?thesis unfolding work_kept_def by (intro conjI exI [of _ "\<lambda>j. g (f j)"]) simp_all
qed

lemma work_kept_jobs:
  assumes "\<And>j. p j \<Longrightarrow> job_core (g j) = job_core j \<and> (bj_status (g j) = bj_status j \<or> bj_id j = i \<and> bj_status (g j) \<in> S)"
  shows "work_kept i S d (d\<lparr>bk_jobs := update_where p g (bk_jobs d)\<rparr>)"
proof -
  have "job_core (if p j then g j else j) = job_core j \<and>
    (bj_status (if p j then g j else j) = bj_status j \<or> bj_id j = i \<and> bj_status (if p j then g j else j) \<in> S)" for j
    using assms [of j] by (cases "p j") simp_all
  then show ?thesis unfolding work_kept_def update_where_def
    by (intro conjI exI [of _ "\<lambda>j. if p j then g j else j"]) simp_all
qed

lemma work_kept_test: "work_kept i S d (set_test ok k now d)"
  unfolding work_kept_def set_test_def by (auto intro!: exI [of _ id] simp: map_key_update)

lemma retention_loop_kept: "work_kept i S d (retention_loop remove ex js d)"
proof (induction remove ex js d rule: retention_loop.induct)
  case (2 remove ex j js d)
  let ?d = "d\<lparr>bk_jobs := update_where (\<lambda>k. bj_id k = bj_id j) (\<lambda>k. k\<lparr>bj_artifact := None\<rparr>) (bk_jobs d)\<rparr>"
  have "work_kept i S d ?d" by (rule work_kept_jobs) (simp add: job_core_def)
  from work_kept_trans [OF this 2(2)] 2 show ?case by (cases "remove j") (simp_all add: work_kept_refl)
qed (simp add: work_kept_refl)

lemma apply_retention_kept: "work_kept i S d (apply_retention zones remove plan d)"
  by (auto simp: apply_retention_def Let_def work_kept_refl retention_loop_kept split: option.split)

lemma execute_job_kept: "execute_job run j dest source now d = (d', x) \<Longrightarrow> work_kept i S d d'"
  by (auto simp: execute_job_def Let_def work_kept_refl work_kept_test split: job_operation.splits option.splits sum.splits if_splits)

lemma complete_job_kept:
  "work_kept (bj_id j) {Job_Succeeded, Job_Failed} d (complete_job zones remove run j dest source now d)"
proof -
  let ?S = "{Job_Succeeded, Job_Failed}"
  obtain d' x where run: "execute_job run j dest source now d = (d', x)" by fastforce
  have first: "work_kept (bj_id j) ?S d d'" by (rule execute_job_kept [OF run])
  have ok: "work_kept (bj_id j) ?S d' (mark_succeeded (bj_id j) res now d')" for res
    unfolding mark_succeeded_def by (rule work_kept_jobs) (simp add: job_core_def)
  have bad: "work_kept (bj_id j) ?S d' (mark_failed j e now d')" for e
  proof -
    have "work_kept (bj_id j) ?S d' (d'\<lparr>bk_jobs := update_where (\<lambda>k. bj_id k = bj_id j) (\<lambda>k. k\<lparr>bj_status := Job_Failed,
        bj_finished := Some now, bj_error_code := Some (fst (safe_failure e)), bj_error_message := Some (snd (safe_failure e))\<rparr>) (bk_jobs d')\<rparr>)"
      by (rule work_kept_jobs) (simp add: job_core_def)
    then show ?thesis unfolding mark_failed_def Let_def
      by (auto split: option.split intro: work_kept_trans work_kept_test work_kept_refl)
  qed
  show ?thesis
  proof (cases x)
    case (Inl e)
    then show ?thesis using work_kept_trans [OF first bad] by (simp add: complete_job_def run)
  next
    case (Inr res)
    then show ?thesis using work_kept_trans [OF first ok] work_kept_trans [OF work_kept_trans [OF first ok] apply_retention_kept]
      by (simp add: complete_job_def run Let_def)
  qed
qed

lemma claim_job_kept: "claim_job i now d = (d', b) \<Longrightarrow> work_kept i {Job_Running} d d'"
  unfolding claim_job_def Let_def by (auto intro!: work_kept_jobs simp: job_core_def)

section \<open>The invariant\<close>

definition times_ok :: "time \<Rightarrow> backup_db \<Rightarrow> bool" where
  "times_ok now d \<longleftrightarrow> (\<forall>j \<in> set (bk_jobs d). \<forall>t. bj_scheduled_for j = Some t \<longrightarrow> t \<le> now \<and>
     (\<forall>p \<in> set (bk_plans d). \<forall>n. bj_plan j = Some (bp_id p) \<and> bp_next p = Some n \<longrightarrow> t < n))"

definition running_ok :: "job_row list \<Rightarrow> backup_db \<Rightarrow> bool" where
  "running_ok rs d \<longleftrightarrow> distinct (map bj_id rs) \<and>
     (\<forall>j \<in> set rs. \<exists>k \<in> set (bk_jobs d). bj_id k = bj_id j \<and> bj_status k = Job_Running)"

definition queue_ok :: "queue_state \<Rightarrow> bool" where
  "queue_ok s \<longleftrightarrow> base_ok (qs_db s) \<and> times_ok (qs_now s) (qs_db s) \<and> running_ok (qs_running s) (qs_db s)"

lemma times_okD:
  "times_ok now d \<Longrightarrow> j \<in> set (bk_jobs d) \<Longrightarrow> bj_scheduled_for j = Some t \<Longrightarrow> t \<le> now \<and>
   (p \<in> set (bk_plans d) \<longrightarrow> bj_plan j = Some (bp_id p) \<longrightarrow> bp_next p = Some n \<longrightarrow> t < n)"
  unfolding times_ok_def by blast

lemma times_ok_admin:
  assumes ok: "times_ok now d" and kept: "jobs_kept d d'" and ahead: "plans_ahead now d d'"
  shows "times_ok now d'"
  unfolding times_ok_def
proof (intro ballI allI impI conjI)
  fix j' t assume j': "j' \<in> set (bk_jobs d')" "bj_scheduled_for j' = Some t"
  obtain f new where f: "bk_jobs d' = map f (bk_jobs d) @ new" "\<forall>j. same_job j (f j)"
    "\<forall>j \<in> set new. bj_scheduled_for j = None" using kept unfolding jobs_kept_def by blast
  have "j' \<notin> set new" using f(3) j'(2) by auto
  with j'(1) f(1) obtain j where j: "j \<in> set (bk_jobs d)" "j' = f j" by auto
  have same: "bj_scheduled_for j = Some t" "bj_plan j' \<in> {bj_plan j, None}"
    using f(2) [THEN spec, of j] j(2) j'(2) by (simp_all add: same_job_def)
  show "t \<le> now" using times_okD [OF ok j(1) same(1)] by blast
  fix p' n assume p': "p' \<in> set (bk_plans d')" and nxt: "bj_plan j' = Some (bp_id p') \<and> bp_next p' = Some n"
  from ahead p' nxt consider "now < n" | p where "p \<in> set (bk_plans d)" "bp_id p = bp_id p'" "bp_next p = Some n"
    unfolding plans_ahead_def by blast
  then show "t < n"
  proof cases
    case 1
    then show ?thesis using \<open>t \<le> now\<close> by simp
  next
    case 2
    then have "bj_plan j = Some (bp_id p)" using same(2) nxt by auto
    then show ?thesis using times_okD [OF ok j(1) same(1), of p n] 2 by blast
  qed
qed

lemma running_ok_admin:
  assumes "running_ok rs d" and "jobs_kept d d'"
  shows "running_ok rs d'"
proof -
  obtain f new where f: "bk_jobs d' = map f (bk_jobs d) @ new" "\<forall>j. same_job j (f j)"
    using assms(2) unfolding jobs_kept_def by blast
  have "\<exists>k \<in> set (bk_jobs d'). bj_id k = i \<and> bj_status k = Job_Running"
    if "k \<in> set (bk_jobs d)" "bj_id k = i" "bj_status k = Job_Running" for k i
    using that f(1) f(2) [THEN spec, of k] by (intro bexI [of _ "f k"]) (auto simp: same_job_def)
  then show ?thesis using assms(1) unfolding running_ok_def by blast
qed

lemma base_ok_work: "base_ok d \<Longrightarrow> work_kept i S d d' \<Longrightarrow> base_ok d'"
proof -
  assume base: "base_ok d" and kept: "work_kept i S d d'"
  then obtain f where f: "bk_jobs d' = map f (bk_jobs d)" "\<forall>j. job_core (f j) = job_core j" unfolding work_kept_def by blast
  have "map bj_id (bk_jobs d') = map bj_id (bk_jobs d)" using f by (simp add: job_core_def)
  then show ?thesis using base kept by (intro base_okI [OF base]) (auto simp: work_kept_def base_ok_def)
qed

lemma times_ok_work: "times_ok now d \<Longrightarrow> work_kept i S d d' \<Longrightarrow> times_ok now d'"
proof -
  assume ok: "times_ok now d" and kept: "work_kept i S d d'"
  then obtain f where f: "bk_jobs d' = map f (bk_jobs d)" "\<forall>j. job_core (f j) = job_core j"
    and plans: "bk_plans d' = bk_plans d" unfolding work_kept_def by blast
  have "bj_scheduled_for (f j) = bj_scheduled_for j \<and> bj_plan (f j) = bj_plan j" for j
    using f(2) [THEN spec, of j] by (simp add: job_core_def)
  then show ?thesis using ok unfolding times_ok_def f(1) plans by simp
qed

text \<open>A round of the scheduler changes nothing, or sets a next run, or plans the due run of a plan.\<close>

lemma schedule_plan_cases:
  assumes "schedule_plan zones d i now p = Inr (d', b)"
  obtains (same) "d' = d" "\<not> b"
  | (initial) t where "bp_next p = None" "now < t" "\<not> b"
      "d' = d\<lparr>bk_plans := update_where (\<lambda>q. bp_id q = bp_id p \<and> bp_enabled q \<and> bp_next q = None) (\<lambda>q. q\<lparr>bp_next := Some t\<rparr>) (bk_plans d)\<rparr>"
  | (planned) due t where "bp_next p = Some due" "due \<le> now" "now < t" b
      "count_where (\<lambda>q. bp_id q = bp_id p \<and> bp_enabled q \<and> bp_next q = Some due) (bk_plans d) = 1"
      "insert_job (d\<lparr>bk_plans := update_where (\<lambda>q. bp_id q = bp_id p \<and> bp_enabled q \<and> bp_next q = Some due)
        (\<lambda>q. q\<lparr>bp_next := Some t, bp_last := Some now\<rparr>) (bk_plans d)\<rparr>) (scheduled_job i p due now) = Inr d'"
proof (cases "bp_next p")
  case None
  with assms obtain t where t: "next_scheduled_run zones (bp_schedule p) now = Inr t"
    unfolding schedule_plan_def by (auto elim: rbind_InrE)
  show thesis by (rule initial [of t]) (use assms None t next_run_later [OF t] in \<open>simp_all add: schedule_plan_def\<close>)
next
  case (Some due)
  show thesis
  proof (cases "now < due")
    case True
    then show thesis using same assms Some by (simp add: schedule_plan_def)
  next
    case False
    with assms Some obtain t where t: "next_scheduled_run zones (bp_schedule p) now = Inr t"
      unfolding schedule_plan_def by (auto elim: rbind_InrE)
    note run = assms [unfolded schedule_plan_def Some t option.case Let_def] False
    show thesis using run same planned [OF Some _ next_run_later [OF t]] by (auto split: if_splits sum.splits)
  qed
qed

lemma schedule_plan_grows:
  assumes "schedule_plan zones d i now p = Inr (d', b)"
  shows "\<exists>new. bk_jobs d' = bk_jobs d @ new"
  using assms by (rule schedule_plan_cases) (auto simp: insert_job_Inr)

lemma update_plans_keys:
  assumes "base_ok d" and "\<And>q. bp_id (g q) = bp_id q \<and> bp_destination (g q) = bp_destination q"
  shows "base_ok (d\<lparr>bk_plans := update_where h g (bk_plans d)\<rparr>)"
proof -
  have "map bp_id (update_where h g (bk_plans d)) = map bp_id (bk_plans d)"
    "map bp_destination (update_where h g (bk_plans d)) = map bp_destination (bk_plans d)"
    using assms(2) by (simp_all add: map_key_update)
  then have "bp_destination ` set (update_where h g (bk_plans d)) = bp_destination ` set (bk_plans d)"
    by (metis list.set_map)
  then show ?thesis using assms(1) \<open>map bp_id _ = _\<close> by (intro base_okI [OF assms(1)]) (simp_all add: base_ok_def)
qed

lemma schedule_plan_base: "base_ok d \<Longrightarrow> schedule_plan zones d i now p = Inr (d', b) \<Longrightarrow> base_ok d'"
  by (erule schedule_plan_cases [of zones d i now p d' b]) (auto intro: update_plans_keys, erule insert_job_base [rotated], rule update_plans_keys, simp_all)

text \<open>Setting a later next run keeps every planned run before the next one.\<close>

lemma times_ok_next:
  assumes ok: "times_ok now d" and t: "now < t" and g: "\<And>q. bp_id (g q) = bp_id q \<and> bp_next (g q) = Some t"
  shows "times_ok now (d\<lparr>bk_plans := update_where h g (bk_plans d)\<rparr>)"
  unfolding times_ok_def
proof (intro ballI allI impI conjI)
  fix j u assume j: "j \<in> set (bk_jobs (d\<lparr>bk_plans := update_where h g (bk_plans d)\<rparr>))" "bj_scheduled_for j = Some u"
  then have mem: "j \<in> set (bk_jobs d)" by simp
  show "u \<le> now" using times_okD [OF ok mem j(2)] by blast
  fix p n assume p: "p \<in> set (bk_plans (d\<lparr>bk_plans := update_where h g (bk_plans d)\<rparr>))" "bj_plan j = Some (bp_id p) \<and> bp_next p = Some n"
  then obtain q where q: "q \<in> set (bk_plans d)" "p = (if h q then g q else q)" by (auto simp: update_where_def)
  show "u < n"
  proof (cases "h q")
    case True
    then show ?thesis using p(2) q(2) g [of q] t \<open>u \<le> now\<close> by simp
  next
    case False
    then show ?thesis using p(2) q times_okD [OF ok mem j(2), of q n] by simp
  qed
qed

lemma times_ok_planned:
  assumes "times_ok now d" and "insert_job d j = Inr d'" and "bj_scheduled_for j = Some due" and "due \<le> now"
    and "\<And>p n. p \<in> set (bk_plans d) \<Longrightarrow> bj_plan j = Some (bp_id p) \<Longrightarrow> bp_next p = Some n \<Longrightarrow> due < n"
  shows "times_ok now d'"
  using assms unfolding times_ok_def insert_job_Inr by auto

lemma scheduled_job_simps [simp]:
  "bj_id (scheduled_job i p due now) = i" "bj_plan (scheduled_job i p due now) = Some (bp_id p)"
  "bj_destination (scheduled_job i p due now) = Some (bp_destination p)"
  "bj_scheduled_for (scheduled_job i p due now) = Some due" "bj_status (scheduled_job i p due now) = Job_Queued"
  by (simp_all add: scheduled_job_def)

text \<open>With unique ids, the plan that a count of one found is the only one with its id.\<close>

lemma counted_row:
  assumes "distinct (map key rows)" and "count_where (\<lambda>q. key q = k \<and> h q) rows = 1" and "q \<in> set rows" and "key q = k"
  shows "h q"
proof -
  have "\<not> (\<forall>r \<in> set rows. \<not> (key r = k \<and> h r))" using assms(2) count_where_eq_0 [of "\<lambda>q. key q = k \<and> h q" rows] by auto
  then obtain r where r: "r \<in> set rows" "key r = k" "h r" by blast
  then have "r = q" using assms(1,3,4) by (simp add: distinct_map inj_on_def)
  with r(3) show ?thesis by simp
qed

lemma schedule_plan_times:
  assumes base: "base_ok d" and ok: "times_ok now d" and run: "schedule_plan zones d i now p = Inr (d', b)"
  shows "times_ok now d'"
  using run
proof (cases rule: schedule_plan_cases)
  case same
  then show ?thesis using ok by simp
next
  case (initial t)
  show ?thesis unfolding initial(4) by (rule times_ok_next [OF ok initial(2)]) simp
next
  case (planned due t)
  let ?h = "\<lambda>q. bp_id q = bp_id p \<and> bp_enabled q \<and> bp_next q = Some due"
  let ?g = "\<lambda>q. q\<lparr>bp_next := Some t, bp_last := Some now\<rparr>"
  have first: "times_ok now (d\<lparr>bk_plans := update_where ?h ?g (bk_plans d)\<rparr>)"
    by (rule times_ok_next [OF ok planned(3)]) simp
  show ?thesis
  proof (rule times_ok_planned [OF first planned(6) _ planned(2)])
    fix r n assume r: "r \<in> set (bk_plans (d\<lparr>bk_plans := update_where ?h ?g (bk_plans d)\<rparr>))"
      "bj_plan (scheduled_job i p due now) = Some (bp_id r)" "bp_next r = Some n"
    have "r \<in> (\<lambda>q. if ?h q then ?g q else q) ` set (bk_plans d)" using r(1) by (simp add: update_where_def)
    then obtain q where q: "q \<in> set (bk_plans d)" "r = (if ?h q then ?g q else q)" by (elim imageE)
    have "bp_id r = bp_id q" unfolding q(2) by simp
    then have "bp_id q = bp_id p" using r(2) by simp
    then have "?h q" using counted_row [OF _ planned(5) q(1)] base by (simp add: base_ok_def)
    then show "due < n" using q(2) r(3) planned(2,3) by simp
  qed simp
qed

lemma running_ok_work:
  assumes "running_ok rs d" and "work_kept i S d d'" and "i \<notin> bj_id ` set rs"
  shows "running_ok rs d'"
proof -
  obtain f where f: "bk_jobs d' = map f (bk_jobs d)"
    "\<forall>j. job_core (f j) = job_core j \<and> (bj_status (f j) = bj_status j \<or> bj_id j = i \<and> bj_status (f j) \<in> S)"
    using assms(2) unfolding work_kept_def by blast
  have "\<exists>k' \<in> set (bk_jobs d'). bj_id k' = bj_id k \<and> bj_status k' = bj_status k" if "k \<in> set (bk_jobs d)" "bj_id k \<noteq> i" for k
    using that f(1) f(2) [THEN spec, of k] by (intro bexI [of _ "f k"]) (auto simp: job_core_def)
  with assms(1,3) show ?thesis unfolding running_ok_def by (metis image_eqI)
qed

lemma claim_job_True:
  assumes run: "claim_job i now d = (d', True)" and base: "base_ok d"
  obtains k where "k \<in> set (bk_jobs d)" and "bj_id k = i" and "bj_status k = Job_Queued"
    and "\<exists>k' \<in> set (bk_jobs d'). bj_id k' = i \<and> bj_status k' = Job_Running"
proof -
  have one: "count_where (\<lambda>j. bj_id j = i \<and> bj_status j = Job_Queued) (bk_jobs d) = 1"
    and d': "bk_jobs d' = update_where (\<lambda>j. bj_id j = i \<and> bj_status j = Job_Queued) (\<lambda>j. j\<lparr>bj_status := Job_Running,
      bj_started := Some now, bj_error_code := None, bj_error_message := None\<rparr>) (bk_jobs d)"
    using run by (auto simp: claim_job_def Let_def)
  have "\<not> (\<forall>j \<in> set (bk_jobs d). \<not> (bj_id j = i \<and> bj_status j = Job_Queued))"
    using one count_where_eq_0 [of "\<lambda>j. bj_id j = i \<and> bj_status j = Job_Queued" "bk_jobs d"] by auto
  then obtain k where k: "k \<in> set (bk_jobs d)" "bj_id k = i" "bj_status k = Job_Queued" by blast
  moreover have "\<exists>k' \<in> set (bk_jobs d'). bj_id k' = i \<and> bj_status k' = Job_Running"
    unfolding d' update_where_def set_map bex_simps by (rule bexI [OF _ k(1)]) (simp add: k)
  ultimately show thesis by (rule that)
qed

lemma running_queued:
  assumes "base_ok d" and "running_ok rs d" and "k \<in> set (bk_jobs d)" and "bj_status k = Job_Queued"
  shows "bj_id k \<notin> bj_id ` set rs"
proof
  assume "bj_id k \<in> bj_id ` set rs"
  then obtain k' where "k' \<in> set (bk_jobs d)" "bj_id k' = bj_id k" "bj_status k' = Job_Running"
    using assms(2) unfolding running_ok_def by force
  moreover from this have "k' = k" using assms(1,3) by (auto simp: base_ok_def distinct_map inj_on_def)
  ultimately show False using assms(4) by simp
qed

lemma claim_job_running:
  assumes "base_ok d" and "running_ok rs d" and "claim_job (bj_id j) now d = (d', True)"
  shows "running_ok (j # rs) d'" and "bj_id j \<notin> bj_id ` set rs"
proof -
  obtain k where k: "k \<in> set (bk_jobs d)" "bj_id k = bj_id j" "bj_status k = Job_Queued"
    and new: "\<exists>k' \<in> set (bk_jobs d'). bj_id k' = bj_id j \<and> bj_status k' = Job_Running"
    by (rule claim_job_True [OF assms(3,1)])
  show free: "bj_id j \<notin> bj_id ` set rs" using running_queued [OF assms(1,2) k(1,3)] k(2) by simp
  have "running_ok rs d'" by (rule running_ok_work [OF assms(2) claim_job_kept [OF assms(3)] free])
  with new free show "running_ok (j # rs) d'" by (simp add: running_ok_def)
qed

lemma remove1_ids:
  assumes "distinct (map bj_id rs)" and "j \<in> set rs"
  shows "bj_id ` set (remove1 j rs) = bj_id ` set rs - {bj_id j}"
  using assms by (auto simp: distinct_map inj_on_def set_remove1_eq)

lemma running_ok_remove: "running_ok rs d \<Longrightarrow> running_ok (remove1 j rs) d"
  unfolding running_ok_def distinct_map
  by (meson distinct_remove1 inj_on_subset set_remove1_subset subsetD)

lemma queue_step_ok: "queue_step zones encrypt s s' \<Longrightarrow> queue_ok s \<Longrightarrow> queue_ok s'"
proof (induction rule: queue_step.induct)
  case (Clock s t)
  then show ?case by (fastforce simp: queue_ok_def times_ok_def)
next
  case (Admin s d')
  then show ?case using admin_step_base [OF Admin(1)] times_ok_admin [OF _ admin_step_jobs [OF Admin(1)] admin_step_plans [OF Admin(1)]]
    running_ok_admin [OF _ admin_step_jobs [OF Admin(1)]] by (simp add: queue_ok_def)
next
  case (Read_Plan p s)
  then show ?case by (simp add: queue_ok_def)
next
  case (Schedule p s i d' b)
  obtain new where "bk_jobs d' = bk_jobs (qs_db s) @ new" using schedule_plan_grows [OF Schedule(2)] by blast
  then have "running_ok (qs_running s) d'" using Schedule(3) by (auto simp: queue_ok_def running_ok_def)
  then show ?case using schedule_plan_base [OF _ Schedule(2)] schedule_plan_times [OF _ _ Schedule(2)] Schedule(3)
    by (simp add: queue_ok_def)
next
  case (Claim j s d')
  then show ?case using base_ok_work [OF _ claim_job_kept [OF Claim(1)]] times_ok_work [OF _ claim_job_kept [OF Claim(1)]]
    claim_job_running(1) [OF _ _ Claim(1)] by (simp add: queue_ok_def)
next
  case (Complete j s remove run dest source)
  let ?d = "complete_job zones remove run j dest source (qs_now s) (qs_db s)"
  have kept: "work_kept (bj_id j) {Job_Succeeded, Job_Failed} (qs_db s) ?d" by (rule complete_job_kept)
  have "bj_id j \<notin> bj_id ` set (remove1 j (qs_running s))"
    using remove1_ids [OF _ Complete(1)] Complete(2) by (simp add: queue_ok_def running_ok_def)
  then show ?case using running_ok_work [OF running_ok_remove kept] base_ok_work [OF _ kept] times_ok_work [OF _ kept] Complete(2)
    by (simp add: queue_ok_def)
next
  case (Die s j)
  then show ?case by (simp add: queue_ok_def running_ok_remove)
qed

definition queue_start :: "time \<Rightarrow> queue_state" where
  "queue_start now = \<lparr>qs_db = \<lparr>bk_destinations = [], bk_plans = [], bk_jobs = []\<rparr>, qs_now = now, qs_read = [], qs_running = []\<rparr>"

lemma queue_reachable_ok: "(queue_step zones encrypt)\<^sup>*\<^sup>* (queue_start now) s \<Longrightarrow> queue_ok s"
proof (induction rule: rtranclp_induct)
  case base
  then show ?case by (simp add: queue_start_def queue_ok_def base_ok_def times_ok_def running_ok_def)
next
  case (step y z)
  then show ?case by (blast intro: queue_step_ok)
qed

section \<open>A due run is planned once\<close>







section \<open>A job is run once\<close>

lemma kept_job:
  assumes "work_kept i S d d'" and "j \<in> set (bk_jobs d)"
  shows "\<exists>k \<in> set (bk_jobs d'). bj_id k = bj_id j \<and> bj_operation k = bj_operation j \<and> bj_destination k = bj_destination j \<and>
    (bj_status k = bj_status j \<or> bj_id j = i \<and> bj_status k \<in> S)"
proof -
  obtain f where f: "bk_jobs d' = map f (bk_jobs d)"
    "\<forall>j. job_core (f j) = job_core j \<and> (bj_status (f j) = bj_status j \<or> bj_id j = i \<and> bj_status (f j) \<in> S)"
    using assms(1) unfolding work_kept_def by blast
  show ?thesis using f(1) f(2) [THEN spec, of j] assms(2) by (intro bexI [of _ "f j"]) (auto simp: job_core_def)
qed

lemma kept_job_admin:
  assumes "jobs_kept d d'" and "j \<in> set (bk_jobs d)"
  shows "\<exists>k \<in> set (bk_jobs d'). bj_id k = bj_id j \<and> bj_operation k = bj_operation j \<and>
    bj_destination k \<in> {bj_destination j, None} \<and> bj_status k = bj_status j"
proof -
  obtain f new where f: "bk_jobs d' = map f (bk_jobs d) @ new" "\<forall>j. same_job j (f j)"
    using assms(1) unfolding jobs_kept_def by blast
  show ?thesis using f(1) f(2) [THEN spec, of j] assms(2) by (intro bexI [of _ "f j"]) (auto simp: same_job_def)
qed

text \<open>What one step may do with a job.\<close>

definition job_moves :: "queue_state \<Rightarrow> queue_state \<Rightarrow> job_row \<Rightarrow> job_row \<Rightarrow> bool" where
  "job_moves s s' j k \<longleftrightarrow> bj_id k = bj_id j \<and> bj_operation k = bj_operation j \<and> bj_destination k \<in> {bj_destination j, None} \<and>
     (bj_status k = bj_status j \<or>
      bj_status j = Job_Queued \<and> bj_status k = Job_Running \<and>
        bj_id j \<notin> bj_id ` set (qs_running s) \<and> bj_id j \<in> bj_id ` set (qs_running s') \<or>
      bj_status j = Job_Running \<and> bj_status k \<in> {Job_Succeeded, Job_Failed} \<and>
        bj_id j \<in> bj_id ` set (qs_running s) \<and> bj_id j \<notin> bj_id ` set (qs_running s'))"

lemma running_row:
  assumes "base_ok d" and "running_ok rs d" and "j \<in> set (bk_jobs d)" and "bj_id j \<in> bj_id ` set rs"
  shows "bj_status j = Job_Running"
proof -
  obtain k where "k \<in> set (bk_jobs d)" "bj_id k = bj_id j" "bj_status k = Job_Running"
    using assms(2,4) unfolding running_ok_def by force
  moreover from this have "k = j" using assms(1,3) by (auto simp: base_ok_def distinct_map inj_on_def)
  ultimately show ?thesis by simp
qed

lemma queue_step_moves:
  assumes "queue_step zones encrypt s s'" and "queue_ok s" and "j \<in> set (bk_jobs (qs_db s))"
  shows "\<exists>k \<in> set (bk_jobs (qs_db s')). job_moves s s' j k"
  using assms
proof (induction rule: queue_step.induct)
  case (Admin s d')
  from kept_job_admin [OF admin_step_jobs [OF Admin(1)] Admin(3)] show ?case by (auto simp: job_moves_def)
next
  case (Schedule p s i d' b)
  from schedule_plan_grows [OF Schedule(2)] Schedule(4) show ?case by (auto simp: job_moves_def)
next
  case (Claim x s d')
  have base: "base_ok (qs_db s)" and run: "running_ok (qs_running s) (qs_db s)" using Claim(2) by (simp_all add: queue_ok_def)
  obtain q where q: "q \<in> set (bk_jobs (qs_db s))" "bj_id q = bj_id x" "bj_status q = Job_Queued"
    by (rule claim_job_True [OF Claim(1) base])
  have "bj_status j = Job_Queued" if "bj_id j = bj_id x"
    using that q Claim(3) base by (auto simp: base_ok_def distinct_map inj_on_def)
  with kept_job [OF claim_job_kept [OF Claim(1)] Claim(3)] claim_job_running(2) [OF base run Claim(1)]
  show ?case by (fastforce simp: job_moves_def)
next
  case (Complete x s remove run dest source)
  have base: "base_ok (qs_db s)" and run: "running_ok (qs_running s) (qs_db s)" using Complete(2) by (simp_all add: queue_ok_def)
  have ids: "bj_id ` set (remove1 x (qs_running s)) = bj_id ` set (qs_running s) - {bj_id x}"
    by (rule remove1_ids [OF _ Complete(1)]) (use run in \<open>simp add: running_ok_def\<close>)
  have in_run: "bj_id x \<in> bj_id ` set (qs_running s)" using Complete(1) by (rule imageI)
  have "bj_status j = Job_Running" if "bj_id j = bj_id x"
    using running_row [OF base run Complete(3)] that in_run by simp
  moreover obtain k where "k \<in> set (bk_jobs (complete_job zones remove run x dest source (qs_now s) (qs_db s)))"
    "bj_id k = bj_id j" "bj_operation k = bj_operation j" "bj_destination k = bj_destination j"
    "bj_status k = bj_status j \<or> bj_id j = bj_id x \<and> bj_status k \<in> {Job_Succeeded, Job_Failed}"
    using kept_job [OF complete_job_kept Complete(3)] by blast
  ultimately show ?case using ids in_run by (intro bexI [of _ k]) (auto simp: job_moves_def)
qed (auto simp: job_moves_def)

text \<open>
  C35: However administration, schedulers and workers interleave, a job is never lost and is run at most
  once: a step leaves its status alone, or it is queued and exactly then taken by a worker, while nobody
  else runs it, or its own worker finishes it; no two workers run the same job.
\<close>

theorem jobs_run_once:
  assumes "(queue_step zones encrypt)\<^sup>*\<^sup>* (queue_start now0) s" and "queue_step zones encrypt s s'" and "j \<in> set (bk_jobs (qs_db s))"
  shows "distinct (map bj_id (qs_running s')) \<and>
    (\<exists>k \<in> set (bk_jobs (qs_db s')). bj_id k = bj_id j \<and> bj_operation k = bj_operation j \<and>
      (bj_status k = bj_status j \<or>
       bj_status j = Job_Queued \<and> bj_status k = Job_Running \<and>
         bj_id j \<notin> bj_id ` set (qs_running s) \<and> bj_id j \<in> bj_id ` set (qs_running s') \<or>
       bj_status j = Job_Running \<and> bj_status k \<in> {Job_Succeeded, Job_Failed} \<and>
         bj_id j \<in> bj_id ` set (qs_running s) \<and> bj_id j \<notin> bj_id ` set (qs_running s')))"
proof -
  have ok: "queue_ok s" by (rule queue_reachable_ok [OF assms(1)])
  then have "distinct (map bj_id (qs_running s'))"
    using queue_step_ok [OF assms(2)] by (simp add: queue_ok_def running_ok_def)
  with queue_step_moves [OF assms(2) ok assms(3)] show ?thesis unfolding job_moves_def by blast
qed

section \<open>A worker that dies\<close>

lemma queue_step_running:
  assumes "queue_step zones encrypt s s'" and "queue_ok s" and "i \<in> bj_id ` set (qs_running s')"
  shows "i \<in> bj_id ` set (qs_running s) \<or> (\<exists>q \<in> set (bk_jobs (qs_db s)). bj_id q = i \<and> bj_status q = Job_Queued)"
  using assms
proof (induction rule: queue_step.induct)
  case (Claim x s d')
  have base: "base_ok (qs_db s)" using Claim(2) by (simp add: queue_ok_def)
  obtain q where "q \<in> set (bk_jobs (qs_db s))" "bj_id q = bj_id x" "bj_status q = Job_Queued"
    by (rule claim_job_True [OF Claim(1) base])
  with Claim(3) show ?case by auto
qed (auto intro!: imageI dest: subsetD [OF set_remove1_subset])

definition stuck :: "job_row \<Rightarrow> queue_state \<Rightarrow> bool" where
  "stuck j s \<longleftrightarrow> bj_id j \<notin> bj_id ` set (qs_running s) \<and> (\<exists>k \<in> set (bk_jobs (qs_db s)). bj_id k = bj_id j \<and>
     bj_operation k = bj_operation j \<and> bj_status k = Job_Running \<and> bj_destination k \<in> {bj_destination j, None})"

lemma stuck_step:
  assumes "queue_step zones encrypt s s'" and "queue_ok s" and "stuck j s"
  shows "stuck j s'"
proof -
  obtain k where k: "k \<in> set (bk_jobs (qs_db s))" "bj_id k = bj_id j" "bj_operation k = bj_operation j"
    "bj_status k = Job_Running" "bj_destination k \<in> {bj_destination j, None}"
    using assms(3) unfolding stuck_def by blast
  have out: "bj_id j \<notin> bj_id ` set (qs_running s)" using assms(3) by (simp add: stuck_def)
  have "bj_id j \<notin> bj_id ` set (qs_running s')"
  proof
    assume "bj_id j \<in> bj_id ` set (qs_running s')"
    with queue_step_running [OF assms(1,2)] out obtain q where
      q: "q \<in> set (bk_jobs (qs_db s))" "bj_id q = bj_id j" "bj_status q = Job_Queued" by blast
    then have "q = k" using k(1,2) assms(2) by (simp add: queue_ok_def base_ok_def distinct_map inj_on_def)
    with q(3) k(4) show False by simp
  qed
  moreover obtain k' where "k' \<in> set (bk_jobs (qs_db s'))" "job_moves s s' k k'"
    using queue_step_moves [OF assms(1,2) k(1)] by blast
  ultimately show ?thesis unfolding stuck_def using k(2-5) out
    by (intro conjI bexI [of _ k']) (auto simp: job_moves_def)
qed

lemma stuck_run: "(queue_step zones encrypt)\<^sup>*\<^sup>* s s' \<Longrightarrow> queue_ok s \<Longrightarrow> stuck j s \<Longrightarrow> queue_ok s' \<and> stuck j s'"
proof (induction rule: rtranclp_induct)
  case (step y z)
  then show ?case using queue_step_ok stuck_step by blast
qed simp

lemma active_job_blocks:
  assumes "k \<in> set (bk_jobs d)" and "bj_operation k = Backup_Op" and "bj_status k = Job_Running" and "bj_destination k = Some i"
  shows "start_backup_job d n uid (By_Destination i) now \<noteq> Inr d'"
proof
  assume run: "start_backup_job d n uid (By_Destination i) now = Inr d'"
  then obtain r where r: "find_destination d i = Some r" "\<not> active_job d Backup_Op (\<lambda>j. bj_destination j = Some (bd_id r))"
    unfolding start_backup_job_def by (elim rbind_InrE) (auto simp: result_simps)
  have "bd_id r = i" using find_SomeD [OF r(1) [unfolded find_destination_def]] by simp
  with r(2) assms show False by (auto simp: active_job_def find_None_iff)
qed

text \<open>
  A backup whose worker died is never finished or taken over: it stays RUNNING in every later
  state, and as long as it belongs to its destination no backup of that destination can be started by
  hand.
\<close>

theorem dead_worker_blocks_destination:
  assumes "(queue_step zones encrypt)\<^sup>*\<^sup>* (queue_start now0) s" and "j \<in> set (bk_jobs (qs_db s))"
    and "bj_operation j = Backup_Op" and "bj_status j = Job_Running" and "bj_id j \<notin> bj_id ` set (qs_running s)"
    and "(queue_step zones encrypt)\<^sup>*\<^sup>* s s'"
  shows "\<exists>k \<in> set (bk_jobs (qs_db s')). bj_id k = bj_id j \<and> bj_status k = Job_Running \<and>
    (bj_destination k = bj_destination j \<or> bj_destination k = None) \<and>
    (\<forall>i n uid now d'. bj_destination k = Some i \<longrightarrow> start_backup_job (qs_db s') n uid (By_Destination i) now \<noteq> Inr d')"
proof -
  have "stuck j s" using assms(2-5) unfolding stuck_def by blast
  then have "stuck j s'" using stuck_run [OF assms(6) queue_reachable_ok [OF assms(1)]] by blast
  then obtain k where k: "k \<in> set (bk_jobs (qs_db s'))" "bj_id k = bj_id j" "bj_operation k = Backup_Op"
    "bj_status k = Job_Running" "bj_destination k \<in> {bj_destination j, None}"
    using assms(3) unfolding stuck_def by metis
  with active_job_blocks [OF k(1,3,4)] show ?thesis by blast
qed

section \<open>A run\<close>



definition sample_destination :: destination_row where
  "sample_destination = \<lparr>bd_id = ''d'', bd_name = ''disk'', bd_type = Local_Destination, bd_config = JNull,
     bd_credentials = None, bd_enabled = True, bd_tested_at = None, bd_test_ok = None, bd_creator = Some ''u''\<rparr>"

definition sample_backups :: "plan_row list \<Rightarrow> job_row list \<Rightarrow> backup_db" where
  "sample_backups ps js = \<lparr>bk_destinations = [sample_destination], bk_plans = ps, bk_jobs = js\<rparr>"

definition sample_queue :: "time \<Rightarrow> plan_row list \<Rightarrow> job_row list \<Rightarrow> job_row list \<Rightarrow> queue_state" where
  "sample_queue now ps js rs = \<lparr>qs_db = sample_backups ps js, qs_now = now, qs_read = [], qs_running = rs\<rparr>"

lemma sample_destination_created:
  "(queue_step zones id)\<^sup>*\<^sup>* (queue_start 0) (sample_queue 0 [] [] [])"
proof -
  have "create_destination id (qs_db (queue_start 0)) ''d'' ''u'' ''disk'' True
      \<lparr>ds_type = Local_Destination, ds_config = JNull, ds_credentials = None\<rparr> = Inr (sample_backups [] [], sample_destination)"
    by (simp add: create_destination_def queue_start_def sample_backups_def sample_destination_def settings_credentials_def
        remote_def Let_def result_simps)
  from queue_step.Admin [OF backup_admin_step.intros(1) [OF this]]
  have "queue_step zones id (queue_start 0) (sample_queue 0 [] [] [])" by (simp add: queue_start_def sample_queue_def)
  then show ?thesis by (rule r_into_rtranclp)
qed






definition sample_job :: job_row where
  "sample_job = (new_job ''j'' Backup_Op Manual_Trigger 0)\<lparr>bj_destination := Some ''d'', bj_requester := Some ''u''\<rparr>"

lemma sample_job_started:
  "(queue_step zones id)\<^sup>*\<^sup>* (queue_start 0) (sample_queue 0 [] [sample_job] [])"
proof -
  have "start_backup_job (sample_backups [] []) ''j'' ''u'' (By_Destination ''d'') 0 = Inr (sample_backups [] [sample_job])"
    by (simp add: start_backup_job_def find_destination_def assert_destination_tested_def active_job_def insert_job_Inr
        job_fresh_def sample_backups_def sample_destination_def sample_job_def remote_def new_job_def result_simps)
  from queue_step.Admin [OF backup_admin_step.intros(7), of "sample_queue 0 [] [] []"] this
  have "queue_step zones id (sample_queue 0 [] [] []) (sample_queue 0 [] [sample_job] [])"
    by (simp add: sample_queue_def)
  then show ?thesis using sample_destination_created by (meson rtranclp.rtrancl_into_rtrancl)
qed

lemma sample_job_claimed:
  "queue_step zones id (sample_queue 0 [] [sample_job] [])
    (sample_queue 0 [] [sample_job\<lparr>bj_status := Job_Running, bj_started := Some 0\<rparr>] [sample_job])"
proof -
  have "claim_job (bj_id sample_job) 0 (sample_backups [] [sample_job]) =
      (sample_backups [] [sample_job\<lparr>bj_status := Job_Running, bj_started := Some 0\<rparr>], True)"
    by (simp add: claim_job_def sample_backups_def sample_job_def new_job_def update_where_def count_where_def)
  from queue_step.Claim [of sample_job "sample_queue 0 [] [sample_job] []"] this
  show ?thesis by (simp add: sample_queue_def)
qed

theorem jobs_run_once_witness:
  "distinct (map bj_id [sample_job]) \<and> (\<exists>k \<in> set [sample_job\<lparr>bj_status := Job_Running, bj_started := Some 0\<rparr>].
    bj_id k = bj_id sample_job \<and> bj_status k = Job_Running)"
  using jobs_run_once [OF sample_job_started sample_job_claimed [of undefined], of sample_job]
  by (simp add: sample_queue_def sample_backups_def sample_job_def new_job_def)

theorem dead_worker_blocks_destination_witness:
  "\<exists>s. (queue_step (\<lambda>_. utc_zone) id)\<^sup>*\<^sup>* (queue_start 0) s \<and>
    (\<forall>d'. start_backup_job (qs_db s) ''k'' ''u'' (By_Destination ''d'') 0 \<noteq> Inr d')"
proof -
  let ?r = "sample_job\<lparr>bj_status := Job_Running, bj_started := Some 0\<rparr>"
  let ?s = "sample_queue 0 [] [?r] []"
  have "queue_step (\<lambda>_. utc_zone) id (sample_queue 0 [] [?r] [sample_job]) ?s"
    using queue_step.Die [of "\<lambda>_. utc_zone" id "sample_queue 0 [] [?r] [sample_job]" sample_job] by (simp add: sample_queue_def)
  with sample_job_started sample_job_claimed have reach: "(queue_step (\<lambda>_. utc_zone) id)\<^sup>*\<^sup>* (queue_start 0) ?s"
    by (meson rtranclp.rtrancl_into_rtrancl)
  from dead_worker_blocks_destination [OF reach, of ?r ?s]
  have "\<forall>d'. start_backup_job (qs_db ?s) ''k'' ''u'' (By_Destination ''d'') 0 \<noteq> Inr d'"
    by (simp add: sample_queue_def sample_backups_def sample_job_def new_job_def)
  with reach show ?thesis by blast
qed

end
