(* ===== verification/Spec2Isabelle.thy ===== *)
theory Spec2Isabelle
  imports Prelude Text Permissions Database Effective_Role Sample Authz Role_Admin User_Admin Slugs Group_Admin
    Targets Access Resource_Acls Identity_Sync Token_Family Sessions Identity_Admin Deprovisioning
    Api_Keys Urls Mcp_Tokens Mcp_OAuth Mcp_Rate_Limit Entra_Groups Oidc_Requests Oidc_Login
    Content Spaces Categories Page_Content Checkbox Pages Page_History Page_Tree Notes Standards
    Standard_Lifecycle Placement
    Backup_Schedule Backup_Retention Backup_Coordination Backups Backup_Queue
begin

text \<open>
  AD-Wiki: who may do what, who is who, and what becomes of the content.

  The repository is a wiki for teams: a NestJS server (\<^verbatim>\<open>apps/api\<close>) over a PostgreSQL database
  accessed with Prisma (\<^verbatim>\<open>apps/api/prisma/schema.prisma\<close>), a React front end (\<^verbatim>\<open>apps/web\<close>), and shared
  request schemas (\<^verbatim>\<open>packages/shared-types\<close>). This development models the server's decisions about
  identity, access and content, service by service. A service's method is a function of the database (and of
  what it cannot compute: the clock, fresh ids and secrets, hashes, libraries), it answers with the
  new database and its result, or with the exception it throws.

  The state. \<open>Database\<close> holds one record \<open>db\<close> with a list of rows per table; rows are records with the
  columns the services use, and the predicates \<open>accounts_ok\<close>, \<open>groups_ok\<close>, \<open>identities_ok\<close> and \<open>content_ok\<close>
  state the unique columns and foreign keys of the schema. The order of a list is the order in which
  the database returns rows; what depends on it sorts explicitly, as the code does. \<open>Prelude\<close> has
  Prisma's row operations (\<open>update_where\<close>, \<open>delete_where\<close>, \<open>count_where\<close>, \<open>insert_row\<close>), the sequencing of
  fallible steps (\<open>rbind\<close> on \<open>api_error + 'a\<close>), and \<open>Text\<close> the string functions and JSON values. \<open>Sample\<close> is
  a small installation on which properties with hypotheses are applied.

  Permissions. \<open>Permissions\<close> is the catalogue of \<^verbatim>\<open>shared-types/acl.ts\<close>. \<open>Effective_Role\<close> chooses a user's
  role among the external grants and the stored role (\<^verbatim>\<open>effective-role.service.ts\<close>): the sorted choice
  is shown to be the minimum of the order it sorts by. \<open>Authz\<close> is the evaluator with its per-request cache
  (\<^verbatim>\<open>permission.service.ts\<close>), the list form of the same rights and the guards; the cache is shown to be
  transparent and the two forms to agree. \<open>Role_Admin\<close> and \<open>User_Admin\<close> are the administration of roles,
  rights and accounts (\<^verbatim>\<open>acls.service.ts\<close>, \<^verbatim>\<open>permission-ceiling.ts\<close>, \<^verbatim>\<open>users.service.ts\<close>): nobody grants what
  they lack, protected accounts are left alone, every sequence of requests keeps the tables
  consistent; two closed counterexamples show where the ceiling does not hold.

  Groups. \<open>Group_Admin\<close> is \<^verbatim>\<open>groups.service.ts\<close> with the limited authority of group managers, \<open>Slugs\<close> the
  search for a free slug: the loop of the source has no bound; here it runs on fuel, and the locale
  \<open>slug_source\<close> shows that one round more than there are rows is always enough.

  Resources. \<open>Targets\<close> resolves a page, note, standard, category or space to the path up to its space,
  once for one target and once for many (\<^verbatim>\<open>resource-target.service.ts\<close>); the walk over page parents
  ends because it stops at 100 visited pages, which is the code's own bound and the measure of the
  function. \<open>Access\<close> decides (\<^verbatim>\<open>resource-access.service.ts\<close>): global right, then the nearest rule on the
  path, users before groups and DENY before ALLOW, inheritance boundaries, visibility of the space. It is
  shown to implement an abstract specification of that decision, and the batched evaluation to agree
  with the single one. \<open>Resource_Acls\<close> administers the rules and boundaries.

  External identities. \<open>Identity_Sync\<close> turns the claims of an identity provider into group memberships
  and a role (\<^verbatim>\<open>identity-synchronization.service.ts\<close>): exactly what the claims say, nothing else, and a
  second run changes nothing. \<open>Identity_Admin\<close> administers providers and mappings with the cascades of the
  schema (\<^verbatim>\<open>identity-provider-admin.service.ts\<close>, \<^verbatim>\<open>oidc-jit-policy.ts\<close>). \<open>Deprovisioning\<close> shows what the removal
  of a provider leaves behind.

  Sessions. \<open>Token_Family\<close> is a locale on rows with a family, a revocation and a rotation column: at most
  one token of a family is live. \<open>Sessions\<close> interprets it for refresh tokens and models \<^verbatim>\<open>auth.service.ts\<close>:
  registration, login, rotation with revocation of the family on reuse, logout, password changes and
  reset links. The step relation \<open>auth_step\<close> interleaves requests whose read and write are separate
  statements of a transaction, with what the other services do to sessions, and the invariant holds on
  every path; unlinking and the removal of a provider are shown to be such steps.

  Machine access. \<open>Api_Keys\<close> (\<^verbatim>\<open>api-keys.service.ts\<close> and the guards): a key never allows more than its
  owner may and its own list says. \<open>Mcp_Tokens\<close> (\<^verbatim>\<open>mcp-token.service.ts\<close>): the scopes of a token are the
  current rights of its user. \<open>Mcp_OAuth\<close> (\<^verbatim>\<open>mcp-oauth.service.ts\<close>) is the authorization server: the step
  relation \<open>oauth_step\<close> interleaves exchanges whose read, claim and insertion are separate statements, and
  the locale \<open>token_family\<close> is interpreted a second time for its refresh tokens. A ghost component of the
  state collects what users approved, and no code or token ever carries anything else. \<open>Mcp_Rate_Limit\<close>
  bounds the requests of a token per window, for the counters in memory and for the script in Redis: the
  locale \<open>window_store\<close> is what both have in common.

  External login. \<open>Urls\<close> is the check of addresses (\<^verbatim>\<open>oidc-url-security.ts\<close>), \<open>Entra_Groups\<close> the resolution of
  groups through Microsoft Graph with its cache (in memory or in Redis), \<open>Oidc_Requests\<close> and \<open>Oidc_Login\<close> are \<^verbatim>\<open>oidc.service.ts\<close>: requests and codes are
  used once, a login code stands for the subject the provider vouched for, an account created on the
  first login holds no administrative right, linking takes no identity over, unlinking leaves a way to
  sign in.

  Content. \<open>Content\<close> has what the content services share: the access check of an optional actor (a call
  without one comes from inside the server) and the deletions with the cascades of the schema.
  \<open>Spaces\<close> (\<^verbatim>\<open>spaces.service.ts\<close>), \<open>Categories\<close> (\<^verbatim>\<open>categories.service.ts\<close>), \<open>Pages\<close> (\<^verbatim>\<open>pages.service.ts\<close>, with
  the patterns for tags, links and media of \<open>Page_Content\<close> and the task lists of \<open>Checkbox\<close>,
  \<^verbatim>\<open>toggle-checkbox.ts\<close>), \<open>Notes\<close> (\<^verbatim>\<open>notes.service.ts\<close>) and \<open>Standards\<close> (\<^verbatim>\<open>standards.service.ts\<close>) are the
  services operation by operation. The update of a page is two definitions, \<open>update_begin\<close> (the checks on
  the row that was read) and \<open>update_commit\<close> (the transaction), because other requests run in between;
  the regular expressions are functions on lists of characters, and their scan ends because every
  match consumes a character. The walk to the ancestors of a page has the code's own bound of 20.

  Across the content. \<open>Page_History\<close>: the step relation \<open>history_step\<close> interleaves the checks and the
  transactions of updates with every other request; with an expected version no text is lost, a closed
  run shows that without one it is. \<open>Standard_Lifecycle\<close>: the relation \<open>standard_request\<close>,
  indexed by the actor of the request; a standard is active only as it was approved, by an actor whom the
  access decision allowed to, and its versions are complete. (The snapshot and the update of a standard are
  separate statements of the service; here a request is one step, so this is about requests that run
  one after the other.) \<open>Placement\<close>: the relation
  \<open>content_request\<close> over all five services keeps every page, standard and shared note in a space that
  allows it, under a category of its kind and space. \<open>Page_Tree\<close>: two accepted moves of folders that
  leave pages without an access decision, and what this does to lists.

  Backups. \<open>Backup_Schedule\<close> is the search for the next run of a plan (\<^verbatim>\<open>backup-schedule.ts\<close>, 15 days of
  minutes at most; a zone without changes of the clocks needs a week), \<open>Backup_Retention\<close> the choice of the
  backups to delete (\<^verbatim>\<open>backup-retention.ts\<close>), \<open>Backups\<close> destinations, plans and the table of jobs
  (\<^verbatim>\<open>backups.service.ts\<close>). \<open>Backup_Coordination\<close> has the locks and the write barrier
  (\<^verbatim>\<open>backup-coordination.service.ts\<close> and the interceptor in front of every request): the locale
  \<open>write_gate\<close> is what a snapshot needs, it is interpreted for the maps in memory and holds for the
  scripts in Redis, and \<open>gate_step\<close> interleaves requests and snapshots. \<open>Backup_Queue\<close> is the scheduler and
  the worker (\<^verbatim>\<open>backup-scheduler.service.ts\<close>, \<^verbatim>\<open>backup-job-worker.service.ts\<close>) on that table; \<open>queue_step\<close>
  interleaves them with the administration, whatever the locks say: a due run is planned once, a job is
  run once, and a job whose worker died is never finished.

  Parameters. \<open>localeCompare\<close> and the collation of the database, \<open>slugify\<close>, JWT signing and verification,
  SHA-256, bcrypt, encryption, URL parsing, name resolution, time zones, the commands of Redis, the
  answers of other servers, fresh ids and secrets, and the clock are arguments; one request reads the
  clock once. Strings are lists of characters with code points below 256.

  Not modelled: the audit log, notifications, counters and log lines of the modelled services; the
  graph of pages (\<open>findGraph\<close>, which only reads), search, media, export, the storage of backups,
  integrations, mail delivery, the knowledge services and MCP tools over the modelled ones, the controllers and the front
  end. Rendering, network and file system code has no state of its own to verify.
\<close>

end
